(* ===== verification/Prelude.thy ===== *)
theory Prelude
  imports Main "HOL-Library.Word" "HOL-Library.Monad_Syntax"
begin

text \<open>
  What every part of the development shares: bytes and the little-endian memory images of the
  fixed-width integers the archive writes with \<^verbatim>\<open>memcpy\<close>-style casts, the ranges of the signed
  ones, and generic list facts.

  A \<^verbatim>\<open>std::string\<close> and a \<^verbatim>\<open>std::vector<char>\<close> are byte sequences (the code never looks at
  characters, only at bytes). \<^verbatim>\<open>uint8_t\<close>, \<^verbatim>\<open>uint32_t\<close> and \<^verbatim>\<open>uint64_t\<close> are words of their width.
  \<^verbatim>\<open>int32_t\<close> and \<^verbatim>\<open>int64_t\<close> are integers, and their image in memory is two's complement of the width,
  so that a value read back is the value written exactly when it is in range. The archive files are
  read and written by the same little-endian hosts (x86 and ARM), which the images assume.
\<close>

subsection \<open>Named collections\<close>

named_theorems wire_simps \<open>lengths and round trips of the memory images\<close>
named_theorems stream_simps \<open>the byte view of the operations of a binary stream\<close>
named_theorems flag_simps \<open>reading a bit of the flag word after writing one\<close>

subsection \<open>Types\<close>

type_synonym byte = "8 word"
type_synonym bytes = "byte list"
type_synonym cstring = "byte list"
type_synonym u8 = "8 word"
type_synonym u32 = "32 word"
type_synonym u64 = "64 word"

definition cstr :: "string \<Rightarrow> cstring" where
  "cstr s = map of_char s"

subsection \<open>Little-endian images\<close>

fun le_enc :: "nat \<Rightarrow> nat \<Rightarrow> bytes" where
  "le_enc 0 x = []"
| "le_enc (Suc n) x = word_of_nat (x mod 256) # le_enc n (x div 256)"

fun le_dec :: "bytes \<Rightarrow> nat" where
  "le_dec [] = 0"
| "le_dec (b # bs) = unat b + 256 * le_dec bs"

lemma unat_u8_bound: "unat (w :: u8) < 256"
  by (rule order_less_le_trans [OF unsigned_less]) simp

lemma unat_u32_bound: "unat (w :: u32) < 2 ^ 32"
  by (rule order_less_le_trans [OF unsigned_less]) simp

lemma unat_u64_bound: "unat (w :: u64) < 2 ^ 64"
  by (rule order_less_le_trans [OF unsigned_less]) simp

lemma length_le_enc [simp, wire_simps]: "length (le_enc n x) = n"
  by (induction n arbitrary: x) auto

lemma unat_byte_of_mod: "unat (word_of_nat (x mod 256) :: byte) = x mod 256"
  by (simp add: unat_of_nat)

lemma le_dec_enc [wire_simps]: "le_dec (le_enc n x) = x mod 256 ^ n"
proof (induction n arbitrary: x)
  case 0
  show ?case by simp
next
  case (Suc n)
  have "x mod 256 + 256 * (x div 256 mod 256 ^ n) = x mod (256 * 256 ^ n)"
    by (simp add: mod_mult2_eq)
  with Suc show ?case by (simp add: unat_byte_of_mod)
qed

lemma le_dec_bound: "le_dec bs < 256 ^ length bs"
proof (induction bs)
  case Nil
  show ?case by simp
next
  case (Cons b bs)
  have "unat b < 256" by (rule unat_u8_bound)
  with Cons show ?case by (simp add: algebra_simps)
qed

lemma le_enc_dec: "le_enc (length bs) (le_dec bs) = bs"
proof (induction bs)
  case Nil
  show ?case by simp
next
  case (Cons b bs)
  have b: "unat b < 256" by (rule unat_u8_bound)
  then have "(unat b + 256 * le_dec bs) mod 256 = unat b"
    and "(unat b + 256 * le_dec bs) div 256 = le_dec bs" by auto
  with Cons show ?case by simp
qed

subsection \<open>The images of the integer types\<close>

definition u32_image :: "u32 \<Rightarrow> bytes" where
  "u32_image w = le_enc 4 (unat w)"

definition u64_image :: "u64 \<Rightarrow> bytes" where
  "u64_image w = le_enc 8 (unat w)"

definition i32_image :: "int \<Rightarrow> bytes" where
  "i32_image i = le_enc 4 (nat (i mod 2 ^ 32))"

definition i64_image :: "int \<Rightarrow> bytes" where
  "i64_image i = le_enc 8 (nat (i mod 2 ^ 64))"

definition bool_image :: "bool \<Rightarrow> bytes" where
  "bool_image b = [if b then 1 else 0]"

definition u32_value :: "bytes \<Rightarrow> u32" where
  "u32_value bs = word_of_nat (le_dec bs)"

definition u64_value :: "bytes \<Rightarrow> u64" where
  "u64_value bs = word_of_nat (le_dec bs)"

definition i32_value :: "bytes \<Rightarrow> int" where
  "i32_value bs = (let n = int (le_dec bs) in if n < 2 ^ 31 then n else n - 2 ^ 32)"

definition i64_value :: "bytes \<Rightarrow> int" where
  "i64_value bs = (let n = int (le_dec bs) in if n < 2 ^ 63 then n else n - 2 ^ 64)"

definition bool_value :: "bytes \<Rightarrow> bool" where
  "bool_value bs = (le_dec bs \<noteq> 0)"

text \<open>The value of a signed integer type, and the largest \<^verbatim>\<open>int64_t\<close>.\<close>

definition i32_range :: "int \<Rightarrow> bool" where
  "i32_range i \<longleftrightarrow> - (2 ^ 31) \<le> i \<and> i < 2 ^ 31"

definition i64_range :: "int \<Rightarrow> bool" where
  "i64_range i \<longleftrightarrow> - (2 ^ 63) \<le> i \<and> i < 2 ^ 63"

definition i64_max :: int where
  "i64_max = 2 ^ 63 - 1"

text \<open>
  A signed 64-bit value compared with a \<^verbatim>\<open>size_t\<close> is converted to \<^verbatim>\<open>uint64_t\<close> first: a negative
  value becomes at least \<^term>\<open>(2::int) ^ 63\<close> and is not below any size an object can have.
\<close>

definition lt_size :: "int \<Rightarrow> nat \<Rightarrow> bool" where
  "lt_size i n \<longleftrightarrow> 0 \<le> i \<and> i < int n"

lemma lt_size_conversion:
  "- (2 ^ 63) \<le> i \<Longrightarrow> i < 2 ^ 63 \<Longrightarrow> n < 2 ^ 63 \<Longrightarrow> lt_size i n \<longleftrightarrow> i mod 2 ^ 64 < int n"
proof (cases "0 \<le> i")
  case False
  assume "- (2 ^ 63) \<le> i" and n: "n < 2 ^ 63"
  with False have "i mod 2 ^ 64 = i + 2 ^ 64"
    by (intro int_mod_pos_eq [where q = "-1"]) auto
  moreover have "int n < 2 ^ 63" using n by (simp add: nat_less_iff [symmetric] nat_power_eq)
  ultimately show ?thesis using False \<open>- (2 ^ 63) \<le> i\<close> by (simp add: lt_size_def)
qed (simp add: lt_size_def)

lemma length_u32_image [simp, wire_simps]: "length (u32_image w) = 4"
  by (simp add: u32_image_def)

lemma length_u64_image [simp, wire_simps]: "length (u64_image w) = 8"
  by (simp add: u64_image_def)

lemma length_i32_image [simp, wire_simps]: "length (i32_image i) = 4"
  by (simp add: i32_image_def)

lemma length_i64_image [simp, wire_simps]: "length (i64_image i) = 8"
  by (simp add: i64_image_def)

lemma length_bool_image [simp, wire_simps]: "length (bool_image b) = 1"
  by (simp add: bool_image_def)

lemma u32_value_image [simp, wire_simps]: "u32_value (u32_image w) = w"
proof -
  have "unat w mod 256 ^ 4 = unat w" using unat_u32_bound [of w] by simp
  then show ?thesis by (simp add: u32_value_def u32_image_def le_dec_enc)
qed

lemma u64_value_image [simp, wire_simps]: "u64_value (u64_image w) = w"
proof -
  have "unat w mod 256 ^ 8 = unat w" using unat_u64_bound [of w] by simp
  then show ?thesis by (simp add: u64_value_def u64_image_def le_dec_enc)
qed

lemma i32_value_image [simp, wire_simps]: "i32_range i \<Longrightarrow> i32_value (i32_image i) = i"
proof -
  assume r: "i32_range i"
  have "int (nat (i mod 2 ^ 32) mod 256 ^ 4) = i mod 2 ^ 32"
    by (simp add: zmod_int)
  moreover have "i mod 2 ^ 32 = (if 0 \<le> i then i else i + 2 ^ 32)"
    using r by (auto simp: i32_range_def intro: int_mod_pos_eq [where q = 0] int_mod_pos_eq [where q = "-1"])
  ultimately show ?thesis
    using r by (auto simp: i32_value_def i32_image_def le_dec_enc i32_range_def Let_def)
qed

lemma i64_value_image [simp, wire_simps]: "i64_range i \<Longrightarrow> i64_value (i64_image i) = i"
proof -
  assume r: "i64_range i"
  have "int (nat (i mod 2 ^ 64) mod 256 ^ 8) = i mod 2 ^ 64"
    by (simp add: zmod_int)
  moreover have "i mod 2 ^ 64 = (if 0 \<le> i then i else i + 2 ^ 64)"
    using r by (auto simp: i64_range_def intro: int_mod_pos_eq [where q = 0] int_mod_pos_eq [where q = "-1"])
  ultimately show ?thesis
    using r by (auto simp: i64_value_def i64_image_def le_dec_enc i64_range_def Let_def)
qed

lemma bool_value_image [simp, wire_simps]: "bool_value (bool_image b) = b"
  by (simp add: bool_value_def bool_image_def)

lemma i64_value_range: "length bs = 8 \<Longrightarrow> i64_range (i64_value bs)"
  using le_dec_bound [of bs] by (simp add: i64_value_def i64_range_def Let_def)

lemma u32_value_length: "n < 2 ^ 32 \<Longrightarrow> unat (word_of_nat n :: u32) = n"
  by (simp add: unat_of_nat)

lemma neg_uint_less [simp]: "- uint (w :: 'a::len word) < numeral k"
  by (rule order_le_less_trans [of _ 0]) simp_all

lemma nat_int_diff: "nat (int a - int b) = a - b"
  by linarith

subsection \<open>Lists\<close>

text \<open>Writing \<open>bs\<close> over a buffer from a position on.\<close>

definition overwrite :: "bytes \<Rightarrow> nat \<Rightarrow> bytes \<Rightarrow> bytes" where
  "overwrite buf pos bs = take pos buf @ bs @ drop (pos + length bs) buf"

text \<open>\<^verbatim>\<open>std::vector::resize(n, v)\<close>.\<close>

definition resize :: "nat \<Rightarrow> byte \<Rightarrow> bytes \<Rightarrow> bytes" where
  "resize n v buf = take n buf @ replicate (n - length buf) v"

lemma length_resize [simp]: "length (resize n v buf) = n"
  by (simp add: resize_def)

lemma length_overwrite [simp]:
  "pos + length bs \<le> length buf \<Longrightarrow> length (overwrite buf pos bs) = length buf"
  by (simp add: overwrite_def)

lemma take_resize [simp]: "m \<le> n \<Longrightarrow> m \<le> length buf \<Longrightarrow> take m (resize n v buf) = take m buf"
  by (simp add: resize_def min_def)

lemma take_overwrite [simp]: "pos \<le> length buf \<Longrightarrow> m \<le> pos \<Longrightarrow> take m (overwrite buf pos bs) = take m buf"
  by (simp add: overwrite_def min_def)

lemma take_overwrite_end [simp]:
  "pos \<le> length buf \<Longrightarrow> take (pos + length bs) (overwrite buf pos bs) = take pos buf @ bs"
  by (simp add: overwrite_def)

lemma slice_take_drop: "take n (drop m (take k xs)) = take (min n (k - m)) (drop m xs)"
  by (simp add: drop_take min.commute)

end
