(* ===== verification/Binary_Stream.thy ===== *)
theory Binary_Stream
  imports Prelude
begin

text \<open>
  \<^verbatim>\<open>core/tools/binary_stream.h\<close> and \<^verbatim>\<open>core/tools/binary_stream_reader.cpp\<close>: a growing byte buffer with
  an input cursor (where the next write goes) and an output cursor (where the next read starts).
  The cursors are \<^verbatim>\<open>int64_t\<close> in the code; no caller makes one negative, so they are naturals here,
  while \<open>available\<close>, their difference, is an integer because \<open>set_output\<close> may pass the input cursor.

  \<open>read\<close> returns a pointer into the buffer, or \<^verbatim>\<open>nullptr\<close> when the request is empty or larger than
  what is available. A null result is \<open>None\<close> and leaves the stream alone; the typed reads dereference
  the pointer at once, so for them \<open>None\<close> is a null dereference, the crash of the program.

  The abstract view is \<open>pending\<close>, the bytes between the cursors; the locale \<open>byte_queue\<close> states the
  first-in first-out contract that the readers and writers of the archive rely on.
\<close>

subsection \<open>The buffer and its operations\<close>

record binary_stream =
  bs_buffer :: bytes
  bs_input :: nat
  bs_output :: nat

definition empty_stream :: binary_stream where
  "empty_stream = \<lparr>bs_buffer = [], bs_input = 0, bs_output = 0\<rparr>"

definition available :: "binary_stream \<Rightarrow> int" where
  "available s = int (bs_input s) - int (bs_output s)"

definition all_size :: "binary_stream \<Rightarrow> nat" where
  "all_size s = length (bs_buffer s)"

definition resize_stream :: "nat \<Rightarrow> binary_stream \<Rightarrow> binary_stream" where
  "resize_stream n s = s\<lparr>bs_buffer := resize n 0 (bs_buffer s)\<rparr>"

definition reserve :: "nat \<Rightarrow> binary_stream \<Rightarrow> binary_stream" where
  "reserve n s = (if length (bs_buffer s) < n then resize_stream n s else s)"

definition reset :: "binary_stream \<Rightarrow> binary_stream" where
  "reset s = s\<lparr>bs_input := 0, bs_output := 0\<rparr>"

definition reset_out :: "binary_stream \<Rightarrow> binary_stream" where
  "reset_out s = s\<lparr>bs_output := 0\<rparr>"

definition set_output :: "nat \<Rightarrow> binary_stream \<Rightarrow> binary_stream" where
  "set_output n s = s\<lparr>bs_output := n\<rparr>"

definition set_input :: "nat \<Rightarrow> binary_stream \<Rightarrow> binary_stream" where
  "set_input n s = s\<lparr>bs_input := n\<rparr>"

text \<open>
  \<^verbatim>\<open>alloc_buffer\<close> hands out the region behind the input cursor; the caller (a file read) then fills
  it. The result is the position of the region and the stream; \<open>poke\<close> is the store through the
  returned pointer.
\<close>

definition alloc_buffer :: "nat \<Rightarrow> binary_stream \<Rightarrow> nat \<times> binary_stream" where
  "alloc_buffer n s =
     (let need = bs_input s + n;
          buf = (if need > length (bs_buffer s) then resize (need * 2) 0 (bs_buffer s) else bs_buffer s)
      in (bs_input s, s\<lparr>bs_buffer := buf, bs_input := bs_input s + n\<rparr>))"

definition poke :: "nat \<Rightarrow> bytes \<Rightarrow> binary_stream \<Rightarrow> binary_stream" where
  "poke pos bs s = s\<lparr>bs_buffer := overwrite (bs_buffer s) pos bs\<rparr>"

definition write_bytes :: "bytes \<Rightarrow> binary_stream \<Rightarrow> binary_stream" where
  "write_bytes bs s =
     (if bs = [] then s
      else let need = bs_input s + length bs;
               buf = (if need > length (bs_buffer s) then resize (need + 1) 0 (bs_buffer s)
                      else bs_buffer s)
           in s\<lparr>bs_buffer := overwrite buf (bs_input s) bs, bs_input := need\<rparr>)"

definition read_bytes :: "nat \<Rightarrow> binary_stream \<Rightarrow> (bytes \<times> binary_stream) option" where
  "read_bytes n s =
     (if n = 0 then None
      else if available s < int n then None
      else Some (take n (drop (bs_output s) (bs_buffer s)), s\<lparr>bs_output := bs_output s + n\<rparr>))"

definition read_available :: "binary_stream \<Rightarrow> (bytes \<times> binary_stream) option" where
  "read_available s =
     (if available s = 0 then None
      else Some (take (nat (available s)) (drop (bs_output s) (bs_buffer s)),
                 s\<lparr>bs_output := nat (int (bs_output s) + available s)\<rparr>))"

text \<open>The typed reads, \<^verbatim>\<open>*((t_*) read(sizeof(t_)))\<close>.\<close>

definition read_u8 :: "binary_stream \<Rightarrow> (u8 \<times> binary_stream) option" where
  "read_u8 s = do { (b, s') \<leftarrow> read_bytes 1 s; Some (hd b, s') }"

definition read_u32 :: "binary_stream \<Rightarrow> (u32 \<times> binary_stream) option" where
  "read_u32 s = do { (b, s') \<leftarrow> read_bytes 4 s; Some (u32_value b, s') }"

definition read_u64 :: "binary_stream \<Rightarrow> (u64 \<times> binary_stream) option" where
  "read_u64 s = do { (b, s') \<leftarrow> read_bytes 8 s; Some (u64_value b, s') }"

definition read_i64 :: "binary_stream \<Rightarrow> (int \<times> binary_stream) option" where
  "read_i64 s = do { (b, s') \<leftarrow> read_bytes 8 s; Some (i64_value b, s') }"

definition read_bool :: "binary_stream \<Rightarrow> (bool \<times> binary_stream) option" where
  "read_bool s = do { (b, s') \<leftarrow> read_bytes 1 s; Some (bool_value b, s') }"

subsection \<open>The bytes between the cursors\<close>

definition pending :: "binary_stream \<Rightarrow> bytes" where
  "pending s = take (bs_input s - bs_output s) (drop (bs_output s) (bs_buffer s))"

definition wf_stream :: "binary_stream \<Rightarrow> bool" where
  "wf_stream s \<longleftrightarrow> bs_output s \<le> bs_input s \<and> bs_input s \<le> length (bs_buffer s)"

definition advance :: "nat \<Rightarrow> binary_stream \<Rightarrow> binary_stream" where
  "advance n s = s\<lparr>bs_output := bs_output s + n\<rparr>"

lemma length_pending: "wf_stream s \<Longrightarrow> length (pending s) = bs_input s - bs_output s"
  by (auto simp: pending_def wf_stream_def)

lemma available_pending [stream_simps]: "wf_stream s \<Longrightarrow> available s = int (length (pending s))"
  by (simp add: available_def length_pending) (simp add: wf_stream_def)

lemma pending_empty [simp, stream_simps]: "pending empty_stream = []"
  by (simp add: pending_def empty_stream_def)

lemma wf_empty [simp]: "wf_stream empty_stream"
  by (simp add: wf_stream_def empty_stream_def)

lemma pending_reset [simp, stream_simps]: "pending (reset s) = []"
  by (simp add: pending_def reset_def)

lemma wf_reset [simp]: "wf_stream (reset s)"
  by (simp add: wf_stream_def reset_def)

lemma wf_reserve [simp]: "wf_stream s \<Longrightarrow> wf_stream (reserve n s)"
  by (simp add: wf_stream_def reserve_def resize_stream_def)

lemma pending_reserve [simp, stream_simps]: "wf_stream s \<Longrightarrow> pending (reserve n s) = pending s"
  by (simp add: wf_stream_def reserve_def resize_stream_def pending_def resize_def drop_take)

lemma pending_via_take: "wf_stream s \<Longrightarrow> pending s = drop (bs_output s) (take (bs_input s) (bs_buffer s))"
  by (simp add: wf_stream_def pending_def drop_take)

lemma wf_write [simp]: "wf_stream s \<Longrightarrow> wf_stream (write_bytes bs s)"
  by (auto simp: wf_stream_def write_bytes_def Let_def overwrite_def)

lemma pending_write [simp, stream_simps]: "wf_stream s \<Longrightarrow> pending (write_bytes bs s) = pending s @ bs"
proof (cases "bs = []")
  case True
  then show ?thesis by (simp add: write_bytes_def)
next
  case False
  assume wf: "wf_stream s"
  let ?need = "bs_input s + length bs"
  let ?buf = "if ?need > length (bs_buffer s) then resize (?need + 1) 0 (bs_buffer s) else bs_buffer s"
  have len: "bs_input s \<le> length ?buf" using wf by (simp add: wf_stream_def)
  have "take (bs_input s) ?buf = take (bs_input s) (bs_buffer s)"
    using wf by (simp add: wf_stream_def resize_def)
  with len have "take ?need (overwrite ?buf (bs_input s) bs) = take (bs_input s) (bs_buffer s) @ bs"
    by (subst take_overwrite_end) simp_all
  then show ?thesis
    using wf False pending_via_take [OF wf_write [OF wf, of bs]]
    by (simp add: write_bytes_def Let_def pending_via_take wf_stream_def)
qed

lemma output_write [simp]: "bs_output (write_bytes bs s) = bs_output s"
  by (simp add: write_bytes_def Let_def)

lemma read_pending [stream_simps]:
  "wf_stream s \<Longrightarrow> 0 < n \<Longrightarrow> n \<le> length (pending s) \<Longrightarrow> read_bytes n s = Some (take n (pending s), advance n s)"
  by (simp add: read_bytes_def available_pending advance_def length_pending)
    (simp add: pending_def min_def)

lemma read_too_much [stream_simps]: "wf_stream s \<Longrightarrow> length (pending s) < n \<Longrightarrow> read_bytes n s = None"
  by (simp add: read_bytes_def available_pending)

lemma read_none [simp]: "read_bytes 0 s = None"
  by (simp add: read_bytes_def)

lemma pending_advance [simp, stream_simps]: "pending (advance n s) = drop n (pending s)"
  by (simp add: pending_def advance_def drop_take add.commute)

lemma wf_advance [simp]: "wf_stream s \<Longrightarrow> n \<le> length (pending s) \<Longrightarrow> wf_stream (advance n s)"
  by (auto simp: length_pending) (auto simp: advance_def wf_stream_def)

lemma read_available_pending:
  "wf_stream s \<Longrightarrow> pending s \<noteq> [] \<Longrightarrow> read_available s = Some (pending s, advance (length (pending s)) s)"
  by (simp add: read_available_def available_pending advance_def nat_add_distrib length_pending)
    (simp add: pending_def nat_int_diff)

lemma alloc_poke:
  assumes wf: "wf_stream s" and n: "length bs = n"
  shows "case alloc_buffer n s of (pos, s') \<Rightarrow>
     wf_stream s' \<and> wf_stream (poke pos bs s') \<and> pending (poke pos bs s') = pending s @ bs"
proof -
  let ?need = "bs_input s + n"
  let ?buf = "if ?need > length (bs_buffer s) then resize (?need * 2) 0 (bs_buffer s) else bs_buffer s"
  have len: "?need \<le> length ?buf" by simp
  have tk: "take (bs_input s) ?buf = take (bs_input s) (bs_buffer s)"
    using wf by (simp add: wf_stream_def resize_def)
  have "take ?need (overwrite ?buf (bs_input s) bs) = take (bs_input s) ?buf @ bs"
    using len n by (auto intro: take_overwrite_end)
  moreover have "length (overwrite ?buf (bs_input s) bs) = length ?buf"
    using len n by (intro length_overwrite) simp
  ultimately show ?thesis
    using wf len tk
    by (auto simp: alloc_buffer_def poke_def Let_def wf_stream_def pending_def drop_take [symmetric])
qed

subsection \<open>The contract of a byte queue\<close>

text \<open>
  What the serializers rely on: bytes come out in the order they went in, a read that asks for no
  more than is there returns exactly the next bytes, and a larger one is refused.
\<close>

locale byte_queue =
  fixes put :: "bytes \<Rightarrow> 's \<Rightarrow> 's"
    and get :: "nat \<Rightarrow> 's \<Rightarrow> (bytes \<times> 's) option"
    and view :: "'s \<Rightarrow> bytes"
    and ok :: "'s \<Rightarrow> bool"
  assumes view_put: "ok s \<Longrightarrow> view (put bs s) = view s @ bs"
    and ok_put: "ok s \<Longrightarrow> ok (put bs s)"
    and get_some: "ok s \<Longrightarrow> 0 < n \<Longrightarrow> n \<le> length (view s) \<Longrightarrow>
      \<exists>s'. get n s = Some (take n (view s), s') \<and> ok s' \<and> view s' = drop n (view s)"
    and get_none: "ok s \<Longrightarrow> length (view s) < n \<Longrightarrow> get n s = None"
begin

lemma get_prefix:
  assumes "ok s" and "view s = bs @ rest" and "bs \<noteq> []"
  obtains s' where "get (length bs) s = Some (bs, s')" and "ok s'" and "view s' = rest"
proof -
  from get_some [of s "length bs"] assms
  obtain s' where "get (length bs) s = Some (take (length bs) (view s), s')" "ok s'"
    "view s' = drop (length bs) (view s)" by auto
  with assms(2) show ?thesis by (intro that) auto
qed

lemma view_puts: "ok s \<Longrightarrow> view (fold put bss s) = view s @ concat bss \<and> ok (fold put bss s)"
  by (induction bss arbitrary: s) (simp_all add: view_put ok_put)

lemma put_then_get:
  assumes "ok s" and "view s = []" and "bs \<noteq> []"
  obtains s' where "get (length bs) (put bs s) = Some (bs, s')" and "ok s'" and "view s' = []"
  using assms get_prefix [of "put bs s" bs "[]"] by (auto simp: view_put ok_put)

text \<open>A read either hands out what it was asked for or nothing: it never returns a short chunk.\<close>

lemma get_all_or_nothing:
  assumes "ok s" and "get n s = Some (bs, s')" and "0 < n"
  shows "length bs = n \<and> view s = bs @ view s'"
proof (cases "n \<le> length (view s)")
  case True
  with get_some [OF assms(1,3)] assms(2) show ?thesis by auto
next
  case False
  with get_none [OF assms(1)] assms(2) show ?thesis by simp
qed

end

interpretation bsq: byte_queue write_bytes read_bytes pending wf_stream
  by unfold_locales (auto simp: stream_simps)

subsection \<open>Typed reads of a well-formed stream\<close>

lemma read_u8_prefix [stream_simps]:
  "wf_stream s \<Longrightarrow> pending s = b # rest \<Longrightarrow> read_u8 s = Some (b, advance 1 s)"
  by (simp add: read_u8_def read_pending)

lemma read_u32_prefix [stream_simps]:
  "wf_stream s \<Longrightarrow> 4 \<le> length (pending s) \<Longrightarrow> read_u32 s = Some (u32_value (take 4 (pending s)), advance 4 s)"
  by (simp add: read_u32_def read_pending)

lemma read_u64_prefix [stream_simps]:
  "wf_stream s \<Longrightarrow> 8 \<le> length (pending s) \<Longrightarrow> read_u64 s = Some (u64_value (take 8 (pending s)), advance 8 s)"
  by (simp add: read_u64_def read_pending)

lemma read_i64_prefix [stream_simps]:
  "wf_stream s \<Longrightarrow> 8 \<le> length (pending s) \<Longrightarrow> read_i64 s = Some (i64_value (take 8 (pending s)), advance 8 s)"
  by (simp add: read_i64_def read_pending)

lemma read_bool_prefix [stream_simps]:
  "wf_stream s \<Longrightarrow> 1 \<le> length (pending s) \<Longrightarrow> read_bool s = Some (bool_value (take 1 (pending s)), advance 1 s)"
  by (simp add: read_bool_def read_pending)

lemma read_u8_crash: "wf_stream s \<Longrightarrow> pending s = [] \<Longrightarrow> read_u8 s = None"
  by (simp add: read_u8_def read_too_much)

lemma read_u32_crash: "wf_stream s \<Longrightarrow> length (pending s) < 4 \<Longrightarrow> read_u32 s = None"
  by (simp add: read_u32_def read_too_much)

lemma read_bool_crash: "wf_stream s \<Longrightarrow> pending s = [] \<Longrightarrow> read_bool s = None"
  by (simp add: read_bool_def read_too_much)

subsection \<open>Reading lines\<close>

text \<open>
  \<^verbatim>\<open>binary_stream_reader::readline\<close>: carriage returns are dropped, a line feed ends the line, and so
  does the end of the stream. The loop reads one byte per round, so what is available shrinks.
\<close>

function readline_loop :: "cstring \<Rightarrow> binary_stream \<Rightarrow> (cstring \<times> binary_stream) option" where
  "readline_loop result s =
     (if available s > 0 then
        (case read_bytes 1 s of
           None \<Rightarrow> None
         | Some (ch, s') \<Rightarrow>
             if hd ch = 13 then readline_loop result s'
             else if hd ch = 10 then Some (result, s')
             else readline_loop (result @ [hd ch]) s')
      else Some (result, s))"
  by pat_completeness auto
termination
  by (relation "measure (\<lambda>(r, s). nat (available s))")
    (auto simp: read_bytes_def available_def split: if_splits)

declare readline_loop.simps [simp del]

definition readline :: "binary_stream \<Rightarrow> (cstring \<times> binary_stream) option" where
  "readline s = readline_loop [] s"

definition eof :: "binary_stream \<Rightarrow> bool" where
  "eof s \<longleftrightarrow> available s = 0"

text \<open>The line at the head of a byte list and what follows it.\<close>

fun line_of :: "bytes \<Rightarrow> cstring \<times> bytes" where
  "line_of [] = ([], [])"
| "line_of (b # bs) =
     (if b = 13 then line_of bs
      else if b = 10 then ([], bs)
      else (b # fst (line_of bs), snd (line_of bs)))"

lemma readline_loop_line_of:
  "wf_stream s \<Longrightarrow> pending s = bs \<Longrightarrow>
     \<exists>s'. readline_loop r s = Some (r @ fst (line_of bs), s') \<and> wf_stream s' \<and> pending s' = snd (line_of bs)"
proof (induction bs arbitrary: r s)
  case Nil
  then show ?case by (simp add: readline_loop.simps [of r s] available_pending)
next
  case (Cons b bs)
  let ?s = "advance 1 s"
  have s: "wf_stream ?s" "pending ?s = bs" using Cons.prems by auto
  have rd: "available s > 0" "read_bytes 1 s = Some ([b], ?s)"
    using Cons.prems by (simp_all add: available_pending read_pending)
  show ?case
    using Cons.IH [OF s, of r] Cons.IH [OF s, of "r @ [b]"] rd s
    by (subst readline_loop.simps) simp
qed

text \<open>A binary stream is a queue of bytes. After any sequence of writes a read of \<open>n\<close> bytes gives the
  oldest \<open>n\<close> of the bytes that were pending or written and leaves the others, and asking for more than
  there is gives the null pointer.\<close>

theorem stream_is_fifo:
  assumes "wf_stream s"
  shows "let all = pending s @ concat bss; s1 = fold write_bytes bss s
    in pending s1 = all \<and>
      (\<forall>n. 0 < n \<and> n \<le> length all \<longrightarrow>
        (\<exists>s2. read_bytes n s1 = Some (take n all, s2) \<and> wf_stream s2 \<and> pending s2 = drop n all)) \<and>
      (\<forall>n. length all < n \<longrightarrow> read_bytes n s1 = None)"
  using bsq.view_puts [OF assms, of bss] bsq.get_some [of "fold write_bytes bss s"]
    bsq.get_none [of "fold write_bytes bss s"] by simp

theorem stream_is_fifo_witness:
  "\<exists>s'. read_bytes 2 (fold write_bytes [[1], [2, 3]] empty_stream) = Some ([1, 2], s') \<and> pending s' = [3]"
  using stream_is_fifo [of empty_stream "[[1], [2, 3]]"] by (auto simp: Let_def dest!: spec [of _ 2])

text \<open>\<open>readline\<close> returns the bytes before the first line feed without the carriage returns, and leaves
  what follows the line feed.\<close>

lemma readline_reads_one_line:
  assumes "wf_stream s" and "pending s = line @ 10 # rest" and "10 \<notin> set line"
  shows "\<exists>s'. readline s = Some (filter (\<lambda>b. b \<noteq> 13) line, s') \<and> wf_stream s' \<and> pending s' = rest"
proof -
  have "line_of (line @ 10 # rest) = (filter (\<lambda>b. b \<noteq> 13) line, rest)"
    using assms(3) by (induction line) auto
  with readline_loop_line_of [OF assms(1,2), of "[]"] show ?thesis by (simp add: readline_def)
qed

lemma readline_reads_one_line_example:
  "\<exists>s'. readline (write_bytes [65, 13, 10, 66] empty_stream) = Some ([65], s') \<and> pending s' = [66]"
  using readline_reads_one_line [of "write_bytes [65, 13, 10, 66] empty_stream" "[65, 13]" "[66]"] by auto

end
