(* ===== verification/Framing.thy ===== *)
theory Framing
  imports Prelude
begin

text \<open>
  The archive frames three kinds of items in the same manner, one after another in a byte source:
  the fields of a tlv pack in a binary stream, the headers of an index block in a binary stream, and
  the data blocks in a file. The locale \<open>framing\<close> is that interface: a source in a good state whose
  bytes start with the encoding of an item hands out that item and stands behind it. The lemmas
  follow a whole sequence of items; each reader loop interprets the locale and rests on them.
\<close>

locale framing =
  fixes enc :: "'a \<Rightarrow> bytes"
    and next_item :: "'s \<Rightarrow> ('b \<times> 's) option"
    and rest :: "'s \<Rightarrow> bytes"
    and ok :: "'s \<Rightarrow> bool"
    and good :: "'a \<Rightarrow> bool"
    and repr :: "'b \<Rightarrow> 'a"
  assumes next_enc: "ok s \<Longrightarrow> good x \<Longrightarrow> rest s = enc x @ r \<Longrightarrow>
      \<exists>y s'. next_item s = Some (y, s') \<and> repr y = x \<and> ok s' \<and> rest s' = r"
    and enc_nonempty: "good x \<Longrightarrow> enc x \<noteq> []"
begin

text \<open>A run of the reader: the items it hands out, in order, and the source it ends in.\<close>

inductive run :: "'s \<Rightarrow> 'b list \<Rightarrow> 's \<Rightarrow> bool" where
  run_stop: "run s [] s"
| run_step: "next_item s = Some (y, s') \<Longrightarrow> run s' ys s'' \<Longrightarrow> run s (y # ys) s''"

lemma run_encoded:
  assumes "ok s" and "list_all good xs" and "rest s = concat (map enc xs) @ r"
  obtains ys s' where "run s ys s'" and "map repr ys = xs" and "ok s'" and "rest s' = r"
  using assms
proof (induction xs arbitrary: s thesis)
  case Nil
  show ?case by (rule Nil.prems(1) [OF run_stop]) (use Nil.prems in simp_all)
next
  case (Cons x xs)
  have "rest s = enc x @ (concat (map enc xs) @ r)" and "good x" and xs: "list_all good xs"
    using Cons.prems by simp_all
  with next_enc [OF Cons.prems(2)] obtain y s1 where y: "next_item s = Some (y, s1)" "repr y = x"
    and s1: "ok s1" "rest s1 = concat (map enc xs) @ r" by blast
  from Cons.IH [OF _ s1(1) xs s1(2)] obtain ys s' where "run s1 ys s'" "map repr ys = xs" "ok s'"
    "rest s' = r" by blast
  with y show ?case by (intro Cons.prems(1) [OF run_step]) auto
qed

text \<open>A loop that consumes items with a step function arrives where the run arrives.\<close>

lemma run_loop:
  assumes "run s ys s'"
    and step: "\<And>s y s' acc. next_item s = Some (y, s') \<Longrightarrow> loop acc s = loop (f y acc) s'"
  shows "loop acc s = loop (fold f ys acc) s'"
  using assms(1)
proof (induction arbitrary: acc rule: run.induct)
  case (run_stop s)
  show ?case by simp
next
  case (run_step s y s' ys s'')
  then show ?case by (simp add: step)
qed

text \<open>As long as items are left, the source is not empty.\<close>

lemma rest_nonempty: "good x \<Longrightarrow> rest s = enc x @ r \<Longrightarrow> rest s \<noteq> []"
  using enc_nonempty by auto

end

end
