(* ===== verification/Tlv.thy ===== *)
theory Tlv
  imports Binary_Stream Framing
begin

text \<open>
  \<^verbatim>\<open>core/tools/tlv.h\<close> and \<^verbatim>\<open>core/tools/tlv.cpp\<close>: a field is a type, a length and a value; a pack is a
  list of fields. Messages, dialog states and the index are all stored as packs.

  The value of a field lives in a private binary stream whose cursors are mutable: reading a value
  moves the output cursor and puts it back to 0, where every setter leaves it. The \<open>_io\<close> operations
  return the field with its cursors as the code leaves them; \<open>fresh_tlv\<close> is the state every setter
  establishes, and on a fresh field the value getters change nothing. A null dereference is \<open>None\<close>.
\<close>

record tlv =
  tlv_type :: u32
  tlv_value :: binary_stream

record tlvpack =
  tp_list :: "tlv list"
  tp_cursor :: nat

subsection \<open>Fields\<close>

definition tlv_default :: tlv where
  "tlv_default = \<lparr>tlv_type = 0, tlv_value = empty_stream\<rparr>"

text \<open>
  \<open>set_value\<close> for scalars and strings: reset the stream, write the memory image. An empty string
  writes nothing. A stream is copied with its cursors.
\<close>

definition set_value :: "bytes \<Rightarrow> tlv \<Rightarrow> tlv" where
  "set_value img t = t\<lparr>tlv_value := write_bytes img (reset (tlv_value t))\<rparr>"

definition mk_tlv :: "u32 \<Rightarrow> bytes \<Rightarrow> tlv" where
  "mk_tlv ty img = set_value img (tlv_default\<lparr>tlv_type := ty\<rparr>)"

definition mk_tlv_stream :: "u32 \<Rightarrow> binary_stream \<Rightarrow> tlv" where
  "mk_tlv_stream ty s = \<lparr>tlv_type = ty, tlv_value = s\<rparr>"

text \<open>
  \<open>serialize\<close> writes the type, the number of bytes available and the bytes. The read it does cannot
  fail, since it asks for what is available.
\<close>

definition tlv_serialize :: "tlv \<Rightarrow> binary_stream \<Rightarrow> tlv \<times> binary_stream" where
  "tlv_serialize t s =
     (let v = tlv_value t;
          s1 = write_bytes (u32_image (tlv_type t)) s;
          s2 = write_bytes (u32_image (word_of_int (available v))) s1
      in if available v > 0
         then case read_bytes (nat (available v)) v of
                Some (b, v') \<Rightarrow> (t\<lparr>tlv_value := reset_out v'\<rparr>, write_bytes b s2)
              | None \<Rightarrow> (t, s2)
         else (t, s2))"

text \<open>
  \<open>unserialize\<close> of a fresh field. Fewer than eight bytes are swallowed and reported as success with
  type 0; the comparison with \<^verbatim>\<open>sizeof\<close> is unsigned.
\<close>

definition tlv_unserialize :: "binary_stream \<Rightarrow> (bool \<times> tlv \<times> binary_stream) option" where
  "tlv_unserialize s =
     (if lt_size (available s) 8 then
        (case read_bytes (nat (available s)) s of
           None \<Rightarrow> Some (True, tlv_default, s)
         | Some (_, s') \<Rightarrow> Some (True, tlv_default, s'))
      else do {
        (ty, s1) \<leftarrow> read_u32 s;
        (len, s2) \<leftarrow> read_u32 s1;
        let t = tlv_default\<lparr>tlv_type := ty\<rparr>;
        if len = 0 then Some (True, t, s2)
        else if available s2 < uint len then Some (False, t, s2)
        else do {
          (b, s3) \<leftarrow> read_bytes (unat len) s2;
          Some (True, t\<lparr>tlv_value := write_bytes b (tlv_value t)\<rparr>, s3)
        }
      })"

text \<open>
  \<open>try_get_field_with_type\<close> looks for one field without copying: it either stands on the value and
  gives its length, or skips the field, or gives length 0.
\<close>

definition try_get_field_with_type :: "u32 \<Rightarrow> binary_stream \<Rightarrow> (bool \<times> u32 \<times> binary_stream) option" where
  "try_get_field_with_type ty s =
     (if lt_size (available s) 8 then Some (False, 0, s)
      else do {
        (ty', s1) \<leftarrow> read_u32 s;
        (len, s2) \<leftarrow> read_u32 s1;
        if len = 0 then Some (True, 0, s2)
        else if available s2 < uint len then Some (False, 0, s2)
        else if ty' = ty then Some (True, len, s2)
        else (case read_bytes (unat len) s2 of
                None \<Rightarrow> Some (True, 0, s2)
              | Some (_, s3) \<Rightarrow> Some (True, 0, s3))
      })"

subsection \<open>Packs\<close>

definition empty_pack :: tlvpack where
  "empty_pack = \<lparr>tp_list = [], tp_cursor = 0\<rparr>"

definition copy_pack :: "tlvpack \<Rightarrow> tlvpack" where
  "copy_pack p = empty_pack\<lparr>tp_list := tp_list p\<rparr>"

definition pack_size :: "tlvpack \<Rightarrow> nat" where
  "pack_size p = length (tp_list p)"

definition pack_empty :: "tlvpack \<Rightarrow> bool" where
  "pack_empty p \<longleftrightarrow> tp_list p = []"

definition push_child :: "tlv \<Rightarrow> tlvpack \<Rightarrow> tlvpack" where
  "push_child t p = p\<lparr>tp_list := tp_list p @ [t]\<rparr>"

definition get_item :: "tlvpack \<Rightarrow> u32 \<Rightarrow> tlv option" where
  "get_item p ty = find (\<lambda>x. tlv_type x = ty) (tp_list p)"

definition get_first :: "tlvpack \<Rightarrow> tlv option \<times> tlvpack" where
  "get_first p =
     (if tp_list p = [] then (None, p)
      else (Some (tp_list p ! 0), p\<lparr>tp_cursor := 0\<rparr>))"

definition get_next :: "tlvpack \<Rightarrow> tlv option \<times> tlvpack" where
  "get_next p =
     (if tp_list p = [] \<or> tp_cursor p = length (tp_list p) then (None, p)
      else let p' = p\<lparr>tp_cursor := Suc (tp_cursor p)\<rparr>
           in if tp_cursor p' = length (tp_list p') then (None, p')
              else (Some (tp_list p' ! tp_cursor p'), p'))"

fun serialize_fields :: "tlv list \<Rightarrow> binary_stream \<Rightarrow> tlv list \<times> binary_stream" where
  "serialize_fields [] s = ([], s)"
| "serialize_fields (t # ts) s =
     (case tlv_serialize t s of (t', s1) \<Rightarrow>
      case serialize_fields ts s1 of (ts', s2) \<Rightarrow> (t' # ts', s2))"

definition pack_serialize_io :: "tlvpack \<Rightarrow> binary_stream \<Rightarrow> tlvpack \<times> binary_stream" where
  "pack_serialize_io p s =
     (let total = sum_list (map (\<lambda>x. all_size (tlv_value x)) (tp_list p))
      in case serialize_fields (tp_list p) (reserve total s) of
           (ts, s') \<Rightarrow> (p\<lparr>tp_list := ts\<rparr>, s'))"

definition pack_serialize :: "tlvpack \<Rightarrow> binary_stream \<Rightarrow> binary_stream" where
  "pack_serialize p s = snd (pack_serialize_io p s)"

definition mk_tlv_pack :: "u32 \<Rightarrow> tlvpack \<Rightarrow> tlv" where
  "mk_tlv_pack ty p = \<lparr>tlv_type = ty, tlv_value = pack_serialize p empty_stream\<rparr>"

text \<open>
  \<open>tlvpack::unserialize\<close> reads fields until nothing is available and stops at the first refused
  field, keeping the ones before it.
\<close>

lemma tlv_unserialize_shrinks:
  "tlv_unserialize s = Some (b, t, s') \<Longrightarrow> available s \<noteq> 0 \<Longrightarrow> nat (available s') < nat (available s)"
  by (auto simp: tlv_unserialize_def read_u32_def read_bytes_def available_def bind_eq_Some_conv
      lt_size_def Let_def split: if_splits option.splits)

function unserialize_loop :: "tlv list \<Rightarrow> binary_stream \<Rightarrow> (bool \<times> tlv list \<times> binary_stream) option" where
  "unserialize_loop acc s =
     (if available s \<noteq> 0 then
        (case tlv_unserialize s of
           None \<Rightarrow> None
         | Some (b, t, s') \<Rightarrow>
             if b then unserialize_loop (acc @ [t]) s' else Some (False, acc, s'))
      else Some (True, acc, s))"
  by pat_completeness auto
termination
  by (relation "measure (\<lambda>(acc, s). nat (available s))") (use tlv_unserialize_shrinks in fastforce)+

declare unserialize_loop.simps [simp del]

definition pack_unserialize :: "tlvpack \<Rightarrow> binary_stream \<Rightarrow> (bool \<times> tlvpack \<times> binary_stream) option" where
  "pack_unserialize p s = do {
     (b, ts, s') \<leftarrow> unserialize_loop (tp_list p) s;
     Some (b, p\<lparr>tp_list := ts\<rparr>, s')
   }"

subsection \<open>Value getters\<close>

text \<open>
  \<open>get_value\<close> for a scalar of \<open>n\<close> bytes. When the value is shorter the result is \<^verbatim>\<open>T()\<close>, here \<open>None\<close>,
  whatever default was passed; the default is the initial value of a variable that the copy then
  overwrites whole.
\<close>

definition get_scalar_io :: "nat \<Rightarrow> tlv \<Rightarrow> bytes option \<times> tlv" where
  "get_scalar_io n t =
     (if lt_size (available (tlv_value t)) n then (None, t)
      else case read_bytes n (tlv_value t) of
             None \<Rightarrow> (None, t)
           | Some (b, v) \<Rightarrow> (Some b, t\<lparr>tlv_value := reset_out v\<rparr>))"

definition get_scalar :: "nat \<Rightarrow> tlv \<Rightarrow> bytes option" where
  "get_scalar n t = fst (get_scalar_io n t)"

definition get_i64_or :: "int \<Rightarrow> tlv \<Rightarrow> int" where
  "get_i64_or default_value t =
     (case get_scalar 8 t of None \<Rightarrow> 0
      | Some b \<Rightarrow> i64_value (overwrite (i64_image default_value) 0 b))"

definition get_i64 :: "tlv \<Rightarrow> int" where
  "get_i64 t = (case get_scalar 8 t of None \<Rightarrow> 0 | Some b \<Rightarrow> i64_value b)"

definition get_i32 :: "tlv \<Rightarrow> int" where
  "get_i32 t = (case get_scalar 4 t of None \<Rightarrow> 0 | Some b \<Rightarrow> i32_value b)"

definition get_u32 :: "tlv \<Rightarrow> u32" where
  "get_u32 t = (case get_scalar 4 t of None \<Rightarrow> 0 | Some b \<Rightarrow> u32_value b)"

definition get_u64 :: "tlv \<Rightarrow> u64" where
  "get_u64 t = (case get_scalar 8 t of None \<Rightarrow> 0 | Some b \<Rightarrow> u64_value b)"

definition get_bool :: "tlv \<Rightarrow> bool" where
  "get_bool t = (case get_scalar 1 t of None \<Rightarrow> False | Some b \<Rightarrow> bool_value b)"

definition get_string_io :: "cstring \<Rightarrow> tlv \<Rightarrow> cstring \<times> tlv" where
  "get_string_io default_value t =
     (let v = tlv_value t
      in if available v > 0
         then case read_bytes (nat (available v)) v of
                None \<Rightarrow> (default_value, t\<lparr>tlv_value := reset_out v\<rparr>)
              | Some (b, v') \<Rightarrow> (b, t\<lparr>tlv_value := reset_out v'\<rparr>)
         else (default_value, t))"

definition get_string :: "tlv \<Rightarrow> cstring" where
  "get_string t = fst (get_string_io [] t)"

text \<open>
  A pack value is read straight from the field's stream, and the result of \<open>unserialize\<close> is ignored:
  a damaged value gives the fields before the damage. The cursor is not put back.
\<close>

definition get_pack_io :: "tlv \<Rightarrow> (tlvpack \<times> tlv) option" where
  "get_pack_io t = do {
     (_, p, v) \<leftarrow> pack_unserialize empty_pack (tlv_value t);
     Some (copy_pack p, t\<lparr>tlv_value := v\<rparr>)
   }"

definition get_pack :: "tlv \<Rightarrow> tlvpack option" where
  "get_pack t = map_option fst (get_pack_io t)"

definition get_stream :: "tlv \<Rightarrow> binary_stream" where
  "get_stream t = tlv_value t"

end
