(* ===== verification/Tlv_Codec.thy ===== *)
theory Tlv_Codec
  imports Tlv
begin

text \<open>
  The byte format of packs. \<open>fields\<close> are pairs of a type and a value; \<open>enc_fields\<close> is their encoding
  and \<open>mk_pack\<close> the pack that holds them. Serializing a pack whose fields are fresh appends exactly
  the encoding of its fields; unserializing an encoding gives exactly \<open>mk_pack\<close> of the fields, so a
  component's round trip is a statement about \<open>mk_pack\<close> and the getters, with no streams left.
\<close>

type_synonym field = "u32 \<times> bytes"

fun enc_field :: "field \<Rightarrow> bytes" where
  "enc_field (ty, bs) = u32_image ty @ u32_image (word_of_nat (length bs)) @ bs"

definition enc_fields :: "field list \<Rightarrow> bytes" where
  "enc_fields fs = concat (map enc_field fs)"

fun good_field :: "field \<Rightarrow> bool" where
  "good_field (ty, bs) \<longleftrightarrow> length bs < 2 ^ 32"

definition tlv_view :: "tlv \<Rightarrow> field" where
  "tlv_view t = (tlv_type t, pending (tlv_value t))"

definition pack_fields :: "tlvpack \<Rightarrow> field list" where
  "pack_fields p = map tlv_view (tp_list p)"

definition fresh_tlv :: "tlv \<Rightarrow> bool" where
  "fresh_tlv t \<longleftrightarrow> wf_stream (tlv_value t) \<and> bs_output (tlv_value t) = 0"

definition fresh_pack :: "tlvpack \<Rightarrow> bool" where
  "fresh_pack p \<longleftrightarrow> list_all fresh_tlv (tp_list p)"

definition mk_pack :: "field list \<Rightarrow> tlvpack" where
  "mk_pack fs = \<lparr>tp_list = map (\<lambda>(ty, bs). mk_tlv ty bs) fs, tp_cursor = 0\<rparr>"

subsection \<open>Fresh fields\<close>

named_theorems tlv_simps \<open>fields, packs and getters in terms of field lists\<close>

lemma mk_tlv_value: "tlv_value (mk_tlv ty bs) = write_bytes bs empty_stream"
  by (simp add: mk_tlv_def set_value_def tlv_default_def reset_def empty_stream_def)

lemma mk_tlv_type [simp]: "tlv_type (mk_tlv ty bs) = ty"
  by (simp add: mk_tlv_def set_value_def)

lemma fresh_mk_tlv [simp, tlv_simps]: "fresh_tlv (mk_tlv ty bs)"
  by (simp add: fresh_tlv_def mk_tlv_value) (simp add: empty_stream_def)

lemma view_mk_tlv [simp, tlv_simps]: "tlv_view (mk_tlv ty bs) = (ty, bs)"
  by (simp add: tlv_view_def mk_tlv_value)

lemma fresh_mk_tlv_stream [simp, tlv_simps]:
  "fresh_tlv (mk_tlv_stream ty s) \<longleftrightarrow> wf_stream s \<and> bs_output s = 0"
  by (simp add: fresh_tlv_def mk_tlv_stream_def)

lemma view_mk_tlv_stream [simp, tlv_simps]: "tlv_view (mk_tlv_stream ty s) = (ty, pending s)"
  by (simp add: tlv_view_def mk_tlv_stream_def)

lemma fresh_empty_pack [simp, tlv_simps]: "fresh_pack empty_pack"
  by (simp add: fresh_pack_def empty_pack_def)

lemma fresh_push_child [simp, tlv_simps]: "fresh_pack (push_child t p) \<longleftrightarrow> fresh_pack p \<and> fresh_tlv t"
  by (simp add: fresh_pack_def push_child_def)

lemma fields_empty_pack [simp, tlv_simps]: "pack_fields empty_pack = []"
  by (simp add: pack_fields_def empty_pack_def)

lemma fields_push_child [simp, tlv_simps]: "pack_fields (push_child t p) = pack_fields p @ [tlv_view t]"
  by (simp add: pack_fields_def push_child_def)

lemma fresh_mk_pack [simp, tlv_simps]: "fresh_pack (mk_pack fs)"
  by (auto simp: fresh_pack_def mk_pack_def list_all_iff)

lemma fields_mk_pack [simp, tlv_simps]: "pack_fields (mk_pack fs) = fs"
  by (induction fs) (auto simp: pack_fields_def mk_pack_def)

lemma enc_fields_simps [simp, tlv_simps]:
  "enc_fields [] = []" "enc_fields (f # fs) = enc_field f @ enc_fields fs"
  "enc_fields (fs @ gs) = enc_fields fs @ enc_fields gs"
  by (simp_all add: enc_fields_def)

lemma length_enc_field [simp]: "length (enc_field (ty, bs)) = 8 + length bs"
  by simp

lemma length_value_le: "(ty, bs) \<in> set fs \<Longrightarrow> 8 + length bs \<le> length (enc_fields fs)"
proof (induction fs)
  case (Cons f fs)
  then show ?case by (cases "f = (ty, bs)") auto
qed simp

lemma good_fields_if_small: "length (enc_fields fs) < 2 ^ 32 \<Longrightarrow> list_all good_field fs"
  by (auto simp: list_all_iff dest: length_value_le)

subsection \<open>Serializing appends the encoding\<close>

lemma tlv_serialize_fresh:
  assumes "fresh_tlv t" and "wf_stream s"
  shows "fst (tlv_serialize t s) = t"
    and "wf_stream (snd (tlv_serialize t s))"
    and "pending (snd (tlv_serialize t s)) = pending s @ enc_field (tlv_view t)"
proof -
  let ?v = "tlv_value t"
  have v: "wf_stream ?v" "bs_output ?v = 0" using assms by (simp_all add: fresh_tlv_def)
  have av: "available ?v = int (length (pending ?v))" using v by (simp add: available_pending)
  have restored: "t\<lparr>tlv_value := reset_out (advance n ?v)\<rparr> = t" for n
    using v(2) by (simp add: reset_out_def advance_def)
  show "fst (tlv_serialize t s) = t" "wf_stream (snd (tlv_serialize t s))"
    "pending (snd (tlv_serialize t s)) = pending s @ enc_field (tlv_view t)"
    using assms(2) v
    by (auto simp: tlv_serialize_def Let_def av read_pending tlv_view_def restored)
qed

lemma serialize_fields_fresh:
  assumes "list_all fresh_tlv ts" and "wf_stream s"
  shows "fst (serialize_fields ts s) = ts \<and> wf_stream (snd (serialize_fields ts s)) \<and>
    pending (snd (serialize_fields ts s)) = pending s @ enc_fields (map tlv_view ts)"
  using assms
proof (induction ts arbitrary: s)
  case (Cons t ts)
  have t: "fresh_tlv t" and ts: "list_all fresh_tlv ts" using Cons.prems by simp_all
  note one = tlv_serialize_fresh [OF t Cons.prems(2)]
  from Cons.IH [OF ts one(2)] one show ?case
    by (simp add: case_prod_beta del: enc_field.simps)
qed simp

lemma pack_serialize_fresh:
  assumes "fresh_pack p" and "wf_stream s"
  shows "fst (pack_serialize_io p s) = p"
    and wf_pack_serialize: "wf_stream (pack_serialize p s)"
    and pending_pack_serialize: "pending (pack_serialize p s) = pending s @ enc_fields (pack_fields p)"
  using serialize_fields_fresh [of "tp_list p" "reserve n s" for n] assms
  by (simp_all add: pack_serialize_def pack_serialize_io_def fresh_pack_def pack_fields_def
      case_prod_beta Let_def)

lemma output_serialize_fields: "bs_output (snd (serialize_fields ts s)) = bs_output s"
proof (induction ts arbitrary: s)
  case (Cons t ts)
  have "bs_output (snd (tlv_serialize t s)) = bs_output s"
    by (simp add: tlv_serialize_def Let_def case_prod_beta split: option.split)
  with Cons show ?case by (simp add: case_prod_beta)
qed simp

lemma output_pack_serialize [simp]: "bs_output (pack_serialize p s) = bs_output s"
  by (simp add: pack_serialize_def pack_serialize_io_def Let_def case_prod_beta
      output_serialize_fields reserve_def resize_stream_def)

lemma fresh_mk_tlv_pack [simp, tlv_simps]: "fresh_pack p \<Longrightarrow> fresh_tlv (mk_tlv_pack ty p)"
  by (simp add: fresh_tlv_def mk_tlv_pack_def wf_pack_serialize) (simp add: empty_stream_def)

lemma view_mk_tlv_pack [simp, tlv_simps]:
  "fresh_pack p \<Longrightarrow> tlv_view (mk_tlv_pack ty p) = (ty, enc_fields (pack_fields p))"
  by (simp add: tlv_view_def mk_tlv_pack_def pending_pack_serialize)

subsection \<open>Unserializing an encoding\<close>

lemma tlv_unserialize_enc:
  assumes wf: "wf_stream s" and good: "length bs < 2 ^ 32" and pend: "pending s = enc_field (ty, bs) @ r"
  shows "\<exists>s'. tlv_unserialize s = Some (True, mk_tlv ty bs, s') \<and> wf_stream s' \<and> pending s' = r"
proof -
  let ?s1 = "advance 4 s" and ?s2 = "advance 4 (advance 4 s)"
  have len: "8 \<le> length (pending s)" using pend by simp
  have av: "\<not> lt_size (available s) 8" using wf len by (simp add: available_pending lt_size_def)
  have r1: "read_u32 s = Some (ty, ?s1)"
    using wf len pend by (subst read_u32_prefix) auto
  have w1: "wf_stream ?s1" and p1: "pending ?s1 = u32_image (word_of_nat (length bs)) @ bs @ r"
    using wf len pend by auto
  have r2: "read_u32 ?s1 = Some (word_of_nat (length bs), ?s2)"
    using w1 p1 by (subst read_u32_prefix) auto
  have w2: "wf_stream ?s2" and p2: "pending ?s2 = bs @ r"
    using w1 p1 by (auto simp del: pending_advance simp: pending_advance [of 4 ?s1])
  have un: "unat (word_of_nat (length bs) :: u32) = length bs" using good by (rule u32_value_length)
  show ?thesis
  proof (cases "bs = []")
    case True
    with av r1 r2 w2 p2 show ?thesis
      by (auto simp: tlv_unserialize_def mk_tlv_def set_value_def tlv_default_def write_bytes_def
          reset_def empty_stream_def)
  next
    case False
    then have nz: "(word_of_nat (length bs) :: u32) \<noteq> 0" using un by force
    have r3: "read_bytes (length bs) ?s2 = Some (bs, advance (length bs) ?s2)"
      using w2 p2 False by (subst read_pending) auto
    have w3: "wf_stream (advance (length bs) ?s2)" "pending (advance (length bs) ?s2) = r"
      using w2 p2 by (auto simp del: pending_advance simp: pending_advance [of _ ?s2])
    have "\<not> available ?s2 < uint (word_of_nat (length bs) :: u32)"
      using w2 p2 un by (simp add: available_pending uint_nat del: of_nat_unat)
    with av r1 r2 r3 nz un w3 show ?thesis
      by (simp add: tlv_unserialize_def Let_def mk_tlv_def set_value_def tlv_default_def
          reset_def empty_stream_def)
  qed
qed

definition next_field :: "binary_stream \<Rightarrow> (tlv \<times> binary_stream) option" where
  "next_field s =
     (case tlv_unserialize s of Some (True, t, s') \<Rightarrow> Some (t, s') | _ \<Rightarrow> None)"

interpretation pack_frames: framing enc_field next_field pending wf_stream good_field tlv_view
proof unfold_locales
  fix s x r
  assume "wf_stream s" "good_field x" "pending s = enc_field x @ r"
  then show "\<exists>y s'. next_field s = Some (y, s') \<and> tlv_view y = x \<and> wf_stream s' \<and> pending s' = r"
    using tlv_unserialize_enc [of s "snd x" "fst x" r] by (cases x) (auto simp: next_field_def)
next
  fix x :: field
  show "enc_field x \<noteq> []" by (cases x) (simp flip: length_0_conv)
qed

lemma unserialize_loop_enc:
  assumes "wf_stream s" and "list_all good_field fs" and "pending s = enc_fields fs"
  shows "\<exists>s'. unserialize_loop acc s = Some (True, acc @ map (\<lambda>(ty, bs). mk_tlv ty bs) fs, s') \<and>
    wf_stream s' \<and> pending s' = []"
  using assms
proof (induction fs arbitrary: acc s)
  case Nil
  then show ?case by (subst unserialize_loop.simps) (simp add: available_pending)
next
  case (Cons f fs)
  obtain ty bs where f: "f = (ty, bs)" by (cases f)
  from Cons.prems f have av: "available s \<noteq> 0" by (simp add: available_pending)
  from Cons.prems f tlv_unserialize_enc [of s bs ty "enc_fields fs"]
  obtain s1 where s1: "tlv_unserialize s = Some (True, mk_tlv ty bs, s1)" "wf_stream s1"
    "pending s1 = enc_fields fs" by auto
  with Cons.IH [of s1 "acc @ [mk_tlv ty bs]"] Cons.prems av f show ?case
    by (subst unserialize_loop.simps) auto
qed

lemma pack_unserialize_enc:
  assumes "wf_stream s" and "list_all good_field fs" and "pending s = enc_fields fs"
  shows "\<exists>s'. pack_unserialize empty_pack s = Some (True, mk_pack fs, s') \<and> wf_stream s' \<and> pending s' = []"
  using unserialize_loop_enc [OF assms, of "[]"]
  by (auto simp: pack_unserialize_def empty_pack_def mk_pack_def)

lemma get_pack_enc [simp, tlv_simps]:
  "list_all good_field fs \<Longrightarrow> get_pack (mk_tlv ty (enc_fields fs)) = Some (mk_pack fs)"
  using pack_unserialize_enc [of "tlv_value (mk_tlv ty (enc_fields fs))" fs]
  by (auto simp: get_pack_def get_pack_io_def mk_tlv_value copy_pack_def mk_pack_def empty_pack_def)

subsection \<open>No byte string makes the reader of packs crash\<close>

lemma tlv_unserialize_total:
  assumes "wf_stream s" and "pending s \<noteq> []"
  shows "\<exists>b t s'. tlv_unserialize s = Some (b, t, s') \<and> wf_stream s' \<and> fresh_tlv t \<and>
    (\<exists>k. pending s' = drop k (pending s))"
proof (cases "length (pending s) < 8")
  case True
  with assms have "read_bytes (length (pending s)) s = Some (pending s, advance (length (pending s)) s)"
    by (simp add: read_pending)
  with True assms show ?thesis
    by (auto simp: tlv_unserialize_def available_pending lt_size_def fresh_tlv_def tlv_default_def)
      (auto simp: empty_stream_def)
next
  case False
  let ?s2 = "advance 4 (advance 4 s)"
  have w1: "wf_stream (advance 4 s)" using assms False by simp
  have w2: "wf_stream ?s2" using w1 False by simp
  have d: "pending ?s2 = drop 8 (pending s)" by simp
  define len where "len = u32_value (take 4 (drop 4 (pending s)))"
  have r: "read_u32 s = Some (u32_value (take 4 (pending s)), advance 4 s)"
    "read_u32 (advance 4 s) = Some (len, ?s2)"
    using assms w1 False by (simp_all add: read_u32_prefix len_def)
  have av: "\<not> lt_size (available s) 8" using assms False by (simp add: available_pending lt_size_def)
  have fr: "fresh_tlv (tlv_default\<lparr>tlv_type := ty\<rparr>)" for ty
    by (simp add: fresh_tlv_def tlv_default_def) (simp add: empty_stream_def)
  show ?thesis
  proof (cases "len = 0 \<or> available ?s2 < uint len")
    case True
    with av r w2 fr d show ?thesis by (auto simp: tlv_unserialize_def Let_def)
  next
    case False
    then have l: "0 < unat len" "unat len \<le> length (pending ?s2)"
      using w2 by (auto simp: available_pending unat_gt_0 uint_nat simp del: pending_advance of_nat_unat)
    then have "read_bytes (unat len) ?s2 = Some (take (unat len) (pending ?s2), advance (unat len) ?s2)"
      and "wf_stream (advance (unat len) ?s2)"
      using w2 by (simp_all add: read_pending del: pending_advance)
    moreover have "fresh_tlv (tlv_default\<lparr>tlv_type := ty, tlv_value := write_bytes b empty_stream\<rparr>)" for ty b
      by (simp add: fresh_tlv_def) (simp add: empty_stream_def)
    ultimately show ?thesis using av r False
      by (auto simp: tlv_unserialize_def tlv_default_def Let_def)
  qed
qed

lemma unserialize_loop_total:
  "wf_stream s \<Longrightarrow> list_all fresh_tlv acc \<Longrightarrow>
    \<exists>b ts s'. unserialize_loop acc s = Some (b, ts, s') \<and> wf_stream s' \<and> list_all fresh_tlv ts \<and>
      (\<exists>k. pending s' = drop k (pending s)) \<and> (b \<longrightarrow> pending s' = [])"
proof (induction acc s rule: unserialize_loop.induct)
  case (1 acc s)
  show ?case
  proof (cases "pending s = []")
    case True
    then show ?thesis using 1(2,3)
      by (subst unserialize_loop.simps) (auto simp: available_pending)
  next
    case False
    then have av: "available s \<noteq> 0" using 1(2) by (simp add: available_pending)
    from tlv_unserialize_total [OF 1(2) False] obtain b t s1 k where
      u: "tlv_unserialize s = Some (b, t, s1)" "wf_stream s1" "fresh_tlv t"
        "pending s1 = drop k (pending s)" by blast
    show ?thesis
    proof (cases b)
      case True
      have "list_all fresh_tlv (acc @ [t])" using 1(3) u(3) by simp
      from "1.IH" [OF av u(1) refl refl True u(2) this] u(4) obtain b' ts s' k' where
        "unserialize_loop (acc @ [t]) s1 = Some (b', ts, s')" "wf_stream s'" "list_all fresh_tlv ts"
        "pending s' = drop k' (pending s1)" "b' \<longrightarrow> pending s' = []" by blast
      with av u True show ?thesis by (subst unserialize_loop.simps) auto
    next
      case False
      with av u 1(3) show ?thesis by (subst unserialize_loop.simps) auto
    qed
  qed
qed

lemma pack_unserialize_total:
  "wf_stream s \<Longrightarrow> \<exists>b p s'. pack_unserialize empty_pack s = Some (b, p, s') \<and> wf_stream s' \<and>
     fresh_pack p \<and> (\<exists>k. pending s' = drop k (pending s)) \<and> (b \<longrightarrow> pending s' = [])"
  using unserialize_loop_total [of s "[]"]
  by (fastforce simp: pack_unserialize_def empty_pack_def fresh_pack_def)

subsection \<open>Getters on a field with known value\<close>

lemma read_value [simp]: "bs \<noteq> [] \<Longrightarrow> read_bytes (length bs) (write_bytes bs empty_stream) =
    Some (bs, advance (length bs) (write_bytes bs empty_stream))"
  by (simp add: read_pending)

lemma get_scalar_mk_tlv [tlv_simps]:
  "get_scalar n (mk_tlv ty bs) = (if length bs < n \<or> n = 0 then None else Some (take n bs))"
  by (auto simp: get_scalar_def get_scalar_io_def mk_tlv_value available_pending lt_size_def read_pending)

lemma get_string_mk_tlv [simp, tlv_simps]: "get_string (mk_tlv ty bs) = bs"
  by (auto simp: get_string_def get_string_io_def mk_tlv_value available_pending read_pending Let_def)

lemma get_i64_mk_tlv [simp, tlv_simps]: "i64_range i \<Longrightarrow> get_i64 (mk_tlv ty (i64_image i)) = i"
  by (simp add: get_i64_def get_scalar_mk_tlv)

lemma get_i32_mk_tlv [simp, tlv_simps]: "i32_range i \<Longrightarrow> get_i32 (mk_tlv ty (i32_image i)) = i"
  by (simp add: get_i32_def get_scalar_mk_tlv)

lemma get_u32_mk_tlv [simp, tlv_simps]: "get_u32 (mk_tlv ty (u32_image w)) = w"
  by (simp add: get_u32_def get_scalar_mk_tlv)

lemma get_u64_mk_tlv [simp, tlv_simps]: "get_u64 (mk_tlv ty (u64_image w)) = w"
  by (simp add: get_u64_def get_scalar_mk_tlv)

lemma get_bool_mk_tlv [simp, tlv_simps]: "get_bool (mk_tlv ty (bool_image b)) = b"
  by (simp add: get_bool_def get_scalar_mk_tlv)

lemma get_item_mk_pack [simp, tlv_simps]: "get_item (mk_pack fs) ty = map_option (mk_tlv ty) (map_of fs ty)"
  by (induction fs) (auto simp: get_item_def mk_pack_def)

lemma size_mk_pack [simp, tlv_simps]: "pack_size (mk_pack fs) = length fs"
  by (simp add: pack_size_def mk_pack_def)

lemma get_scalar_reads_back: "fresh_tlv t \<Longrightarrow> snd (get_scalar_io n t) = t"
  by (cases "n = 0") (auto simp: get_scalar_io_def fresh_tlv_def available_pending lt_size_def
      read_pending reset_out_def advance_def)

lemma get_string_reads_back: "fresh_tlv t \<Longrightarrow> snd (get_string_io d t) = t"
  by (auto simp: get_string_io_def fresh_tlv_def available_pending read_pending reset_out_def
      advance_def Let_def)

text \<open>The default passed to a scalar getter is dead: the image read overwrites all of it.\<close>

lemma get_scalar_length: "wf_stream (tlv_value t) \<Longrightarrow> get_scalar n t = Some b \<Longrightarrow> length b = n"
  by (cases "n \<le> length (pending (tlv_value t))"; cases "n = 0")
    (auto simp: get_scalar_def get_scalar_io_def read_pending read_too_much split: if_splits)

lemma get_i64_or_eq: "wf_stream (tlv_value t) \<Longrightarrow> get_i64_or d t = get_i64 t"
  by (auto simp: get_i64_or_def get_i64_def overwrite_def dest: get_scalar_length split: option.split)

subsection \<open>Walking a pack\<close>

text \<open>
  The loops \<^verbatim>\<open>for (auto f = p.get_first(); f; f = p.get_next())\<close> visit every field once, in order.
\<close>

function walk_rest :: "tlvpack \<Rightarrow> tlv list" where
  "walk_rest p =
     (if tp_cursor p < length (tp_list p)
      then (case get_next p of (None, p') \<Rightarrow> [] | (Some t, p') \<Rightarrow> t # walk_rest p')
      else [])"
  by pat_completeness auto
termination
  by (relation "measure (\<lambda>p. length (tp_list p) - tp_cursor p)")
    (auto simp: get_next_def Let_def split: if_splits)

declare walk_rest.simps [simp del]

definition walk :: "tlvpack \<Rightarrow> tlv list" where
  "walk p = (case get_first p of (None, _) \<Rightarrow> [] | (Some t, p') \<Rightarrow> t # walk_rest p')"

lemma walk_rest_drop: "tp_cursor p < length (tp_list p) \<Longrightarrow> walk_rest p = drop (Suc (tp_cursor p)) (tp_list p)"
proof (induction p rule: walk_rest.induct)
  case (1 p)
  show ?case
  proof (cases "Suc (tp_cursor p) = length (tp_list p)")
    case True
    with "1.prems" show ?thesis by (subst walk_rest.simps) (auto simp: get_next_def Let_def)
  next
    case False
    then have n: "get_next p = (Some (tp_list p ! Suc (tp_cursor p)), p\<lparr>tp_cursor := Suc (tp_cursor p)\<rparr>)"
      using "1.prems" by (auto simp: get_next_def Let_def)
    from "1.IH" [OF "1.prems" n [symmetric]] False "1.prems" n show ?thesis
      by (subst walk_rest.simps) (auto simp: Cons_nth_drop_Suc)
  qed
qed

lemma walk_list [tlv_simps]: "walk p = tp_list p"
proof (cases "tp_list p")
  case Nil
  then show ?thesis by (simp add: walk_def get_first_def)
next
  case (Cons t ts)
  then show ?thesis
    using walk_rest_drop [of "p\<lparr>tp_cursor := 0\<rparr>"] by (simp add: walk_def get_first_def)
qed

lemma walk_mk_pack [simp, tlv_simps]: "walk (mk_pack fs) = map (\<lambda>(ty, bs). mk_tlv ty bs) fs"
  by (simp add: walk_list mk_pack_def)

text \<open>A pack written to a stream and read into an empty pack gives the same fields, types and bytes, in
  the same order, and consumes everything.\<close>

lemma pack_roundtrip:
  assumes "fresh_pack p" and "list_all good_field (pack_fields p)"
  shows "\<exists>q s'. pack_unserialize empty_pack (pack_serialize p empty_stream) = Some (True, q, s') \<and>
    pack_fields q = pack_fields p \<and> fresh_pack q \<and> pending s' = []"
  using pack_unserialize_enc [of "pack_serialize p empty_stream" "pack_fields p"] assms
  by (auto simp: wf_pack_serialize pending_pack_serialize)

text \<open>No input makes the reader of packs dereference a null pointer: it always returns, having consumed
  a prefix of the input, and it consumed everything when it reports success.\<close>

lemma pack_reader_total:
  assumes "wf_stream s"
  shows "\<exists>b p s' k. pack_unserialize empty_pack s = Some (b, p, s') \<and> fresh_pack p \<and>
    pending s' = drop k (pending s) \<and> (b \<longrightarrow> pending s' = [])"
  using pack_unserialize_total [OF assms] by blast

text \<open>The default passed to a scalar getter is never what it returns: a value that is too short gives 0,
  and one that is long enough gives its first eight bytes, whatever the default.\<close>

lemma scalar_default_unused:
  assumes "wf_stream (tlv_value t)"
  shows "get_i64_or d t = (if length (pending (tlv_value t)) < 8 then 0
    else i64_value (take 8 (pending (tlv_value t))))"
  using assms by (simp add: get_i64_or_eq [OF assms])
    (simp add: get_i64_def get_scalar_def get_scalar_io_def available_pending lt_size_def read_pending)

lemma scalar_default_unused_example: "get_i64_or (-1) (mk_tlv 1 [5]) = 0"
  using scalar_default_unused [of "mk_tlv 1 [5]" "-1"] by (simp add: mk_tlv_value)

end
