(* ===== verification/Message_Fields.thy ===== *)
theory Message_Fields
  imports Tlv_Codec
begin

text \<open>
  The enumeration \<^verbatim>\<open>message_fields\<close> of \<^verbatim>\<open>core/archive/history_message.cpp\<close>: the types of the tlv fields a
  message is stored in. The numbers are the file format.
\<close>

definition mf_msg_id :: u32 where [simp]: "mf_msg_id = 1"
definition mf_flags :: u32 where [simp]: "mf_flags = 2"
definition mf_time :: u32 where [simp]: "mf_time = 3"
definition mf_wimid :: u32 where [simp]: "mf_wimid = 4"
definition mf_text :: u32 where [simp]: "mf_text = 5"
definition mf_chat :: u32 where [simp]: "mf_chat = 6"
definition mf_sticker :: u32 where [simp]: "mf_sticker = 7"
definition mf_mult :: u32 where [simp]: "mf_mult = 8"
definition mf_voip :: u32 where [simp]: "mf_voip = 9"
definition mf_sticker_id :: u32 where [simp]: "mf_sticker_id = 10"
definition mf_chat_sender :: u32 where [simp]: "mf_chat_sender = 11"
definition mf_chat_name :: u32 where [simp]: "mf_chat_name = 12"
definition mf_prev_msg_id :: u32 where [simp]: "mf_prev_msg_id = 13"
definition mf_internal_id :: u32 where [simp]: "mf_internal_id = 14"
definition mf_chat_friendly :: u32 where [simp]: "mf_chat_friendly = 15"
definition mf_file_sharing :: u32 where [simp]: "mf_file_sharing = 16"
definition mf_file_sharing_uri :: u32 where [simp]: "mf_file_sharing_uri = 18"
definition mf_file_sharing_local_path :: u32 where [simp]: "mf_file_sharing_local_path = 19"
definition mf_sender_friendly :: u32 where [simp]: "mf_sender_friendly = 21"
definition mf_chat_event :: u32 where [simp]: "mf_chat_event = 22"
definition mf_chat_event_type :: u32 where [simp]: "mf_chat_event_type = 23"
definition mf_chat_event_sender_friendly :: u32 where [simp]: "mf_chat_event_sender_friendly = 24"
definition mf_chat_event_mchat_members :: u32 where [simp]: "mf_chat_event_mchat_members = 25"
definition mf_chat_event_new_chat_name :: u32 where [simp]: "mf_chat_event_new_chat_name = 26"
definition mf_voip_event_type :: u32 where [simp]: "mf_voip_event_type = 27"
definition mf_voip_sender_friendly :: u32 where [simp]: "mf_voip_sender_friendly = 28"
definition mf_voip_sender_aimid :: u32 where [simp]: "mf_voip_sender_aimid = 29"
definition mf_voip_duration :: u32 where [simp]: "mf_voip_duration = 30"
definition mf_voip_is_incoming :: u32 where [simp]: "mf_voip_is_incoming = 31"
definition mf_chat_event_generic_text :: u32 where [simp]: "mf_chat_event_generic_text = 32"
definition mf_chat_event_new_chat_description :: u32 where [simp]: "mf_chat_event_new_chat_description = 33"
definition mf_quote_text :: u32 where [simp]: "mf_quote_text = 34"
definition mf_quote_sn :: u32 where [simp]: "mf_quote_sn = 35"
definition mf_quote_msg_id :: u32 where [simp]: "mf_quote_msg_id = 36"
definition mf_quote_time :: u32 where [simp]: "mf_quote_time = 37"
definition mf_quote_chat_id :: u32 where [simp]: "mf_quote_chat_id = 38"
definition mf_quote :: u32 where [simp]: "mf_quote = 39"
definition mf_quote_friendly :: u32 where [simp]: "mf_quote_friendly = 40"
definition mf_quote_is_forward :: u32 where [simp]: "mf_quote_is_forward = 41"
definition mf_chat_event_new_chat_rules :: u32 where [simp]: "mf_chat_event_new_chat_rules = 42"
definition mf_chat_event_sender_aimid :: u32 where [simp]: "mf_chat_event_sender_aimid = 43"
definition mf_quote_set_id :: u32 where [simp]: "mf_quote_set_id = 44"
definition mf_quote_sticker_id :: u32 where [simp]: "mf_quote_sticker_id = 45"
definition mf_quote_chat_stamp :: u32 where [simp]: "mf_quote_chat_stamp = 46"
definition mf_quote_chat_name :: u32 where [simp]: "mf_quote_chat_name = 47"
definition mf_mention :: u32 where [simp]: "mf_mention = 48"
definition mf_mention_sn :: u32 where [simp]: "mf_mention_sn = 49"
definition mf_mention_friendly :: u32 where [simp]: "mf_mention_friendly = 50"
definition mf_chat_event_mchat_members_aimids :: u32 where [simp]: "mf_chat_event_mchat_members_aimids = 51"
definition mf_update_patch_version :: u32 where [simp]: "mf_update_patch_version = 52"
definition mf_snippet :: u32 where [simp]: "mf_snippet = 53"
definition mf_snippet_url :: u32 where [simp]: "mf_snippet_url = 54"
definition mf_snippet_content_type :: u32 where [simp]: "mf_snippet_content_type = 55"
definition mf_snippet_preview_url :: u32 where [simp]: "mf_snippet_preview_url = 56"
definition mf_snippet_preview_w :: u32 where [simp]: "mf_snippet_preview_w = 57"
definition mf_snippet_preview_h :: u32 where [simp]: "mf_snippet_preview_h = 58"
definition mf_snippet_title :: u32 where [simp]: "mf_snippet_title = 59"
definition mf_snippet_description :: u32 where [simp]: "mf_snippet_description = 60"
definition mf_voip_conf_members :: u32 where [simp]: "mf_voip_conf_members = 61"
definition mf_voip_is_video :: u32 where [simp]: "mf_voip_is_video = 62"
definition mf_chat_event_is_captcha_present :: u32 where [simp]: "mf_chat_event_is_captcha_present = 63"
definition mf_description :: u32 where [simp]: "mf_description = 64"
definition mf_url :: u32 where [simp]: "mf_url = 65"
definition mf_quote_url :: u32 where [simp]: "mf_quote_url = 66"
definition mf_quote_description :: u32 where [simp]: "mf_quote_description = 67"
definition mf_offline_version :: u32 where [simp]: "mf_offline_version = 68"
definition mf_friendly_official :: u32 where [simp]: "mf_friendly_official = 69"
definition mf_shared_contact :: u32 where [simp]: "mf_shared_contact = 70"
definition mf_shared_contact_name :: u32 where [simp]: "mf_shared_contact_name = 71"
definition mf_shared_contact_phone :: u32 where [simp]: "mf_shared_contact_phone = 72"
definition mf_shared_contact_sn :: u32 where [simp]: "mf_shared_contact_sn = 73"
definition mf_file_sharing_base_content_type :: u32 where [simp]: "mf_file_sharing_base_content_type = 74"
definition mf_file_sharing_duration :: u32 where [simp]: "mf_file_sharing_duration = 75"
definition mf_geo :: u32 where [simp]: "mf_geo = 76"
definition mf_geo_name :: u32 where [simp]: "mf_geo_name = 77"
definition mf_geo_lat :: u32 where [simp]: "mf_geo_lat = 78"
definition mf_geo_long :: u32 where [simp]: "mf_geo_long = 79"
definition mf_chat_is_channel :: u32 where [simp]: "mf_chat_is_channel = 80"
definition mf_poll :: u32 where [simp]: "mf_poll = 81"
definition mf_poll_id :: u32 where [simp]: "mf_poll_id = 82"
definition mf_poll_answer :: u32 where [simp]: "mf_poll_answer = 83"
definition mf_poll_type :: u32 where [simp]: "mf_poll_type = 84"
definition mf_chat_event_new_chat_stamp :: u32 where [simp]: "mf_chat_event_new_chat_stamp = 85"
definition mf_json :: u32 where [simp]: "mf_json = 86"
definition mf_sender_aimid :: u32 where [simp]: "mf_sender_aimid = 87"
definition mf_buttons :: u32 where [simp]: "mf_buttons = 88"
definition mf_hide_edit :: u32 where [simp]: "mf_hide_edit = 89"
definition mf_chat_requested_by :: u32 where [simp]: "mf_chat_requested_by = 90"
definition mf_chat_requested_by_friendly :: u32 where [simp]: "mf_chat_requested_by_friendly = 91"
definition mf_call_aimid :: u32 where [simp]: "mf_call_aimid = 92"
definition mf_voip_sid :: u32 where [simp]: "mf_voip_sid = 93"
definition mf_reactions :: u32 where [simp]: "mf_reactions = 94"
definition mf_reactions_exist :: u32 where [simp]: "mf_reactions_exist = 95"
definition mf_chat_event_sender_status :: u32 where [simp]: "mf_chat_event_sender_status = 96"
definition mf_chat_event_owner_status :: u32 where [simp]: "mf_chat_event_owner_status = 97"
definition mf_chat_event_sender_status_desctiprion :: u32 where [simp]: "mf_chat_event_sender_status_desctiprion = 98"
definition mf_chat_event_owner_status_description :: u32 where [simp]: "mf_chat_event_owner_status_description = 99"
definition mf_format :: u32 where [simp]: "mf_format = 100"
definition mf_format_offset :: u32 where [simp]: "mf_format_offset = 101"
definition mf_format_length :: u32 where [simp]: "mf_format_length = 102"
definition mf_format_data :: u32 where [simp]: "mf_format_data = 103"
definition mf_format_bold :: u32 where [simp]: "mf_format_bold = 104"
definition mf_format_italic :: u32 where [simp]: "mf_format_italic = 105"
definition mf_format_underline :: u32 where [simp]: "mf_format_underline = 106"
definition mf_format_strikethrough :: u32 where [simp]: "mf_format_strikethrough = 107"
definition mf_format_inline_code :: u32 where [simp]: "mf_format_inline_code = 108"
definition mf_format_url :: u32 where [simp]: "mf_format_url = 109"
definition mf_format_mention :: u32 where [simp]: "mf_format_mention = 110"
definition mf_format_quote :: u32 where [simp]: "mf_format_quote = 111"
definition mf_format_pre :: u32 where [simp]: "mf_format_pre = 112"
definition mf_format_ordered_list :: u32 where [simp]: "mf_format_ordered_list = 113"
definition mf_format_unordered_list :: u32 where [simp]: "mf_format_unordered_list = 114"
definition mf_description_format :: u32 where [simp]: "mf_description_format = 115"
definition mf_task :: u32 where [simp]: "mf_task = 116"
definition mf_task_id :: u32 where [simp]: "mf_task_id = 117"
definition mf_task_title :: u32 where [simp]: "mf_task_title = 118"
definition mf_task_assignee :: u32 where [simp]: "mf_task_assignee = 119"
definition mf_task_end_time :: u32 where [simp]: "mf_task_end_time = 120"
definition mf_thread_id :: u32 where [simp]: "mf_thread_id = 121"
definition mf_task_status :: u32 where [simp]: "mf_task_status = 122"
definition mf_chat_event_task_editor :: u32 where [simp]: "mf_chat_event_task_editor = 123"
definition mf_format_start_index :: u32 where [simp]: "mf_format_start_index = 124"
definition mf_chat_event_threads_enabled :: u32 where [simp]: "mf_chat_event_threads_enabled = 125"

subsection \<open>Building packs\<close>

text \<open>Pushing fields one after another, and the pack that holds them.\<close>

definition push_all :: "tlv list \<Rightarrow> tlvpack \<Rightarrow> tlvpack" where
  "push_all ts p = fold push_child ts p"

definition pack_of :: "tlv list \<Rightarrow> tlvpack" where
  "pack_of ts = push_all ts empty_pack"

lemma fresh_push_all [simp, tlv_simps]: "fresh_pack (push_all ts p) \<longleftrightarrow> fresh_pack p \<and> list_all fresh_tlv ts"
  by (induction ts arbitrary: p) (auto simp: push_all_def)

lemma fields_push_all [simp, tlv_simps]: "pack_fields (push_all ts p) = pack_fields p @ map tlv_view ts"
  by (induction ts arbitrary: p) (auto simp: push_all_def)

lemma fresh_pack_of [simp, tlv_simps]: "fresh_pack (pack_of ts) \<longleftrightarrow> list_all fresh_tlv ts"
  by (simp add: pack_of_def)

lemma fields_pack_of [simp, tlv_simps]: "pack_fields (pack_of ts) = map tlv_view ts"
  by (simp add: pack_of_def)

text \<open>
  The fields of a type, for the getters that look a field up. Every field list below is made of
  pieces that are there or not; \<open>opt\<close> is such a piece.
\<close>

definition opt :: "bool \<Rightarrow> 'a \<Rightarrow> 'a list" where
  "opt b x = (if b then [x] else [])"

lemma opt_simps [simp]: "opt True x = [x]" "opt False x = []" "map f (opt b x) = opt b (f x)"
  "list_all P (opt b x) = (b \<longrightarrow> P x)"
  by (simp_all add: opt_def)

lemma map_of_opt [simp]: "map_of (opt b (k, v) @ fs) t = (if b \<and> t = k then Some v else map_of fs t)"
  "map_of (opt b (k, v)) t = (if b \<and> t = k then Some v else None)"
  by (simp_all add: opt_def)

end
