(* ===== verification/Message_Parts.thy ===== *)
theory Message_Parts
  imports Message_Fields
begin

text \<open>
  The parts a message is made of (\<^verbatim>\<open>core/archive/history_message.h\<close>, \<^verbatim>\<open>poll.h\<close>, \<^verbatim>\<open>core/tasks/task.h\<close>,
  \<^verbatim>\<open>common.shared/message_processing/text_formatting.h\<close>) and the fields each is stored in. A serializer
  is the list of fields it pushes, in order; an unserializer reads a pack, \<open>None\<close> being the null
  dereference of a field that is not there.

  A \<^verbatim>\<open>double\<close> is its 64-bit image. A member that a constructor leaves uninitialised gets its value
  from the argument \<open>junk\<close>.
\<close>

record junk =
  junk_bool :: bool
  junk_byte :: byte
  junk_u64 :: u64

subsection \<open>Contacts, places, reactions, stickers\<close>

record shared_contact_data =
  sc_name :: cstring
  sc_phone :: cstring
  sc_sn :: cstring

definition contact_default :: shared_contact_data where
  "contact_default = \<lparr>sc_name = [], sc_phone = [], sc_sn = []\<rparr>"

definition contact_serialize :: "shared_contact_data \<Rightarrow> tlv list" where
  "contact_serialize c = [mk_tlv_pack mf_shared_contact (pack_of
     [mk_tlv mf_shared_contact_name (sc_name c), mk_tlv mf_shared_contact_phone (sc_phone c),
      mk_tlv mf_shared_contact_sn (sc_sn c)])]"

text \<open>A string member read when its field is there.\<close>

definition string_or :: "cstring \<Rightarrow> tlvpack \<Rightarrow> u32 \<Rightarrow> cstring" where
  "string_or d p ty = (case get_item p ty of None \<Rightarrow> d | Some t \<Rightarrow> get_string t)"

definition contact_unserialize :: "tlvpack \<Rightarrow> shared_contact_data \<Rightarrow> bool \<times> shared_contact_data" where
  "contact_unserialize p c =
     (case get_item p mf_shared_contact_phone of
        None \<Rightarrow> (False, c)
      | Some t \<Rightarrow> (True, c\<lparr>sc_phone := get_string t, sc_name := string_or (sc_name c) p mf_shared_contact_name,
                           sc_sn := string_or (sc_sn c) p mf_shared_contact_sn\<rparr>))"

record geo_data =
  geo_name :: cstring
  geo_lat :: u64
  geo_long :: u64

definition geo_serialize :: "geo_data \<Rightarrow> tlv list" where
  "geo_serialize g = [mk_tlv_pack mf_geo (pack_of
     [mk_tlv mf_geo_name (geo_name g), mk_tlv mf_geo_lat (u64_image (geo_lat g)),
      mk_tlv mf_geo_long (u64_image (geo_long g))])]"

definition geo_unserialize :: "tlvpack \<Rightarrow> geo_data \<Rightarrow> geo_data" where
  "geo_unserialize p g =
     g\<lparr>geo_name := string_or (geo_name g) p mf_geo_name,
       geo_lat := (case get_item p mf_geo_lat of None \<Rightarrow> geo_lat g | Some t \<Rightarrow> get_u64 t),
       geo_long := (case get_item p mf_geo_long of None \<Rightarrow> geo_long g | Some t \<Rightarrow> get_u64 t)\<rparr>"

text \<open>Of the reactions of a message only the flag is stored with it.\<close>

record reaction =
  re_reaction :: cstring
  re_count :: int

record reactions_data =
  rd_msg_id :: int
  rd_chat_id :: cstring
  rd_my_reaction :: cstring
  rd_reactions :: "reaction list"

record message_reactions =
  mr_exist :: bool
  mr_data :: "reactions_data option"

definition reactions_serialize :: "message_reactions \<Rightarrow> tlv list" where
  "reactions_serialize r = [mk_tlv_pack mf_reactions (pack_of [mk_tlv mf_reactions_exist (bool_image (mr_exist r))])]"

definition reactions_unserialize :: "tlvpack \<Rightarrow> message_reactions option" where
  "reactions_unserialize p = (case get_item p mf_reactions_exist of
     None \<Rightarrow> None | Some t \<Rightarrow> Some \<lparr>mr_exist = get_bool t, mr_data = None\<rparr>)"

text \<open>A sticker is its id.\<close>

definition sticker_serialize :: "cstring \<Rightarrow> tlv list" where
  "sticker_serialize s = [mk_tlv mf_sticker_id s]"

definition sticker_unserialize :: "tlvpack \<Rightarrow> cstring \<Rightarrow> int \<times> cstring" where
  "sticker_unserialize p s = (case get_item p mf_sticker_id of None \<Rightarrow> (-1, s) | Some t \<Rightarrow> (0, get_string t))"

subsection \<open>Calls\<close>

text \<open>\<^verbatim>\<open>voip_event_type\<close> is kept as the number it is read as; the valid ones lie between two bounds.\<close>

definition voip_invalid :: int where "voip_invalid = 0"
definition voip_min :: int where "voip_min = 1"
definition voip_max :: int where "voip_max = 6"

record voip_data =
  vd_type :: int
  vd_sid :: cstring
  vd_sender_aimid :: cstring
  vd_sender_friendly :: cstring
  vd_duration :: int
  vd_is_incoming :: int
  vd_is_video :: bool
  vd_conf :: "cstring list"

definition voip_default :: voip_data where
  "voip_default = \<lparr>vd_type = voip_invalid, vd_sid = [], vd_sender_aimid = [], vd_sender_friendly = [],
     vd_duration = -1, vd_is_incoming = -1, vd_is_video = False, vd_conf = []\<rparr>"

definition voip_incoming :: "voip_data \<Rightarrow> bool" where
  "voip_incoming v \<longleftrightarrow> vd_is_incoming v > 0"

text \<open>Lists of names are packs whose field types are 0, 1, 2 and so on.\<close>

definition numbered :: "cstring list \<Rightarrow> tlv list" where
  "numbered ms = map (\<lambda>(i, m). mk_tlv (word_of_nat i) m) (enumerate 0 ms)"

definition voip_serialize :: "voip_data \<Rightarrow> tlv list" where
  "voip_serialize v =
     [mk_tlv mf_voip_event_type (i32_image (vd_type v)),
      mk_tlv mf_voip_sender_aimid (vd_sender_aimid v),
      mk_tlv mf_voip_sender_friendly (vd_sender_friendly v)] @
     opt (vd_duration v \<ge> 0) (mk_tlv mf_voip_duration (i32_image (vd_duration v))) @
     opt (vd_is_incoming v \<ge> 0) (mk_tlv mf_voip_is_incoming (i32_image (vd_is_incoming v))) @
     opt (vd_is_video v) (mk_tlv mf_voip_is_video (bool_image (vd_is_video v))) @
     opt (vd_conf v \<noteq> []) (mk_tlv_pack mf_voip_conf_members (pack_of (numbered (vd_conf v)))) @
     [mk_tlv mf_voip_sid (vd_sid v)]"

definition conf_members_of :: "tlvpack \<Rightarrow> cstring list" where
  "conf_members_of p = concat (map (\<lambda>i. case get_item p (word_of_nat i) of
       None \<Rightarrow> [] | Some t \<Rightarrow> (if get_string t = [] then [] else [get_string t])) [0..<pack_size p])"

definition voip_unserialize :: "tlvpack \<Rightarrow> voip_data \<Rightarrow> (bool \<times> voip_data) option" where
  "voip_unserialize p v =
     (case (get_item p mf_voip_event_type, get_item p mf_voip_sender_aimid, get_item p mf_voip_sender_friendly) of
        (Some tlv_ty, Some aimid, Some friendly) \<Rightarrow>
          let ty = get_i32 tlv_ty
          in if \<not> (ty > voip_min \<and> ty < voip_max) then Some (False, v\<lparr>vd_type := voip_invalid\<rparr>)
             else
               let v = v\<lparr>vd_type := ty, vd_sender_aimid := get_string aimid\<rparr>
               in if vd_sender_aimid v = [] then Some (False, v)
                  else
                    let v = v\<lparr>vd_sender_friendly := get_string friendly\<rparr>
                    in if vd_sender_friendly v = [] then Some (False, v)
                       else do {
                         let v = v\<lparr>vd_duration := (case get_item p mf_voip_duration of
                             None \<Rightarrow> vd_duration v | Some t \<Rightarrow> get_i32 t)\<rparr>;
                         let v = v\<lparr>vd_is_incoming := (case get_item p mf_voip_is_incoming of
                             None \<Rightarrow> vd_is_incoming v | Some t \<Rightarrow> get_i32 t)\<rparr>;
                         let v = v\<lparr>vd_is_video := (case get_item p mf_voip_is_video of
                             None \<Rightarrow> vd_is_video v | Some t \<Rightarrow> get_bool t)\<rparr>;
                         v \<leftarrow> (case get_item p mf_voip_conf_members of
                             None \<Rightarrow> Some v
                           | Some t \<Rightarrow> do {
                               q \<leftarrow> get_pack t;
                               Some (v\<lparr>vd_conf := vd_conf v @ conf_members_of q\<rparr>)
                             });
                         Some (True, v\<lparr>vd_sid := string_or (vd_sid v) p mf_voip_sid\<rparr>)
                       }
      | _ \<Rightarrow> Some (False, v))"

subsection \<open>Chat data and files\<close>

record person =
  pe_friendly :: cstring
  pe_nick :: cstring
  pe_first_name :: cstring
  pe_middle_name :: cstring
  pe_last_name :: cstring
  pe_official :: "bool option"

record chat_data =
  cd_sender :: cstring
  cd_friendly :: person
  cd_name :: cstring

definition chat_default :: chat_data where
  "chat_default = \<lparr>cd_sender = [], cd_friendly = \<lparr>pe_friendly = [], pe_nick = [], pe_first_name = [],
     pe_middle_name = [], pe_last_name = [], pe_official = None\<rparr>, cd_name = []\<rparr>"

text \<open>
  \<^verbatim>\<open>std::optional<bool>\<close> is written as the two bytes it is in memory, the payload and whether there is
  one; without one the payload byte is indeterminate. The reader takes the first byte for a \<^verbatim>\<open>bool\<close>.
\<close>

definition optional_bool_image :: "byte \<Rightarrow> bool option \<Rightarrow> bytes" where
  "optional_bool_image junk b = (case b of None \<Rightarrow> [junk, 0] | Some x \<Rightarrow> [if x then 1 else 0, 1])"

definition chat_serialize :: "junk \<Rightarrow> chat_data \<Rightarrow> tlv list" where
  "chat_serialize junk c =
     [mk_tlv mf_chat_sender (cd_sender c), mk_tlv mf_chat_name (cd_name c),
      mk_tlv mf_chat_friendly (pe_friendly (cd_friendly c)),
      mk_tlv mf_friendly_official (optional_bool_image (junk_byte junk) (pe_official (cd_friendly c)))]"

definition chat_unserialize :: "tlvpack \<Rightarrow> chat_data \<Rightarrow> int \<times> chat_data" where
  "chat_unserialize p c =
     (case (get_item p mf_chat_sender, get_item p mf_chat_name) of
        (Some s, Some n) \<Rightarrow>
          let f = cd_friendly c;
              f = f\<lparr>pe_friendly := string_or (pe_friendly f) p mf_chat_friendly\<rparr>;
              f = f\<lparr>pe_official := (case get_item p mf_friendly_official of
                  None \<Rightarrow> pe_official f | Some t \<Rightarrow> Some (get_bool t))\<rparr>
          in (0, c\<lparr>cd_sender := get_string s, cd_name := get_string n, cd_friendly := f\<rparr>)
      | _ \<Rightarrow> (-1, c))"

record file_sharing_data =
  fs_uri :: cstring
  fs_local_path :: cstring
  fs_duration :: "int option"
  fs_base_content_type :: "int option"

definition file_sharing_serialize :: "file_sharing_data \<Rightarrow> tlv list" where
  "file_sharing_serialize f =
     (if fs_uri f \<noteq> [] then [mk_tlv mf_file_sharing_uri (fs_uri f)]
      else [mk_tlv mf_file_sharing_local_path (fs_local_path f)]) @
     opt (fs_duration f \<noteq> None) (mk_tlv mf_file_sharing_duration (i64_image (the (fs_duration f)))) @
     opt (fs_base_content_type f \<noteq> None)
       (mk_tlv mf_file_sharing_base_content_type (i32_image (the (fs_base_content_type f))))"

definition file_sharing_unserialize :: "tlvpack \<Rightarrow> file_sharing_data option" where
  "file_sharing_unserialize p = do {
     (uri, path) \<leftarrow> (case get_item p mf_file_sharing_uri of
         Some t \<Rightarrow> Some (get_string t, [])
       | None \<Rightarrow> map_option (\<lambda>t. ([], get_string t)) (get_item p mf_file_sharing_local_path));
     Some \<lparr>fs_uri = uri, fs_local_path = path,
           fs_duration = map_option get_i64 (get_item p mf_file_sharing_duration),
           fs_base_content_type = map_option get_i32 (get_item p mf_file_sharing_base_content_type)\<rparr>
   }"

definition file_sharing_equal :: "file_sharing_data \<Rightarrow> file_sharing_data \<Rightarrow> bool" where
  "file_sharing_equal a b \<longleftrightarrow> fs_local_path a = fs_local_path b \<or> fs_uri a = fs_uri b"

definition file_sharing_empty :: "file_sharing_data \<Rightarrow> bool" where
  "file_sharing_empty f \<longleftrightarrow> fs_uri f = [] \<and> fs_local_path f = []"

end
