(* ===== verification/Message_Events.thy ===== *)
theory Message_Events
  imports Message_Parts
begin

text \<open>
  The larger parts of a message: tasks and changes of tasks, polls and chat events.
\<close>

subsection \<open>Tasks and polls\<close>

text \<open>\<^verbatim>\<open>core::tasks::status\<close> (\<^verbatim>\<open>common.shared/tasks/task_types.h\<close>) and its names.\<close>

datatype status = status_unknown | new_task | in_progress | ready | rejected | closed

definition status_to_string :: "status \<Rightarrow> cstring" where
  "status_to_string s = cstr (case s of
     new_task \<Rightarrow> ''new'' | in_progress \<Rightarrow> ''in_progress'' | ready \<Rightarrow> ''ready''
   | rejected \<Rightarrow> ''rejected'' | closed \<Rightarrow> ''closed'' | _ \<Rightarrow> ''new'')"

definition string_to_status :: "cstring \<Rightarrow> status" where
  "string_to_status s =
     (if s = cstr ''new'' then new_task else if s = cstr ''in_progress'' then in_progress
      else if s = cstr ''ready'' then ready else if s = cstr ''rejected'' then rejected
      else if s = cstr ''closed'' then closed else new_task)"

datatype task_user = reporter | assignee | user_unknown

definition reporter_statuses :: "status \<Rightarrow> status list" where
  "reporter_statuses s = filter (\<lambda>x. x \<noteq> s) [new_task, in_progress, ready, rejected, closed]"

definition assignee_statuses :: "status \<Rightarrow> status list" where
  "assignee_statuses s = (case s of
     new_task \<Rightarrow> [in_progress, rejected]
   | in_progress \<Rightarrow> [new_task, ready, rejected]
   | ready \<Rightarrow> [new_task, in_progress]
   | rejected \<Rightarrow> [new_task, in_progress]
   | closed \<Rightarrow> [new_task]
   | _ \<Rightarrow> [])"

definition offline_available_statuses :: "status \<Rightarrow> task_user \<Rightarrow> status list" where
  "offline_available_statuses s u = (case u of
     reporter \<Rightarrow> reporter_statuses s | assignee \<Rightarrow> assignee_statuses s | _ \<Rightarrow> [])"

text \<open>
  A time point counts ticks of the system clock, nanoseconds in the standard library of the Linux
  build; the conversion to seconds truncates.
\<close>

definition ticks_per_second :: int where
  "ticks_per_second = 1000000000"

definition to_seconds :: "int \<Rightarrow> int" where
  "to_seconds t = (if t \<ge> 0 then t div ticks_per_second else - ((- t) div ticks_per_second))"

definition from_seconds :: "int \<Rightarrow> int" where
  "from_seconds s = s * ticks_per_second"

record task_params =
  tk_title :: cstring
  tk_assignee :: cstring
  tk_end_time :: int
  tk_status :: status
  tk_creator :: cstring
  tk_thread_id :: cstring
  tk_create_time :: int
  tk_last_change :: int
  tk_allowed_statuses :: "status list"

record task_data =
  td_id :: cstring
  td_params :: task_params
  td_last_used :: int

definition task_default :: task_data where
  "task_default = \<lparr>td_id = [], td_params = \<lparr>tk_title = [], tk_assignee = [], tk_end_time = 0,
     tk_status = status_unknown, tk_creator = [], tk_thread_id = [], tk_create_time = 0, tk_last_change = 0,
     tk_allowed_statuses = []\<rparr>, td_last_used = 0\<rparr>"

record task_change =
  tc_id :: cstring
  tc_title :: "cstring option"
  tc_assignee :: "cstring option"
  tc_end_time :: "int option"
  tc_status :: "status option"

definition change_default :: task_change where
  "change_default = \<lparr>tc_id = [], tc_title = None, tc_assignee = None, tc_end_time = None, tc_status = None\<rparr>"

definition change_end_time_to_seconds :: "task_change \<Rightarrow> int" where
  "change_end_time_to_seconds c = (case tc_end_time c of None \<Rightarrow> -1 | Some t \<Rightarrow> to_seconds t)"

definition task_user_for_aim_id :: "task_data \<Rightarrow> cstring \<Rightarrow> task_user" where
  "task_user_for_aim_id t aimid =
     (if aimid = tk_creator (td_params t) then reporter
      else if aimid = tk_assignee (td_params t) then assignee else user_unknown)"

definition task_merge :: "task_data \<Rightarrow> task_change \<Rightarrow> cstring \<Rightarrow> task_data" where
  "task_merge t c for_user =
     (if td_id t \<noteq> tc_id c then t
      else
        let p = td_params t;
            p = (case tc_title c of None \<Rightarrow> p | Some x \<Rightarrow> p\<lparr>tk_title := x\<rparr>);
            p = (case tc_assignee c of None \<Rightarrow> p | Some x \<Rightarrow> p\<lparr>tk_assignee := x\<rparr>);
            p = (case tc_end_time c of None \<Rightarrow> p | Some x \<Rightarrow> p\<lparr>tk_end_time := x\<rparr>);
            t = t\<lparr>td_params := p\<rparr>
        in case tc_status c of
             None \<Rightarrow> t
           | Some s \<Rightarrow>
               (if s \<noteq> tk_status p
                then let p = p\<lparr>tk_status := s\<rparr>; t = t\<lparr>td_params := p\<rparr>
                     in t\<lparr>td_params := p\<lparr>tk_allowed_statuses :=
                          offline_available_statuses s (task_user_for_aim_id t for_user)\<rparr>\<rparr>
                else t))"

definition task_is_empty :: "task_data \<Rightarrow> bool" where
  "task_is_empty t \<longleftrightarrow> td_id t = [] \<and> tk_title (td_params t) = []"

definition task_serialize :: "task_data \<Rightarrow> tlv list" where
  "task_serialize t = [mk_tlv_pack mf_task (pack_of
     (if td_id t \<noteq> [] then [mk_tlv mf_task_id (td_id t)]
      else [mk_tlv mf_task_title (tk_title (td_params t)),
            mk_tlv mf_task_assignee (tk_assignee (td_params t)),
            mk_tlv mf_task_end_time (i64_image (to_seconds (tk_end_time (td_params t))))]))]"

definition task_unserialize :: "tlvpack \<Rightarrow> task_data" where
  "task_unserialize p =
     (let t = task_default; q = td_params t;
          q = q\<lparr>tk_title := string_or (tk_title q) p mf_task_title,
                tk_assignee := string_or (tk_assignee q) p mf_task_assignee,
                tk_end_time := (case get_item p mf_task_end_time of
                  None \<Rightarrow> tk_end_time q | Some f \<Rightarrow> from_seconds (get_i64 f))\<rparr>
      in t\<lparr>td_id := string_or (td_id t) p mf_task_id, td_params := q\<rparr>)"

record answer =
  an_votes :: int
  an_text :: cstring
  an_answer_id :: cstring

record poll_data =
  po_id :: cstring
  po_type :: cstring
  po_my_answer_id :: cstring
  po_answers :: "answer list"
  po_closed :: bool
  po_can_stop :: bool

definition poll_default :: poll_data where
  "poll_default = \<lparr>po_id = [], po_type = [], po_my_answer_id = [], po_answers = [], po_closed = False, po_can_stop = False\<rparr>"

definition poll_serialize :: "poll_data \<Rightarrow> tlv list" where
  "poll_serialize p = [mk_tlv_pack mf_poll (pack_of
     (mk_tlv mf_poll_id (po_id p) # map (\<lambda>a. mk_tlv mf_poll_answer (an_text a)) (po_answers p) @
      [mk_tlv mf_poll_type (po_type p)]))]"

definition poll_field :: "tlv \<Rightarrow> poll_data \<Rightarrow> poll_data" where
  "poll_field f p =
     (if tlv_type f = mf_poll_answer
        then p\<lparr>po_answers := po_answers p @ [\<lparr>an_votes = 0, an_text = get_string f, an_answer_id = []\<rparr>]\<rparr>
      else if tlv_type f = mf_poll_id then p\<lparr>po_id := get_string f\<rparr>
      else if tlv_type f = mf_poll_type then p\<lparr>po_type := get_string f\<rparr>
      else p)"

definition poll_unserialize :: "tlvpack \<Rightarrow> poll_data" where
  "poll_unserialize p = fold poll_field (walk p) poll_default"

subsection \<open>Chat events\<close>

text \<open>
  \<^verbatim>\<open>chat_event_type\<close> of \<^verbatim>\<open>corelib/enumerations.h\<close>. Its numbers are stored; a number read may be none of
  them, so an event keeps the number.
\<close>

datatype chat_event_type =
    cet_invalid | cet_min | added_to_buddy_list | mchat_add_members | mchat_invite | mchat_leave
  | mchat_del_members | mchat_kicked | chat_name_modified | buddy_reg | buddy_found | birthday
  | avatar_modified | generic | chat_description_modified | message_deleted | chat_rules_modified
  | chat_stamp_modified | chat_join_moderation_modified | chat_public_modified
  | chat_trust_requied_modified | chat_threads_enabled_modified | mchat_adm_granted
  | mchat_adm_revoked | mchat_allowed_to_write | mchat_disallowed_to_write
  | mchat_waiting_for_approve | mchat_joining_approved | mchat_joining_rejected
  | mchat_joining_canceled | warn_about_stranger | no_longer_stranger | status_reply
  | custom_status_reply | task_changed | cet_max

primrec cet :: "chat_event_type \<Rightarrow> int" where
  "cet cet_invalid = 0" | "cet cet_min = 1" | "cet added_to_buddy_list = 2" | "cet mchat_add_members = 3"
| "cet mchat_invite = 4" | "cet mchat_leave = 5" | "cet mchat_del_members = 6" | "cet mchat_kicked = 7"
| "cet chat_name_modified = 8" | "cet buddy_reg = 9" | "cet buddy_found = 10" | "cet birthday = 11"
| "cet avatar_modified = 12" | "cet generic = 13" | "cet chat_description_modified = 14"
| "cet message_deleted = 15" | "cet chat_rules_modified = 16" | "cet chat_stamp_modified = 17"
| "cet chat_join_moderation_modified = 18" | "cet chat_public_modified = 19"
| "cet chat_trust_requied_modified = 20" | "cet chat_threads_enabled_modified = 21"
| "cet mchat_adm_granted = 22" | "cet mchat_adm_revoked = 23" | "cet mchat_allowed_to_write = 24"
| "cet mchat_disallowed_to_write = 25" | "cet mchat_waiting_for_approve = 26"
| "cet mchat_joining_approved = 27" | "cet mchat_joining_rejected = 28"
| "cet mchat_joining_canceled = 29" | "cet warn_about_stranger = 30" | "cet no_longer_stranger = 31"
| "cet status_reply = 32" | "cet custom_status_reply = 33" | "cet task_changed = 34" | "cet cet_max = 35"

record chat_event_data =
  ce_type :: int
  ce_captcha :: bool
  ce_channel :: bool
  ce_sender_aimid :: cstring
  ce_sender_friendly :: cstring
  ce_members :: "cstring list"
  ce_members_friendly :: "cstring list"
  ce_requested_by :: cstring
  ce_requested_by_friendly :: cstring
  ce_new_name :: cstring
  ce_new_description :: cstring
  ce_new_rules :: cstring
  ce_new_stamp :: cstring
  ce_new_join_moderation :: bool
  ce_new_public :: bool
  ce_new_trust_required :: bool
  ce_new_threads_enabled :: bool
  ce_sender_status :: cstring
  ce_sender_status_description :: cstring
  ce_owner_status :: cstring
  ce_owner_status_description :: cstring
  ce_task_editor :: cstring
  ce_task_change :: task_change
  ce_generic :: cstring

text \<open>The members a constructor does not initialise: the four flags of a chat change, and for one read from a pack the channel flag.\<close>

definition event_blank :: "junk \<Rightarrow> int \<Rightarrow> chat_event_data" where
  "event_blank junk ty = \<lparr>ce_type = ty, ce_captcha = False, ce_channel = junk_bool junk, ce_sender_aimid = [],
     ce_sender_friendly = [], ce_members = [], ce_members_friendly = [], ce_requested_by = [],
     ce_requested_by_friendly = [], ce_new_name = [], ce_new_description = [], ce_new_rules = [],
     ce_new_stamp = [], ce_new_join_moderation = junk_bool junk, ce_new_public = junk_bool junk,
     ce_new_trust_required = junk_bool junk, ce_new_threads_enabled = junk_bool junk,
     ce_sender_status = [], ce_sender_status_description = [], ce_owner_status = [],
     ce_owner_status_description = [], ce_task_editor = [], ce_task_change = change_default, ce_generic = []\<rparr>"

definition make_simple_event :: "junk \<Rightarrow> chat_event_type \<Rightarrow> chat_event_data" where
  "make_simple_event junk ty = (event_blank junk (cet ty))\<lparr>ce_captcha := False, ce_channel := False\<rparr>"

definition make_generic_event :: "junk \<Rightarrow> cstring \<Rightarrow> chat_event_data" where
  "make_generic_event junk str = (make_simple_event junk generic)\<lparr>ce_generic := str\<rparr>"

definition has_generic_text :: "int \<Rightarrow> bool" where
  "has_generic_text ty \<longleftrightarrow> ty = cet generic"

definition has_mchat_members :: "int \<Rightarrow> bool" where
  "has_mchat_members ty \<longleftrightarrow> ty \<in> cet ` {mchat_add_members, mchat_invite, mchat_leave, mchat_del_members,
     mchat_kicked, mchat_adm_granted, mchat_adm_revoked, mchat_allowed_to_write, mchat_disallowed_to_write,
     mchat_waiting_for_approve, mchat_joining_approved, mchat_joining_rejected, mchat_joining_canceled}"

definition has_chat_modifications :: "int \<Rightarrow> bool" where
  "has_chat_modifications ty \<longleftrightarrow> ty \<in> cet ` {chat_name_modified, chat_description_modified,
     chat_rules_modified, chat_stamp_modified, chat_join_moderation_modified, chat_public_modified,
     chat_trust_requied_modified, chat_threads_enabled_modified}"

definition has_sender_aimid :: "int \<Rightarrow> bool" where
  "has_sender_aimid ty \<longleftrightarrow> ty \<notin> cet ` {cet_invalid, cet_min, buddy_reg, buddy_found, birthday, generic,
     message_deleted, warn_about_stranger, no_longer_stranger, task_changed}"

definition is_type_deleted :: "chat_event_data \<Rightarrow> bool" where
  "is_type_deleted e \<longleftrightarrow> ce_type e = cet message_deleted"

definition event_equal :: "chat_event_data \<Rightarrow> chat_event_data \<Rightarrow> bool" where
  "event_equal a b \<longleftrightarrow> ce_type a = ce_type b"

definition modifications_serialize :: "chat_event_data \<Rightarrow> tlv list" where
  "modifications_serialize e =
     opt (ce_type e = cet chat_name_modified) (mk_tlv mf_chat_event_new_chat_name (ce_new_name e)) @
     opt (ce_type e = cet chat_description_modified) (mk_tlv mf_chat_event_new_chat_description (ce_new_description e)) @
     opt (ce_type e = cet chat_rules_modified) (mk_tlv mf_chat_event_new_chat_rules (ce_new_rules e)) @
     opt (ce_type e = cet chat_stamp_modified) (mk_tlv mf_chat_event_new_chat_stamp (ce_new_stamp e)) @
     opt (ce_type e = cet chat_threads_enabled_modified)
       (mk_tlv mf_chat_event_threads_enabled (bool_image (ce_new_threads_enabled e)))"

definition task_change_serialize :: "chat_event_data \<Rightarrow> tlv list" where
  "task_change_serialize e = (let c = ce_task_change e in
     opt (tc_title c \<noteq> None) (mk_tlv mf_task_title (the (tc_title c))) @
     opt (tc_assignee c \<noteq> None) (mk_tlv mf_task_assignee (the (tc_assignee c))) @
     opt (tc_end_time c \<noteq> None) (mk_tlv mf_task_end_time (i64_image (change_end_time_to_seconds c))) @
     opt (tc_status c \<noteq> None) (mk_tlv mf_task_status (status_to_string (the (tc_status c)))) @
     [mk_tlv mf_chat_event_task_editor (ce_task_editor e)])"

definition status_reply_serialize :: "chat_event_data \<Rightarrow> tlv list" where
  "status_reply_serialize e =
     [mk_tlv mf_chat_event_sender_status (ce_sender_status e),
      mk_tlv mf_chat_event_owner_status (ce_owner_status e),
      mk_tlv mf_chat_event_sender_status_desctiprion (ce_sender_status_description e),
      mk_tlv mf_chat_event_owner_status_description (ce_owner_status_description e)]"

definition event_serialize :: "chat_event_data \<Rightarrow> tlv list" where
  "event_serialize e =
     [mk_tlv mf_chat_event_type (i32_image (ce_type e)), mk_tlv mf_chat_is_channel (bool_image (ce_channel e))] @
     opt (ce_captcha e) (mk_tlv mf_chat_event_is_captcha_present (bool_image (ce_captcha e))) @
     (if has_sender_aimid (ce_type e)
      then [mk_tlv mf_chat_event_sender_aimid (ce_sender_aimid e),
            mk_tlv mf_chat_event_sender_friendly (ce_sender_friendly e)] else []) @
     (if has_mchat_members (ce_type e)
      then [mk_tlv_pack mf_chat_event_mchat_members (pack_of (numbered (ce_members_friendly e))),
            mk_tlv_pack mf_chat_event_mchat_members_aimids (pack_of (numbered (ce_members e))),
            mk_tlv mf_chat_requested_by (ce_requested_by e),
            mk_tlv mf_chat_requested_by_friendly (ce_requested_by_friendly e)] else []) @
     (if has_chat_modifications (ce_type e) then modifications_serialize e else []) @
     opt (has_generic_text (ce_type e)) (mk_tlv mf_chat_event_generic_text (ce_generic e)) @
     (if ce_type e = cet status_reply \<or> ce_type e = cet custom_status_reply then status_reply_serialize e else []) @
     (if cet task_changed = ce_type e then task_change_serialize e else [])"

text \<open>The members of a pack with types 0, 1, 2; a gap is a null dereference.\<close>

definition members_of :: "tlvpack \<Rightarrow> cstring list option" where
  "members_of p = those (map (\<lambda>i. map_option get_string (get_item p (word_of_nat i))) [0..<pack_size p])"

definition modifications_unserialize :: "tlvpack \<Rightarrow> chat_event_data \<Rightarrow> chat_event_data option" where
  "modifications_unserialize p e =
     (if ce_type e = cet chat_name_modified
        then map_option (\<lambda>t. e\<lparr>ce_new_name := get_string t\<rparr>) (get_item p mf_chat_event_new_chat_name)
      else if ce_type e = cet chat_description_modified
        then map_option (\<lambda>t. e\<lparr>ce_new_description := get_string t\<rparr>) (get_item p mf_chat_event_new_chat_description)
      else if ce_type e = cet chat_rules_modified
        then map_option (\<lambda>t. e\<lparr>ce_new_rules := get_string t\<rparr>) (get_item p mf_chat_event_new_chat_rules)
      else if ce_type e = cet chat_stamp_modified
        then map_option (\<lambda>t. e\<lparr>ce_new_stamp := get_string t\<rparr>) (get_item p mf_chat_event_new_chat_stamp)
      else if ce_type e = cet chat_threads_enabled_modified
        then map_option (\<lambda>t. e\<lparr>ce_new_threads_enabled := get_bool t\<rparr>) (get_item p mf_chat_event_threads_enabled)
      else Some e)"

definition status_reply_unserialize :: "tlvpack \<Rightarrow> chat_event_data \<Rightarrow> chat_event_data" where
  "status_reply_unserialize p e = e\<lparr>
     ce_sender_status := string_or (ce_sender_status e) p mf_chat_event_sender_status,
     ce_owner_status := string_or (ce_owner_status e) p mf_chat_event_owner_status,
     ce_sender_status_description := string_or (ce_sender_status_description e) p mf_chat_event_sender_status_desctiprion,
     ce_owner_status_description := string_or (ce_owner_status_description e) p mf_chat_event_owner_status_description\<rparr>"

definition task_change_unserialize :: "tlvpack \<Rightarrow> chat_event_data \<Rightarrow> chat_event_data" where
  "task_change_unserialize p e = (let c = ce_task_change e in e\<lparr>
     ce_task_editor := string_or (ce_task_editor e) p mf_chat_event_task_editor,
     ce_task_change := c\<lparr>
       tc_title := (case get_item p mf_task_title of None \<Rightarrow> tc_title c | Some t \<Rightarrow> Some (get_string t)),
       tc_assignee := (case get_item p mf_task_assignee of None \<Rightarrow> tc_assignee c | Some t \<Rightarrow> Some (get_string t)),
       tc_end_time := (case get_item p mf_task_end_time of None \<Rightarrow> tc_end_time c | Some t \<Rightarrow> Some (from_seconds (get_i64 t))),
       tc_status := (case get_item p mf_task_status of None \<Rightarrow> tc_status c | Some t \<Rightarrow> Some (string_to_status (get_string t)))\<rparr>\<rparr>)"

definition members_unserialize :: "tlvpack \<Rightarrow> chat_event_data \<Rightarrow> chat_event_data option" where
  "members_unserialize p e = do {
     e \<leftarrow> (case get_item p mf_chat_event_mchat_members of
         None \<Rightarrow> Some e
       | Some t \<Rightarrow> do { q \<leftarrow> get_pack t; ms \<leftarrow> members_of q; Some (e\<lparr>ce_members_friendly := ce_members_friendly e @ ms\<rparr>) });
     e \<leftarrow> (case get_item p mf_chat_event_mchat_members_aimids of
         None \<Rightarrow> Some e
       | Some t \<Rightarrow> do { q \<leftarrow> get_pack t; ms \<leftarrow> members_of q; Some (e\<lparr>ce_members := ce_members e @ ms\<rparr>) });
     Some (e\<lparr>ce_requested_by := string_or (ce_requested_by e) p mf_chat_requested_by,
             ce_requested_by_friendly := string_or (ce_requested_by_friendly e) p mf_chat_requested_by_friendly\<rparr>)
   }"

definition event_unserialize :: "junk \<Rightarrow> tlvpack \<Rightarrow> chat_event_data option" where
  "event_unserialize junk p = do {
     t \<leftarrow> get_item p mf_chat_event_type;
     let ty = get_i32 t;
     let e = event_blank junk ty;
     let e = (case get_item p mf_chat_is_channel of None \<Rightarrow> e | Some t \<Rightarrow> e\<lparr>ce_channel := get_bool t\<rparr>);
     let e = e\<lparr>ce_captcha := (case get_item p mf_chat_event_is_captcha_present of
         None \<Rightarrow> False | Some t \<Rightarrow> get_bool t)\<rparr>;
     let e = (if has_sender_aimid ty
       then e\<lparr>ce_sender_friendly := string_or (ce_sender_friendly e) p mf_chat_event_sender_friendly,
              ce_sender_aimid := string_or (ce_sender_aimid e) p mf_chat_event_sender_aimid\<rparr>
       else e);
     e \<leftarrow> (if has_mchat_members ty then members_unserialize p e else Some e);
     e \<leftarrow> (if has_chat_modifications ty then modifications_unserialize p e else Some e);
     let e = (if has_generic_text ty then e\<lparr>ce_generic := string_or (ce_generic e) p mf_chat_event_generic_text\<rparr> else e);
     let e = (if ty = cet status_reply \<or> ty = cet custom_status_reply then status_reply_unserialize p e else e);
     Some (if cet task_changed = ty then task_change_unserialize p e else e)
   }"

end
