(* ===== verification/Message_Content.thy ===== *)
theory Message_Content
  imports Message_Events
begin

text \<open>
  The parts of a message that hold its appearance: text formats, quotes of other messages and link
  previews (\<^verbatim>\<open>core/archive/history_message.cpp\<close>, \<^verbatim>\<open>text_formatting.h\<close>).
\<close>

subsection \<open>Text formats\<close>

datatype format_type = no_format | bold | italic | underline | strikethrough | monospace | link
  | mention_format | quote_format | pre | ordered_list | unordered_list

record range =
  rg_offset :: int
  rg_size :: int
  rg_start_index :: int

definition range_default :: range where
  "range_default = \<lparr>rg_offset = 0, rg_size = 0, rg_start_index = 1\<rparr>"

record range_format =
  rf_type :: format_type
  rf_range :: range
  rf_data :: "cstring option"

type_synonym formats = "range_format list"

text \<open>The switch of \<open>to_mf_type\<close>; no format falls through to the last return.\<close>

definition to_mf_type :: "format_type \<Rightarrow> u32" where
  "to_mf_type f = (case f of
     bold \<Rightarrow> mf_format_bold | italic \<Rightarrow> mf_format_italic | underline \<Rightarrow> mf_format_underline
   | strikethrough \<Rightarrow> mf_format_strikethrough | monospace \<Rightarrow> mf_format_inline_code
   | link \<Rightarrow> mf_format_url | mention_format \<Rightarrow> mf_format_mention | quote_format \<Rightarrow> mf_format_quote
   | pre \<Rightarrow> mf_format_pre | ordered_list \<Rightarrow> mf_format_ordered_list
   | unordered_list \<Rightarrow> mf_format_unordered_list | no_format \<Rightarrow> mf_format_bold)"

definition from_mf_type :: "u32 \<Rightarrow> format_type" where
  "from_mf_type t =
     (if t = mf_format_bold then bold
      else if t = mf_format_italic then italic
      else if t = mf_format_underline then underline
      else if t = mf_format_strikethrough then strikethrough
      else if t = mf_format_inline_code then monospace
      else if t = mf_format_url then link
      else if t = mf_format_mention then mention_format
      else if t = mf_format_quote then quote_format
      else if t = mf_format_pre then pre
      else if t = mf_format_ordered_list then ordered_list
      else if t = mf_format_unordered_list then unordered_list
      else bold)"

definition range_format_serialize :: "range_format \<Rightarrow> tlv list" where
  "range_format_serialize r =
     [mk_tlv mf_format_offset (i32_image (rg_offset (rf_range r))),
      mk_tlv mf_format_length (i32_image (rg_size (rf_range r))),
      mk_tlv mf_format_start_index (i32_image (rg_start_index (rf_range r)))] @
     opt (rf_data r \<noteq> None) (mk_tlv mf_format_data (the (rf_data r)))"

definition format_serialize :: "formats \<Rightarrow> tlv list" where
  "format_serialize fs = map (\<lambda>r. mk_tlv_pack (to_mf_type (rf_type r)) (pack_of (range_format_serialize r))) fs"

definition read_format_field :: "tlv \<Rightarrow> range_format \<Rightarrow> range_format" where
  "read_format_field f r =
     (if tlv_type f = mf_format_offset then r\<lparr>rf_range := (rf_range r)\<lparr>rg_offset := get_i32 f\<rparr>\<rparr>
      else if tlv_type f = mf_format_length then r\<lparr>rf_range := (rf_range r)\<lparr>rg_size := get_i32 f\<rparr>\<rparr>
      else if tlv_type f = mf_format_start_index then r\<lparr>rf_range := (rf_range r)\<lparr>rg_start_index := get_i32 f\<rparr>\<rparr>
      else if tlv_type f = mf_format_data then r\<lparr>rf_data := Some (get_string f)\<rparr>
      else r)"

definition read_format_info :: "tlvpack \<Rightarrow> range_format" where
  "read_format_info p = fold read_format_field (walk p) \<lparr>rf_type = no_format, rf_range = range_default, rf_data = None\<rparr>"

text \<open>
  The reader takes any field for a format, an unknown type for bold, and gives a list in the order
  read. (It returns \<^verbatim>\<open>false\<close>, which every caller ignores.)
\<close>

definition format_unserialize :: "tlvpack \<Rightarrow> formats option" where
  "format_unserialize p = those (map (\<lambda>f. map_option
     (\<lambda>q. (read_format_info q)\<lparr>rf_type := from_mf_type (tlv_type f)\<rparr>) (get_pack f)) (walk p))"

subsection \<open>Quotes\<close>

record quote =
  qu_text :: cstring
  qu_format :: "formats option"
  qu_sender :: cstring
  qu_chat :: cstring
  qu_chat_stamp :: cstring
  qu_chat_name :: cstring
  qu_sender_friendly :: cstring
  qu_url :: cstring
  qu_description :: cstring
  qu_description_format :: "formats option"
  qu_time :: int
  qu_set_id :: int
  qu_sticker_id :: int
  qu_msg_id :: int
  qu_is_forward :: bool
  qu_shared_contact :: "shared_contact_data option"
  qu_geo :: "geo_data option"
  qu_poll :: "poll_data option"
  qu_task :: "task_data option"

definition quote_default :: quote where
  "quote_default = \<lparr>qu_text = [], qu_format = None, qu_sender = [], qu_chat = [], qu_chat_stamp = [],
     qu_chat_name = [], qu_sender_friendly = [], qu_url = [], qu_description = [],
     qu_description_format = None, qu_time = -1, qu_set_id = -1, qu_sticker_id = -1, qu_msg_id = -1,
     qu_is_forward = False, qu_shared_contact = None, qu_geo = None, qu_poll = None, qu_task = None\<rparr>"

text \<open>The fields of a part that may be missing.\<close>

definition serialize_opt :: "('a \<Rightarrow> tlv list) \<Rightarrow> 'a option \<Rightarrow> tlv list" where
  "serialize_opt f x = (case x of None \<Rightarrow> [] | Some y \<Rightarrow> f y)"

definition quote_serialize :: "quote \<Rightarrow> tlv list" where
  "quote_serialize q =
     opt (qu_text q \<noteq> []) (mk_tlv mf_quote_text (qu_text q)) @
     opt (qu_sender q \<noteq> []) (mk_tlv mf_quote_sn (qu_sender q)) @
     opt (qu_chat q \<noteq> []) (mk_tlv mf_quote_chat_id (qu_chat q)) @
     opt (qu_time q \<noteq> -1) (mk_tlv mf_quote_time (i32_image (qu_time q))) @
     opt (qu_msg_id q \<noteq> -1) (mk_tlv mf_quote_msg_id (i64_image (qu_msg_id q))) @
     opt (qu_sender_friendly q \<noteq> []) (mk_tlv mf_quote_friendly (qu_sender_friendly q)) @
     opt (qu_set_id q \<noteq> -1) (mk_tlv mf_quote_set_id (i32_image (qu_set_id q))) @
     opt (qu_sticker_id q \<noteq> -1) (mk_tlv mf_quote_sticker_id (i32_image (qu_sticker_id q))) @
     [mk_tlv mf_quote_is_forward (bool_image (qu_is_forward q))] @
     opt (qu_chat_stamp q \<noteq> []) (mk_tlv mf_quote_chat_stamp (qu_chat_stamp q)) @
     opt (qu_chat_name q \<noteq> []) (mk_tlv mf_quote_chat_name (qu_chat_name q)) @
     opt (qu_url q \<noteq> []) (mk_tlv mf_quote_url (qu_url q)) @
     opt (qu_description q \<noteq> []) (mk_tlv mf_quote_description (qu_description q)) @
     serialize_opt contact_serialize (qu_shared_contact q) @
     serialize_opt geo_serialize (qu_geo q) @
     serialize_opt poll_serialize (qu_poll q) @
     serialize_opt task_serialize (qu_task q) @
     serialize_opt (\<lambda>f. [mk_tlv_pack mf_format (pack_of (format_serialize f))]) (qu_format q) @
     serialize_opt (\<lambda>f. [mk_tlv_pack mf_description_format (pack_of (format_serialize f))]) (qu_description_format q)"

text \<open>
  The reader's lambda assigns a member when its field is there. \<open>with_pack\<close> is the nested case: the
  field's pack, if there is one, given to a reader.
\<close>

definition i32_or :: "int \<Rightarrow> tlvpack \<Rightarrow> u32 \<Rightarrow> int" where
  "i32_or d p ty = (case get_item p ty of None \<Rightarrow> d | Some t \<Rightarrow> get_i32 t)"

definition i64_or :: "int \<Rightarrow> tlvpack \<Rightarrow> u32 \<Rightarrow> int" where
  "i64_or d p ty = (case get_item p ty of None \<Rightarrow> d | Some t \<Rightarrow> get_i64 t)"

definition bool_or :: "bool \<Rightarrow> tlvpack \<Rightarrow> u32 \<Rightarrow> bool" where
  "bool_or d p ty = (case get_item p ty of None \<Rightarrow> d | Some t \<Rightarrow> get_bool t)"

definition with_pack :: "tlvpack \<Rightarrow> u32 \<Rightarrow> 'a \<Rightarrow> (tlvpack \<Rightarrow> 'a option) \<Rightarrow> 'a option" where
  "with_pack p ty d f = (case get_item p ty of None \<Rightarrow> Some d | Some t \<Rightarrow> Option.bind (get_pack t) f)"

definition geo_blank :: "junk \<Rightarrow> geo_data" where
  "geo_blank junk = \<lparr>geo_name = [], geo_lat = junk_u64 junk, geo_long = junk_u64 junk\<rparr>"

definition read_contact :: "tlvpack \<Rightarrow> shared_contact_data option \<Rightarrow> shared_contact_data option" where
  "read_contact p old = (case contact_unserialize p contact_default of (ok, c) \<Rightarrow> if ok then Some c else old)"

definition quote_unserialize :: "junk \<Rightarrow> tlvpack \<Rightarrow> quote \<Rightarrow> quote option" where
  "quote_unserialize junk p q = do {
     let q = q\<lparr>
       qu_text := string_or (qu_text q) p mf_quote_text,
       qu_sender := string_or (qu_sender q) p mf_quote_sn,
       qu_chat := string_or (qu_chat q) p mf_quote_chat_id,
       qu_time := i32_or (qu_time q) p mf_quote_time,
       qu_msg_id := i64_or (qu_msg_id q) p mf_quote_msg_id,
       qu_sender_friendly := string_or (qu_sender_friendly q) p mf_quote_friendly,
       qu_set_id := i32_or (qu_set_id q) p mf_quote_set_id,
       qu_is_forward := bool_or (qu_is_forward q) p mf_quote_is_forward,
       qu_sticker_id := i32_or (qu_sticker_id q) p mf_quote_sticker_id,
       qu_chat_stamp := string_or (qu_chat_stamp q) p mf_quote_chat_stamp,
       qu_chat_name := string_or (qu_chat_name q) p mf_quote_chat_name,
       qu_url := string_or (qu_url q) p mf_quote_url,
       qu_description := string_or (qu_description q) p mf_quote_description\<rparr>;
     contact \<leftarrow> with_pack p mf_shared_contact (qu_shared_contact q)
       (\<lambda>r. Some (read_contact r (qu_shared_contact q)));
     geo \<leftarrow> with_pack p mf_geo (qu_geo q) (\<lambda>r. Some (Some (geo_unserialize r (geo_blank junk))));
     poll \<leftarrow> with_pack p mf_poll (qu_poll q) (\<lambda>r. Some (Some (poll_unserialize r)));
     task \<leftarrow> with_pack p mf_task (qu_task q) (\<lambda>r. Some (Some (task_unserialize r)));
     format \<leftarrow> with_pack p mf_format (qu_format q) (\<lambda>r. map_option Some (format_unserialize r));
     dformat \<leftarrow> with_pack p mf_description_format (qu_description_format q)
       (\<lambda>r. map_option Some (format_unserialize r));
     Some (q\<lparr>qu_shared_contact := contact, qu_geo := geo, qu_poll := poll, qu_task := task,
             qu_format := format, qu_description_format := dformat\<rparr>)
   }"

subsection \<open>Link previews\<close>

record url_snippet =
  us_url :: cstring
  us_content_type :: cstring
  us_preview_url :: cstring
  us_preview_width :: int
  us_preview_height :: int
  us_title :: cstring
  us_description :: cstring

definition snippet_of_url :: "cstring \<Rightarrow> url_snippet" where
  "snippet_of_url url = \<lparr>us_url = url, us_content_type = [], us_preview_url = [], us_preview_width = 0,
     us_preview_height = 0, us_title = [], us_description = []\<rparr>"

definition snippet_serialize :: "url_snippet \<Rightarrow> tlv list" where
  "snippet_serialize s =
     concat (map (\<lambda>(ty, v). opt (v \<noteq> []) (mk_tlv ty v))
       [(mf_snippet_url, us_url s), (mf_snippet_content_type, us_content_type s),
        (mf_snippet_preview_url, us_preview_url s), (mf_snippet_title, us_title s),
        (mf_snippet_description, us_description s)]) @
     opt (us_preview_width s \<noteq> 0) (mk_tlv mf_snippet_preview_w (i32_image (us_preview_width s))) @
     opt (us_preview_height s \<noteq> 0) (mk_tlv mf_snippet_preview_h (i32_image (us_preview_height s)))"

definition snippet_unserialize :: "tlvpack \<Rightarrow> url_snippet \<Rightarrow> url_snippet" where
  "snippet_unserialize p s = s\<lparr>
     us_url := string_or (us_url s) p mf_snippet_url,
     us_content_type := string_or (us_content_type s) p mf_snippet_content_type,
     us_preview_url := string_or (us_preview_url s) p mf_snippet_preview_url,
     us_preview_width := i32_or (us_preview_width s) p mf_snippet_preview_w,
     us_preview_height := i32_or (us_preview_height s) p mf_snippet_preview_h,
     us_title := string_or (us_title s) p mf_snippet_title,
     us_description := string_or (us_description s) p mf_snippet_description\<rparr>"

end
