(* ===== verification/Patch_Version.thy ===== *)
theory Patch_Version
  imports Prelude
begin

text \<open>
  \<^verbatim>\<open>common.shared/patch_version.h\<close>: the version of a message's last patch, a decimal number kept as
  a string, with a counter of local changes. A shorter string is smaller; strings of equal length
  are compared byte by byte. \<^verbatim>\<open>char\<close> is signed on the platforms the client is built for, so the bytes
  compare as signed values.
\<close>

record patch_version =
  pv_string :: cstring
  pv_offline :: int

definition pv_default :: patch_version where
  "pv_default = \<lparr>pv_string = [], pv_offline = 0\<rparr>"

definition pv_of_string :: "cstring \<Rightarrow> patch_version" where
  "pv_of_string str = pv_default\<lparr>pv_string := str\<rparr>"

definition pv_is_empty :: "patch_version \<Rightarrow> bool" where
  "pv_is_empty v \<longleftrightarrow> pv_string v = []"

text \<open>\<^verbatim>\<open>++offline_version_\<close> on an \<^verbatim>\<open>int32_t\<close>; the overflow of the signed counter wraps.\<close>

definition increment_offline :: "patch_version \<Rightarrow> patch_version" where
  "increment_offline v = v\<lparr>pv_offline := i32_value (i32_image (pv_offline v + 1))\<rparr>"

fun lexicographical_compare :: "bytes \<Rightarrow> bytes \<Rightarrow> bool" where
  "lexicographical_compare xs [] = False"
| "lexicographical_compare [] (y # ys) = True"
| "lexicographical_compare (x # xs) (y # ys) =
     (if sint x < sint y then True
      else if sint y < sint x then False
      else lexicographical_compare xs ys)"

definition version_less_than :: "bytes \<Rightarrow> bytes \<Rightarrow> bool" where
  "version_less_than lhs rhs =
     (if length lhs = length rhs then lexicographical_compare lhs rhs
      else length lhs < length rhs)"

definition pv_equal :: "patch_version \<Rightarrow> patch_version \<Rightarrow> bool" where
  "pv_equal a b \<longleftrightarrow> pv_string a = pv_string b"

definition pv_less :: "patch_version \<Rightarrow> patch_version \<Rightarrow> bool" where
  "pv_less a b \<longleftrightarrow> version_less_than (pv_string a) (pv_string b)"

definition pv_greater :: "patch_version \<Rightarrow> patch_version \<Rightarrow> bool" where
  "pv_greater a b \<longleftrightarrow> pv_less b a"

definition pv_greater_eq :: "patch_version \<Rightarrow> patch_version \<Rightarrow> bool" where
  "pv_greater_eq a b \<longleftrightarrow> \<not> pv_less a b"

subsection \<open>The comparison is a strict total order on the strings\<close>

text \<open>
  The interface that the merging of headers and of dialog states relies on: an order whose
  equivalence is the equality of the version strings.
\<close>

locale version_order =
  fixes less :: "'v \<Rightarrow> 'v \<Rightarrow> bool"
    and same :: "'v \<Rightarrow> 'v \<Rightarrow> bool"
  assumes less_irrefl: "same a b \<Longrightarrow> \<not> less a b"
    and less_trans: "less a b \<Longrightarrow> less b c \<Longrightarrow> less a c"
    and less_total: "less a b \<or> same a b \<or> less b a"
    and same_refl: "same a a"
    and same_sym: "same a b \<Longrightarrow> same b a"
    and same_trans: "same a b \<Longrightarrow> same b c \<Longrightarrow> same a c"
    and same_less: "same a b \<Longrightarrow> less b c \<Longrightarrow> less a c"
begin

definition newer :: "'v \<Rightarrow> 'v \<Rightarrow> 'v" where
  "newer a b = (if less a b then b else a)"

lemma less_asym: "less a b \<Longrightarrow> \<not> less b a"
  using less_trans [of a b a] less_irrefl [OF same_refl [of a]] by blast

lemma not_less_trans: "\<not> less a b \<Longrightarrow> \<not> less b c \<Longrightarrow> \<not> less a c"
  using less_total [of a b] less_total [of b c] less_trans [of b a c] less_trans [of a c b]
    same_less [of b a c] same_less [of b a] same_sym [of a b] by blast

lemma newer_not_older: "\<not> less (newer a b) a \<and> \<not> less (newer a b) b"
  using less_asym [of a b] less_irrefl [OF same_refl] by (simp add: newer_def)

lemma newer_idem: "newer (newer a b) b = newer a b"
  by (simp add: newer_def)

lemma newer_not_less: "\<not> less b c \<Longrightarrow> \<not> less a c \<Longrightarrow> \<not> less (newer a b) c"
  by (simp add: newer_def)

end

lemma lex_irrefl: "\<not> lexicographical_compare xs xs"
  by (induction xs) auto

lemma lex_trans:
  "lexicographical_compare xs ys \<Longrightarrow> lexicographical_compare ys zs \<Longrightarrow> lexicographical_compare xs zs"
proof (induction zs arbitrary: xs ys)
  case (Cons z zs)
  then obtain y ys' where ys: "ys = y # ys' \<or> ys = []" by (cases ys) auto
  with Cons show ?case by (cases xs; cases ys) (auto split: if_splits)
qed simp

lemma lex_total: "lexicographical_compare xs ys \<or> xs = ys \<or> lexicographical_compare ys xs"
proof (induction xs arbitrary: ys)
  case Nil
  show ?case by (cases ys) auto
next
  case (Cons x xs)
  show ?case
  proof (cases ys)
    case (Cons y ys')
    have "sint x = sint y \<Longrightarrow> x = y" by (metis signed_word_eqI)
    with Cons.IH [of ys'] Cons show ?thesis by auto
  qed simp
qed

interpretation pv_order: version_order pv_less pv_equal
  by unfold_locales
    (auto simp: pv_less_def pv_equal_def version_less_than_def lex_irrefl split: if_splits
      dest: lex_trans, use lex_total in blast)

subsection \<open>Decimal versions compare as numbers\<close>

text \<open>The number a string of ASCII digits denotes, and the strings without leading zeros.\<close>

definition is_digit :: "byte \<Rightarrow> bool" where
  "is_digit b \<longleftrightarrow> 48 \<le> b \<and> b \<le> 57"

fun decimal_value :: "bytes \<Rightarrow> nat" where
  "decimal_value [] = 0"
| "decimal_value (b # bs) = (unat b - 48) * 10 ^ length bs + decimal_value bs"

definition canonical_decimal :: "bytes \<Rightarrow> bool" where
  "canonical_decimal bs \<longleftrightarrow> bs \<noteq> [] \<and> list_all is_digit bs \<and> (hd bs = 48 \<longrightarrow> length bs = 1)"

lemma digit_bounds: "is_digit b \<Longrightarrow> 48 \<le> unat b \<and> unat b \<le> 57"
  by (simp add: is_digit_def word_le_nat_alt)

lemma digit_sint: "is_digit b \<Longrightarrow> sint b = int (unat b)"
  using digit_bounds [of b] by (simp add: sint_uint signed_take_bit_int_eq_self uint_nat del: of_nat_unat)

lemma decimal_value_bound: "list_all is_digit bs \<Longrightarrow> decimal_value bs < 10 ^ length bs"
proof (induction bs)
  case (Cons b bs)
  then have "unat b \<le> 57" using digit_bounds [of b] by simp
  then have "unat b - 48 \<le> 9" by linarith
  then have "(unat b - 48) * 10 ^ length bs \<le> 9 * 10 ^ length bs" by (rule mult_right_mono) simp
  moreover have "decimal_value bs < 10 ^ length bs" using Cons by simp
  ultimately have "(unat b - 48) * 10 ^ length bs + decimal_value bs < 9 * 10 ^ length bs + 10 ^ length bs"
    by (rule add_le_less_mono)
  then show ?case by simp
qed simp

lemma lex_decimal:
  "length xs = length ys \<Longrightarrow> list_all is_digit xs \<Longrightarrow> list_all is_digit ys \<Longrightarrow>
    lexicographical_compare xs ys \<longleftrightarrow> decimal_value xs < decimal_value ys"
proof (induction xs ys rule: list_induct2)
  case (Cons x xs y ys)
  have x: "48 \<le> unat x" "sint x = int (unat x)" and y: "48 \<le> unat y" "sint y = int (unat y)"
    using Cons.prems digit_bounds digit_sint by (auto simp del: of_nat_unat)
  have bx: "decimal_value xs < 10 ^ length ys" and by': "decimal_value ys < 10 ^ length ys"
    using Cons decimal_value_bound [of xs] decimal_value_bound [of ys] by simp_all
  have step: "a * p + v < b * p + w" if "a < b" "v < p" for a b p v w :: nat
  proof -
    have "a * p + v < (a + 1) * p" using that(2) by simp
    also have "\<dots> \<le> b * p" using that(1) by (intro mult_right_mono) auto
    finally show ?thesis by simp
  qed
  show ?case
  proof (cases "unat x" "unat y" rule: linorder_cases)
    case less
    with x y have "unat x - 48 < unat y - 48" by arith
    with step [OF this bx] less x y Cons.hyps show ?thesis by (simp del: of_nat_unat)
  next
    case equal
    with x y Cons show ?thesis by (simp del: of_nat_unat)
  next
    case greater
    with x y have "unat y - 48 < unat x - 48" by arith
    with step [OF this by'] greater x y Cons.hyps show ?thesis by (simp add: not_less less_imp_le del: of_nat_unat)
  qed
qed simp

lemma unat_eq_48: "unat (y :: byte) = 48 \<Longrightarrow> y = 48"
  by (rule word_unat_eq_iff [THEN iffD2]) simp

lemma decimal_value_shorter:
  assumes "canonical_decimal xs" and "canonical_decimal ys" and "length xs < length ys"
  shows "decimal_value xs < decimal_value ys"
proof -
  obtain y ys' where ys: "ys = y # ys'" using assms(2) by (cases ys) (auto simp: canonical_decimal_def)
  have "y \<noteq> 48" using assms ys by (auto simp: canonical_decimal_def)
  then have y_ne: "unat y \<noteq> 48" using unat_eq_48 by blast
  moreover have "48 \<le> unat y" using assms(2) ys digit_bounds [of y] by (simp add: canonical_decimal_def)
  ultimately have "1 \<le> unat y - 48"
    using y_ne by simp
  then have "10 ^ length ys' \<le> decimal_value ys" using ys by (simp add: trans_le_add1)
  moreover have "decimal_value xs < 10 ^ length xs"
    using assms(1) by (intro decimal_value_bound) (simp add: canonical_decimal_def)
  moreover have "(10::nat) ^ length xs \<le> 10 ^ length ys'" using assms(3) ys by (intro power_increasing) auto
  ultimately show ?thesis by linarith
qed

text \<open>On decimal numbers without leading zeros, of any length, the order of patch versions is the order of the
  numbers.\<close>

theorem version_order_is_numeric:
  assumes "canonical_decimal (pv_string a)" and "canonical_decimal (pv_string b)"
  shows "pv_less a b \<longleftrightarrow> decimal_value (pv_string a) < decimal_value (pv_string b)"
proof (cases "length (pv_string a) = length (pv_string b)")
  case True
  then show ?thesis
    using assms by (simp add: pv_less_def version_less_than_def lex_decimal canonical_decimal_def)
next
  case False
  then consider "length (pv_string a) < length (pv_string b)" | "length (pv_string b) < length (pv_string a)"
    by linarith
  then show ?thesis
  proof cases
    case 1
    with decimal_value_shorter [OF assms 1] show ?thesis by (simp add: pv_less_def version_less_than_def)
  next
    case 2
    with decimal_value_shorter [OF assms(2,1) 2] show ?thesis by (simp add: pv_less_def version_less_than_def)
  qed
qed

theorem version_order_is_numeric_witness:
  "pv_less (pv_of_string (cstr ''9'')) (pv_of_string (cstr ''10''))"
  by (subst version_order_is_numeric) (simp_all add: pv_of_string_def cstr_def canonical_decimal_def is_digit_def)

end
