(* ===== verification/Message_Flags.thy ===== *)
theory Message_Flags
  imports Prelude
begin

text \<open>
  \<^verbatim>\<open>core/archive/message_flags.h\<close>: the union of a 32-bit word with its bit fields. The compilers in
  use allocate bit fields from the least significant bit up, so a field is one bit of the word.
\<close>

definition unread_bit :: nat where "unread_bit = 1"
definition outgoing_bit :: nat where "outgoing_bit = 2"
definition invisible_bit :: nat where "invisible_bit = 3"
definition patch_bit :: nat where "patch_bit = 4"
definition deleted_bit :: nat where "deleted_bit = 5"
definition modified_bit :: nat where "modified_bit = 6"
definition updated_bit :: nat where "updated_bit = 7"
definition clear_bit :: nat where "clear_bit = 8"
definition restored_patch_bit :: nat where "restored_patch_bit = 9"

lemmas flag_bit_defs = unread_bit_def outgoing_bit_def invisible_bit_def patch_bit_def
  deleted_bit_def modified_bit_def updated_bit_def clear_bit_def restored_patch_bit_def

definition flag :: "nat \<Rightarrow> u32 \<Rightarrow> bool" where
  "flag n w = bit w n"

definition set_flag :: "nat \<Rightarrow> bool \<Rightarrow> u32 \<Rightarrow> u32" where
  "set_flag n b w = (if b then Bit_Operations.set_bit n w else unset_bit n w)"

lemma flag_set_same [flag_simps]: "n < 32 \<Longrightarrow> flag n (set_flag n b w) = b"
  by (simp add: flag_def set_flag_def bit_set_bit_iff bit_unset_bit_iff)

lemma flag_set_other [flag_simps]: "m \<noteq> n \<Longrightarrow> flag m (set_flag n b w) = flag m w"
  by (auto simp: flag_def set_flag_def bit_set_bit_iff bit_unset_bit_iff)

lemma flag_set: "n < 32 \<Longrightarrow> flag m (set_flag n b w) = (if m = n then b else flag m w)"
  by (simp add: flag_set_same flag_set_other)

lemma flag_zero [simp, flag_simps]: "\<not> flag n 0"
  by (simp add: flag_def)

end
