(* ===== verification/Message_Header.thy ===== *)
theory Message_Header
  imports Binary_Stream Patch_Version Message_Flags
begin

text \<open>
  The class \<^verbatim>\<open>message_header\<close> of \<^verbatim>\<open>core/archive/history_message.h\<close> and \<^verbatim>\<open>.cpp\<close>: one entry of the
  message index. A header names a message, its predecessor in the archive, the place of its body in
  the data file and what is known of later patches; patches are headers too, merged into the entry
  of the message they change, which keeps them in \<^verbatim>\<open>modifications_\<close>.

  The assertions of the code are compiled out of the release build and are not modelled.
\<close>

subsection \<open>The data\<close>

record header_fields =
  hf_id :: int
  hf_version :: u8
  hf_flags :: u32
  hf_time :: u64
  hf_prev :: int
  hf_offset :: int
  hf_size :: u32
  hf_patch :: patch_version
  hf_contact :: bool
  hf_poll :: bool
  hf_task :: bool
  hf_reactions :: bool
  hf_thread :: bool

datatype message_header =
  Message_Header (mh_fields: header_fields) (mh_modifications: "message_header list")

definition header_version :: u8 where
  "header_version = 6"

definition header_default :: message_header where
  "header_default = Message_Header
     \<lparr>hf_id = -1, hf_version = header_version, hf_flags = 0, hf_time = 0, hf_prev = -1,
      hf_offset = -1, hf_size = 0, hf_patch = pv_default, hf_contact = False, hf_poll = False,
      hf_task = False, hf_reactions = False, hf_thread = False\<rparr> []"

definition mk_header ::
  "u32 \<Rightarrow> u64 \<Rightarrow> int \<Rightarrow> int \<Rightarrow> int \<Rightarrow> u32 \<Rightarrow> patch_version \<Rightarrow> bool \<Rightarrow> bool \<Rightarrow> bool \<Rightarrow> bool \<Rightarrow> bool \<Rightarrow> message_header"
where
  "mk_header fl t i prev off sz pv contact poll task reactions thread = Message_Header
     \<lparr>hf_id = i, hf_version = header_version, hf_flags = fl, hf_time = t, hf_prev = prev,
      hf_offset = off, hf_size = sz, hf_patch = pv, hf_contact = contact, hf_poll = poll,
      hf_task = task, hf_reactions = reactions, hf_thread = thread\<rparr> []"

definition map_fields :: "(header_fields \<Rightarrow> header_fields) \<Rightarrow> message_header \<Rightarrow> message_header" where
  "map_fields f h = Message_Header (f (mh_fields h)) (mh_modifications h)"

abbreviation mh_id :: "message_header \<Rightarrow> int" where "mh_id h \<equiv> hf_id (mh_fields h)"
abbreviation mh_version :: "message_header \<Rightarrow> u8" where "mh_version h \<equiv> hf_version (mh_fields h)"
abbreviation mh_flags :: "message_header \<Rightarrow> u32" where "mh_flags h \<equiv> hf_flags (mh_fields h)"
abbreviation mh_time :: "message_header \<Rightarrow> u64" where "mh_time h \<equiv> hf_time (mh_fields h)"
abbreviation mh_prev :: "message_header \<Rightarrow> int" where "mh_prev h \<equiv> hf_prev (mh_fields h)"
abbreviation mh_offset :: "message_header \<Rightarrow> int" where "mh_offset h \<equiv> hf_offset (mh_fields h)"
abbreviation mh_size :: "message_header \<Rightarrow> u32" where "mh_size h \<equiv> hf_size (mh_fields h)"
abbreviation mh_patch :: "message_header \<Rightarrow> patch_version" where "mh_patch h \<equiv> hf_patch (mh_fields h)"

lemma mh_fields_map [simp]: "mh_fields (map_fields f h) = f (mh_fields h)"
  by (simp add: map_fields_def)

lemma mh_modifications_map [simp]: "mh_modifications (map_fields f h) = mh_modifications h"
  by (simp add: map_fields_def)

subsection \<open>Getters and setters\<close>

definition has_id :: "message_header \<Rightarrow> bool" where
  "has_id h \<longleftrightarrow> mh_id h > 0"

definition set_flags :: "u32 \<Rightarrow> message_header \<Rightarrow> message_header" where
  "set_flags fl = map_fields (hf_flags_update (\<lambda>_. fl))"

definition set_data_offset :: "int \<Rightarrow> message_header \<Rightarrow> message_header" where
  "set_data_offset v = map_fields (hf_offset_update (\<lambda>_. v))"

definition invalidate_data_offset :: "message_header \<Rightarrow> message_header" where
  "invalidate_data_offset = map_fields (hf_offset_update (\<lambda>_. i64_max))"

definition is_message_data_valid :: "message_header \<Rightarrow> bool" where
  "is_message_data_valid h \<longleftrightarrow> mh_offset h \<noteq> i64_max"

definition set_data_size :: "u32 \<Rightarrow> message_header \<Rightarrow> message_header" where
  "set_data_size v = map_fields (hf_size_update (\<lambda>_. v))"

definition set_prev_msgid :: "int \<Rightarrow> message_header \<Rightarrow> message_header" where
  "set_prev_msgid v = map_fields (hf_prev_update (\<lambda>_. v))"

definition set_update_patch_version :: "patch_version \<Rightarrow> message_header \<Rightarrow> message_header" where
  "set_update_patch_version v = map_fields (hf_patch_update (\<lambda>_. v))"

definition increment_offline_version :: "message_header \<Rightarrow> message_header" where
  "increment_offline_version = map_fields (hf_patch_update increment_offline)"

definition is_deleted :: "message_header \<Rightarrow> bool" where
  "is_deleted h = flag deleted_bit (mh_flags h)"

definition is_restored_patch :: "message_header \<Rightarrow> bool" where
  "is_restored_patch h = flag restored_patch_bit (mh_flags h)"

definition is_modified :: "message_header \<Rightarrow> bool" where
  "is_modified h = flag modified_bit (mh_flags h)"

definition is_updated :: "message_header \<Rightarrow> bool" where
  "is_updated h = flag updated_bit (mh_flags h)"

definition is_patch :: "message_header \<Rightarrow> bool" where
  "is_patch h = flag patch_bit (mh_flags h)"

definition is_updated_message :: "message_header \<Rightarrow> bool" where
  "is_updated_message h \<longleftrightarrow> \<not> is_patch h \<and> is_updated h"

definition is_outgoing :: "message_header \<Rightarrow> bool" where
  "is_outgoing h = flag outgoing_bit (mh_flags h)"

text \<open>\<^verbatim>\<open>set_updated(_value)\<close> stores \<^verbatim>\<open>true\<close> whatever its argument is.\<close>

definition set_updated :: "bool \<Rightarrow> message_header \<Rightarrow> message_header" where
  "set_updated v = map_fields (hf_flags_update (set_flag updated_bit True))"

definition has_modifications :: "message_header \<Rightarrow> bool" where
  "has_modifications h \<longleftrightarrow> (is_modified h \<or> is_updated h) \<and> mh_modifications h \<noteq> []"

lemmas header_flag_defs = is_deleted_def is_restored_patch_def is_modified_def is_updated_def
  is_patch_def is_outgoing_def is_updated_message_def

subsection \<open>The stored form\<close>

definition min_data_sizeof :: "u8 \<Rightarrow> nat" where
  "min_data_sizeof v =
     (let version0 = 1 + 4 + 8 + 8 + 8 + 8 + 4;
          version1 = version0 + 4
      in if v = 0 then version0
         else if v = 1 then version1
         else if v = 2 then version1 + 1
         else if v = 3 then version1 + 2
         else if v = 4 then version1 + 3
         else if v = 5 then version1 + 4
         else if v = 6 then version1 + 5
         else version0)"

definition write_if :: "bool \<Rightarrow> bytes \<Rightarrow> binary_stream \<Rightarrow> binary_stream" where
  "write_if c bs s = (if c then write_bytes bs s else s)"

definition header_serialize :: "message_header \<Rightarrow> binary_stream \<Rightarrow> binary_stream" where
  "header_serialize h s =
     (let f = mh_fields h; v = hf_version f; str = pv_string (hf_patch f);
          s = write_bytes [v] s;
          s = write_bytes (u32_image (hf_flags f)) s;
          s = write_bytes (u64_image (hf_time f)) s;
          s = write_bytes (i64_image (hf_id f)) s;
          s = write_bytes (i64_image (hf_prev f)) s;
          s = write_bytes (i64_image (hf_offset f)) s;
          s = write_bytes (u32_image (hf_size f)) s;
          s = (if v > 0 then
                 let sz = word_of_nat (length str) :: u32;
                     s = write_bytes (u32_image sz) s
                 in write_bytes (take (unat sz) str) s
               else s);
          s = write_if (v > 1) (bool_image (hf_contact f)) s;
          s = write_if (v > 2) (bool_image (hf_poll f)) s;
          s = write_if (v > 3) (bool_image (hf_reactions f)) s;
          s = write_if (v > 4) (bool_image (hf_task f)) s
      in write_if (v > 5) (bool_image (hf_thread f)) s)"

text \<open>
  Reading: the Boolean is what \<^verbatim>\<open>unserialize\<close> returns, the header is the object as the calls leave
  it, \<open>None\<close> is the null dereference. \<open>read_header_patch\<close> is the block of the patch version,
  \<open>read_flag_if\<close> one of the trailing \<^verbatim>\<open>if (version_ > k) has_x_ = _data.read<bool>()\<close>.
\<close>

definition read_header_patch ::
  "header_fields \<Rightarrow> binary_stream \<Rightarrow> (bool \<times> header_fields \<times> binary_stream) option" where
  "read_header_patch f s =
     (if hf_version f > 0 then do {
        (len, s) \<leftarrow> read_u32 s;
        if len > 0 then
          if available s < uint len then Some (False, f, s)
          else do {
            (str, s) \<leftarrow> read_bytes (unat len) s;
            Some (True, f\<lparr>hf_patch := pv_of_string str\<rparr>, s)
          }
        else Some (True, f, s)
      } else Some (True, f, s))"

definition read_flag_if ::
  "bool \<Rightarrow> (bool \<Rightarrow> header_fields \<Rightarrow> header_fields) \<Rightarrow> header_fields \<times> binary_stream \<Rightarrow>
    (header_fields \<times> binary_stream) option" where
  "read_flag_if c store fs =
     (if c then do { (b, s) \<leftarrow> read_bool (snd fs); Some (store b (fst fs), s) } else Some fs)"

definition read_flags :: "header_fields \<Rightarrow> binary_stream \<Rightarrow> (bool \<times> header_fields \<times> binary_stream) option" where
  "read_flags f s = (let v = hf_version f in do {
       fs \<leftarrow> read_flag_if (v > 1) (\<lambda>b. hf_contact_update (\<lambda>_. b)) (f, s);
       fs \<leftarrow> read_flag_if (v > 2) (\<lambda>b. hf_poll_update (\<lambda>_. b)) fs;
       fs \<leftarrow> read_flag_if (v > 3) (\<lambda>b. hf_reactions_update (\<lambda>_. b)) fs;
       fs \<leftarrow> read_flag_if (v > 4) (\<lambda>b. hf_task_update (\<lambda>_. b)) fs;
       fs \<leftarrow> read_flag_if (v > 5) (\<lambda>b. hf_thread_update (\<lambda>_. b)) fs;
       Some (True, fs)
     })"

definition read_header_tail ::
  "header_fields \<Rightarrow> binary_stream \<Rightarrow> (bool \<times> header_fields \<times> binary_stream) option" where
  "read_header_tail f s = do {
     (ok, f, s) \<leftarrow> read_header_patch f s;
     if \<not> ok then Some (False, f, s) else read_flags f s
   }"

definition fields_unserialize ::
  "header_fields \<Rightarrow> binary_stream \<Rightarrow> (bool \<times> header_fields \<times> binary_stream) option" where
  "fields_unserialize f s =
     (if lt_size (available s) 1 then Some (False, f, s) else do {
        (v, s) \<leftarrow> read_u8 s;
        let f = f\<lparr>hf_version := v\<rparr>;
        if v > header_version then Some (False, f, s)
        else if lt_size (available s) (min_data_sizeof v - 1) then Some (False, f, s)
        else do {
          (fl, s) \<leftarrow> read_u32 s;
          (t, s) \<leftarrow> read_u64 s;
          (i, s) \<leftarrow> read_i64 s;
          let f = f\<lparr>hf_flags := fl, hf_time := t, hf_id := i\<rparr>;
          if i \<le> 0 then Some (False, f, s) else do {
            (prev, s) \<leftarrow> read_i64 s;
            (off, s) \<leftarrow> read_i64 s;
            (sz, s) \<leftarrow> read_u32 s;
            read_header_tail (f\<lparr>hf_prev := prev, hf_offset := off, hf_size := sz\<rparr>) s
          }
        }
      })"

definition header_unserialize ::
  "message_header \<Rightarrow> binary_stream \<Rightarrow> (bool \<times> message_header \<times> binary_stream) option" where
  "header_unserialize h s =
     map_option (\<lambda>(ok, f, s). (ok, Message_Header f (mh_modifications h), s))
       (fields_unserialize (mh_fields h) s)"

subsection \<open>Merging\<close>

definition merge_flags :: "message_header \<Rightarrow> message_header \<Rightarrow> u32" where
  "merge_flags h rhs =
     (let reset_patch_flag = (\<not> is_patch h \<or> \<not> is_patch rhs) \<or> (is_deleted h \<and> \<not> is_deleted rhs);
          set_deleted_flag = is_deleted h \<and> is_deleted rhs;
          set_modified_flag = is_modified h;
          set_updated_flag = is_updated h;
          set_restored_patch_flag = (is_deleted h \<and> \<not> is_deleted rhs) \<or> is_restored_patch h;
          fl = mh_flags rhs;
          fl = (if reset_patch_flag then set_flag patch_bit False fl else fl);
          fl = (if set_deleted_flag then set_flag deleted_bit True fl else fl);
          fl = (if set_modified_flag then set_flag modified_bit True fl else fl);
          fl = (if set_updated_flag \<and> is_patch rhs then set_flag updated_bit True fl else fl)
      in (if set_restored_patch_flag then set_flag restored_patch_bit True fl else fl))"

definition merge_with :: "message_header \<Rightarrow> message_header \<Rightarrow> message_header" where
  "merge_with h rhs =
     (let f = mh_fields h; r = mh_fields rhs;
          mods = (if (is_modified rhs \<or> is_updated rhs) \<and> is_patch rhs
                  then mh_modifications h @ [rhs] else mh_modifications h);
          f = f\<lparr>hf_version := hf_version r, hf_time := hf_time r, hf_contact := hf_contact r,
                hf_poll := hf_poll r, hf_task := hf_task r, hf_reactions := hf_reactions r,
                hf_thread := hf_thread r\<rparr>;
          f = (if hf_offset r \<noteq> -1 \<and> \<not> is_patch rhs
               then f\<lparr>hf_offset := hf_offset r, hf_size := hf_size r\<rparr> else f);
          f = (if hf_prev r \<noteq> -1 \<or> \<not> is_patch rhs then f\<lparr>hf_prev := hf_prev r\<rparr> else f);
          f = f\<lparr>hf_flags := merge_flags h rhs\<rparr>;
          f = (if pv_greater (hf_patch r) (hf_patch f) then f\<lparr>hf_patch := hf_patch r\<rparr> else f)
      in Message_Header f mods)"


subsection \<open>Reading back what was written\<close>

definition enc_if :: "bool \<Rightarrow> bytes \<Rightarrow> bytes" where
  "enc_if c bs = (if c then bs else [])"

definition enc_patch :: "header_fields \<Rightarrow> bytes" where
  "enc_patch f = enc_if (hf_version f > 0)
     (u32_image (word_of_nat (length (pv_string (hf_patch f)))) @ pv_string (hf_patch f))"

definition enc_flags :: "header_fields \<Rightarrow> bytes" where
  "enc_flags f = enc_if (hf_version f > 1) (bool_image (hf_contact f)) @
     enc_if (hf_version f > 2) (bool_image (hf_poll f)) @
     enc_if (hf_version f > 3) (bool_image (hf_reactions f)) @
     enc_if (hf_version f > 4) (bool_image (hf_task f)) @
     enc_if (hf_version f > 5) (bool_image (hf_thread f))"

definition enc_header :: "header_fields \<Rightarrow> bytes" where
  "enc_header f = hf_version f # u32_image (hf_flags f) @ u64_image (hf_time f) @
     i64_image (hf_id f) @ i64_image (hf_prev f) @ i64_image (hf_offset f) @ u32_image (hf_size f) @
     enc_patch f @ enc_flags f"

text \<open>The headers the index holds: a known version, a positive id, and values in their types.\<close>

definition good_header :: "header_fields \<Rightarrow> bool" where
  "good_header f \<longleftrightarrow> hf_version f \<le> header_version \<and> 0 < hf_id f \<and> i64_range (hf_id f) \<and>
     i64_range (hf_prev f) \<and> i64_range (hf_offset f) \<and> length (pv_string (hf_patch f)) < 2 ^ 32"

text \<open>
  What the stored form keeps of a header, read over a header \<open>d\<close>: the counter of local patches is
  never stored, and an old version has no room for the later fields.
\<close>

definition stored_fields :: "header_fields \<Rightarrow> header_fields \<Rightarrow> header_fields" where
  "stored_fields d f = (let v = hf_version f in f\<lparr>
     hf_patch := (if v > 0 \<and> pv_string (hf_patch f) \<noteq> [] then pv_of_string (pv_string (hf_patch f)) else hf_patch d),
     hf_contact := (if v > 1 then hf_contact f else hf_contact d),
     hf_poll := (if v > 2 then hf_poll f else hf_poll d),
     hf_reactions := (if v > 3 then hf_reactions f else hf_reactions d),
     hf_task := (if v > 4 then hf_task f else hf_task d),
     hf_thread := (if v > 5 then hf_thread f else hf_thread d)\<rparr>)"

lemma write_if_spec [simp]:
  "wf_stream s \<Longrightarrow> wf_stream (write_if c bs s)"
  "wf_stream s \<Longrightarrow> pending (write_if c bs s) = pending s @ enc_if c bs"
  by (simp_all add: write_if_def enc_if_def)

lemma header_serialize_spec:
  assumes "wf_stream s" and "length (pv_string (hf_patch (mh_fields h))) < 2 ^ 32"
  shows "wf_stream (header_serialize h s) \<and>
    pending (header_serialize h s) = pending s @ enc_header (mh_fields h)"
  using assms
  by (simp add: header_serialize_def Let_def enc_header_def enc_flags_def enc_patch_def u32_value_length)
    (simp add: enc_if_def)

lemma read_flag_if_enc:
  assumes "wf_stream s" and "pending s = enc_if c (bool_image b) @ r"
  shows "\<exists>s'. read_flag_if c store (f, s) = Some (if c then store b f else f, s') \<and> wf_stream s' \<and> pending s' = r"
  using assms by (auto simp: read_flag_if_def enc_if_def read_bool_prefix)

lemma read_header_patch_enc:
  assumes "wf_stream s" and "pending s = enc_patch g @ r" and "hf_version f = hf_version g"
    and "length (pv_string (hf_patch g)) < 2 ^ 32"
  shows "\<exists>s'. read_header_patch f s = Some (True, f\<lparr>hf_patch :=
      (if hf_version g > 0 \<and> pv_string (hf_patch g) \<noteq> [] then pv_of_string (pv_string (hf_patch g)) else hf_patch f)\<rparr>, s') \<and>
    wf_stream s' \<and> pending s' = r"
proof (cases "hf_version g > 0")
  case True
  let ?str = "pv_string (hf_patch g)"
  let ?n = "word_of_nat (length ?str) :: u32"
  have p: "pending s = u32_image ?n @ ?str @ r" using assms True by (simp add: enc_patch_def enc_if_def)
  have n: "unat ?n = length ?str" using assms(4) by (rule u32_value_length)
  have r: "read_u32 s = Some (?n, advance 4 s)" using assms(1) p by (simp add: read_u32_prefix)
  have w: "wf_stream (advance 4 s)" "pending (advance 4 s) = ?str @ r" using assms(1) p by simp_all
  show ?thesis
  proof (cases "?str = []")
    case True
    then show ?thesis using r w assms(3) \<open>hf_version g > 0\<close> by (simp add: read_header_patch_def)
  next
    case False
    then have "?n > 0" using n by (metis length_0_conv word_gt_0 unat_0)
    moreover have "\<not> available (advance 4 s) < uint ?n"
      using w n by (simp add: available_pending uint_nat del: of_nat_unat)
    moreover have "read_bytes (length ?str) (advance 4 s) = Some (?str, advance (length ?str) (advance 4 s))"
      using w False by (simp add: read_pending del: pending_advance)
    moreover have "wf_stream (advance (length ?str) (advance 4 s))"
      "pending (advance (length ?str) (advance 4 s)) = r"
      using w by (simp_all add: pending_advance [of _ "advance 4 s"] del: pending_advance)
    ultimately show ?thesis using r n assms(3) True False by (simp add: read_header_patch_def)
  qed
next
  case False
  with assms show ?thesis by (auto simp: read_header_patch_def enc_patch_def enc_if_def)
qed

lemma read_header_tail_enc:
  assumes "wf_stream s" and "pending s = enc_patch g @ enc_flags g @ r" and "hf_version f = hf_version g"
    and "length (pv_string (hf_patch g)) < 2 ^ 32"
    and f: "f = g\<lparr>hf_patch := hf_patch d, hf_contact := hf_contact d, hf_poll := hf_poll d,
      hf_reactions := hf_reactions d, hf_task := hf_task d, hf_thread := hf_thread d\<rparr>"
  shows "\<exists>s'. read_header_tail f s = Some (True, stored_fields d g, s') \<and> wf_stream s' \<and> pending s' = r"
proof -
  let ?v = "hf_version g"
  from read_header_patch_enc [OF assms(1-4)] obtain s0 f0 where
    0: "read_header_patch f s = Some (True, f0, s0)" "wf_stream s0" "pending s0 = enc_flags g @ r"
      "f0 = f\<lparr>hf_patch := (if ?v > 0 \<and> pv_string (hf_patch g) \<noteq> []
        then pv_of_string (pv_string (hf_patch g)) else hf_patch f)\<rparr>" by blast
  define f1 where "f1 = (if ?v > 1 then hf_contact_update (\<lambda>_. hf_contact g) f0 else f0)"
  define f2 where "f2 = (if ?v > 2 then hf_poll_update (\<lambda>_. hf_poll g) f1 else f1)"
  define f3 where "f3 = (if ?v > 3 then hf_reactions_update (\<lambda>_. hf_reactions g) f2 else f2)"
  define f4 where "f4 = (if ?v > 4 then hf_task_update (\<lambda>_. hf_task g) f3 else f3)"
  define f5 where "f5 = (if ?v > 5 then hf_thread_update (\<lambda>_. hf_thread g) f4 else f4)"
  note step = read_flag_if_enc [where store = "\<lambda>b. hf_contact_update (\<lambda>_. b)"]
    read_flag_if_enc [where store = "\<lambda>b. hf_poll_update (\<lambda>_. b)"]
    read_flag_if_enc [where store = "\<lambda>b. hf_reactions_update (\<lambda>_. b)"]
    read_flag_if_enc [where store = "\<lambda>b. hf_task_update (\<lambda>_. b)"]
    read_flag_if_enc [where store = "\<lambda>b. hf_thread_update (\<lambda>_. b)"]
  obtain s1 where 1: "read_flag_if (?v > 1) (\<lambda>b. hf_contact_update (\<lambda>_. b)) (f0, s0) = Some (f1, s1)"
    "wf_stream s1" "pending s1 = enc_if (?v > 2) (bool_image (hf_poll g)) @
      enc_if (?v > 3) (bool_image (hf_reactions g)) @ enc_if (?v > 4) (bool_image (hf_task g)) @
      enc_if (?v > 5) (bool_image (hf_thread g)) @ r"
    using step(1) [OF 0(2), of "?v > 1" "hf_contact g"] 0(3) unfolding f1_def enc_flags_def by auto
  obtain s2 where 2: "read_flag_if (?v > 2) (\<lambda>b. hf_poll_update (\<lambda>_. b)) (f1, s1) = Some (f2, s2)"
    "wf_stream s2" "pending s2 = enc_if (?v > 3) (bool_image (hf_reactions g)) @
      enc_if (?v > 4) (bool_image (hf_task g)) @ enc_if (?v > 5) (bool_image (hf_thread g)) @ r"
    using step(2) [OF 1(2,3)] unfolding f2_def by blast
  obtain s3 where 3: "read_flag_if (?v > 3) (\<lambda>b. hf_reactions_update (\<lambda>_. b)) (f2, s2) = Some (f3, s3)"
    "wf_stream s3" "pending s3 = enc_if (?v > 4) (bool_image (hf_task g)) @
      enc_if (?v > 5) (bool_image (hf_thread g)) @ r"
    using step(3) [OF 2(2,3)] unfolding f3_def by blast
  obtain s4 where 4: "read_flag_if (?v > 4) (\<lambda>b. hf_task_update (\<lambda>_. b)) (f3, s3) = Some (f4, s4)"
    "wf_stream s4" "pending s4 = enc_if (?v > 5) (bool_image (hf_thread g)) @ r"
    using step(4) [OF 3(2,3)] unfolding f4_def by blast
  obtain s5 where 5: "read_flag_if (?v > 5) (\<lambda>b. hf_thread_update (\<lambda>_. b)) (f4, s4) = Some (f5, s5)"
    "wf_stream s5" "pending s5 = r"
    using step(5) [OF 4(2,3)] unfolding f5_def by blast
  have v: "hf_version f0 = ?v" using 0(4) assms(3) by simp
  have "f5 = stored_fields d g"
    using 0(4) f by (simp add: f5_def f4_def f3_def f2_def f1_def stored_fields_def Let_def)
  then show ?thesis
    using 0(1) 1(1) 2(1) 3(1) 4(1) 5 v by (simp add: read_header_tail_def read_flags_def Let_def)
qed

lemma min_data_sizeof_enc:
  assumes "hf_version f \<le> header_version"
  shows "min_data_sizeof (hf_version f) \<le> length (enc_header f)"
proof -
  have "hf_version f = 0 \<or> hf_version f = 1 \<or> hf_version f = 2 \<or> hf_version f = 3 \<or> hf_version f = 4
    \<or> hf_version f = 5 \<or> hf_version f = 6"
    using assms unfolding header_version_def by uint_arith
  then show ?thesis
    by (elim disjE) (simp_all add: min_data_sizeof_def enc_header_def enc_patch_def enc_flags_def enc_if_def)
qed

lemma fields_unserialize_enc:
  assumes "wf_stream s" and "pending s = enc_header g @ r" and good: "good_header g"
  shows "\<exists>s'. fields_unserialize d s = Some (True, stored_fields d g, s') \<and> wf_stream s' \<and> pending s' = r"
proof -
  note g = good [unfolded good_header_def]
  let ?s1 = "advance 1 s" let ?s2 = "advance 4 ?s1" let ?s3 = "advance 8 ?s2" let ?s4 = "advance 8 ?s3"
  let ?s5 = "advance 8 ?s4" let ?s6 = "advance 8 ?s5" let ?s7 = "advance 4 ?s6"
  have p: "pending s = hf_version g # u32_image (hf_flags g) @ u64_image (hf_time g) @
     i64_image (hf_id g) @ i64_image (hf_prev g) @ i64_image (hf_offset g) @ u32_image (hf_size g) @
     enc_patch g @ enc_flags g @ r"
    using assms(2) by (simp add: enc_header_def)
  have len: "min_data_sizeof (hf_version g) \<le> length (pending s)"
    using min_data_sizeof_enc [of g] g assms(2) by simp
  have w: "wf_stream ?s1" "wf_stream ?s2" "wf_stream ?s3" "wf_stream ?s4" "wf_stream ?s5" "wf_stream ?s6" "wf_stream ?s7"
    using assms(1) p by simp_all
  have p7: "pending ?s7 = enc_patch g @ enc_flags g @ r" using p by simp
  define f where "f = d\<lparr>hf_version := hf_version g, hf_flags := hf_flags g, hf_time := hf_time g,
    hf_id := hf_id g, hf_prev := hf_prev g, hf_offset := hf_offset g, hf_size := hf_size g\<rparr>"
  have "f = g\<lparr>hf_patch := hf_patch d, hf_contact := hf_contact d, hf_poll := hf_poll d,
      hf_reactions := hf_reactions d, hf_task := hf_task d, hf_thread := hf_thread d\<rparr>"
    by (simp add: f_def)
  from read_header_tail_enc [OF w(7) p7 _ _ this] g obtain s' where
    "read_header_tail f ?s7 = Some (True, stored_fields d g, s')" "wf_stream s'" "pending s' = r"
    by (auto simp: f_def)
  moreover have "\<not> lt_size (available ?s1) (min_data_sizeof (hf_version g) - 1)"
    using w(1) len by (simp add: available_pending lt_size_def)
  moreover have "\<not> lt_size (available s) 1"
    using assms(1) p by (simp add: available_pending lt_size_def)
  moreover have "\<not> hf_version g > header_version" using g by (simp add: not_less)
  moreover have "read_u8 s = Some (hf_version g, ?s1)" "read_u32 ?s1 = Some (hf_flags g, ?s2)"
    "read_u64 ?s2 = Some (hf_time g, ?s3)" "read_i64 ?s3 = Some (hf_id g, ?s4)"
    "read_i64 ?s4 = Some (hf_prev g, ?s5)" "read_i64 ?s5 = Some (hf_offset g, ?s6)"
    "read_u32 ?s6 = Some (hf_size g, ?s7)"
    using assms(1) w p g by (simp_all add: read_u8_prefix read_u32_prefix read_u64_prefix read_i64_prefix)
  ultimately show ?thesis
    using g by (simp add: fields_unserialize_def Let_def f_def)
qed

subsection \<open>When the reader dereferences null\<close>

lemma read_flag_if_step:
  "wf_stream s \<Longrightarrow> read_flag_if c store (f, s) =
    (if c then if pending s = [] then None
       else Some (store (bool_value (take 1 (pending s))) f, advance 1 s)
     else Some (f, s))"
  by (cases "pending s") (simp_all add: read_flag_if_def read_bool_crash read_bool_prefix)

lemma small_version_cases:
  "(v :: u8) \<le> header_version \<Longrightarrow> v = 0 \<or> v = 1 \<or> v = 2 \<or> v = 3 \<or> v = 4 \<or> v = 5 \<or> v = 6"
  unfolding header_version_def by uint_arith

lemma read_flags_crash:
  assumes "wf_stream s" and "hf_version f \<le> header_version"
  shows "read_flags f s = None \<longleftrightarrow> length (pending s) < unat (hf_version f) - 1"
proof -
  have drop1: "drop k xs = [] \<longleftrightarrow> length xs \<le> k" for k and xs :: bytes by simp
  show ?thesis
    using small_version_cases [OF assms(2)] assms(1)
    by (elim disjE) (auto simp: read_flags_def read_flag_if_step Let_def Suc_le_eq not_le split: if_splits)
qed

text \<open>
  The byte strings on which the reader crashes: the size check counts the trailing flags but not the
  bytes of the patch version, so a version string may use up the bytes the flags were promised.
\<close>

definition header_crash_bytes :: "bytes \<Rightarrow> bool" where
  "header_crash_bytes bs \<longleftrightarrow> bs \<noteq> [] \<and>
     (let v = bs ! 0; n = unat (u32_value (take 4 (drop 41 bs))) in
        1 < v \<and> v \<le> header_version \<and> min_data_sizeof v \<le> length bs \<and>
        0 < i64_value (take 8 (drop 13 bs)) \<and>
        0 < n \<and> n \<le> length bs - 45 \<and> length bs - 45 - n < unat v - 1)"

lemma min_data_sizeof_eq:
  "v \<le> header_version \<Longrightarrow> min_data_sizeof v = (if v = 0 then 41 else 44 + unat v)"
  by (drule small_version_cases) (elim disjE; simp add: min_data_sizeof_def)

lemma unat_header_version: "v \<le> header_version \<Longrightarrow> unat v \<le> 6"
  by (drule small_version_cases) (elim disjE; simp)

lemma read_header_tail_crash:
  assumes w: "wf_stream s" and v: "hf_version f \<le> header_version"
    and len: "hf_version f > 0 \<Longrightarrow> 3 + unat (hf_version f) \<le> length (pending s)"
  shows "read_header_tail f s = None \<longleftrightarrow> 1 < hf_version f \<and>
    (let n = unat (u32_value (take 4 (pending s))) in
      0 < n \<and> n \<le> length (pending s) - 4 \<and> length (pending s) - 4 - n < unat (hf_version f) - 1)"
proof (cases "hf_version f > 0")
  case False
  then have z: "hf_version f = 0" by (simp add: word_gt_0)
  have "read_flags f s \<noteq> None" using read_flags_crash [OF w v] z by simp
  with z show ?thesis by (auto simp: read_header_tail_def read_header_patch_def)
next
  case True
  then have pos: "1 \<le> unat (hf_version f)" by (simp add: word_gt_0 unat_gt_0 Suc_leI)
  have one: "1 < hf_version f \<longleftrightarrow> 1 < unat (hf_version f)" by (simp add: word_less_nat_alt)
  let ?len = "u32_value (take 4 (pending s))" and ?s1 = "advance 4 s"
  have r: "read_u32 s = Some (?len, ?s1)" using w len pos True by (simp add: read_u32_prefix)
  have w1: "wf_stream ?s1" using w len pos True by simp
  have l1: "length (pending ?s1) = length (pending s) - 4" by simp
  consider "?len = 0" | "?len > 0" "length (pending ?s1) < unat ?len" | "?len > 0" "unat ?len \<le> length (pending ?s1)"
    by (metis leI word_gt_0)
  then show ?thesis
  proof cases
    case 1
    have "read_flags f ?s1 \<noteq> None"
      using read_flags_crash [OF w1 v] len True pos by simp
    with 1 r True show ?thesis by (auto simp: read_header_tail_def read_header_patch_def Let_def)
  next
    case 2
    then have "available ?s1 < uint ?len"
      using w1 by (simp add: available_pending uint_nat del: of_nat_unat pending_advance)
    with 2 r True show ?thesis by (auto simp: read_header_tail_def read_header_patch_def Let_def)
  next
    case 3
    let ?s2 = "advance (unat ?len) ?s1" and ?f = "f\<lparr>hf_patch := pv_of_string (take (unat ?len) (pending ?s1))\<rparr>"
    have "\<not> available ?s1 < uint ?len"
      using 3 w1 by (simp add: available_pending uint_nat del: of_nat_unat pending_advance)
    moreover have n: "0 < unat ?len" using 3(1) by (simp add: word_less_nat_alt)
    ultimately have "read_header_patch f s = Some (True, ?f, ?s2)"
      using r True 3 w1 by (simp add: read_header_patch_def read_pending del: pending_advance)
    moreover have "read_flags ?f ?s2 = None \<longleftrightarrow> length (pending ?s2) < unat (hf_version ?f) - 1"
      using w1 3(2) v by (intro read_flags_crash) simp_all
    ultimately show ?thesis using n 3(2) one by (auto simp: read_header_tail_def Let_def)
  qed
qed

lemma fields_unserialize_crash:
  assumes w: "wf_stream s"
  shows "fields_unserialize f s = None \<longleftrightarrow> header_crash_bytes (pending s)"
proof (cases "pending s")
  case Nil
  with w show ?thesis
    by (simp add: fields_unserialize_def available_pending lt_size_def header_crash_bytes_def)
next
  case (Cons v bs)
  let ?s1 = "advance 1 s" let ?s2 = "advance 4 ?s1" let ?s3 = "advance 8 ?s2" let ?s4 = "advance 8 ?s3"
  let ?s5 = "advance 8 ?s4" let ?s6 = "advance 8 ?s5" let ?s7 = "advance 4 ?s6"
  have r0: "read_u8 s = Some (v, ?s1)" and av: "\<not> lt_size (available s) 1" and w1: "wf_stream ?s1"
    using w Cons by (simp_all add: read_u8_prefix available_pending lt_size_def)
  show ?thesis
  proof (cases "v \<le> header_version \<and> min_data_sizeof v \<le> length (pending s)")
    case False
    then have "v > header_version \<or> lt_size (available ?s1) (min_data_sizeof v - 1)"
      using w1 Cons by (auto simp: available_pending lt_size_def not_le)
    with False r0 av Cons show ?thesis
      by (auto simp: fields_unserialize_def header_crash_bytes_def Let_def)
  next
    case True
    then have v: "v \<le> header_version" and len: "min_data_sizeof v \<le> Suc (length bs)" using Cons by simp_all
    have l41: "40 \<le> length bs" using len min_data_sizeof_eq [OF v] by (auto split: if_splits)
    have ns: "\<not> v > header_version" "\<not> lt_size (available ?s1) (min_data_sizeof v - 1)"
      using True w1 Cons by (simp_all add: available_pending lt_size_def not_less le_diff_conv)
    have ws: "wf_stream ?s2" "wf_stream ?s3" "wf_stream ?s4" "wf_stream ?s5" "wf_stream ?s6" "wf_stream ?s7"
      using w w1 l41 Cons by simp_all
    have p7: "pending ?s7 = drop 41 (pending s)" by simp
    have i: "take 8 (pending ?s3) = take 8 (drop 13 (pending s))" by simp
    have rs: "read_u32 ?s1 = Some (u32_value (take 4 (pending ?s1)), ?s2)"
      "read_u64 ?s2 = Some (u64_value (take 8 (pending ?s2)), ?s3)"
      "read_i64 ?s3 = Some (i64_value (take 8 (pending ?s3)), ?s4)"
      "read_i64 ?s4 = Some (i64_value (take 8 (pending ?s4)), ?s5)"
      "read_i64 ?s5 = Some (i64_value (take 8 (pending ?s5)), ?s6)"
      "read_u32 ?s6 = Some (u32_value (take 4 (pending ?s6)), ?s7)"
      using w1 ws l41 Cons
      by (simp_all add: read_u32_prefix read_u64_prefix read_i64_prefix)
    have tail: "read_header_tail g ?s7 = None \<longleftrightarrow> 1 < v \<and>
      (let n = unat (u32_value (take 4 (drop 41 (pending s)))) in
        0 < n \<and> n \<le> length (pending s) - 45 \<and> length (pending s) - 45 - n < unat v - 1)"
      if "hf_version g = v" for g
      using read_header_tail_crash [OF ws(6), of g] that v p7 len min_data_sizeof_eq [OF v] Cons
      by (auto simp: Let_def word_gt_0 split: if_splits)
    show ?thesis
      using r0 av ns rs i tail len v Cons
      by (simp add: fields_unserialize_def header_crash_bytes_def Let_def not_le del: pending_advance)
  qed
qed

subsection \<open>The effect of a merge, field by field\<close>

named_theorems merge_simps \<open>the fields of a merged header\<close>

lemma merge_with_flags_word [merge_simps]: "mh_flags (merge_with h r) = merge_flags h r"
  by (simp add: merge_with_def Let_def)

lemma flag_merge_flags:
  "n < 32 \<Longrightarrow> flag n (merge_flags h r) =
    (if n = patch_bit then is_patch r \<and> is_patch h \<and> (is_deleted h \<longrightarrow> is_deleted r)
     else if n = modified_bit then is_modified r \<or> is_modified h
     else if n = updated_bit then is_updated r \<or> is_updated h \<and> is_patch r
     else if n = restored_patch_bit then is_restored_patch r \<or> is_restored_patch h \<or> is_deleted h \<and> \<not> is_deleted r
     else flag n (mh_flags r))"
  by (cases "n = deleted_bit")
    (auto simp: merge_flags_def header_flag_defs flag_bit_defs Let_def flag_set)

lemma merge_flag_simps [merge_simps]:
  "is_patch (merge_with h r) = (is_patch r \<and> is_patch h \<and> (is_deleted h \<longrightarrow> is_deleted r))"
  "is_deleted (merge_with h r) = is_deleted r"
  "is_modified (merge_with h r) = (is_modified r \<or> is_modified h)"
  "is_updated (merge_with h r) = (is_updated r \<or> is_updated h \<and> is_patch r)"
  "is_restored_patch (merge_with h r) = (is_restored_patch r \<or> is_restored_patch h \<or> is_deleted h \<and> \<not> is_deleted r)"
  "is_outgoing (merge_with h r) = is_outgoing r"
proof -
  have f: "mh_flags (merge_with h r) = merge_flags h r" by (rule merge_with_flags_word)
  note b = flag_merge_flags [of _ h r]
  show "is_patch (merge_with h r) = (is_patch r \<and> is_patch h \<and> (is_deleted h \<longrightarrow> is_deleted r))"
    using b [of patch_bit] by (simp add: is_patch_def [of "merge_with h r"] f flag_bit_defs)
  show "is_deleted (merge_with h r) = is_deleted r"
    using b [of deleted_bit] by (simp add: is_deleted_def f flag_bit_defs)
  show "is_modified (merge_with h r) = (is_modified r \<or> is_modified h)"
    using b [of modified_bit] by (simp add: is_modified_def [of "merge_with h r"] f flag_bit_defs)
  show "is_updated (merge_with h r) = (is_updated r \<or> is_updated h \<and> is_patch r)"
    using b [of updated_bit] by (simp add: is_updated_def [of "merge_with h r"] f flag_bit_defs)
  show "is_restored_patch (merge_with h r) = (is_restored_patch r \<or> is_restored_patch h \<or> is_deleted h \<and> \<not> is_deleted r)"
    using b [of restored_patch_bit] by (simp add: is_restored_patch_def [of "merge_with h r"] f flag_bit_defs)
  show "is_outgoing (merge_with h r) = is_outgoing r"
    using b [of outgoing_bit] by (simp add: is_outgoing_def f flag_bit_defs)
qed

lemma merge_field_simps [merge_simps]:
  "mh_id (merge_with h r) = mh_id h"
  "mh_version (merge_with h r) = mh_version r"
  "mh_time (merge_with h r) = mh_time r"
  "mh_prev (merge_with h r) = (if mh_prev r = -1 \<and> is_patch r then mh_prev h else mh_prev r)"
  "mh_offset (merge_with h r) = (if mh_offset r = -1 \<or> is_patch r then mh_offset h else mh_offset r)"
  "mh_size (merge_with h r) = (if mh_offset r = -1 \<or> is_patch r then mh_size h else mh_size r)"
  "mh_patch (merge_with h r) = pv_order.newer (mh_patch h) (mh_patch r)"
  "mh_modifications (merge_with h r) = mh_modifications h @
     (if (is_modified r \<or> is_updated r) \<and> is_patch r then [r] else [])"
  by (simp_all add: merge_with_def Let_def pv_order.newer_def pv_greater_def)

text \<open>A sequence of patches applied to a header, as the index applies them.\<close>

definition merge_all :: "message_header \<Rightarrow> message_header list \<Rightarrow> message_header" where
  "merge_all = foldl merge_with"

lemma merge_all_simps [simp]:
  "merge_all h [] = h" "merge_all h (r # rs) = merge_all (merge_with h r) rs"
  by (simp_all add: merge_all_def)

lemma merge_all_patches_body:
  "list_all is_patch rs \<Longrightarrow> mh_id (merge_all h rs) = mh_id h \<and> mh_offset (merge_all h rs) = mh_offset h \<and>
     mh_size (merge_all h rs) = mh_size h"
  by (induction rs arbitrary: h) (simp_all add: merge_simps)

lemma merge_all_modifications:
  "mh_modifications (merge_all h rs) =
     mh_modifications h @ filter (\<lambda>r. (is_modified r \<or> is_updated r) \<and> is_patch r) rs"
  by (induction rs arbitrary: h) (simp_all add: merge_simps)

lemma merge_all_version_mono: "\<not> pv_less (mh_patch (merge_all h rs)) (mh_patch h)"
proof (induction rs arbitrary: h)
  case Nil
  then show ?case by (simp add: pv_order.less_irrefl pv_order.same_refl)
next
  case (Cons r rs)
  have "\<not> pv_less (mh_patch (merge_with h r)) (mh_patch h)"
    by (simp add: merge_simps pv_order.newer_not_older)
  with Cons [of "merge_with h r"] show ?case
    using pv_order.not_less_trans by auto
qed

lemma merge_all_version_upper: "r \<in> set rs \<Longrightarrow> \<not> pv_less (mh_patch (merge_all h rs)) (mh_patch r)"
proof (induction rs arbitrary: h)
  case (Cons q rs)
  have "\<not> pv_less (mh_patch (merge_with h q)) (mh_patch q)"
    by (simp add: merge_simps pv_order.newer_not_older)
  with merge_all_version_mono [of "merge_with h q" rs] Cons show ?case
    using pv_order.not_less_trans by auto
qed simp

text \<open>A header of the current version that is written and read back over a new header is the same, except
  that the count of local patches starts again at 0 and the list of modifications is not stored with it.\<close>

theorem header_roundtrip:
  assumes "good_header (mh_fields h)" and "mh_version h = header_version"
  shows "\<exists>s'. header_unserialize header_default (header_serialize h empty_stream) =
    Some (True, Message_Header ((mh_fields h)\<lparr>hf_patch := pv_of_string (pv_string (mh_patch h))\<rparr>) [], s') \<and>
    pending s' = []"
proof -
  have p: "wf_stream (header_serialize h empty_stream) \<and> pending (header_serialize h empty_stream) = enc_header (mh_fields h) @ []"
    using header_serialize_spec [of empty_stream h] assms(1) by (simp add: good_header_def)
  have "stored_fields (mh_fields header_default) (mh_fields h) = (mh_fields h)\<lparr>hf_patch := pv_of_string (pv_string (mh_patch h))\<rparr>"
    using assms(2) by (auto simp: stored_fields_def header_version_def header_default_def pv_of_string_def pv_default_def)
  moreover obtain s' where "fields_unserialize (mh_fields header_default) (header_serialize h empty_stream) =
      Some (True, stored_fields (mh_fields header_default) (mh_fields h), s')" "pending s' = []"
    using fields_unserialize_enc [of "header_serialize h empty_stream" "mh_fields h" "[]"] p assms(1) by blast
  ultimately show ?thesis by (simp add: header_unserialize_def header_default_def)
qed

theorem header_roundtrip_witness:
  "\<exists>s'. header_unserialize header_default (header_serialize
      (mk_header 4 1600000000 7 (-1) 0 10 (pv_of_string [55]) True False False True False) empty_stream) =
    Some (True, mk_header 4 1600000000 7 (-1) 0 10 (pv_of_string [55]) True False False True False, s')"
  using header_roundtrip [of "mk_header 4 1600000000 7 (-1) 0 10 (pv_of_string [55]) True False False True False"]
  by (auto simp: good_header_def mk_header_def i64_range_def pv_of_string_def pv_default_def)

text \<open>C40: The reader of headers dereferences a null pointer exactly on the inputs whose version string leaves
  fewer bytes than the flags of their version need: the check of the size it makes first does not count
  the string.\<close>

theorem header_reader_crashes_iff:
  assumes "wf_stream s"
  shows "header_unserialize h s = None \<longleftrightarrow> header_crash_bytes (pending s)"
  using fields_unserialize_crash [OF assms, of "mh_fields h"] by (simp add: header_unserialize_def)

theorem header_reader_crashes_iff_witness:
  "header_unserialize header_default (write_bytes
     (6 # replicate 12 0 @ [1] @ replicate 27 0 @ [5, 0, 0, 0] @ replicate 5 48) empty_stream) = None"
proof -
  let ?bs = "6 # replicate 12 0 @ [1] @ replicate 27 0 @ [5, 0, 0, 0] @ replicate 5 48 :: bytes"
  have "header_crash_bytes ?bs"
    by code_simp
  with header_reader_crashes_iff [of "write_bytes ?bs empty_stream" header_default] show ?thesis by simp
qed

text \<open>What a merge makes of each flag: deletion and direction are taken from the newer header, a
  modification sticks, an update sticks under patches, the restoring of a deleted message is remembered,
  and the result is a patch only when both were and no deletion was undone.\<close>

lemma merge_flags_table:
  "is_deleted (merge_with h r) = is_deleted r \<and>
   is_outgoing (merge_with h r) = is_outgoing r \<and>
   is_modified (merge_with h r) = (is_modified r \<or> is_modified h) \<and>
   is_updated (merge_with h r) = (is_updated r \<or> is_updated h \<and> is_patch r) \<and>
   is_restored_patch (merge_with h r) =
     (is_restored_patch r \<or> is_restored_patch h \<or> is_deleted h \<and> \<not> is_deleted r) \<and>
   is_patch (merge_with h r) = (is_patch r \<and> is_patch h \<and> \<not> (is_deleted h \<and> \<not> is_deleted r))"
  by (auto simp: merge_simps)

text \<open>C34: Patches merged into a header, however many and in whatever order, never move the message: its id
  and the place of its data stay. Exactly the patches that modify or update are kept, in the order they
  came, and the version is at least that of the header and of each of them.\<close>

theorem patches_keep_the_message:
  assumes "list_all is_patch rs"
  shows "mh_id (merge_all h rs) = mh_id h \<and> mh_offset (merge_all h rs) = mh_offset h \<and>
    mh_size (merge_all h rs) = mh_size h \<and>
    mh_modifications (merge_all h rs) = mh_modifications h @ filter (\<lambda>r. is_modified r \<or> is_updated r) rs \<and>
    \<not> pv_less (mh_patch (merge_all h rs)) (mh_patch h) \<and>
    \<not> (\<exists>r\<in>set rs. pv_less (mh_patch (merge_all h rs)) (mh_patch r))"
proof -
  have "filter (\<lambda>r. (is_modified r \<or> is_updated r) \<and> is_patch r) rs = filter (\<lambda>r. is_modified r \<or> is_updated r) rs"
    using assms by (intro filter_cong) (auto simp: list_all_iff)
  then show ?thesis
    using merge_all_patches_body [OF assms, of h] merge_all_modifications [of h rs] merge_all_version_mono [of h rs]
      merge_all_version_upper [of _ rs h] by metis
qed

definition sample_patch :: message_header where
  "sample_patch = mk_header 144 0 7 (-1) 900 20 (pv_of_string [57]) False False False False False"

theorem patches_keep_the_message_witness:
  "mh_offset (merge_all (mk_header 4 0 7 6 100 10 (pv_of_string [55]) True False False True False) [sample_patch]) = 100 \<and>
   mh_modifications (merge_all (mk_header 4 0 7 6 100 10 (pv_of_string [55]) True False False True False) [sample_patch]) = [sample_patch]"
proof -
  have p: "is_patch sample_patch" "is_updated sample_patch"
    by (simp_all add: is_patch_def is_updated_def sample_patch_def mk_header_def flag_def flag_bit_defs bit_numeral_rec)
  then show ?thesis
    using patches_keep_the_message [of "[sample_patch]" "mk_header 4 0 7 6 100 10 (pv_of_string [55]) True False False True False"]
    by (simp add: mk_header_def)
qed

end
