(* ===== verification/Ordered_Map.thy ===== *)
theory Ordered_Map
  imports Main
begin

text \<open>
  \<^verbatim>\<open>std::map\<close> with integer keys, as the list of its nodes in key order. An iterator is a position in
  the list, a reverse iterator a position in the reversed list. \<open>om_ok\<close> is the container's invariant;
  the locale \<open>ordered_map\<close> states what its clients rely on, and the interpretation \<open>std_map\<close> shows
  that the operations keep it.
\<close>

type_synonym 'v omap = "(int \<times> 'v) list"

definition om_ok :: "('k::linorder \<times> 'v) list \<Rightarrow> bool" where
  "om_ok m \<longleftrightarrow> sorted_wrt (<) (map fst m)"

definition om_find :: "int \<Rightarrow> 'v omap \<Rightarrow> 'v option" where
  "om_find k m = map_of m k"

definition om_lower_bound :: "int \<Rightarrow> 'v omap \<Rightarrow> nat" where
  "om_lower_bound k m = length (takeWhile (\<lambda>(i, _). i < k) m)"

definition om_upper_bound :: "int \<Rightarrow> 'v omap \<Rightarrow> nat" where
  "om_upper_bound k m = length (takeWhile (\<lambda>(i, _). i \<le> k) m)"

text \<open>
  \<^verbatim>\<open>emplace\<close> keeps a node that is there already. (The order and \<open>emplace\<close> are for any key: the map of
  the mentions of a message is keyed by strings.)
\<close>

fun om_emplace :: "'k::linorder \<Rightarrow> 'v \<Rightarrow> ('k \<times> 'v) list \<Rightarrow> ('k \<times> 'v) list" where
  "om_emplace k v [] = [(k, v)]"
| "om_emplace k v ((i, w) # m) =
     (if k < i then (k, v) # (i, w) # m
      else if k = i then (i, w) # m
      else (i, w) # om_emplace k v m)"

text \<open>A change through the reference that \<^verbatim>\<open>find\<close> or an iterator gives.\<close>

definition om_modify :: "int \<Rightarrow> ('v \<Rightarrow> 'v) \<Rightarrow> 'v omap \<Rightarrow> 'v omap" where
  "om_modify k f m = map (\<lambda>(i, v). (i, if i = k then f v else v)) m"

definition om_erase :: "int \<Rightarrow> 'v omap \<Rightarrow> 'v omap" where
  "om_erase k m = filter (\<lambda>(i, _). i \<noteq> k) m"

text \<open>\<^verbatim>\<open>operator[] = v\<close>: assign, or insert when the key is new.\<close>

definition om_assign :: "int \<Rightarrow> 'v \<Rightarrow> 'v omap \<Rightarrow> 'v omap" where
  "om_assign k v m = (if om_find k m = None then om_emplace k v m else om_modify k (\<lambda>_. v) m)"

text \<open>The node behind the one with key \<open>k\<close>, \<^verbatim>\<open>std::next(find(k))\<close>.\<close>

definition om_next :: "int \<Rightarrow> 'v omap \<Rightarrow> (int \<times> 'v) option" where
  "om_next k m = find (\<lambda>(i, _). k < i) m"

subsection \<open>The contract\<close>

locale ordered_map =
  fixes ok :: "'m \<Rightarrow> bool"
    and lookup :: "int \<Rightarrow> 'm \<Rightarrow> 'v option"
    and emplace :: "int \<Rightarrow> 'v \<Rightarrow> 'm \<Rightarrow> 'm"
    and modify :: "int \<Rightarrow> ('v \<Rightarrow> 'v) \<Rightarrow> 'm \<Rightarrow> 'm"
    and erase :: "int \<Rightarrow> 'm \<Rightarrow> 'm"
  assumes ok_emplace: "ok m \<Longrightarrow> ok (emplace k v m)"
    and ok_modify: "ok m \<Longrightarrow> ok (modify k f m)"
    and ok_erase: "ok m \<Longrightarrow> ok (erase k m)"
    and lookup_emplace: "ok m \<Longrightarrow> lookup j (emplace k v m) =
          (if j = k \<and> lookup k m = None then Some v else lookup j m)"
    and lookup_modify: "ok m \<Longrightarrow> lookup j (modify k f m) = map_option (if j = k then f else (\<lambda>v. v)) (lookup j m)"
    and lookup_erase: "ok m \<Longrightarrow> lookup j (erase k m) = (if j = k then None else lookup j m)"
begin

text \<open>Insert or combine, the way every merging container of the archive works.\<close>

definition upsert :: "('v \<Rightarrow> 'v \<Rightarrow> 'v) \<Rightarrow> int \<Rightarrow> 'v \<Rightarrow> 'm \<Rightarrow> 'm" where
  "upsert g k v m = (if lookup k m = None then emplace k v m else modify k (\<lambda>old. g old v) m)"

lemma ok_upsert: "ok m \<Longrightarrow> ok (upsert g k v m)"
  by (simp add: upsert_def ok_emplace ok_modify)

lemma lookup_upsert:
  "ok m \<Longrightarrow> lookup j (upsert g k v m) =
    (if j = k then Some (case lookup k m of None \<Rightarrow> v | Some old \<Rightarrow> g old v) else lookup j m)"
  by (auto simp: upsert_def lookup_emplace lookup_modify option.map_ident split: option.split)

lemma lookup_upserts:
  "ok m \<Longrightarrow> lookup j (fold (\<lambda>(k, v). upsert g k v) kvs m) =
    fold (\<lambda>v acc. Some (case acc of None \<Rightarrow> v | Some old \<Rightarrow> g old v))
      (map snd (filter (\<lambda>(k, _). k = j) kvs)) (lookup j m)"
  by (induction kvs arbitrary: m) (auto simp: lookup_upsert ok_upsert cong: option.case_cong)

end

lemma om_ok_Cons: "om_ok ((i, w) # m) \<longleftrightarrow> (\<forall>x\<in>set m. i < fst x) \<and> om_ok m"
  by (auto simp: om_ok_def)

lemma om_find_None: "om_find k m = None \<longleftrightarrow> k \<notin> fst ` set m"
  by (simp add: om_find_def map_of_eq_None_iff)

lemma set_om_emplace: "om_ok m \<Longrightarrow> set (om_emplace k v m) = (if k \<in> fst ` set m then set m else insert (k, v) (set m))"
proof (induction k v m rule: om_emplace.induct)
  case (2 k v i w m)
  then show ?case by (cases "k < i"; cases "k = i") (auto simp: om_ok_Cons)
qed simp

lemma om_ok_emplace: "om_ok m \<Longrightarrow> om_ok (om_emplace k v m)"
proof (induction k v m rule: om_emplace.induct)
  case (2 k v i w m)
  then show ?case by (cases "k < i"; cases "k = i") (auto simp: om_ok_Cons set_om_emplace split: if_splits)
qed (simp add: om_ok_def)

lemma map_of_below: "\<forall>x\<in>set m. (k :: 'k::linorder) < fst x \<Longrightarrow> map_of m k = None"
  unfolding map_of_eq_None_iff by fastforce

lemma om_find_emplace:
  "om_ok m \<Longrightarrow> om_find j (om_emplace k v m) = (if j = k \<and> om_find k m = None then Some v else om_find j m)"
proof (induction k v m rule: om_emplace.induct)
  case (2 k v i w m)
  have "k < i \<Longrightarrow> map_of m k = None" using 2 by (intro map_of_below) (auto simp: om_ok_Cons)
  with 2 show ?case by (cases "k < i"; cases "k = i") (auto simp: om_ok_Cons om_find_def)
qed (simp add: om_find_def)

lemma om_find_modify: "om_find j (om_modify k f m) = map_option (if j = k then f else (\<lambda>v. v)) (om_find j m)"
  by (induction m) (auto simp: om_modify_def om_find_def)

lemma keys_modify [simp]: "map fst (om_modify k f m) = map fst m"
  by (induction m) (auto simp: om_modify_def)

lemma om_ok_erase: "om_ok m \<Longrightarrow> om_ok (om_erase k m)"
  by (induction m) (auto simp: om_erase_def om_ok_Cons)

lemma om_find_erase: "om_find j (om_erase k m) = (if j = k then None else om_find j m)"
  by (induction m) (auto simp: om_erase_def om_find_def)

interpretation std_map: ordered_map om_ok om_find om_emplace om_modify om_erase
  by unfold_locales
    (simp_all add: om_ok_emplace om_ok_erase om_find_emplace om_find_modify om_find_erase, simp add: om_ok_def)

subsection \<open>Nodes in order\<close>

lemma om_ok_distinct: "om_ok m \<Longrightarrow> distinct (map fst m)"
  by (simp add: om_ok_def strict_sorted_iff)

lemma om_ok_append: "om_ok (xs @ ys) \<longleftrightarrow> om_ok xs \<and> om_ok ys \<and> (\<forall>x\<in>set xs. \<forall>y\<in>set ys. fst x < fst y)"
  by (auto simp: om_ok_def sorted_wrt_append)

lemma om_emplace_last: "\<forall>x\<in>set m. fst x < k \<Longrightarrow> om_emplace k v m = m @ [(k, v)]"
  by (induction k v m rule: om_emplace.induct) auto

lemma om_lower_bound_split:
  "om_ok m \<Longrightarrow> (\<forall>x\<in>set (take (om_lower_bound k m) m). fst x < k) \<and>
    (\<forall>x\<in>set (drop (om_lower_bound k m) m). k \<le> fst x)"
proof (induction m)
  case (Cons a m)
  obtain i w where a: "a = (i, w)" by (cases a)
  with Cons show ?case
    by (cases "i < k") (auto simp: om_lower_bound_def om_ok_Cons)
qed (simp add: om_lower_bound_def)

lemma om_find_mem: "om_ok m \<Longrightarrow> (k, v) \<in> set m \<longleftrightarrow> om_find k m = Some v"
  by (simp add: om_find_def om_ok_distinct)

lemma om_ok_filter: "om_ok m \<Longrightarrow> om_ok (filter P m)"
  by (auto simp: om_ok_def sorted_wrt_map sorted_wrt_filter)

lemma om_next_split:
  "om_ok (xs @ (k, v) # ys) \<Longrightarrow> om_next k (xs @ (k, v) # ys) = (case ys of [] \<Rightarrow> None | y # _ \<Rightarrow> Some y)"
proof -
  assume ok: "om_ok (xs @ (k, v) # ys)"
  then have "find (\<lambda>(i, _). k < i) xs = None"
    by (auto simp: find_None_iff om_ok_append)
  then have "om_next k (xs @ (k, v) # ys) = find (\<lambda>(i, _). k < i) ys"
    by (induction xs) (auto simp: om_next_def split: if_splits)
  with ok show ?thesis by (cases ys) (auto simp: om_ok_append om_ok_Cons)
qed

lemma om_modify_split:
  "om_ok (xs @ (k, v) # ys) \<Longrightarrow> om_modify k f (xs @ (k, v) # ys) = xs @ (k, f v) # ys"
  by (auto simp: om_modify_def om_ok_append om_ok_Cons intro!: map_idI)

lemma om_find_split: "om_ok (xs @ (k, v) # ys) \<Longrightarrow> om_find k (xs @ (k, v) # ys) = Some v"
  by (subst om_find_mem [symmetric]) auto

end
