(* ===== verification/History_Message.thy ===== *)
theory History_Message
  imports Message_Content Message_Header Ordered_Map "HOL-Library.List_Lexorder"
begin

text \<open>
  The class \<^verbatim>\<open>history_message\<close> (\<^verbatim>\<open>core/archive/history_message.h\<close> and \<^verbatim>\<open>.cpp\<close>): its state, its setters
  and predicates, the patches it makes, copying and merging, and its binary form.

  A member held by a pointer or an optional is an option. The map of mentions is the list of its
  nodes in key order; \<^verbatim>\<open>std::string\<close> orders its keys by unsigned bytes, which is the order of lists
  of words. \<^verbatim>\<open>time_t\<close> is a signed 64-bit integer.

  Two things the binary form contains are JSON texts, parsed by a third-party library: the message as
  the server sent it and the buttons. Their readers are arguments, gathered in \<open>reader\<close> with the
  values of the members no constructor initialises.
\<close>

record button_data =
  bd_text :: cstring
  bd_url :: cstring
  bd_callback_data :: cstring
  bd_style :: cstring

record history_message =
  hm_msgid :: int
  hm_prev :: int
  hm_flags :: u32
  hm_time :: int
  hm_text :: cstring
  hm_format :: "formats option"
  hm_data_offset :: int
  hm_data_size :: u32
  hm_internal_id :: cstring
  hm_sender_friendly :: cstring
  hm_patch :: patch_version
  hm_sticker :: "cstring option"
  hm_mult :: bool
  hm_voip :: "voip_data option"
  hm_chat :: "chat_data option"
  hm_file_sharing :: "file_sharing_data option"
  hm_chat_event :: "chat_event_data option"
  hm_quotes :: "quote list"
  hm_mentions :: "(cstring \<times> cstring) list"
  hm_snippets :: "url_snippet list"
  hm_description :: cstring
  hm_description_format :: "formats option"
  hm_url :: cstring
  hm_shared_contact :: "shared_contact_data option"
  hm_geo :: "geo_data option"
  hm_poll :: "poll_data option"
  hm_task :: "task_data option"
  hm_json :: cstring
  hm_sender_aimid :: cstring
  hm_unsupported :: bool
  hm_hide_edit :: bool
  hm_buttons :: "button_data list list"
  hm_buttons_json :: cstring
  hm_reactions :: "message_reactions option"
  hm_thread_id :: cstring

text \<open>\<open>init_default\<close> on the members the class leaves to their own constructors; the flags start at 0.\<close>

definition init_default :: history_message where
  "init_default = \<lparr>hm_msgid = -1, hm_prev = -1, hm_flags = 0, hm_time = 0, hm_text = [], hm_format = None,
     hm_data_offset = -1, hm_data_size = 0, hm_internal_id = [], hm_sender_friendly = [],
     hm_patch = pv_default, hm_sticker = None, hm_mult = False, hm_voip = None, hm_chat = None,
     hm_file_sharing = None, hm_chat_event = None, hm_quotes = [], hm_mentions = [], hm_snippets = [],
     hm_description = [], hm_description_format = None, hm_url = [], hm_shared_contact = None,
     hm_geo = None, hm_poll = None, hm_task = None, hm_json = [], hm_sender_aimid = [],
     hm_unsupported = False, hm_hide_edit = False, hm_buttons = [], hm_buttons_json = [],
     hm_reactions = None, hm_thread_id = []\<rparr>"

subsection \<open>Flags\<close>

definition msg_is_outgoing :: "history_message \<Rightarrow> bool" where
  "msg_is_outgoing m = (case hm_voip m of
     Some v \<Rightarrow> \<not> voip_incoming v | None \<Rightarrow> flag outgoing_bit (hm_flags m))"

definition msg_is_patch :: "history_message \<Rightarrow> bool" where
  "msg_is_patch m = flag patch_bit (hm_flags m)"

definition msg_is_deleted :: "history_message \<Rightarrow> bool" where
  "msg_is_deleted m = flag deleted_bit (hm_flags m)"

definition msg_is_restored_patch :: "history_message \<Rightarrow> bool" where
  "msg_is_restored_patch m = flag restored_patch_bit (hm_flags m)"

definition msg_is_modified :: "history_message \<Rightarrow> bool" where
  "msg_is_modified m = flag modified_bit (hm_flags m)"

definition msg_is_updated :: "history_message \<Rightarrow> bool" where
  "msg_is_updated m = flag updated_bit (hm_flags m)"

definition msg_is_clear :: "history_message \<Rightarrow> bool" where
  "msg_is_clear m = flag clear_bit (hm_flags m)"

definition is_chat_event_deleted :: "history_message \<Rightarrow> bool" where
  "is_chat_event_deleted m = (case hm_chat_event m of None \<Rightarrow> False | Some e \<Rightarrow> is_type_deleted e)"

definition msg_set_outgoing :: "bool \<Rightarrow> history_message \<Rightarrow> history_message" where
  "msg_set_outgoing b = hm_flags_update (set_flag outgoing_bit b)"

definition msg_set_patch :: "bool \<Rightarrow> history_message \<Rightarrow> history_message" where
  "msg_set_patch b = hm_flags_update (set_flag patch_bit b)"

definition msg_set_deleted :: "bool \<Rightarrow> history_message \<Rightarrow> history_message" where
  "msg_set_deleted b = hm_flags_update (set_flag deleted_bit b)"

definition msg_set_restored_patch :: "bool \<Rightarrow> history_message \<Rightarrow> history_message" where
  "msg_set_restored_patch b = hm_flags_update (set_flag restored_patch_bit b)"

definition msg_set_modified :: "bool \<Rightarrow> history_message \<Rightarrow> history_message" where
  "msg_set_modified b = hm_flags_update (set_flag modified_bit b)"

definition msg_set_updated :: "bool \<Rightarrow> history_message \<Rightarrow> history_message" where
  "msg_set_updated b = hm_flags_update (set_flag updated_bit b)"

definition msg_set_clear :: "bool \<Rightarrow> history_message \<Rightarrow> history_message" where
  "msg_set_clear b = hm_flags_update (set_flag clear_bit b)"

subsection \<open>Patches\<close>

definition make_deleted_patch :: "int \<Rightarrow> cstring \<Rightarrow> history_message" where
  "make_deleted_patch archive_id internal_id =
     (let r = init_default\<lparr>hm_msgid := archive_id, hm_internal_id := internal_id\<rparr>
      in msg_set_patch True (msg_set_deleted True r))"

definition make_updated_patch :: "int \<Rightarrow> cstring \<Rightarrow> history_message" where
  "make_updated_patch archive_id internal_id =
     (let r = init_default\<lparr>hm_msgid := archive_id, hm_internal_id := internal_id\<rparr>
      in msg_set_patch True (msg_set_updated True r))"

definition make_modified_patch :: "junk \<Rightarrow> int \<Rightarrow> cstring \<Rightarrow> chat_event_data option \<Rightarrow> history_message" where
  "make_modified_patch junk archive_id internal_id chat_event =
     (let r = msg_set_modified True (make_updated_patch archive_id internal_id)
      in r\<lparr>hm_chat_event := (case chat_event of
             Some e \<Rightarrow> Some e | None \<Rightarrow> Some (make_simple_event junk message_deleted))\<rparr>)"

definition make_updated :: "int \<Rightarrow> cstring \<Rightarrow> history_message" where
  "make_updated archive_id internal_id =
     (let r = init_default\<lparr>hm_msgid := archive_id, hm_internal_id := internal_id\<rparr>
      in msg_set_patch False (msg_set_updated True r))"

definition make_clear_patch :: "int \<Rightarrow> cstring \<Rightarrow> history_message" where
  "make_clear_patch archive_id internal_id =
     (let r = init_default\<lparr>hm_msgid := archive_id, hm_internal_id := internal_id\<rparr>
      in msg_set_patch True (msg_set_clear True r))"

definition make_set_reactions_patch :: "int \<Rightarrow> cstring \<Rightarrow> history_message" where
  "make_set_reactions_patch archive_id internal_id = make_updated_patch archive_id internal_id"

text \<open>The two on a shared pointer, which may be null.\<close>

definition make_deleted :: "history_message option \<Rightarrow> history_message option" where
  "make_deleted m = map_option (\<lambda>m. msg_set_patch True (msg_set_deleted True m)) m"

definition make_modified :: "junk \<Rightarrow> history_message option \<Rightarrow> history_message option" where
  "make_modified junk m = map_option (\<lambda>m. (msg_set_patch True (msg_set_modified True m))
     \<lparr>hm_chat_event := Some (make_simple_event junk message_deleted)\<rparr>) m"

subsection \<open>Copying and merging\<close>

text \<open>
  \<open>copy old msg\<close> is what the copy constructor and the assignment leave in an object that was \<open>old\<close>
  (for the constructor, \<open>old\<close> is the object before any member is assigned). The JSON text, the
  sender's id, the buttons and the reactions keep their old values.
\<close>

definition copy :: "history_message \<Rightarrow> history_message \<Rightarrow> history_message" where
  "copy old msg = old\<lparr>
     hm_msgid := hm_msgid msg, hm_prev := hm_prev msg, hm_internal_id := hm_internal_id msg,
     hm_patch := hm_patch msg, hm_time := hm_time msg, hm_text := hm_text msg, hm_format := hm_format msg,
     hm_data_offset := hm_data_offset msg, hm_data_size := hm_data_size msg, hm_flags := hm_flags msg,
     hm_sender_friendly := hm_sender_friendly msg, hm_quotes := hm_quotes msg,
     hm_mentions := hm_mentions msg, hm_snippets := hm_snippets msg, hm_url := hm_url msg,
     hm_description := hm_description msg, hm_description_format := hm_description_format msg,
     hm_unsupported := hm_unsupported msg, hm_hide_edit := hm_hide_edit msg, hm_thread_id := hm_thread_id msg,
     hm_sticker := hm_sticker msg, hm_mult := hm_mult msg, hm_voip := hm_voip msg, hm_chat := hm_chat msg,
     hm_file_sharing := hm_file_sharing msg, hm_chat_event := hm_chat_event msg,
     hm_shared_contact := hm_shared_contact msg, hm_geo := hm_geo msg, hm_poll := hm_poll msg,
     hm_task := hm_task msg\<rparr>"

text \<open>\<open>merge\<close> takes the content of the other message and keeps the identity of this one. A format of the description is never taken away.\<close>

definition merge_message :: "history_message \<Rightarrow> history_message \<Rightarrow> history_message" where
  "merge_message m msg = m\<lparr>
     hm_text := hm_text msg, hm_quotes := hm_quotes msg, hm_mentions := hm_mentions msg,
     hm_snippets := hm_snippets msg, hm_patch := hm_patch msg, hm_url := hm_url msg,
     hm_description := hm_description msg,
     hm_description_format := (case hm_description_format msg of
        Some f \<Rightarrow> Some f | None \<Rightarrow> hm_description_format m),
     hm_hide_edit := hm_hide_edit msg, hm_thread_id := hm_thread_id msg,
     hm_sticker := hm_sticker msg, hm_mult := hm_mult msg, hm_voip := hm_voip msg, hm_chat := hm_chat msg,
     hm_file_sharing := hm_file_sharing msg, hm_chat_event := hm_chat_event msg,
     hm_shared_contact := hm_shared_contact msg, hm_geo := hm_geo msg, hm_poll := hm_poll msg,
     hm_task := hm_task msg, hm_format := hm_format msg\<rparr>"

definition reset_extended_data :: "history_message \<Rightarrow> history_message" where
  "reset_extended_data m = m\<lparr>hm_sticker := None, hm_mult := False, hm_voip := None,
     hm_file_sharing := None, hm_chat_event := None\<rparr>"

definition apply_header_flags :: "message_header \<Rightarrow> history_message \<Rightarrow> history_message" where
  "apply_header_flags h m =
     msg_set_restored_patch (is_restored_patch h) (msg_set_deleted (is_deleted h) m)"

definition has_text :: "history_message \<Rightarrow> bool" where
  "has_text m \<longleftrightarrow> hm_text m \<noteq> []"

text \<open>\<open>get_text\<close> of a sticker is its id.\<close>

definition get_text :: "history_message \<Rightarrow> cstring" where
  "get_text m = (case hm_sticker m of Some s \<Rightarrow> s | None \<Rightarrow> hm_text m)"

definition apply_modification :: "history_message \<Rightarrow> history_message \<Rightarrow> history_message" where
  "apply_modification modification m =
     (if has_text modification then (reset_extended_data m)\<lparr>hm_text := get_text modification\<rparr>
      else case hm_chat_event modification of
             Some e \<Rightarrow> (reset_extended_data m)\<lparr>hm_chat_event := Some e\<rparr>
           | None \<Rightarrow> m)"

definition apply_modifications :: "history_message list \<Rightarrow> history_message \<Rightarrow> history_message" where
  "apply_modifications mods m = fold apply_modification mods m"

subsection \<open>Kinds of messages\<close>

datatype message_type = undefined_type | base_type | file_sharing_type | sms_type | sticker_type
  | chat_event_kind | voip_event_kind

text \<open>\<open>is_sms\<close> is constantly false.\<close>

definition get_type :: "history_message \<Rightarrow> message_type" where
  "get_type m =
     (if hm_sticker m \<noteq> None then sticker_type
      else if hm_file_sharing m \<noteq> None then file_sharing_type
      else if hm_chat_event m \<noteq> None then chat_event_kind
      else if hm_voip m \<noteq> None then voip_event_kind
      else base_type)"

definition contents_equal :: "history_message \<Rightarrow> history_message \<Rightarrow> bool" where
  "contents_equal m msg \<longleftrightarrow>
     (if get_type m \<noteq> get_type msg then False
      else case get_type m of
             base_type \<Rightarrow> get_text m = get_text msg
           | file_sharing_type \<Rightarrow> file_sharing_equal (the (hm_file_sharing m)) (the (hm_file_sharing msg))
           | chat_event_kind \<Rightarrow> event_equal (the (hm_chat_event m)) (the (hm_chat_event msg))
           | _ \<Rightarrow> True)"

text \<open>The persons of a history request: ids and their data.\<close>

type_synonym persons_map = "cstring \<rightharpoonup> person"

definition find_person :: "cstring \<Rightarrow> persons_map \<Rightarrow> cstring" where
  "find_person aimid persons = (case persons aimid of Some p \<Rightarrow> pe_friendly p | None \<Rightarrow> aimid)"

definition apply_persons_to_quotes :: "persons_map \<Rightarrow> history_message \<Rightarrow> history_message" where
  "apply_persons_to_quotes persons m = m\<lparr>hm_quotes := map (\<lambda>q. case persons (qu_sender q) of
       Some p \<Rightarrow> q\<lparr>qu_sender_friendly := pe_friendly p\<rparr> | None \<Rightarrow> q) (hm_quotes m)\<rparr>"

definition apply_persons_to_mentions :: "persons_map \<Rightarrow> history_message \<Rightarrow> history_message" where
  "apply_persons_to_mentions persons m = m\<lparr>hm_mentions := map (\<lambda>(i, friendly). case persons i of
       Some p \<Rightarrow> (i, pe_friendly p) | None \<Rightarrow> (i, friendly)) (hm_mentions m)\<rparr>"

definition voip_apply_persons :: "persons_map \<Rightarrow> voip_data \<Rightarrow> voip_data" where
  "voip_apply_persons persons v = v\<lparr>vd_sender_friendly := find_person (vd_sender_aimid v) persons\<rparr>"

definition apply_persons_to_voip :: "persons_map \<Rightarrow> history_message \<Rightarrow> history_message" where
  "apply_persons_to_voip persons m = m\<lparr>hm_voip := map_option (voip_apply_persons persons) (hm_voip m)\<rparr>"

definition set_poll_id :: "cstring \<Rightarrow> history_message \<Rightarrow> history_message" where
  "set_poll_id i m = (if i = [] then m else m\<lparr>hm_poll := Some (poll_default\<lparr>po_id := i\<rparr>)\<rparr>)"

definition set_task_id :: "cstring \<Rightarrow> history_message \<Rightarrow> history_message" where
  "set_task_id i m =
     (if i = [] then m
      else case hm_task m of
             Some t \<Rightarrow> m\<lparr>hm_task := Some (t\<lparr>td_id := i\<rparr>)\<rparr>
           | None \<Rightarrow> m\<lparr>hm_task := Some (task_default\<lparr>td_id := i\<rparr>)\<rparr>)"

definition has_shared_contact_with_sn :: "history_message \<Rightarrow> bool" where
  "has_shared_contact_with_sn m = (case hm_shared_contact m of None \<Rightarrow> False | Some c \<Rightarrow> sc_sn c \<noteq> [])"

definition has_poll_with_id :: "history_message \<Rightarrow> bool" where
  "has_poll_with_id m = (case hm_poll m of None \<Rightarrow> False | Some p \<Rightarrow> po_id p \<noteq> [])"

definition has_task_with_id :: "history_message \<Rightarrow> bool" where
  "has_task_with_id m = (case hm_task m of None \<Rightarrow> False | Some t \<Rightarrow> td_id t \<noteq> [])"

definition has_reactions :: "history_message \<Rightarrow> bool" where
  "has_reactions m = (case hm_reactions m of None \<Rightarrow> False | Some r \<Rightarrow> mr_exist r)"

definition has_thread :: "history_message \<Rightarrow> bool" where
  "has_thread m \<longleftrightarrow> hm_thread_id m \<noteq> []"

text \<open>\<open>archive_index::update\<close> makes the header of a message; the time is converted to unsigned.\<close>

definition header_of_message :: "history_message \<Rightarrow> message_header" where
  "header_of_message m = mk_header (hm_flags m) (word_of_int (hm_time m)) (hm_msgid m) (hm_prev m)
     (hm_data_offset m) (hm_data_size m) (hm_patch m) (has_shared_contact_with_sn m)
     (has_poll_with_id m) (has_task_with_id m) (has_reactions m) (has_thread m)"

subsection \<open>The binary form\<close>

definition mention_serialize :: "cstring \<times> cstring \<Rightarrow> tlv list" where
  "mention_serialize n = [mk_tlv_pack mf_mention (pack_of
     [mk_tlv mf_mention_sn (fst n), mk_tlv mf_mention_friendly (snd n)])]"

text \<open>The fields \<open>serialize_call\<close> pushes, in order. The text comes first, for the search.\<close>

definition message_fields :: "junk \<Rightarrow> history_message \<Rightarrow> cstring \<Rightarrow> tlv list" where
  "message_fields junk m aimid =
     [mk_tlv mf_text (hm_text m),
      mk_tlv mf_msg_id (i64_image (hm_msgid m)),
      mk_tlv mf_prev_msg_id (i64_image (hm_prev m)),
      mk_tlv mf_flags (u32_image (hm_flags m)),
      mk_tlv mf_time (u64_image (word_of_int (hm_time m))),
      mk_tlv mf_internal_id (hm_internal_id m),
      mk_tlv mf_sender_friendly (hm_sender_friendly m),
      mk_tlv mf_update_patch_version (pv_string (hm_patch m)),
      mk_tlv mf_offline_version (i32_image (pv_offline (hm_patch m))),
      mk_tlv mf_description (hm_description m),
      mk_tlv mf_url (hm_url m),
      mk_tlv mf_json (hm_json m),
      mk_tlv mf_sender_aimid (hm_sender_aimid m),
      mk_tlv mf_buttons (hm_buttons_json m),
      mk_tlv mf_hide_edit (bool_image (hm_hide_edit m))] @
     opt (hm_thread_id m \<noteq> []) (mk_tlv mf_thread_id (hm_thread_id m)) @
     serialize_opt (\<lambda>f. [mk_tlv_pack mf_format (pack_of (format_serialize f))]) (hm_format m) @
     serialize_opt (\<lambda>c. [mk_tlv_pack mf_chat (pack_of (chat_serialize junk c))]) (hm_chat m) @
     serialize_opt (\<lambda>s. [mk_tlv_pack mf_sticker (pack_of (sticker_serialize s))]) (hm_sticker m) @
     opt (hm_mult m) (mk_tlv_pack mf_mult empty_pack) @
     serialize_opt (\<lambda>v. [mk_tlv_pack mf_voip (pack_of (voip_serialize v))]) (hm_voip m) @
     serialize_opt (\<lambda>f. [mk_tlv_pack mf_file_sharing (pack_of (file_sharing_serialize f))]) (hm_file_sharing m) @
     serialize_opt (\<lambda>e. [mk_tlv_pack mf_chat_event (pack_of (event_serialize e))]) (hm_chat_event m) @
     map (\<lambda>q. mk_tlv_pack mf_quote (pack_of (quote_serialize q))) (hm_quotes m) @
     concat (map mention_serialize (hm_mentions m)) @
     map (\<lambda>s. mk_tlv_pack mf_snippet (pack_of (snippet_serialize s))) (hm_snippets m) @
     serialize_opt contact_serialize (hm_shared_contact m) @
     serialize_opt geo_serialize (hm_geo m) @
     serialize_opt poll_serialize (hm_poll m) @
     serialize_opt task_serialize (hm_task m) @
     serialize_opt reactions_serialize (hm_reactions m) @
     [mk_tlv mf_call_aimid aimid] @
     serialize_opt (\<lambda>f. [mk_tlv_pack mf_description_format (pack_of (format_serialize f))]) (hm_description_format m)"

definition serialize_call :: "junk \<Rightarrow> history_message \<Rightarrow> cstring \<Rightarrow> binary_stream \<Rightarrow> binary_stream" where
  "serialize_call junk m aimid s = pack_serialize (pack_of (message_fields junk m aimid)) s"

definition message_serialize :: "junk \<Rightarrow> history_message \<Rightarrow> binary_stream \<Rightarrow> binary_stream" where
  "message_serialize junk m s = serialize_call junk m [] s"

record reader =
  rd_junk :: junk
  rd_parse :: "cstring \<Rightarrow> cstring \<Rightarrow> history_message \<Rightarrow> int \<times> history_message"
  rd_buttons :: "cstring \<Rightarrow> button_data list list"

text \<open>
  One round of the loop of \<open>unserialize_call\<close>: a crash, an early return with its code, or the message
  and the id of the caller so far. The JSON text and the sender's id together make it return what the
  JSON reader returns.
\<close>

datatype step_result = Return int history_message | Continue history_message cstring

definition maybe_parse :: "reader \<Rightarrow> history_message \<Rightarrow> cstring \<Rightarrow> step_result" where
  "maybe_parse rd m aimid =
     (if hm_json m \<noteq> [] \<and> hm_sender_aimid m \<noteq> []
      then (case rd_parse rd (hm_json m) (hm_sender_aimid m) m of (code, m') \<Rightarrow> Return code m')
      else Continue m aimid)"

text \<open>
  The case of the reactions has no \<^verbatim>\<open>break\<close>: it goes on with the case of the JSON text, on the same
  field, whose bytes the pack has already consumed.
\<close>

definition read_reactions :: "reader \<Rightarrow> tlv \<Rightarrow> history_message \<Rightarrow> cstring \<Rightarrow> step_result option" where
  "read_reactions rd t m aimid = do {
     (p, t') \<leftarrow> get_pack_io t;
     let m = (case reactions_unserialize p of None \<Rightarrow> m | Some r \<Rightarrow> m\<lparr>hm_reactions := Some r\<rparr>);
     Some (maybe_parse rd (m\<lparr>hm_json := get_string t'\<rparr>) aimid)
   }"

definition read_mention :: "tlvpack \<Rightarrow> history_message \<Rightarrow> history_message" where
  "read_mention p m =
     (case (get_item p mf_mention_sn, get_item p mf_mention_friendly) of
        (Some sn, Some fr) \<Rightarrow>
          if get_string sn \<noteq> [] \<and> get_string fr \<noteq> []
          then m\<lparr>hm_mentions := om_emplace (get_string sn) (get_string fr) (hm_mentions m)\<rparr> else m
      | _ \<Rightarrow> m)"

definition read_field :: "reader \<Rightarrow> tlv \<Rightarrow> history_message \<Rightarrow> cstring \<Rightarrow> step_result option" where
  "read_field rd t m aimid =
     (let ty = tlv_type t; go = (\<lambda>m. Some (Continue m aimid)) in
      if ty = mf_msg_id then go (m\<lparr>hm_msgid := get_i64_or (hm_msgid m) t\<rparr>)
      else if ty = mf_prev_msg_id then go (m\<lparr>hm_prev := get_i64_or (hm_prev m) t\<rparr>)
      else if ty = mf_flags then go (m\<lparr>hm_flags := get_u32 t\<rparr>)
      else if ty = mf_time then go (m\<lparr>hm_time := sint (get_u64 t)\<rparr>)
      else if ty = mf_internal_id then go (m\<lparr>hm_internal_id := get_string t\<rparr>)
      else if ty = mf_sender_friendly then go (m\<lparr>hm_sender_friendly := get_string t\<rparr>)
      else if ty = mf_text then go (m\<lparr>hm_text := get_string t\<rparr>)
      else if ty = mf_format then do {
        p \<leftarrow> get_pack t; f \<leftarrow> format_unserialize p; go (m\<lparr>hm_format := Some f\<rparr>) }
      else if ty = mf_update_patch_version then go (m\<lparr>hm_patch := (hm_patch m)\<lparr>pv_string := get_string t\<rparr>\<rparr>)
      else if ty = mf_offline_version then go (m\<lparr>hm_patch := (hm_patch m)\<lparr>pv_offline := get_i32 t\<rparr>\<rparr>)
      else if ty = mf_chat then do {
        p \<leftarrow> get_pack t; go (m\<lparr>hm_chat := Some (snd (chat_unserialize p chat_default))\<rparr>) }
      else if ty = mf_sticker then do {
        p \<leftarrow> get_pack t; go (m\<lparr>hm_sticker := Some (snd (sticker_unserialize p []))\<rparr>) }
      else if ty = mf_mult then do { p \<leftarrow> get_pack t; go (m\<lparr>hm_mult := True\<rparr>) }
      else if ty = mf_voip then do {
        p \<leftarrow> get_pack t; (ok, v) \<leftarrow> voip_unserialize p voip_default;
        go (m\<lparr>hm_voip := (if ok then Some v else None)\<rparr>) }
      else if ty = mf_file_sharing then do {
        p \<leftarrow> get_pack t; f \<leftarrow> file_sharing_unserialize p; go (m\<lparr>hm_file_sharing := Some f\<rparr>) }
      else if ty = mf_chat_event then do {
        p \<leftarrow> get_pack t; e \<leftarrow> event_unserialize (rd_junk rd) p; go (m\<lparr>hm_chat_event := Some e\<rparr>) }
      else if ty = mf_quote then do {
        p \<leftarrow> get_pack t; q \<leftarrow> quote_unserialize (rd_junk rd) p quote_default;
        go (m\<lparr>hm_quotes := hm_quotes m @ [q]\<rparr>) }
      else if ty = mf_mention then do { p \<leftarrow> get_pack t; go (read_mention p m) }
      else if ty = mf_snippet then do {
        p \<leftarrow> get_pack t; go (m\<lparr>hm_snippets := hm_snippets m @ [snippet_unserialize p (snippet_of_url [])]\<rparr>) }
      else if ty = mf_description then go (m\<lparr>hm_description := get_string t\<rparr>)
      else if ty = mf_description_format then do {
        p \<leftarrow> get_pack t; f \<leftarrow> format_unserialize p; go (m\<lparr>hm_description_format := Some f\<rparr>) }
      else if ty = mf_url then go (m\<lparr>hm_url := get_string t\<rparr>)
      else if ty = mf_shared_contact then do {
        p \<leftarrow> get_pack t; go (m\<lparr>hm_shared_contact := read_contact p (hm_shared_contact m)\<rparr>) }
      else if ty = mf_geo then do {
        p \<leftarrow> get_pack t; go (m\<lparr>hm_geo := Some (geo_unserialize p (geo_blank (rd_junk rd)))\<rparr>) }
      else if ty = mf_poll then do { p \<leftarrow> get_pack t; go (m\<lparr>hm_poll := Some (poll_unserialize p)\<rparr>) }
      else if ty = mf_task then do { p \<leftarrow> get_pack t; go (m\<lparr>hm_task := Some (task_unserialize p)\<rparr>) }
      else if ty = mf_reactions then read_reactions rd t m aimid
      else if ty = mf_json then Some (maybe_parse rd (m\<lparr>hm_json := get_string t\<rparr>) aimid)
      else if ty = mf_sender_aimid then Some (maybe_parse rd (m\<lparr>hm_sender_aimid := get_string t\<rparr>) aimid)
      else if ty = mf_buttons then
        go (m\<lparr>hm_buttons_json := get_string t, hm_buttons := rd_buttons rd (get_string t)\<rparr>)
      else if ty = mf_hide_edit then go (m\<lparr>hm_hide_edit := get_bool t\<rparr>)
      else if ty = mf_thread_id then go (m\<lparr>hm_thread_id := get_string t\<rparr>)
      else if ty = mf_call_aimid then Some (Continue m (get_string t))
      else go m)"

fun read_fields :: "reader \<Rightarrow> tlv list \<Rightarrow> history_message \<Rightarrow> cstring \<Rightarrow> (int \<times> history_message \<times> cstring) option" where
  "read_fields rd [] m aimid = Some (0, m, aimid)"
| "read_fields rd (t # ts) m aimid =
     (case read_field rd t m aimid of
        None \<Rightarrow> None
      | Some (Return code m') \<Rightarrow> Some (code, m', aimid)
      | Some (Continue m' aimid') \<Rightarrow> read_fields rd ts m' aimid')"

definition unserialize_call ::
  "reader \<Rightarrow> binary_stream \<Rightarrow> history_message \<Rightarrow> cstring \<Rightarrow> (int \<times> history_message \<times> cstring \<times> binary_stream) option"
where
  "unserialize_call rd s m aimid = do {
     (ok, p, s') \<leftarrow> pack_unserialize empty_pack s;
     if \<not> ok then Some (-1, m, aimid, s')
     else do {
       (code, m', aimid') \<leftarrow> read_fields rd (walk p) m aimid;
       Some (code, m', aimid', s')
     }
   }"

definition message_unserialize ::
  "reader \<Rightarrow> binary_stream \<Rightarrow> history_message \<Rightarrow> (int \<times> history_message \<times> binary_stream) option"
where
  "message_unserialize rd s m = do {
     (code, m', _, s') \<leftarrow> unserialize_call rd s m [];
     Some (code, m', s')
   }"

subsection \<open>Looking for one field\<close>

text \<open>
  The searches of the archive look for a field in the stream itself. They stop at the first field of
  the type that is not empty, at an empty field of any type that is refused, or at the end.
\<close>

lemma try_get_field_shrinks:
  "try_get_field_with_type ty s = Some (True, 0, s') \<Longrightarrow> available s \<noteq> 0 \<Longrightarrow>
    nat (available s') < nat (available s)"
  by (auto simp: try_get_field_with_type_def read_u32_def read_bytes_def available_def bind_eq_Some_conv
      lt_size_def Let_def split: if_splits option.splits)

text \<open>The loop shared by the four: the flag says whether a field was found, and the number is \<^verbatim>\<open>length\<close>.\<close>

function find_field :: "u32 \<Rightarrow> u32 \<Rightarrow> binary_stream \<Rightarrow> (bool \<times> u32 \<times> binary_stream) option" where
  "find_field ty len s =
     (if available s \<noteq> 0 then
        (case try_get_field_with_type ty s of
           None \<Rightarrow> None
         | Some (ok, len', s') \<Rightarrow>
             if \<not> ok then Some (False, len', s')
             else if len' \<noteq> 0 then Some (True, len', s')
             else find_field ty len' s')
      else Some (False, len, s))"
  by pat_completeness auto
termination
  by (relation "measure (\<lambda>(ty, len, s). nat (available s))") (use try_get_field_shrinks in fastforce)+

declare find_field.simps [simp del]

definition jump_to_text_field :: "u32 \<Rightarrow> binary_stream \<Rightarrow> (u32 \<times> binary_stream) option" where
  "jump_to_text_field len s = map_option snd (find_field mf_text len s)"

definition is_sticker :: "binary_stream \<Rightarrow> (bool \<times> binary_stream) option" where
  "is_sticker s = map_option (\<lambda>(b, _, s'). (b, s')) (find_field mf_sticker 0 s)"

definition is_chat_event :: "binary_stream \<Rightarrow> (bool \<times> binary_stream) option" where
  "is_chat_event s = map_option (\<lambda>(b, _, s'). (b, s')) (find_field mf_chat_event 0 s)"

definition get_id_field :: "binary_stream \<Rightarrow> (int \<times> binary_stream) option" where
  "get_id_field s = do {
     (b, _, s') \<leftarrow> find_field mf_msg_id 0 s;
     if b then read_i64 s' else Some (-1, s')
   }"

end
