(* ===== verification/Message_Roundtrip.thy ===== *)
theory Message_Roundtrip
  imports History_Message
begin

text \<open>
  What the parts of a message are when they are read back from their binary form. Every part has a lemma that gives the value its
  reader makes of the fields its writer pushed: the part itself, or its \<open>stored\<close> form where the writer
  or the reader drops something. \<^verbatim>\<open>Message_Store\<close> puts the parts together.

  The only bound the parts need is that the whole encoding is shorter than \<^term>\<open>(2::nat) ^ 32\<close>, since an
  encoding is longer than each field it holds; the archive refuses messages of more than 1 MiB.
\<close>

subsection \<open>Nested packs\<close>

text \<open>Lookups walk the list of fields piece by piece; the union of maps would hide the pieces.\<close>

declare map_of_append [simp del]

named_theorems part_simps \<open>what the readers of the parts make of the written fields\<close>

abbreviation fits :: "tlv list \<Rightarrow> bool" where
  "fits ts \<equiv> length (enc_fields (map tlv_view ts)) < 2 ^ 32"

lemma fits_good: "length (enc_fields fs) < 2 ^ 32 \<Longrightarrow> list_all good_field fs"
  by (induction fs) auto

lemma get_pack_fits [simp]:
  "length (enc_fields fs) < 2 ^ 32 \<Longrightarrow> get_pack (mk_tlv ty (enc_fields fs)) = Some (mk_pack fs)"
  by (rule get_pack_enc) (rule fits_good)

lemma fits_append: "fits (xs @ ys) \<Longrightarrow> fits xs \<and> fits ys"
  by (simp add: enc_fields_def)

lemma set_opt [simp]: "set (opt b x) = (if b then {x} else {})"
  by (cases b) (simp_all add: opt_def)

text \<open>The fields read from a pack of written fields.\<close>

abbreviation packed :: "tlv list \<Rightarrow> tlvpack" where
  "packed ts \<equiv> mk_pack (map tlv_view ts)"

lemma nested_fresh [simp]: "list_all fresh_tlv ts \<Longrightarrow> fresh_tlv (mk_tlv_pack ty (pack_of ts))"
  by simp

lemma nested_view [simp]:
  "list_all fresh_tlv ts \<Longrightarrow> tlv_view (mk_tlv_pack ty (pack_of ts)) = (ty, enc_fields (map tlv_view ts))"
  by simp

lemmas read_defs = string_or_def i32_or_def i64_or_def bool_or_def with_pack_def

subsection \<open>Contacts, places, reactions, stickers, chats, files\<close>

lemma contact_roundtrip [part_simps]:
  "contact_unserialize (mk_pack [(mf_shared_contact_name, sc_name c), (mf_shared_contact_phone, sc_phone c),
     (mf_shared_contact_sn, sc_sn c)]) d = (True, c)"
  by (simp add: contact_unserialize_def read_defs)

lemma geo_roundtrip [part_simps]:
  "geo_unserialize (mk_pack [(mf_geo_name, geo_name g), (mf_geo_lat, u64_image (geo_lat g)),
     (mf_geo_long, u64_image (geo_long g))]) d = g"
  by (simp add: geo_unserialize_def read_defs)

lemma reactions_roundtrip [part_simps]:
  "reactions_unserialize (mk_pack [(mf_reactions_exist, bool_image b)]) = Some \<lparr>mr_exist = b, mr_data = None\<rparr>"
  by (simp add: reactions_unserialize_def)

lemma sticker_roundtrip [part_simps]: "sticker_unserialize (packed (sticker_serialize s)) d = (0, s)"
  by (simp add: sticker_unserialize_def sticker_serialize_def)

text \<open>Of the person only the name and the official flag are stored; a missing flag is read as the bit pattern of its payload byte.\<close>

definition stored_chat :: "junk \<Rightarrow> chat_data \<Rightarrow> chat_data" where
  "stored_chat junk c = c\<lparr>cd_friendly := (cd_friendly chat_default)
     \<lparr>pe_friendly := pe_friendly (cd_friendly c),
      pe_official := Some (case pe_official (cd_friendly c) of
        None \<Rightarrow> junk_byte junk \<noteq> 0 | Some b \<Rightarrow> b)\<rparr>\<rparr>"

lemma get_bool_optional [simp]:
  "get_bool (mk_tlv ty (optional_bool_image j b)) = (case b of None \<Rightarrow> j \<noteq> 0 | Some x \<Rightarrow> x)"
proof -
  have "unat j = 0 \<longleftrightarrow> j = 0" by (rule unat_eq_zero)
  then show ?thesis
    by (auto simp: get_bool_def get_scalar_mk_tlv optional_bool_image_def bool_value_def split: option.split)
qed

lemma chat_roundtrip [part_simps]:
  "chat_unserialize (packed (chat_serialize junk c)) chat_default = (0, stored_chat junk c)"
  by (simp add: chat_unserialize_def chat_serialize_def read_defs stored_chat_def chat_default_def)

definition good_file_sharing :: "file_sharing_data \<Rightarrow> bool" where
  "good_file_sharing f \<longleftrightarrow> (\<forall>d. fs_duration f = Some d \<longrightarrow> i64_range d) \<and>
     (\<forall>t. fs_base_content_type f = Some t \<longrightarrow> i32_range t)"

text \<open>The path is stored when there is no link.\<close>

definition stored_file_sharing :: "file_sharing_data \<Rightarrow> file_sharing_data" where
  "stored_file_sharing f = (if fs_uri f = [] then f else f\<lparr>fs_local_path := []\<rparr>)"

lemma file_sharing_roundtrip [part_simps]:
  "good_file_sharing f \<Longrightarrow>
    file_sharing_unserialize (packed (file_sharing_serialize f)) = Some (stored_file_sharing f)"
  by (cases "fs_uri f = []"; cases "fs_duration f"; cases "fs_base_content_type f")
    (simp_all add: file_sharing_unserialize_def file_sharing_serialize_def good_file_sharing_def
      stored_file_sharing_def)

lemma fresh_numbered [simp]: "list_all fresh_tlv (numbered ms)"
  by (auto simp: numbered_def list_all_iff)

lemma fresh_parts [simp]:
  "list_all fresh_tlv (contact_serialize c)" "list_all fresh_tlv (geo_serialize g)"
  "list_all fresh_tlv (reactions_serialize r)" "list_all fresh_tlv (sticker_serialize s)"
  "list_all fresh_tlv (chat_serialize junk ch)" "list_all fresh_tlv (file_sharing_serialize f)"
  by (simp_all add: contact_serialize_def geo_serialize_def reactions_serialize_def
      sticker_serialize_def chat_serialize_def file_sharing_serialize_def)

subsection \<open>Lists of names\<close>

lemma length_enc_fields: "length fs \<le> length (enc_fields fs)"
proof (induction fs)
  case (Cons f fs)
  then show ?case by (cases f) simp
qed simp

lemma view_numbered:
  "map tlv_view (numbered ms) = map (\<lambda>(i, m). (word_of_nat i, m)) (enumerate 0 ms)"
  by (simp add: numbered_def case_prod_beta)

lemma item_numbered:
  assumes "fits (numbered ms)" and "i < length ms"
  shows "get_item (packed (numbered ms)) (word_of_nat i) = Some (mk_tlv (word_of_nat i) (ms ! i))"
proof -
  let ?fs = "map (\<lambda>(i, m). (word_of_nat i :: u32, m)) (enumerate 0 ms)"
  have n: "length ms < 2 ^ 32"
    using length_enc_fields [of ?fs] assms(1) by (simp add: view_numbered)
  have k: "map fst ?fs = map word_of_nat [0..<length ms]"
  proof -
    have "map fst ?fs = map (word_of_nat \<circ> fst) (enumerate 0 ms)" by (simp add: case_prod_unfold comp_def)
    then show ?thesis by (simp only: map_map [symmetric] map_fst_enumerate) simp
  qed
  have "inj_on (word_of_nat :: nat \<Rightarrow> u32) (set [0..<length ms])"
    using n by (intro inj_onI) (metis atLeastLessThan_iff less_trans set_upt u32_value_length)
  then have "distinct (map fst ?fs)" unfolding k by (simp add: distinct_map)
  moreover have "(word_of_nat i, ms ! i) \<in> set ?fs"
    using assms(2) by (force simp: in_set_enumerate_eq)
  ultimately have "map_of ?fs (word_of_nat i) = Some (ms ! i)" by simp
  then show ?thesis by (simp add: view_numbered)
qed

lemma size_packed [simp]: "pack_size (packed ts) = length ts"
  by simp

lemma length_numbered [simp]: "length (numbered ms) = length ms"
  by (simp add: numbered_def)

lemma those_map_Some: "\<forall>x\<in>set xs. f x = Some (g x) \<Longrightarrow> those (map f xs) = Some (map g xs)"
  by (induction xs) auto

lemma members_roundtrip: "fits (numbered ms) \<Longrightarrow> members_of (packed (numbered ms)) = Some ms"
  unfolding members_of_def size_packed length_numbered
  by (subst those_map_Some [where g = "(!) ms"]) (simp_all add: item_numbered map_nth del: get_item_mk_pack)

lemma conf_members_roundtrip:
  assumes "fits (numbered ms)"
  shows "conf_members_of (packed (numbered ms)) = filter (\<lambda>m. m \<noteq> []) ms"
proof -
  have "conf_members_of (packed (numbered ms)) =
      concat (map (\<lambda>i. if ms ! i = [] then [] else [ms ! i]) [0..<length ms])"
    unfolding conf_members_of_def size_packed length_numbered
    using assms by (intro arg_cong [where f = concat] map_cong) (simp_all add: item_numbered del: get_item_mk_pack)
  also have "\<dots> = concat (map (\<lambda>m. if m = [] then [] else [m]) (map ((!) ms) [0..<length ms]))"
    by (simp add: comp_def)
  also have "\<dots> = filter (\<lambda>m. m \<noteq> []) ms"
    unfolding map_nth by (induction ms) auto
  finally show ?thesis .
qed

subsection \<open>Calls\<close>

lemma fresh_voip [simp]: "list_all fresh_tlv (voip_serialize v)"
  by (simp add: voip_serialize_def)

definition good_voip :: "voip_data \<Rightarrow> bool" where
  "good_voip v \<longleftrightarrow> i32_range (vd_type v) \<and> i32_range (vd_duration v) \<and> i32_range (vd_is_incoming v)"

text \<open>A call without a valid type, caller or name is dropped; negative numbers become -1 and members without a name disappear.\<close>

definition stored_voip :: "voip_data \<Rightarrow> voip_data option" where
  "stored_voip v =
     (if voip_min < vd_type v \<and> vd_type v < voip_max \<and> vd_sender_aimid v \<noteq> [] \<and> vd_sender_friendly v \<noteq> []
      then Some (v\<lparr>vd_duration := max (-1) (vd_duration v), vd_is_incoming := max (-1) (vd_is_incoming v),
                   vd_conf := filter (\<lambda>m. m \<noteq> []) (vd_conf v)\<rparr>)
      else None)"

lemma voip_roundtrip:
  assumes "good_voip v" and "fits (voip_serialize v)"
  shows "\<exists>ok w. voip_unserialize (packed (voip_serialize v)) voip_default = Some (ok, w) \<and>
    (if ok then Some w else None) = stored_voip v"
proof -
  let ?fs = "map tlv_view (voip_serialize v)"
  have conf: "fits (numbered (vd_conf v))" if "vd_conf v \<noteq> []"
    using assms(2) that by (simp add: voip_serialize_def enc_fields_def)
  have "map_of ?fs mf_voip_event_type = Some (i32_image (vd_type v))"
    and "map_of ?fs mf_voip_sender_aimid = Some (vd_sender_aimid v)"
    and "map_of ?fs mf_voip_sender_friendly = Some (vd_sender_friendly v)"
    and "map_of ?fs mf_voip_duration = (if vd_duration v \<ge> 0 then Some (i32_image (vd_duration v)) else None)"
    and "map_of ?fs mf_voip_is_incoming = (if vd_is_incoming v \<ge> 0 then Some (i32_image (vd_is_incoming v)) else None)"
    and "map_of ?fs mf_voip_is_video = (if vd_is_video v then Some (bool_image True) else None)"
    and "map_of ?fs mf_voip_conf_members =
      (if vd_conf v \<noteq> [] then Some (enc_fields (map tlv_view (numbered (vd_conf v)))) else None)"
    and "map_of ?fs mf_voip_sid = Some (vd_sid v)"
    by (simp_all add: voip_serialize_def)
  note lookups = this [simplified]
  show ?thesis
  proof (cases "voip_min < vd_type v \<and> vd_type v < voip_max \<and> vd_sender_aimid v \<noteq> [] \<and> vd_sender_friendly v \<noteq> []")
    case False
    then have none: "stored_voip v = None" unfolding stored_voip_def by (rule if_not_P)
    have ty: "i32_range (vd_type v)" using assms(1) by (simp add: good_voip_def)
    from False consider (invalid) "\<not> (voip_min < vd_type v \<and> vd_type v < voip_max)"
      | (caller) "voip_min < vd_type v \<and> vd_type v < voip_max" "vd_sender_aimid v = []"
      | (name) "voip_min < vd_type v \<and> vd_type v < voip_max" "vd_sender_aimid v \<noteq> []" "vd_sender_friendly v = []"
      by blast
    then have "\<exists>w. voip_unserialize (packed (voip_serialize v)) voip_default = Some (False, w)"
      by cases (simp_all add: voip_unserialize_def lookups ty)
    with none show ?thesis by auto
  next
    case True
    have "voip_unserialize (packed (voip_serialize v)) voip_default = Some (True, v\<lparr>vd_duration := max (-1) (vd_duration v),
        vd_is_incoming := max (-1) (vd_is_incoming v), vd_conf := filter (\<lambda>m. m \<noteq> []) (vd_conf v)\<rparr>)"
      using True assms(1) conf conf_members_roundtrip [of "vd_conf v"]
      by (simp add: voip_unserialize_def good_voip_def lookups read_defs max_def voip_default_def)
    with True show ?thesis by (auto simp: stored_voip_def)
  qed
qed

subsection \<open>Tasks and polls\<close>

lemma fresh_task [simp]: "list_all fresh_tlv (task_serialize t)" "list_all fresh_tlv (poll_serialize p)"
  by (simp_all add: task_serialize_def poll_serialize_def list_all_iff)

definition good_task :: "task_data \<Rightarrow> bool" where
  "good_task t \<longleftrightarrow> i64_range (to_seconds (tk_end_time (td_params t)))"

text \<open>A task that the server knows is stored as its id, a new one as title, assignee and end time in whole seconds.\<close>

definition stored_task :: "task_data \<Rightarrow> task_data" where
  "stored_task t =
     (if td_id t \<noteq> [] then task_default\<lparr>td_id := td_id t\<rparr>
      else task_default\<lparr>td_params := (td_params task_default)
        \<lparr>tk_title := tk_title (td_params t), tk_assignee := tk_assignee (td_params t),
         tk_end_time := from_seconds (to_seconds (tk_end_time (td_params t)))\<rparr>\<rparr>)"

definition task_fields :: "task_data \<Rightarrow> tlv list" where
  "task_fields t = (if td_id t \<noteq> [] then [mk_tlv mf_task_id (td_id t)]
      else [mk_tlv mf_task_title (tk_title (td_params t)),
            mk_tlv mf_task_assignee (tk_assignee (td_params t)),
            mk_tlv mf_task_end_time (i64_image (to_seconds (tk_end_time (td_params t))))])"

lemma task_serialize_fields: "task_serialize t = [mk_tlv_pack mf_task (pack_of (task_fields t))]"
  by (simp add: task_serialize_def task_fields_def)

lemma task_roundtrip: "good_task t \<Longrightarrow> task_unserialize (packed (task_fields t)) = stored_task t"
  by (cases "td_id t = []")
    (simp_all add: task_unserialize_def task_fields_def stored_task_def good_task_def read_defs task_default_def)

definition stored_poll :: "poll_data \<Rightarrow> poll_data" where
  "stored_poll p = poll_default\<lparr>po_id := po_id p, po_type := po_type p,
     po_answers := map (\<lambda>a. \<lparr>an_votes = 0, an_text = an_text a, an_answer_id = []\<rparr>) (po_answers p)\<rparr>"

definition poll_fields :: "poll_data \<Rightarrow> tlv list" where
  "poll_fields p = mk_tlv mf_poll_id (po_id p) # map (\<lambda>a. mk_tlv mf_poll_answer (an_text a)) (po_answers p) @
     [mk_tlv mf_poll_type (po_type p)]"

lemma poll_serialize_fields: "poll_serialize p = [mk_tlv_pack mf_poll (pack_of (poll_fields p))]"
  by (simp add: poll_serialize_def poll_fields_def)

lemma poll_answers_fold:
  "fold poll_field (map (\<lambda>a. mk_tlv mf_poll_answer (an_text a)) as) p =
    p\<lparr>po_answers := po_answers p @ map (\<lambda>a. \<lparr>an_votes = 0, an_text = an_text a, an_answer_id = []\<rparr>) as\<rparr>"
  by (induction as arbitrary: p) (simp_all add: poll_field_def)

lemma poll_roundtrip: "poll_unserialize (packed (poll_fields p)) = stored_poll p"
proof -
  have w: "walk (packed (poll_fields p)) = poll_fields p"
    by (simp add: poll_fields_def comp_def)
  show ?thesis unfolding poll_unserialize_def w
    by (simp add: poll_fields_def poll_answers_fold [unfolded mf_poll_answer_def])
      (simp add: poll_field_def stored_poll_def poll_default_def)
qed

lemma fresh_task_fields [simp]: "list_all fresh_tlv (task_fields t)" "list_all fresh_tlv (poll_fields p)"
  by (simp_all add: task_fields_def poll_fields_def list_all_iff)

subsection \<open>Text formats, link previews\<close>

definition good_range :: "range \<Rightarrow> bool" where
  "good_range r \<longleftrightarrow> i32_range (rg_offset r) \<and> i32_range (rg_size r) \<and> i32_range (rg_start_index r)"

definition good_formats :: "formats \<Rightarrow> bool" where
  "good_formats fs \<longleftrightarrow> (\<forall>r\<in>set fs. good_range (rf_range r) \<and> rf_type r \<noteq> no_format)"

lemma fresh_range [simp]: "list_all fresh_tlv (range_format_serialize r)"
  by (simp add: range_format_serialize_def)

lemma fresh_format [simp]: "list_all fresh_tlv (format_serialize fs)"
  by (induction fs) (simp_all add: format_serialize_def)

lemma from_to_mf_type [simp]: "f \<noteq> no_format \<Longrightarrow> from_mf_type (to_mf_type f) = f"
  by (cases f) (simp_all add: from_mf_type_def to_mf_type_def)

lemma range_roundtrip:
  assumes "good_range (rf_range r)"
  shows "read_format_info (packed (range_format_serialize r)) = r\<lparr>rf_type := no_format\<rparr>"
  using assms
  by (cases "rf_data r")
    (simp_all add: read_format_info_def range_format_serialize_def read_format_field_def range_default_def good_range_def)

lemma format_roundtrip:
  assumes "good_formats fs" and "fits (format_serialize fs)"
  shows "format_unserialize (packed (format_serialize fs)) = Some fs"
  using assms
proof (induction fs)
  case Nil
  then show ?case by (simp add: format_unserialize_def format_serialize_def)
next
  case (Cons r fs)
  have "fits (format_serialize fs)" and r: "fits (range_format_serialize r)"
    using Cons.prems(2) by (simp_all add: format_serialize_def enc_fields_def)
  then have "format_unserialize (packed (format_serialize fs)) = Some fs"
    using Cons by (simp add: good_formats_def)
  moreover have "good_range (rf_range r)" "rf_type r \<noteq> no_format"
    using Cons.prems(1) by (simp_all add: good_formats_def)
  ultimately show ?case
    using r by (simp add: format_unserialize_def format_serialize_def range_roundtrip)
qed

lemma fresh_snippet [simp]: "list_all fresh_tlv (snippet_serialize s)"
  by (simp add: snippet_serialize_def)

definition good_snippet :: "url_snippet \<Rightarrow> bool" where
  "good_snippet s \<longleftrightarrow> i32_range (us_preview_width s) \<and> i32_range (us_preview_height s)"

lemma or_opt:
  "string_or d (mk_pack fs) ty = (case map_of fs ty of None \<Rightarrow> d | Some v \<Rightarrow> v)"
  by (simp add: string_or_def split: option.split)

lemma snippet_roundtrip:
  "good_snippet s \<Longrightarrow> snippet_unserialize (packed (snippet_serialize s)) (snippet_of_url []) = s"
  by (cases s) (auto simp: snippet_unserialize_def snippet_serialize_def snippet_of_url_def or_opt i32_or_def
      good_snippet_def split: option.splits if_splits)

subsection \<open>Chat events\<close>

lemma map_of_pieces [simp]:
  "map_of ((if b then xs else []) @ ys) t = (if b then map_of (xs @ ys) t else map_of ys t)"
  "map_of (if b then xs else []) t = (if b then map_of xs t else None)"
  "map f (if b then xs' else []) = (if b then map f xs' else [])"
  by simp_all

lemma fresh_event_parts [simp]:
  "list_all fresh_tlv (modifications_serialize e)" "list_all fresh_tlv (task_change_serialize e)"
  "list_all fresh_tlv (status_reply_serialize e)"
  by (simp_all add: modifications_serialize_def task_change_serialize_def status_reply_serialize_def Let_def)

lemma fresh_event [simp]: "list_all fresh_tlv (event_serialize e)"
  by (simp add: event_serialize_def)

definition good_event :: "chat_event_data \<Rightarrow> bool" where
  "good_event e \<longleftrightarrow> i32_range (ce_type e) \<and> i64_range (change_end_time_to_seconds (ce_task_change e))"

definition stored_change :: "task_change \<Rightarrow> task_change" where
  "stored_change c = change_default\<lparr>tc_title := tc_title c, tc_assignee := tc_assignee c,
     tc_end_time := map_option (\<lambda>t. from_seconds (to_seconds t)) (tc_end_time c),
     tc_status := map_option (\<lambda>s. if s = status_unknown then new_task else s) (tc_status c)\<rparr>"

text \<open>An event keeps the members its type has, on top of what the constructor leaves.\<close>

definition stored_event :: "junk \<Rightarrow> chat_event_data \<Rightarrow> chat_event_data" where
  "stored_event junk e = (let ty = ce_type e; b = event_blank junk ty in b\<lparr>
     ce_channel := ce_channel e, ce_captcha := ce_captcha e,
     ce_sender_aimid := (if has_sender_aimid ty then ce_sender_aimid e else []),
     ce_sender_friendly := (if has_sender_aimid ty then ce_sender_friendly e else []),
     ce_members := (if has_mchat_members ty then ce_members e else []),
     ce_members_friendly := (if has_mchat_members ty then ce_members_friendly e else []),
     ce_requested_by := (if has_mchat_members ty then ce_requested_by e else []),
     ce_requested_by_friendly := (if has_mchat_members ty then ce_requested_by_friendly e else []),
     ce_new_name := (if ty = cet chat_name_modified then ce_new_name e else []),
     ce_new_description := (if ty = cet chat_description_modified then ce_new_description e else []),
     ce_new_rules := (if ty = cet chat_rules_modified then ce_new_rules e else []),
     ce_new_stamp := (if ty = cet chat_stamp_modified then ce_new_stamp e else []),
     ce_new_threads_enabled := (if ty = cet chat_threads_enabled_modified then ce_new_threads_enabled e else junk_bool junk),
     ce_generic := (if has_generic_text ty then ce_generic e else []),
     ce_sender_status := (if ty = cet status_reply \<or> ty = cet custom_status_reply then ce_sender_status e else []),
     ce_sender_status_description := (if ty = cet status_reply \<or> ty = cet custom_status_reply then ce_sender_status_description e else []),
     ce_owner_status := (if ty = cet status_reply \<or> ty = cet custom_status_reply then ce_owner_status e else []),
     ce_owner_status_description := (if ty = cet status_reply \<or> ty = cet custom_status_reply then ce_owner_status_description e else []),
     ce_task_editor := (if ty = cet task_changed then ce_task_editor e else []),
     ce_task_change := (if ty = cet task_changed then stored_change (ce_task_change e) else change_default)\<rparr>)"

text \<open>The fields of an event by type, in four groups.\<close>

lemma event_lookup_head:
  "map_of (map tlv_view (event_serialize e)) mf_chat_event_type = Some (i32_image (ce_type e))"
  "map_of (map tlv_view (event_serialize e)) mf_chat_is_channel = Some (bool_image (ce_channel e))"
  "has_sender_aimid (ce_type e) \<Longrightarrow>
     map_of (map tlv_view (event_serialize e)) mf_chat_event_sender_aimid = Some (ce_sender_aimid e)"
  "has_sender_aimid (ce_type e) \<Longrightarrow>
     map_of (map tlv_view (event_serialize e)) mf_chat_event_sender_friendly = Some (ce_sender_friendly e)"
  by (simp_all add: event_serialize_def)

lemmas event_parts = modifications_serialize_def task_change_serialize_def status_reply_serialize_def Let_def

lemma event_lookup_captcha:
  "map_of (map tlv_view (event_serialize e)) mf_chat_event_is_captcha_present =
     (if ce_captcha e then Some (bool_image True) else None)"
  by (simp add: event_serialize_def event_parts)

lemma event_lookup_members:
  assumes "has_mchat_members (ce_type e)"
  shows "map_of (map tlv_view (event_serialize e)) mf_chat_event_mchat_members =
      Some (enc_fields (map tlv_view (numbered (ce_members_friendly e))))"
    and "map_of (map tlv_view (event_serialize e)) mf_chat_event_mchat_members_aimids =
      Some (enc_fields (map tlv_view (numbered (ce_members e))))"
    and "map_of (map tlv_view (event_serialize e)) mf_chat_requested_by = Some (ce_requested_by e)"
    and "map_of (map tlv_view (event_serialize e)) mf_chat_requested_by_friendly = Some (ce_requested_by_friendly e)"
  using assms by (simp_all add: event_serialize_def)

lemmas event_kinds = has_sender_aimid_def has_mchat_members_def has_chat_modifications_def has_generic_text_def

lemma event_lookup_modifications:
  "ce_type e = cet chat_name_modified \<Longrightarrow>
    map_of (map tlv_view (event_serialize e)) mf_chat_event_new_chat_name = Some (ce_new_name e)"
  "ce_type e = cet chat_description_modified \<Longrightarrow>
    map_of (map tlv_view (event_serialize e)) mf_chat_event_new_chat_description = Some (ce_new_description e)"
  "ce_type e = cet chat_rules_modified \<Longrightarrow>
    map_of (map tlv_view (event_serialize e)) mf_chat_event_new_chat_rules = Some (ce_new_rules e)"
  "ce_type e = cet chat_stamp_modified \<Longrightarrow>
    map_of (map tlv_view (event_serialize e)) mf_chat_event_new_chat_stamp = Some (ce_new_stamp e)"
  "ce_type e = cet chat_threads_enabled_modified \<Longrightarrow>
    map_of (map tlv_view (event_serialize e)) mf_chat_event_threads_enabled = Some (bool_image (ce_new_threads_enabled e))"
  by (simp_all add: event_serialize_def event_kinds modifications_serialize_def)

lemma event_lookup_generic:
  "ce_type e = cet generic \<Longrightarrow>
    map_of (map tlv_view (event_serialize e)) mf_chat_event_generic_text = Some (ce_generic e)"
  by (simp add: event_serialize_def event_kinds)

lemma event_lookup_status:
  assumes "ce_type e = cet status_reply \<or> ce_type e = cet custom_status_reply"
  shows "map_of (map tlv_view (event_serialize e)) mf_chat_event_sender_status = Some (ce_sender_status e)"
    "map_of (map tlv_view (event_serialize e)) mf_chat_event_owner_status = Some (ce_owner_status e)"
    "map_of (map tlv_view (event_serialize e)) mf_chat_event_sender_status_desctiprion = Some (ce_sender_status_description e)"
    "map_of (map tlv_view (event_serialize e)) mf_chat_event_owner_status_description = Some (ce_owner_status_description e)"
  using assms by (auto simp: event_serialize_def event_kinds status_reply_serialize_def)

lemma event_lookup_task:
  assumes "ce_type e = cet task_changed"
  shows "map_of (map tlv_view (event_serialize e)) mf_task_title = tc_title (ce_task_change e)"
    "map_of (map tlv_view (event_serialize e)) mf_task_assignee = tc_assignee (ce_task_change e)"
    "map_of (map tlv_view (event_serialize e)) mf_task_end_time =
      map_option (\<lambda>_. i64_image (change_end_time_to_seconds (ce_task_change e))) (tc_end_time (ce_task_change e))"
    "map_of (map tlv_view (event_serialize e)) mf_task_status = map_option status_to_string (tc_status (ce_task_change e))"
    "map_of (map tlv_view (event_serialize e)) mf_chat_event_task_editor = Some (ce_task_editor e)"
  using assms by (auto simp: event_serialize_def event_kinds task_change_serialize_def Let_def)

lemma status_string [simp]: "string_to_status (status_to_string s) = (if s = status_unknown then new_task else s)"
  by (cases s) (simp_all add: string_to_status_def status_to_string_def cstr_def)

subsubsection \<open>The readers of the groups\<close>

lemma event_members_roundtrip:
  assumes "has_mchat_members (ce_type e)" and "fits (event_serialize e)"
    and "ce_members b = []" and "ce_members_friendly b = []"
  shows "members_unserialize (packed (event_serialize e)) b = Some (b\<lparr>ce_members := ce_members e,
     ce_members_friendly := ce_members_friendly e, ce_requested_by := ce_requested_by e,
     ce_requested_by_friendly := ce_requested_by_friendly e\<rparr>)"
proof -
  have "fits (numbered (ce_members_friendly e))" "fits (numbered (ce_members e))"
    using assms(1,2) by (simp_all add: event_serialize_def enc_fields_def)
  then show ?thesis
    using assms(3,4) event_lookup_members [OF assms(1), simplified]
    by (simp add: members_unserialize_def members_roundtrip read_defs)
qed

lemma event_modifications_roundtrip:
  "modifications_unserialize (packed (event_serialize e)) (b\<lparr>ce_type := ce_type e\<rparr>) = Some (b\<lparr>ce_type := ce_type e,
     ce_new_name := (if ce_type e = cet chat_name_modified then ce_new_name e else ce_new_name b),
     ce_new_description := (if ce_type e = cet chat_description_modified then ce_new_description e else ce_new_description b),
     ce_new_rules := (if ce_type e = cet chat_rules_modified then ce_new_rules e else ce_new_rules b),
     ce_new_stamp := (if ce_type e = cet chat_stamp_modified then ce_new_stamp e else ce_new_stamp b),
     ce_new_threads_enabled := (if ce_type e = cet chat_threads_enabled_modified then ce_new_threads_enabled e
       else ce_new_threads_enabled b)\<rparr>)"
  using event_lookup_modifications [of e]
  by (simp add: modifications_unserialize_def)

lemma event_task_roundtrip:
  assumes "ce_type e = cet task_changed" and "good_event e"
  shows "task_change_unserialize (packed (event_serialize e)) (b\<lparr>ce_task_change := change_default\<rparr>) =
    b\<lparr>ce_task_editor := ce_task_editor e, ce_task_change := stored_change (ce_task_change e)\<rparr>"
  using assms(2)
  by (cases "tc_title (ce_task_change e)"; cases "tc_assignee (ce_task_change e)"; cases "tc_end_time (ce_task_change e)";
      cases "tc_status (ce_task_change e)")
    (simp_all add: task_change_unserialize_def event_lookup_task [OF assms(1), simplified] read_defs stored_change_def
      change_default_def good_event_def change_end_time_to_seconds_def)

text \<open>A reader that takes a group of fields when the type has the group, as one update of the members.\<close>

lemma event_roundtrip:
  assumes good: "good_event e" and fit: "fits (event_serialize e)"
  shows "event_unserialize junk (packed (event_serialize e)) = Some (stored_event junk e)"
proof -
  let ?ty = "ce_type e" and ?p = "packed (event_serialize e)"
  define b where "b = (event_blank junk ?ty)\<lparr>ce_channel := ce_channel e, ce_captcha := ce_captcha e\<rparr>"
  define b1 where "b1 = (if has_sender_aimid ?ty then b\<lparr>ce_sender_friendly := ce_sender_friendly e,
    ce_sender_aimid := ce_sender_aimid e\<rparr> else b)"
  define b2 where "b2 = (if has_mchat_members ?ty then b1\<lparr>ce_members := ce_members e,
     ce_members_friendly := ce_members_friendly e, ce_requested_by := ce_requested_by e,
     ce_requested_by_friendly := ce_requested_by_friendly e\<rparr> else b1)"
  define b3 where "b3 = (if has_chat_modifications ?ty then b2\<lparr>ce_new_name := (if ?ty = cet chat_name_modified then ce_new_name e else ce_new_name b2),
     ce_new_description := (if ?ty = cet chat_description_modified then ce_new_description e else ce_new_description b2),
     ce_new_rules := (if ?ty = cet chat_rules_modified then ce_new_rules e else ce_new_rules b2),
     ce_new_stamp := (if ?ty = cet chat_stamp_modified then ce_new_stamp e else ce_new_stamp b2),
     ce_new_threads_enabled := (if ?ty = cet chat_threads_enabled_modified then ce_new_threads_enabled e
       else ce_new_threads_enabled b2)\<rparr> else b2)"
  define b4 where "b4 = (if has_generic_text ?ty then b3\<lparr>ce_generic := ce_generic e\<rparr> else b3)"
  define b5 where "b5 = (if ?ty = cet status_reply \<or> ?ty = cet custom_status_reply
    then b4\<lparr>ce_sender_status := ce_sender_status e, ce_owner_status := ce_owner_status e,
      ce_sender_status_description := ce_sender_status_description e,
      ce_owner_status_description := ce_owner_status_description e\<rparr> else b4)"
  define b6 where "b6 = (if cet task_changed = ?ty
    then b5\<lparr>ce_task_editor := ce_task_editor e, ce_task_change := stored_change (ce_task_change e)\<rparr> else b5)"
  note bs = b6_def b5_def b4_def b3_def b2_def b1_def b_def
  have ty: "ce_type b2 = ?ty" "ce_members b1 = []" "ce_members_friendly b1 = []" "ce_task_change b5 = change_default"
    by (simp_all add: bs event_blank_def)
  have r0: "get_item ?p mf_chat_event_type = Some (mk_tlv mf_chat_event_type (i32_image ?ty))"
    and i: "get_i32 (mk_tlv mf_chat_event_type (i32_image ?ty)) = ?ty"
    using good by (simp_all add: event_lookup_head [simplified] good_event_def)
  have h1: "(case get_item ?p mf_chat_is_channel of None \<Rightarrow> x | Some t \<Rightarrow> x\<lparr>ce_channel := get_bool t\<rparr>) =
      x\<lparr>ce_channel := ce_channel e\<rparr>" for x
    by (simp add: event_lookup_head [simplified])
  have h2: "(case get_item ?p mf_chat_event_is_captcha_present of None \<Rightarrow> False | Some t \<Rightarrow> get_bool t) = ce_captcha e"
    by (simp add: event_lookup_captcha [simplified])
  have h3: "(if has_sender_aimid ?ty
      then b\<lparr>ce_sender_friendly := string_or (ce_sender_friendly b) ?p mf_chat_event_sender_friendly,
             ce_sender_aimid := string_or (ce_sender_aimid b) ?p mf_chat_event_sender_aimid\<rparr> else b) = b1"
    by (simp add: b1_def read_defs event_lookup_head [simplified])
  have h4: "(if has_generic_text ?ty then b3\<lparr>ce_generic := string_or (ce_generic b3) ?p mf_chat_event_generic_text\<rparr>
      else b3) = b4"
    using event_lookup_generic [of e, simplified] by (simp add: b4_def has_generic_text_def read_defs)
  have r2: "(if has_mchat_members ?ty then members_unserialize ?p b1 else Some b1) = Some b2"
    using event_members_roundtrip [OF _ fit ty(2,3)] by (simp add: b2_def)
  have r3: "(if has_chat_modifications ?ty then modifications_unserialize ?p b2 else Some b2) = Some b3"
  proof -
    have same: "b2\<lparr>ce_type := ?ty\<rparr> = b2" using ty(1) by simp
    show ?thesis
    proof (cases "has_chat_modifications ?ty")
      case True
      show ?thesis unfolding b3_def if_P [OF True] using event_modifications_roundtrip [of e b2] unfolding same .
    qed (simp add: b3_def)
  qed
  have r5: "(if ?ty = cet status_reply \<or> ?ty = cet custom_status_reply then status_reply_unserialize ?p b4 else b4) = b5"
    using event_lookup_status [of e, simplified]
    by (simp add: b5_def status_reply_unserialize_def read_defs)
  have r6: "(if cet task_changed = ?ty then task_change_unserialize ?p b5 else b5) = b6"
  proof (cases "cet task_changed = ?ty")
    case True
    have "b5\<lparr>ce_task_change := change_default\<rparr> = b5" using ty(4) by simp
    then show ?thesis
      unfolding b6_def using event_task_roundtrip [OF True [symmetric] good, of b5] True by (simp only: if_True)
  qed (simp add: b6_def)
  have "event_unserialize junk ?p = Some b6"
    by (simp only: event_unserialize_def r0 bind.bind_lunit Let_def i h1 h2 b_def [symmetric] h3 r2 r3 h4 r5 r6)
  moreover have "b6 = stored_event junk e"
    by (rule chat_event_data.equality)
      (simp_all add: bs event_blank_def stored_event_def Let_def has_chat_modifications_def has_generic_text_def)
  ultimately show ?thesis by simp
qed


subsection \<open>Quotes\<close>

text \<open>An optional part is one piece of the list of fields.\<close>

lemma view_serialize_opt [simp]:
  "map tlv_view (serialize_opt f x) = (case x of None \<Rightarrow> [] | Some y \<Rightarrow> map tlv_view (f y))"
  by (simp add: serialize_opt_def split: option.split)

lemma map_of_option_pieces [simp]:
  "map_of ((case x of None \<Rightarrow> [] | Some y \<Rightarrow> f y) @ ys) t = (case x of None \<Rightarrow> map_of ys t | Some y \<Rightarrow> map_of (f y @ ys) t)"
  "map_of (case x of None \<Rightarrow> [] | Some y \<Rightarrow> f y) t = (case x of None \<Rightarrow> None | Some y \<Rightarrow> map_of (f y) t)"
  by (simp_all split: option.split)

lemma fresh_serialize_opt [simp]: 
  "list_all fresh_tlv (serialize_opt f x) = (\<forall>y. x = Some y \<longrightarrow> list_all fresh_tlv (f y))"
  by (simp add: serialize_opt_def split: option.split)

lemma case_option_same [simp]: "(case x of None \<Rightarrow> c | Some y \<Rightarrow> c) = c"
  by (simp split: option.split)

lemma read_contact_packed [part_simps]:
  "read_contact (mk_pack [(mf_shared_contact_name, sc_name c), (mf_shared_contact_phone, sc_phone c),
     (mf_shared_contact_sn, sc_sn c)]) old = Some c"
  by (simp add: read_contact_def part_simps [simplified])

lemma quote_lookup_scalars:
  fixes q :: quote
  defines "fs \<equiv> map tlv_view (quote_serialize q)"
  shows "map_of fs mf_quote_text = (if qu_text q \<noteq> [] then Some (qu_text q) else None)"
    "map_of fs mf_quote_sn = (if qu_sender q \<noteq> [] then Some (qu_sender q) else None)"
    "map_of fs mf_quote_chat_id = (if qu_chat q \<noteq> [] then Some (qu_chat q) else None)"
    "map_of fs mf_quote_time = (if qu_time q \<noteq> -1 then Some (i32_image (qu_time q)) else None)"
    "map_of fs mf_quote_msg_id = (if qu_msg_id q \<noteq> -1 then Some (i64_image (qu_msg_id q)) else None)"
    "map_of fs mf_quote_friendly = (if qu_sender_friendly q \<noteq> [] then Some (qu_sender_friendly q) else None)"
    "map_of fs mf_quote_set_id = (if qu_set_id q \<noteq> -1 then Some (i32_image (qu_set_id q)) else None)"
    "map_of fs mf_quote_sticker_id = (if qu_sticker_id q \<noteq> -1 then Some (i32_image (qu_sticker_id q)) else None)"
    "map_of fs mf_quote_is_forward = Some (bool_image (qu_is_forward q))"
    "map_of fs mf_quote_chat_stamp = (if qu_chat_stamp q \<noteq> [] then Some (qu_chat_stamp q) else None)"
    "map_of fs mf_quote_chat_name = (if qu_chat_name q \<noteq> [] then Some (qu_chat_name q) else None)"
    "map_of fs mf_quote_url = (if qu_url q \<noteq> [] then Some (qu_url q) else None)"
    "map_of fs mf_quote_description = (if qu_description q \<noteq> [] then Some (qu_description q) else None)"
  unfolding fs_def by (simp_all add: quote_serialize_def contact_serialize_def geo_serialize_def poll_serialize_fields
      task_serialize_fields cong: option.case_cong)

lemma quote_lookup_parts:
  fixes q :: quote
  defines "fs \<equiv> map tlv_view (quote_serialize q)"
  shows "map_of fs mf_shared_contact = map_option (\<lambda>c. enc_fields [(mf_shared_contact_name, sc_name c),
       (mf_shared_contact_phone, sc_phone c), (mf_shared_contact_sn, sc_sn c)]) (qu_shared_contact q)"
    "map_of fs mf_geo = map_option (\<lambda>g. enc_fields [(mf_geo_name, geo_name g), (mf_geo_lat, u64_image (geo_lat g)),
       (mf_geo_long, u64_image (geo_long g))]) (qu_geo q)"
    "map_of fs mf_poll = map_option (\<lambda>p. enc_fields (map tlv_view (poll_fields p))) (qu_poll q)"
    "map_of fs mf_task = map_option (\<lambda>t. enc_fields (map tlv_view (task_fields t))) (qu_task q)"
    "map_of fs mf_format = map_option (\<lambda>f. enc_fields (map tlv_view (format_serialize f))) (qu_format q)"
    "map_of fs mf_description_format = map_option (\<lambda>f. enc_fields (map tlv_view (format_serialize f)))
       (qu_description_format q)"
  unfolding fs_def
  by (simp_all add: quote_serialize_def contact_serialize_def geo_serialize_def poll_serialize_fields
      task_serialize_fields cong: option.case_cong)
    (simp_all split: option.split)

definition good_quote :: "quote \<Rightarrow> bool" where
  "good_quote q \<longleftrightarrow> i32_range (qu_time q) \<and> i32_range (qu_set_id q) \<and> i32_range (qu_sticker_id q) \<and>
     i64_range (qu_msg_id q) \<and> pred_option good_formats (qu_format q) \<and>
     pred_option good_formats (qu_description_format q) \<and> pred_option good_task (qu_task q)"

definition stored_quote :: "quote \<Rightarrow> quote" where
  "stored_quote q = q\<lparr>qu_poll := map_option stored_poll (qu_poll q), qu_task := map_option stored_task (qu_task q)\<rparr>"

lemma with_pack_packed:
  "map_of fs ty = map_option (\<lambda>y. enc_fields (g y)) x \<Longrightarrow>
    (\<And>y. x = Some y \<Longrightarrow> length (enc_fields (g y)) < 2 ^ 32 \<Longrightarrow> f (mk_pack (g y)) = Some (h y)) \<Longrightarrow> 
    length (enc_fields fs) < 2 ^ 32 \<Longrightarrow> 
    with_pack (mk_pack fs) ty d f = Some (case x of None \<Rightarrow> d | Some y \<Rightarrow> h y)"
  by (cases x) (force simp: with_pack_def dest!: map_of_SomeD length_value_le)+


lemma case_option_eta: "(case x of None \<Rightarrow> None | Some y \<Rightarrow> Some y) = x"
  by (cases x) simp_all

lemma string_or_written:
  "map_of fs ty = (if v \<noteq> [] then Some v else None) \<Longrightarrow> string_or [] (mk_pack fs) ty = v"
  by (simp add: string_or_def)

lemma i32_or_written:
  "map_of fs ty = (if v \<noteq> d then Some (i32_image v) else None) \<Longrightarrow> i32_range v \<Longrightarrow> i32_or d (mk_pack fs) ty = v"
  by (simp add: i32_or_def)

lemma i64_or_written:
  "map_of fs ty = (if v \<noteq> d then Some (i64_image v) else None) \<Longrightarrow> i64_range v \<Longrightarrow> i64_or d (mk_pack fs) ty = v"
  by (simp add: i64_or_def)

lemma quote_roundtrip:
  assumes good: "good_quote q" and fit: "fits (quote_serialize q)"
  shows "quote_unserialize junk (packed (quote_serialize q)) quote_default = Some (stored_quote q)"
proof -
  let ?p = "packed (quote_serialize q)"
  have strings: "string_or [] ?p mf_quote_text = qu_text q" "string_or [] ?p mf_quote_sn = qu_sender q"
    "string_or [] ?p mf_quote_chat_id = qu_chat q" "string_or [] ?p mf_quote_friendly = qu_sender_friendly q"
    "string_or [] ?p mf_quote_chat_stamp = qu_chat_stamp q" "string_or [] ?p mf_quote_chat_name = qu_chat_name q"
    "string_or [] ?p mf_quote_url = qu_url q" "string_or [] ?p mf_quote_description = qu_description q"
    by (intro string_or_written quote_lookup_scalars)+
  have ranges: "i32_range (qu_time q)" "i32_range (qu_set_id q)" "i32_range (qu_sticker_id q)" "i64_range (qu_msg_id q)"
    using good by (simp_all add: good_quote_def)
  have numbers: "i32_or (-1) ?p mf_quote_time = qu_time q" "i32_or (-1) ?p mf_quote_set_id = qu_set_id q"
    "i32_or (-1) ?p mf_quote_sticker_id = qu_sticker_id q" "i64_or (-1) ?p mf_quote_msg_id = qu_msg_id q"
    by (rule i32_or_written [OF _ ranges(1)] i32_or_written [OF _ ranges(2)] i32_or_written [OF _ ranges(3)]
        i64_or_written [OF _ ranges(4)], rule quote_lookup_scalars)+
  have forward: "bool_or False ?p mf_quote_is_forward = qu_is_forward q"
    using quote_lookup_scalars(9) [of q, simplified] by (simp add: bool_or_def)
  have contact: "with_pack ?p mf_shared_contact None (\<lambda>r. Some (read_contact r None)) = Some (qu_shared_contact q)"
    by (subst with_pack_packed [OF quote_lookup_parts(1) _ fit, where h = Some])
      (simp_all only: part_simps case_option_eta)
  have geo: "with_pack ?p mf_geo None (\<lambda>r. Some (Some (geo_unserialize r (geo_blank junk)))) = Some (qu_geo q)"
    by (subst with_pack_packed [OF quote_lookup_parts(2) _ fit, where h = Some])
      (simp_all only: part_simps case_option_eta)
  have poll: "with_pack ?p mf_poll None (\<lambda>r. Some (Some (poll_unserialize r))) =
      Some (map_option stored_poll (qu_poll q))"
    by (subst with_pack_packed [OF quote_lookup_parts(3) _ fit, where h = "\<lambda>p. Some (stored_poll p)"])
      (simp_all only: poll_roundtrip map_option_case)
  have task: "with_pack ?p mf_task None (\<lambda>r. Some (Some (task_unserialize r))) =
      Some (map_option stored_task (qu_task q))"
    using good
    by (subst with_pack_packed [OF quote_lookup_parts(4) _ fit, where h = "\<lambda>p. Some (stored_task p)"])
      (simp_all only: task_roundtrip map_option_case good_quote_def option.pred_inject)
  have format: "with_pack ?p mf_format None (\<lambda>r. map_option Some (format_unserialize r)) = Some (qu_format q)"
    using good
    by (subst with_pack_packed [OF quote_lookup_parts(5) _ fit, where h = Some])
      (simp_all only: format_roundtrip case_option_eta good_quote_def option.pred_inject option.map)
  have dformat: "with_pack ?p mf_description_format None (\<lambda>r. map_option Some (format_unserialize r)) =
      Some (qu_description_format q)"
    using good
    by (subst with_pack_packed [OF quote_lookup_parts(6) _ fit, where h = Some])
      (simp_all only: format_roundtrip case_option_eta good_quote_def option.pred_inject option.map)
  show ?thesis
    by (simp only: quote_unserialize_def quote_default_def Let_def quote.simps strings numbers forward
        contact geo poll task format dformat bind.bind_lunit)
      (simp add: stored_quote_def)
qed

end
