(* ===== verification/Message_Store.thy ===== *)
theory Message_Store
  imports Message_Roundtrip
begin

text \<open>
  Storing and reading a whole message. \<open>reads\<close> follows the reader's loop over the fields of the
  pieces the writer appends; \<open>good_message\<close> is what the writer relies on, \<open>stored_message\<close> the message
  that comes back. Then the searches on the bytes of a stored message, storing twice, and what
  modifications, assignment and merging do to a message.
\<close>

subsection \<open>The fields of a message, one after another\<close>

text \<open>The fields as they come out of a pack, and the state after reading some of them.\<close>

definition wire :: "tlv list \<Rightarrow> tlv list" where
  "wire ts = map (\<lambda>(ty, bs). mk_tlv ty bs) (map tlv_view ts)"

definition reads :: "reader \<Rightarrow> tlv list \<Rightarrow> history_message \<times> cstring \<Rightarrow> history_message \<times> cstring \<Rightarrow> bool" where
  "reads rd ts x y \<longleftrightarrow>
     (\<forall>us. read_fields rd (wire ts @ us) (fst x) (snd x) = read_fields rd us (fst y) (snd y))"

lemma wire_simps [simp]: "wire [] = []" "wire (t # ts) = (case tlv_view t of (ty, bs) \<Rightarrow> mk_tlv ty bs) # wire ts"
  "wire (ts @ us) = wire ts @ wire us"
  by (simp_all add: wire_def)

lemma reads_nil [simp]: "reads rd [] x y \<longleftrightarrow> x = y" if "x = y"
  using that by (simp add: reads_def)

lemma reads_append: "reads rd ts x y \<Longrightarrow> reads rd us y z \<Longrightarrow> reads rd (ts @ us) x z"
  by (simp add: reads_def)

lemma reads_one:
  "read_field rd (mk_tlv ty bs) m a = Some (Continue m' a') \<Longrightarrow> reads rd [mk_tlv ty bs] (m, a) (m', a')"
  by (simp add: reads_def)

lemma reads_all: "reads rd ts (m, a) (m', a') \<Longrightarrow> read_fields rd (wire ts) m a = Some (0, m', a')"
  unfolding reads_def by (drule spec [of _ "[]"]) simp

lemma reads_opt:
  "(b \<Longrightarrow> reads rd [t] x y) \<Longrightarrow> (\<not> b \<Longrightarrow> x = y) \<Longrightarrow> reads rd (opt b t) x y"
  by (simp add: opt_def)

lemma reads_serialize_opt:
  "(\<And>v. x = Some v \<Longrightarrow> reads rd (f v) s t) \<Longrightarrow> (x = None \<Longrightarrow> s = t) \<Longrightarrow> reads rd (serialize_opt f x) s t"
  by (cases x) (simp_all add: serialize_opt_def)

lemma reads_nested:
  assumes "list_all fresh_tlv ts" and "fits [mk_tlv_pack ty (pack_of ts)]"
    and "fits ts \<Longrightarrow> read_field rd (mk_tlv ty (enc_fields (map tlv_view ts))) m a = Some (Continue m' a')"
  shows "reads rd [mk_tlv_pack ty (pack_of ts)] (m, a) (m', a')"
proof -
  have "fits ts" using assms(1,2) by simp
  then show ?thesis using assms(1,3) by (simp add: reads_def)
qed

lemma reads_opt_nested:
  assumes "fits (serialize_opt (\<lambda>v. [mk_tlv_pack ty (pack_of (f v))]) x)"
    and "\<And>v. list_all fresh_tlv (f v)"
    and "\<And>v. x = Some v \<Longrightarrow> fits (f v) \<Longrightarrow>
      read_field rd (mk_tlv ty (enc_fields (map tlv_view (f v)))) m a = Some (Continue (g v) a)"
    and "x = None \<Longrightarrow> m = m'" and "\<And>v. x = Some v \<Longrightarrow> g v = m'"
  shows "reads rd (serialize_opt (\<lambda>v. [mk_tlv_pack ty (pack_of (f v))]) x) (m, a) (m', a)"
  using assms by (cases x) (auto simp: serialize_opt_def intro!: reads_nested)

lemma reads_thread:
  "hm_thread_id m = [] \<Longrightarrow> reads rd (opt (v \<noteq> []) (mk_tlv mf_thread_id v)) (m, a) (m\<lparr>hm_thread_id := v\<rparr>, a)"
  by (intro reads_opt reads_one) (simp_all add: read_field_def)

lemma reads_format:
  assumes "pred_option good_formats x" "hm_format m = None"
    and "fits (serialize_opt (\<lambda>f. [mk_tlv_pack mf_format (pack_of (format_serialize f))]) x)"
  shows "reads rd (serialize_opt (\<lambda>f. [mk_tlv_pack mf_format (pack_of (format_serialize f))]) x) (m, a)
    (m\<lparr>hm_format := x\<rparr>, a)"
  using assms(1,2) by (intro reads_opt_nested [OF assms(3)]) (simp_all add: read_field_def format_roundtrip)

lemma reads_description_format:
  assumes "pred_option good_formats x" "hm_description_format m = None"
    and "fits (serialize_opt (\<lambda>f. [mk_tlv_pack mf_description_format (pack_of (format_serialize f))]) x)"
  shows "reads rd (serialize_opt (\<lambda>f. [mk_tlv_pack mf_description_format (pack_of (format_serialize f))]) x) (m, a)
    (m\<lparr>hm_description_format := x\<rparr>, a)"
  using assms(1,2) by (intro reads_opt_nested [OF assms(3)]) (simp_all add: read_field_def format_roundtrip)

lemma reads_chat:
  assumes "hm_chat m = None" and "fits (serialize_opt (\<lambda>c. [mk_tlv_pack mf_chat (pack_of (chat_serialize junk c))]) x)"
  shows "reads rd (serialize_opt (\<lambda>c. [mk_tlv_pack mf_chat (pack_of (chat_serialize junk c))]) x) (m, a)
    (m\<lparr>hm_chat := map_option (stored_chat junk) x\<rparr>, a)"
  using assms(1) by (intro reads_opt_nested [OF assms(2)]) (simp_all add: read_field_def chat_roundtrip)

lemma reads_sticker:
  assumes "hm_sticker m = None" and "fits (serialize_opt (\<lambda>s. [mk_tlv_pack mf_sticker (pack_of (sticker_serialize s))]) x)"
  shows "reads rd (serialize_opt (\<lambda>s. [mk_tlv_pack mf_sticker (pack_of (sticker_serialize s))]) x) (m, a) (m\<lparr>hm_sticker := x\<rparr>, a)"
  using assms(1) by (intro reads_opt_nested [OF assms(2)]) (simp_all add: read_field_def sticker_roundtrip)

lemma reads_mult:
  assumes "\<not> hm_mult m"
  shows "reads rd (opt b (mk_tlv_pack mf_mult empty_pack)) (m, a) (m\<lparr>hm_mult := b\<rparr>, a)"
proof -
  have "empty_pack = pack_of []" by (simp add: empty_pack_def pack_of_def push_all_def)
  then show ?thesis
    using assms by (intro reads_opt) (simp_all add: reads_def read_field_def get_pack_fits [of "[]", simplified])
qed

lemma reads_voip:
  assumes "pred_option good_voip x" "hm_voip m = None"
    and "fits (serialize_opt (\<lambda>v. [mk_tlv_pack mf_voip (pack_of (voip_serialize v))]) x)"
  shows "reads rd (serialize_opt (\<lambda>v. [mk_tlv_pack mf_voip (pack_of (voip_serialize v))]) x) (m, a)
    (m\<lparr>hm_voip := Option.bind x stored_voip\<rparr>, a)"
proof (rule reads_opt_nested [OF assms(3)])
  fix v assume "x = Some v" "fits (voip_serialize v)"
  with assms(1) obtain ok w where "voip_unserialize (packed (voip_serialize v)) voip_default = Some (ok, w)"
    "(if ok then Some w else None) = stored_voip v"
    using voip_roundtrip [of v] by auto
  then show "read_field rd (mk_tlv mf_voip (enc_fields (map tlv_view (voip_serialize v)))) m a =
      Some (Continue (m\<lparr>hm_voip := stored_voip v\<rparr>) a)"
    using \<open>fits (voip_serialize v)\<close> by (simp add: read_field_def)
qed (use assms(2) in simp_all)

lemma reads_file_sharing:
  assumes "pred_option good_file_sharing x" "hm_file_sharing m = None"
    and "fits (serialize_opt (\<lambda>f. [mk_tlv_pack mf_file_sharing (pack_of (file_sharing_serialize f))]) x)"
  shows "reads rd (serialize_opt (\<lambda>f. [mk_tlv_pack mf_file_sharing (pack_of (file_sharing_serialize f))]) x) (m, a)
    (m\<lparr>hm_file_sharing := map_option stored_file_sharing x\<rparr>, a)"
  using assms(1,2) by (intro reads_opt_nested [OF assms(3)]) (simp_all add: read_field_def file_sharing_roundtrip)

lemma reads_chat_event:
  assumes "pred_option good_event x" "hm_chat_event m = None"
    and "fits (serialize_opt (\<lambda>e. [mk_tlv_pack mf_chat_event (pack_of (event_serialize e))]) x)"
  shows "reads rd (serialize_opt (\<lambda>e. [mk_tlv_pack mf_chat_event (pack_of (event_serialize e))]) x) (m, a)
    (m\<lparr>hm_chat_event := map_option (stored_event (rd_junk rd)) x\<rparr>, a)"
  using assms(1,2) by (intro reads_opt_nested [OF assms(3)]) (simp_all add: read_field_def event_roundtrip)

lemma reads_quotes:
  assumes "list_all good_quote qs" and "fits (map (\<lambda>q. mk_tlv_pack mf_quote (pack_of (quote_serialize q))) qs)"
    and "\<And>q. list_all fresh_tlv (quote_serialize q)"
  shows "reads rd (map (\<lambda>q. mk_tlv_pack mf_quote (pack_of (quote_serialize q))) qs) (m, a)
    (m\<lparr>hm_quotes := hm_quotes m @ map stored_quote qs\<rparr>, a)"
  using assms(1,2)
proof (induction qs arbitrary: m)
  case (Cons q qs)
  have "reads rd [mk_tlv_pack mf_quote (pack_of (quote_serialize q))] (m, a) (m\<lparr>hm_quotes := hm_quotes m @ [stored_quote q]\<rparr>, a)"
    using Cons.prems assms(3) by (intro reads_nested) (simp_all add: read_field_def quote_roundtrip)
  moreover have "reads rd (map (\<lambda>q. mk_tlv_pack mf_quote (pack_of (quote_serialize q))) qs)
      (m\<lparr>hm_quotes := hm_quotes m @ [stored_quote q]\<rparr>, a) (m\<lparr>hm_quotes := hm_quotes m @ map stored_quote (q # qs)\<rparr>, a)"
    using Cons.IH [of "m\<lparr>hm_quotes := hm_quotes m @ [stored_quote q]\<rparr>"] Cons.prems by simp
  ultimately show ?case using reads_append by fastforce
qed simp

lemma fresh_quote [simp]: "list_all fresh_tlv (quote_serialize q)"
  by (simp add: quote_serialize_def poll_serialize_fields task_serialize_fields contact_serialize_def geo_serialize_def)

lemma reads_mentions:
  assumes "om_ok (hm_mentions m @ ns)" and "\<forall>n\<in>set ns. fst n \<noteq> [] \<and> snd n \<noteq> []"
    and "fits (concat (map mention_serialize ns))"
  shows "reads rd (concat (map mention_serialize ns)) (m, a) (m\<lparr>hm_mentions := hm_mentions m @ ns\<rparr>, a)"
  using assms
proof (induction ns arbitrary: m)
  case (Cons n ns)
  have e: "om_emplace (fst n) (snd n) (hm_mentions m) = hm_mentions m @ [n]"
    using om_emplace_last [of "hm_mentions m" "fst n" "snd n"] Cons.prems(1) by (simp add: om_ok_append)
  have f: "fits [mk_tlv_pack mf_mention (pack_of [mk_tlv mf_mention_sn (fst n), mk_tlv mf_mention_friendly (snd n)])]"
    using Cons.prems(3) by (simp add: mention_serialize_def)
  have "reads rd (mention_serialize n) (m, a) (m\<lparr>hm_mentions := hm_mentions m @ [n]\<rparr>, a)"
    unfolding mention_serialize_def
    using Cons.prems(2) by (intro reads_nested [OF _ f]) (simp_all add: read_field_def read_mention_def e del: enc_fields_simps)
  moreover have "reads rd (concat (map mention_serialize ns))
      (m\<lparr>hm_mentions := hm_mentions m @ [n]\<rparr>, a) (m\<lparr>hm_mentions := hm_mentions m @ n # ns\<rparr>, a)"
    using Cons.IH [of "m\<lparr>hm_mentions := hm_mentions m @ [n]\<rparr>"] Cons.prems by simp
  ultimately show ?case using reads_append by fastforce
qed simp

lemma reads_snippets:
  assumes "list_all good_snippet ss" and "fits (map (\<lambda>s. mk_tlv_pack mf_snippet (pack_of (snippet_serialize s))) ss)"
  shows "reads rd (map (\<lambda>s. mk_tlv_pack mf_snippet (pack_of (snippet_serialize s))) ss) (m, a)
    (m\<lparr>hm_snippets := hm_snippets m @ ss\<rparr>, a)"
  using assms
proof (induction ss arbitrary: m)
  case (Cons s ss)
  have "reads rd [mk_tlv_pack mf_snippet (pack_of (snippet_serialize s))] (m, a) (m\<lparr>hm_snippets := hm_snippets m @ [s]\<rparr>, a)"
    using Cons.prems by (intro reads_nested) (simp_all add: read_field_def snippet_roundtrip)
  moreover have "reads rd (map (\<lambda>s. mk_tlv_pack mf_snippet (pack_of (snippet_serialize s))) ss)
      (m\<lparr>hm_snippets := hm_snippets m @ [s]\<rparr>, a) (m\<lparr>hm_snippets := hm_snippets m @ s # ss\<rparr>, a)"
    using Cons.IH [of "m\<lparr>hm_snippets := hm_snippets m @ [s]\<rparr>"] Cons.prems by simp
  ultimately show ?case using reads_append by fastforce
qed simp

lemma reads_contact:
  assumes "hm_shared_contact m = None" and "fits (serialize_opt contact_serialize x)"
  shows "reads rd (serialize_opt contact_serialize x) (m, a) (m\<lparr>hm_shared_contact := x\<rparr>, a)"
  using assms(1) assms(2) unfolding contact_serialize_def [abs_def]
  by (intro reads_opt_nested) (simp_all add: read_field_def read_contact_packed [simplified] del: enc_fields_simps)

lemma reads_geo:
  assumes "hm_geo m = None" and "fits (serialize_opt geo_serialize x)"
  shows "reads rd (serialize_opt geo_serialize x) (m, a) (m\<lparr>hm_geo := x\<rparr>, a)"
  using assms(1) assms(2) unfolding geo_serialize_def [abs_def]
  by (intro reads_opt_nested) (simp_all add: read_field_def geo_roundtrip [simplified] del: enc_fields_simps)

lemma reads_poll:
  assumes "hm_poll m = None" and "fits (serialize_opt poll_serialize x)"
  shows "reads rd (serialize_opt poll_serialize x) (m, a) (m\<lparr>hm_poll := map_option stored_poll x\<rparr>, a)"
  using assms(1) assms(2) unfolding poll_serialize_fields [abs_def]
  by (intro reads_opt_nested) (simp_all add: read_field_def poll_roundtrip)

lemma reads_task:
  assumes "pred_option good_task x" "hm_task m = None" and "fits (serialize_opt task_serialize x)"
  shows "reads rd (serialize_opt task_serialize x) (m, a) (m\<lparr>hm_task := map_option stored_task x\<rparr>, a)"
  using assms unfolding task_serialize_fields [abs_def]
  by (intro reads_opt_nested) (simp_all add: read_field_def task_roundtrip)

text \<open>Reading a pack consumes the field, so the JSON text that the next case reads is empty.\<close>

lemma get_pack_io_fits:
  assumes "length (enc_fields fs) < 2 ^ 32"
  shows "\<exists>t'. get_pack_io (mk_tlv ty (enc_fields fs)) = Some (mk_pack fs, t') \<and> get_string t' = []"
proof -
  obtain s' where s': "pack_unserialize empty_pack (tlv_value (mk_tlv ty (enc_fields fs))) = Some (True, mk_pack fs, s')"
    "wf_stream s'" "pending s' = []"
    using pack_unserialize_enc [of "tlv_value (mk_tlv ty (enc_fields fs))" fs] fits_good [OF assms]
    by (auto simp: mk_tlv_value)
  show ?thesis
    using s' by (intro exI [of _ "(mk_tlv ty (enc_fields fs))\<lparr>tlv_value := s'\<rparr>"])
      (simp add: get_pack_io_def copy_pack_def mk_pack_def empty_pack_def get_string_def get_string_io_def
        available_pending Let_def)
qed

lemma reads_reactions:
  assumes "hm_reactions m = None" "hm_json m = [] \<or> hm_sender_aimid m = []" and "fits (serialize_opt reactions_serialize x)"
  shows "reads rd (serialize_opt reactions_serialize x) (m, a)
    (m\<lparr>hm_reactions := map_option (\<lambda>r. \<lparr>mr_exist = mr_exist r, mr_data = None\<rparr>) x,
       hm_json := (if x = None then hm_json m else [])\<rparr>, a)"
proof (cases x)
  case (Some r)
  obtain t' where t': "get_pack_io (mk_tlv mf_reactions (enc_fields [(mf_reactions_exist, bool_image (mr_exist r))])) =
      Some (mk_pack [(mf_reactions_exist, bool_image (mr_exist r))], t')" "get_string t' = []"
    using get_pack_io_fits [of "[(mf_reactions_exist, bool_image (mr_exist r))]" mf_reactions] by auto
  have "read_field rd (mk_tlv mf_reactions (enc_fields [(mf_reactions_exist, bool_image (mr_exist r))])) m a =
      Some (Continue (m\<lparr>hm_reactions := Some \<lparr>mr_exist = mr_exist r, mr_data = None\<rparr>, hm_json := []\<rparr>) a)"
    using t' by (simp add: read_field_def read_reactions_def reactions_roundtrip [simplified] maybe_parse_def)
  then show ?thesis
    using Some by (simp add: serialize_opt_def reads_def reactions_serialize_def)
qed (use assms in \<open>simp add: serialize_opt_def\<close>)

text \<open>
  What the writer relies on: numbers in the ranges of their types, and of the JSON text and the
  sender's id at most one. The mentions are a map; the reader skips empty names.
\<close>

definition good_message :: "history_message \<Rightarrow> bool" where
  "good_message m \<longleftrightarrow>
     i64_range (hm_msgid m) \<and> i64_range (hm_prev m) \<and> i64_range (hm_time m) \<and> i32_range (pv_offline (hm_patch m)) \<and>
     pred_option good_formats (hm_format m) \<and> pred_option good_formats (hm_description_format m) \<and>
     pred_option good_voip (hm_voip m) \<and> pred_option good_file_sharing (hm_file_sharing m) \<and>
     pred_option good_event (hm_chat_event m) \<and> pred_option good_task (hm_task m) \<and>
     list_all good_quote (hm_quotes m) \<and> list_all good_snippet (hm_snippets m) \<and>
     om_ok (hm_mentions m) \<and> list_all (\<lambda>n. fst n \<noteq> [] \<and> snd n \<noteq> []) (hm_mentions m)"

text \<open>
  The message that comes back. The place in the file, the data of the reactions and the mark of an unsupported message are not
  stored; reactions take the JSON text away; the buttons come from their own text.
\<close>

definition stored_message :: "junk \<Rightarrow> reader \<Rightarrow> history_message \<Rightarrow> history_message" where
  "stored_message junk rd m = m\<lparr>
     hm_data_offset := -1, hm_data_size := 0, hm_unsupported := False,
     hm_chat := map_option (stored_chat junk) (hm_chat m),
     hm_voip := Option.bind (hm_voip m) stored_voip,
     hm_file_sharing := map_option stored_file_sharing (hm_file_sharing m),
     hm_chat_event := map_option (stored_event (rd_junk rd)) (hm_chat_event m),
     hm_quotes := map stored_quote (hm_quotes m),
     hm_poll := map_option stored_poll (hm_poll m),
     hm_task := map_option stored_task (hm_task m),
     hm_json := (if hm_reactions m = None then hm_json m else []),
     hm_reactions := map_option (\<lambda>r. \<lparr>mr_exist = mr_exist r, mr_data = None\<rparr>) (hm_reactions m),
     hm_buttons := rd_buttons rd (hm_buttons_json m)\<rparr>"

text \<open>The state after the fields up to the JSON text.\<close>

definition head_of :: "history_message \<Rightarrow> history_message" where
  "head_of m = init_default\<lparr>hm_text := hm_text m, hm_msgid := hm_msgid m, hm_prev := hm_prev m,
     hm_flags := hm_flags m, hm_time := hm_time m, hm_internal_id := hm_internal_id m,
     hm_sender_friendly := hm_sender_friendly m, hm_patch := hm_patch m,
     hm_description := hm_description m, hm_url := hm_url m, hm_json := hm_json m\<rparr>"

lemma head_of_blank [simp]:
  "hm_thread_id (head_of m) = []" "hm_format (head_of m) = None" "hm_chat (head_of m) = None"
  "hm_sticker (head_of m) = None" "\<not> hm_mult (head_of m)" "hm_voip (head_of m) = None"
  "hm_file_sharing (head_of m) = None" "hm_chat_event (head_of m) = None" "hm_quotes (head_of m) = []"
  "hm_mentions (head_of m) = []" "hm_snippets (head_of m) = []" "hm_shared_contact (head_of m) = None"
  "hm_geo (head_of m) = None" "hm_poll (head_of m) = None" "hm_task (head_of m) = None"
  "hm_reactions (head_of m) = None" "hm_description_format (head_of m) = None" "hm_json (head_of m) = hm_json m"
  by (simp_all add: head_of_def init_default_def)

lemma sint_of_i64 [simp]: "i64_range i \<Longrightarrow> sint (word_of_int i :: u64) = i"
  by (simp add: i64_range_def signed_take_bit_int_eq_self sint_sbintrunc')

lemma get_i64_or_image [simp]: "i64_range i \<Longrightarrow> get_i64_or d (mk_tlv ty (i64_image i)) = i"
  by (simp add: get_i64_or_def get_scalar_mk_tlv overwrite_def)

lemma patch_version_surj [simp]: "\<lparr>pv_string = pv_string p, pv_offline = pv_offline p\<rparr> = p"
  by (cases p) simp

lemma reads_head:
  assumes "good_message m"
  shows "reads rd [mk_tlv mf_text (hm_text m), mk_tlv mf_msg_id (i64_image (hm_msgid m)),
    mk_tlv mf_prev_msg_id (i64_image (hm_prev m)), mk_tlv mf_flags (u32_image (hm_flags m)),
    mk_tlv mf_time (u64_image (word_of_int (hm_time m))), mk_tlv mf_internal_id (hm_internal_id m),
    mk_tlv mf_sender_friendly (hm_sender_friendly m), mk_tlv mf_update_patch_version (pv_string (hm_patch m)),
    mk_tlv mf_offline_version (i32_image (pv_offline (hm_patch m))),
    mk_tlv mf_description (hm_description m), mk_tlv mf_url (hm_url m), mk_tlv mf_json (hm_json m)]
    (init_default, a) (head_of m, a)"
  using assms
  by (simp add: reads_def read_field_def good_message_def maybe_parse_def init_default_def pv_default_def)
    (simp add: head_of_def init_default_def)

lemma reads_head_end:
  assumes "hm_json m = [] \<or> hm_sender_aimid m = []"
  shows "reads rd [mk_tlv mf_sender_aimid (hm_sender_aimid m), mk_tlv mf_buttons (hm_buttons_json m),
      mk_tlv mf_hide_edit (bool_image (hm_hide_edit m))] (head_of m, a)
    ((head_of m)\<lparr>hm_sender_aimid := hm_sender_aimid m, hm_buttons_json := hm_buttons_json m,
       hm_buttons := rd_buttons rd (hm_buttons_json m), hm_hide_edit := hm_hide_edit m\<rparr>, a)"
  using assms by (auto simp add: reads_def read_field_def maybe_parse_def head_of_def init_default_def)


lemma good_message_parts:
  assumes "good_message m"
  shows "pred_option good_formats (hm_format m)" "pred_option good_formats (hm_description_format m)"
    "pred_option good_voip (hm_voip m)" "pred_option good_file_sharing (hm_file_sharing m)"
    "pred_option good_event (hm_chat_event m)" "pred_option good_task (hm_task m)"
    "list_all good_quote (hm_quotes m)" "list_all good_snippet (hm_snippets m)"
    "om_ok (hm_mentions m)" "\<forall>n\<in>set (hm_mentions m). fst n \<noteq> [] \<and> snd n \<noteq> []"
  using assms by (simp_all add: good_message_def list_all_iff)

lemma reads_aimid: "reads rd [mk_tlv mf_call_aimid v] (m, a) (m, v)"
  by (intro reads_one) (simp add: read_field_def)

lemma reads_trans: "reads rd ts x y \<Longrightarrow> y = z \<Longrightarrow> reads rd ts x z"
  by simp

lemma reads_message:
  assumes good: "good_message m" and fit: "fits (message_fields junk m aimid)"
    and one: "hm_json m = [] \<or> hm_sender_aimid m = []"
  shows "reads rd (message_fields junk m aimid) (init_default, a) (stored_message junk rd m, aimid)"
proof -
  let ?s = "(head_of m)\<lparr>hm_sender_aimid := hm_sender_aimid m, hm_buttons_json := hm_buttons_json m,
       hm_buttons := rd_buttons rd (hm_buttons_json m), hm_hide_edit := hm_hide_edit m\<rparr>"
  note start = reads_append [OF reads_head [OF good] reads_head_end [OF one], of rd a, simplified append_Cons append_Nil]
  have "fits (opt (hm_thread_id m \<noteq> []) (mk_tlv mf_thread_id (hm_thread_id m)))"
    and f: "fits (serialize_opt (\<lambda>f. [mk_tlv_pack mf_format (pack_of (format_serialize f))]) (hm_format m))"
      "fits (serialize_opt (\<lambda>c. [mk_tlv_pack mf_chat (pack_of (chat_serialize junk c))]) (hm_chat m))"
      "fits (serialize_opt (\<lambda>s. [mk_tlv_pack mf_sticker (pack_of (sticker_serialize s))]) (hm_sticker m))"
      "fits (serialize_opt (\<lambda>v. [mk_tlv_pack mf_voip (pack_of (voip_serialize v))]) (hm_voip m))"
      "fits (serialize_opt (\<lambda>f. [mk_tlv_pack mf_file_sharing (pack_of (file_sharing_serialize f))]) (hm_file_sharing m))"
      "fits (serialize_opt (\<lambda>e. [mk_tlv_pack mf_chat_event (pack_of (event_serialize e))]) (hm_chat_event m))"
      "fits (map (\<lambda>q. mk_tlv_pack mf_quote (pack_of (quote_serialize q))) (hm_quotes m))"
      "fits (concat (map mention_serialize (hm_mentions m)))"
      "fits (map (\<lambda>s. mk_tlv_pack mf_snippet (pack_of (snippet_serialize s))) (hm_snippets m))"
      "fits (serialize_opt contact_serialize (hm_shared_contact m))"
      "fits (serialize_opt geo_serialize (hm_geo m))"
      "fits (serialize_opt poll_serialize (hm_poll m))"
      "fits (serialize_opt task_serialize (hm_task m))"
      "fits (serialize_opt reactions_serialize (hm_reactions m))"
      "fits (serialize_opt (\<lambda>f. [mk_tlv_pack mf_description_format (pack_of (format_serialize f))]) (hm_description_format m))"
    using fit unfolding message_fields_def map_append enc_fields_simps(3) length_append by linarith+
  note parts = good_message_parts [OF good]
  note pieces = reads_thread reads_format [OF parts(1) _ f(1)] reads_chat [OF _ f(2)] reads_sticker [OF _ f(3)]
    reads_mult reads_voip [OF parts(3) _ f(4)] reads_file_sharing [OF parts(4) _ f(5)]
    reads_chat_event [OF parts(5) _ f(6)] reads_quotes [OF parts(7) f(7) fresh_quote]
    reads_mentions [OF _ parts(10) f(8)] reads_snippets [OF parts(8) f(9)] reads_contact [OF _ f(10)]
    reads_geo [OF _ f(11)] reads_poll [OF _ f(12)] reads_task [OF parts(6) _ f(13)]
    reads_reactions [OF _ _ f(14)] reads_aimid reads_description_format [OF parts(2) _ f(15)]
  show ?thesis
    unfolding message_fields_def
    by (rule reads_trans, (rule start reads_append pieces | (use one in \<open>simp add: parts(9)\<close>; fail))+)
      (auto intro!: history_message.equality simp: stored_message_def head_of_def init_default_def)
qed

lemma unserialize_fields:
  assumes "pending s = []" "wf_stream s" and fit: "fits ts" and fresh: "list_all fresh_tlv ts"
  shows "\<exists>s'. unserialize_call rd (pack_serialize (pack_of ts) s) m a =
      map_option (\<lambda>(code, m', a'). (code, m', a', s')) (read_fields rd (wire ts) m a) \<and> pending s' = []"
proof -
  let ?s = "pack_serialize (pack_of ts) s"
  have "wf_stream ?s" and "pending ?s = enc_fields (map tlv_view ts)"
    using assms by (simp_all add: pending_pack_serialize wf_pack_serialize)
  then obtain s' where "pack_unserialize empty_pack ?s = Some (True, mk_pack (map tlv_view ts), s')" "pending s' = []"
    using pack_unserialize_enc [OF _ fits_good [OF fit]] by blast
  then show ?thesis
    by (cases "read_fields rd (wire ts) m a") (auto simp: unserialize_call_def wire_def)
qed

lemma fresh_all [simp]:
  "list_all P (concat xss) = list_all (list_all P) xss" "list_all (\<lambda>_. True) xs"
  by (induction xss) (auto simp: list_all_iff)

lemma fresh_message [simp]: "list_all fresh_tlv (message_fields junk m aimid)"
  by (simp add: message_fields_def poll_serialize_fields task_serialize_fields contact_serialize_def geo_serialize_def
      reactions_serialize_def mention_serialize_def list.pred_map comp_def)

lemma reads_early:
  assumes "good_message m" and "hm_json m \<noteq> []" and "hm_sender_aimid m \<noteq> []"
  shows "\<exists>code m'. read_fields rd (wire (message_fields junk m aimid)) init_default a = Some (code, m', a) \<and>
    (code, m') = rd_parse rd (hm_json m) (hm_sender_aimid m) ((head_of m)\<lparr>hm_sender_aimid := hm_sender_aimid m\<rparr>)"
proof -
  have r: "read_fields rd (wire (mk_tlv mf_sender_aimid (hm_sender_aimid m) # ts)) (head_of m) a =
      (case rd_parse rd (hm_json m) (hm_sender_aimid m) ((head_of m)\<lparr>hm_sender_aimid := hm_sender_aimid m\<rparr>) of
         (code, m') \<Rightarrow> Some (code, m', a))" for ts
    using assms(2,3) by (simp add: read_field_def maybe_parse_def split: prod.split)
  define ts where "ts = drop 13 (message_fields junk m aimid)"
  define hs where "hs = take 12 (message_fields junk m aimid)"
  have "message_fields junk m aimid = hs @ mk_tlv mf_sender_aimid (hm_sender_aimid m) # ts"
    by (simp add: ts_def hs_def message_fields_def)
  moreover have "reads rd hs (init_default, a) (head_of m, a)"
    using reads_head [OF assms(1)] by (simp add: hs_def message_fields_def)
  ultimately show ?thesis
    using r [of ts] unfolding reads_def by (simp split: prod.splits)
qed

lemma message_reads_back:
  assumes "good_message m" and "fits (message_fields junk m aimid)" and "hm_json m = [] \<or> hm_sender_aimid m = []"
    and "wf_stream s" and "pending s = []"
  shows "\<exists>s'. unserialize_call rd (serialize_call junk m aimid s) init_default a =
      Some (0, stored_message junk rd m, aimid, s') \<and> pending s' = []"
  using unserialize_fields [OF assms(5,4,2) fresh_message, of rd init_default a]
    reads_all [OF reads_message [OF assms(1-3), of rd a]]
  by (simp add: serialize_call_def)


text \<open>C4: A message is read back as \<open>stored_message\<close> says, with every part it has: numbers, texts,
  formats, quotes with their polls and tasks, mentions, previews, events, calls. The id of the caller
  comes back with it, and the whole stream is consumed.\<close>

theorem message_roundtrip:
  assumes "good_message m" and "fits (message_fields junk m aimid)" and "hm_json m = [] \<or> hm_sender_aimid m = []"
    and "wf_stream s" and "pending s = []"
  shows "\<exists>s'. unserialize_call rd (serialize_call junk m aimid s) init_default a =
      Some (0, stored_message junk rd m, aimid, s') \<and> pending s' = []"
  using assms by (rule message_reads_back)

text \<open>A message that holds both its JSON text and its sender's id is not decoded from its fields:
  the reader stops at the second of the two and gives both to the JSON reader, with a message in
  which only the fields before them are set. The code and the message are the JSON reader's, and the
  id of the caller is not read.\<close>

theorem json_message_is_parsed_again:
  assumes "good_message m" and "fits (message_fields junk m aimid)" and "hm_json m \<noteq> []" and "hm_sender_aimid m \<noteq> []"
    and "wf_stream s" and "pending s = []"
  shows "\<exists>code m' s'. unserialize_call rd (serialize_call junk m aimid s) init_default a = Some (code, m', a, s') \<and>
    (code, m') = rd_parse rd (hm_json m) (hm_sender_aimid m) ((head_of m)\<lparr>hm_sender_aimid := hm_sender_aimid m\<rparr>)"
  using unserialize_fields [OF assms(6,5,2) fresh_message, of rd init_default a] reads_early [OF assms(1,3,4), of rd junk aimid a]
  by (auto simp: serialize_call_def)

text \<open>The searches stand on the first field of the type that has a value.\<close>

lemma try_get_field_enc:
  assumes wf: "wf_stream s" and good: "length bs < 2 ^ 32" and pend: "pending s = enc_field (t, bs) @ r"
  shows "\<exists>s'. try_get_field_with_type ty s = Some (True, if t = ty then word_of_nat (length bs) else 0, s') \<and>
    wf_stream s' \<and> pending s' = (if t = ty then bs @ r else r)"
proof -
  let ?s1 = "advance 4 s" and ?s2 = "advance 4 (advance 4 s)"
  have len: "8 \<le> length (pending s)" using pend by simp
  have av: "\<not> lt_size (available s) 8" using wf len by (simp add: available_pending lt_size_def)
  have r1: "read_u32 s = Some (t, ?s1)"
    using wf len pend by (subst read_u32_prefix) auto
  have w1: "wf_stream ?s1" and p1: "pending ?s1 = u32_image (word_of_nat (length bs)) @ bs @ r"
    using wf len pend by auto
  have r2: "read_u32 ?s1 = Some (word_of_nat (length bs), ?s2)"
    using w1 p1 by (subst read_u32_prefix) auto
  have w2: "wf_stream ?s2" and p2: "pending ?s2 = bs @ r"
    using w1 p1 by (auto simp del: pending_advance simp: pending_advance [of 4 ?s1])
  have un: "unat (word_of_nat (length bs) :: u32) = length bs" using good by (rule u32_value_length)
  show ?thesis
  proof (cases "bs = []")
    case True
    with av r1 r2 w2 p2 show ?thesis by (simp add: try_get_field_with_type_def)
  next
    case False
    then have nz: "(word_of_nat (length bs) :: u32) \<noteq> 0" using un by force
    have r3: "read_bytes (length bs) ?s2 = Some (bs, advance (length bs) ?s2)"
      using w2 p2 False by (subst read_pending) auto
    have w3: "wf_stream (advance (length bs) ?s2)" "pending (advance (length bs) ?s2) = r"
      using w2 p2 by (auto simp del: pending_advance simp: pending_advance [of _ ?s2])
    have "\<not> available ?s2 < uint (word_of_nat (length bs) :: u32)"
      using w2 p2 un by (simp add: available_pending uint_nat del: of_nat_unat)
    with av r1 r2 r3 nz un w2 w3 p2 show ?thesis
      by (simp add: try_get_field_with_type_def)
  qed
qed

lemma find_field_encoded:
  assumes "wf_stream s" and "pending s = enc_fields fs" and "list_all good_field fs"
  shows "\<exists>b n s'. find_field ty len s = Some (b, n, s') \<and> wf_stream s' \<and>
    (case dropWhile (\<lambda>(t, v). t \<noteq> ty \<or> v = []) fs of
       [] \<Rightarrow> \<not> b \<and> n = (if fs = [] then len else 0) \<and> pending s' = []
     | (_, v) # rest \<Rightarrow> b \<and> unat n = length v \<and> pending s' = v @ enc_fields rest)"
  using assms
proof (induction fs arbitrary: s len)
  case Nil
  then have "find_field ty len s = Some (False, len, s)"
    by (subst find_field.simps) (simp add: available_pending)
  with Nil show ?case by auto
next
  case (Cons f fs)
  obtain t v where f: "f = (t, v)" by (cases f)
  from Cons.prems f have av: "available s \<noteq> 0" by (simp add: available_pending)
  have v: "length v < 2 ^ 32" and un: "unat (word_of_nat (length v) :: u32) = length v"
    using Cons.prems(3) f by (simp_all add: u32_value_length)
  obtain s1 where s1: "try_get_field_with_type ty s = Some (True, if t = ty then word_of_nat (length v) else 0, s1)"
    "wf_stream s1" "pending s1 = (if t = ty then v @ enc_fields fs else enc_fields fs)"
    using try_get_field_enc [OF Cons.prems(1) v, of t "enc_fields fs" ty] Cons.prems(2) f by auto
  show ?case
  proof (cases "t = ty \<and> v \<noteq> []")
    case True
    then have "(word_of_nat (length v) :: u32) \<noteq> 0" using un by force
    with True f av s1 un show ?thesis by (subst find_field.simps) auto
  next
    case False
    with s1(3) have p: "pending s1 = enc_fields fs" by auto
    from False f av s1 have "find_field ty len s = find_field ty 0 s1"
      by (subst find_field.simps) auto
    moreover have "dropWhile (\<lambda>(t, v). t \<noteq> ty \<or> v = []) (f # fs) = dropWhile (\<lambda>(t, v). t \<noteq> ty \<or> v = []) fs"
      using False f by simp
    moreover have "list_all good_field fs" using Cons.prems(3) by simp
    ultimately show ?thesis using Cons.IH [OF s1(2) p, of 0] by (simp only: list.distinct if_False if_cancel)
  qed
qed


lemma find_field_iff:
  assumes "wf_stream s" and "pending s = enc_fields fs" and "length (enc_fields fs) < 2 ^ 32"
  shows "\<exists>n s'. find_field ty len s = Some (\<exists>f\<in>set fs. fst f = ty \<and> snd f \<noteq> [], n, s')"
proof -
  let ?P = "\<lambda>(t, v). t \<noteq> ty \<or> v = []"
  obtain b n s' where r: "find_field ty len s = Some (b, n, s')"
    and b: "case dropWhile ?P fs of [] \<Rightarrow> \<not> b | x # rest \<Rightarrow> b"
    using find_field_encoded [OF assms(1,2) fits_good [OF assms(3)], of ty len]
    by (cases "dropWhile ?P fs") (auto simp del: dropWhile_eq_Nil_conv)
  have "b \<longleftrightarrow> dropWhile ?P fs \<noteq> []" using b by (cases "dropWhile ?P fs") (auto simp del: dropWhile_eq_Nil_conv)
  also have "\<dots> \<longleftrightarrow> (\<exists>f\<in>set fs. fst f = ty \<and> snd f \<noteq> [])" by (force simp: dropWhile_eq_Nil_conv)
  finally show ?thesis using r by auto
qed

lemma message_stream:
  assumes "wf_stream s" and "pending s = []"
  shows "wf_stream (serialize_call junk m aimid s)"
    and "pending (serialize_call junk m aimid s) = enc_fields (map tlv_view (message_fields junk m aimid))"
  using assms by (simp_all add: serialize_call_def pending_pack_serialize wf_pack_serialize)

lemma enc_fields_empty: "enc_fields fs = [] \<longleftrightarrow> fs = []"
  using length_enc_fields [of fs] by auto

lemma message_types:
  shows "(\<exists>f\<in>set (map tlv_view (message_fields junk m aimid)). fst f = mf_sticker \<and> snd f \<noteq> []) \<longleftrightarrow> hm_sticker m \<noteq> None"
    and "(\<exists>f\<in>set (map tlv_view (message_fields junk m aimid)). fst f = mf_chat_event \<and> snd f \<noteq> []) \<longleftrightarrow> hm_chat_event m \<noteq> None"
    and "(\<exists>f\<in>set (map tlv_view (message_fields junk m aimid)). fst f = mf_text \<and> snd f \<noteq> []) \<longleftrightarrow> hm_text m \<noteq> []"
proof -
  have nonempty: "enc_fields (map tlv_view (sticker_serialize x)) \<noteq> []" "enc_fields (map tlv_view (event_serialize e)) \<noteq> []"
    for x e by (simp_all only: enc_fields_empty map_is_Nil_conv) (simp_all add: sticker_serialize_def event_serialize_def)
  note defs = message_fields_def poll_serialize_fields task_serialize_fields contact_serialize_def geo_serialize_def
      reactions_serialize_def mention_serialize_def
  let ?fs = "map tlv_view (message_fields junk m aimid)"
  show "(\<exists>f\<in>set ?fs. fst f = mf_sticker \<and> snd f \<noteq> []) \<longleftrightarrow> hm_sticker m \<noteq> None"
    "(\<exists>f\<in>set ?fs. fst f = mf_chat_event \<and> snd f \<noteq> []) \<longleftrightarrow> hm_chat_event m \<noteq> None"
    "(\<exists>f\<in>set ?fs. fst f = mf_text \<and> snd f \<noteq> []) \<longleftrightarrow> hm_text m \<noteq> []"
    using nonempty by (auto simp: defs serialize_opt_def dest: sym split: option.split_asm option.split if_splits)
qed


lemma searches_on_bytes:
  assumes "i64_range (hm_msgid m)" and "fits (message_fields junk m [])" and "wf_stream s"
    and "pending s = enc_fields (map tlv_view (message_fields junk m []))"
  shows "\<exists>s1 s2 s3 s4 n. get_id_field s = Some (hm_msgid m, s1) \<and>
    is_sticker s = Some (hm_sticker m \<noteq> None, s2) \<and> is_chat_event s = Some (hm_chat_event m \<noteq> None, s3) \<and>
    jump_to_text_field len s = Some (n, s4) \<and> unat n = length (hm_text m) \<and> wf_stream s4 \<and>
    take (unat n) (pending s4) = hm_text m"
proof -
  let ?s = s and ?fs = "map tlv_view (message_fields junk m [])"
  note wf = assms(3) and p = assms(4)
  have ids: "\<exists>rest. dropWhile (\<lambda>(t, v). t \<noteq> mf_msg_id \<or> v = []) ?fs = (mf_msg_id, i64_image (hm_msgid m)) # rest"
  proof -
    have "i64_image (hm_msgid m) \<noteq> []" by (simp flip: length_0_conv)
    then show ?thesis by (simp add: message_fields_def)
  qed
  have texts: "\<exists>rest. dropWhile (\<lambda>(t, v). t \<noteq> mf_text \<or> v = []) ?fs = (mf_text, hm_text m) # rest" if "hm_text m \<noteq> []"
    using that by (simp add: message_fields_def)
  note found = find_field_encoded [OF wf p fits_good [OF assms(2)]]
  obtain s1 where s1: "get_id_field ?s = Some (hm_msgid m, s1)"
  proof -
    obtain rest b n s' where "dropWhile (\<lambda>(t, v). t \<noteq> mf_msg_id \<or> v = []) ?fs = (mf_msg_id, i64_image (hm_msgid m)) # rest"
      "find_field mf_msg_id 0 ?s = Some (True, n, s')" "wf_stream s'" "pending s' = i64_image (hm_msgid m) @ enc_fields rest"
      using ids found [of mf_msg_id 0] by auto
    then show ?thesis using that assms(1) by (auto simp: get_id_field_def read_i64_prefix)
  qed
  obtain n s4 where s4: "jump_to_text_field len ?s = Some (n, s4)" "unat n = length (hm_text m)"
    "wf_stream s4" "take (unat n) (pending s4) = hm_text m"
  proof (cases "hm_text m = []")
    case True
    then have "dropWhile (\<lambda>(t, v). t \<noteq> mf_text \<or> v = []) ?fs = []"
      using message_types(3) [of junk m "[]"] by (force simp: dropWhile_eq_Nil_conv)
    moreover have "?fs \<noteq> []" by (simp add: message_fields_def)
    ultimately obtain s' where "find_field mf_text len ?s = Some (False, 0, s')" "wf_stream s'"
      using found [of mf_text len] by (auto simp del: dropWhile_eq_Nil_conv)
    then show ?thesis using that [of 0 s'] True by (simp add: jump_to_text_field_def)
  next
    case False
    then show ?thesis using that texts found [of mf_text len] by (auto simp: jump_to_text_field_def)
  qed
  show ?thesis
    using s1 s4 find_field_iff [OF wf p assms(2), of mf_sticker 0] find_field_iff [OF wf p assms(2), of mf_chat_event 0]
    unfolding message_types by (auto simp: is_sticker_def is_chat_event_def)
qed

text \<open>The searches of the archive work on the bytes of a message without decoding it. In a message
  as the archive stores it they find what is there: the id; whether it is a sticker or a chat event;
  and the text, whose length they give and whose bytes they stand on.\<close>

lemma search_reads_stored_messages:
  assumes "i64_range (hm_msgid m)" and "fits (message_fields junk m [])" and "wf_stream s" and "pending s = []"
  shows "\<exists>s1 s2 s3 s4 n. 
    get_id_field (message_serialize junk m s) = Some (hm_msgid m, s1) \<and>
    is_sticker (message_serialize junk m s) = Some (hm_sticker m \<noteq> None, s2) \<and>
    is_chat_event (message_serialize junk m s) = Some (hm_chat_event m \<noteq> None, s3) \<and>
    jump_to_text_field len (message_serialize junk m s) = Some (n, s4) \<and>
    unat n = length (hm_text m) \<and> take (unat n) (pending s4) = hm_text m"
proof -
  let ?s = "message_serialize junk m s"
  have "wf_stream ?s" "pending ?s = enc_fields (map tlv_view (message_fields junk m []))"
    using message_stream [OF assms(3,4), of junk m "[]"] by (simp_all add: message_serialize_def)
  from searches_on_bytes [OF assms(1,2) this, of len] show ?thesis by blast
qed


subsection \<open>A message to try them on\<close>

text \<open>A text message with a mention, a quote with a task, reactions, and no JSON text.\<close>

definition sample_junk :: junk where
  "sample_junk = \<lparr>junk_bool = True, junk_byte = 7, junk_u64 = 9\<rparr>"

definition sample_message :: history_message where
  "sample_message = init_default\<lparr>hm_msgid := 7, hm_prev := 5, hm_time := 1600000000, hm_text := [72, 105],
     hm_mentions := [([97], [65]), ([98], [66])], hm_sticker := Some [49],
     hm_quotes := [quote_default\<lparr>qu_text := [81], qu_task := Some (task_default\<lparr>td_id := [116]\<rparr>)\<rparr>],
     hm_reactions := Some \<lparr>mr_exist = True, mr_data = None\<rparr>\<rparr>"

lemma good_sample: "good_message sample_message" "fits (message_fields sample_junk sample_message [])"
  "hm_json sample_message = []"
  by (simp_all add: good_message_def sample_message_def init_default_def pv_default_def good_quote_def quote_default_def
     i64_range_def i32_range_def good_task_def task_default_def to_seconds_def om_ok_def
     message_fields_def quote_serialize_def task_serialize_fields task_fields_def mention_serialize_def
     reactions_serialize_def sticker_serialize_def serialize_opt_def)


lemma stored_sample: "stored_message sample_junk \<lparr>rd_junk = sample_junk, rd_parse = p, rd_buttons = \<lambda>_. []\<rparr> sample_message =
    sample_message"
  by (simp add: stored_message_def sample_message_def init_default_def stored_quote_def quote_default_def
      stored_task_def task_default_def)

theorem message_roundtrip_witness:
  "\<exists>s'. unserialize_call \<lparr>rd_junk = sample_junk, rd_parse = \<lambda>_ _ m. (0, m), rd_buttons = \<lambda>_. []\<rparr>
      (serialize_call sample_junk sample_message [] empty_stream) init_default [99] =
    Some (0, sample_message, [], s') \<and> pending s' = []"
  using message_roundtrip [OF good_sample(1,2), of empty_stream "\<lparr>rd_junk = sample_junk, rd_parse = \<lambda>_ _ m. (0, m),
    rd_buttons = \<lambda>_. []\<rparr>" "[99]"] good_sample(3) stored_sample by simp

theorem json_message_is_parsed_again_witness:
  "\<exists>code m' s'. unserialize_call \<lparr>rd_junk = sample_junk, rd_parse = \<lambda>j i m. (int (length j), m), rd_buttons = \<lambda>_. []\<rparr>
      (serialize_call sample_junk (init_default\<lparr>hm_json := [1, 2, 3], hm_sender_aimid := [97]\<rparr>) [99] empty_stream) init_default [] =
    Some (code, m', [], s') \<and> code = 3 \<and> m' = init_default\<lparr>hm_json := [1, 2, 3], hm_sender_aimid := [97]\<rparr>"
proof -
  let ?m = "init_default\<lparr>hm_json := [1, 2, 3], hm_sender_aimid := [97]\<rparr>"
  have "good_message ?m" "fits (message_fields sample_junk ?m [99])"
    by (simp_all add: good_message_def init_default_def pv_default_def i64_range_def i32_range_def om_ok_def
      message_fields_def serialize_opt_def)
  moreover have "(head_of ?m)\<lparr>hm_sender_aimid := [97]\<rparr> = ?m"
    by (simp add: head_of_def init_default_def)
  ultimately show ?thesis
    using json_message_is_parsed_again [of ?m sample_junk "[99]" empty_stream "\<lparr>rd_junk = sample_junk,
      rd_parse = \<lambda>j i m. (int (length j), m), rd_buttons = \<lambda>_. []\<rparr>" "[]"] by simp
qed

subsection \<open>Storing twice\<close>

lemma from_to_seconds [simp]: "to_seconds (from_seconds n) = n"
  by (simp add: to_seconds_def from_seconds_def ticks_per_second_def zero_le_mult_iff)
    (metis minus_mult_left nonzero_mult_div_cancel_right minus_minus zero_neq_numeral)

lemma stored_parts_stable [simp]:
  "Option.bind (stored_voip v) stored_voip = stored_voip v"
  "stored_chat j (stored_chat j c) = stored_chat j c"
  "stored_file_sharing (stored_file_sharing f) = stored_file_sharing f"
  "stored_task (stored_task t) = stored_task t"
  "stored_poll (stored_poll p) = stored_poll p"
  "stored_change (stored_change ch) = stored_change ch"
  by (auto simp: stored_voip_def stored_chat_def stored_file_sharing_def stored_task_def task_default_def
      stored_poll_def poll_default_def)
    (simp add: stored_change_def change_default_def option.map_comp comp_def, cases "tc_status ch"; simp)

lemma stored_event_stable [simp]: "stored_event j (stored_event j e) = stored_event j e"
  by (rule chat_event_data.equality) (simp_all add: stored_event_def Let_def event_blank_def)

lemma stored_quote_stable [simp]: "stored_quote (stored_quote q) = stored_quote q"
  by (simp add: stored_quote_def option.map_comp comp_def)

lemma stored_message_stable: "stored_message j rd (stored_message j rd m) = stored_message j rd m"
  by (rule history_message.equality) (simp_all add: stored_message_def option.map_comp comp_def)

lemma good_stored_voip: "good_voip v \<Longrightarrow> pred_option good_voip (stored_voip v)"
  by (auto simp: stored_voip_def good_voip_def i32_range_def)

lemma numbers_in_range [simp]: "to_seconds 0 = 0" "i64_range 0" "i64_range (-1)"
  by (simp_all add: to_seconds_def i64_range_def)

lemma good_stored_parts:
  "good_file_sharing f \<Longrightarrow> good_file_sharing (stored_file_sharing f)"
  "good_task t \<Longrightarrow> good_task (stored_task t)"
  "good_event e \<Longrightarrow> good_event (stored_event j e)"
  by (auto simp: good_file_sharing_def stored_file_sharing_def good_task_def stored_task_def task_default_def
      good_event_def stored_event_def Let_def change_end_time_to_seconds_def stored_change_def change_default_def
      event_blank_def split: option.splits)

lemma good_stored_quote: "good_quote q \<Longrightarrow> good_quote (stored_quote q)"
  by (cases "qu_task q") (simp_all add: good_quote_def stored_quote_def good_stored_parts)

lemma good_stored_message: "good_message m \<Longrightarrow> good_message (stored_message j rd m)"
  by (simp add: good_message_def stored_message_def option.pred_map list.pred_map comp_def)
    (auto simp: pred_option_def list_all_iff good_stored_parts good_stored_quote bind_eq_Some_conv dest!: good_stored_voip)

text \<open>C37: Whatever is lost of a message is lost by the first write: a message that was stored and read
  back is read back unchanged when it is stored again.\<close>

theorem second_store_changes_nothing:
  assumes "good_message m" and "hm_json m = [] \<or> hm_sender_aimid m = []"
    and "fits (message_fields junk m [])" and "fits (message_fields junk (stored_message junk rd m) [])"
    and "message_unserialize rd (message_serialize junk m empty_stream) init_default = Some (code, m', s')"
  shows "code = 0 \<and> (\<exists>s''. message_unserialize rd (message_serialize junk m' empty_stream) init_default = Some (0, m', s''))"
proof -
  let ?m = "stored_message junk rd m"
  have one: "hm_json ?m = [] \<or> hm_sender_aimid ?m = []" using assms(2) by (auto simp: stored_message_def)
  have "code = 0" "m' = ?m"
    using message_reads_back [OF assms(1,3,2), of empty_stream rd "[]"] assms(5)
    by (auto simp: message_unserialize_def message_serialize_def)
  then show ?thesis
    using message_reads_back [OF good_stored_message [OF assms(1)] assms(4) one, of empty_stream rd "[]"]
    by (auto simp: message_unserialize_def message_serialize_def stored_message_stable)
qed


theorem second_store_changes_nothing_witness:
  "\<exists>s''. message_unserialize \<lparr>rd_junk = sample_junk, rd_parse = \<lambda>_ _ m. (0, m), rd_buttons = \<lambda>_. []\<rparr>
      (message_serialize sample_junk sample_message empty_stream) init_default = Some (0, sample_message, s'')"
proof -
  let ?rd = "\<lparr>rd_junk = sample_junk, rd_parse = \<lambda>_ _ m. (0, m), rd_buttons = \<lambda>_. []\<rparr>"
  obtain s' where "message_unserialize ?rd (message_serialize sample_junk sample_message empty_stream) init_default =
      Some (0, sample_message, s')"
    using message_reads_back [OF good_sample(1,2), of empty_stream ?rd "[]"] good_sample(3) stored_sample
    by (auto simp: message_unserialize_def message_serialize_def)
  then show ?thesis
    using second_store_changes_nothing [OF good_sample(1) _ good_sample(2), of ?rd 0 sample_message s'] stored_sample
      good_sample(2,3) by simp
qed

subsection \<open>Changes to a message\<close>

definition edits_content :: "history_message \<Rightarrow> bool" where
  "edits_content x \<longleftrightarrow> has_text x \<or> hm_chat_event x \<noteq> None"

text \<open>Applying the modifications of a message leaves its identity alone, and the last one counts:
  the text is that of the last modification with a text, the chat event that of the last modification
  with an event unless a text came later. Any effective modification takes the sticker, the call and
  the file away.\<close>

theorem modifications_last_wins:
  "hm_text (apply_modifications mods m) =
     (case find has_text (rev mods) of None \<Rightarrow> hm_text m | Some x \<Rightarrow> get_text x) \<and>
   hm_chat_event (apply_modifications mods m) =
     (case find edits_content (rev mods) of
        None \<Rightarrow> hm_chat_event m | Some x \<Rightarrow> if has_text x then None else hm_chat_event x) \<and>
   hm_sticker (apply_modifications mods m) =
     (if find edits_content mods = None then hm_sticker m else None) \<and>
   header_of_message (apply_modifications mods m) = header_of_message m"
proof (induction mods rule: rev_induct)
  case (snoc x mods)
  have a: "apply_modifications (mods @ [x]) m = apply_modification x (apply_modifications mods m)"
    by (simp add: apply_modifications_def)
  have f: "find edits_content (mods @ [x]) = None \<longleftrightarrow> find edits_content mods = None \<and> \<not> edits_content x"
    by (auto simp: find_None_iff)
  have e: "edits_content x \<longleftrightarrow> has_text x \<or> hm_chat_event x \<noteq> None"
    by (rule edits_content_def)
  show ?case
    using snoc unfolding a f
    by (auto simp: apply_modification_def e reset_extended_data_def header_of_message_def has_shared_contact_with_sn_def
        has_poll_with_id_def has_task_with_id_def has_reactions_def has_thread_def split: option.split)
qed (simp add: apply_modifications_def)

text \<open>Assigning one message to another carries over all that is assigned, but the JSON text, the
  sender's id, the buttons and the reactions stay those of the old value. So a fresh copy equals its
  original only when the original has none of them.\<close>

lemma copy_equals_original_iff:
  "copy init_default m = m \<longleftrightarrow> hm_json m = [] \<and> hm_sender_aimid m = [] \<and> hm_buttons m = [] \<and>
     hm_buttons_json m = [] \<and> hm_reactions m = None"
  by (auto simp: copy_def init_default_def intro: history_message.equality dest: arg_cong [of _ _ hm_json]
      arg_cong [of _ _ hm_sender_aimid] arg_cong [of _ _ hm_buttons] arg_cong [of _ _ hm_buttons_json]
      arg_cong [of _ _ hm_reactions])

text \<open>Merging keeps the identity of the message (ids, flags, time, sender, the place of the data) and merging the
  same message again changes nothing.\<close>

lemma merge_keeps_identity:
  "hm_msgid (merge_message m x) = hm_msgid m \<and> hm_prev (merge_message m x) = hm_prev m \<and>
   hm_flags (merge_message m x) = hm_flags m \<and> hm_time (merge_message m x) = hm_time m \<and>
   hm_internal_id (merge_message m x) = hm_internal_id m \<and> hm_sender_friendly (merge_message m x) = hm_sender_friendly m \<and>
   hm_data_offset (merge_message m x) = hm_data_offset m \<and> hm_data_size (merge_message m x) = hm_data_size m \<and>
   hm_reactions (merge_message m x) = hm_reactions m \<and> contents_equal (merge_message m x) x \<and>
   merge_message (merge_message m x) x = merge_message m x"
proof -
  have "get_type (merge_message m x) = get_type x" "get_text (merge_message m x) = get_text x"
    by (simp_all add: get_type_def get_text_def merge_message_def split: option.split)
  then have "contents_equal (merge_message m x) x"
    by (simp add: contents_equal_def file_sharing_equal_def event_equal_def merge_message_def split: message_type.split)
  then show ?thesis by (auto simp: merge_message_def split: option.split)
qed

end
