(* ===== verification/Drafts.thy ===== *)
theory Drafts
  imports Message_Store
begin

text \<open>
  Drafts (\<^verbatim>\<open>core/archive/draft_storage.h\<close> and \<^verbatim>\<open>.cpp\<close>) and the whole-file functions of byte streams they
  are kept with (\<^verbatim>\<open>core/tools/binary_stream.cpp\<close>).

  A file that is replaced as a whole is first written beside itself and then renamed. What the system
  does is part of the state: whether the folder is there or can be made, whether files can be opened,
  how many bytes a write takes and a read gives before they fail, and whether the rename succeeds.
\<close>

subsection \<open>Whole files\<close>

record disk =
  dk_file :: "bytes option"
  dk_temp :: "bytes option"
  dk_folder :: bool
  dk_opens :: bool
  dk_room :: nat
  dk_rename :: bool
  dk_readable :: nat

definition save_2_file :: "bytes \<Rightarrow> disk \<Rightarrow> bool \<times> disk" where
  "save_2_file buf dk =
     (if \<not> dk_folder dk then (False, dk)
      else if \<not> dk_opens dk then (False, dk)
      else let dk = dk\<lparr>dk_temp := Some (take (dk_room dk) buf)\<rparr>
           in if length buf > dk_room dk then (False, dk)
              else if dk_rename dk then (True, dk\<lparr>dk_file := dk_temp dk, dk_temp := None\<rparr>)
              else (False, dk))"

text \<open>The member function saves what is available, which it reads; the outer \<open>None\<close> is a null pointer.\<close>

definition save_stream :: "binary_stream \<Rightarrow> disk \<Rightarrow> (bool \<times> binary_stream \<times> disk) option" where
  "save_stream s dk =
     (if available s > 0
      then map_option (\<lambda>(bs, s). case save_2_file bs dk of (ok, dk) \<Rightarrow> (ok, s, dk)) (read_bytes (nat (available s)) s)
      else (case save_2_file [] dk of (ok, dk) \<Rightarrow> Some (ok, s, dk)))"

definition mem_block_size :: nat where
  "mem_block_size = 1024 * 64"

text \<open>The loop of \<open>load_from_file\<close>: the bytes that are left, and how many can still be read.\<close>

function load_loop :: "bytes \<Rightarrow> nat \<Rightarrow> binary_stream \<Rightarrow> bool \<times> binary_stream" where
  "load_loop left n s =
     (if left = [] then (True, s)
      else let block = take mem_block_size left
           in if length block > n then (False, s)
              else load_loop (drop mem_block_size left) (n - length block) (write_bytes block s))"
  by pat_completeness auto
termination
  by (relation "measure (\<lambda>(left, n, s). length left)") (simp_all add: mem_block_size_def)

declare load_loop.simps [simp del]

definition load_from_file :: "disk \<Rightarrow> binary_stream \<Rightarrow> bool \<times> binary_stream" where
  "load_from_file dk s =
     (case dk_file dk of
        None \<Rightarrow> (False, s)
      | Some c \<Rightarrow> if \<not> dk_opens dk then (False, s) else load_loop c (dk_readable dk) s)"

subsection \<open>Drafts\<close>

text \<open>The state is a number: a stored value is cast without a check.\<close>

definition draft_local :: int where "draft_local = 0"
definition draft_syncing :: int where "draft_syncing = 1"
definition draft_synced :: int where "draft_synced = 2"

record draft =
  dr_state :: int
  dr_timestamp :: int
  dr_local_timestamp :: int
  dr_message :: "history_message option"
  dr_friendly :: cstring

definition draft_default :: draft where
  "draft_default = \<lparr>dr_state = draft_local, dr_timestamp = 0, dr_local_timestamp = 0, dr_message = None, dr_friendly = []\<rparr>"

definition tlv_state :: u32 where "tlv_state = 1"
definition tlv_timestamp :: u32 where "tlv_timestamp = 2"
definition tlv_message :: u32 where "tlv_message = 3"
definition tlv_local_timestamp :: u32 where "tlv_local_timestamp = 4"
definition tlv_friendly :: u32 where "tlv_friendly = 5"

lemmas draft_tags [simp] = tlv_state_def tlv_timestamp_def tlv_message_def tlv_local_timestamp_def tlv_friendly_def

definition is_first_same_or_newer :: "draft \<Rightarrow> draft \<Rightarrow> bool" where
  "is_first_same_or_newer first second =
     (if min (dr_local_timestamp first) (dr_local_timestamp second) > 0
      then dr_local_timestamp first \<ge> dr_local_timestamp second
      else dr_timestamp first \<ge> dr_timestamp second)"

definition draft_empty :: "draft \<Rightarrow> bool" where
  "draft_empty d = (case dr_message d of None \<Rightarrow> True | Some m \<Rightarrow> get_text m = [] \<and> hm_quotes m = [])"

definition draft_message_stream :: "junk \<Rightarrow> draft \<Rightarrow> binary_stream" where
  "draft_message_stream junk d = (case dr_message d of
     None \<Rightarrow> empty_stream | Some m \<Rightarrow> message_serialize junk m empty_stream)"

definition draft_fields :: "junk \<Rightarrow> draft \<Rightarrow> tlv list" where
  "draft_fields junk d =
     [mk_tlv tlv_state (i32_image (dr_state d)),
      mk_tlv tlv_timestamp (i32_image (dr_timestamp d)),
      mk_tlv tlv_local_timestamp (i64_image (dr_local_timestamp d)),
      mk_tlv tlv_friendly (dr_friendly d),
      mk_tlv_stream tlv_message (draft_message_stream junk d)]"

definition draft_serialize :: "junk \<Rightarrow> draft \<Rightarrow> binary_stream \<Rightarrow> binary_stream" where
  "draft_serialize junk d s = pack_serialize (pack_of (draft_fields junk d)) s"

definition draft_unserialize :: "reader \<Rightarrow> binary_stream \<Rightarrow> draft \<Rightarrow> (bool \<times> draft) option" where
  "draft_unserialize rd data d = do {
     (ok, p, _) \<leftarrow> pack_unserialize empty_pack data;
     if \<not> ok then Some (False, d)
     else do {
       let d = d\<lparr>dr_state := i32_or (dr_state d) p tlv_state,
                 dr_timestamp := i32_or (dr_timestamp d) p tlv_timestamp,
                 dr_local_timestamp := i64_or (dr_local_timestamp d) p tlv_local_timestamp,
                 dr_friendly := string_or (dr_friendly d) p tlv_friendly\<rparr>;
       message \<leftarrow> (case get_item p tlv_message of
          None \<Rightarrow> Some (dr_message d)
        | Some t \<Rightarrow> map_option (\<lambda>(code, m, _). if code = 0 then Some m else dr_message d)
            (message_unserialize rd (get_stream t) init_default));
       let d = d\<lparr>dr_message := message\<rparr>;
       Some (dr_message d \<noteq> None \<and> dr_timestamp d > 0, d)
     }
   }"

subsection \<open>The storage of a draft\<close>

record draft_storage =
  sto_draft :: draft
  sto_disk :: disk

definition write_file :: "junk \<Rightarrow> draft_storage \<Rightarrow> draft_storage option" where
  "write_file junk x = map_option (\<lambda>(ok, s, dk). x\<lparr>sto_disk := dk\<rparr>)
     (save_stream (draft_serialize junk (sto_draft x) empty_stream) (sto_disk x))"

definition set_draft :: "junk \<Rightarrow> draft \<Rightarrow> draft_storage \<Rightarrow> draft_storage option" where
  "set_draft junk d x =
     (if is_first_same_or_newer d (sto_draft x) then write_file junk (x\<lparr>sto_draft := d\<rparr>) else Some x)"

text \<open>A file that is not a draft is deleted.\<close>

definition load_draft :: "reader \<Rightarrow> draft_storage \<Rightarrow> draft_storage option" where
  "load_draft rd x =
     (case load_from_file (sto_disk x) empty_stream of
        (False, s) \<Rightarrow> Some x
      | (True, s) \<Rightarrow> do {
          (ok, d) \<leftarrow> draft_unserialize rd s (sto_draft x);
          if ok then Some (x\<lparr>sto_draft := d\<rparr>)
          else Some (x\<lparr>sto_disk := (sto_disk x)\<lparr>dk_file := None\<rparr>, sto_draft := draft_default\<rparr>)
        })"

definition mk_draft_storage :: "reader \<Rightarrow> disk \<Rightarrow> draft_storage option" where
  "mk_draft_storage rd dk = load_draft rd \<lparr>sto_draft = draft_default, sto_disk = dk\<rparr>"

subsection \<open>Saving and loading whole files\<close>

lemma load_loop_all:
  "wf_stream s \<Longrightarrow> length left \<le> n \<Longrightarrow>
    \<exists>s'. load_loop left n s = (True, s') \<and> wf_stream s' \<and> pending s' = pending s @ left"
proof (induction left n s rule: load_loop.induct)
  case (1 left n s)
  show ?case
  proof (cases "left = []")
    case True
    then show ?thesis using 1(2) by (subst load_loop.simps) simp
  next
    case False
    let ?b = "take mem_block_size left"
    have r: "\<not> length ?b > n" "length (drop mem_block_size left) \<le> n - length ?b" using 1(3) by auto
    from "1.IH" [OF False refl r(1) wf_write [OF 1(2)] r(2)] obtain s' where
      "load_loop (drop mem_block_size left) (n - length ?b) (write_bytes ?b s) = (True, s')" "wf_stream s'"
      "pending s' = pending (write_bytes ?b s) @ drop mem_block_size left" by blast
    with False r(1) 1(2) show ?thesis by (subst load_loop.simps) (simp add: Let_def)
  qed
qed

text \<open>A file that is saved as a whole is never half written: whatever fails, its contents are the old
  ones or all of the new ones, and they are the new ones exactly when the call says so. (The rename is
  taken to be atomic, as the system promises.)\<close>

lemma save_is_atomic:
  "dk_file (snd (save_2_file buf dk)) = (if fst (save_2_file buf dk) then Some buf else dk_file dk)"
  by (simp add: save_2_file_def Let_def)

definition disk_works :: "nat \<Rightarrow> disk \<Rightarrow> bool" where
  "disk_works n dk \<longleftrightarrow> dk_folder dk \<and> dk_opens dk \<and> dk_rename dk \<and> n \<le> dk_room dk \<and> n \<le> dk_readable dk"

lemma save_stream_works:
  assumes "wf_stream s" and "disk_works (length (pending s)) dk"
  shows "\<exists>s'. save_stream s dk = Some (True, s', dk\<lparr>dk_file := Some (pending s), dk_temp := None\<rparr>)"
  using assms
  by (cases "pending s = []")
    (simp_all add: save_stream_def available_pending read_pending save_2_file_def disk_works_def Let_def)

subsection \<open>A draft is read back\<close>

definition good_draft :: "junk \<Rightarrow> draft \<Rightarrow> bool" where
  "good_draft junk d \<longleftrightarrow> i32_range (dr_state d) \<and> i32_range (dr_timestamp d) \<and> i64_range (dr_local_timestamp d) \<and>
     pred_option (\<lambda>m. good_message m \<and> (hm_json m = [] \<or> hm_sender_aimid m = [])) (dr_message d) \<and>
     fits (draft_fields junk d)"

text \<open>A draft without a message comes back with an empty one.\<close>

definition stored_draft :: "junk \<Rightarrow> reader \<Rightarrow> draft \<Rightarrow> draft" where
  "stored_draft junk rd d = d\<lparr>dr_message := Some (case dr_message d of
     None \<Rightarrow> init_default | Some m \<Rightarrow> stored_message junk rd m)\<rparr>"

lemma message_stream_facts:
  "wf_stream (message_serialize junk m empty_stream)" "bs_output (message_serialize junk m empty_stream) = 0"
  "pending (message_serialize junk m empty_stream) = enc_fields (map tlv_view (message_fields junk m []))"
  using message_stream [of empty_stream junk m "[]"]
  by (simp_all add: message_serialize_def serialize_call_def) (simp add: empty_stream_def)

lemma draft_stream_facts [simp]:
  "wf_stream (draft_message_stream junk d)" "bs_output (draft_message_stream junk d) = 0"
  by (simp_all add: draft_message_stream_def message_stream_facts split: option.split) (simp add: empty_stream_def)

lemma fresh_draft [simp]: "list_all fresh_tlv (draft_fields junk d)"
  by (simp add: draft_fields_def)

lemma unserialize_written_message:
  assumes "good_message m" and "hm_json m = [] \<or> hm_sender_aimid m = []" and "fits (message_fields junk m [])"
    and "wf_stream s" and "pending s = enc_fields (map tlv_view (message_fields junk m []))"
  shows "\<exists>s'. message_unserialize rd s init_default = Some (0, stored_message junk rd m, s') \<and> wf_stream s' \<and> pending s' = []"
proof -
  obtain s' where "pack_unserialize empty_pack s = Some (True, mk_pack (map tlv_view (message_fields junk m [])), s')"
    "wf_stream s'" "pending s' = []"
    using pack_unserialize_enc [OF assms(4) fits_good [OF assms(3)] assms(5)] by blast
  then show ?thesis
    using reads_all [OF reads_message [OF assms(1,3,2), of rd "[]"]]
    by (auto simp: message_unserialize_def unserialize_call_def wire_def)
qed

lemma unserialize_no_message: "wf_stream s \<Longrightarrow> pending s = [] \<Longrightarrow>
    \<exists>s'. message_unserialize rd s init_default = Some (0, init_default, s')"
  using pack_unserialize_enc [of s "[]"]
  by (auto simp: message_unserialize_def unserialize_call_def)

lemma stream_value: "get_stream (mk_tlv ty bs) = write_bytes bs empty_stream"
  by (simp add: get_stream_def mk_tlv_value)

lemma draft_roundtrip:
  assumes good: "good_draft junk d" and s: "wf_stream s" "pending s = enc_fields (map tlv_view (draft_fields junk d))"
  shows "draft_unserialize rd s draft_default = Some (dr_timestamp d > 0, stored_draft junk rd d)"
proof -
  let ?fs = "map tlv_view (draft_fields junk d)"
  have fit: "fits (draft_fields junk d)" using good by (simp add: good_draft_def)
  obtain s' where u: "pack_unserialize empty_pack s = Some (True, mk_pack ?fs, s')"
    using pack_unserialize_enc [OF s(1) fits_good [OF fit] s(2)] by blast
  let ?t = "mk_tlv tlv_message (pending (draft_message_stream junk d))"
  have msg: "\<exists>s'. message_unserialize rd (get_stream ?t) init_default =
      Some (0, case dr_message d of None \<Rightarrow> init_default | Some m \<Rightarrow> stored_message junk rd m, s')"
  proof (cases "dr_message d")
    case None
    then show ?thesis
      using unserialize_no_message [of "get_stream ?t" rd] by (simp add: draft_message_stream_def stream_value)
  next
    case (Some m)
    then have g: "good_message m" "hm_json m = [] \<or> hm_sender_aimid m = []"
      and p: "pending (draft_message_stream junk d) = enc_fields (map tlv_view (message_fields junk m []))"
      using good by (simp_all add: good_draft_def draft_message_stream_def message_stream_facts)
    have "fits (message_fields junk m [])" using fit p by (simp add: draft_fields_def)
    from unserialize_written_message [OF g this, of "get_stream ?t" rd] Some p show ?thesis
      by (auto simp: stream_value)
  qed
  have "get_item (mk_pack ?fs) tlv_message = Some ?t"
    by (simp add: draft_fields_def)
  moreover have "i32_or 0 (mk_pack ?fs) tlv_state = dr_state d" "i32_or 0 (mk_pack ?fs) tlv_timestamp = dr_timestamp d"
    "i64_or 0 (mk_pack ?fs) tlv_local_timestamp = dr_local_timestamp d" "string_or [] (mk_pack ?fs) tlv_friendly = dr_friendly d"
    using good by (simp_all add: read_defs draft_fields_def good_draft_def)
  ultimately show ?thesis
    using u msg by (auto simp: draft_unserialize_def draft_default_def draft_local_def stored_draft_def simp del: draft_tags)
qed

text \<open>C36: A draft that is set, and is not older than the one before, is there after a restart: a storage
  made from the file that was written holds it in its stored form. The exception is a draft without
  a server time: the restart deletes its file.\<close>

theorem draft_survives_restart:
  assumes "good_draft junk d" and "is_first_same_or_newer d (sto_draft x)"
    and "disk_works (length (enc_fields (map tlv_view (draft_fields junk d)))) (sto_disk x)"
  shows "\<exists>x'. set_draft junk d x = Some x' \<and> sto_draft x' = d \<and>
    mk_draft_storage rd (sto_disk x') = Some
      (if dr_timestamp d > 0 then \<lparr>sto_draft = stored_draft junk rd d, sto_disk = sto_disk x'\<rparr>
       else \<lparr>sto_draft = draft_default, sto_disk = (sto_disk x')\<lparr>dk_file := None\<rparr>\<rparr>)"
proof -
  let ?bs = "enc_fields (map tlv_view (draft_fields junk d))"
  let ?dk = "(sto_disk x)\<lparr>dk_file := Some ?bs, dk_temp := None\<rparr>"
  have s: "wf_stream (draft_serialize junk d empty_stream)" "pending (draft_serialize junk d empty_stream) = ?bs"
    by (simp_all add: draft_serialize_def wf_pack_serialize pending_pack_serialize)
  have set: "set_draft junk d x = Some \<lparr>sto_draft = d, sto_disk = ?dk\<rparr>"
    using save_stream_works [OF s(1), of "sto_disk x"] assms(2,3) s(2)
    by (auto simp: set_draft_def write_file_def)
  have "length ?bs \<le> dk_readable ?dk" "dk_opens ?dk" using assms(3) by (simp_all add: disk_works_def)
  then obtain s' where "load_from_file ?dk empty_stream = (True, s')" "wf_stream s'" "pending s' = ?bs"
    using load_loop_all [of empty_stream ?bs "dk_readable ?dk"] by (auto simp: load_from_file_def)
  with draft_roundtrip [OF assms(1), of s' rd] set show ?thesis
    by (auto simp: mk_draft_storage_def load_draft_def)
qed

definition sample_draft :: draft where
  "sample_draft = \<lparr>dr_state = draft_local, dr_timestamp = 1600000000, dr_local_timestamp = 1600000000500,
     dr_message = Some (init_default\<lparr>hm_text := [72]\<rparr>), dr_friendly = [66]\<rparr>"

definition good_disk :: disk where
  "good_disk = \<lparr>dk_file = None, dk_temp = None, dk_folder = True, dk_opens = True, dk_room = 10 ^ 9, dk_rename = True,
     dk_readable = 10 ^ 9\<rparr>"

theorem draft_survives_restart_witness:
  "\<exists>x'. set_draft sample_junk sample_draft \<lparr>sto_draft = draft_default, sto_disk = good_disk\<rparr> = Some x' \<and>
    mk_draft_storage \<lparr>rd_junk = sample_junk, rd_parse = \<lambda>_ _ m. (0, m), rd_buttons = \<lambda>_. []\<rparr> (sto_disk x') =
      Some \<lparr>sto_draft = sample_draft, sto_disk = sto_disk x'\<rparr>"
proof -
  let ?rd = "\<lparr>rd_junk = sample_junk, rd_parse = \<lambda>_ _ m. (0, m), rd_buttons = \<lambda>_. []\<rparr>"
  have g: "good_draft sample_junk sample_draft"
    "length (enc_fields (map tlv_view (draft_fields sample_junk sample_draft))) \<le> 10 ^ 9"
    by (simp_all add: good_draft_def sample_draft_def draft_local_def good_message_def init_default_def pv_default_def om_ok_def
        i32_range_def i64_range_def draft_fields_def draft_message_stream_def message_stream_facts message_fields_def serialize_opt_def)
  moreover have "is_first_same_or_newer sample_draft draft_default"
    by (simp add: is_first_same_or_newer_def sample_draft_def draft_default_def)
  moreover have "stored_draft sample_junk ?rd sample_draft = sample_draft"
    by (simp add: stored_draft_def sample_draft_def stored_message_def init_default_def)
  ultimately show ?thesis
    using draft_survives_restart [of sample_junk sample_draft "\<lparr>sto_draft = draft_default, sto_disk = good_disk\<rparr>" ?rd]
    by (auto simp: disk_works_def good_disk_def sample_draft_def)
qed

end
