(* ===== verification/Storage.thy ===== *)
theory Storage
  imports Binary_Stream Framing
begin

text \<open>
  \<^verbatim>\<open>core/archive/storage.h\<close> and \<^verbatim>\<open>.cpp\<close>: the block files every part of the archive is kept in. A block
  is its size twice, the bytes, and the size twice again.

  The file system is part of the state: the contents of the file (\<open>None\<close> when it does not exist),
  what is known of its directory, whether the system lets the file be opened, how many more bytes
  the device takes, and the error number a failed call leaves. A \<^verbatim>\<open>std::fstream\<close> is a position and
  its \<open>good\<close> state; a short read or a look past the end makes it not good, and it stays so until the
  file is closed. A write is taken to reach the device at once, without a buffer in between.
\<close>

subsection \<open>The file and the stream\<close>

datatype error = err_ok | end_of_file | file_not_exist | create_directory_error | open_file_error | parse_headers

record storage_mode =
  sm_read :: bool
  sm_write :: bool
  sm_append :: bool
  sm_truncate :: bool
  sm_at_end :: bool

definition mode_zero :: storage_mode where
  "mode_zero = \<lparr>sm_read = False, sm_write = False, sm_append = False, sm_truncate = False, sm_at_end = False\<rparr>"

record fstream =
  fs_pos :: nat
  fs_good :: bool
  fs_in :: bool
  fs_out :: bool
  fs_app :: bool

record storage =
  st_file :: "bytes option"
  st_dir_exists :: bool
  st_can_create_dir :: bool
  st_can_open :: bool
  st_room :: nat
  st_errno :: int
  st_stream :: "fstream option"
  st_last_error :: error

definition contents :: "storage \<Rightarrow> bytes" where
  "contents st = (case st_file st of None \<Rightarrow> [] | Some c \<Rightarrow> c)"

text \<open>The open modes of \<^verbatim>\<open>std::basic_filebuf\<close>: which combinations exist, create and truncate.\<close>

datatype open_kind = must_exist | creates | empties | refused

definition filebuf_mode :: "bool \<Rightarrow> bool \<Rightarrow> bool \<Rightarrow> bool \<Rightarrow> open_kind" where
  "filebuf_mode i out app trunc =
     (if trunc then (if app \<or> \<not> out then refused else empties)
      else if app then creates
      else if i then must_exist
      else if out then empties
      else refused)"

definition fstream_open :: "storage_mode \<Rightarrow> storage \<Rightarrow> storage" where
  "fstream_open m st =
     (let strm = \<lparr>fs_pos = 0, fs_good = True, fs_in = sm_read m, fs_out = sm_write m \<or> sm_append m, fs_app = sm_append m\<rparr>
      in if \<not> st_can_open st then st
         else case filebuf_mode (sm_read m) (sm_write m) (sm_append m) (sm_truncate m) of
           refused \<Rightarrow> st
         | must_exist \<Rightarrow> (if st_file st = None then st else st\<lparr>st_stream := Some strm\<rparr>)
         | creates \<Rightarrow> st\<lparr>st_file := Some (contents st), st_stream := Some strm\<rparr>
         | empties \<Rightarrow> st\<lparr>st_file := Some [], st_stream := Some strm\<rparr>)"

text \<open>Overwriting a file from a position on; a gap behind the end is filled with zeros.\<close>

definition put_at :: "bytes \<Rightarrow> nat \<Rightarrow> bytes \<Rightarrow> bytes" where
  "put_at c pos bs = take pos (c @ replicate (pos - length c) 0) @ bs @ drop (pos + length bs) c"

definition fs_write :: "bytes \<Rightarrow> fstream \<Rightarrow> storage \<Rightarrow> storage" where
  "fs_write bs f st =
     (if \<not> fs_good f \<or> \<not> fs_out f then st\<lparr>st_stream := Some (f\<lparr>fs_good := False\<rparr>)\<rparr>
      else let taken = take (st_room st) bs;
               pos = (if fs_app f then length (contents st) else fs_pos f)
           in st\<lparr>st_file := Some (put_at (contents st) pos taken),
                 st_room := st_room st - length taken,
                 st_stream := Some (f\<lparr>fs_pos := pos + length taken, fs_good := length bs \<le> st_room st\<rparr>)\<rparr>)"

definition fs_seek :: "nat \<Rightarrow> fstream \<Rightarrow> fstream" where
  "fs_seek p f = (if fs_good f then f\<lparr>fs_pos := p\<rparr> else f)"

definition fs_tell :: "fstream \<Rightarrow> int" where
  "fs_tell f = (if fs_good f then int (fs_pos f) else -1)"

text \<open>\<^verbatim>\<open>peek() == EOF\<close>, and a read of \<open>n\<close> bytes: what it stored, and whether the stream is still good.\<close>

definition at_eof :: "fstream \<Rightarrow> bytes \<Rightarrow> bool" where
  "at_eof f c \<longleftrightarrow> \<not> fs_good f \<or> \<not> fs_in f \<or> length c \<le> fs_pos f"

definition fs_read :: "nat \<Rightarrow> bytes \<Rightarrow> fstream \<Rightarrow> bytes \<times> fstream" where
  "fs_read n c f =
     (if \<not> fs_good f \<or> \<not> fs_in f then ([], f\<lparr>fs_good := False\<rparr>)
      else let bs = take n (drop (fs_pos f) c)
           in (bs, f\<lparr>fs_pos := fs_pos f + length bs, fs_good := length bs = n\<rparr>))"

subsection \<open>The operations of the class\<close>

definition mk_storage :: "bytes option \<Rightarrow> storage" where
  "mk_storage file = \<lparr>st_file = file, st_dir_exists = True, st_can_create_dir = True, st_can_open = True,
     st_room = 2 ^ 40, st_errno = 0, st_stream = None, st_last_error = err_ok\<rparr>"

definition storage_open :: "storage_mode \<Rightarrow> storage \<Rightarrow> bool \<times> storage" where
  "storage_open m st =
     (let st = st\<lparr>st_last_error := err_ok\<rparr>
      in if st_stream st \<noteq> None then (False, st)
         else if sm_read m \<and> \<not> sm_write m \<and> st_file st = None
           then (False, st\<lparr>st_last_error := file_not_exist\<rparr>)
         else if \<not> st_dir_exists st \<and> \<not> st_can_create_dir st
           then (False, st\<lparr>st_last_error := create_directory_error\<rparr>)
         else
           let st = fstream_open m (st\<lparr>st_dir_exists := True\<rparr>)
           in case st_stream st of
                None \<Rightarrow> (False, st\<lparr>st_last_error := open_file_error\<rparr>)
              | Some f \<Rightarrow>
                  (True, if (sm_append m \<or> sm_at_end m) \<and> sm_write m
                         then st\<lparr>st_stream := Some (fs_seek (length (contents st)) f)\<rparr> else st))"

definition storage_close :: "storage \<Rightarrow> storage" where
  "storage_close st = st\<lparr>st_stream := None\<rparr>"

definition get_offset :: "storage \<Rightarrow> int" where
  "get_offset st = (case st_stream st of None \<Rightarrow> 0 | Some f \<Rightarrow> fs_tell f)"

type_synonym result_type = "bool \<times> int"

text \<open>
  One \<^verbatim>\<open>active_file_stream_->write\<close> and the check behind it: \<open>None\<close> goes on, \<open>Some\<close> returns.
\<close>

definition write_step :: "bytes \<Rightarrow> storage \<Rightarrow> result_type option \<times> storage" where
  "write_step bs st =
     (case st_stream st of
        None \<Rightarrow> (Some (False, st_errno st), st)
      | Some f \<Rightarrow>
          let st' = fs_write bs f st
          in if (case st_stream st' of None \<Rightarrow> True | Some f' \<Rightarrow> \<not> fs_good f')
             then (Some (False, st_errno st'), st') else (None, st'))"

text \<open>
  \<open>write_data_block\<close>: the result, the offset it stores into its argument, the storage and the data
  stream. Outer \<open>None\<close> is the null pointer that \<^verbatim>\<open>_data.read\<close> returns for more than is available.
\<close>

definition write_data_block ::
  "binary_stream \<Rightarrow> int \<Rightarrow> storage \<Rightarrow> (result_type \<times> int \<times> binary_stream \<times> storage) option" where
  "write_data_block d offset st =
     (case st_stream st of
        None \<Rightarrow> Some ((False, 0), offset, d, st)
      | Some f \<Rightarrow>
          let offset = fs_tell f;
              data_size = word_of_int (available d) :: u32
          in if data_size = 0 then Some ((False, 2 ^ 31 - 1), offset, d, st)
             else case write_step (u32_image data_size) st of
               (Some r, st) \<Rightarrow> Some (r, offset, d, st)
             | (None, st) \<Rightarrow>
             case write_step (u32_image data_size) st of
               (Some r, st) \<Rightarrow> Some (r, offset, d, st)
             | (None, st) \<Rightarrow>
             case read_bytes (unat data_size) d of
               None \<Rightarrow> None
             | Some (bs, d) \<Rightarrow>
             case write_step bs st of
               (Some r, st) \<Rightarrow> Some (r, offset, d, st)
             | (None, st) \<Rightarrow>
             case write_step (u32_image data_size) st of
               (Some r, st) \<Rightarrow> Some (r, offset, d, st)
             | (None, st) \<Rightarrow>
             case write_step (u32_image data_size) st of
               (Some r, st) \<Rightarrow> Some (r, offset, d, st)
             | (None, st) \<Rightarrow> Some ((True, 0), offset, d, st))"

definition seek_stream :: "nat \<Rightarrow> storage \<Rightarrow> storage" where
  "seek_stream p st = st\<lparr>st_stream := map_option (fs_seek p) (st_stream st)\<rparr>"

definition write_data_block_at ::
  "binary_stream \<Rightarrow> nat \<Rightarrow> storage \<Rightarrow> (result_type \<times> binary_stream \<times> storage) option" where
  "write_data_block_at d offset st =
     (if st_stream st = None then None
      else case write_data_block d (int offset) (seek_stream offset st) of
             None \<Rightarrow> None
           | Some (r, _, d, st) \<Rightarrow> Some (r, d, seek_stream (length (contents st)) st))"

definition max_data_block_size :: u32 where
  "max_data_block_size = 1024 * 1024"

text \<open>One read of a size word: \<open>None\<close> when the stream is not good afterwards.\<close>

definition read_word :: "bytes \<Rightarrow> fstream \<Rightarrow> u32 option \<times> fstream" where
  "read_word c f =
     (case fs_read 4 c f of (bs, f') \<Rightarrow> (if fs_good f' then Some (u32_value bs) else None, f'))"

text \<open>The reading proper, on an open stream: the result, the stream and the data buffer.\<close>

definition read_block_body :: "bytes \<Rightarrow> fstream \<Rightarrow> binary_stream \<Rightarrow> bool \<times> fstream \<times> binary_stream" where
  "read_block_body c f d =
     (case read_word c f of
        (None, f) \<Rightarrow> (False, f, d)
      | (Some sz1, f) \<Rightarrow>
      case read_word c f of
        (None, f) \<Rightarrow> (False, f, d)
      | (Some sz2, f) \<Rightarrow>
      if sz1 \<noteq> sz2 \<or> sz1 > max_data_block_size then (False, f, d)
      else
      case (if sz1 \<noteq> 0
            then case alloc_buffer (unat sz1) d of
                   (pos, d) \<Rightarrow> (case fs_read (unat sz1) c f of (bs, f) \<Rightarrow> (fs_good f, f, poke pos bs d))
            else (True, f, d)) of
        (False, f, d) \<Rightarrow> (False, f, d)
      | (True, f, d) \<Rightarrow>
      case read_word c f of
        (None, f) \<Rightarrow> (False, f, d)
      | (Some sz3, f) \<Rightarrow>
      case read_word c f of
        (None, f) \<Rightarrow> (False, f, d)
      | (Some sz4, f) \<Rightarrow> (\<not> (sz1 \<noteq> sz3 \<or> sz1 \<noteq> sz4), f, d))"

text \<open>\<open>read_data_block\<close>; the offset \<^verbatim>\<open>-1\<close> reads on from where the stream stands. A closed storage is a null dereference.\<close>

definition read_data_block ::
  "int \<Rightarrow> storage \<Rightarrow> binary_stream \<Rightarrow> (bool \<times> storage \<times> binary_stream) option" where
  "read_data_block offset st d =
     (case st_stream st of
        None \<Rightarrow> None
      | Some f \<Rightarrow>
          let f = (if offset \<noteq> -1 then fs_seek (nat offset) f else f)
          in if at_eof f (contents st)
             then Some (False, st\<lparr>st_stream := Some (f\<lparr>fs_good := False\<rparr>), st_last_error := end_of_file\<rparr>, d)
             else case read_block_body (contents st) f d of
                    (r, f, d) \<Rightarrow> Some (r, st\<lparr>st_stream := Some f\<rparr>, d))"

subsection \<open>A block in a file\<close>

definition enc_block :: "bytes \<Rightarrow> bytes" where
  "enc_block bs = (let w = u32_image (word_of_nat (length bs)) in w @ w @ bs @ w @ w)"

definition good_block :: "bytes \<Rightarrow> bool" where
  "good_block bs \<longleftrightarrow> bs \<noteq> [] \<and> length bs \<le> 1024 * 1024"

definition appending :: "storage \<Rightarrow> bool" where
  "appending st \<longleftrightarrow> (\<exists>f. st_stream st = Some f \<and> fs_good f \<and> fs_out f \<and> fs_pos f = length (contents st))"

lemma length_enc_block [simp]: "length (enc_block bs) = 16 + length bs"
  by (simp add: enc_block_def Let_def)

lemma put_at_end: "put_at c (length c) bs = c @ bs"
  by (simp add: put_at_def)

lemma contents_simps [simp]:
  "contents (st\<lparr>st_file := Some c\<rparr>) = c" "contents (st\<lparr>st_stream := f\<rparr>) = contents st"
  "contents (st\<lparr>st_room := n\<rparr>) = contents st" "contents (st\<lparr>st_last_error := e\<rparr>) = contents st"
  "contents (st\<lparr>st_dir_exists := b\<rparr>) = contents st"
  by (simp_all add: contents_def)

lemma fs_write_append:
  assumes "st_stream st = Some f" "fs_good f" "fs_out f" "fs_pos f = length (contents st)"
  shows "fs_write bs f st =
    st\<lparr>st_file := Some (contents st @ take (st_room st) bs), st_room := st_room st - length bs,
       st_stream := Some (f\<lparr>fs_pos := length (contents st) + min (length bs) (st_room st),
         fs_good := length bs \<le> st_room st\<rparr>)\<rparr>"
  using assms by (simp add: fs_write_def Let_def put_at_end min_def)

lemma write_step_append:
  assumes "appending st" and "length bs \<le> st_room st"
  shows "\<exists>st'. write_step bs st = (None, st') \<and> appending st' \<and> contents st' = contents st @ bs \<and>
    st_room st' = st_room st - length bs"
proof -
  obtain f where "st_stream st = Some f" "fs_good f" "fs_out f" "fs_pos f = length (contents st)"
    using assms(1) by (auto simp: appending_def)
  with assms(2) show ?thesis by (auto simp: write_step_def fs_write_append Let_def appending_def)
qed

lemma write_step_full:
  assumes "appending st" and "st_room st < length bs"
  shows "\<exists>st'. write_step bs st = (Some (False, st_errno st), st') \<and>
    contents st' = contents st @ take (st_room st) bs \<and> st_errno st' = st_errno st"
proof -
  obtain f where "st_stream st = Some f" "fs_good f" "fs_out f" "fs_pos f = length (contents st)"
    using assms(1) by (auto simp: appending_def)
  with assms(2) show ?thesis by (auto simp: write_step_def fs_write_append Let_def)
qed

lemma write_data_block_append:
  assumes "appending st" and "wf_stream d" and "pending d \<noteq> []" and "length (pending d) < 2 ^ 32"
    and "length (pending d) + 16 \<le> st_room st"
  shows "\<exists>d' st'. write_data_block d off st = Some ((True, 0), int (length (contents st)), d', st') \<and>
    contents st' = contents st @ enc_block (pending d) \<and> appending st' \<and>
    st_room st' = st_room st - (16 + length (pending d)) \<and> wf_stream d' \<and> pending d' = []"
proof -
  let ?bs = "pending d" and ?n = "word_of_nat (length (pending d)) :: u32"
  let ?w = "u32_image ?n"
  have un: "unat ?n = length ?bs" using assms(4) by (rule u32_value_length)
  have sz: "word_of_int (available d) = ?n" using assms(2) by (simp add: available_pending)
  have nz: "?n \<noteq> 0" using un assms(3) by (metis length_0_conv unat_0)
  obtain f where f: "st_stream st = Some f" "fs_tell f = int (length (contents st))"
    using assms(1) by (auto simp: appending_def fs_tell_def)
  have room: "4 \<le> st_room st" "4 \<le> st_room st - 4" "length ?bs \<le> st_room st - 8"
    "4 \<le> st_room st - 8 - length ?bs" "4 \<le> st_room st - 12 - length ?bs"
    using assms(5) by linarith+
  obtain s1 where s1: "write_step ?w st = (None, s1)" "appending s1" "contents s1 = contents st @ ?w"
    "st_room s1 = st_room st - 4"
    using write_step_append [OF assms(1), of ?w] room by auto
  obtain s2 where s2: "write_step ?w s1 = (None, s2)" "appending s2" "contents s2 = contents s1 @ ?w"
    "st_room s2 = st_room st - 8"
    using write_step_append [OF s1(2), of ?w] room s1(4) by auto
  obtain s3 where s3: "write_step ?bs s2 = (None, s3)" "appending s3" "contents s3 = contents s2 @ ?bs"
    "st_room s3 = st_room st - 8 - length ?bs"
    using write_step_append [OF s2(2), of ?bs] room s2(4) by auto
  obtain s4 where s4: "write_step ?w s3 = (None, s4)" "appending s4" "contents s4 = contents s3 @ ?w"
    "st_room s4 = st_room st - 12 - length ?bs"
    using write_step_append [OF s3(2), of ?w] room s3(4) by auto
  obtain s5 where s5: "write_step ?w s4 = (None, s5)" "appending s5" "contents s5 = contents s4 @ ?w"
    "st_room s5 = st_room st - 16 - length ?bs"
    using write_step_append [OF s4(2), of ?w] room s4(4) by auto
  have rd: "read_bytes (unat ?n) d = Some (?bs, advance (length ?bs) d)"
    using assms(2,3) un by (simp add: read_pending)
  show ?thesis
    using f sz nz rd s1(1) s2(1) s3(1) s4(1) s5 s1(3) s2(3) s3(3) s4(3) assms(2)
    by (auto simp: write_data_block_def Let_def enc_block_def)
qed

text \<open>A write changes the file, the room and the stream, and nothing of the environment.\<close>

definition same_env :: "storage \<Rightarrow> storage \<Rightarrow> bool" where
  "same_env st st' \<longleftrightarrow> st_dir_exists st' = st_dir_exists st \<and> st_can_create_dir st' = st_can_create_dir st \<and>
     st_can_open st' = st_can_open st \<and> st_errno st' = st_errno st \<and> st_last_error st' = st_last_error st"

lemma same_env_refl [simp]: "same_env st st"
  by (simp add: same_env_def)

lemma same_env_trans: "same_env a b \<Longrightarrow> same_env b c \<Longrightarrow> same_env a c"
  by (simp add: same_env_def)

lemma write_step_env: "write_step bs st = (r, st') \<Longrightarrow> same_env st st'"
  by (auto simp: write_step_def fs_write_def same_env_def Let_def split: option.splits if_splits)

lemma write_data_block_env: "write_data_block d off st = Some (r, off', d', st') \<Longrightarrow> same_env st st'"
  by (auto simp: write_data_block_def Let_def split: option.splits if_splits prod.splits
      dest!: write_step_env) (simp_all add: same_env_def)

subsection \<open>Reading a block back\<close>

definition readable :: "fstream \<Rightarrow> bool" where
  "readable f \<longleftrightarrow> fs_good f \<and> fs_in f"

definition move :: "nat \<Rightarrow> fstream \<Rightarrow> fstream" where
  "move n f = f\<lparr>fs_pos := fs_pos f + n\<rparr>"

lemma move_simps [simp]: "readable (move n f) = readable f" "fs_pos (move n f) = fs_pos f + n"
  "move m (move n f) = move (n + m) f"
  by (simp_all add: readable_def move_def add.assoc)

lemma fs_read_prefix:
  "readable f \<Longrightarrow> drop (fs_pos f) c = bs @ r \<Longrightarrow> length bs = n \<Longrightarrow> fs_read n c f = (bs, move n f)"
  by (auto simp: fs_read_def readable_def move_def)

lemma read_word_prefix:
  "readable f \<Longrightarrow> drop (fs_pos f) c = u32_image w @ r \<Longrightarrow> read_word c f = (Some w, move 4 f)"
  by (simp add: read_word_def fs_read_prefix [where bs = "u32_image w" and r = r])
    (simp add: readable_def move_def)

lemma drop_move: "drop (fs_pos f) c = bs @ r \<Longrightarrow> drop (fs_pos (move (length bs) f)) c = r"
  by (metis append_eq_conv_conj drop_drop add.commute move_simps(2))

lemma read_block_body_enc:
  assumes f: "readable f" and good: "good_block bs" and c: "drop (fs_pos f) c = enc_block bs @ r"
    and d: "wf_stream d"
  shows "\<exists>d'. read_block_body c f d = (True, move (16 + length bs) f, d') \<and> wf_stream d' \<and>
    pending d' = pending d @ bs"
proof -
  let ?n = "word_of_nat (length bs) :: u32" let ?w = "u32_image ?n"
  have len: "length bs < 2 ^ 32" and un: "unat ?n = length bs"
    using good by (simp_all add: good_block_def u32_value_length)
  have c0: "drop (fs_pos f) c = ?w @ ?w @ bs @ ?w @ ?w @ r"
    using c by (simp add: enc_block_def Let_def)
  have c1: "drop (fs_pos (move 4 f)) c = ?w @ bs @ ?w @ ?w @ r" using drop_move [OF c0] by simp
  have c2: "drop (fs_pos (move 8 f)) c = bs @ ?w @ ?w @ r" using drop_move [OF c1] by simp
  have c3: "drop (fs_pos (move (8 + length bs) f)) c = ?w @ ?w @ r" using drop_move [OF c2] by simp
  have c4: "drop (fs_pos (move (8 + length bs + 4) f)) c = ?w @ r" using drop_move [OF c3] by simp
  have nz: "?n \<noteq> 0" using un good by (metis good_block_def length_0_conv unat_0)
  have small: "\<not> ?n > max_data_block_size"
    using good un by (simp add: good_block_def max_data_block_size_def word_less_nat_alt not_less)
  obtain pos d1 where al: "alloc_buffer (length bs) d = (pos, d1)" by fastforce
  with alloc_poke [OF d refl, of bs] have d1: "wf_stream (poke pos bs d1)" "pending (poke pos bs d1) = pending d @ bs"
    by simp_all
  have r: "fs_read (length bs) c (move 8 f) = (bs, move (8 + length bs) f)"
    using fs_read_prefix [OF _ c2 refl] f by simp
  have g: "fs_good (move (8 + length bs) f)" using f by (simp add: readable_def move_def)
  have w: "read_word c f = (Some ?n, move 4 f)" "read_word c (move 4 f) = (Some ?n, move 8 f)"
    "read_word c (move (8 + length bs) f) = (Some ?n, move (12 + length bs) f)"
    "read_word c (move (12 + length bs) f) = (Some ?n, move (16 + length bs) f)"
    using read_word_prefix [OF _ c0] read_word_prefix [OF _ c1] read_word_prefix [OF _ c3]
      read_word_prefix [OF _ c4] f by (simp_all add: add.commute)
  show ?thesis using w nz small al r g d1 un by (simp add: read_block_body_def)
qed

definition open_reading :: "storage \<Rightarrow> bool" where
  "open_reading st \<longleftrightarrow> (\<exists>f. st_stream st = Some f \<and> readable f)"

definition unread :: "storage \<Rightarrow> bytes" where
  "unread st = (case st_stream st of None \<Rightarrow> [] | Some f \<Rightarrow> drop (fs_pos f) (contents st))"

lemma read_data_block_enc:
  assumes "open_reading st" and "good_block bs" and "unread st = enc_block bs @ r" and "wf_stream d"
  shows "\<exists>st' d'. read_data_block (-1) st d = Some (True, st', d') \<and> open_reading st' \<and> unread st' = r \<and>
    contents st' = contents st \<and> wf_stream d' \<and> pending d' = pending d @ bs"
proof -
  obtain f where f: "st_stream st = Some f" "readable f" using assms(1) by (auto simp: open_reading_def)
  then have c: "drop (fs_pos f) (contents st) = enc_block bs @ r" using assms(3) by (simp add: unread_def)
  then have "length (enc_block bs) \<le> length (contents st) - fs_pos f" by (metis length_append length_drop le_add1)
  then have "\<not> at_eof f (contents st)" using f(2) by (auto simp: at_eof_def readable_def)
  moreover obtain d' where "read_block_body (contents st) f d = (True, move (16 + length bs) f, d')"
    "wf_stream d'" "pending d' = pending d @ bs"
    using read_block_body_enc [OF f(2) assms(2) c assms(4)] by blast
  moreover have "drop (fs_pos (move (16 + length bs) f)) (contents st) = r"
    using drop_move [OF c] by simp
  ultimately show ?thesis
    using f by (auto simp: read_data_block_def Let_def open_reading_def unread_def)
qed

text \<open>The blocks of a file are framed: one call of the reader hands out the next of them.\<close>

definition next_block :: "storage \<Rightarrow> (bytes \<times> storage) option" where
  "next_block st =
     (if st_stream st = None then None
      else case read_data_block (-1) st empty_stream of
             Some (True, st', d) \<Rightarrow> Some (pending d, st') | _ \<Rightarrow> None)"

interpretation file_frames: framing enc_block next_block unread open_reading good_block "\<lambda>bs. bs"
proof unfold_locales
  fix s x r
  assume "open_reading s" "good_block x" "unread s = enc_block x @ r"
  then show "\<exists>y s'. next_block s = Some (y, s') \<and> y = x \<and> open_reading s' \<and> unread s' = r"
    using read_data_block_enc [of s x r empty_stream] by (auto simp: next_block_def open_reading_def)
next
  fix x :: bytes
  show "enc_block x \<noteq> []" by (simp flip: length_0_conv)
qed

subsection \<open>Writing blocks\<close>

text \<open>The writes of \<^verbatim>\<open>messages_data::update\<close>, one block after another on an open storage.\<close>

fun write_blocks :: "binary_stream list \<Rightarrow> storage \<Rightarrow> (bool \<times> storage) option" where
  "write_blocks [] st = Some (True, st)"
| "write_blocks (d # ds) st =
     (case write_data_block d 0 st of
        None \<Rightarrow> None
      | Some (r, _, _, st') \<Rightarrow> if fst r then write_blocks ds st' else Some (False, st'))"

lemma write_blocks_appends:
  assumes "appending st" and "\<forall>d\<in>set ds. wf_stream d \<and> good_block (pending d)"
    and "(\<Sum>d\<leftarrow>ds. 16 + length (pending d)) \<le> st_room st"
  shows "\<exists>st'. write_blocks ds st = Some (True, st') \<and> appending st' \<and>
    contents st' = contents st @ concat (map (\<lambda>d. enc_block (pending d)) ds)"
  using assms
proof (induction ds arbitrary: st)
  case (Cons d ds)
  then have "wf_stream d" "pending d \<noteq> []" "length (pending d) < 2 ^ 32" "length (pending d) + 16 \<le> st_room st"
    by (auto simp: good_block_def)
  from write_data_block_append [OF Cons.prems(1) this, of 0] obtain d' st1 where
    w: "write_data_block d 0 st = Some ((True, 0), int (length (contents st)), d', st1)"
      "contents st1 = contents st @ enc_block (pending d)" "appending st1"
      "st_room st1 = st_room st - (16 + length (pending d))" by blast
  with Cons.IH [of st1] Cons.prems show ?case by auto
qed simp

text \<open>C31: Blocks of at most 1 MiB that are written to an open storage with enough room are all accepted,
  leave what the file held before unchanged, and a reader that starts where they start hands out
  exactly them, in order, and ends at the end of the file.\<close>

theorem blocks_written_are_read:
  assumes "appending st" and "\<forall>d\<in>set ds. wf_stream d \<and> good_block (pending d)"
    and "(\<Sum>d\<leftarrow>ds. 16 + length (pending d)) \<le> st_room st"
    and "open_reading rd" and "contents st = old"
    and "unread rd = drop (length old) (contents (snd (the (write_blocks ds st))))"
  shows "\<exists>st' rd'. write_blocks ds st = Some (True, st') \<and> take (length old) (contents st') = old \<and>
    file_frames.run rd (map pending ds) rd' \<and> unread rd' = []"
proof -
  obtain st' where w: "write_blocks ds st = Some (True, st')"
    "contents st' = old @ concat (map (\<lambda>d. enc_block (pending d)) ds)"
    using write_blocks_appends [OF assms(1-3)] assms(5) by blast
  then have "unread rd = concat (map enc_block (map pending ds)) @ []"
    using assms(6) by (simp add: comp_def)
  moreover have "list_all good_block (map pending ds)" using assms(2) by (simp add: list_all_iff)
  ultimately obtain ys rd' where "file_frames.run rd ys rd'" "map (\<lambda>bs. bs) ys = map pending ds" "unread rd' = []"
    by - (rule file_frames.run_encoded [of rd "map pending ds" "[]", OF assms(4)])
  with w show ?thesis by auto
qed

definition stream_at :: "bool \<Rightarrow> nat \<Rightarrow> bytes \<Rightarrow> nat \<Rightarrow> storage" where
  "stream_at for_writing pos c room = \<lparr>st_file = Some c, st_dir_exists = True, st_can_create_dir = True,
     st_can_open = True, st_room = room, st_errno = 0,
     st_stream = Some \<lparr>fs_pos = pos, fs_good = True, fs_in = \<not> for_writing, fs_out = for_writing, fs_app = for_writing\<rparr>,
     st_last_error = err_ok\<rparr>"

lemma stream_at_simps [simp]:
  "contents (stream_at w pos c n) = c" "st_room (stream_at w pos c n) = n"
  "appending (stream_at True (length c) c n)" "open_reading (stream_at False pos c n)"
  "unread (stream_at False pos c n) = drop pos c"
  by (simp_all add: stream_at_def contents_def appending_def open_reading_def readable_def unread_def)

theorem blocks_written_are_read_witness:
  "\<exists>rd'. file_frames.run (stream_at False 0 (enc_block [1] @ enc_block [2, 3]) 0) [[1], [2, 3]] rd' \<and> unread rd' = []"
proof -
  let ?ds = "[write_bytes [1] empty_stream, write_bytes [2, 3] empty_stream]"
  let ?st = "stream_at True 0 [] 100"
  have ap: "appending ?st" using stream_at_simps(3) [of "[]" 100] by simp
  have c: "contents (snd (the (write_blocks ?ds ?st))) = enc_block [1] @ enc_block [2, 3]"
    using write_blocks_appends [OF ap, of ?ds] by (auto simp: good_block_def)
  show ?thesis
    using blocks_written_are_read [of ?st ?ds "stream_at False 0 (enc_block [1] @ enc_block [2, 3]) 0" "[]"] ap c
    by (auto simp: good_block_def)
qed

lemma write_data_block_returns: "wf_stream d \<Longrightarrow> write_data_block d off st \<noteq> None"
proof -
  assume wf: "wf_stream d"
  let ?n = "unat (word_of_int (available d) :: u32)"
  have "?n \<le> length (pending d)"
    by (simp add: available_pending [OF wf] unat_of_nat)
  then have "read_bytes ?n d \<noteq> None" if "word_of_int (available d) \<noteq> (0 :: u32)"
    using read_pending [OF wf, of ?n] that by (metis option.distinct(1) unat_gt_0)
  then show ?thesis
    by (auto simp: write_data_block_def Let_def split: option.split prod.split)
qed

text \<open>The writer accepts blocks that the reader refuses.\<close>

lemma read_oversize:
  assumes "open_reading rd" and "unread rd = enc_block bs" and "1024 * 1024 < length bs" and "length bs < 2 ^ 32"
  shows "\<exists>rd' x'. read_data_block (-1) rd x = Some (False, rd', x')"
proof -
  let ?n = "word_of_nat (length bs) :: u32"
  have big: "?n > max_data_block_size"
    using assms(3,4) by (simp add: max_data_block_size_def word_less_nat_alt unat_of_nat)
  obtain f where f: "st_stream rd = Some f" "readable f" and u: "drop (fs_pos f) (contents rd) = enc_block bs"
    using assms(1,2) by (auto simp: open_reading_def unread_def)
  from u have w1: "read_word (contents rd) f = (Some ?n, move 4 f)"
    by (intro read_word_prefix [OF f(2)]) (simp add: enc_block_def Let_def)
  have "drop (fs_pos (move (length (u32_image ?n)) f)) (contents rd) = u32_image ?n @ bs @ u32_image ?n @ u32_image ?n"
    by (rule drop_move) (use u in \<open>simp add: enc_block_def Let_def\<close>)
  then have w2: "read_word (contents rd) (move 4 f) = (Some ?n, move 8 f)"
    using read_word_prefix [of "move 4 f" "contents rd" ?n] f(2) by simp
  have "drop (fs_pos f) (contents rd) \<noteq> []" using u by (simp flip: length_0_conv)
  then have "\<not> at_eof f (contents rd)" using f(2) by (auto simp: at_eof_def readable_def)
  then show ?thesis using f w1 w2 big by (simp add: read_data_block_def read_block_body_def Let_def)
qed

subsection \<open>Opening\<close>

text \<open>A closed storage whose file the system lets be opened.\<close>

definition can_use_file :: "storage \<Rightarrow> bool" where
  "can_use_file st \<longleftrightarrow> st_stream st = None \<and> st_can_open st \<and> (st_dir_exists st \<or> st_can_create_dir st)"

lemma open_truncate:
  assumes "can_use_file st"
  shows "\<exists>st'. storage_open (mode_zero\<lparr>sm_write := True, sm_truncate := True\<rparr>) st = (True, st') \<and>
    appending st' \<and> contents st' = [] \<and> st_room st' = st_room st \<and> can_use_file (storage_close st')"
  using assms
  by (auto simp: storage_open_def can_use_file_def mode_zero_def fstream_open_def filebuf_mode_def Let_def
      appending_def contents_def storage_close_def)

lemma open_read:
  assumes "can_use_file st" and "st_file st \<noteq> None"
  shows "\<exists>st'. storage_open (mode_zero\<lparr>sm_read := True\<rparr>) st = (True, st') \<and>
    open_reading st' \<and> unread st' = contents st"
  using assms
  by (auto simp: storage_open_def can_use_file_def mode_zero_def fstream_open_def filebuf_mode_def Let_def
      open_reading_def readable_def unread_def contents_def)

lemma same_env_can_use: "same_env st st' \<Longrightarrow> can_use_file (storage_close st) \<Longrightarrow> can_use_file (storage_close st')"
  by (auto simp: same_env_def can_use_file_def storage_close_def)

lemma open_append:
  assumes "can_use_file st"
  shows "\<exists>st'. storage_open (mode_zero\<lparr>sm_write := True, sm_append := True\<rparr>) st = (True, st') \<and>
    appending st' \<and> contents st' = contents st \<and> st_room st' = st_room st \<and> can_use_file (storage_close st') \<and>
    st_file st' \<noteq> None"
  using assms
  by (auto simp: storage_open_def can_use_file_def mode_zero_def fstream_open_def filebuf_mode_def Let_def
      appending_def storage_close_def fs_seek_def)

lemma open_read_append:
  assumes "can_use_file st" and "st_file st \<noteq> None"
  shows "\<exists>st'. storage_open (mode_zero\<lparr>sm_read := True, sm_append := True\<rparr>) st = (True, st') \<and>
    open_reading st' \<and> contents st' = contents st \<and> can_use_file (storage_close st')"
  using assms
  by (auto simp: storage_open_def can_use_file_def mode_zero_def fstream_open_def filebuf_mode_def Let_def
      open_reading_def readable_def storage_close_def)

lemma storage_open_closed:
  "storage_open m st = (False, st') \<Longrightarrow> st_stream st = None \<Longrightarrow> st_stream st' = None"
  by (auto simp: storage_open_def Let_def split: if_splits option.splits)

subsection \<open>A failing write\<close>

lemma write_step_prefix:
  assumes "appending st" and "write_step bs st = (r, st')"
  obtains k where "contents st' = contents st @ take k bs"
    and "r = None \<Longrightarrow> appending st' \<and> contents st' = contents st @ bs"
proof (cases "length bs \<le> st_room st")
  case True
  from write_step_append [OF assms(1) this] assms(2) have "r = None" "appending st'" "contents st' = contents st @ bs"
    by auto
  then show thesis using that [of "length bs"] by simp
next
  case False
  then have "st_room st < length bs" by simp
  from write_step_full [OF assms(1) this] assms(2) have "r \<noteq> None" "contents st' = contents st @ take (st_room st) bs"
    by auto
  then show thesis using that [of "st_room st"] by blast
qed

fun run_steps :: "bytes list \<Rightarrow> storage \<Rightarrow> result_type option \<times> storage" where
  "run_steps [] st = (None, st)"
| "run_steps (b # bs) st =
     (case write_step b st of (Some r, st') \<Rightarrow> (Some r, st') | (None, st') \<Rightarrow> run_steps bs st')"

lemma run_steps_prefix:
  "appending st \<Longrightarrow> run_steps bss st = (r, st') \<Longrightarrow> \<exists>k. contents st' = contents st @ take k (concat bss)"
proof (induction bss arbitrary: st)
  case (Cons b bss)
  obtain q st1 where q: "write_step b st = (q, st1)" by fastforce
  show ?case
  proof (cases q)
    case None
    with write_step_prefix [OF Cons.prems(1) q] have st1: "appending st1" "contents st1 = contents st @ b" by blast+
    with Cons.IH [of st1] Cons.prems(2) q None obtain k where "contents st' = contents st1 @ take k (concat bss)" by auto
    with st1 show ?thesis by (intro exI [of _ "length b + k"]) simp
  next
    case (Some x)
    obtain k where "contents st1 = contents st @ take k b" using write_step_prefix [OF Cons.prems(1) q] by blast
    then have "contents st1 = contents st @ take (min k (length b)) (concat (b # bss))" by (simp add: min_def)
    with Some q Cons.prems(2) show ?thesis by (intro exI [of _ "min k (length b)"]) simp
  qed
qed simp

lemma write_data_block_steps:
  assumes "st_stream st = Some f" and "wf_stream d" and "pending d \<noteq> []" and "length (pending d) < 2 ^ 32"
    and "write_data_block d off st = Some (r, off', d', st')"
  shows "\<exists>q. run_steps [u32_image (word_of_nat (length (pending d))), u32_image (word_of_nat (length (pending d))),
    pending d, u32_image (word_of_nat (length (pending d))), u32_image (word_of_nat (length (pending d)))] st = (q, st')"
proof -
  let ?n = "word_of_nat (length (pending d)) :: u32"
  have un: "unat ?n = length (pending d)" using assms(4) by (simp add: unat_of_nat)
  then have nz: "?n \<noteq> 0" using assms(3) by force
  have rd: "read_bytes (length (pending d)) d = Some (pending d, advance (length (pending d)) d)"
    using assms(2,3) by (simp add: read_pending)
  have av: "word_of_int (available d) = ?n" using assms(2) by (simp add: available_pending)
  show ?thesis
    using assms(1,5) rd nz un unfolding write_data_block_def Let_def av
    by (auto split: prod.splits option.splits)
qed

lemma write_data_block_total:
  assumes "wf_stream d" and "length (pending d) < 2 ^ 32"
  shows "write_data_block d off st \<noteq> None"
proof (cases "pending d = []")
  case True
  then show ?thesis using assms by (cases "st_stream st") (auto simp: write_data_block_def available_pending)
next
  case False
  have "unat (word_of_int (available d) :: u32) = length (pending d)"
    using assms by (simp add: available_pending unat_of_nat)
  moreover have "read_bytes (length (pending d)) d = Some (pending d, advance (length (pending d)) d)"
    using assms(1) False by (simp add: read_pending)
  ultimately show ?thesis
    by (simp add: write_data_block_def Let_def del: not_None_eq split: option.split prod.split)
qed

text \<open>Whatever happens to a write, a full disk included, it returns, the bytes that were in the file stay,
  and what follows them is a prefix of the block.\<close>

theorem failed_write_keeps_file:
  assumes "appending st" and "wf_stream d" and "length (pending d) < 2 ^ 32"
  shows "\<exists>r off' d' st' k. write_data_block d off st = Some (r, off', d', st') \<and>
    contents st' = contents st @ take k (enc_block (pending d))"
proof -
  obtain r off' d' st' where w: "write_data_block d off st = Some (r, off', d', st')"
    using write_data_block_total [OF assms(2,3), of off st] by (metis not_Some_eq prod_cases4)
  have "\<exists>k. contents st' = contents st @ take k (enc_block (pending d))"
  proof (cases "pending d = []")
    case True
    then have "contents st' = contents st"
      using assms w by (auto simp: write_data_block_def appending_def available_pending)
    then show ?thesis by (intro exI [of _ 0]) simp
  next
    case False
    obtain f where "st_stream st = Some f" using assms(1) by (auto simp: appending_def)
    from write_data_block_steps [OF this assms(2) False assms(3) w] run_steps_prefix [OF assms(1)]
    show ?thesis unfolding enc_block_def Let_def by fastforce
  qed
  with w show ?thesis by blast
qed

theorem failed_write_keeps_file_witness:
  "\<exists>r o' d' st' k. write_data_block (write_bytes [7, 8] empty_stream) 0 (stream_at True 1 [9] 5) = Some (r, o', d', st') \<and>
     contents st' = [9] @ take k (enc_block [7, 8])"
proof -
  have "appending (stream_at True 1 [9] 5)" using stream_at_simps(3) [of "[9]" 5] by simp
  from failed_write_keeps_file [OF this, of "write_bytes [7, 8] empty_stream" 0] show ?thesis by simp
qed

end
