(* ===== verification/Dlg_State.thy ===== *)
theory Dlg_State
  imports Drafts Storage
begin

text \<open>
  The state of a dialog (\<^verbatim>\<open>core/archive/dlg_state.h\<close> and \<^verbatim>\<open>.cpp\<close>): what is unread, how far both sides have
  read, the last and the pinned message, up to where history was deleted; and \<open>archive_state\<close>, which
  keeps it in a block file and merges what the server says into it.

  Objects that the code assigns keep what the assignment of messages leaves (\<^verbatim>\<open>copy\<close>).
\<close>

subsection \<open>The state\<close>

datatype topic_type = invalid_topic | message_topic | task_topic

record thread_parent_topic =
  tp_type :: topic_type
  tp_chat_id :: cstring
  tp_msg_id :: int
  tp_task_id :: cstring

record dlg_state =
  ds_unread_count :: "u32 option"
  ds_unread_mentions_count :: "int option"
  ds_info_version :: "cstring option"
  ds_members_version :: "cstring option"
  ds_last_read_mention :: int
  ds_last_msgid :: int
  ds_yours_last_read :: int
  ds_del_up_to :: int
  ds_theirs_last_read :: int
  ds_theirs_last_delivered :: int
  ds_hidden_msg_id :: int
  ds_visible :: bool
  ds_fake :: bool
  ds_official :: bool
  ds_suspicious :: bool
  ds_attention :: bool
  ds_stranger :: bool
  ds_no_recents_update :: bool
  ds_last_message :: history_message
  ds_pinned_message :: history_message
  ds_draft :: "draft option"
  ds_parent_topic :: "thread_parent_topic option"
  ds_friendly :: cstring
  ds_history_patch :: patch_version
  ds_state_patch :: cstring
  ds_heads :: "(cstring \<times> cstring) list"

definition dlg_default :: dlg_state where
  "dlg_default = \<lparr>ds_unread_count = Some 0, ds_unread_mentions_count = Some 0, ds_info_version = None,
     ds_members_version = None, ds_last_read_mention = -1, ds_last_msgid = -1, ds_yours_last_read = -1,
     ds_del_up_to = -1, ds_theirs_last_read = -1, ds_theirs_last_delivered = -1, ds_hidden_msg_id = -1,
     ds_visible = True, ds_fake = False, ds_official = False, ds_suspicious = False, ds_attention = False,
     ds_stranger = False, ds_no_recents_update = False, ds_last_message = init_default,
     ds_pinned_message = init_default, ds_draft = None, ds_parent_topic = None, ds_friendly = [],
     ds_history_patch = pv_default, ds_state_patch = [], ds_heads = []\<rparr>"

definition set_last_msgid :: "int \<Rightarrow> dlg_state \<Rightarrow> dlg_state" where
  "set_last_msgid v d = d\<lparr>ds_last_msgid := (if v \<le> 0 then -1 else v)\<rparr>"

text \<open>The assignment: a missing draft leaves the old one.\<close>

definition copy_from :: "dlg_state \<Rightarrow> dlg_state \<Rightarrow> dlg_state" where
  "copy_from old s = s\<lparr>
     ds_last_msgid := (if ds_last_msgid s \<le> 0 then -1 else ds_last_msgid s),
     ds_last_message := copy (ds_last_message old) (ds_last_message s),
     ds_pinned_message := copy (ds_pinned_message old) (ds_pinned_message s),
     ds_draft := (case ds_draft s of Some d \<Rightarrow> Some d | None \<Rightarrow> ds_draft old)\<rparr>"

definition has_last_msgid :: "dlg_state \<Rightarrow> bool" where
  "has_last_msgid d \<longleftrightarrow> ds_last_msgid d > 0"

definition get_unread_count :: "dlg_state \<Rightarrow> u32" where
  "get_unread_count d = (case ds_unread_count d of None \<Rightarrow> 0 | Some n \<Rightarrow> n)"

definition get_unread_mentions_count :: "dlg_state \<Rightarrow> int" where
  "get_unread_mentions_count d = (case ds_unread_mentions_count d of None \<Rightarrow> 0 | Some n \<Rightarrow> n)"

definition set_last_message :: "history_message \<Rightarrow> dlg_state \<Rightarrow> dlg_state" where
  "set_last_message m d = d\<lparr>ds_last_message := copy (ds_last_message d) m\<rparr>"

definition clear_last_message :: "dlg_state \<Rightarrow> dlg_state" where
  "clear_last_message d = d\<lparr>ds_last_message := init_default\<rparr>"

definition set_pinned_message :: "history_message \<Rightarrow> dlg_state \<Rightarrow> dlg_state" where
  "set_pinned_message m d = d\<lparr>ds_pinned_message := copy (ds_pinned_message d) m\<rparr>"

definition clear_pinned_message :: "dlg_state \<Rightarrow> dlg_state" where
  "clear_pinned_message d = d\<lparr>ds_pinned_message := init_default\<rparr>"

definition has_msgid :: "history_message \<Rightarrow> bool" where
  "has_msgid m \<longleftrightarrow> hm_msgid m > 0"

definition has_internal_id :: "history_message \<Rightarrow> bool" where
  "has_internal_id m \<longleftrightarrow> hm_internal_id m \<noteq> []"

definition has_pinned_message :: "dlg_state \<Rightarrow> bool" where
  "has_pinned_message d \<longleftrightarrow> has_msgid (ds_pinned_message d)"

definition has_history_patch_version :: "dlg_state \<Rightarrow> bool" where
  "has_history_patch_version d \<longleftrightarrow> \<not> pv_is_empty (ds_history_patch d)"

definition get_history_patch_version_or :: "cstring \<Rightarrow> dlg_state \<Rightarrow> patch_version" where
  "get_history_patch_version_or d s = (if has_history_patch_version s then ds_history_patch s else pv_of_string d)"

definition has_del_up_to :: "dlg_state \<Rightarrow> bool" where
  "has_del_up_to d \<longleftrightarrow> ds_del_up_to d > 0"

definition dlg_is_empty :: "dlg_state \<Rightarrow> bool" where
  "dlg_is_empty d \<longleftrightarrow> \<not> has_last_msgid d \<and> \<not> has_msgid (ds_last_message d)"

subsection \<open>The stored form\<close>

definition dsf_unreads_count :: u32 where "dsf_unreads_count = 1"
definition dsf_last_msg_id :: u32 where "dsf_last_msg_id = 2"
definition dsf_yours_last_read :: u32 where "dsf_yours_last_read = 3"
definition dsf_theirs_last_read :: u32 where "dsf_theirs_last_read = 4"
definition dsf_theirs_last_delivered :: u32 where "dsf_theirs_last_delivered = 5"
definition dsf_last_message :: u32 where "dsf_last_message = 7"
definition dsf_visible :: u32 where "dsf_visible = 8"
definition dsf_patch_version :: u32 where "dsf_patch_version = 10"
definition dsf_del_up_to :: u32 where "dsf_del_up_to = 11"
definition dsf_friendly :: u32 where "dsf_friendly = 12"
definition dsf_official :: u32 where "dsf_official = 13"
definition dsf_fake :: u32 where "dsf_fake = 14"
definition dsf_hidden_msg_id :: u32 where "dsf_hidden_msg_id = 15"
definition dsf_unread_mentions_count :: u32 where "dsf_unread_mentions_count = 16"
definition dsf_pinned_message :: u32 where "dsf_pinned_message = 17"
definition dsf_attention :: u32 where "dsf_attention = 18"
definition dsf_suspicious :: u32 where "dsf_suspicious = 19"
definition dsf_heads :: u32 where "dsf_heads = 20"
definition dsf_head_aimid :: u32 where "dsf_head_aimid = 21"
definition dsf_head_friendly :: u32 where "dsf_head_friendly = 22"
definition dsf_last_read_mention :: u32 where "dsf_last_read_mention = 23"
definition dsf_stranger :: u32 where "dsf_stranger = 24"
definition dsf_info_version :: u32 where "dsf_info_version = 25"
definition dsf_no_recents_update :: u32 where "dsf_no_recents_update = 26"
definition dsf_members_version :: u32 where "dsf_members_version = 27"

lemmas dsf_tags [simp] = dsf_unreads_count_def dsf_last_msg_id_def dsf_yours_last_read_def dsf_theirs_last_read_def
  dsf_theirs_last_delivered_def dsf_last_message_def dsf_visible_def dsf_patch_version_def
  dsf_del_up_to_def dsf_friendly_def dsf_official_def dsf_fake_def
  dsf_hidden_msg_id_def dsf_unread_mentions_count_def dsf_pinned_message_def dsf_attention_def
  dsf_suspicious_def dsf_heads_def dsf_head_aimid_def dsf_head_friendly_def
  dsf_last_read_mention_def dsf_stranger_def dsf_info_version_def dsf_no_recents_update_def
  dsf_members_version_def

definition head_fields :: "cstring \<times> cstring \<Rightarrow> tlv list" where
  "head_fields h = [mk_tlv dsf_head_aimid (fst h), mk_tlv dsf_head_friendly (snd h)]"

definition heads_fields :: "(cstring \<times> cstring) list \<Rightarrow> tlv list" where
  "heads_fields hs = map (\<lambda>h. mk_tlv_pack 0 (pack_of (head_fields h))) hs"

text \<open>The pack \<open>serialize\<close> builds, in order; \<open>junk\<close> is what the messages it contains need.\<close>

definition dlg_fields :: "junk \<Rightarrow> dlg_state \<Rightarrow> tlv list" where
  "dlg_fields junk d =
     [mk_tlv dsf_unreads_count (u32_image (get_unread_count d)),
      mk_tlv dsf_last_msg_id (i64_image (ds_last_msgid d)),
      mk_tlv dsf_yours_last_read (i64_image (ds_yours_last_read d)),
      mk_tlv dsf_theirs_last_read (i64_image (ds_theirs_last_read d)),
      mk_tlv dsf_theirs_last_delivered (i64_image (ds_theirs_last_delivered d)),
      mk_tlv dsf_visible (bool_image (ds_visible d)),
      mk_tlv dsf_friendly (ds_friendly d),
      mk_tlv dsf_official (bool_image (ds_official d)),
      mk_tlv dsf_suspicious (bool_image (ds_suspicious d)),
      mk_tlv dsf_fake (bool_image (ds_fake d)),
      mk_tlv dsf_hidden_msg_id (i64_image (ds_hidden_msg_id d)),
      mk_tlv dsf_unread_mentions_count (i32_image (get_unread_mentions_count d)),
      mk_tlv dsf_attention (bool_image (ds_attention d)),
      mk_tlv dsf_last_read_mention (i64_image (ds_last_read_mention d)),
      mk_tlv dsf_stranger (bool_image (ds_stranger d)),
      mk_tlv dsf_no_recents_update (bool_image (ds_no_recents_update d))] @
     serialize_opt (\<lambda>v. [mk_tlv dsf_info_version v]) (ds_info_version d) @
     serialize_opt (\<lambda>v. [mk_tlv dsf_members_version v]) (ds_members_version d) @
     opt (has_history_patch_version d) (mk_tlv dsf_patch_version (pv_string (ds_history_patch d))) @
     opt (has_del_up_to d) (mk_tlv dsf_del_up_to (i64_image (ds_del_up_to d))) @
     [mk_tlv_stream dsf_last_message (message_serialize junk (ds_last_message d) empty_stream)] @
     opt (has_pinned_message d)
       (mk_tlv_stream dsf_pinned_message (message_serialize junk (ds_pinned_message d) empty_stream)) @
     opt (ds_heads d \<noteq> []) (mk_tlv_pack dsf_heads (pack_of (heads_fields (ds_heads d))))"

definition dlg_serialize :: "junk \<Rightarrow> dlg_state \<Rightarrow> binary_stream \<Rightarrow> binary_stream" where
  "dlg_serialize junk d s = pack_serialize (pack_of (dlg_fields junk d)) s"

definition string_opt :: "tlvpack \<Rightarrow> u32 \<Rightarrow> cstring option \<Rightarrow> cstring option" where
  "string_opt p ty d = (case get_item p ty of None \<Rightarrow> d | Some t \<Rightarrow> Some (get_string t))"

text \<open>A message in a field is read into the message that is there, whatever the reader returns.\<close>

definition read_message_field :: "reader \<Rightarrow> tlv option \<Rightarrow> history_message \<Rightarrow> history_message option" where
  "read_message_field rd t m = (case t of
     None \<Rightarrow> Some m
   | Some t \<Rightarrow> map_option (\<lambda>(_, m, _). m) (message_unserialize rd (get_stream t) m))"

definition read_head :: "tlv \<Rightarrow> (cstring \<times> cstring) list option" where
  "read_head t = do {
     (_, p, _) \<leftarrow> pack_unserialize empty_pack (get_stream t);
     Some (case (get_item p dsf_head_aimid, get_item p dsf_head_friendly) of
             (Some a, Some f) \<Rightarrow> [(get_string a, get_string f)]
           | _ \<Rightarrow> [])
   }"

definition read_heads :: "tlv option \<Rightarrow> (cstring \<times> cstring) list option" where
  "read_heads t = (case t of
     None \<Rightarrow> Some []
   | Some t \<Rightarrow> do {
       (ok, p, _) \<leftarrow> pack_unserialize empty_pack (get_stream t);
       if ok then map_option concat (those (map read_head (walk p))) else Some []
     })"

text \<open>Seven fields have to be there, or nothing is read.\<close>

definition dlg_unserialize :: "reader \<Rightarrow> binary_stream \<Rightarrow> dlg_state \<Rightarrow> (bool \<times> dlg_state) option" where
  "dlg_unserialize rd s d = do {
     (ok, p, _) \<leftarrow> pack_unserialize empty_pack s;
     if \<not> ok then Some (False, d)
     else case (get_item p dsf_unreads_count, get_item p dsf_last_msg_id, get_item p dsf_yours_last_read,
                get_item p dsf_theirs_last_read, get_item p dsf_theirs_last_delivered,
                get_item p dsf_last_message, get_item p dsf_visible) of
       (Some t_unreads, Some t_last, Some t_yours, Some t_theirs, Some t_delivered, Some t_message, Some t_visible) \<Rightarrow> do {
         let d = (set_last_msgid (get_i64 t_last) d)\<lparr>
           ds_unread_count := Some (get_u32 t_unreads),
           ds_yours_last_read := get_i64 t_yours,
           ds_theirs_last_read := get_i64 t_theirs,
           ds_theirs_last_delivered := get_i64 t_delivered,
           ds_visible := get_bool t_visible,
           ds_info_version := string_opt p dsf_info_version (ds_info_version d),
           ds_members_version := string_opt p dsf_members_version (ds_members_version d),
           ds_last_read_mention := i64_or (ds_last_read_mention d) p dsf_last_read_mention,
           ds_friendly := string_or (ds_friendly d) p dsf_friendly,
           ds_history_patch := (case get_item p dsf_patch_version of
              None \<Rightarrow> ds_history_patch d | Some t \<Rightarrow> pv_of_string (get_string t)),
           ds_del_up_to := i64_or (ds_del_up_to d) p dsf_del_up_to,
           ds_official := bool_or (ds_official d) p dsf_official,
           ds_suspicious := bool_or (ds_suspicious d) p dsf_suspicious,
           ds_fake := bool_or (ds_fake d) p dsf_fake,
           ds_hidden_msg_id := i64_or (ds_hidden_msg_id d) p dsf_hidden_msg_id,
           ds_unread_mentions_count := (case get_item p dsf_unread_mentions_count of
              None \<Rightarrow> ds_unread_mentions_count d | Some t \<Rightarrow> Some (get_i32 t)),
           ds_stranger := bool_or (ds_stranger d) p dsf_stranger,
           ds_no_recents_update := bool_or (ds_no_recents_update d) p dsf_no_recents_update\<rparr>;
         last \<leftarrow> read_message_field rd (Some t_message) (ds_last_message d);
         pinned \<leftarrow> read_message_field rd (get_item p dsf_pinned_message) (ds_pinned_message d);
         heads \<leftarrow> read_heads (get_item p dsf_heads);
         Some (True, d\<lparr>ds_last_message := last, ds_pinned_message := pinned,
           ds_attention := bool_or (ds_attention d) p dsf_attention,
           ds_heads := ds_heads d @ heads\<rparr>)
       }
     | _ \<Rightarrow> Some (False, d)
   }"

subsection \<open>Keeping the state\<close>

record dlg_state_changes =
  ch_del_up_to :: bool
  ch_history_patch :: bool
  ch_initial_fill :: bool
  ch_last_message :: bool

record archive_state =
  as_state :: "dlg_state option"
  as_storage :: storage

text \<open>\<open>save\<close> overwrites the file. The result of the write is what it returns.\<close>

definition state_save :: "junk \<Rightarrow> archive_state \<Rightarrow> (bool \<times> archive_state) option" where
  "state_save junk x =
     (case as_state x of
        None \<Rightarrow> Some (False, x)
      | Some d \<Rightarrow>
          (case storage_open (mode_zero\<lparr>sm_write := True, sm_truncate := True\<rparr>) (as_storage x) of
             (False, st) \<Rightarrow> Some (False, x\<lparr>as_storage := st\<rparr>)
           | (True, st) \<Rightarrow> map_option (\<lambda>(res, _, _, st). (fst res, x\<lparr>as_storage := storage_close st\<rparr>))
               (write_data_block (dlg_serialize junk d empty_stream) 0 st)))"

definition state_load :: "reader \<Rightarrow> storage \<Rightarrow> dlg_state \<Rightarrow> (bool \<times> dlg_state \<times> storage) option" where
  "state_load rd st d =
     (case storage_open (mode_zero\<lparr>sm_read := True\<rparr>) st of
        (False, st) \<Rightarrow> Some (False, d, st)
      | (True, st) \<Rightarrow> do {
          (ok, st, s) \<leftarrow> read_data_block (-1) st empty_stream;
          if \<not> ok then Some (False, d, storage_close st)
          else do { (ok, d) \<leftarrow> dlg_unserialize rd s d; Some (ok, d, storage_close st) }
        })"

definition get_state :: "reader \<Rightarrow> archive_state \<Rightarrow> (dlg_state \<times> archive_state) option" where
  "get_state rd x =
     (case as_state x of
        Some d \<Rightarrow> Some (d, x)
      | None \<Rightarrow> map_option (\<lambda>(_, d, st). (d, \<lparr>as_state = Some d, as_storage = st\<rparr>)) (state_load rd (as_storage x) dlg_default))"

text \<open>
  \<open>merge_state\<close>: the new state \<open>n\<close> merged into \<open>d\<close>. \<open>now\<close> is the local time, \<open>None\<close> when the system cannot
  say it. Deleting up to the last message is a case of its own, which empties the last message and
  takes nothing else from the new state.
\<close>

definition emptied_message :: "int option \<Rightarrow> history_message \<Rightarrow> history_message" where
  "emptied_message now m =
     (let m = msg_set_outgoing False (merge_message (copy init_default m) init_default)
      in case now of None \<Rightarrow> m | Some t \<Rightarrow> m\<lparr>hm_time := t\<rparr>)"

definition merge_counters :: "dlg_state \<Rightarrow> dlg_state \<Rightarrow> dlg_state" where
  "merge_counters n d =
     (let d = (set_last_msgid (ds_last_msgid n) d)\<lparr>
        ds_visible := ds_visible n, ds_fake := ds_fake n, ds_official := ds_official n,
        ds_suspicious := ds_suspicious n, ds_attention := ds_attention n,
        ds_theirs_last_read := ds_theirs_last_read n, ds_theirs_last_delivered := ds_theirs_last_delivered n,
        ds_last_read_mention := ds_last_read_mention n, ds_stranger := ds_stranger n,
        ds_no_recents_update := ds_no_recents_update n,
        ds_info_version := (if ds_info_version n \<noteq> None then ds_info_version n else ds_info_version d),
        ds_members_version := (if ds_members_version n \<noteq> None then ds_members_version n else ds_members_version d),
        ds_unread_mentions_count :=
          (if ds_last_read_mention n = ds_last_msgid n then Some 0
           else if ds_unread_mentions_count n \<noteq> None then Some (get_unread_mentions_count n)
           else ds_unread_mentions_count d)\<rparr>;
      d = set_pinned_message (ds_pinned_message n) d
      in d\<lparr>
        ds_hidden_msg_id := (if ds_hidden_msg_id n \<noteq> -1 then ds_hidden_msg_id n else ds_hidden_msg_id d),
        ds_friendly := (if ds_friendly n \<noteq> [] then ds_friendly n else ds_friendly d),
        ds_unread_count :=
          (if ds_yours_last_read n = ds_last_msgid n then Some 0
           else if ds_unread_count n \<noteq> None then Some (get_unread_count n)
           else ds_unread_count d),
        ds_yours_last_read := ds_yours_last_read n\<rparr>)"

definition merge_state ::
  "int option \<Rightarrow> dlg_state \<Rightarrow> dlg_state_changes \<Rightarrow> dlg_state \<Rightarrow> bool \<times> dlg_state_changes \<times> dlg_state" where
  "merge_state now n ch d =
     (let ch = ch\<lparr>ch_initial_fill := dlg_is_empty d\<rparr>;
          update_history_patch = (has_history_patch_version n \<and> \<not> pv_equal (ds_history_patch n) (ds_history_patch d));
          patch_version_changed = (ds_state_patch n \<noteq> [] \<and> pv_less (ds_history_patch d) (pv_of_string (ds_state_patch n)))
      in if \<not> update_history_patch \<and> \<not> patch_version_changed \<and> has_last_msgid n \<and> has_last_msgid d \<and>
            ds_last_msgid n < ds_last_msgid d
         then (False, ch, d)
         else
           let update_del_up_to = ds_del_up_to n > ds_del_up_to d;
               ch = ch\<lparr>ch_del_up_to := update_del_up_to\<rparr>;
               d = (if update_del_up_to then d\<lparr>ds_del_up_to := ds_del_up_to n\<rparr> else d)
           in if has_last_msgid d \<and> update_del_up_to \<and> ds_last_msgid d = ds_del_up_to n
              then (True, ch\<lparr>ch_last_message := True\<rparr>,
                    set_last_message (emptied_message now (ds_last_message d))
                      (d\<lparr>ds_unread_count := Some 0, ds_attention := False\<rparr>))
              else
                let d = merge_counters n d;
                    new_last = ds_last_message n;
                    this_last = ds_last_message d;
                    new_has_last = (has_msgid new_last \<or> has_internal_id new_last);
                    new_emptied = (\<not> has_msgid new_last \<and> \<not> has_last_msgid n);
                    update_last = (new_has_last \<or> new_emptied);
                    ch = (if update_last
                          then ch\<lparr>ch_last_message := hm_msgid this_last \<noteq> hm_msgid new_last \<or> \<not> contents_equal this_last new_last\<rparr>
                          else ch);
                    ch = ch\<lparr>ch_history_patch := update_history_patch\<rparr>;
                    d = (if update_last then set_last_message new_last d else d);
                    d = (if update_history_patch then d\<lparr>ds_history_patch := ds_history_patch n\<rparr> else d)
                in (True, ch, d\<lparr>ds_heads := ds_heads n, ds_parent_topic := ds_parent_topic n\<rparr>))"

text \<open>\<open>set_state\<close> does not load: on an archive that was not asked for its state before, it merges into a blank one.\<close>

definition set_state ::
  "junk \<Rightarrow> int option \<Rightarrow> dlg_state \<Rightarrow> dlg_state_changes \<Rightarrow> archive_state \<Rightarrow> (dlg_state_changes \<times> archive_state) option" where
  "set_state junk now n ch x =
     (let d = (case as_state x of None \<Rightarrow> dlg_default | Some d \<Rightarrow> d)
      in case merge_state now n ch d of
           (True, ch, d) \<Rightarrow> map_option (\<lambda>(_, x). (ch, x)) (state_save junk (x\<lparr>as_state := Some d\<rparr>))
         | (False, ch, d) \<Rightarrow> Some (ch, x\<lparr>as_state := Some d\<rparr>))"

definition update_attention_attribute :: "junk \<Rightarrow> bool \<Rightarrow> archive_state \<Rightarrow> archive_state option" where
  "update_attention_attribute junk v x =
     map_option snd (state_save junk (x\<lparr>as_state := map_option (ds_attention_update (\<lambda>_. v)) (as_state x)\<rparr>))"

definition clear_state :: "junk \<Rightarrow> archive_state \<Rightarrow> archive_state option" where
  "clear_state junk x =
     map_option snd (state_save junk (x\<lparr>as_state := map_option (\<lambda>d. copy_from d dlg_default) (as_state x)\<rparr>))"

subsection \<open>The state survives a restart\<close>

declare map_of_append [simp del]

lemma fresh_heads [simp]: "list_all fresh_tlv (head_fields h)" "list_all fresh_tlv (heads_fields hs)"
  by (simp_all add: head_fields_def heads_fields_def list.pred_map comp_def)

lemma fresh_dlg [simp]: "list_all fresh_tlv (dlg_fields junk d)"
  by (simp add: dlg_fields_def message_stream_facts)

lemma get_stream_pack:
  assumes "length (enc_fields fs) < 2 ^ 32"
  shows "\<exists>s'. pack_unserialize empty_pack (get_stream (mk_tlv ty (enc_fields fs))) = Some (True, mk_pack fs, s')"
  using pack_unserialize_enc [of "get_stream (mk_tlv ty (enc_fields fs))" fs] fits_good [OF assms]
  by (auto simp: stream_value)

lemma read_heads_written:
  assumes "fits (heads_fields hs)"
  shows "read_heads (Some (mk_tlv ty (enc_fields (map tlv_view (heads_fields hs))))) = Some hs"
proof -
  obtain s' where s': "pack_unserialize empty_pack (get_stream (mk_tlv ty (enc_fields (map tlv_view (heads_fields hs))))) =
      Some (True, packed (heads_fields hs), s')"
    using get_stream_pack [OF assms] by blast
  have one: "read_head (mk_tlv 0 (enc_fields (map tlv_view (head_fields h)))) = Some [h]" if "h \<in> set hs" for h
  proof -
    have "(0, enc_fields (map tlv_view (head_fields h))) \<in> set (map tlv_view (heads_fields hs))"
      using that by (simp add: heads_fields_def image_iff) (rule bexI [of _ h], simp_all)
    from length_value_le [OF this] assms have "fits (head_fields h)" by simp
    from get_stream_pack [OF this, of 0] show ?thesis by (auto simp: read_head_def head_fields_def)
  qed
  have "map read_head (walk (packed (heads_fields hs))) = map (\<lambda>h. Some [h]) hs"
    using one by (simp add: heads_fields_def comp_def)
  moreover have "those (map (\<lambda>h. Some [h]) hs) = Some (map (\<lambda>h. [h]) hs)" by (induction hs) simp_all
  moreover have "concat (map (\<lambda>h. [h]) hs) = hs" by simp
  ultimately show ?thesis using s' by (simp add: read_heads_def)
qed

definition good_dlg :: "dlg_state \<Rightarrow> bool" where
  "good_dlg d \<longleftrightarrow> list_all i64_range [ds_last_msgid d, ds_yours_last_read d, ds_theirs_last_read d,
       ds_theirs_last_delivered d, ds_hidden_msg_id d, ds_last_read_mention d, ds_del_up_to d] \<and>
     i32_range (get_unread_mentions_count d) \<and>
     list_all (\<lambda>m. good_message m \<and> (hm_json m = [] \<or> hm_sender_aimid m = [])) [ds_last_message d, ds_pinned_message d]"

text \<open>The draft, the parent topic and the version the server gave are not in the file; counters become known.\<close>

definition stored_dlg :: "junk \<Rightarrow> reader \<Rightarrow> dlg_state \<Rightarrow> dlg_state" where
  "stored_dlg junk rd d = d\<lparr>
     ds_unread_count := Some (get_unread_count d),
     ds_unread_mentions_count := Some (get_unread_mentions_count d),
     ds_last_msgid := (if ds_last_msgid d \<le> 0 then -1 else ds_last_msgid d),
     ds_del_up_to := (if has_del_up_to d then ds_del_up_to d else -1),
     ds_last_message := stored_message junk rd (ds_last_message d),
     ds_pinned_message := (if has_pinned_message d then stored_message junk rd (ds_pinned_message d) else init_default),
     ds_draft := None, ds_parent_topic := None, ds_state_patch := [],
     ds_history_patch := (if has_history_patch_version d then pv_of_string (pv_string (ds_history_patch d)) else pv_default)\<rparr>"

lemma read_message_written:
  assumes "good_message m" and "hm_json m = [] \<or> hm_sender_aimid m = []" and "fits (message_fields junk m [])"
  shows "read_message_field rd (Some (mk_tlv ty (enc_fields (map tlv_view (message_fields junk m []))))) init_default =
    Some (stored_message junk rd m)"
  using unserialize_written_message [OF assms, of "get_stream (mk_tlv ty (enc_fields (map tlv_view (message_fields junk m []))))" rd]
  by (auto simp: read_message_field_def stream_value)

lemma dlg_lookups:
  fixes d :: dlg_state and junk :: junk
  defines "fs \<equiv> map tlv_view (dlg_fields junk d)"
  shows "map_of fs dsf_unreads_count = Some (u32_image (get_unread_count d))"
    "map_of fs dsf_last_msg_id = Some (i64_image (ds_last_msgid d))"
    "map_of fs dsf_yours_last_read = Some (i64_image (ds_yours_last_read d))"
    "map_of fs dsf_theirs_last_read = Some (i64_image (ds_theirs_last_read d))"
    "map_of fs dsf_theirs_last_delivered = Some (i64_image (ds_theirs_last_delivered d))"
    "map_of fs dsf_visible = Some (bool_image (ds_visible d))"
    "map_of fs dsf_friendly = Some (ds_friendly d)"
    "map_of fs dsf_official = Some (bool_image (ds_official d))"
    "map_of fs dsf_suspicious = Some (bool_image (ds_suspicious d))"
    "map_of fs dsf_fake = Some (bool_image (ds_fake d))"
    "map_of fs dsf_hidden_msg_id = Some (i64_image (ds_hidden_msg_id d))"
    "map_of fs dsf_unread_mentions_count = Some (i32_image (get_unread_mentions_count d))"
    "map_of fs dsf_attention = Some (bool_image (ds_attention d))"
    "map_of fs dsf_last_read_mention = Some (i64_image (ds_last_read_mention d))"
    "map_of fs dsf_stranger = Some (bool_image (ds_stranger d))"
    "map_of fs dsf_no_recents_update = Some (bool_image (ds_no_recents_update d))"
    "map_of fs dsf_info_version = ds_info_version d"
    "map_of fs dsf_members_version = ds_members_version d"
    "map_of fs dsf_patch_version = (if has_history_patch_version d then Some (pv_string (ds_history_patch d)) else None)"
    "map_of fs dsf_del_up_to = (if has_del_up_to d then Some (i64_image (ds_del_up_to d)) else None)"
    "map_of fs dsf_last_message = Some (enc_fields (map tlv_view (message_fields junk (ds_last_message d) [])))"
    "map_of fs dsf_pinned_message = (if has_pinned_message d
       then Some (enc_fields (map tlv_view (message_fields junk (ds_pinned_message d) []))) else None)"
    "map_of fs dsf_heads = (if ds_heads d \<noteq> [] then Some (enc_fields (map tlv_view (heads_fields (ds_heads d)))) else None)"
  unfolding fs_def
  by (simp_all add: dlg_fields_def message_stream_facts cong: option.case_cong) (simp_all split: option.split)


lemma dlg_roundtrip:
  assumes good: "good_dlg d" and fit: "fits (dlg_fields junk d)"
    and s: "wf_stream s" "pending s = enc_fields (map tlv_view (dlg_fields junk d))"
  shows "dlg_unserialize rd s dlg_default = Some (True, stored_dlg junk rd d)"
proof -
  let ?fs = "map tlv_view (dlg_fields junk d)" and ?p = "packed (dlg_fields junk d)"
  obtain s' where u: "pack_unserialize empty_pack s = Some (True, ?p, s')"
    using pack_unserialize_enc [OF s(1) fits_good [OF fit] s(2)] by blast
  have small: "length v < 2 ^ 32" if "map_of ?fs ty = Some v" for ty v
    using length_value_le [OF map_of_SomeD [OF that]] fit by simp
  have g: "good_message (ds_last_message d)" "hm_json (ds_last_message d) = [] \<or> hm_sender_aimid (ds_last_message d) = []"
    "good_message (ds_pinned_message d)" "hm_json (ds_pinned_message d) = [] \<or> hm_sender_aimid (ds_pinned_message d) = []"
    and r: "i64_range (ds_last_msgid d)" "i64_range (ds_yours_last_read d)" "i64_range (ds_theirs_last_read d)"
    "i64_range (ds_theirs_last_delivered d)" "i64_range (ds_hidden_msg_id d)" "i64_range (ds_last_read_mention d)"
    "i64_range (ds_del_up_to d)" "i32_range (get_unread_mentions_count d)"
    using good by (simp_all add: good_dlg_def)
  have last: "read_message_field rd (Some (mk_tlv dsf_last_message
      (enc_fields (map tlv_view (message_fields junk (ds_last_message d) []))))) init_default =
      Some (stored_message junk rd (ds_last_message d))"
    by (rule read_message_written [OF g(1,2) small [OF dlg_lookups(21)]])
  have pinned: "read_message_field rd (get_item ?p dsf_pinned_message) init_default =
      Some (if has_pinned_message d then stored_message junk rd (ds_pinned_message d) else init_default)"
  proof (cases "has_pinned_message d")
    case True
    then have "fits (message_fields junk (ds_pinned_message d) [])"
      using small [of dsf_pinned_message] dlg_lookups(22) [of junk d] by simp
    from read_message_written [OF g(3,4) this, of rd dsf_pinned_message] True show ?thesis
      by (simp only: get_item_mk_pack dlg_lookups if_True option.map prod.case)
  qed (simp only: get_item_mk_pack dlg_lookups if_False option.map read_message_field_def option.case)
  have heads: "read_heads (get_item ?p dsf_heads) = Some (ds_heads d)"
  proof (cases "ds_heads d = []")
    case False
    then have "fits (heads_fields (ds_heads d))"
      using small [of dsf_heads] dlg_lookups(23) [of junk d] by simp
    from read_heads_written [OF this] False show ?thesis
      by (simp only: get_item_mk_pack dlg_lookups if_True option.map simp_thms)
  qed (simp only: get_item_mk_pack dlg_lookups option.map read_heads_def option.case simp_thms if_False)
  note pulled = last [unfolded dsf_tags] pinned heads
  show ?thesis
    using last pinned heads r
    by (simp only: dlg_unserialize_def u bind.bind_lunit prod.case simp_thms if_True if_False get_item_mk_pack
        dlg_lookups option.map option.case dlg_default_def dlg_state.simps Let_def set_last_msgid_def read_defs
        string_opt_def)
      (simp add: stored_dlg_def split: option.split)
qed

lemma state_save_then_load:
  assumes "can_use_file (as_storage x)" and "as_state x = Some d" and "good_dlg d"
    and "length (enc_fields (map tlv_view (dlg_fields junk d))) \<le> 1024 * 1024"
    and "length (enc_fields (map tlv_view (dlg_fields junk d))) + 16 \<le> st_room (as_storage x)"
  shows "\<exists>st st'. state_save junk x = Some (True, x\<lparr>as_storage := st\<rparr>) \<and> can_use_file st \<and>
    state_load rd st dlg_default = Some (True, stored_dlg junk rd d, st')"
proof -
  let ?bs = "enc_fields (map tlv_view (dlg_fields junk d))"
  let ?s = "dlg_serialize junk d empty_stream"
  have s: "wf_stream ?s" "pending ?s = ?bs"
    by (simp_all add: dlg_serialize_def wf_pack_serialize pending_pack_serialize)
  have ne: "?bs \<noteq> []" by (simp only: enc_fields_empty map_is_Nil_conv) (simp add: dlg_fields_def)
  have good: "good_block ?bs" using ne assms(4) by (simp add: good_block_def)
  obtain st0 where o: "storage_open (mode_zero\<lparr>sm_write := True, sm_truncate := True\<rparr>) (as_storage x) = (True, st0)"
    "appending st0" "contents st0 = []" "st_room st0 = st_room (as_storage x)" "can_use_file (storage_close st0)"
    using open_truncate [OF assms(1)] by blast
  have len: "pending ?s \<noteq> []" "length (pending ?s) < 2 ^ 32" "length (pending ?s) + 16 \<le> st_room st0"
    using ne assms(4,5) s(2) o(4) by simp_all
  obtain d' st1 where w: "write_data_block ?s 0 st0 = Some ((True, 0), int (length (contents st0)), d', st1)"
    "contents st1 = contents st0 @ enc_block (pending ?s)" "appending st1"
    using write_data_block_append [OF o(2) s(1) len, of 0] by blast
  have saved: "state_save junk x = Some (True, x\<lparr>as_storage := storage_close st1\<rparr>)"
    using assms(2) o(1) w(1) by (simp add: state_save_def)
  have use: "can_use_file (storage_close st1)"
    using same_env_can_use [OF write_data_block_env [OF w(1)] o(5)] .
  have c: "contents (storage_close st1) = enc_block ?bs" using w(2) o(3) s(2) by (simp add: storage_close_def contents_def)
  have "enc_block ?bs \<noteq> []" by (simp flip: length_0_conv)
  with c have "st_file (storage_close st1) \<noteq> None" by (cases "st_file (storage_close st1)") (simp_all add: contents_def)
  from open_read [OF use this] obtain st2 where r: "storage_open (mode_zero\<lparr>sm_read := True\<rparr>) (storage_close st1) = (True, st2)"
    "open_reading st2" "unread st2 = enc_block ?bs @ []" using c by auto
  obtain st3 s3 where rd: "read_data_block (-1) st2 empty_stream = Some (True, st3, s3)" "wf_stream s3" "pending s3 = ?bs"
    using read_data_block_enc [OF r(2) good r(3) wf_empty] by auto
  have fit: "fits (dlg_fields junk d)" using assms(4) by simp
  have "state_load rd (storage_close st1) dlg_default = Some (True, stored_dlg junk rd d, storage_close st3)"
    using r(1) rd(1) dlg_roundtrip [OF assms(3) fit rd(2,3), of rd] by (simp add: state_load_def)
  with saved use show ?thesis by blast
qed

text \<open>C18: The state of a dialog survives a restart: after a successful save, an archive that starts from the
  file gives the state in its stored form.\<close>

theorem dialog_state_survives_restart:
  assumes "can_use_file (as_storage x)" and "as_state x = Some d" and "good_dlg d"
    and "length (enc_fields (map tlv_view (dlg_fields junk d))) \<le> 1024 * 1024"
    and "length (enc_fields (map tlv_view (dlg_fields junk d))) + 16 \<le> st_room (as_storage x)"
  shows "\<exists>x' x''. state_save junk x = Some (True, x') \<and>
    get_state rd \<lparr>as_state = None, as_storage = as_storage x'\<rparr> = Some (stored_dlg junk rd d, x'')"
proof -
  obtain st st' where "state_save junk x = Some (True, x\<lparr>as_storage := st\<rparr>)"
    "state_load rd st dlg_default = Some (True, stored_dlg junk rd d, st')"
    using state_save_then_load [OF assms] by blast
  then show ?thesis by (auto simp: get_state_def)
qed

definition sample_dialog :: dlg_state where
  "sample_dialog = dlg_default\<lparr>ds_unread_count := Some 3, ds_last_msgid := 7, ds_del_up_to := 2, ds_last_message := sample_message,
     ds_heads := [([97], [65]), ([98], [66])], ds_history_patch := pv_of_string [49]\<rparr>"

theorem dialog_state_survives_restart_witness:
  "\<exists>x' x''. state_save sample_junk \<lparr>as_state = Some sample_dialog, as_storage = mk_storage None\<rparr> = Some (True, x') \<and>
    get_state \<lparr>rd_junk = sample_junk, rd_parse = \<lambda>_ _ m. (0, m), rd_buttons = \<lambda>_. []\<rparr>
      \<lparr>as_state = None, as_storage = as_storage x'\<rparr> = Some (sample_dialog, x'')"
proof -
  let ?rd = "\<lparr>rd_junk = sample_junk, rd_parse = \<lambda>_ _ m. (0, m), rd_buttons = \<lambda>_. []\<rparr>"
  have l: "length (enc_fields (map tlv_view (message_fields sample_junk sample_message []))) \<le> 10000"
    "length (enc_fields (map tlv_view (message_fields sample_junk init_default []))) \<le> 10000"
    by (simp_all add: sample_message_def init_default_def pv_default_def quote_default_def
      task_default_def message_fields_def quote_serialize_def task_serialize_fields task_fields_def mention_serialize_def
      reactions_serialize_def sticker_serialize_def serialize_opt_def)
  then have len: "length (enc_fields (map tlv_view (dlg_fields sample_junk sample_dialog))) \<le> 100000"
    by (simp add: dlg_fields_def sample_dialog_def dlg_default_def message_stream_facts heads_fields_def head_fields_def
        has_pinned_message_def has_msgid_def has_history_patch_version_def has_del_up_to_def serialize_opt_def pv_of_string_def
        pv_default_def pv_is_empty_def) (simp add: init_default_def)
  have good: "good_dlg sample_dialog"
    using good_sample(1,3)
    by (simp add: good_dlg_def sample_dialog_def dlg_default_def get_unread_mentions_count_def i32_range_def i64_range_def)
      (simp add: good_message_def init_default_def pv_default_def i64_range_def i32_range_def om_ok_def)
  have same: "stored_dlg sample_junk ?rd sample_dialog = sample_dialog"
    by (simp add: stored_dlg_def sample_dialog_def dlg_default_def get_unread_count_def get_unread_mentions_count_def
        has_del_up_to_def has_pinned_message_def has_msgid_def has_history_patch_version_def stored_sample pv_of_string_def
        pv_is_empty_def) (simp add: init_default_def)
  show ?thesis
    using dialog_state_survives_restart [of "\<lparr>as_state = Some sample_dialog, as_storage = mk_storage None\<rparr>" sample_dialog sample_junk ?rd]
      len good same
    by (simp add: can_use_file_def mk_storage_def)
qed

subsection \<open>What merging and clearing keep\<close>

text \<open>However the states of the server come in, the mark up to which history was deleted never goes back,
  and it is the largest of those that were accepted. A state is refused only when it is about an older
  message and brings no newer version, and then nothing changes.\<close>

theorem merge_never_restores_history:
  "case merge_state now n ch d of (accepted, ch', d') \<Rightarrow>
     ds_del_up_to d' = (if accepted then max (ds_del_up_to d) (ds_del_up_to n) else ds_del_up_to d) \<and>
     (accepted \<or> d' = d \<and> ds_last_msgid n < ds_last_msgid d \<and>
        \<not> (ds_state_patch n \<noteq> [] \<and> pv_less (ds_history_patch d) (pv_of_string (ds_state_patch n))))"
  by (auto simp: merge_state_def Let_def merge_counters_def set_last_msgid_def set_last_message_def
      set_pinned_message_def max_def has_last_msgid_def)

lemma copy_of_blank: "copy old init_default = init_default\<lparr>hm_json := hm_json old, hm_sender_aimid := hm_sender_aimid old,
    hm_buttons := hm_buttons old, hm_buttons_json := hm_buttons_json old, hm_reactions := hm_reactions old\<rparr>"
  by (rule history_message.equality) (simp_all add: copy_def init_default_def)

text \<open>Clearing the state of a dialog does not make it blank: the draft stays, and the last and the pinned
  message keep their JSON text, sender's id, buttons and reactions, because the state is assigned and
  an assignment leaves them.\<close>

lemma clear_state_leaves_rests:
  "clear_state junk x = map_option snd (state_save junk (x\<lparr>as_state := map_option (\<lambda>d. dlg_default\<lparr>
     ds_draft := ds_draft d,
     ds_last_message := init_default\<lparr>hm_json := hm_json (ds_last_message d),
       hm_sender_aimid := hm_sender_aimid (ds_last_message d), hm_buttons := hm_buttons (ds_last_message d),
       hm_buttons_json := hm_buttons_json (ds_last_message d), hm_reactions := hm_reactions (ds_last_message d)\<rparr>,
     ds_pinned_message := init_default\<lparr>hm_json := hm_json (ds_pinned_message d),
       hm_sender_aimid := hm_sender_aimid (ds_pinned_message d), hm_buttons := hm_buttons (ds_pinned_message d),
       hm_buttons_json := hm_buttons_json (ds_pinned_message d), hm_reactions := hm_reactions (ds_pinned_message d)\<rparr>\<rparr>)
     (as_state x)\<rparr>))"
  by (cases "as_state x") (simp_all add: clear_state_def copy_from_def dlg_default_def copy_of_blank)

end
