(* ===== verification/Block_Loop.thy ===== *)
theory Block_Loop
  imports Storage Tlv_Codec
begin

text \<open>
  What the small stores of the archive share: the loop that reads a block file from its beginning, files
  that are the blocks of a list one behind the other, blocks that are overwritten in their place, and the contract of a store over all its calls. All of
  it is over \<^verbatim>\<open>core/archive/storage.cpp\<close>; the loop is the one of \<^verbatim>\<open>mentions_me.cpp\<close>, \<^verbatim>\<open>pending_drafts.cpp\<close>,
  \<^verbatim>\<open>reactions.cpp\<close>, \<^verbatim>\<open>thread_update_storage.cpp\<close> and \<^verbatim>\<open>gallery_cache.cpp\<close>.
\<close>

subsection \<open>Reading goes on\<close>

text \<open>A block that was read leaves less of the file to read.\<close>

definition left_to_read :: "storage \<Rightarrow> nat" where
  "left_to_read st = length (unread st)"

lemma fs_read_shorter: "fs_read n c f = (bs, f') \<Longrightarrow> length c - fs_pos f' \<le> length c - fs_pos f"
  by (auto simp: fs_read_def Let_def split: if_splits)

lemma read_word_shorter:
  "read_word c f = (Some w, f') \<Longrightarrow> length c - fs_pos f' < length c - fs_pos f"
  by (auto simp: read_word_def fs_read_def Let_def split: prod.splits if_splits)

lemma read_word_le: "read_word c f = (r, f') \<Longrightarrow> length c - fs_pos f' \<le> length c - fs_pos f"
  using fs_read_shorter by (fastforce simp: read_word_def split: prod.splits if_splits)

lemma read_block_body_shorter:
  "read_block_body c f d = (True, f', d') \<Longrightarrow> length c - fs_pos f' < length c - fs_pos f"
  by (auto simp: read_block_body_def split: prod.splits option.splits if_splits bool.splits
      dest!: read_word_shorter fs_read_shorter)

lemma read_data_block_shorter:
  "read_data_block (-1) st d = Some (True, st', d') \<Longrightarrow>
    contents st' = contents st \<and> st_last_error st' = st_last_error st \<and> left_to_read st' < left_to_read st"
  by (auto simp: read_data_block_def Let_def left_to_read_def unread_def
      split: option.splits if_splits prod.splits dest!: read_block_body_shorter)

lemma read_data_block_end:
  "open_reading st \<Longrightarrow> unread st = [] \<Longrightarrow>
    \<exists>st'. read_data_block (-1) st d = Some (False, st', d) \<and> st_last_error st' = end_of_file"
  by (auto simp: open_reading_def unread_def read_data_block_def at_eof_def)

lemma read_data_block_at:
  assumes st: "open_reading st" and good: "good_block bs" and off: "0 \<le> off"
    and c: "drop (nat off) (contents st) = enc_block bs @ r" and d: "wf_stream d"
  shows "\<exists>st' d'. read_data_block off st d = Some (True, st', d') \<and> open_reading st' \<and> same_env st st' \<and>
    contents st' = contents st \<and> wf_stream d' \<and> pending d' = pending d @ bs"
proof -
  obtain f where f: "st_stream st = Some f" "readable f" using st by (auto simp: open_reading_def)
  let ?f = "f\<lparr>fs_pos := nat off\<rparr>"
  have seek: "fs_seek (nat off) f = ?f" "readable ?f" using f(2) by (simp_all add: fs_seek_def readable_def)
  have "length (enc_block bs) \<le> length (contents st) - nat off" using c by (metis length_append length_drop le_add1)
  then have "\<not> at_eof ?f (contents st)" using seek(2) by (auto simp: at_eof_def readable_def)
  moreover obtain d' where "read_block_body (contents st) ?f d = (True, move (16 + length bs) ?f, d')"
    "wf_stream d'" "pending d' = pending d @ bs"
    using read_block_body_enc [OF seek(2) good _ d, of "contents st" r] c by auto
  ultimately show ?thesis
    using f seek off by (auto simp: read_data_block_def Let_def open_reading_def same_env_def)
qed

subsection \<open>The loop over the blocks of a file\<close>

text \<open>
  \<^verbatim>\<open>while (storage->read_data_block(-1, data)) { ...; data.reset(); }\<close>. The body sees the storage, for its
  offset, and tells whether to go on; the result tells whether the loop came to the end.
\<close>

function read_blocks ::
  "(storage \<Rightarrow> binary_stream \<Rightarrow> 'a \<Rightarrow> (bool \<times> binary_stream \<times> 'a) option) \<Rightarrow> 'a \<Rightarrow> storage \<Rightarrow> binary_stream \<Rightarrow>
    (bool \<times> 'a \<times> storage) option" where
  "read_blocks body x st d =
     (case read_data_block (-1) st d of
        None \<Rightarrow> None
      | Some (False, st, d) \<Rightarrow> Some (True, x, st)
      | Some (True, st, d) \<Rightarrow>
          (case body st d x of
             None \<Rightarrow> None
           | Some (False, d, x) \<Rightarrow> Some (False, x, st)
           | Some (True, d, x) \<Rightarrow> read_blocks body x st (reset d)))"
  by pat_completeness auto
termination
  by (relation "measure (\<lambda>(body, x, st, d). left_to_read st)") (auto dest!: read_data_block_shorter)

declare read_blocks.simps [simp del]

subsection \<open>A file as the list of its blocks\<close>

lemma enc_block_nonempty [simp]: "enc_block bs \<noteq> []"
  by (simp flip: length_0_conv)

lemma file_there: "contents st = c \<Longrightarrow> c \<noteq> [] \<Longrightarrow> st_file st \<noteq> None"
  by (auto simp: contents_def split: option.splits)

definition file_of :: "bytes list \<Rightarrow> bytes" where
  "file_of bss = concat (map enc_block bss)"

definition offset_of :: "bytes list \<Rightarrow> nat \<Rightarrow> nat" where
  "offset_of bss i = length (file_of (take i bss))"

lemma file_of_simps [simp]: "file_of [] = []" "file_of (b # bss) = enc_block b @ file_of bss"
  "file_of (as @ bss) = file_of as @ file_of bss"
  by (simp_all add: file_of_def)

lemma offset_of_simps [simp]: "offset_of bss 0 = 0" "offset_of (b # bss) (Suc i) = 16 + length b + offset_of bss i"
  by (simp_all add: offset_of_def)

lemma offset_of_append [simp]: "i \<le> length bss \<Longrightarrow> offset_of (bss @ cs) i = offset_of bss i"
  by (simp add: offset_of_def)

lemma offset_of_length: "offset_of bss (length bss) = length (file_of bss)"
  by (simp add: offset_of_def)

lemma offset_of_Suc: "i < length bss \<Longrightarrow> offset_of bss (Suc i) = offset_of bss i + (16 + length (bss ! i))"
  by (simp add: offset_of_def take_Suc_conv_app_nth)

lemma offset_of_mono: "i < j \<Longrightarrow> j \<le> length bss \<Longrightarrow> offset_of bss i < offset_of bss j"
proof (induction j)
  case (Suc j)
  then show ?case using offset_of_Suc [of j bss] by (cases "i = j") auto
qed simp

lemma offset_of_le: "i \<le> length bss \<Longrightarrow> offset_of bss i \<le> length (file_of bss)"
  by (metis append_take_drop_id file_of_simps(3) le_add1 length_append offset_of_def)

lemma offset_of_update [simp]:
  "length b = length (bss ! i) \<Longrightarrow> i < length bss \<Longrightarrow> offset_of (bss[i := b]) j = offset_of bss j"
proof (induction bss arbitrary: i j)
  case (Cons c bss)
  then show ?case by (cases i; cases j) auto
qed simp

lemma drop_offset: "i < length bss \<Longrightarrow> drop (offset_of bss i) (file_of bss) = enc_block (bss ! i) @ file_of (drop (Suc i) bss)"
proof (induction bss arbitrary: i)
  case (Cons b bss)
  then show ?case by (cases i) simp_all
qed simp

lemma file_of_update:
  assumes "i < length bss" and "length b = length (bss ! i)"
  shows "file_of (bss[i := b]) = put_at (file_of bss) (offset_of bss i) (enc_block b)"
proof -
  have f: "file_of bss = file_of (take i bss) @ enc_block (bss ! i) @ file_of (drop (Suc i) bss)"
    using id_take_nth_drop [OF assms(1)] file_of_simps by metis
  have "file_of (bss[i := b]) = file_of (take i bss) @ enc_block b @ file_of (drop (Suc i) bss)"
    using assms(1) by (simp add: upd_conv_take_nth_drop)
  moreover have "put_at (file_of bss) (length (file_of (take i bss))) (enc_block b) =
      file_of (take i bss) @ enc_block b @ file_of (drop (Suc i) bss)"
    using assms(2) by (subst f) (simp add: put_at_def)
  ultimately show ?thesis by (simp add: offset_of_def)
qed

text \<open>The loop over such a file folds over its blocks; a body may use where each block ends.\<close>

fun with_ends :: "nat \<Rightarrow> bytes list \<Rightarrow> (bytes \<times> nat) list" where
  "with_ends p [] = []"
| "with_ends p (b # bs) = (b, p + (16 + length b)) # with_ends (p + (16 + length b)) bs"

lemma fst_with_ends [simp]: "map fst (with_ends p bss) = bss"
  by (induction bss arbitrary: p) auto

lemma fold_with_ends: "fold (\<lambda>(b, p). g b) (with_ends p bss) x = fold g bss x"
  by (induction bss arbitrary: p x) auto


lemma open_read_all:
  assumes "can_use_file st" and "st_file st \<noteq> None"
  shows "\<exists>st'. storage_open (mode_zero\<lparr>sm_read := True\<rparr>) st = (True, st') \<and> open_reading st' \<and> unread st' = contents st \<and>
    contents st' = contents st \<and> can_use_file (storage_close st') \<and> st_room st' = st_room st"
  using assms
  by (auto simp: storage_open_def can_use_file_def mode_zero_def fstream_open_def filebuf_mode_def Let_def
      open_reading_def readable_def unread_def contents_def storage_close_def)

definition position :: "storage \<Rightarrow> nat" where
  "position st = (case st_stream st of None \<Rightarrow> 0 | Some f \<Rightarrow> fs_pos f)"

lemma get_offset_position: "open_reading st \<Longrightarrow> get_offset st = int (position st)"
  by (auto simp: get_offset_def open_reading_def readable_def position_def fs_tell_def)

lemma unread_position: "open_reading st \<Longrightarrow> unread st = drop (position st) (contents st)"
  by (auto simp: unread_def open_reading_def position_def)

lemma read_next:
  assumes "open_reading st" and "good_block b" and "unread st = enc_block b @ r" and "wf_stream d"
  shows "\<exists>st' d'. read_data_block (-1) st d = Some (True, st', d') \<and> open_reading st' \<and> unread st' = r \<and>
    contents st' = contents st \<and> position st' = position st + (16 + length b) \<and> same_env st st' \<and> st_room st' = st_room st \<and>
    wf_stream d' \<and> pending d' = pending d @ b"
proof -
  obtain st' d' where r: "read_data_block (-1) st d = Some (True, st', d')" "open_reading st'" "unread st' = r"
    "contents st' = contents st" "wf_stream d'" "pending d' = pending d @ b"
    using read_data_block_enc [OF assms] by blast
  obtain f where f: "st_stream st = Some f" "readable f" using assms(1) by (auto simp: open_reading_def)
  then have c: "drop (fs_pos f) (contents st) = enc_block b @ r" using assms(3) by (simp add: unread_def)
  from read_block_body_enc [OF f(2) assms(2) c assms(4)]
  obtain d2 where "read_block_body (contents st) f d = (True, move (16 + length b) f, d2)" by blast
  with r(1) f have "st' = st\<lparr>st_stream := Some (move (16 + length b) f)\<rparr>"
    by (auto simp: read_data_block_def Let_def split: if_splits)
  then have "position st' = position st + (16 + length b)" "same_env st st'" "st_room st' = st_room st"
    using f(1) by (simp_all add: position_def same_env_def)
  with r show ?thesis by blast
qed

lemma read_blocks_all:
  assumes body: "\<And>st d x b. open_reading st \<Longrightarrow> wf_stream d \<Longrightarrow> pending d = b \<Longrightarrow> b \<in> set bss \<Longrightarrow>
      \<exists>d'. body st d x = Some (True, d', g (b, position st) x)"
    and st: "open_reading st" "unread st = file_of bss" "list_all good_block bss"
    and d: "wf_stream d" "pending d = []"
  shows "\<exists>st'. read_blocks body x st d = Some (True, fold g (with_ends (position st) bss) x, st') \<and>
    st_last_error st' = end_of_file \<and> contents st' = contents st \<and> st_room st' = st_room st \<and>
    (can_use_file (storage_close st) \<longrightarrow> can_use_file (storage_close st'))"
  using assms
proof (induction bss arbitrary: x st d)
  case Nil
  have "at_eof f (contents st)" if "st_stream st = Some f" for f
    using Nil.prems(3) that by (simp add: unread_def at_eof_def)
  with Nil.prems(2) show ?case
    by (subst read_blocks.simps)
      (auto simp: open_reading_def read_data_block_def Let_def can_use_file_def storage_close_def)
next
  case (Cons b bss)
  have g: "good_block b" "list_all good_block bss" using Cons.prems(4) by simp_all
  obtain st1 d1 where r: "read_data_block (-1) st d = Some (True, st1, d1)" "open_reading st1"
    "unread st1 = file_of bss" "contents st1 = contents st" "position st1 = position st + (16 + length b)"
    "same_env st st1" "st_room st1 = st_room st" "wf_stream d1" "pending d1 = b"
    using read_next [OF Cons.prems(2) g(1) _ Cons.prems(5)] Cons.prems(3,6) by fastforce
  from Cons.prems(1) [OF r(2,8,9)] obtain d2 where b: "body st1 d1 x = Some (True, d2, g (b, position st1) x)" by auto
  have w: "wf_stream (reset d2)" by simp
  have can: "can_use_file (storage_close st) \<longrightarrow> can_use_file (storage_close st1)"
    using same_env_can_use [OF r(6)] by blast
  have "\<exists>st'. read_blocks body (g (b, position st1) x) st1 (reset d2) =
      Some (True, fold g (with_ends (position st1) bss) (g (b, position st1) x), st') \<and>
    st_last_error st' = end_of_file \<and> contents st' = contents st1 \<and> st_room st' = st_room st1 \<and>
    (can_use_file (storage_close st1) \<longrightarrow> can_use_file (storage_close st'))"
    by (rule Cons.IH [OF _ r(2,3) g(2) w]) (use Cons.prems(1) in auto)
  then obtain st' where i: "read_blocks body (g (b, position st1) x) st1 (reset d2) =
      Some (True, fold g (with_ends (position st1) bss) (g (b, position st1) x), st')"
    "st_last_error st' = end_of_file" "contents st' = contents st1" "st_room st' = st_room st1"
    "can_use_file (storage_close st1) \<longrightarrow> can_use_file (storage_close st')" by blast
  have "read_blocks body x st d = Some (True, fold g (with_ends (position st) (b # bss)) x, st')"
    by (subst read_blocks.simps) (simp add: r(1) b i(1) flip: r(5))
  with i(2-5) r(4,7) can show ?case by simp
qed

lemma read_blocks_fold:
  assumes "\<And>st d x b. open_reading st \<Longrightarrow> wf_stream d \<Longrightarrow> pending d = b \<Longrightarrow> b \<in> set bss \<Longrightarrow>
      \<exists>d'. body st d x = Some (True, d', g b x)"
    and "open_reading st" "unread st = file_of bss" "list_all good_block bss" and "wf_stream d" "pending d = []"
  shows "\<exists>st'. read_blocks body x st d = Some (True, fold g bss x, st') \<and>
    st_last_error st' = end_of_file \<and> contents st' = contents st \<and> st_room st' = st_room st \<and>
    (can_use_file (storage_close st) \<longrightarrow> can_use_file (storage_close st'))"
  using read_blocks_all [of bss body "\<lambda>(b, p). g b", OF _ assms(2-)] assms(1) fold_with_ends [of g] by simp

subsection \<open>Writing a list of blocks\<close>

text \<open>
  The loop that writes a file anew: every element is serialised into one stream, which is written as a block
  and reset. Whether a block could be written is not looked at.
\<close>

fun write_all_blocks :: "('a \<Rightarrow> binary_stream \<Rightarrow> binary_stream) \<Rightarrow> 'a list \<Rightarrow> binary_stream \<Rightarrow> storage \<Rightarrow> storage option" where
  "write_all_blocks ser [] d st = Some st"
| "write_all_blocks ser (e # es) d st = do {
     (_, _, d, st) \<leftarrow> write_data_block (ser e d) 0 st;
     write_all_blocks ser es (reset d) st
   }"

lemma write_all_blocks_works:
  assumes "\<And>e d. wf_stream d \<Longrightarrow> pending d = [] \<Longrightarrow> wf_stream (ser e d) \<and> pending (ser e d) = bytes_of e"
    and "appending st" and "list_all (\<lambda>e. good_block (bytes_of e)) es" and "length (file_of (map bytes_of es)) \<le> st_room st"
    and "wf_stream d" and "pending d = []"
  shows "\<exists>st'. write_all_blocks ser es d st = Some st' \<and> contents st' = contents st @ file_of (map bytes_of es) \<and>
    st_room st' = st_room st - length (file_of (map bytes_of es)) \<and>
    (can_use_file (storage_close st) \<longrightarrow> can_use_file (storage_close st'))"
  using assms(2-)
proof (induction es arbitrary: d st)
  case (Cons e es)
  note w = assms(1) [OF Cons.prems(4,5), of e]
  have g: "good_block (bytes_of e)" using Cons.prems(2) by simp
  then have len: "bytes_of e \<noteq> []" "length (bytes_of e) < 2 ^ 32" by (auto simp: good_block_def)
  obtain d1 st1 where s: "write_data_block (ser e d) 0 st = Some ((True, 0), int (length (contents st)), d1, st1)"
    "contents st1 = contents st @ enc_block (bytes_of e)" "appending st1" "st_room st1 = st_room st - (16 + length (bytes_of e))"
    using write_data_block_append [OF Cons.prems(1), of "ser e d" 0] w len Cons.prems(3) by auto
  have "length (file_of (map bytes_of es)) \<le> st_room st1" using s(4) Cons.prems(3) by simp
  from Cons.IH [OF s(3) _ this, of "reset d1"] Cons.prems(2) obtain st' where i: "write_all_blocks ser es (reset d1) st1 = Some st'"
    "contents st' = contents st1 @ file_of (map bytes_of es)" "st_room st' = st_room st1 - length (file_of (map bytes_of es))"
    "can_use_file (storage_close st1) \<longrightarrow> can_use_file (storage_close st')" by auto
  have "can_use_file (storage_close st) \<longrightarrow> can_use_file (storage_close st1)"
    using same_env_can_use [OF write_data_block_env [OF s(1)]] by blast
  with s(1,2,4) i show ?case by simp
qed simp

lemma write_all_blocks_returns:
  assumes "\<And>e d. wf_stream d \<Longrightarrow> wf_stream (ser e d)" and "wf_stream d"
  shows "\<exists>st'. write_all_blocks ser es d st = Some st'"
  using assms(2)
proof (induction es arbitrary: d st)
  case (Cons e es)
  obtain r off d' st' where "write_data_block (ser e d) 0 st = Some (r, off, d', st')"
    using write_data_block_returns [OF assms(1) [OF Cons.prems]] by (metis not_Some_eq surj_pair)
  with Cons.IH [of "reset d'" st'] show ?case by simp
qed simp

text \<open>Loading a file of blocks that are all read.\<close>

lemma read_blocks_of:
  assumes body: "\<And>st d x e. wf_stream d \<Longrightarrow> pending d = bytes_of e \<Longrightarrow> e \<in> set es \<Longrightarrow> \<exists>d'. body st d x = Some (True, d', step e x)"
    and st: "open_reading st" "unread st = file_of (map bytes_of es)" "list_all (\<lambda>e. good_block (bytes_of e)) es"
  shows "\<exists>st'. read_blocks body x st empty_stream = Some (True, fold step es x, st') \<and>
    st_last_error st' = end_of_file \<and> contents st' = contents st \<and> st_room st' = st_room st \<and>
    (can_use_file (storage_close st) \<longrightarrow> can_use_file (storage_close st'))"
proof -
  define g where "g b x = (case body st (write_bytes b empty_stream) x of Some (_, _, y) \<Rightarrow> y | None \<Rightarrow> x)" for b x
  have g: "g (bytes_of e) x = step e x" if e: "e \<in> set es" for e x
    using body [OF _ _ e, of "write_bytes (bytes_of e) empty_stream" st x] by (auto simp: g_def)
  have load: "\<exists>d'. body st' d x = Some (True, d', g b x)"
    if d: "wf_stream d" "pending d = b" and b: "b \<in> set (map bytes_of es)" for st' d x b
  proof -
    obtain e where e: "b = bytes_of e" "e \<in> set es" using b by auto
    with body [OF d(1) _ e(2)] d(2) g [OF e(2)] show ?thesis by simp
  qed
  have "fold g (map bytes_of es) x = fold step es x" using g by (induction es arbitrary: x) auto
  moreover have "list_all good_block (map bytes_of es)" using st(3) by (simp add: list.pred_map comp_def)
  moreover from this have "\<exists>st'. read_blocks body x st empty_stream = Some (True, fold g (map bytes_of es) x, st') \<and>
      st_last_error st' = end_of_file \<and> contents st' = contents st \<and> st_room st' = st_room st \<and>
      (can_use_file (storage_close st) \<longrightarrow> can_use_file (storage_close st'))"
    by (intro read_blocks_fold [OF load st(1,2)]) simp_all
  ultimately show ?thesis by simp
qed

subsection \<open>Stores over all their calls\<close>

fun run_all :: "('k \<Rightarrow> 'x \<Rightarrow> 'x option) \<Rightarrow> 'k list \<Rightarrow> 'x \<Rightarrow> 'x option" where
  "run_all run [] x = Some x"
| "run_all run (k # ks) x = do { x \<leftarrow> run k x; run_all run ks x }"

text \<open>
  The contract of a store that writes what it holds to its file: a call does to the abstract value what \<open>spec\<close>
  says and keeps the invariant, as long as there is room for what is held and what the call adds; that much
  room is what it takes. Then any sequence of calls does, with so much room for each of them.
\<close>

locale kept_on_disk =
  fixes run :: "'k \<Rightarrow> 'x \<Rightarrow> 'x option" and kept :: "'x \<Rightarrow> bool" and good :: "'k \<Rightarrow> bool"
    and abs :: "'x \<Rightarrow> 'a" and spec :: "'k \<Rightarrow> 'a \<Rightarrow> 'a"
    and held :: "'x \<Rightarrow> nat" and adds :: "'k \<Rightarrow> nat" and room :: "'x \<Rightarrow> nat"
  assumes call: "kept x \<Longrightarrow> good k \<Longrightarrow> held x + adds k \<le> room x \<Longrightarrow>
    \<exists>x'. run k x = Some x' \<and> kept x' \<and> abs x' = spec k (abs x) \<and> held x' \<le> held x + adds k \<and>
      room x \<le> room x' + (held x + adds k)"
begin

lemma calls:
  assumes "kept x" and "list_all good ks" and "length ks * (held x + sum_list (map adds ks)) \<le> room x"
  shows "\<exists>x'. run_all run ks x = Some x' \<and> kept x' \<and> abs x' = fold spec ks (abs x)"
  using assms
proof (induction ks arbitrary: x)
  case (Cons k ks)
  let ?S = "held x + adds k" and ?R = "sum_list (map adds ks)"
  have r: "?S + ?R + length ks * (?S + ?R) \<le> room x" using Cons.prems(3) by (simp add: add.assoc)
  then have "?S \<le> room x" by simp
  from call [OF Cons.prems(1) _ this] Cons.prems(2) obtain x1 where x1: "run k x = Some x1" "kept x1" "abs x1 = spec k (abs x)"
    "held x1 \<le> ?S" "room x \<le> room x1 + ?S" by auto
  have "length ks * (held x1 + ?R) \<le> length ks * (?S + ?R)" using x1(4) by simp
  then have "length ks * (held x1 + ?R) \<le> room x1" using r x1(5) by linarith
  from Cons.IH [OF x1(2) _ this] Cons.prems(2) x1(1,3) show ?case by simp
qed simp

end

subsection \<open>Writing at a position\<close>

text \<open>An open stream that writes where it stands; \<open>at_end\<close> leaves it behind the last byte.\<close>

definition writing_at :: "nat \<Rightarrow> storage \<Rightarrow> bool" where
  "writing_at p st \<longleftrightarrow> (\<exists>f. st_stream st = Some f \<and> fs_good f \<and> fs_out f \<and> \<not> fs_app f \<and> fs_pos f = p) \<and> p \<le> length (contents st)"

lemma put_at_inside: "p \<le> length c \<Longrightarrow> put_at c p bs = take p c @ bs @ drop (p + length bs) c"
  by (simp add: put_at_def)

lemma put_at_length: "p \<le> length c \<Longrightarrow> p + length bs \<le> length (put_at c p bs)"
  by (simp add: put_at_inside)

lemma put_at_put_at: "p \<le> length c \<Longrightarrow> put_at (put_at c p xs) (p + length xs) ys = put_at c p (xs @ ys)"
  using put_at_length [of p c xs] by (simp add: put_at_inside put_at_length) (simp add: ac_simps)

definition same_stream :: "storage \<Rightarrow> storage \<Rightarrow> bool" where
  "same_stream st st' \<longleftrightarrow> same_env st st' \<and> map_option fs_in (st_stream st') = map_option fs_in (st_stream st)"

lemma same_stream_trans: "same_stream a b \<Longrightarrow> same_stream b c \<Longrightarrow> same_stream a c"
  by (auto simp: same_stream_def intro: same_env_trans)

lemma write_step_at:
  assumes "writing_at p st" and "length bs \<le> st_room st"
  shows "\<exists>st'. write_step bs st = (None, st') \<and> writing_at (p + length bs) st' \<and>
    contents st' = put_at (contents st) p bs \<and> st_room st' = st_room st - length bs \<and> same_stream st st'"
proof -
  obtain f where f: "st_stream st = Some f" "fs_good f" "fs_out f" "\<not> fs_app f" "fs_pos f = p" "p \<le> length (contents st)"
    using assms(1) by (auto simp: writing_at_def)
  then show ?thesis using assms(2) put_at_length [OF f(6), of bs]
    by (auto simp: write_step_def fs_write_def Let_def writing_at_def same_stream_def same_env_def)
qed

lemma write_step_more:
  assumes "writing_at (p + length xs) st" and "contents st = put_at c p xs" and "p \<le> length c" and "same_stream st0 st"
    and "length bs \<le> st_room st"
  shows "\<exists>st'. write_step bs st = (None, st') \<and> writing_at (p + length (xs @ bs)) st' \<and> contents st' = put_at c p (xs @ bs) \<and>
    same_stream st0 st' \<and> st_room st' = st_room st - length bs"
  using write_step_at [OF assms(1,5)] put_at_put_at [OF assms(3), of xs bs] same_stream_trans [OF assms(4)] assms(2)
  by (auto simp: add.assoc)

lemma write_data_block_put:
  assumes "writing_at p st" and "wf_stream d" and "pending d \<noteq> []" and "length (pending d) < 2 ^ 32"
    and "length (pending d) + 16 \<le> st_room st"
  shows "\<exists>d' st'. write_data_block d off st = Some ((True, 0), int p, d', st') \<and>
    contents st' = put_at (contents st) p (enc_block (pending d)) \<and> writing_at (p + (16 + length (pending d))) st' \<and>
    st_room st' = st_room st - (16 + length (pending d)) \<and> same_stream st st'"
proof -
  let ?bs = "pending d" and ?n = "word_of_nat (length (pending d)) :: u32"
  let ?w = "u32_image ?n" and ?c = "contents st"
  have un: "unat ?n = length ?bs" using assms(4) by (rule u32_value_length)
  have sz: "word_of_int (available d) = ?n" using assms(2) by (simp add: available_pending)
  have nz: "?n \<noteq> 0" using un assms(3) by (metis length_0_conv unat_0)
  obtain f where f: "st_stream st = Some f" "fs_tell f = int p" and p: "p \<le> length ?c"
    using assms(1) by (auto simp: writing_at_def fs_tell_def)
  have room: "4 \<le> st_room st" "4 \<le> st_room st - 4" "length ?bs \<le> st_room st - 8"
    "4 \<le> st_room st - 8 - length ?bs" "4 \<le> st_room st - 12 - length ?bs"
    using assms(5) by linarith+
  have zero: "writing_at (p + length []) st" "put_at ?c p [] = ?c" "same_stream st st"
    using assms(1) p by (simp_all add: put_at_inside same_stream_def)
  obtain s1 where s1: "write_step ?w st = (None, s1)" "writing_at (p + length ([] @ ?w)) s1"
    "contents s1 = put_at ?c p ([] @ ?w)" "same_stream st s1" "st_room s1 = st_room st - 4"
    using write_step_more [OF zero(1) zero(2) [symmetric] p zero(3), of ?w] room by auto
  obtain s2 where s2: "write_step ?w s1 = (None, s2)" "writing_at (p + length (([] @ ?w) @ ?w)) s2"
    "contents s2 = put_at ?c p (([] @ ?w) @ ?w)" "same_stream st s2" "st_room s2 = st_room st - 8"
    using write_step_more [OF s1(2,3) p s1(4), of ?w] room s1(5) by auto
  obtain s3 where s3: "write_step ?bs s2 = (None, s3)" "writing_at (p + length ((([] @ ?w) @ ?w) @ ?bs)) s3"
    "contents s3 = put_at ?c p ((([] @ ?w) @ ?w) @ ?bs)" "same_stream st s3" "st_room s3 = st_room st - 8 - length ?bs"
    using write_step_more [OF s2(2,3) p s2(4), of ?bs] room s2(5) by auto
  obtain s4 where s4: "write_step ?w s3 = (None, s4)" "writing_at (p + length (((([] @ ?w) @ ?w) @ ?bs) @ ?w)) s4"
    "contents s4 = put_at ?c p (((([] @ ?w) @ ?w) @ ?bs) @ ?w)" "same_stream st s4" "st_room s4 = st_room st - 12 - length ?bs"
    using write_step_more [OF s3(2,3) p s3(4), of ?w] room s3(5) by auto
  obtain s5 where s5: "write_step ?w s4 = (None, s5)" "writing_at (p + length ((((([] @ ?w) @ ?w) @ ?bs) @ ?w) @ ?w)) s5"
    "contents s5 = put_at ?c p ((((([] @ ?w) @ ?w) @ ?bs) @ ?w) @ ?w)" "same_stream st s5"
    "st_room s5 = st_room st - 16 - length ?bs"
    using write_step_more [OF s4(2,3) p s4(4), of ?w] room s4(5) by auto
  have rd: "read_bytes (unat ?n) d = Some (?bs, advance (length ?bs) d)"
    using assms(2,3) un by (simp add: read_pending)
  have "write_data_block d off st = Some ((True, 0), int p, advance (length ?bs) d, s5)"
    using f sz nz by (simp add: write_data_block_def Let_def rd s1(1) s2(1) s3(1) s4(1) s5(1))
  then show ?thesis using s5(2-5) by (simp add: enc_block_def add.commute Let_def)
qed


lemma write_data_block_at_put:
  assumes "writing_at q st" and "p \<le> length (contents st)" and "wf_stream d" and "pending d \<noteq> []"
    and "length (pending d) < 2 ^ 32" and "length (pending d) + 16 \<le> st_room st"
  shows "\<exists>d' st'. write_data_block_at d p st = Some ((True, 0), d', st') \<and>
    contents st' = put_at (contents st) p (enc_block (pending d)) \<and> writing_at (length (contents st')) st' \<and>
    st_room st' = st_room st - (16 + length (pending d)) \<and> same_stream st st'"
proof -
  have s: "writing_at p (seek_stream p st)" "contents (seek_stream p st) = contents st" "st_room (seek_stream p st) = st_room st"
    "same_stream st (seek_stream p st)"
    using assms(1,2) by (auto simp: writing_at_def seek_stream_def fs_seek_def same_stream_def same_env_def)
  obtain d' st1 where w: "write_data_block d (int p) (seek_stream p st) = Some ((True, 0), int p, d', st1)"
    "contents st1 = put_at (contents st) p (enc_block (pending d))" "writing_at (p + (16 + length (pending d))) st1"
    "st_room st1 = st_room st - (16 + length (pending d))" "same_stream (seek_stream p st) st1"
    using write_data_block_put [OF s(1) assms(3-5), of "int p"] assms(6) s(2,3) by auto
  let ?st = "seek_stream (length (contents st1)) st1"
  have t: "writing_at (length (contents st1)) ?st" "contents ?st = contents st1" "st_room ?st = st_room st1" "same_stream st1 ?st"
    using w(3) by (auto simp: writing_at_def seek_stream_def fs_seek_def same_stream_def same_env_def)
  have "same_stream st ?st" using same_stream_trans [OF s(4)] same_stream_trans [OF w(5) t(4)] by blast
  moreover have "write_data_block_at d p st = Some ((True, 0), d', ?st)"
    using assms(1) w(1) by (auto simp: write_data_block_at_def writing_at_def)
  ultimately show ?thesis using t w(2,4) by simp
qed

text \<open>Reading a block where it is, on a stream that may write too.\<close>

lemma read_at:
  assumes "open_reading st" and "drop p (contents st) = enc_block b @ r" and "good_block b" and "wf_stream d"
  shows "\<exists>st' d'. read_data_block (int p) st d = Some (True, st', d') \<and> open_reading st' \<and> contents st' = contents st \<and>
    same_stream st st' \<and> st_room st' = st_room st \<and> (writing_at q st \<longrightarrow> writing_at (p + (16 + length b)) st') \<and>
    wf_stream d' \<and> pending d' = pending d @ b"
proof -
  obtain f where f: "st_stream st = Some f" "readable f" using assms(1) by (auto simp: open_reading_def)
  let ?f = "f\<lparr>fs_pos := p\<rparr>"
  have seek: "fs_seek p f = ?f" "readable ?f" using f(2) by (simp_all add: fs_seek_def readable_def)
  have len: "p + (16 + length b) \<le> length (contents st)"
    using arg_cong [OF assms(2), of length] by simp
  then have "\<not> at_eof ?f (contents st)" using seek(2) by (auto simp: at_eof_def readable_def)
  moreover obtain d' where "read_block_body (contents st) ?f d = (True, move (16 + length b) ?f, d')"
    "wf_stream d'" "pending d' = pending d @ b"
    using read_block_body_enc [OF seek(2) assms(3) _ assms(4), of "contents st" r] assms(2) by auto
  ultimately show ?thesis
    using f seek len
    by (auto simp: read_data_block_def Let_def open_reading_def same_stream_def same_env_def writing_at_def move_def
          readable_def)
qed

lemma writing_at_end: "writing_at (length (contents st)) st \<Longrightarrow> appending st"
  by (auto simp: writing_at_def appending_def)

text \<open>The mode of the stores that overwrite in place: a file that is there is opened for reading too.\<close>

definition update_mode :: "storage \<Rightarrow> storage_mode" where
  "update_mode st = mode_zero\<lparr>sm_write := True, sm_at_end := True, sm_read := st_file st \<noteq> None\<rparr>"

lemma open_update:
  assumes "can_use_file st"
  shows "\<exists>st'. storage_open (update_mode st) st = (True, st') \<and> writing_at (length (contents st')) st' \<and>
    contents st' = contents st \<and> st_room st' = st_room st \<and> can_use_file (storage_close st') \<and>
    (st_file st \<noteq> None \<longrightarrow> open_reading st') \<and> st_file st' \<noteq> None"
  using assms
  by (auto simp: storage_open_def can_use_file_def update_mode_def mode_zero_def fstream_open_def filebuf_mode_def Let_def
      writing_at_def fs_seek_def contents_def storage_close_def open_reading_def readable_def)

lemma same_stream_can_use: "same_stream st st' \<Longrightarrow> can_use_file (storage_close st) \<Longrightarrow> can_use_file (storage_close st')"
  by (auto simp: same_stream_def intro: same_env_can_use)

lemma same_stream_reading: "same_stream st st' \<Longrightarrow> open_reading st \<Longrightarrow> writing_at p st' \<Longrightarrow> open_reading st'"
  by (auto simp: same_stream_def open_reading_def readable_def writing_at_def)

subsection \<open>Padded records\<close>

text \<open>
  A store that overwrites in place writes more bytes than the record has: zeros behind the fields, which the
  reader of packs takes for empty fields of type 0, the last of them for a rest of less than eight bytes.
\<close>

definition padding :: "nat \<Rightarrow> field list" where
  "padding k = replicate ((k + 7) div 8) (0, [])"

lemma mk_tlv_0: "mk_tlv 0 [] = tlv_default"
  by (simp add: mk_tlv_def set_value_def tlv_default_def reset_def empty_stream_def write_bytes_def)

lemma le_enc_0: "le_enc n 0 = replicate n 0"
  by (induction n) simp_all

lemma eight_zeros: "replicate 8 0 = enc_field (0, [])"
proof -
  have "enc_field (0, []) = replicate 4 0 @ replicate 4 0" by (simp add: u32_image_def le_enc_0)
  also have "\<dots> = replicate 8 0" by (simp flip: replicate_add)
  finally show ?thesis by simp
qed

lemma unserialize_loop_step:
  "available s \<noteq> 0 \<Longrightarrow> tlv_unserialize s = Some (True, t, s') \<Longrightarrow> unserialize_loop acc s = unserialize_loop (acc @ [t]) s'"
  by (subst unserialize_loop.simps) simp

lemma unserialize_loop_end: "available s = 0 \<Longrightarrow> unserialize_loop acc s = Some (True, acc, s)"
  by (subst unserialize_loop.simps) simp

lemma unserialize_loop_field:
  assumes "wf_stream s" and "length bs < 2 ^ 32" and "pending s = enc_field (ty, bs) @ r"
  shows "\<exists>s'. unserialize_loop acc s = unserialize_loop (acc @ [mk_tlv ty bs]) s' \<and> wf_stream s' \<and> pending s' = r"
proof -
  obtain s1 where s1: "tlv_unserialize s = Some (True, mk_tlv ty bs, s1)" "wf_stream s1" "pending s1 = r"
    using tlv_unserialize_enc [OF assms] by blast
  have "length (pending s) = 8 + length bs + length r" using assms(3) by simp
  then have "available s \<noteq> 0" using assms(1) by (simp add: available_pending)
  from unserialize_loop_step [OF this s1(1)] s1(2,3) show ?thesis by blast
qed

lemma read_zeros:
  "wf_stream s \<Longrightarrow> pending s = replicate k 0 \<Longrightarrow>
    \<exists>s'. unserialize_loop acc s = Some (True, acc @ map (\<lambda>(ty, bs). mk_tlv ty bs) (padding k), s') \<and> wf_stream s' \<and> pending s' = []"
proof (induction k arbitrary: acc s rule: less_induct)
  case (less k)
  have av: "available s = int k" using less.prems by (simp add: available_pending)
  consider "k = 0" | "0 < k" "k < 8" | j where "k = 8 + j" by (metis le_iff_add not_less gr0I)
  then show ?case
  proof cases
    case 1
    with less.prems av show ?thesis by (simp add: unserialize_loop_end padding_def)
  next
    case 2
    have t: "tlv_unserialize s = Some (True, tlv_default, advance k s)"
      using 2 less.prems av by (simp add: tlv_unserialize_def lt_size_def read_pending)
    have p: "wf_stream (advance k s)" "pending (advance k s) = []" "available (advance k s) = 0"
      using less.prems by (simp_all add: available_pending)
    have "(k + 7) div 8 = 1" using 2 by presburger
    then have z: "padding k = [(0, [])]" by (simp add: padding_def)
    have "unserialize_loop acc s = unserialize_loop (acc @ [tlv_default]) (advance k s)"
      using av 2 by (intro unserialize_loop_step t) simp
    also have "\<dots> = Some (True, acc @ [tlv_default], advance k s)" by (rule unserialize_loop_end [OF p(3)])
    finally show ?thesis using p z by (simp add: mk_tlv_0)
  next
    case 3
    have "pending s = enc_field (0, []) @ replicate j 0" using less.prems(2) 3 by (simp only: replicate_add eight_zeros)
    then obtain s1 where s1: "unserialize_loop acc s = unserialize_loop (acc @ [mk_tlv 0 []]) s1" "wf_stream s1"
      "pending s1 = replicate j 0"
      using unserialize_loop_field [OF less.prems(1), of "[]" 0] by auto
    have "(k + 7) div 8 = Suc ((j + 7) div 8)" using 3 by presburger
    then have z: "padding k = (0, []) # padding j" by (simp add: padding_def)
    have "j < k" using 3 by simp
    from less.IH [OF this s1(2,3), of "acc @ [mk_tlv 0 []]"] s1(1) z show ?thesis by simp
  qed
qed

lemma unserialize_loop_fields:
  "wf_stream s \<Longrightarrow> list_all good_field fs \<Longrightarrow> pending s = enc_fields fs @ r \<Longrightarrow>
    \<exists>s'. unserialize_loop acc s = unserialize_loop (acc @ map (\<lambda>(ty, bs). mk_tlv ty bs) fs) s' \<and> wf_stream s' \<and> pending s' = r"
proof (induction fs arbitrary: acc s)
  case (Cons f fs)
  obtain ty bs where f: "f = (ty, bs)" by (cases f)
  obtain s1 where s1: "unserialize_loop acc s = unserialize_loop (acc @ [mk_tlv ty bs]) s1" "wf_stream s1"
    "pending s1 = enc_fields fs @ r"
    using unserialize_loop_field [OF Cons.prems(1), of bs ty "enc_fields fs @ r" acc] Cons.prems(2,3) f
    by (auto simp del: enc_field.simps)
  from Cons.IH [OF s1(2) _ s1(3), of "acc @ [mk_tlv ty bs]"] Cons.prems(2) f s1(1) show ?case by simp
qed auto

lemma pack_unserialize_padded:
  assumes "wf_stream s" and "list_all good_field fs" and "pending s = enc_fields fs @ replicate k 0"
  shows "\<exists>s'. pack_unserialize empty_pack s = Some (True, mk_pack (fs @ padding k), s') \<and> wf_stream s' \<and> pending s' = []"
proof -
  let ?t = "\<lambda>fs. map (\<lambda>(ty, bs). mk_tlv ty bs) fs"
  obtain s1 where s1: "unserialize_loop [] s = unserialize_loop (?t fs) s1" "wf_stream s1" "pending s1 = replicate k 0"
    using unserialize_loop_fields [OF assms, of "[]"] by auto
  obtain s2 where s2: "unserialize_loop (?t fs) s1 = Some (True, ?t fs @ ?t (padding k), s2)" "wf_stream s2" "pending s2 = []"
    using read_zeros [OF s1(2,3)] by blast
  then have "pack_unserialize empty_pack s = Some (True, mk_pack (fs @ padding k), s2)"
    using s1(1) by (simp add: pack_unserialize_def empty_pack_def mk_pack_def)
  with s2 show ?thesis by blast
qed

end
