(* ===== verification/Messages_Data.thy ===== *)
theory Messages_Data
  imports Message_Store Storage Block_Loop
begin

text \<open>
  The class \<^verbatim>\<open>messages_data\<close> (\<^verbatim>\<open>core/archive/messages_data.h\<close> and \<^verbatim>\<open>.cpp\<close>): the file that holds the
  messages of a dialog as blocks. \<open>update\<close> appends messages and tells each where it was put;
  \<open>get_messages\<close> reads the messages of a list of headers and applies their modifications.

  The state of the class is its storage. The outer \<open>None\<close> of a result is a dereferenced null pointer.
\<close>

subsection \<open>Appending\<close>

text \<open>
  The loop of \<open>update\<close>: the block it returns has the places of the messages that were written; one
  stream is reset for every message.
\<close>

fun update_loop ::
  "junk \<Rightarrow> history_message list \<Rightarrow> binary_stream \<Rightarrow> storage \<Rightarrow> (result_type \<times> history_message list \<times> storage) option"
where
  "update_loop junk [] d st = Some ((True, 0), [], st)"
| "update_loop junk (m # ms) d st = do {
     let d = message_serialize junk m (reset d);
     let data_size = available d;
     (res, offset, d, st) \<leftarrow> write_data_block d 0 st;
     if \<not> fst res then Some (res, m # ms, st)
     else do {
       (res, ms, st) \<leftarrow> update_loop junk ms d st;
       Some (res, m\<lparr>hm_data_offset := offset, hm_data_size := word_of_int data_size\<rparr> # ms, st)
     }
   }"

definition update ::
  "junk \<Rightarrow> history_message list \<Rightarrow> storage \<Rightarrow> (result_type \<times> history_message list \<times> storage) option"
where
  "update junk ms st =
     (case storage_open (mode_zero\<lparr>sm_write := True, sm_append := True\<rparr>) st of
        (False, st) \<Rightarrow> Some ((False, 0), ms, st)
      | (True, st) \<Rightarrow> map_option (\<lambda>(res, ms, st). (res, ms, storage_close st)) (update_loop junk ms empty_stream st))"

definition drop_data :: "storage \<Rightarrow> storage" where
  "drop_data st = storage_close (snd (storage_open (mode_zero\<lparr>sm_write := True, sm_truncate := True\<rparr>) st))"

subsection \<open>Reading\<close>

definition fake_text :: cstring where
  "fake_text = map (\<lambda>c. of_char c) ''Invalid message data. Will be updated soon''"

definition make_fake_message :: "message_header \<Rightarrow> history_message" where
  "make_fake_message h = (apply_header_flags h init_default)
     \<lparr>hm_msgid := mh_id h, hm_prev := mh_prev h, hm_time := sint (mh_time h), hm_text := fake_text\<rparr>"

text \<open>The modifications: the stream is shared and not reset, so what one reading leaves is in front of the next.\<close>

fun modifications_loop ::
  "reader \<Rightarrow> message_header list \<Rightarrow> binary_stream \<Rightarrow> storage \<Rightarrow> (history_message list \<times> storage) option"
where
  "modifications_loop rd [] d st = Some ([], st)"
| "modifications_loop rd (h # hs) d st = do {
     (ok, st, d) \<leftarrow> read_data_block (mh_offset h) st d;
     if \<not> ok then modifications_loop rd hs d st
     else do {
       (code, m, d) \<leftarrow> message_unserialize rd d init_default;
       if code \<noteq> 0 \<or> hm_msgid m \<noteq> mh_id h then modifications_loop rd hs d st
       else do {
         (ms, st) \<leftarrow> modifications_loop rd hs d st;
         Some (m # ms, st)
       }
     }
   }"

definition get_message_modifications ::
  "reader \<Rightarrow> message_header \<Rightarrow> storage \<Rightarrow> (history_message list \<times> storage) option" where
  "get_message_modifications rd h st =
     (if \<not> is_modified h \<and> \<not> is_updated h then Some ([], st)
      else modifications_loop rd (mh_modifications h) empty_stream st)"

text \<open>One round of the loop of \<open>get_messages\<close>: the error, if there is one, and the message.\<close>

type_synonym read_error = "int \<times> int"

definition read_message ::
  "reader \<Rightarrow> message_header \<Rightarrow> binary_stream \<Rightarrow> storage \<Rightarrow>
    (read_error option \<times> history_message \<times> binary_stream \<times> storage) option"
where
  "read_message rd h d st = do {
     (ok, st, d) \<leftarrow> read_data_block (mh_offset h) st (reset d);
     if \<not> ok then Some (Some (mh_id h, 1), make_fake_message h, d, st)
     else do {
       (code, m, d) \<leftarrow> message_unserialize rd d init_default;
       if code \<noteq> 0 then Some (Some (mh_id h, 2), make_fake_message h, d, st)
       else if hm_msgid m \<noteq> mh_id h then Some (Some (mh_id h, 3), make_fake_message h, d, st)
       else do {
         let m = apply_header_flags h m;
         (mods, st) \<leftarrow> get_message_modifications rd h st;
         Some (None, apply_modifications mods m, d, st)
       }
     }
   }"

fun get_messages_loop ::
  "reader \<Rightarrow> message_header list \<Rightarrow> binary_stream \<Rightarrow> storage \<Rightarrow>
    (read_error list \<times> history_message list \<times> storage) option"
where
  "get_messages_loop rd [] d st = Some ([], [], st)"
| "get_messages_loop rd (h # hs) d st = do {
     (e, m, d, st) \<leftarrow> read_message rd h d st;
     (es, ms, st) \<leftarrow> get_messages_loop rd hs d st;
     Some ((case e of None \<Rightarrow> es | Some x \<Rightarrow> x # es), m # ms, st)
   }"

text \<open>\<open>messages\<close> is what the caller's block holds before the call.\<close>

definition get_messages ::
  "reader \<Rightarrow> message_header list \<Rightarrow> history_message list \<Rightarrow> storage \<Rightarrow>
    (read_error list \<times> history_message list \<times> storage) option"
where
  "get_messages rd hs messages st =
     (case storage_open (mode_zero\<lparr>sm_read := True, sm_append := True\<rparr>) st of
        (False, st) \<Rightarrow> Some ([(-1, -1)], messages, st)
      | (True, st) \<Rightarrow> do {
          (es, ms, st) \<leftarrow> get_messages_loop rd hs empty_stream st;
          let messages = messages @ ms;
          Some (es @ (if length messages \<noteq> length hs then [(-1, 4)] else []), messages, storage_close st)
        })"

subsection \<open>What the owner of the file relies on\<close>

text \<open>
  A file of messages, as the archive of a contact uses it: batches are put at its end, and an entry (a
  header with the message it stands for) that the file holds can be fetched, now and after any further
  batch. \<open>ready n\<close> is a file that takes \<open>n\<close> more bytes, \<open>weight\<close> the bytes of a batch, \<open>shown\<close> what an entry
  is fetched as, and \<open>view\<close> what is fetched of a message that was just put.
\<close>

fun put_all :: "('m list \<Rightarrow> 's \<Rightarrow> ('m list \<times> 's) option) \<Rightarrow> 'm list list \<Rightarrow> 's \<Rightarrow> ('m list \<times> 's) option" where
  "put_all put [] s = Some ([], s)"
| "put_all put (ms # mss) s = do {
     (ms', s) \<leftarrow> put ms s;
     (rest, s) \<leftarrow> put_all put mss s;
     Some (ms' @ rest, s)
   }"

locale message_file =
  fixes ready :: "nat \<Rightarrow> 's \<Rightarrow> bool"
    and weight :: "'m list \<Rightarrow> nat"
    and storable :: "'m \<Rightarrow> bool"
    and put :: "'m list \<Rightarrow> 's \<Rightarrow> ('m list \<times> 's) option"
    and holds :: "'s \<Rightarrow> 'e \<Rightarrow> bool"
    and entry :: "'m \<Rightarrow> 'm \<Rightarrow> 'e"
    and fetch :: "'e list \<Rightarrow> 's \<Rightarrow> ('r list \<times> 's) option"
    and shown :: "'e \<Rightarrow> 'r"
    and view :: "'m \<Rightarrow> 'r"
  assumes put_ok: "ready n s \<Longrightarrow> weight ms \<le> n \<Longrightarrow> list_all storable ms \<Longrightarrow>
      \<exists>ms' s'. put ms s = Some (ms', s') \<and> ready (n - weight ms) s' \<and> length ms' = length ms \<and>
        list_all (holds s') (map2 entry ms' ms) \<and> map shown (map2 entry ms' ms) = map view ms"
    and put_keeps: "put ms s = Some (ms', s') \<Longrightarrow> ready n s \<Longrightarrow> weight ms \<le> n \<Longrightarrow> list_all storable ms \<Longrightarrow>
      holds s e \<Longrightarrow> holds s' e"
    and fetch_ok: "ready n s \<Longrightarrow> es \<noteq> [] \<Longrightarrow> list_all (holds s) es \<Longrightarrow>
      \<exists>s'. fetch es s = Some (map shown es, s') \<and> ready n s'"
begin

lemma put_all_ok:
  assumes "ready n s" and "sum_list (map weight mss) \<le> n" and "list_all (list_all storable) mss"
    and "list_all (holds s) es"
  shows "\<exists>ms' s'. put_all put mss s = Some (ms', s') \<and> ready (n - sum_list (map weight mss)) s' \<and>
    length ms' = length (concat mss) \<and> list_all (holds s') (es @ map2 entry ms' (concat mss)) \<and>
    map shown (map2 entry ms' (concat mss)) = map view (concat mss)"
  using assms
proof (induction mss arbitrary: n s es)
  case (Cons ms mss)
  have w: "weight ms \<le> n" "list_all storable ms" using Cons.prems(2,3) by simp_all
  obtain ms1 s1 where a: "put ms s = Some (ms1, s1)" "ready (n - weight ms) s1" "length ms1 = length ms"
    "list_all (holds s1) (map2 entry ms1 ms)" "map shown (map2 entry ms1 ms) = map view ms"
    using put_ok [OF Cons.prems(1) w] by blast
  have "list_all (holds s1) es"
    using put_keeps [OF a(1) Cons.prems(1) w] Cons.prems(4) by (simp add: list_all_iff)
  with a(4) have es: "list_all (holds s1) (es @ map2 entry ms1 ms)" by simp
  have "sum_list (map weight mss) \<le> n - weight ms" "list_all (list_all storable) mss" using Cons.prems(2,3) by simp_all
  from Cons.IH [OF a(2) this es] obtain ms2 s2 where "put_all put mss s1 = Some (ms2, s2)"
    "ready (n - weight ms - sum_list (map weight mss)) s2" "length ms2 = length (concat mss)"
    "list_all (holds s2) ((es @ map2 entry ms1 ms) @ map2 entry ms2 (concat mss))"
    "map shown (map2 entry ms2 (concat mss)) = map view (concat mss)" by blast
  with a show ?case by simp
qed simp

lemma put_is_fetched:
  assumes "ready n s" and "sum_list (map weight mss) \<le> n" and "list_all (list_all storable) mss"
    and "list_all (holds s) es" and "es \<noteq> [] \<or> concat mss \<noteq> []"
  shows "\<exists>ms' s' s''. put_all put mss s = Some (ms', s') \<and> length ms' = length (concat mss) \<and>
    fetch (es @ map2 entry ms' (concat mss)) s' = Some (map shown es @ map view (concat mss), s'')"
proof -
  obtain ms' s' where p: "put_all put mss s = Some (ms', s')" "ready (n - sum_list (map weight mss)) s'"
    "length ms' = length (concat mss)" "list_all (holds s') (es @ map2 entry ms' (concat mss))"
    "map shown (map2 entry ms' (concat mss)) = map view (concat mss)"
    using put_all_ok [OF assms(1-4)] by blast
  have "es @ map2 entry ms' (concat mss) \<noteq> []" using assms(5) p(3) by (auto simp: zip_eq_Nil_iff)
  from fetch_ok [OF p(2) this p(4)] p(1,3,5) show ?thesis by auto
qed

end

subsection \<open>Messages in a file\<close>

definition message_bytes :: "junk \<Rightarrow> history_message \<Rightarrow> bytes" where
  "message_bytes junk m = enc_fields (map tlv_view (message_fields junk m []))"

text \<open>Messages the file can hold: the writer's conditions, and at most 1 MiB of bytes.\<close>

definition message_fits :: "junk \<Rightarrow> history_message \<Rightarrow> bool" where
  "message_fits junk m \<longleftrightarrow> good_message m \<and> (hm_json m = [] \<or> hm_sender_aimid m = []) \<and>
     length (message_bytes junk m) \<le> 1024 * 1024"

text \<open>A header that points to a message in a file.\<close>

definition points_to :: "junk \<Rightarrow> bytes \<Rightarrow> message_header \<Rightarrow> history_message \<Rightarrow> bool" where
  "points_to junk c h m \<longleftrightarrow> message_fits junk m \<and> mh_id h = hm_msgid m \<and> 0 \<le> mh_offset h \<and>
     (\<exists>r. drop (nat (mh_offset h)) c = enc_block (message_bytes junk m) @ r)"

lemma points_to_append: "points_to junk c h m \<Longrightarrow> points_to junk (c @ x) h m"
proof -
  assume p: "points_to junk c h m"
  then obtain r where r: "drop (nat (mh_offset h)) c = enc_block (message_bytes junk m) @ r"
    by (auto simp: points_to_def)
  then have "drop (nat (mh_offset h)) c \<noteq> []" by (simp flip: length_0_conv)
  then have "drop (nat (mh_offset h)) (c @ x) = drop (nat (mh_offset h)) c @ x" by simp
  with p r show ?thesis by (auto simp: points_to_def)
qed

lemma message_bytes_nonempty: "message_bytes junk m \<noteq> []"
  by (simp only: message_bytes_def enc_fields_empty map_is_Nil_conv) (simp add: message_fields_def)

lemma message_fits_good:
  "message_fits junk m \<Longrightarrow> good_block (message_bytes junk m)"
  "message_fits junk m \<Longrightarrow> fits (message_fields junk m [])"
  using message_bytes_nonempty [of junk m] by (simp_all add: message_fits_def good_block_def message_bytes_def)

text \<open>Where a list of messages goes in a file of \<open>n\<close> bytes.\<close>

fun placed :: "junk \<Rightarrow> nat \<Rightarrow> history_message list \<Rightarrow> history_message list" where
  "placed junk n [] = []"
| "placed junk n (m # ms) = (let l = length (message_bytes junk m) in
     m\<lparr>hm_data_offset := int n, hm_data_size := word_of_nat l\<rparr> # placed junk (n + 16 + l) ms)"

definition blocks_of :: "junk \<Rightarrow> history_message list \<Rightarrow> bytes" where
  "blocks_of junk ms = concat (map (\<lambda>m. enc_block (message_bytes junk m)) ms)"

lemma message_serialize_pending:
  "pending (message_serialize junk m (reset d)) = message_bytes junk m"
  "wf_stream (message_serialize junk m (reset d))"
  using message_stream [of "reset d" junk m "[]"] by (simp_all add: message_serialize_def message_bytes_def)

lemma update_loop_appends:
  assumes "appending st" and "list_all (message_fits junk) ms" and "length (blocks_of junk ms) \<le> st_room st"
  shows "\<exists>st'. update_loop junk ms d st = Some ((True, 0), placed junk (length (contents st)) ms, st') \<and>
    appending st' \<and> contents st' = contents st @ blocks_of junk ms \<and> same_env st st' \<and>
    st_room st' = st_room st - length (blocks_of junk ms)"
  using assms
proof (induction ms arbitrary: d st)
  case (Cons m ms)
  let ?d = "message_serialize junk m (reset d)" and ?bs = "message_bytes junk m"
  have good: "good_block ?bs" using Cons.prems(2) message_fits_good by simp
  then have len: "pending ?d \<noteq> []" "length (pending ?d) < 2 ^ 32" "length (pending ?d) + 16 \<le> st_room st"
    using Cons.prems(3) by (simp_all add: message_serialize_pending good_block_def blocks_of_def)
  obtain d' st1 where w: "write_data_block ?d 0 st = Some ((True, 0), int (length (contents st)), d', st1)"
    "contents st1 = contents st @ enc_block ?bs" "appending st1" "st_room st1 = st_room st - (16 + length ?bs)"
    using write_data_block_append [OF Cons.prems(1) message_serialize_pending(2) len, of 0]
    by (auto simp: message_serialize_pending)
  have av: "available ?d = int (length ?bs)"
    using available_pending [OF message_serialize_pending(2)] by (simp add: message_serialize_pending)
  have ms: "list_all (message_fits junk) ms" "length (blocks_of junk ms) \<le> st_room st1"
    using Cons.prems(2,3) w(4) by (simp_all add: blocks_of_def)
  obtain st2 where "update_loop junk ms d' st1 = Some ((True, 0), placed junk (length (contents st1)) ms, st2)"
    "appending st2" "contents st2 = contents st1 @ blocks_of junk ms" "same_env st1 st2"
    "st_room st2 = st_room st1 - length (blocks_of junk ms)"
    using Cons.IH [OF w(3) ms, of d'] by blast
  with w av same_env_trans [OF write_data_block_env [OF w(1)]] show ?case
    by (simp add: Let_def blocks_of_def add.assoc add.commute [of 16])
qed (simp add: blocks_of_def)

lemma contents_close [simp]: "contents (storage_close st) = contents st"
  by (simp add: storage_close_def)

lemma update_spec:
  assumes "can_use_file st" and "list_all (message_fits junk) ms" and "length (blocks_of junk ms) \<le> st_room st"
  shows "\<exists>st'. update junk ms st = Some ((True, 0), placed junk (length (contents st)) ms, st') \<and>
    can_use_file st' \<and> contents st' = contents st @ blocks_of junk ms \<and> st_file st' \<noteq> None \<and>
    st_room st' = st_room st - length (blocks_of junk ms)"
proof -
  obtain st1 where o: "storage_open (mode_zero\<lparr>sm_write := True, sm_append := True\<rparr>) st = (True, st1)"
    "appending st1" "contents st1 = contents st" "st_room st1 = st_room st" "can_use_file (storage_close st1)"
    "st_file st1 \<noteq> None"
    using open_append [OF assms(1)] by blast
  obtain st2 where u: "update_loop junk ms empty_stream st1 = Some ((True, 0), placed junk (length (contents st1)) ms, st2)"
    "contents st2 = contents st1 @ blocks_of junk ms" "same_env st1 st2"
    "st_room st2 = st_room st1 - length (blocks_of junk ms)"
    using update_loop_appends [OF o(2) assms(2)] assms(3) o(4) by metis
  have "st_file st2 \<noteq> None"
  proof (cases ms)
    case Nil
    with u(1) o(6) show ?thesis by simp
  next
    case (Cons m ms')
    have "enc_block (message_bytes junk m) \<noteq> []" by (simp flip: length_0_conv)
    with Cons u(2) have "contents st2 \<noteq> []" by (simp add: blocks_of_def)
    then show ?thesis by (cases "st_file st2") (simp_all add: contents_def)
  qed
  then have "st_file (storage_close st2) \<noteq> None" by (simp add: storage_close_def)
  moreover have "st_room (storage_close st2) = st_room st - length (blocks_of junk ms)"
    using u(4) o(4) by (simp add: storage_close_def)
  ultimately show ?thesis using o u same_env_can_use [of st1 st2] by (auto simp: update_def)
qed

subsection \<open>Reading messages back\<close>

lemma message_unserialize_bytes:
  assumes "message_fits junk m" and "wf_stream d" and "pending d = message_bytes junk m"
  shows "\<exists>d'. message_unserialize rd d init_default = Some (0, stored_message junk rd m, d') \<and>
    wf_stream d' \<and> pending d' = []"
proof -
  have g: "good_message m" "hm_json m = [] \<or> hm_sender_aimid m = []" using assms(1) by (simp_all add: message_fits_def)
  note fit = message_fits_good(2) [OF assms(1)]
  obtain d' where "pack_unserialize empty_pack d = Some (True, mk_pack (map tlv_view (message_fields junk m [])), d')"
    "wf_stream d'" "pending d' = []"
    using pack_unserialize_enc [OF assms(2) fits_good [OF fit]] assms(3) by (auto simp: message_bytes_def)
  then show ?thesis
    using reads_all [OF reads_message [OF g(1) fit g(2), of rd "[]"]]
    by (auto simp: message_unserialize_def unserialize_call_def wire_def)
qed

text \<open>One message read through its header: the data stream is consumed and the storage stays open.\<close>

lemma pointed_message:
  assumes "points_to junk (contents st) h m" and "open_reading st" and "wf_stream d" and "pending d = []"
  shows "\<exists>st' d' d''. read_data_block (mh_offset h) st d = Some (True, st', d') \<and>
    message_unserialize rd d' init_default = Some (0, stored_message junk rd m, d'') \<and> wf_stream d'' \<and> pending d'' = [] \<and>
    open_reading st' \<and> contents st' = contents st \<and> same_env st st' \<and> hm_msgid (stored_message junk rd m) = mh_id h"
proof -
  obtain r where p: "message_fits junk m" "mh_id h = hm_msgid m" "0 \<le> mh_offset h"
    "drop (nat (mh_offset h)) (contents st) = enc_block (message_bytes junk m) @ r"
    using assms(1) by (auto simp: points_to_def)
  obtain st' d' where "read_data_block (mh_offset h) st d = Some (True, st', d')" "open_reading st'" "same_env st st'"
    "contents st' = contents st" "wf_stream d'" "pending d' = message_bytes junk m"
    using read_data_block_at [OF assms(2) message_fits_good(1) [OF p(1)] p(3,4) assms(3)] assms(4) by auto
  with message_unserialize_bytes [OF p(1), of d' rd] p(2) show ?thesis
    by (auto simp: stored_message_def)
qed

lemma modifications_loop_reads:
  assumes "list_all2 (points_to junk (contents st)) hs ms" and "open_reading st" and "wf_stream d" and "pending d = []"
  shows "\<exists>st'. modifications_loop rd hs d st = Some (map (stored_message junk rd) ms, st') \<and>
    open_reading st' \<and> contents st' = contents st \<and> same_env st st'"
  using assms
proof (induction hs arbitrary: ms d st)
  case (Cons h hs)
  then obtain m ms' where ms: "ms = m # ms'" "points_to junk (contents st) h m"
    "list_all2 (points_to junk (contents st)) hs ms'" by (auto simp: list_all2_Cons1)
  obtain st1 d1 d2 where one: "read_data_block (mh_offset h) st d = Some (True, st1, d1)"
    "message_unserialize rd d1 init_default = Some (0, stored_message junk rd m, d2)" "wf_stream d2" "pending d2 = []"
    "open_reading st1" "contents st1 = contents st" "same_env st st1" "hm_msgid (stored_message junk rd m) = mh_id h"
    using pointed_message [OF ms(2) Cons.prems(2-4)] by blast
  obtain st2 where "modifications_loop rd hs d2 st1 = Some (map (stored_message junk rd) ms', st2)"
    "open_reading st2" "contents st2 = contents st1" "same_env st1 st2"
    using Cons.IH [OF _ one(5,3,4)] ms(3) one(6) by auto
  with one ms(1) same_env_trans show ?case by fastforce
qed simp

text \<open>A header, its message and its modifications, all in the file.\<close>

definition all_stored :: "junk \<Rightarrow> bytes \<Rightarrow> message_header \<times> history_message \<times> history_message list \<Rightarrow> bool" where
  "all_stored junk c = (\<lambda>(h, m, mods). points_to junk c h m \<and>
     (if is_modified h \<or> is_updated h then list_all2 (points_to junk c) (mh_modifications h) mods else mods = []))"

definition shown_message ::
  "junk \<Rightarrow> reader \<Rightarrow> message_header \<times> history_message \<times> history_message list \<Rightarrow> history_message" where
  "shown_message junk rd = (\<lambda>(h, m, mods). apply_modifications (map (stored_message junk rd) mods)
     (apply_header_flags h (stored_message junk rd m)))"

lemma read_message_stored:
  assumes "all_stored junk (contents st) (h, m, mods)" and "open_reading st"
  shows "\<exists>d' st'. read_message rd h d st = Some (None, shown_message junk rd (h, m, mods), d', st') \<and>
    open_reading st' \<and> contents st' = contents st \<and> same_env st st'"
proof -
  have p: "points_to junk (contents st) h m" using assms(1) by (simp add: all_stored_def)
  obtain st1 d1 d2 where one: "read_data_block (mh_offset h) st (reset d) = Some (True, st1, d1)"
    "message_unserialize rd d1 init_default = Some (0, stored_message junk rd m, d2)"
    "open_reading st1" "contents st1 = contents st" "same_env st st1" "hm_msgid (stored_message junk rd m) = mh_id h"
    using pointed_message [OF p assms(2) wf_reset pending_reset] by blast
  have "\<exists>st2. get_message_modifications rd h st1 = Some (map (stored_message junk rd) mods, st2) \<and>
      open_reading st2 \<and> contents st2 = contents st1 \<and> same_env st1 st2"
    using modifications_loop_reads [of junk st1 "mh_modifications h" mods empty_stream rd] assms(1) one(3,4)
    by (auto simp: get_message_modifications_def all_stored_def split: if_splits)
  with one same_env_trans show ?thesis
    by (fastforce simp: read_message_def shown_message_def Let_def)
qed

lemma get_messages_loop_stored:
  assumes "list_all (all_stored junk (contents st)) xs" and "open_reading st"
  shows "\<exists>st'. get_messages_loop rd (map fst xs) d st = Some ([], map (shown_message junk rd) xs, st') \<and>
    open_reading st' \<and> contents st' = contents st \<and> same_env st st'"
  using assms
proof (induction xs arbitrary: d st)
  case (Cons x xs)
  obtain h m mods where x: "x = (h, m, mods)" by (cases x)
  obtain d1 st1 where one: "read_message rd h d st = Some (None, shown_message junk rd x, d1, st1)"
    "open_reading st1" "contents st1 = contents st" "same_env st st1"
    using read_message_stored [of junk st h m mods] Cons.prems x by force
  obtain st2 where "get_messages_loop rd (map fst xs) d1 st1 = Some ([], map (shown_message junk rd) xs, st2)"
    "open_reading st2" "contents st2 = contents st1" "same_env st1 st2"
    using Cons.IH [of st1 d1] Cons.prems(1) one by auto
  with one x same_env_trans show ?case by fastforce
qed simp

lemma get_messages_stored:
  assumes "can_use_file st" and "st_file st \<noteq> None" and "list_all (all_stored junk (contents st)) xs"
  shows "\<exists>st'. get_messages rd (map fst xs) [] st = Some ([], map (shown_message junk rd) xs, st') \<and>
    can_use_file st' \<and> contents st' = contents st"
proof -
  obtain st1 where o: "storage_open (mode_zero\<lparr>sm_read := True, sm_append := True\<rparr>) st = (True, st1)"
    "open_reading st1" "contents st1 = contents st" "can_use_file (storage_close st1)"
    using open_read_append [OF assms(1,2)] by blast
  obtain st2 where "get_messages_loop rd (map fst xs) empty_stream st1 = Some ([], map (shown_message junk rd) xs, st2)"
    "contents st2 = contents st1" "same_env st1 st2"
    using get_messages_loop_stored [of junk st1 xs] assms(3) o by metis
  with o same_env_can_use [of st1 st2] show ?thesis by (auto simp: get_messages_def)
qed


lemma placed_points:
  assumes "list_all (message_fits junk) ms"
  shows "list_all2 (points_to junk (c @ blocks_of junk ms)) (map header_of_message (placed junk (length c) ms)) ms"
  using assms
proof (induction ms arbitrary: c)
  case (Cons m ms)
  let ?b = "enc_block (message_bytes junk m)"
  have "list_all2 (points_to junk ((c @ ?b) @ blocks_of junk ms))
      (map header_of_message (placed junk (length (c @ ?b)) ms)) ms"
    using Cons.prems by (intro Cons.IH) simp
  moreover have "length (c @ ?b) = length c + 16 + length (message_bytes junk m)" by simp
  moreover have "points_to junk (c @ blocks_of junk (m # ms)) (header_of_message
      (m\<lparr>hm_data_offset := int (length c), hm_data_size := s\<rparr>)) m" for s
    using Cons.prems by (simp add: blocks_of_def points_to_def header_of_message_def mk_header_def)
  ultimately show ?case by (simp only: placed.simps Let_def list.map list_all2_Cons) (simp add: blocks_of_def)
qed simp

lemma set_flag_same [simp]: "set_flag n (flag n w) w = w"
  by (rule bit_eqI) (auto simp: set_flag_def flag_def bit_set_bit_iff bit_unset_bit_iff)

lemma shown_unmodified:
  "shown_message junk rd (header_of_message (m\<lparr>hm_data_offset := off, hm_data_size := sz\<rparr>), m, []) =
    stored_message junk rd m"
proof -
  have "hm_flags (stored_message junk rd m) = hm_flags m" by (simp add: stored_message_def)
  then show ?thesis
    by (simp add: shown_message_def apply_modifications_def apply_header_flags_def msg_set_deleted_def
        msg_set_restored_patch_def header_of_message_def is_deleted_def is_restored_patch_def mk_header_def)
qed

lemma placed_stored:
  assumes "list_all (message_fits junk) ms"
  shows "list_all (all_stored junk (c @ blocks_of junk ms))
     (map (\<lambda>(h, m). (h, m, [])) (zip (map header_of_message (placed junk (length c) ms)) ms))"
  using placed_points [OF assms, of c]
  by (auto simp: list_all_iff all_stored_def list_all2_iff set_zip header_of_message_def mk_header_def)

lemma length_placed [simp]: "length (placed junk n ms) = length ms"
  by (induction ms arbitrary: n) (simp_all add: Let_def)

lemma shown_placed:
  "map (shown_message junk rd) (map (\<lambda>(h, m). (h, m, [])) (zip (map header_of_message (placed junk n ms)) ms)) =
    map (stored_message junk rd) ms"
  by (induction ms arbitrary: n) (simp_all add: Let_def shown_unmodified)

lemma placed_headers:
  "map fst (map (\<lambda>(h, m). (h, m, [])) (zip (map header_of_message (placed junk n ms)) ms)) =
    map header_of_message (placed junk n ms)"
  by (induction ms arbitrary: n) (simp_all add: Let_def)

lemma all_stored_append: "all_stored junk c x \<Longrightarrow> all_stored junk (c @ y) x"
  by (auto simp: all_stored_def intro: points_to_append list_all2_mono split: if_splits)

subsection \<open>What reading leaves alone\<close>

lemma apply_modifications_id: "hm_msgid (apply_modifications mods m) = hm_msgid m"
  by (induction mods arbitrary: m)
    (simp_all add: apply_modifications_def apply_modification_def reset_extended_data_def split: option.split)

lemma apply_header_flags_id [simp]: "hm_msgid (apply_header_flags h m) = hm_msgid m"
  by (simp add: apply_header_flags_def msg_set_deleted_def msg_set_restored_patch_def)

lemma read_data_block_same: "read_data_block off st d = Some (b, st', d') \<Longrightarrow> contents st' = contents st \<and> st_room st' = st_room st"
  by (auto simp: read_data_block_def Let_def split: option.splits prod.splits if_splits)

lemma modifications_loop_same: "modifications_loop rd hs d st = Some (ms, st') \<Longrightarrow> contents st' = contents st \<and> st_room st' = st_room st"
proof (induction hs arbitrary: ms d st)
  case (Cons h hs)
  then show ?case
    by (auto simp: bind_eq_Some_conv dest!: read_data_block_same split: if_splits)
qed simp

lemma read_message_answer:
  assumes "read_message rd h d st = Some (e, m, d', st')"
  shows "contents st' = contents st \<and> st_room st' = st_room st" and "hm_msgid m = mh_id h"
    and "e = None \<or> (\<exists>c\<in>{1, 2, 3}. e = Some (mh_id h, c) \<and> m = make_fake_message h)"
  using assms
  by (auto simp: read_message_def bind_eq_Some_conv get_message_modifications_def make_fake_message_def Let_def
      apply_modifications_id dest!: read_data_block_same modifications_loop_same split: if_splits)

lemma get_messages_loop_answers:
  assumes "get_messages_loop rd hs d st = Some (es, ms, st')"
  shows "contents st' = contents st \<and> st_room st' = st_room st \<and> map hm_msgid ms = map mh_id hs \<and>
    (\<forall>e\<in>set es. fst e \<in> mh_id ` set hs \<and> snd e \<in> {1, 2, 3})"
  using assms
proof (induction hs arbitrary: d st es ms)
  case (Cons h hs)
  then obtain e m d1 st1 es1 ms1 where r: "read_message rd h d st = Some (e, m, d1, st1)"
    "get_messages_loop rd hs d1 st1 = Some (es1, ms1, st')"
    "es = (case e of None \<Rightarrow> es1 | Some x \<Rightarrow> x # es1)" "ms = m # ms1"
    by (auto simp: bind_eq_Some_conv)
  from Cons.IH [OF r(2)] read_message_answer [OF r(1)] r(3,4) show ?case by auto
qed simp

lemma storage_open_room: "storage_open md st = (ok, st') \<Longrightarrow> st_room st' = st_room st"
  by (auto simp: storage_open_def fstream_open_def Let_def split: option.splits if_splits open_kind.splits)

lemma get_messages_room: "get_messages rd hs [] st = Some (es, ms, st') \<Longrightarrow> st_room st' = st_room st"
  by (auto simp: get_messages_def bind_eq_Some_conv Let_def storage_close_def
      dest!: get_messages_loop_answers dest: storage_open_room split: prod.splits bool.splits)

subsection \<open>The file as its owner sees it\<close>

text \<open>One batch as the owner sees it, and the file of this class as a \<open>message_file\<close>.\<close>

definition update_batch :: "junk \<Rightarrow> history_message list \<Rightarrow> storage \<Rightarrow> (history_message list \<times> storage) option" where
  "update_batch junk ms st =
     (case update junk ms st of Some ((True, _), ms', st') \<Rightarrow> Some (ms', st') | _ \<Rightarrow> None)"

definition file_entry :: "history_message \<Rightarrow> history_message \<Rightarrow> message_header \<times> history_message \<times> history_message list" where
  "file_entry m' m = (header_of_message m', m, [])"

definition file_ready :: "nat \<Rightarrow> storage \<Rightarrow> bool" where
  "file_ready n st \<longleftrightarrow> can_use_file st \<and> n \<le> st_room st"

definition fetch_entries :: "reader \<Rightarrow> (message_header \<times> history_message \<times> history_message list) list \<Rightarrow> storage \<Rightarrow>
    (history_message list \<times> storage) option" where
  "fetch_entries rd es st =
     (case get_messages rd (map fst es) [] st of Some ([], ms, st') \<Rightarrow> Some (ms, st') | _ \<Rightarrow> None)"

lemma map2_entries:
  "map (\<lambda>(h, m). (h, m, [])) (zip (map header_of_message (placed junk n ms)) ms) = map2 file_entry (placed junk n ms) ms"
  by (induction ms arbitrary: n) (simp_all add: file_entry_def Let_def)

lemma all_stored_file: "all_stored junk (contents st) e \<Longrightarrow> st_file st \<noteq> None"
  by (cases "st_file st") (auto simp: all_stored_def points_to_def contents_def simp flip: length_0_conv)

lemma update_batch_spec:
  assumes "file_ready n st" and "length (blocks_of junk ms) \<le> n" and "list_all (message_fits junk) ms"
  shows "\<exists>st'. update_batch junk ms st = Some (placed junk (length (contents st)) ms, st') \<and>
    file_ready (n - length (blocks_of junk ms)) st' \<and> contents st' = contents st @ blocks_of junk ms"
  using update_spec [of st junk ms] assms by (auto simp: update_batch_def file_ready_def)

interpretation data_file: message_file file_ready "\<lambda>ms. length (blocks_of junk ms)" "message_fits junk" "update_batch junk"
  "\<lambda>st. all_stored junk (contents st)" file_entry "fetch_entries rd" "shown_message junk rd" "stored_message junk rd"
  for junk rd
proof unfold_locales
  fix n st ms
  assume a: "file_ready n st" "length (blocks_of junk ms) \<le> n" "list_all (message_fits junk) ms"
  show "\<exists>ms' st'. update_batch junk ms st = Some (ms', st') \<and> file_ready (n - length (blocks_of junk ms)) st' \<and>
      length ms' = length ms \<and> list_all (all_stored junk (contents st')) (map2 file_entry ms' ms) \<and>
      map (shown_message junk rd) (map2 file_entry ms' ms) = map (stored_message junk rd) ms"
    using update_batch_spec [OF a] placed_stored [OF a(3), of "contents st"]
      shown_placed [of junk rd "length (contents st)" ms] unfolding map2_entries by auto
next
  fix n st ms ms' st' e
  assume a: "file_ready n st" "length (blocks_of junk ms) \<le> n" "list_all (message_fits junk) ms"
    and "update_batch junk ms st = Some (ms', st')" "all_stored junk (contents st) e"
  then show "all_stored junk (contents st') e"
    using update_batch_spec [OF a] by (auto intro: all_stored_append)
next
  fix n st es
  assume a: "file_ready n st" "es \<noteq> []" "list_all (all_stored junk (contents st)) es"
  then have "st_file st \<noteq> None" by (cases es) (auto dest: all_stored_file)
  with a obtain st' where g: "get_messages rd (map fst es) [] st = Some ([], map (shown_message junk rd) es, st')"
    "can_use_file st'"
    using get_messages_stored [of st junk es rd] by (auto simp: file_ready_def)
  from get_messages_room [OF g(1)] a(1) g
  show "\<exists>st'. fetch_entries rd es st = Some (map (shown_message junk rd) es, st') \<and> file_ready n st'"
    by (simp add: fetch_entries_def file_ready_def)
qed

text \<open>Messages that are written are there: after any number of calls of \<open>update\<close> on a file with room for
  them, which all succeed, the headers made from the messages they returned read back every message, and
  the headers that read messages before read the same as before.\<close>

theorem update_then_get_messages:
  assumes "can_use_file st" and "list_all (list_all (message_fits junk)) mss"
    and "sum_list (map (\<lambda>ms. length (blocks_of junk ms)) mss) \<le> st_room st"
    and "list_all (all_stored junk (contents st)) xs" and "xs \<noteq> [] \<or> concat mss \<noteq> []"
  shows "\<exists>ms' st1 st2. put_all (update_batch junk) mss st = Some (ms', st1) \<and>
    get_messages rd (map fst xs @ map header_of_message ms') [] st1 =
      Some ([], map (shown_message junk rd) xs @ map (stored_message junk rd) (concat mss), st2)"
proof -
  have "file_ready (st_room st) st" using assms(1) by (simp add: file_ready_def)
  from data_file.put_is_fetched [OF this assms(3,2,4,5)] obtain ms' st1 st2
    where p: "put_all (update_batch junk) mss st = Some (ms', st1)" "length ms' = length (concat mss)"
      "fetch_entries rd (xs @ map2 file_entry ms' (concat mss)) st1 =
        Some (map (shown_message junk rd) xs @ map (stored_message junk rd) (concat mss), st2)" by blast
  have "map fst (map2 file_entry ms' (concat mss)) = map header_of_message ms'"
    using p(2) by (simp add: list_eq_iff_nth_eq file_entry_def)
  with p(1,3) show ?thesis
    by (auto simp: fetch_entries_def split: option.splits list.splits)
qed

subsection \<open>Bad headers and bad files\<close>

text \<open>Reading never changes the file and answers every header: when it returns, either the file could
  not be opened, or there is one message per header with the id of the header, each error names a
  header and one of the three reasons, and the storage is closed. The check of the two lengths never
  fails on an empty block.\<close>

theorem every_header_is_answered:
  assumes "st_stream st = None" and "get_messages rd hs [] st = Some (es, ms, st')"
  shows "contents st' = contents st \<and> st_stream st' = None \<and>
    (es = [(-1, -1)] \<and> ms = [] \<or>
     map hm_msgid ms = map mh_id hs \<and> (\<forall>e\<in>set es. fst e \<in> mh_id ` set hs \<and> snd e \<in> {1, 2, 3}))"
proof -
  obtain ok st0 where o: "storage_open (mode_zero\<lparr>sm_read := True, sm_append := True\<rparr>) st = (ok, st0)" by fastforce
  have c: "contents st0 = contents st"
    using o by (auto simp: storage_open_def fstream_open_def filebuf_mode_def mode_zero_def Let_def contents_def
        split: option.splits if_splits)
  show ?thesis
  proof (cases ok)
    case False
    with assms o c storage_open_closed [of _ st st0] show ?thesis by (simp add: get_messages_def)
  next
    case True
    with assms(2) o obtain es1 st1 where r: "get_messages_loop rd hs empty_stream st0 = Some (es1, ms, st1)"
      "es = es1 @ (if length ms \<noteq> length hs then [(-1, 4)] else [])" "st' = storage_close st1"
      by (auto simp: get_messages_def bind_eq_Some_conv Let_def)
    note a = get_messages_loop_answers [OF r(1)]
    from a have "length ms = length hs" by (metis length_map)
    with a r c show ?thesis by (simp add: storage_close_def contents_def)
  qed
qed

lemma read_when_not_good:
  assumes "st_stream st = Some f" and "\<not> fs_good f"
  shows "\<exists>st'. read_data_block off st d = Some (False, st', d) \<and> st_stream st' = Some f"
proof -
  have "f\<lparr>fs_good := False\<rparr> = f" using assms(2) by (cases f) simp
  with assms show ?thesis by (simp add: read_data_block_def fs_seek_def at_eof_def Let_def)
qed

lemma get_messages_loop_not_good:
  assumes "st_stream st = Some f" and "\<not> fs_good f"
  shows "\<exists>st'. get_messages_loop rd hs d st = Some (map (\<lambda>h. (mh_id h, 1)) hs, map make_fake_message hs, st')"
  using assms
proof (induction hs arbitrary: d st)
  case (Cons h hs)
  obtain st1 where r: "read_data_block (mh_offset h) st (reset d) = Some (False, st1, reset d)" "st_stream st1 = Some f"
    using read_when_not_good [OF Cons.prems] by blast
  with Cons.IH [OF r(2) Cons.prems(2), of "reset d"] show ?case by (auto simp: read_message_def)
qed simp

text \<open>One header that points behind the end of the file spoils the rest: the stream is not good any
  more, and it stays so for the rest of the call, so that header and all that follow, sound ones
  included, are answered by a placeholder and an error.\<close>

lemma behind_the_end_spoils:
  assumes "can_use_file st" and "st_file st \<noteq> None" and "int (length (contents st)) \<le> mh_offset h"
  shows "\<exists>st'. get_messages rd (h # hs) [] st =
    Some (map (\<lambda>h. (mh_id h, 1)) (h # hs), map make_fake_message (h # hs), st')"
proof -
  obtain st1 where o: "storage_open (mode_zero\<lparr>sm_read := True, sm_append := True\<rparr>) st = (True, st1)"
    "open_reading st1" "contents st1 = contents st"
    using open_read_append [OF assms(1,2)] by blast
  obtain f where f: "st_stream st1 = Some f" "readable f" using o(2) by (auto simp: open_reading_def)
  let ?f = "f\<lparr>fs_pos := nat (mh_offset h), fs_good := False\<rparr>"
  have "\<exists>st2. read_data_block (mh_offset h) st1 (reset empty_stream) = Some (False, st2, reset empty_stream) \<and>
      st_stream st2 = Some ?f"
    using f assms(3) o(3) by (auto simp: read_data_block_def fs_seek_def at_eof_def readable_def Let_def)
  then obtain st2 where r: "read_message rd h empty_stream st1 = Some (Some (mh_id h, 1), make_fake_message h, reset empty_stream, st2)"
    "st_stream st2 = Some ?f"
    by (auto simp: read_message_def)
  from get_messages_loop_not_good [OF r(2), of rd hs "reset empty_stream"] r(1) o(1) f(2) show ?thesis
    by (auto simp: get_messages_def)
qed

subsection \<open>The properties on a message\<close>

definition sample_reader :: reader where
  "sample_reader = \<lparr>rd_junk = sample_junk, rd_parse = \<lambda>_ _ m. (0, m), rd_buttons = \<lambda>_. []\<rparr>"

lemma sample_fits: "message_fits sample_junk sample_message"
  using good_sample
  by (simp add: message_fits_def message_bytes_def sample_message_def init_default_def pv_default_def quote_default_def
     task_default_def message_fields_def quote_serialize_def task_serialize_fields task_fields_def mention_serialize_def
     reactions_serialize_def sticker_serialize_def serialize_opt_def)

lemma stored_sample_message [simp]: "stored_message sample_junk sample_reader sample_message = sample_message"
  by (simp add: sample_reader_def stored_sample)

theorem update_then_get_messages_witness:
  "\<exists>ms' st1 st2. put_all (update_batch sample_junk) [[sample_message], [], [sample_message]] (mk_storage None) = Some (ms', st1) \<and>
    get_messages sample_reader (map header_of_message ms') [] st1 = Some ([], [sample_message, sample_message], st2)"
proof -
  have "sum_list (map (\<lambda>ms. length (blocks_of sample_junk ms)) [[sample_message], [], [sample_message]]) \<le> st_room (mk_storage None)"
    using sample_fits by (simp add: message_fits_def blocks_of_def mk_storage_def)
  moreover have "can_use_file (mk_storage None)" by (simp add: can_use_file_def mk_storage_def)
  ultimately show ?thesis
    using update_then_get_messages [of "mk_storage None" sample_junk "[[sample_message], [], [sample_message]]" "[]" sample_reader]
      sample_fits
    by auto
qed

definition sample_file :: storage where
  "sample_file = mk_storage (Some (blocks_of sample_junk [sample_message]))"

definition sample_pointer :: message_header where
  "sample_pointer = header_of_message (sample_message\<lparr>hm_data_offset := 0, hm_data_size := 0\<rparr>)"

lemma sample_file_ok: "can_use_file sample_file" "st_file sample_file \<noteq> None"
  "all_stored sample_junk (contents sample_file) (sample_pointer, sample_message, [])"
  using sample_fits
  by (simp_all add: sample_file_def mk_storage_def can_use_file_def all_stored_def points_to_def contents_def blocks_of_def
      sample_pointer_def header_of_message_def mk_header_def is_modified_def is_updated_def sample_message_def
      init_default_def)

lemma shown_sample: "shown_message sample_junk sample_reader (sample_pointer, sample_message, []) = sample_message"
  by (simp only: sample_pointer_def shown_unmodified stored_sample_message)

theorem every_header_is_answered_witness:
  "\<exists>es ms st'. get_messages sample_reader [sample_pointer] [] sample_file = Some (es, ms, st') \<and>
    contents st' = contents sample_file \<and> st_stream st' = None"
proof -
  obtain es ms st' where g: "get_messages sample_reader [sample_pointer] [] sample_file = Some (es, ms, st')"
    using get_messages_stored [OF sample_file_ok(1,2), of sample_junk "[(sample_pointer, sample_message, [])]" sample_reader]
      sample_file_ok(3) by auto
  have "st_stream sample_file = None" by (simp add: sample_file_def mk_storage_def)
  from every_header_is_answered [OF this g] g show ?thesis by blast
qed

end
