(* ===== verification/Archive_Index.thy ===== *)
theory Archive_Index
  imports Message_Header Ordered_Map Storage
begin

text \<open>
  \<^verbatim>\<open>core/archive/archive_index.h\<close> and \<^verbatim>\<open>.cpp\<close>, the state and the operations in memory: the headers of a
  contact's messages by message id, the count of recent outgoing messages, the count of merges since
  the index was last written. The file operations are in \<open>Index_File\<close>, the search for holes in
  \<open>Index_Holes\<close>.

  The clock (\<^verbatim>\<open>std::time\<close>) and the random numbers of \<open>make_holes\<close> are arguments. A call of the core
  (\<^verbatim>\<open>g_core->update_outgoing_msg_count\<close>, the network log) is appended to \<open>ai_calls\<close>.
\<close>

datatype core_call = Outgoing_Msg_Count cstring int | Network_Log

record archive_index =
  ai_last_error :: error
  ai_headers :: "message_header omap"
  ai_storage :: storage
  ai_outgoing_count :: int
  ai_loaded :: bool
  ai_aimid :: cstring
  ai_merged_count :: int
  ai_calls :: "core_call list"

definition mk_index :: "storage \<Rightarrow> cstring \<Rightarrow> archive_index" where
  "mk_index st aimid = \<lparr>ai_last_error = err_ok, ai_headers = [], ai_storage = st, ai_outgoing_count = 0,
     ai_loaded = False, ai_aimid = aimid, ai_merged_count = 0, ai_calls = []\<rparr>"

text \<open>\<^verbatim>\<open>hours(24 * 21)\<close> in seconds; the message time is converted to a signed count of seconds.\<close>

definition outgoing_count_time_span :: int where
  "outgoing_count_time_span = 24 * 21 * 3600"

definition is_outgoing_header :: "message_header \<Rightarrow> int \<Rightarrow> bool" where
  "is_outgoing_header h now \<longleftrightarrow> is_outgoing h \<and> now - sint (mh_time h) \<le> outgoing_count_time_span"

definition get_outgoing_count :: "archive_index \<Rightarrow> int" where
  "get_outgoing_count x = (if \<not> ai_loaded x then -1 else ai_outgoing_count x)"

definition notify_core_outgoing_msg_count :: "archive_index \<Rightarrow> archive_index" where
  "notify_core_outgoing_msg_count x =
     x\<lparr>ai_calls := ai_calls x @ [Outgoing_Msg_Count (ai_aimid x) (get_outgoing_count x)]\<rparr>"

subsection \<open>Inserting headers\<close>

text \<open>
  The relinking of the header behind the one that is deleted or restored: \<open>existing\<close> is the header
  in the map, \<open>next\<close> the node behind it.
\<close>

definition relink :: "message_header \<Rightarrow> message_header \<Rightarrow> message_header omap \<Rightarrow> message_header omap" where
  "relink header existing m =
     (if is_deleted header then
        (case om_next (mh_id header) m of
           None \<Rightarrow> m
         | Some (i, nxt) \<Rightarrow>
             if mh_prev nxt = mh_id existing
             then om_modify i (set_prev_msgid (mh_prev existing)) m else m)
      else if is_deleted existing then
        (case om_next (mh_id header) m of
           None \<Rightarrow> m
         | Some (i, nxt) \<Rightarrow>
             if mh_prev nxt = mh_prev existing
             then om_modify i (set_prev_msgid (mh_id existing)) m else m)
      else m)"

text \<open>
  \<open>insert_header\<close> returns its reference argument too: the merged header is handed back when it is
  neither deleted nor modified.
\<close>

definition insert_header :: "message_header \<Rightarrow> int \<Rightarrow> archive_index \<Rightarrow> message_header \<times> archive_index" where
  "insert_header header now x =
     (let msg_id = mh_id header
      in case om_find msg_id (ai_headers x) of
        None \<Rightarrow>
          (header,
           x\<lparr>ai_outgoing_count := ai_outgoing_count x + (if is_outgoing_header header now then 1 else 0),
             ai_headers := om_emplace msg_id header (ai_headers x)\<rparr>)
      | Some existing \<Rightarrow>
          let m = relink header existing (ai_headers x);
              merged = merge_with existing header;
              m = om_modify msg_id (\<lambda>h. merge_with h header) m;
              header = (if \<not> is_deleted merged \<and> \<not> is_modified merged then merged else header)
          in (header,
              x\<lparr>ai_headers := m,
                ai_merged_count := ai_merged_count x + (if \<not> (is_patch header \<and> is_modified header) then 1 else 0)\<rparr>))"

fun insert_headers :: "message_header list \<Rightarrow> int \<Rightarrow> archive_index \<Rightarrow> message_header list \<times> archive_index" where
  "insert_headers [] now x = ([], x)"
| "insert_headers (h # hs) now x =
     (case insert_header h now x of (h', x1) \<Rightarrow>
      case insert_headers hs now x1 of (hs', x2) \<Rightarrow> (h' # hs', x2))"

definition insert_block :: "message_header list \<Rightarrow> int \<Rightarrow> archive_index \<Rightarrow> message_header list \<times> archive_index" where
  "insert_block hs now x =
     (let prev_outgoing_count = get_outgoing_count x
      in case insert_headers hs now x of (hs', x') \<Rightarrow>
           (hs', if get_outgoing_count x' \<noteq> prev_outgoing_count
                 then notify_core_outgoing_msg_count x' else x'))"

subsection \<open>Look-up\<close>

definition get_header :: "int \<Rightarrow> archive_index \<Rightarrow> message_header option" where
  "get_header i x = om_find i (ai_headers x)"

definition has_header :: "int \<Rightarrow> archive_index \<Rightarrow> bool" where
  "has_header i x \<longleftrightarrow> om_find i (ai_headers x) \<noteq> None"

definition get_last_msgid :: "archive_index \<Rightarrow> int" where
  "get_last_msgid x = (if ai_headers x = [] then -1 else fst (last (ai_headers x)))"

definition get_first_msgid :: "archive_index \<Rightarrow> int" where
  "get_first_msgid x = (if ai_headers x = [] then -1 else fst (hd (ai_headers x)))"

definition get_messages_for_update :: "archive_index \<Rightarrow> int list" where
  "get_messages_for_update x = map fst (filter (\<lambda>(_, h). is_updated_message h) (ai_headers x))"

definition filter_deleted :: "int list \<Rightarrow> archive_index \<Rightarrow> int list" where
  "filter_deleted ids x = filter (\<lambda>i. \<not> (case om_find i (ai_headers x) of
       Some h \<Rightarrow> is_patch h \<or> is_deleted h \<or> is_modified h
     | None \<Rightarrow> True)) ids"

text \<open>
  \<open>serialize_from\<close>: the headers before and after a message. \<open>early_loop\<close> walks back over the nodes
  (given in reverse) and puts each in front of the list, \<open>later_loop\<close> walks forward and appends.
\<close>

fun early_loop :: "int \<Rightarrow> nat \<Rightarrow> message_header omap \<Rightarrow> message_header list \<Rightarrow> message_header list" where
  "early_loop count nd [] acc = acc"
| "early_loop count nd ((_, h) # rest) acc =
     (if is_patch h then early_loop count nd rest acc
      else if int nd \<ge> count then acc
      else early_loop count (if \<not> is_deleted h then Suc nd else nd) rest (h # acc))"

fun later_loop :: "int \<Rightarrow> nat \<Rightarrow> message_header omap \<Rightarrow> message_header list \<Rightarrow> message_header list" where
  "later_loop count nd [] acc = acc"
| "later_loop count nd ((_, h) # rest) acc =
     (if is_patch h \<or> is_deleted h then later_loop count nd rest acc
      else let nd' = Suc nd; acc' = acc @ [h]
           in if int nd' \<ge> count then acc' else later_loop count nd' rest acc')"

definition serialize_from ::
  "int \<Rightarrow> int \<Rightarrow> int \<Rightarrow> bool \<Rightarrow> archive_index \<Rightarrow> message_header list \<Rightarrow> bool \<times> message_header list" where
  "serialize_from from count_early count_later include_from x lst =
     (let m = ai_headers x; headers_end = length m;
          iter_from = (if from \<noteq> -1 then om_lower_bound from m else headers_end)
      in if m = [] then (True, lst)
         else if from \<noteq> -1 \<and> iter_from = headers_end then (False, lst)
         else
           let lst = (if count_early > 0 then
                 let iter_header = (if include_from \<and> count_later \<le> 0 \<and> iter_from \<noteq> headers_end
                                    then Suc iter_from else iter_from)
                 in early_loop count_early 0 (rev (take iter_header m)) lst else lst);
               lst = (if count_later > 0 then later_loop count_later 0 (drop iter_from m) lst else lst)
           in (True, lst))"

subsection \<open>Changes in memory\<close>

definition drop_header :: "int \<Rightarrow> archive_index \<Rightarrow> archive_index" where
  "drop_header i x = x\<lparr>ai_headers := om_erase i (ai_headers x)\<rparr>"

text \<open>\<open>drop_outdated_headers\<close> with its loop over the nodes from the hundredth before the end on.\<close>

definition drop_headers_count :: nat where
  "drop_headers_count = 100"

definition reactions_header_version :: u8 where
  "reactions_header_version = 4"

fun erase_until_last :: "int \<Rightarrow> int \<Rightarrow> message_header omap \<Rightarrow> int \<times> message_header omap" where
  "erase_until_last now cnt [] = (cnt, [])"
| "erase_until_last now cnt [n] = (cnt, [n])"
| "erase_until_last now cnt ((i, h) # n # m) =
     erase_until_last now (if is_outgoing_header h now then cnt - 1 else cnt) (n # m)"

definition drop_outdated_headers :: "int \<Rightarrow> archive_index \<Rightarrow> archive_index" where
  "drop_outdated_headers now x =
     (let m = ai_headers x
      in if m = [] then x
         else
           let it = length m - min drop_headers_count (length m)
           in if mh_version (snd (m ! it)) < reactions_header_version
              then case erase_until_last now (ai_outgoing_count x) (drop it m) of
                     (cnt, rest) \<Rightarrow> x\<lparr>ai_outgoing_count := cnt, ai_headers := take it m @ rest\<rparr>
              else x)"

definition max_index_size :: nat where "max_index_size = 25000"
definition index_size_need_optimize :: nat where "index_size_need_optimize = 30000"

text \<open>
  The quotient \<^verbatim>\<open>merged_count_ / (double)size >= 0.1\<close>. Both operands are below \<^term>\<open>(2::int) ^ 31\<close>; the
  rounded quotient reaches the double nearest 0.1 exactly when ten times the count reaches the size,
  because a smaller quotient differs from 0.1 by at least one part in \<^term>\<open>(2::int) ^ 35\<close>.
\<close>

definition need_optimize :: "archive_index \<Rightarrow> bool" where
  "need_optimize x \<longleftrightarrow>
     length (ai_headers x) > index_size_need_optimize \<or>
     (ai_loaded x \<and> ai_headers x \<noteq> [] \<and> 10 * ai_merged_count x \<ge> int (length (ai_headers x)))"

definition make_holes :: "bool list \<Rightarrow> archive_index \<Rightarrow> archive_index" where
  "make_holes keep x = x\<lparr>ai_headers := map snd (filter fst (zip keep (ai_headers x)))\<rparr>"

definition set_id :: "int \<Rightarrow> message_header \<Rightarrow> message_header" where
  "set_id i = map_fields (hf_id_update (\<lambda>_. i))"

definition invalidate :: "int \<Rightarrow> archive_index \<Rightarrow> archive_index" where
  "invalidate now x =
     (if ai_headers x = [] then x
      else let hdr_last = snd (last (ai_headers x));
               hdr_last = set_prev_msgid (mh_prev hdr_last) hdr_last;
               hdr_last = set_id i64_max hdr_last
           in snd (insert_block [hdr_last] now x))"

definition invalidate_message_data :: "int \<Rightarrow> bool \<Rightarrow> archive_index \<Rightarrow> archive_index" where
  "invalidate_message_data msgid mark x = x\<lparr>ai_headers := om_modify msgid (\<lambda>h.
     let h = invalidate_data_offset h
     in if mark \<and> \<not> is_patch h then set_updated True h else h) (ai_headers x)\<rparr>"

text \<open>The two loops of the range form; the counter is decremented after the comparison.\<close>

fun invalidate_loop :: "int \<Rightarrow> message_header omap \<Rightarrow> message_header omap" where
  "invalidate_loop remaining [] = []"
| "invalidate_loop remaining ((i, h) # m) =
     (if is_patch h then (i, h) # invalidate_loop remaining m
      else if remaining \<le> 0 then (i, h) # m
      else (i, invalidate_data_offset h) # invalidate_loop (remaining - 1) m)"

definition invalidate_message_data_range :: "int \<Rightarrow> int \<Rightarrow> int \<Rightarrow> archive_index \<Rightarrow> archive_index" where
  "invalidate_message_data_range from before_count after_count x =
     (let m = ai_headers x; iter_from = om_lower_bound from m
      in if iter_from = length m then x
         else
           let m = (if before_count > 0 then
                 let n = (if after_count \<le> 0 then Suc iter_from else iter_from)
                 in rev (invalidate_loop before_count (rev (take n m))) @ drop n m else m);
               m = (if after_count > 0
                    then take iter_from m @ invalidate_loop after_count (drop iter_from m) else m)
           in x\<lparr>ai_headers := m\<rparr>)"

definition index_free :: "archive_index \<Rightarrow> archive_index" where
  "index_free x = x\<lparr>ai_headers := [], ai_loaded := False, ai_merged_count := 0\<rparr>"

subsection \<open>The invariant of the map\<close>

text \<open>The keys are sorted and a node's key is its header's id.\<close>

definition headers_ok :: "message_header omap \<Rightarrow> bool" where
  "headers_ok m \<longleftrightarrow> om_ok m \<and> (\<forall>(i, h)\<in>set m. mh_id h = i)"

definition keeps_id :: "(message_header \<Rightarrow> message_header) \<Rightarrow> bool" where
  "keeps_id f \<longleftrightarrow> (\<forall>h. mh_id (f h) = mh_id h)"

named_theorems index_intros \<open>preservation of the invariant of the index\<close>

lemma headers_ok_Nil [simp, index_intros]: "headers_ok []"
  by (simp add: headers_ok_def om_ok_def)

lemma headers_ok_emplace [index_intros]: "headers_ok m \<Longrightarrow> headers_ok (om_emplace (mh_id h) h m)"
  by (auto simp: headers_ok_def om_ok_emplace set_om_emplace split: if_splits)

lemma headers_ok_modify [index_intros]: "headers_ok m \<Longrightarrow> keeps_id f \<Longrightarrow> headers_ok (om_modify k f m)"
  by (auto simp: headers_ok_def keeps_id_def std_map.ok_modify) (auto simp: om_modify_def)

lemma headers_ok_filter [index_intros]: "headers_ok m \<Longrightarrow> headers_ok (filter P m)"
  by (auto simp: headers_ok_def om_ok_filter)

lemma headers_ok_append:
  "headers_ok (xs @ ys) \<longleftrightarrow> headers_ok xs \<and> headers_ok ys \<and> (\<forall>x\<in>set xs. \<forall>y\<in>set ys. fst x < fst y)"
  unfolding headers_ok_def om_ok_append set_append ball_Un by blast

lemma headers_ok_take [index_intros]: "headers_ok m \<Longrightarrow> headers_ok (take n m)"
  using headers_ok_append [of "take n m" "drop n m"] by simp

lemma headers_ok_drop [index_intros]: "headers_ok m \<Longrightarrow> headers_ok (drop n m)"
  using headers_ok_append [of "take n m" "drop n m"] by simp

lemma keeps_id_simps [simp, index_intros]:
  "keeps_id (set_prev_msgid p)" "keeps_id (\<lambda>h. merge_with h r)" "keeps_id invalidate_data_offset"
  "keeps_id (set_updated b)"
  by (simp_all add: keeps_id_def set_prev_msgid_def invalidate_data_offset_def set_updated_def merge_simps)

lemma headers_ok_relink [index_intros]: "headers_ok m \<Longrightarrow> headers_ok (relink h e m)"
  by (auto simp: relink_def headers_ok_modify split: option.split)

lemma headers_ok_insert_header [index_intros]:
  "headers_ok (ai_headers x) \<Longrightarrow> headers_ok (ai_headers (snd (insert_header h now x)))"
  by (auto simp: insert_header_def Let_def headers_ok_emplace headers_ok_modify headers_ok_relink split: option.split)

lemma headers_ok_insert_headers [index_intros]:
  "headers_ok (ai_headers x) \<Longrightarrow> headers_ok (ai_headers (snd (insert_headers hs now x)))"
proof (induction hs arbitrary: x)
  case (Cons h hs)
  from Cons.IH [OF headers_ok_insert_header [OF Cons.prems]] show ?case
    by (simp add: case_prod_beta)
qed simp

lemma headers_insert_block [simp]: "ai_headers (snd (insert_block hs now x)) = ai_headers (snd (insert_headers hs now x))"
  by (simp add: insert_block_def notify_core_outgoing_msg_count_def case_prod_beta Let_def)

lemma fst_insert_block [simp]: "fst (insert_block hs now x) = fst (insert_headers hs now x)"
  by (simp add: insert_block_def case_prod_beta Let_def)

lemma headers_ok_insert_block [index_intros]:
  "headers_ok (ai_headers x) \<Longrightarrow> headers_ok (ai_headers (snd (insert_block hs now x)))"
  by (simp add: headers_ok_insert_headers)

lemma invalidate_loop_keys: "map fst (invalidate_loop r m) = map fst m"
  by (induction r m rule: invalidate_loop.induct) auto

lemma invalidate_loop_ids: "(i, h) \<in> set (invalidate_loop r m) \<Longrightarrow> \<exists>h'. (i, h') \<in> set m \<and> mh_id h = mh_id h'"
  by (induction r m rule: invalidate_loop.induct)
    (auto simp: invalidate_data_offset_def split: if_splits)

lemma headers_ok_same_keys:
  "headers_ok m \<Longrightarrow> map fst m' = map fst m \<Longrightarrow>
    (\<And>i h. (i, h) \<in> set m' \<Longrightarrow> \<exists>h'. (i, h') \<in> set m \<and> mh_id h = mh_id h') \<Longrightarrow> headers_ok m'"
  by (fastforce simp: headers_ok_def om_ok_def)

lemma headers_ok_rev_invalidate:
  assumes "headers_ok m"
  shows "headers_ok (rev (invalidate_loop r (rev (take n m))) @ drop n m)"
proof (rule headers_ok_same_keys [OF assms])
  show "map fst (rev (invalidate_loop r (rev (take n m))) @ drop n m) = map fst m"
    by (simp add: rev_map [symmetric] invalidate_loop_keys) (simp flip: map_append)
  fix i h
  assume "(i, h) \<in> set (rev (invalidate_loop r (rev (take n m))) @ drop n m)"
  then show "\<exists>h'. (i, h') \<in> set m \<and> mh_id h = mh_id h'"
    by (auto dest!: invalidate_loop_ids in_set_takeD dest: in_set_dropD)
qed

lemma headers_ok_invalidate_after:
  assumes "headers_ok m"
  shows "headers_ok (take n m @ invalidate_loop r (drop n m))"
proof (rule headers_ok_same_keys [OF assms])
  show "map fst (take n m @ invalidate_loop r (drop n m)) = map fst m"
    by (simp add: invalidate_loop_keys) (simp flip: map_append)
  fix i h
  assume "(i, h) \<in> set (take n m @ invalidate_loop r (drop n m))"
  then show "\<exists>h'. (i, h') \<in> set m \<and> mh_id h = mh_id h'"
    by (auto dest!: invalidate_loop_ids dest: in_set_takeD in_set_dropD)
qed

lemma erase_until_last_suffix: "m \<noteq> [] \<Longrightarrow> snd (erase_until_last now c m) = [last m]"
  by (induction now c m rule: erase_until_last.induct) auto

lemma headers_ok_drop_outdated [index_intros]:
  assumes "headers_ok (ai_headers x)"
  shows "headers_ok (ai_headers (drop_outdated_headers now x))"
proof (cases "ai_headers x = []")
  case True
  then show ?thesis by (simp add: drop_outdated_headers_def)
next
  case False
  let ?m = "ai_headers x" and ?it = "length (ai_headers x) - min drop_headers_count (length (ai_headers x))"
  have lt: "?it < length ?m" using False by (simp add: drop_headers_count_def)
  then have "snd (erase_until_last now c (drop ?it ?m)) = [last ?m]" for c
    by (simp add: erase_until_last_suffix)
  moreover have "headers_ok (take ?it ?m @ [last ?m])"
  proof -
    have "?m = take ?it ?m @ butlast (drop ?it ?m) @ [last ?m]"
      using lt by (metis append_butlast_last_id append_take_drop_id drop_eq_Nil last_drop not_le)
    with assms show ?thesis by (metis headers_ok_append Un_iff set_append)
  qed
  ultimately show ?thesis using assms False
    by (simp add: drop_outdated_headers_def Let_def case_prod_beta)
qed

end
