(* ===== verification/Index_Holes.thy ===== *)
theory Index_Holes
  imports Archive_Index
begin

text \<open>
  \<^verbatim>\<open>archive_index\<close>: the search for holes, the gaps between the messages the client has. A header
  names its predecessor on the server; a hole is a visible header (neither a patch nor deleted)
  whose predecessor is not the visible header before it. A reverse iterator is a list of nodes,
  newest first.
\<close>

record archive_hole =
  ah_from :: int
  ah_to :: int
  ah_depth :: int

definition hole_default :: archive_hole where
  "hole_default = \<lparr>ah_from = -1, ah_to = -1, ah_depth = 0\<rparr>"

definition hole_has_from :: "archive_hole \<Rightarrow> bool" where
  "hole_has_from h \<longleftrightarrow> ah_from h > 0"

definition hole_has_to :: "archive_hole \<Rightarrow> bool" where
  "hole_has_to h \<longleftrightarrow> ah_to h > 0"

datatype archive_hole_error = hole_ok | last_reached | depth_reached | index_not_found | no_hole

definition skip_patches_and_deleted_forward :: "message_header omap \<Rightarrow> message_header omap" where
  "skip_patches_and_deleted_forward = dropWhile (\<lambda>(_, h). \<not> (\<not> is_patch h \<and> \<not> is_deleted h))"

lemma skip_shorter: "length (skip_patches_and_deleted_forward xs) \<le> length xs"
  by (simp add: skip_patches_and_deleted_forward_def length_dropWhile_le)

subsection \<open>The operations\<close>

text \<open>The loop of \<open>has_hole_in_range\<close>: \<open>found\<close>, \<open>after\<close> and \<open>before\<close> are the code's variables.\<close>

function hole_in_range_loop ::
  "int \<Rightarrow> int \<Rightarrow> int \<Rightarrow> bool \<Rightarrow> int \<Rightarrow> int \<Rightarrow> message_header omap \<Rightarrow> bool" where
  "hole_in_range_loop msgid count_before count_after found after before [] = False"
| "hole_in_range_loop msgid count_before count_after found after before ((i, h) # rest) =
     (if mh_id h = msgid \<and> after < count_after then True
      else
        let found = (found \<or> mh_id h = msgid);
            before = (if found then before + 1 else before);
            after = (if found then after else if after \<noteq> count_after then after + 1 else after);
            nxt = skip_patches_and_deleted_forward rest
        in if found \<and> before \<ge> count_before then False
           else case nxt of
             [] \<Rightarrow> mh_prev h \<noteq> -1 \<and> (\<not> found \<or> before < count_before)
           | (j, prv) # _ \<Rightarrow>
               if mh_prev h \<noteq> mh_id prv
               then if found
                    then if before < count_before then True
                         else hole_in_range_loop msgid count_before count_after found after before nxt
                    else hole_in_range_loop msgid count_before count_after found 0 before nxt
               else hole_in_range_loop msgid count_before count_after found after before nxt)"
  by pat_completeness auto
termination
proof (relation "measure (\<lambda>(_, _, _, _, _, _, xs). length xs)", goal_cases)
  case 1
  show ?case by simp
qed (simp; metis skip_shorter le_imp_less_Suc)+

definition has_hole_in_range :: "int \<Rightarrow> int \<Rightarrow> int \<Rightarrow> archive_index \<Rightarrow> bool" where
  "has_hole_in_range msgid count_before count_after x =
     (let iter_cursor = skip_patches_and_deleted_forward (rev (ai_headers x))
      in if iter_cursor = [] then True
         else hole_in_range_loop msgid count_before count_after False count_after 0 iter_cursor)"

text \<open>The search loop of \<open>get_next_hole\<close>; the hole is an in-out parameter.\<close>

function next_hole_loop ::
  "int \<Rightarrow> int \<Rightarrow> archive_hole \<Rightarrow> message_header omap \<Rightarrow> archive_hole_error \<times> archive_hole" where
  "next_hole_loop depth cur hole [] = (no_hole, hole)"
| "next_hole_loop depth cur hole ((i, h) # rest) =
     (let cur = cur + 1;
          nxt = skip_patches_and_deleted_forward rest
      in case nxt of
        [] \<Rightarrow> (if mh_prev h \<noteq> -1 then (hole_ok, hole\<lparr>ah_from := mh_id h\<rparr>) else (last_reached, hole))
      | (j, prv) # _ \<Rightarrow>
          if mh_prev h \<noteq> mh_id prv
          then (hole_ok, hole\<lparr>ah_from := mh_id h, ah_to := mh_id prv, ah_depth := cur\<rparr>)
          else if depth \<noteq> -1 \<and> cur \<ge> depth then (depth_reached, hole)
          else next_hole_loop depth cur hole nxt)"
  by pat_completeness auto
termination
  by (relation "measure (\<lambda>(_, _, _, xs). length xs)") (simp, simp, metis skip_shorter le_imp_less_Suc length_Cons)

definition get_next_hole :: "int \<Rightarrow> archive_hole \<Rightarrow> int \<Rightarrow> archive_index \<Rightarrow> archive_hole_error \<times> archive_hole" where
  "get_next_hole from hole depth x =
     (let m = ai_headers x
      in if m = [] then (hole_ok, hole)
         else if from \<noteq> -1 \<and> fst (last m) < from
           then (hole_ok, hole\<lparr>ah_from := -1, ah_to := fst (last m)\<rparr>)
         else if from \<noteq> -1 \<and> om_find from m = None then (index_not_found, hole)
         else
           let iter_cursor = (if from \<noteq> -1 then rev (take (Suc (om_lower_bound from m)) m) else rev m);
               iter_cursor = skip_patches_and_deleted_forward iter_cursor
           in if iter_cursor = [] then (hole_ok, hole)
              else next_hole_loop depth 0 hole iter_cursor)"

definition validate_hole_request :: "archive_hole \<Rightarrow> int \<Rightarrow> archive_index \<Rightarrow> int" where
  "validate_hole_request hole count x =
     (let ret_from = ah_from hole; m = ai_headers x
      in if ah_from hole \<le> 0 \<or> ah_to hole \<le> 0 \<or> \<bar>count\<bar> \<le> 1 then ret_from
         else if om_find (ah_from hole) m = None then ret_from
         else case rev (take (Suc (om_lower_bound (ah_from hole) m)) m) of
           [] \<Rightarrow> ret_from
         | (i, cur) # rest \<Rightarrow>
             if is_patch cur then ret_from
             else case skip_patches_and_deleted_forward rest of
               [] \<Rightarrow> ret_from
             | (j, _) # _ \<Rightarrow> if j \<noteq> mh_prev cur then j else ret_from)"

subsection \<open>What the search computes\<close>

text \<open>The visible headers, and where their chain breaks first; all lists are newest first.\<close>

definition visible :: "message_header \<Rightarrow> bool" where
  "visible h \<longleftrightarrow> \<not> is_patch h \<and> \<not> is_deleted h"

definition vis :: "message_header omap \<Rightarrow> message_header list" where
  "vis xs = filter visible (map snd xs)"

text \<open>The link from the \<open>k\<close>th header to the next older one is broken.\<close>

definition broken :: "message_header list \<Rightarrow> nat \<Rightarrow> bool" where
  "broken vs k \<longleftrightarrow> mh_prev (vs ! k) \<noteq> (if Suc k < length vs then mh_id (vs ! Suc k) else -1)"

fun gap_index :: "message_header list \<Rightarrow> nat" where
  "gap_index [] = 0"
| "gap_index [h] = (if mh_prev h \<noteq> -1 then 0 else 1)"
| "gap_index (h # g # hs) = (if mh_prev h \<noteq> mh_id g then 0 else Suc (gap_index (g # hs)))"

lemma gap_index_le: "gap_index vs \<le> length vs"
  by (induction vs rule: gap_index.induct) auto

lemma gap_index_first: "k < gap_index vs \<Longrightarrow> \<not> broken vs k"
proof (induction vs arbitrary: k rule: gap_index.induct)
  case (3 h g hs)
  then show ?case
    by (cases k) (auto simp: broken_def split: if_splits)
qed (auto simp: broken_def split: if_splits)

lemma gap_index_broken: "gap_index vs < length vs \<Longrightarrow> broken vs (gap_index vs)"
proof (induction vs rule: gap_index.induct)
  case (3 h g hs)
  then show ?case by (auto simp: broken_def split: if_splits)
qed (auto simp: broken_def split: if_splits)

lemma skip_Nil: "skip_patches_and_deleted_forward xs = [] \<longleftrightarrow> vis xs = []"
  by (induction xs) (auto simp: skip_patches_and_deleted_forward_def vis_def visible_def)

lemma skip_Cons:
  "skip_patches_and_deleted_forward xs = (i, h) # r \<Longrightarrow> vis xs = h # vis r \<and> visible h"
  by (induction xs) (auto simp: skip_patches_and_deleted_forward_def vis_def visible_def split: if_splits)

lemma vis_simps [simp]: "vis [] = []" "vis ((i, h) # xs) = (if visible h then h # vis xs else vis xs)"
  by (simp_all add: vis_def)

text \<open>The value of \<open>get_next_hole\<close>'s loop on the visible headers.\<close>

definition hole_report :: "int \<Rightarrow> int \<Rightarrow> archive_hole \<Rightarrow> message_header list \<Rightarrow> archive_hole_error \<times> archive_hole" where
  "hole_report depth cur hole vs =
     (let n = length vs; k = gap_index vs; passed = min k (n - 1)
      in if depth \<noteq> -1 \<and> 1 \<le> passed \<and> cur + int passed \<ge> depth then (depth_reached, hole)
         else if k = n then (last_reached, hole)
         else if Suc k < n
           then (hole_ok, hole\<lparr>ah_from := mh_id (vs ! k), ah_to := mh_id (vs ! Suc k), ah_depth := cur + int k + 1\<rparr>)
         else (hole_ok, hole\<lparr>ah_from := mh_id (vs ! k)\<rparr>))"

lemma hole_report_step:
  assumes "mh_prev h = mh_id g"
  shows "hole_report depth cur hole (h # g # hs) =
    (if depth \<noteq> -1 \<and> cur + 1 \<ge> depth then (depth_reached, hole)
     else hole_report depth (cur + 1) hole (g # hs))"
  using gap_index_le [of "g # hs"] assms
  by (auto simp: hole_report_def Let_def min_def)

lemma next_hole_loop_report:
  "visible h \<Longrightarrow> next_hole_loop depth cur hole ((i, h) # xs) = hole_report depth cur hole (h # vis xs)"
proof (induction depth cur hole "(i, h) # xs" arbitrary: i h xs rule: next_hole_loop.induct)
  case (2 depth cur hole i h rest)
  show ?case
  proof (cases "skip_patches_and_deleted_forward rest")
    case Nil
    then have "vis rest = []" by (simp add: skip_Nil)
    with Nil show ?thesis by (simp add: hole_report_def Let_def)
  next
    case (Cons n r)
    obtain j g where n: "n = (j, g)" by (cases n)
    with Cons have v: "vis rest = g # vis r" "visible g" using skip_Cons by blast+
    show ?thesis
    proof (cases "mh_prev h = mh_id g")
      case True
      have "next_hole_loop depth (cur + 1) hole ((j, g) # r) = hole_report depth (cur + 1) hole (g # vis r)"
        if "\<not> (depth \<noteq> -1 \<and> depth \<le> cur + 1)"
        using 2(1) [OF refl _ refl refl, of j g r] Cons n v True that by simp
      with True v n Cons show ?thesis
        by (subst next_hole_loop.simps)
          (auto simp: hole_report_step Let_def not_le simp del: next_hole_loop.simps)
    next
      case False
      with Cons n v show ?thesis by (simp add: hole_report_def Let_def)
    qed
  qed
qed

text \<open>\<open>get_next_hole\<close> from the newest message.\<close>

lemma get_next_hole_report:
  "get_next_hole (-1) hole depth x =
    (let vs = vis (rev (ai_headers x)) in if vs = [] then (hole_ok, hole) else hole_report depth 0 hole vs)"
proof (cases "skip_patches_and_deleted_forward (rev (ai_headers x))")
  case Nil
  then show ?thesis using skip_Nil [of "rev (ai_headers x)"] by (simp add: get_next_hole_def Let_def)
next
  case (Cons n r)
  obtain j g where n: "n = (j, g)" by (cases n)
  with Cons skip_Cons [of "rev (ai_headers x)" j g r]
  have v: "vis (rev (ai_headers x)) = g # vis r" "visible g" by auto
  then have "ai_headers x \<noteq> []" by (auto simp: vis_def)
  with Cons n v show ?thesis by (simp add: get_next_hole_def Let_def next_hole_loop_report del: next_hole_loop.simps)
qed

subsection \<open>Holes in a range\<close>

text \<open>The loop of \<open>has_hole_in_range\<close> on the visible headers.\<close>

fun range_loop :: "int \<Rightarrow> int \<Rightarrow> int \<Rightarrow> bool \<Rightarrow> int \<Rightarrow> int \<Rightarrow> message_header list \<Rightarrow> bool" where
  "range_loop msgid cb ca found after before [] = False"
| "range_loop msgid cb ca found after before (h # vs) =
     (if mh_id h = msgid \<and> after < ca then True
      else
        let found = (found \<or> mh_id h = msgid);
            before = (if found then before + 1 else before);
            after = (if found then after else if after \<noteq> ca then after + 1 else after)
        in if found \<and> before \<ge> cb then False
           else if broken (h # vs) 0
             then if vs = [] then True
                  else if found then True else range_loop msgid cb ca found 0 before vs
           else if vs = [] then False else range_loop msgid cb ca found after before vs)"

lemma hole_in_range_loop_vis:
  "visible h \<Longrightarrow> hole_in_range_loop msgid cb ca found after before ((i, h) # xs) =
     range_loop msgid cb ca found after before (h # vis xs)"
proof (induction msgid cb ca found after before "(i, h) # xs" arbitrary: i h xs rule: hole_in_range_loop.induct)
  case (2 msgid cb ca found after before i h rest)
  show ?case
  proof (cases "skip_patches_and_deleted_forward rest")
    case Nil
    then have "vis rest = []" by (simp add: skip_Nil)
    with Nil show ?thesis by (auto simp: Let_def broken_def)
  next
    case (Cons n r)
    obtain j g where n: "n = (j, g)" by (cases n)
    with Cons have v: "vis rest = g # vis r" "visible g" using skip_Cons by blast+
    show ?thesis
      using 2 v n Cons
      by (subst hole_in_range_loop.simps, subst range_loop.simps)
        (auto simp: broken_def Let_def simp del: range_loop.simps hole_in_range_loop.simps)
  qed
qed

definition position :: "int \<Rightarrow> message_header list \<Rightarrow> nat" where
  "position msgid vs = length (takeWhile (\<lambda>h. mh_id h \<noteq> msgid) vs)"

lemma position_simps [simp]:
  "position m [] = 0" "position m (h # vs) = (if mh_id h = m then 0 else Suc (position m vs))"
  by (simp_all add: position_def)

lemma position_le: "position m vs \<le> length vs"
  by (simp add: position_def length_takeWhile_le)

lemma broken_Suc [simp]: "broken (h # vs) (Suc k) = broken vs k"
  by (simp add: broken_def)

lemma range_loop_found:
  "msgid \<notin> mh_id ` set vs \<Longrightarrow>
    range_loop msgid cb ca True after b vs \<longleftrightarrow> (\<exists>i<length vs. broken vs i \<and> b + int i + 1 < cb)"
proof (induction vs arbitrary: b)
  case (Cons h vs)
  have split: "(\<exists>i<length (h # vs). broken (h # vs) i \<and> b + int i + 1 < cb) \<longleftrightarrow>
      broken (h # vs) 0 \<and> b + 1 < cb \<or> (\<exists>i<length vs. broken vs i \<and> (b + 1) + int i + 1 < cb)"
    by (auto simp: less_Suc_eq_0_disj algebra_simps)
  show ?case
    using Cons.IH [of "b + 1"] Cons.prems
    by (subst range_loop.simps, subst split) (auto simp: Let_def not_le simp del: range_loop.simps)
qed simp

text \<open>
  The answer of \<open>has_hole_in_range\<close> on the visible headers, newest first: a message at place \<open>p\<close> has a
  broken link at most \<open>count_after\<close> places before it or fewer than \<open>count_before\<close> behind it; when the
  message is not there, the oldest header has a predecessor that is missing.
\<close>

definition range_report :: "int \<Rightarrow> int \<Rightarrow> int \<Rightarrow> message_header list \<Rightarrow> bool" where
  "range_report msgid count_before count_after vs =
     (let p = position msgid vs
      in if p < length vs
         then (\<exists>g<p. broken vs g \<and> int p - int g \<le> count_after) \<or>
              (\<exists>i<length vs. p \<le> i \<and> broken vs i \<and> int i - int p + 1 < count_before)
         else mh_prev (last vs) \<noteq> -1)"

lemma range_loop_report:
  assumes "vs \<noteq> []" and "distinct (map mh_id vs)" and "0 \<le> a \<or> a = ca"
  shows "range_loop msgid cb ca False a 0 vs \<longleftrightarrow>
    (position msgid vs < length vs \<and> a + int (position msgid vs) < ca) \<or> range_report msgid cb ca vs"
  using assms
proof (induction vs arbitrary: a)
  case (Cons h vs)
  show ?case
  proof (cases "mh_id h = msgid")
    case True
    then have "msgid \<notin> mh_id ` set vs" using Cons.prems by auto
    note found = range_loop_found [OF this, of cb ca a 1]
    have split: "(\<exists>i<length (h # vs). 0 \<le> i \<and> broken (h # vs) i \<and> int i - int 0 + 1 < cb) \<longleftrightarrow>
      broken (h # vs) 0 \<and> 1 < cb \<or> (\<exists>i<length vs. broken vs i \<and> 1 + int i + 1 < cb)"
      by (auto simp: less_Suc_eq_0_disj algebra_simps)
    have "range_report msgid cb ca (h # vs) \<longleftrightarrow>
      broken (h # vs) 0 \<and> 1 < cb \<or> (\<exists>i<length vs. broken vs i \<and> 1 + int i + 1 < cb)"
      using True split by (simp add: range_report_def)
    with True found show ?thesis
      by (subst range_loop.simps) (auto simp: Let_def not_le simp del: range_loop.simps)
  next
    case False
    let ?p = "position msgid vs"
    show ?thesis
    proof (cases "vs = []")
      case True
      with False show ?thesis by (simp add: range_report_def broken_def Let_def)
    next
      case ne: False
      define a' where "a' = (if broken (h # vs) 0 then 0 else if a \<noteq> ca then a + 1 else a)"
      have a': "0 \<le> a' \<or> a' = ca" using Cons.prems(3) by (auto simp: a'_def)
      have step: "range_loop msgid cb ca False a 0 (h # vs) = range_loop msgid cb ca False a' 0 vs"
        using False ne by (subst range_loop.simps) (simp add: Let_def a'_def del: range_loop.simps)
      have g: "(\<exists>g<Suc ?p. broken (h # vs) g \<and> int (Suc ?p) - int g \<le> ca) \<longleftrightarrow>
        broken (h # vs) 0 \<and> int (Suc ?p) \<le> ca \<or> (\<exists>g<?p. broken vs g \<and> int ?p - int g \<le> ca)"
        by (auto simp: less_Suc_eq_0_disj)
      have i: "(\<exists>i<length (h # vs). Suc ?p \<le> i \<and> broken (h # vs) i \<and> int i - int (Suc ?p) + 1 < cb) \<longleftrightarrow>
        (\<exists>i<length vs. ?p \<le> i \<and> broken vs i \<and> int i - int ?p + 1 < cb)"
        by (auto simp: less_Suc_eq_0_disj)
      have rep: "range_report msgid cb ca (h # vs) \<longleftrightarrow>
        (?p < length vs \<and> broken (h # vs) 0 \<and> int (Suc ?p) \<le> ca) \<or> range_report msgid cb ca vs"
        using False ne g i by (auto simp: range_report_def Let_def)
      have fin: "(?p < length vs \<and> a' + int ?p < ca) \<or> range_report msgid cb ca vs \<longleftrightarrow>
         (?p < length vs \<and> a + int (Suc ?p) < ca) \<or> range_report msgid cb ca (h # vs)"
        unfolding rep using Cons.prems(3) by (auto simp: a'_def)
      show ?thesis
        using Cons.IH [OF ne _ a'] Cons.prems(2) step fin False by (simp del: range_loop.simps)
    qed
  qed
qed simp

end
