(* ===== verification/Index_File.thy ===== *)
theory Index_File
  imports Archive_Index Tlv_Codec Block_Loop
begin

text \<open>
  \<^verbatim>\<open>archive_index\<close>: the index file. A block of the file holds up to \<^verbatim>\<open>history_block_size\<close> headers
  (more when a header brings its modifications along), each in a tlv field. Changes are appended;
  \<open>save_all\<close> rewrites the file from the map. A null dereference of the code is \<open>None\<close>.
\<close>

definition history_block_size :: nat where
  "history_block_size = 1000"

definition tlv_header :: u32 where
  "tlv_header = 1"

text \<open>\<open>header_data\<close> is one buffer, reset and filled for every header; the field copies it.\<close>

fun push_headers :: "message_header list \<Rightarrow> binary_stream \<Rightarrow> tlvpack \<Rightarrow> tlvpack" where
  "push_headers [] header_data p = p"
| "push_headers (h # hs) header_data p =
     (let header_data = header_serialize h (reset header_data)
      in push_headers hs header_data (push_child (mk_tlv_stream tlv_header header_data) p))"

definition serialize_block :: "message_header list \<Rightarrow> binary_stream \<Rightarrow> binary_stream" where
  "serialize_block hs d = pack_serialize (push_headers hs empty_stream empty_pack) d"

subsection \<open>Reading never gives bytes back\<close>

lemma read_bytes_le: "read_bytes n s = Some (b, s') \<Longrightarrow> available s' \<le> available s"
  by (auto simp: read_bytes_def available_def split: if_splits)

lemma typed_read_le:
  "read_u8 s = Some (a1, s') \<Longrightarrow> available s' \<le> available s"
  "read_u32 s = Some (a2, s') \<Longrightarrow> available s' + 4 \<le> available s \<and> 4 \<le> available s"
  "read_u64 s = Some (a3, s') \<Longrightarrow> available s' \<le> available s"
  "read_i64 s = Some (a4, s') \<Longrightarrow> available s' \<le> available s"
  "read_bool s = Some (a5, s') \<Longrightarrow> available s' \<le> available s"
  by (auto simp: read_u8_def read_u32_def read_u64_def read_i64_def read_bool_def bind_eq_Some_conv
      read_bytes_def available_def split: if_splits)

lemma read_flag_if_le: "read_flag_if c f fs = Some fs' \<Longrightarrow> available (snd fs') \<le> available (snd fs)"
  by (auto simp: read_flag_if_def bind_eq_Some_conv dest: typed_read_le split: if_splits)

lemma bind_SomeE: "m \<bind> k = Some r \<Longrightarrow> (\<And>a. m = Some a \<Longrightarrow> k a = Some r \<Longrightarrow> P) \<Longrightarrow> P"
  by (cases m) auto

lemma read_flags_le: "read_flags f s = Some (b, f', s') \<Longrightarrow> available s' \<le> available s"
  unfolding read_flags_def Let_def
  by (elim bind_SomeE) (drule read_flag_if_le, drule read_flag_if_le, drule read_flag_if_le,
      drule read_flag_if_le, drule read_flag_if_le, simp)

lemma read_header_patch_le:
  assumes "read_header_patch f s = Some (b, f', s')"
  shows "available s' \<le> available s"
proof (cases "hf_version f > 0")
  case True
  with assms obtain len s1 where "read_u32 s = Some (len, s1)"
    "s' = s1 \<or> (\<exists>str. read_bytes (unat len) s1 = Some (str, s'))"
    by (auto simp: read_header_patch_def bind_eq_Some_conv split: if_splits)
  then show ?thesis by (auto dest!: typed_read_le(2) read_bytes_le)
next
  case False
  with assms show ?thesis by (simp add: read_header_patch_def)
qed

lemma read_header_tail_le: "read_header_tail f s = Some (b, f', s') \<Longrightarrow> available s' \<le> available s"
  unfolding read_header_tail_def
  by (elim bind_SomeE) (auto dest!: read_header_patch_le read_flags_le split: if_splits)

lemma fields_unserialize_le:
  assumes "fields_unserialize f s = Some (b, f', s')"
  shows "available s' \<le> available s"
proof (cases "lt_size (available s) 1")
  case True
  with assms show ?thesis by (simp add: fields_unserialize_def)
next
  case False
  with assms obtain v s1 where 1: "read_u8 s = Some (v, s1)"
    by (auto simp: fields_unserialize_def elim: bind_SomeE)
  show ?thesis
  proof (cases "v > header_version \<or> lt_size (available s1) (min_data_sizeof v - 1)")
    case True
    with assms False 1 show ?thesis
      by (auto simp: fields_unserialize_def Let_def dest: typed_read_le(1) split: if_splits)
  next
    case no: False
    with assms False 1 obtain fl s2 t s3 i s4 where
      2: "read_u32 s1 = Some (fl, s2)" "read_u64 s2 = Some (t, s3)" "read_i64 s3 = Some (i, s4)"
      by (auto simp: fields_unserialize_def Let_def elim!: bind_SomeE)
    have le: "available s4 \<le> available s"
      using typed_read_le(1) [OF 1] typed_read_le(2) [OF 2(1)] typed_read_le(3) [OF 2(2)]
        typed_read_le(4) [OF 2(3)] by linarith
    show ?thesis
    proof (cases "i \<le> 0")
      case True
      with assms False 1 no 2 le show ?thesis by (simp add: fields_unserialize_def Let_def)
    next
      case pos: False
      with assms False 1 no 2 obtain prev s5 off s6 sz s7 g where
        3: "read_i64 s4 = Some (prev, s5)" "read_i64 s5 = Some (off, s6)" "read_u32 s6 = Some (sz, s7)"
          "read_header_tail g s7 = Some (b, f', s')"
        by (auto simp: fields_unserialize_def Let_def elim!: bind_SomeE)
      show ?thesis
        using typed_read_le(4) [OF 3(1)] typed_read_le(4) [OF 3(2)] typed_read_le(2) [OF 3(3)]
          read_header_tail_le [OF 3(4)] le by linarith
    qed
  qed
qed

lemma header_unserialize_le: "header_unserialize h s = Some (b, h', s') \<Longrightarrow> available s' \<le> available s"
  by (auto simp: header_unserialize_def dest: fields_unserialize_le)

subsection \<open>Loading\<close>

text \<open>
  \<open>unserialize_block\<close>. The length of the field is compared with what was available before its own
  eight bytes were read, and is not used again.
\<close>

function unserialize_block :: "binary_stream \<Rightarrow> int \<Rightarrow> archive_index \<Rightarrow> (bool \<times> binary_stream \<times> archive_index) option" where
  "unserialize_block s now x =
     (let av = available s
      in if av = 0 then Some (True, s, x)
         else if lt_size av 8 then Some (False, s, x)
         else case read_u32 s of
           None \<Rightarrow> None
         | Some (ty, s1) \<Rightarrow>
         case read_u32 s1 of
           None \<Rightarrow> None
         | Some (tlv_length, s2) \<Rightarrow>
         if av < uint tlv_length then Some (False, s2, x)
         else case header_unserialize header_default s2 of
           None \<Rightarrow> None
         | Some (ok, h, s3) \<Rightarrow>
             if ok then unserialize_block s3 now (snd (insert_header h now x))
             else Some (False, s3, x))"
  by pat_completeness auto
termination
  by (relation "measure (\<lambda>(s, now, x). nat (available s))")
    (auto simp: lt_size_def dest!: typed_read_le(2) header_unserialize_le)

declare unserialize_block.simps [simp del]

function load_loop :: "int \<Rightarrow> archive_index \<Rightarrow> binary_stream \<Rightarrow> (bool \<times> archive_index) option" where
  "load_loop now x d =
     (case read_data_block (-1) (ai_storage x) d of
        None \<Rightarrow> None
      | Some (False, st, d) \<Rightarrow> Some (True, x\<lparr>ai_storage := st\<rparr>)
      | Some (True, st, d) \<Rightarrow>
          (case unserialize_block d now (x\<lparr>ai_storage := st\<rparr>) of
             None \<Rightarrow> None
           | Some (False, d, x) \<Rightarrow> Some (False, x)
           | Some (True, d, x') \<Rightarrow> load_loop now (x'\<lparr>ai_storage := st\<rparr>) (reset d)))"
  by pat_completeness auto
termination
  by (relation "measure (\<lambda>(now, x, d). left_to_read (ai_storage x))") (auto dest!: read_data_block_shorter)

declare load_loop.simps [simp del]

definition insert_all :: "message_header omap \<Rightarrow> int \<Rightarrow> archive_index \<Rightarrow> archive_index" where
  "insert_all m now x = snd (insert_headers (map snd m) now x)"

definition load_from_local :: "int \<Rightarrow> archive_index \<Rightarrow> (bool \<times> archive_index) option" where
  "load_from_local now x =
     (let x = x\<lparr>ai_last_error := err_ok\<rparr>
      in case storage_open (mode_zero\<lparr>sm_read := True\<rparr>) (ai_storage x) of
        (False, st) \<Rightarrow> Some (False, x\<lparr>ai_storage := st, ai_last_error := st_last_error st\<rparr>)
      | (True, st) \<Rightarrow>
          let tmp_headers = ai_headers x;
              x = x\<lparr>ai_storage := st, ai_headers := [], ai_outgoing_count := 0, ai_merged_count := 0\<rparr>
          in case load_loop now x empty_stream of
               None \<Rightarrow> None
             | Some (False, x) \<Rightarrow>
                 let x = insert_all tmp_headers now x
                 in Some (False, x\<lparr>ai_last_error := parse_headers, ai_storage := storage_close (ai_storage x)\<rparr>)
             | Some (True, x) \<Rightarrow>
                 let x = insert_all tmp_headers now x; err = st_last_error (ai_storage x)
                 in if err \<noteq> end_of_file
                    then Some (False, x\<lparr>ai_last_error := err, ai_storage := storage_close (ai_storage x)\<rparr>)
                    else
                      let x = drop_outdated_headers now (x\<lparr>ai_loaded := True\<rparr>);
                          x = notify_core_outgoing_msg_count x
                      in Some (True, x\<lparr>ai_storage := storage_close (ai_storage x)\<rparr>))"

subsection \<open>Saving\<close>

definition save_block :: "message_header list \<Rightarrow> archive_index \<Rightarrow> (result_type \<times> archive_index) option" where
  "save_block hs x =
     (case storage_open (mode_zero\<lparr>sm_write := True, sm_append := True\<rparr>) (ai_storage x) of
        (False, st) \<Rightarrow> Some ((False, 0), x\<lparr>ai_storage := st\<rparr>)
      | (True, st) \<Rightarrow>
          (case write_data_block (serialize_block hs empty_stream) 0 st of
             None \<Rightarrow> None
           | Some (res, offset, d, st) \<Rightarrow> Some (res, x\<lparr>ai_storage := storage_close st\<rparr>)))"

text \<open>The loop of \<open>save_all\<close>: the headers collected so far, the block buffer and the nodes left.\<close>

definition with_modifications :: "message_header \<Rightarrow> message_header list" where
  "with_modifications h = h # (if is_modified h then mh_modifications h else [])"

fun save_all_loop ::
  "message_header list \<Rightarrow> binary_stream \<Rightarrow> storage \<Rightarrow> message_header omap \<Rightarrow> (bool \<times> storage) option" where
  "save_all_loop headers d st [] = Some (True, st)"
| "save_all_loop headers d st ((i, h) # rest) =
     (let headers = headers @ with_modifications h
      in if length headers \<ge> history_block_size \<or> rest = []
         then case write_data_block (serialize_block headers d) 0 st of
                None \<Rightarrow> None
              | Some ((ok, code), offset, d, st) \<Rightarrow>
                  if ok then save_all_loop [] (reset d) st rest else Some (False, st)
         else save_all_loop headers d st rest)"

definition save_all :: "archive_index \<Rightarrow> (bool \<times> archive_index) option" where
  "save_all x =
     (case storage_open (mode_zero\<lparr>sm_write := True, sm_truncate := True\<rparr>) (ai_storage x) of
        (False, st) \<Rightarrow> Some (False, x\<lparr>ai_storage := st\<rparr>)
      | (True, st) \<Rightarrow>
          if ai_headers x = [] then Some (True, x\<lparr>ai_storage := storage_close st\<rparr>)
          else case save_all_loop [] empty_stream st (ai_headers x) of
                 None \<Rightarrow> None
               | Some (ok, st) \<Rightarrow> Some (ok, x\<lparr>ai_storage := storage_close st\<rparr>))"

text \<open>\<open>update\<close>, from the headers of the messages on.\<close>

definition update_headers ::
  "message_header list \<Rightarrow> int \<Rightarrow> archive_index \<Rightarrow> (result_type \<times> message_header list \<times> archive_index) option" where
  "update_headers hs now x =
     (case insert_block hs now x of
        (hs, x) \<Rightarrow> map_option (\<lambda>(res, x). (res, hs, x)) (save_block hs x))"

definition delete_up_to :: "int \<Rightarrow> archive_index \<Rightarrow> archive_index option" where
  "delete_up_to to x =
     (let m = ai_headers x; it = om_lower_bound to m
      in if it = length m then map_option snd (save_all (x\<lparr>ai_headers := []\<rparr>))
         else if mh_id (snd (m ! it)) = to then
           let rest = drop (Suc it) m;
               rest = (case rest of
                   [] \<Rightarrow> []
                 | (i, h) # r \<Rightarrow> (i, if mh_prev h = to then set_prev_msgid (-1) h else h) # r)
           in map_option snd (save_all (x\<lparr>ai_headers := rest\<rparr>))
         else if it \<noteq> 0 then map_option snd (save_all (x\<lparr>ai_headers := drop it m\<rparr>))
         else Some x)"

definition optimize :: "archive_index \<Rightarrow> archive_index option" where
  "optimize x =
     (if \<not> need_optimize x then Some x
      else
        let m = ai_headers x; to_remove = int (length m) - int max_index_size;
            m = (if to_remove > 0
                 then case drop (nat to_remove) m of
                        [] \<Rightarrow> []
                      | (i, h) # r \<Rightarrow> (i, set_prev_msgid (-1) h) # r
                 else m);
            x = x\<lparr>ai_headers := m, ai_calls := ai_calls x @ [Network_Log], ai_merged_count := 0\<rparr>
        in map_option snd (save_all x))"

subsection \<open>The operations as steps\<close>

text \<open>
  One call of the index by its owner, in any order. A crash has no successor, and neither has the
  state \<^verbatim>\<open>make_holes\<close> is called in for any other coin tosses than those taken.
\<close>

inductive index_step :: "archive_index \<Rightarrow> archive_index \<Rightarrow> bool" where
  step_update: "update_headers hs now x = Some (r, hs', x') \<Longrightarrow> index_step x x'"
| step_load: "load_from_local now x = Some (b, x') \<Longrightarrow> index_step x x'"
| step_save_all: "save_all x = Some (b, x') \<Longrightarrow> index_step x x'"
| step_save_block: "save_block hs x = Some (r, x') \<Longrightarrow> index_step x x'"
| step_delete_up_to: "delete_up_to to x = Some x' \<Longrightarrow> index_step x x'"
| step_optimize: "optimize x = Some x' \<Longrightarrow> index_step x x'"
| step_drop_header: "index_step x (drop_header i x)"
| step_make_holes: "index_step x (make_holes keep x)"
| step_invalidate_message: "index_step x (invalidate_message_data i mark x)"
| step_invalidate_range: "index_step x (invalidate_message_data_range from bc ac x)"
| step_invalidate: "index_step x (invalidate now x)"
| step_free: "index_step x (index_free x)"

inductive index_reachable :: "storage \<Rightarrow> cstring \<Rightarrow> archive_index \<Rightarrow> bool" for st aimid where
  reach_new: "index_reachable st aimid (mk_index st aimid)"
| reach_step: "index_reachable st aimid x \<Longrightarrow> index_step x x' \<Longrightarrow> index_reachable st aimid x'"

inductive_cases index_step_cases: "index_step x x'"

subsection \<open>The invariant\<close>

text \<open>Sorted keys that are the headers' ids, a count of merges, and a file that is open only during a call.\<close>

definition index_inv :: "archive_index \<Rightarrow> bool" where
  "index_inv x \<longleftrightarrow> headers_ok (ai_headers x) \<and> 0 \<le> ai_merged_count x \<and> st_stream (ai_storage x) = None"

definition memory_inv :: "archive_index \<Rightarrow> bool" where
  "memory_inv x \<longleftrightarrow> headers_ok (ai_headers x) \<and> 0 \<le> ai_merged_count x"

lemma index_inv_iff: "index_inv x \<longleftrightarrow> memory_inv x \<and> st_stream (ai_storage x) = None"
  by (auto simp: index_inv_def memory_inv_def)

lemma memory_inv_simps [simp]:
  "memory_inv (x\<lparr>ai_storage := st\<rparr>) = memory_inv x" "memory_inv (x\<lparr>ai_last_error := e\<rparr>) = memory_inv x"
  "memory_inv (x\<lparr>ai_loaded := l\<rparr>) = memory_inv x"
  "memory_inv (x\<lparr>ai_storage := st, ai_last_error := e\<rparr>) = memory_inv x"
  "memory_inv (x\<lparr>ai_last_error := e, ai_storage := st\<rparr>) = memory_inv x"
  "memory_inv (notify_core_outgoing_msg_count x) = memory_inv x"
  by (simp_all add: memory_inv_def notify_core_outgoing_msg_count_def)

lemma memory_inv_insert_header: "memory_inv x \<Longrightarrow> memory_inv (snd (insert_header h now x))"
  using headers_ok_insert_header [of x h now]
  by (auto simp: memory_inv_def) (auto simp: insert_header_def Let_def split: option.split)

lemma storage_insert_header [simp]: "ai_storage (snd (insert_header h now x)) = ai_storage x"
  by (auto simp: insert_header_def Let_def split: option.split)

lemma storage_insert_headers [simp]: "ai_storage (snd (insert_headers hs now x)) = ai_storage x"
  by (induction hs arbitrary: x) (simp_all add: case_prod_beta)

lemma memory_inv_insert_headers: "memory_inv x \<Longrightarrow> memory_inv (snd (insert_headers hs now x))"
  by (induction hs arbitrary: x) (simp_all add: case_prod_beta memory_inv_insert_header)

lemma memory_inv_insert_block: "memory_inv x \<Longrightarrow> memory_inv (snd (insert_block hs now x))"
  by (simp add: insert_block_def case_prod_beta Let_def memory_inv_insert_headers)

lemma storage_insert_block [simp]: "ai_storage (snd (insert_block hs now x)) = ai_storage x"
  by (simp add: insert_block_def case_prod_beta Let_def notify_core_outgoing_msg_count_def)

lemma unserialize_block_step:
  "unserialize_block s now x = Some (b, s', x') \<Longrightarrow> x' = x \<or>
    (\<exists>h s3. nat (available s3) < nat (available s) \<and>
       unserialize_block s3 now (snd (insert_header h now x)) = Some (b, s', x'))"
  by (subst (asm) unserialize_block.simps)
    (auto simp: Let_def lt_size_def split: if_splits option.splits
      dest!: typed_read_le(2) header_unserialize_le,
      rule exI, rule exI, rule conjI [rotated], assumption, linarith)

lemma memory_inv_unserialize_block:
  "unserialize_block s now x = Some (b, s', x') \<Longrightarrow> memory_inv x \<Longrightarrow> memory_inv x' \<and> ai_storage x' = ai_storage x"
proof (induction "nat (available s)" arbitrary: s x rule: less_induct)
  case less
  from unserialize_block_step [OF less.prems(1)] show ?case
  proof
    assume "\<exists>h s3. nat (available s3) < nat (available s) \<and>
       unserialize_block s3 now (snd (insert_header h now x)) = Some (b, s', x')"
    then obtain h s3 where "nat (available s3) < nat (available s)"
      "unserialize_block s3 now (snd (insert_header h now x)) = Some (b, s', x')" by blast
    from less.hyps [OF this memory_inv_insert_header [OF less.prems(2)]] show ?thesis by simp
  qed (use less.prems in simp)
qed

lemma load_loop_step:
  "load_loop now x d = Some (b, x') \<Longrightarrow> \<exists>st. x' = x\<lparr>ai_storage := st\<rparr> \<or>
    (\<exists>d1 ok s2 x1. unserialize_block d1 now (x\<lparr>ai_storage := st\<rparr>) = Some (ok, s2, x1) \<and>
      (x' = x1 \<or> left_to_read st < left_to_read (ai_storage x) \<and>
        load_loop now (x1\<lparr>ai_storage := st\<rparr>) (reset s2) = Some (b, x')))"
proof -
  assume l: "load_loop now x d = Some (b, x')"
  then obtain r st d1 where r: "read_data_block (-1) (ai_storage x) d = Some (r, st, d1)"
    by (subst (asm) load_loop.simps) (auto split: option.splits)
  show ?thesis
  proof (cases r)
    case False
    with l r have "x' = x\<lparr>ai_storage := st\<rparr>" by (simp add: load_loop.simps [of now x d])
    then show ?thesis by blast
  next
    case True
    then have le: "left_to_read st < left_to_read (ai_storage x)" using r by (auto dest!: read_data_block_shorter)
    from l r True obtain ok s2 x1 where u: "unserialize_block d1 now (x\<lparr>ai_storage := st\<rparr>) = Some (ok, s2, x1)"
      by (auto simp: load_loop.simps [of now x d] split: option.splits)
    with l r True le have "x' = x1 \<or> left_to_read st < left_to_read (ai_storage x) \<and>
        load_loop now (x1\<lparr>ai_storage := st\<rparr>) (reset s2) = Some (b, x')"
      by (cases ok) (simp_all add: load_loop.simps [of now x d])
    with u show ?thesis by blast
  qed
qed

lemma memory_inv_load_loop:
  "load_loop now x d = Some (b, x') \<Longrightarrow> memory_inv x \<Longrightarrow> memory_inv x'"
proof (induction "left_to_read (ai_storage x)" arbitrary: x d rule: less_induct)
  case less
  from load_loop_step [OF less.prems(1)] obtain st where
    st: "x' = x\<lparr>ai_storage := st\<rparr> \<or>
      (\<exists>d1 ok s2 x1. unserialize_block d1 now (x\<lparr>ai_storage := st\<rparr>) = Some (ok, s2, x1) \<and>
        (x' = x1 \<or> left_to_read st < left_to_read (ai_storage x) \<and>
          load_loop now (x1\<lparr>ai_storage := st\<rparr>) (reset s2) = Some (b, x')))" by blast
  then show ?case
  proof
    assume "\<exists>d1 ok s2 x1. unserialize_block d1 now (x\<lparr>ai_storage := st\<rparr>) = Some (ok, s2, x1) \<and>
        (x' = x1 \<or> left_to_read st < left_to_read (ai_storage x) \<and>
          load_loop now (x1\<lparr>ai_storage := st\<rparr>) (reset s2) = Some (b, x'))"
    then obtain d1 ok s2 x1 where u: "unserialize_block d1 now (x\<lparr>ai_storage := st\<rparr>) = Some (ok, s2, x1)"
      and c: "x' = x1 \<or> left_to_read st < left_to_read (ai_storage x) \<and>
          load_loop now (x1\<lparr>ai_storage := st\<rparr>) (reset s2) = Some (b, x')" by blast
    have m: "memory_inv x1" using memory_inv_unserialize_block [OF u] less.prems(2) by simp
    from c show ?thesis
    proof
      assume "left_to_read st < left_to_read (ai_storage x) \<and>
          load_loop now (x1\<lparr>ai_storage := st\<rparr>) (reset s2) = Some (b, x')"
      with less.hyps [of "x1\<lparr>ai_storage := st\<rparr>" "reset s2"] m show ?thesis by simp
    qed (use m in simp)
  qed (use less.prems in simp)
qed

lemma storage_close_closed [simp]: "st_stream (storage_close st) = None"
  by (simp add: storage_close_def)

lemma memory_inv_drop_outdated: "memory_inv x \<Longrightarrow> memory_inv (drop_outdated_headers now x)"
  using headers_ok_drop_outdated [of x now]
  by (auto simp: memory_inv_def) (auto simp: drop_outdated_headers_def Let_def split: prod.split)

lemma storage_drop_outdated [simp]: "ai_storage (drop_outdated_headers now x) = ai_storage x"
  by (auto simp: drop_outdated_headers_def Let_def split: prod.split)

lemma memory_inv_cleared: "memory_inv (x\<lparr>ai_storage := st, ai_headers := [], ai_outgoing_count := n, ai_merged_count := 0\<rparr>)"
  by (simp add: memory_inv_def)

lemma inv_load_from_local:
  assumes "load_from_local now x = Some (b, x')" and "index_inv x"
  shows "index_inv x'"
proof -
  let ?x = "x\<lparr>ai_last_error := err_ok\<rparr>"
  obtain ok st where o: "storage_open (mode_zero\<lparr>sm_read := True\<rparr>) (ai_storage x) = (ok, st)" by fastforce
  show ?thesis
  proof (cases ok)
    case False
    with o assms storage_open_closed [of _ "ai_storage x" st] show ?thesis
      by (auto simp: load_from_local_def index_inv_def)
  next
    case True
    let ?y = "?x\<lparr>ai_storage := st, ai_headers := [], ai_outgoing_count := 0, ai_merged_count := 0\<rparr>"
    from True o assms(1) obtain p y where l: "load_loop now ?y empty_stream = Some (p, y)"
      by (auto simp: load_from_local_def Let_def split: option.splits)
    have "memory_inv (insert_all (ai_headers x) now y)"
      unfolding insert_all_def
      by (intro memory_inv_insert_headers memory_inv_load_loop [OF l] memory_inv_cleared)
    with True o l assms(1) show ?thesis
      by (cases p) (auto simp: load_from_local_def Let_def index_inv_iff memory_inv_drop_outdated split: if_splits)
  qed
qed

lemma inv_save_block: "save_block hs x = Some (r, x') \<Longrightarrow> index_inv x \<Longrightarrow> index_inv x' \<and> ai_headers x' = ai_headers x"
  by (auto simp: save_block_def index_inv_def dest: storage_open_closed split: prod.splits bool.splits option.splits)

lemma inv_save_all: "save_all x = Some (b, x') \<Longrightarrow> index_inv x \<Longrightarrow> index_inv x' \<and> ai_headers x' = ai_headers x"
  by (auto simp: save_all_def index_inv_def dest: storage_open_closed
      split: prod.splits bool.splits option.splits if_splits)

lemma index_inv_headers: "index_inv x \<Longrightarrow> headers_ok m \<Longrightarrow> index_inv (x\<lparr>ai_headers := m\<rparr>)"
  by (simp add: index_inv_def)

lemma headers_ok_hd: "headers_ok ((i, h) # r) \<Longrightarrow> headers_ok ((i, set_prev_msgid p h) # r)"
  by (auto simp: headers_ok_def om_ok_def set_prev_msgid_def)

lemma inv_delete_up_to: "delete_up_to to x = Some x' \<Longrightarrow> index_inv x \<Longrightarrow> index_inv x'"
proof -
  assume d: "delete_up_to to x = Some x'" and i: "index_inv x"
  have ok: "headers_ok (drop n (ai_headers x))" for n
    using i by (intro headers_ok_drop) (simp add: index_inv_def)
  have hd: "headers_ok ((case drop n (ai_headers x) of [] \<Rightarrow> []
      | (i, h) # r \<Rightarrow> (i, if mh_prev h = to then set_prev_msgid (-1) h else h) # r))" for n
    using ok [of n] headers_ok_hd [of _ _ _ "-1"] by (auto split: list.split)
  from d i ok hd show ?thesis
    by (auto simp: delete_up_to_def Let_def index_inv_headers
        dest!: inv_save_all split: if_splits)
qed

lemma inv_optimize: "optimize x = Some x' \<Longrightarrow> index_inv x \<Longrightarrow> index_inv x'"
proof -
  assume d: "optimize x = Some x'" and i: "index_inv x"
  let ?drop = "\<lambda>n. (case drop n (ai_headers x) of [] \<Rightarrow> [] | (i, h) # r \<Rightarrow> (i, set_prev_msgid (-1) h) # r)"
  have hd: "headers_ok (?drop n)" for n
    using headers_ok_drop [of "ai_headers x" n] i headers_ok_hd [of _ _ _ "-1"]
    by (auto simp: index_inv_def split: list.split)
  have "index_inv (x\<lparr>ai_headers := m, ai_calls := c, ai_merged_count := 0\<rparr>)" if "headers_ok m" for m c
    using i that by (simp add: index_inv_def)
  moreover have "index_inv (x\<lparr>ai_calls := c, ai_merged_count := 0\<rparr>)" for c
    using i by (simp add: index_inv_def)
  ultimately show ?thesis using d i hd
    by (auto simp: optimize_def Let_def split: if_splits dest!: inv_save_all)
qed

lemma inv_update_headers: "update_headers hs now x = Some (r, hs', x') \<Longrightarrow> index_inv x \<Longrightarrow> index_inv x'"
proof -
  assume u: "update_headers hs now x = Some (r, hs', x')" and i: "index_inv x"
  have "index_inv (snd (insert_block hs now x))"
    using i memory_inv_insert_block [of x hs now] by (simp add: index_inv_iff)
  with u show ?thesis
    by (auto simp: update_headers_def split: prod.splits dest!: inv_save_block)
qed

lemma headers_ok_zip: "headers_ok m \<Longrightarrow> headers_ok (map snd (filter fst (zip keep m)))"
proof (induction m arbitrary: keep)
  case (Cons n m)
  then have h: "headers_ok m" "headers_ok [n]" "\<forall>y\<in>set m. fst n < fst y"
    using headers_ok_append [of "[n]" m] by auto
  show ?case
  proof (cases keep)
    case (Cons b ks)
    let ?r = "map snd (filter fst (zip ks m))"
    have "set ?r \<subseteq> set m" by (auto dest: set_zip_rightD)
    with h(3) have "\<forall>x\<in>set [n]. \<forall>y\<in>set ?r. fst x < fst y" by (metis empty_iff empty_set set_ConsD subsetD)
    with Cons.IH [OF h(1), of ks] h(2) have "headers_ok ([n] @ ?r)" unfolding headers_ok_append by blast
    with Cons.IH [OF h(1), of ks] Cons show ?thesis by (cases b) simp_all
  qed simp
qed simp

lemma inv_invalidate: "index_inv x \<Longrightarrow> index_inv (invalidate now x)"
  using memory_inv_insert_block [of x] by (simp add: invalidate_def Let_def index_inv_iff)

lemma keeps_id_invalidate_message:
  "keeps_id (\<lambda>h. let h = invalidate_data_offset h in if mark \<and> \<not> is_patch h then set_updated True h else h)"
  by (simp add: keeps_id_def Let_def invalidate_data_offset_def set_updated_def)

lemma inv_invalidate_range: "index_inv x \<Longrightarrow> index_inv (invalidate_message_data_range from bc ac x)"
proof -
  assume i: "index_inv x"
  let ?m = "ai_headers x"
  have ok: "headers_ok ?m" using i by (simp add: index_inv_def)
  show ?thesis
    unfolding invalidate_message_data_range_def Let_def
    by (auto simp del: take_append drop_append
        intro!: index_inv_headers headers_ok_invalidate_after headers_ok_rev_invalidate ok i)
qed

lemma inv_step: "index_step x x' \<Longrightarrow> index_inv x \<Longrightarrow> index_inv x'"
proof (induction rule: index_step.induct)
  case (step_make_holes x keep)
  then show ?case
    by (simp add: make_holes_def index_inv_headers headers_ok_zip) (simp add: index_inv_def headers_ok_zip)
next
  case (step_invalidate_message x i mark)
  then show ?case
    unfolding invalidate_message_data_def
    by (intro index_inv_headers headers_ok_modify keeps_id_invalidate_message) (simp_all add: index_inv_def)
next
  case (step_drop_header x i)
  then show ?case
    unfolding drop_header_def om_erase_def
    by (intro index_inv_headers headers_ok_filter) (simp_all add: index_inv_def)
next
  case (step_free x)
  then show ?case by (simp add: index_free_def index_inv_def)
qed (blast intro: inv_update_headers inv_load_from_local inv_delete_up_to inv_optimize inv_invalidate
      inv_invalidate_range dest: inv_save_all inv_save_block)+

lemma reachable_inv: "index_reachable st aimid x \<Longrightarrow> st_stream st = None \<Longrightarrow> index_inv x"
proof (induction rule: index_reachable.induct)
  case reach_new
  then show ?case by (simp add: mk_index_def index_inv_def)
qed (blast intro: inv_step)

end
