(* ===== verification/Index_Roundtrip.thy ===== *)
theory Index_Roundtrip
  imports Index_File
begin

text \<open>
  The index file keeps what the index holds: what \<open>save_all\<close> writes, \<open>load_from_local\<close> turns back into
  the same map, each header in its stored form and with its modifications merged again.
\<close>

definition stored_header :: "message_header \<Rightarrow> message_header" where
  "stored_header h = Message_Header (stored_fields (mh_fields header_default) (mh_fields h)) []"

definition header_field :: "message_header \<Rightarrow> field" where
  "header_field h = (tlv_header, enc_header (mh_fields h))"

definition block_bytes :: "message_header list \<Rightarrow> bytes" where
  "block_bytes hs = enc_fields (map header_field hs)"

definition storable :: "message_header \<Rightarrow> bool" where
  "storable h \<longleftrightarrow> good_header (mh_fields h)"

subsection \<open>One block\<close>

lemma output_header_serialize [simp]: "bs_output (header_serialize h s) = bs_output s"
  by (simp add: header_serialize_def Let_def write_if_def)

lemma output_reset [simp]: "bs_output (reset s) = 0"
  by (simp add: reset_def)

lemma default_modifications [simp]: "mh_modifications header_default = []"
  by (simp add: header_default_def)

lemma header_serialize_reset:
  assumes "storable h"
  shows "wf_stream (header_serialize h (reset s))" and "pending (header_serialize h (reset s)) = enc_header (mh_fields h)"
    and "bs_output (header_serialize h (reset s)) = 0"
  using header_serialize_spec [of "reset s" h] assms
  by (simp_all add: storable_def good_header_def)

lemma push_headers_fields:
  "list_all storable hs \<Longrightarrow> fresh_pack p \<Longrightarrow>
    fresh_pack (push_headers hs d p) \<and> pack_fields (push_headers hs d p) = pack_fields p @ map header_field hs"
  by (induction hs arbitrary: d p) (simp_all add: header_serialize_reset header_field_def Let_def)

lemma serialize_block_spec:
  "list_all storable hs \<Longrightarrow> wf_stream d \<Longrightarrow>
    wf_stream (serialize_block hs d) \<and> pending (serialize_block hs d) = pending d @ block_bytes hs"
  using push_headers_fields [of hs empty_pack empty_stream]
  by (simp add: serialize_block_def wf_pack_serialize pending_pack_serialize block_bytes_def)

lemma length_block_bytes: "length (block_bytes hs) = (\<Sum>h\<leftarrow>hs. 8 + length (enc_header (mh_fields h)))"
  by (induction hs) (simp_all add: block_bytes_def header_field_def)

lemma header_unserialize_enc:
  assumes "wf_stream s" and "pending s = enc_header (mh_fields h) @ r" and "storable h"
  shows "\<exists>s'. header_unserialize header_default s = Some (True, stored_header h, s') \<and> wf_stream s' \<and> pending s' = r"
  using fields_unserialize_enc [OF assms(1,2), of "mh_fields header_default"] assms(3)
  by (auto simp: header_unserialize_def storable_def stored_header_def)

lemma unserialize_block_enc:
  assumes "wf_stream s" and "pending s = block_bytes hs" and "list_all storable hs"
    and "length (block_bytes hs) < 2 ^ 32"
  shows "\<exists>s'. unserialize_block s now x = Some (True, s', snd (insert_headers (map stored_header hs) now x)) \<and>
    wf_stream s'"
  using assms
proof (induction hs arbitrary: s x)
  case Nil
  then show ?case
    by (subst unserialize_block.simps) (simp add: block_bytes_def available_pending)
next
  case (Cons h hs)
  let ?e = "enc_header (mh_fields h)" let ?s2 = "advance 4 (advance 4 s)"
  have p: "pending s = u32_image tlv_header @ u32_image (word_of_nat (length ?e)) @ ?e @ block_bytes hs"
    using Cons.prems(2) by (simp add: block_bytes_def header_field_def)
  have l: "length ?e < 2 ^ 32" "length (block_bytes hs) < 2 ^ 32"
    using Cons.prems(4) by (simp_all add: length_block_bytes)
  then have un: "unat (word_of_nat (length ?e) :: u32) = length ?e" by (simp add: u32_value_length)
  have w1: "wf_stream (advance 4 s)" "pending (advance 4 s) = u32_image (word_of_nat (length ?e)) @ ?e @ block_bytes hs"
    using Cons.prems(1) p by simp_all
  have w2: "wf_stream ?s2" "pending ?s2 = ?e @ block_bytes hs"
    using w1 by (simp_all add: pending_advance [of _ "advance 4 s"] del: pending_advance)
  have r: "read_u32 s = Some (tlv_header, advance 4 s)"
    "read_u32 (advance 4 s) = Some (word_of_nat (length ?e), ?s2)"
    using Cons.prems(1) p w1 by (simp_all add: read_u32_prefix del: pending_advance)
  have av: "available s = int (8 + length ?e + length (block_bytes hs))"
    using Cons.prems(1) p by (simp add: available_pending)
  obtain s3 where s3: "header_unserialize header_default ?s2 = Some (True, stored_header h, s3)"
    "wf_stream s3" "pending s3 = block_bytes hs"
    using header_unserialize_enc [OF w2] Cons.prems(3) by auto
  have "\<not> lt_size (available s) 8" "available s \<noteq> 0"
    "\<not> available s < uint (word_of_nat (length ?e) :: u32)"
    using av un by (simp_all add: lt_size_def uint_nat del: of_nat_unat)
  with r s3 Cons.IH [OF s3(2,3), of "snd (insert_header (stored_header h) now x)"] Cons.prems(3) l show ?case
    by (subst unserialize_block.simps) (simp add: Let_def case_prod_beta)
qed

subsection \<open>The whole file\<close>

text \<open>How \<open>save_all\<close> cuts the headers into blocks.\<close>

fun chunks :: "message_header list \<Rightarrow> message_header omap \<Rightarrow> message_header list list" where
  "chunks acc [] = []"
| "chunks acc ((i, h) # rest) =
     (let acc = acc @ with_modifications h
      in if length acc \<ge> history_block_size \<or> rest = [] then acc # chunks [] rest else chunks acc rest)"

definition all_headers :: "message_header omap \<Rightarrow> message_header list" where
  "all_headers m = concat (map (\<lambda>(i, h). with_modifications h) m)"

lemma all_headers_simps [simp]:
  "all_headers [] = []" "all_headers ((i, h) # m) = with_modifications h @ all_headers m"
  by (simp_all add: all_headers_def)

lemma concat_chunks: "m \<noteq> [] \<Longrightarrow> concat (chunks acc m) = acc @ all_headers m"
proof (induction acc m rule: chunks.induct)
  case (2 acc i h rest)
  then show ?case by (cases "rest = []") (auto simp: Let_def)
qed simp

definition file_bytes :: "message_header list list \<Rightarrow> bytes" where
  "file_bytes bss = concat (map (\<lambda>hs. enc_block (block_bytes hs)) bss)"

lemma file_bytes_simps [simp]:
  "file_bytes [] = []" "file_bytes (hs # bss) = enc_block (block_bytes hs) @ file_bytes bss"
  by (simp_all add: file_bytes_def)

text \<open>The blocks a header list is cut into all fit the limit the reader imposes.\<close>

definition blocks_fit :: "message_header list list \<Rightarrow> bool" where
  "blocks_fit bss \<longleftrightarrow> list_all (\<lambda>hs. list_all storable hs \<and> good_block (block_bytes hs)) bss"

lemma save_all_loop_spec:
  "appending st \<Longrightarrow> wf_stream d \<Longrightarrow> pending d = [] \<Longrightarrow> blocks_fit (chunks acc m) \<Longrightarrow>
    length (file_bytes (chunks acc m)) \<le> st_room st \<Longrightarrow>
    \<exists>st'. save_all_loop acc d st m = Some (True, st') \<and>
      contents st' = contents st @ file_bytes (chunks acc m) \<and> same_env st st'"
proof (induction acc d st m rule: save_all_loop.induct)
  case (2 acc d st i h rest)
  let ?acc = "acc @ with_modifications h"
  show ?case
  proof (cases "length ?acc \<ge> history_block_size \<or> rest = []")
    case flush: True
    let ?b = "serialize_block ?acc d"
    have fit: "list_all storable ?acc" "good_block (block_bytes ?acc)" "blocks_fit (chunks [] rest)"
      and room: "length (file_bytes (chunks [] rest)) + 16 + length (block_bytes ?acc) \<le> st_room st"
      using 2(6,7) flush by (auto simp: blocks_fit_def Let_def)
    have b: "wf_stream ?b" "pending ?b = block_bytes ?acc"
      using serialize_block_spec [OF fit(1) "2.prems"(2)] "2.prems"(3) by simp_all
    have g: "pending ?b \<noteq> []" "length (pending ?b) < 2 ^ 32" "length (pending ?b) + 16 \<le> st_room st"
      using fit(2) room b(2) by (auto simp: good_block_def)
    obtain d' st1 where w: "write_data_block ?b 0 st = Some ((True, 0), int (length (contents st)), d', st1)"
      "contents st1 = contents st @ enc_block (block_bytes ?acc)" "appending st1"
      "st_room st1 = st_room st - (16 + length (block_bytes ?acc))"
      using write_data_block_append [OF "2.prems"(1) b(1) g, of 0] unfolding b(2) by blast
    have "length (file_bytes (chunks [] rest)) \<le> st_room st1" using room w(4) by simp
    with "2.IH"(1) [OF refl flush w(1) refl refl refl refl TrueI] w(3) fit(3) obtain st' where
      "save_all_loop [] (reset d') st1 rest = Some (True, st')"
      "contents st' = contents st1 @ file_bytes (chunks [] rest)" "same_env st1 st'" by auto
    with w flush write_data_block_env [OF w(1)] show ?thesis
      by (auto simp: Let_def intro: same_env_trans)
  next
    case False
    with "2.IH"(2) [OF refl False] "2.prems" show ?thesis by (simp add: Let_def)
  qed
qed simp

text \<open>Reading: the blocks come out in order, and after the last one the end of the file is reported.\<close>

lemma insert_headers_storage:
  "snd (insert_headers hs now (x\<lparr>ai_storage := st\<rparr>)) = (snd (insert_headers hs now x))\<lparr>ai_storage := st\<rparr>"
proof (induction hs arbitrary: x)
  case (Cons h hs)
  have "insert_header h now (x\<lparr>ai_storage := st\<rparr>) =
    (fst (insert_header h now x), (snd (insert_header h now x))\<lparr>ai_storage := st\<rparr>)"
    by (auto simp: insert_header_def Let_def split: option.split)
  with Cons show ?case by (simp add: case_prod_beta)
qed simp

lemma insert_headers_append:
  "snd (insert_headers (as @ bs) now x) = snd (insert_headers bs now (snd (insert_headers as now x)))"
  by (induction as arbitrary: x) (simp_all add: case_prod_beta)

lemma load_loop_spec:
  assumes "open_reading (ai_storage x)" and "unread (ai_storage x) = file_bytes bss" and "blocks_fit bss"
    and "wf_stream d" and "pending d = []"
  shows "\<exists>st. load_loop now x d =
      Some (True, (snd (insert_headers (map stored_header (concat bss)) now x))\<lparr>ai_storage := st\<rparr>) \<and>
    st_last_error st = end_of_file"
  using assms
proof (induction bss arbitrary: x d)
  case Nil
  then obtain st where "read_data_block (-1) (ai_storage x) d = Some (False, st, d)" "st_last_error st = end_of_file"
    using read_data_block_end [of "ai_storage x" d] by auto
  then show ?case by (subst load_loop.simps) auto
next
  case (Cons hs bss)
  have fit: "list_all storable hs" "good_block (block_bytes hs)" "blocks_fit bss"
    using Cons.prems(3) by (simp_all add: blocks_fit_def)
  obtain st d' where r: "read_data_block (-1) (ai_storage x) d = Some (True, st, d')" "open_reading st"
    "unread st = file_bytes bss" "wf_stream d'" "pending d' = block_bytes hs"
    using read_data_block_enc [OF Cons.prems(1) fit(2) _ Cons.prems(4), of "file_bytes bss"] Cons.prems(2,5) by auto
  let ?x = "x\<lparr>ai_storage := st\<rparr>"
  let ?y = "snd (insert_headers (map stored_header hs) now ?x)"
  obtain s' where u: "unserialize_block d' now ?x = Some (True, s', ?y)"
    using unserialize_block_enc [OF r(4,5) fit(1), of now ?x] fit(2) by (auto simp: good_block_def)
  have y: "?y\<lparr>ai_storage := st\<rparr> = ?y" by simp
  obtain st' where l: "load_loop now ?y (reset s') =
      Some (True, (snd (insert_headers (map stored_header (concat bss)) now ?y))\<lparr>ai_storage := st'\<rparr>)"
    "st_last_error st' = end_of_file"
    using Cons.IH [of ?y "reset s'"] r(2,3) fit(3) by auto
  have "load_loop now x d = load_loop now ?y (reset s')"
    by (subst load_loop.simps) (simp only: r(1) u y option.case prod.case bool.case)
  then show ?case
    using l by (auto simp: insert_headers_append insert_headers_storage)
qed

subsection \<open>Inserting in order\<close>

lemma stored_header_id [simp]: "mh_id (stored_header h) = mh_id h"
  by (simp add: stored_header_def stored_fields_def Let_def)

lemma insert_header_new:
  "\<forall>n\<in>set (ai_headers x). fst n < mh_id h \<Longrightarrow>
    ai_headers (snd (insert_header h now x)) = ai_headers x @ [(mh_id h, h)]"
proof -
  assume a: "\<forall>n\<in>set (ai_headers x). fst n < mh_id h"
  then have "om_find (mh_id h) (ai_headers x) = None" by (auto simp: om_find_None)
  with a show ?thesis by (simp add: insert_header_def om_emplace_last)
qed

lemma insert_header_last:
  assumes "ai_headers x = xs @ [(mh_id h, e)]" and "om_ok (ai_headers x)"
  shows "ai_headers (snd (insert_header h now x)) = xs @ [(mh_id h, merge_with e h)]"
proof -
  have ok: "om_ok (xs @ (mh_id h, e) # [])" using assms by simp
  have "om_find (mh_id h) (ai_headers x) = Some e" using om_find_split [OF ok] assms(1) by simp
  moreover have "relink h e (ai_headers x) = ai_headers x"
    using om_next_split [OF ok] assms(1) by (simp add: relink_def)
  ultimately show ?thesis
    using om_modify_split [OF ok] assms(1) by (simp add: insert_header_def Let_def)
qed

lemma insert_headers_last:
  "ai_headers x = xs @ [(i, e)] \<Longrightarrow> om_ok (ai_headers x) \<Longrightarrow> list_all (\<lambda>r. mh_id r = i) rs \<Longrightarrow>
    ai_headers (snd (insert_headers rs now x)) = xs @ [(i, merge_all e rs)]"
proof (induction rs arbitrary: x e)
  case (Cons r rs)
  have i: "mh_id r = i" using Cons.prems(3) by simp
  let ?x = "snd (insert_header r now x)"
  have h: "ai_headers ?x = xs @ [(i, merge_with e r)]"
    using insert_header_last [of x xs r e] Cons.prems(1,2) i by simp
  then have "om_ok (ai_headers ?x)" using Cons.prems(1,2) by (simp add: om_ok_def)
  with Cons.IH [OF h] Cons.prems(3) show ?case by (simp add: case_prod_beta)
qed simp

text \<open>What a header is after the file was written and read.\<close>

definition reloaded :: "message_header \<Rightarrow> message_header" where
  "reloaded h = merge_all (stored_header h) (map stored_header (if is_modified h then mh_modifications h else []))"

definition own_modifications :: "message_header \<Rightarrow> bool" where
  "own_modifications h \<longleftrightarrow> list_all (\<lambda>r. mh_id r = mh_id h) (mh_modifications h)"

lemma insert_with_modifications:
  assumes "\<forall>n\<in>set (ai_headers x). fst n < mh_id h" and "om_ok (ai_headers x)" and "own_modifications h"
  shows "ai_headers (snd (insert_headers (map stored_header (with_modifications h)) now x)) =
    ai_headers x @ [(mh_id h, reloaded h)]"
proof -
  let ?x = "snd (insert_header (stored_header h) now x)"
  have h: "ai_headers ?x = ai_headers x @ [(mh_id h, stored_header h)]"
    using insert_header_new [of x "stored_header h" now] assms(1) by simp
  have "om_ok (ai_headers ?x)" using h assms by (auto simp: om_ok_append) (simp add: om_ok_def)
  from insert_headers_last [OF h this, of "map stored_header (if is_modified h then mh_modifications h else [])" now]
    assms(3) show ?thesis
    by (simp add: with_modifications_def reloaded_def own_modifications_def list_all_iff case_prod_beta)
qed

lemma insert_all_headers:
  "headers_ok (ai_headers x @ m) \<Longrightarrow> \<forall>(i, h)\<in>set m. own_modifications h \<Longrightarrow>
    ai_headers (snd (insert_headers (map stored_header (all_headers m)) now x)) =
    ai_headers x @ map (\<lambda>(i, h). (i, reloaded h)) m"
proof (induction m arbitrary: x)
  case (Cons n m)
  obtain i h where n: "n = (i, h)" by (cases n)
  have i: "mh_id h = i" using Cons.prems(1) n by (auto simp: headers_ok_def)
  have lt: "\<forall>k\<in>set (ai_headers x). fst k < mh_id h" and ok: "om_ok (ai_headers x)"
    using Cons.prems(1) n i by (auto simp: headers_ok_append) (simp add: headers_ok_def)
  let ?x = "snd (insert_headers (map stored_header (with_modifications h)) now x)"
  have hx: "ai_headers ?x = ai_headers x @ [(i, reloaded h)]"
    using insert_with_modifications [OF lt ok] Cons.prems(2) n i by auto
  have "mh_id (reloaded h) = i"
  proof -
    have "mh_id (merge_all e rs) = mh_id e" for e rs by (induction rs arbitrary: e) (simp_all add: merge_simps)
    then show ?thesis by (simp add: reloaded_def i)
  qed
  then have "headers_ok (ai_headers ?x @ m)"
    using Cons.prems(1) n i unfolding hx by (auto simp: headers_ok_def om_ok_def)
  from Cons.IH [OF this] Cons.prems(2) hx n show ?case
    by (simp add: insert_headers_append)
qed simp

subsection \<open>Save, then load\<close>

lemma save_all_spec:
  assumes "can_use_file (ai_storage x)" and "ai_headers x \<noteq> []"
    and "blocks_fit (chunks [] (ai_headers x))"
    and "length (file_bytes (chunks [] (ai_headers x))) \<le> st_room (ai_storage x)"
  shows "\<exists>st. save_all x = Some (True, x\<lparr>ai_storage := st\<rparr>) \<and> can_use_file st \<and>
    st_file st = Some (file_bytes (chunks [] (ai_headers x)))"
proof -
  let ?m = "ai_headers x"
  obtain st0 where o: "storage_open (mode_zero\<lparr>sm_write := True, sm_truncate := True\<rparr>) (ai_storage x) = (True, st0)"
    "appending st0" "contents st0 = []" "st_room st0 = st_room (ai_storage x)" "can_use_file (storage_close st0)"
    using open_truncate [OF assms(1)] by blast
  obtain st1 where s: "save_all_loop [] empty_stream st0 ?m = Some (True, st1)"
    "contents st1 = file_bytes (chunks [] ?m)" "same_env st0 st1"
    using save_all_loop_spec [OF o(2), of empty_stream "[]" ?m] assms(3,4) o(3,4) by auto
  have "file_bytes (chunks [] ?m) \<noteq> []"
  proof -
    from assms(2) have "chunks [] ?m \<noteq> []"
      using concat_chunks [OF assms(2), of "[]"] by (cases ?m) (auto simp: with_modifications_def)
    then obtain hs bss where "chunks [] ?m = hs # bss" by (cases "chunks [] ?m") auto
    then show ?thesis by (simp flip: length_greater_0_conv)
  qed
  with s(2) have "st_file st1 = Some (file_bytes (chunks [] ?m))" by (auto simp: contents_def split: option.splits)
  with o s same_env_can_use [OF s(3) o(5)] assms(2) show ?thesis
    by (intro exI [of _ "storage_close st1"]) (simp add: save_all_def storage_close_def)
qed

lemma drop_outdated_recent:
  "\<forall>(i, h)\<in>set (ai_headers x). \<not> mh_version h < reactions_header_version \<Longrightarrow> drop_outdated_headers now x = x"
proof -
  assume a: "\<forall>(i, h)\<in>set (ai_headers x). \<not> mh_version h < reactions_header_version"
  show ?thesis
  proof (cases "ai_headers x = []")
    case False
    let ?n = "length (ai_headers x) - min drop_headers_count (length (ai_headers x))"
    have "?n < length (ai_headers x)" using False by (simp add: drop_headers_count_def)
    then have "ai_headers x ! ?n \<in> set (ai_headers x)" by (rule nth_mem)
    with a have "\<not> mh_version (snd (ai_headers x ! ?n)) < reactions_header_version"
      by (metis case_prodD prod.collapse)
    then show ?thesis by (simp add: drop_outdated_headers_def Let_def)
  qed (simp add: drop_outdated_headers_def)
qed

lemma save_then_load:
  assumes "index_inv x" and "can_use_file (ai_storage x)" and "ai_headers x \<noteq> []"
    and "blocks_fit (chunks [] (ai_headers x))"
    and "length (file_bytes (chunks [] (ai_headers x))) \<le> st_room (ai_storage x)"
    and "\<forall>(i, h)\<in>set (ai_headers x). own_modifications h"
    and recent: "\<forall>(i, h)\<in>set (ai_headers x). \<not> mh_version (reloaded h) < reactions_header_version"
  shows "\<exists>x1 y. save_all x = Some (True, x1) \<and>
    load_from_local now (mk_index (ai_storage x1) aimid) = Some (True, y) \<and>
    ai_headers y = map (\<lambda>(i, h). (i, reloaded h)) (ai_headers x)"
proof -
  let ?m = "ai_headers x" and ?bss = "chunks [] (ai_headers x)"
  obtain st where s: "save_all x = Some (True, x\<lparr>ai_storage := st\<rparr>)" "can_use_file st"
    "st_file st = Some (file_bytes ?bss)"
    using save_all_spec [OF assms(2-5)] by blast
  obtain st1 where o: "storage_open (mode_zero\<lparr>sm_read := True\<rparr>) st = (True, st1)" "open_reading st1"
    "unread st1 = file_bytes ?bss"
    using open_read [OF s(2)] s(3) by (auto simp: contents_def)
  define x0 where "x0 = (mk_index st aimid)\<lparr>ai_last_error := err_ok, ai_storage := st1, ai_headers := [],
    ai_outgoing_count := 0, ai_merged_count := 0\<rparr>"
  have x0r: "\<lparr>ai_last_error = err_ok, ai_headers = [], ai_storage = st1, ai_outgoing_count = 0,
      ai_loaded = False, ai_aimid = aimid, ai_merged_count = 0, ai_calls = []\<rparr> = x0"
    by (simp add: x0_def mk_index_def)
  have x0: "ai_storage x0 = st1" "ai_headers x0 = []" by (simp_all add: x0_def)
  let ?y = "snd (insert_headers (map stored_header (concat ?bss)) now x0)"
  obtain st2 where l: "load_loop now x0 empty_stream = Some (True, ?y\<lparr>ai_storage := st2\<rparr>)"
    "st_last_error st2 = end_of_file"
    using load_loop_spec [of x0 ?bss empty_stream now] o x0 assms(4) by auto
  have h: "ai_headers ?y = map (\<lambda>(i, h). (i, reloaded h)) ?m"
    using insert_all_headers [of x0 ?m now] assms(1,6) x0 concat_chunks [OF assms(3), of "[]"]
    by (simp add: index_inv_def)
  have "drop_outdated_headers now (?y\<lparr>ai_storage := st2, ai_loaded := True\<rparr>) = ?y\<lparr>ai_storage := st2, ai_loaded := True\<rparr>"
    using recent h by (intro drop_outdated_recent) auto
  with o l h s(1) show ?thesis
    by (auto simp: load_from_local_def mk_index_def Let_def insert_all_def notify_core_outgoing_msg_count_def x0r)
qed

text \<open>Nothing is lost when the headers are of the current version, unpatched and without local counters.\<close>

definition plain_header :: "message_header \<Rightarrow> bool" where
  "plain_header h \<longleftrightarrow> mh_version h = header_version \<and> mh_modifications h = [] \<and> pv_offline (mh_patch h) = 0"

lemma reloaded_plain: "plain_header h \<Longrightarrow> reloaded h = h"
proof -
  assume p: "plain_header h"
  have "hf_patch (mh_fields h) = pv_of_string (pv_string (hf_patch (mh_fields h)))"
    using p by (simp add: plain_header_def pv_of_string_def pv_default_def)
  moreover have "pv_string (hf_patch (mh_fields h)) = [] \<Longrightarrow> hf_patch (mh_fields h) = pv_default"
    using p by (simp add: plain_header_def pv_default_def)
  ultimately have "stored_fields (mh_fields header_default) (mh_fields h) = mh_fields h"
    using p by (auto simp: stored_fields_def plain_header_def header_version_def Let_def header_default_def)
  then have "stored_header h = h" using p by (cases h) (simp add: stored_header_def plain_header_def)
  then show ?thesis using p by (simp add: reloaded_def plain_header_def)
qed

subsection \<open>Properties\<close>

text \<open>C3: The index survives a restart. When \<open>save_all\<close> can use the file, has room, and cuts the headers
  into blocks the reader accepts, it succeeds, and \<open>load_from_local\<close> of a new index on that file
  succeeds and holds the same ids in the same order, each header as its stored form with its stored
  modifications merged onto it.\<close>

theorem index_survives_restart:
  assumes "index_inv x" and "can_use_file (ai_storage x)" and "ai_headers x \<noteq> []"
    and "blocks_fit (chunks [] (ai_headers x))"
    and "length (file_bytes (chunks [] (ai_headers x))) \<le> st_room (ai_storage x)"
    and "\<forall>(i, h)\<in>set (ai_headers x). own_modifications h"
    and "\<forall>(i, h)\<in>set (ai_headers x). \<not> mh_version (reloaded h) < reactions_header_version"
  shows "\<exists>x1 y. save_all x = Some (True, x1) \<and>
    load_from_local now (mk_index (ai_storage x1) aimid) = Some (True, y) \<and>
    ai_headers y = map (\<lambda>(i, h). (i, reloaded h)) (ai_headers x)"
  using assms by (rule save_then_load)

definition sample_header :: "int \<Rightarrow> int \<Rightarrow> message_header" where
  "sample_header i prev = mk_header 0 1600000000 i prev 0 10 (pv_of_string [55]) False False False False False"

definition sample_index :: archive_index where
  "sample_index = (mk_index (mk_storage None) [])\<lparr>ai_headers := [(1, sample_header 1 (-1)), (2, sample_header 2 1)]\<rparr>"

lemma sample_header_simps [simp]:
  "mh_id (sample_header i p) = i" "mh_prev (sample_header i p) = p" "mh_version (sample_header i p) = 6"
  "mh_modifications (sample_header i p) = []" "plain_header (sample_header i p)"
  "is_modified (sample_header i p) = False"
  by (simp_all add: sample_header_def mk_header_def header_version_def plain_header_def pv_of_string_def
      pv_default_def is_modified_def)

lemma storable_sample: "0 < i \<Longrightarrow> i64_range i \<Longrightarrow> i64_range p \<Longrightarrow> storable (sample_header i p)"
  by (simp add: storable_def good_header_def sample_header_def mk_header_def i64_range_def pv_of_string_def pv_default_def)

lemma length_sample: "length (enc_header (mh_fields (sample_header i p))) = 51"
  by (simp add: enc_header_def sample_header_def mk_header_def header_version_def enc_patch_def enc_flags_def
      enc_if_def pv_of_string_def pv_default_def)

lemma chunks_sample: "chunks [] (ai_headers sample_index) = [[sample_header 1 (-1), sample_header 2 1]]"
  by (simp add: sample_index_def with_modifications_def history_block_size_def)

lemma sample_index_ok:
  "index_inv sample_index" "can_use_file (ai_storage sample_index)" "ai_headers sample_index \<noteq> []"
  "blocks_fit (chunks [] (ai_headers sample_index))"
  "length (file_bytes (chunks [] (ai_headers sample_index))) \<le> st_room (ai_storage sample_index)"
  "\<forall>(i, h)\<in>set (ai_headers sample_index). plain_header h"
proof -
  show "index_inv sample_index" "can_use_file (ai_storage sample_index)" "ai_headers sample_index \<noteq> []"
    "\<forall>(i, h)\<in>set (ai_headers sample_index). plain_header h"
    by (simp_all add: sample_index_def index_inv_def headers_ok_def om_ok_def mk_index_def mk_storage_def can_use_file_def)
  have l: "length (block_bytes [sample_header 1 (-1), sample_header 2 1]) = 118"
    by (simp add: length_block_bytes length_sample)
  then have "block_bytes [sample_header 1 (-1), sample_header 2 1] \<noteq> []" by force
  with l show "blocks_fit (chunks [] (ai_headers sample_index))"
    unfolding chunks_sample by (simp add: blocks_fit_def good_block_def storable_sample i64_range_def)
  show "length (file_bytes (chunks [] (ai_headers sample_index))) \<le> st_room (ai_storage sample_index)"
    unfolding chunks_sample using l by (simp add: sample_index_def mk_index_def mk_storage_def)
qed

lemma plain_own: "\<forall>(i, h)\<in>set m. plain_header h \<Longrightarrow> \<forall>(i, h)\<in>set m. own_modifications h"
  by (auto simp: plain_header_def own_modifications_def)

lemma plain_recent:
  "\<forall>(i, h)\<in>set m. plain_header h \<Longrightarrow> \<forall>(i, h)\<in>set m. \<not> mh_version (reloaded h) < reactions_header_version"
  by (fastforce simp: reloaded_plain plain_header_def header_version_def reactions_header_version_def)

theorem index_survives_restart_witness:
  "\<exists>x1 y. save_all sample_index = Some (True, x1) \<and>
    load_from_local 1600000000 (mk_index (ai_storage x1) []) = Some (True, y) \<and>
    ai_headers y = map (\<lambda>(i, h). (i, reloaded h)) (ai_headers sample_index)"
  by (rule index_survives_restart)
    (use sample_index_ok plain_own [OF sample_index_ok(6)] plain_recent [OF sample_index_ok(6)] in blast)+

text \<open>Nothing at all is lost of headers of the current version that carry no modifications and no
  count of local patches: after saving and loading the map is the same.\<close>

lemma plain_index_unchanged:
  assumes "index_inv x" and "can_use_file (ai_storage x)" and "ai_headers x \<noteq> []"
    and "blocks_fit (chunks [] (ai_headers x))"
    and "length (file_bytes (chunks [] (ai_headers x))) \<le> st_room (ai_storage x)"
    and "\<forall>(i, h)\<in>set (ai_headers x). plain_header h"
  shows "\<exists>x1 y. save_all x = Some (True, x1) \<and>
    load_from_local now (mk_index (ai_storage x1) aimid) = Some (True, y) \<and> ai_headers y = ai_headers x"
proof -
  have "map (\<lambda>(i, h). (i, reloaded h)) (ai_headers x) = ai_headers x"
    using assms(6) by (intro map_idI) (auto simp: reloaded_plain)
  with save_then_load [OF assms(1-5) plain_own [OF assms(6)] plain_recent [OF assms(6)]] show ?thesis
    by simp
qed

lemma plain_index_unchanged_example:
  "\<exists>x1 y. save_all sample_index = Some (True, x1) \<and>
    load_from_local 1600000000 (mk_index (ai_storage x1) []) = Some (True, y) \<and>
    ai_headers y = ai_headers sample_index"
  by (rule plain_index_unchanged) (use sample_index_ok in blast)+

end
