(* ===== verification/Index_Chain.thy ===== *)
theory Index_Chain
  imports Index_Holes Index_Roundtrip
begin

text \<open>
  What the operations of the archive index guarantee: the invariant of every reachable index, what an
  insertion changes, what the two searches for holes compute, how deleting messages treats the chain of
  links, and the bounds that optimising keeps. A message's link names the message before it; a hole is
  a place where the visible messages do not form such a chain, and the client asks the server for it.
\<close>

subsection \<open>The state\<close>

text \<open>C32: Whatever operations of the index are called, in whatever order and with whatever arguments and file
  contents, the map stays sorted by id with every node's key its header's id, the count of merges is not
  negative, and no call leaves the file open.\<close>

theorem index_invariant:
  assumes "index_reachable st aimid x" and "st_stream st = None"
  shows "index_inv x"
  using reachable_inv [OF assms] .

theorem index_invariant_witness: "index_inv (index_free (drop_header 3 (mk_index (mk_storage None) [])))"
proof (rule index_invariant)
  show "index_reachable (mk_storage None) [] (index_free (drop_header 3 (mk_index (mk_storage None) [])))"
    by (rule reach_step [OF reach_step [OF reach_new step_drop_header] step_free])
  show "st_stream (mk_storage None) = None" by (simp add: mk_storage_def)
qed

text \<open>Inserting a header merges it into the header with its id, or adds it when there is none. Of the
  other headers nothing but the link to the previous message can change.\<close>

theorem insert_header_lookup:
  assumes "headers_ok (ai_headers x)"
  shows "get_header (mh_id h) (snd (insert_header h now x)) =
      Some (case get_header (mh_id h) x of None \<Rightarrow> h | Some e \<Rightarrow> merge_with e h) \<and>
    \<not> (\<exists>j. j \<noteq> mh_id h \<and> map_option (set_prev_msgid 0) (get_header j (snd (insert_header h now x))) \<noteq>
      map_option (set_prev_msgid 0) (get_header j x))"
proof -
  have ok: "om_ok (ai_headers x)" using assms by (simp add: headers_ok_def)
  have keep: "map_option (set_prev_msgid 0) (om_find j (relink h e m)) = map_option (set_prev_msgid 0) (om_find j m)" for j e m
    by (auto simp: relink_def om_find_modify option.map_comp set_prev_msgid_def map_fields_def comp_def
        split: option.splits intro!: option.map_cong)
  have own: "om_find (mh_id h) (relink h e m) = om_find (mh_id h) m" for e m
  proof -
    have "i \<noteq> mh_id h" if "om_next (mh_id h) m = Some (i, n)" for i n
      using that by (auto simp: om_next_def find_Some_iff)
    then show ?thesis by (auto simp: relink_def om_find_modify option.map_id [unfolded id_def] split: option.splits)
  qed
  show ?thesis
  proof (cases "om_find (mh_id h) (ai_headers x)")
    case None
    then show ?thesis by (simp add: insert_header_def get_header_def om_find_emplace [OF ok])
  next
    case (Some e)
    then show ?thesis
      by (simp add: insert_header_def get_header_def Let_def om_find_modify own keep option.map_id [unfolded id_def])
  qed
qed

theorem insert_header_lookup_witness:
  "get_header 2 (snd (insert_header (sample_header 2 1) 0 sample_index)) =
    Some (merge_with (sample_header 2 1) (sample_header 2 1))"
  using insert_header_lookup [of sample_index "sample_header 2 1" 0] sample_index_ok(1)
  by (simp add: index_inv_def) (simp add: get_header_def om_find_def sample_index_def)

subsection \<open>Holes\<close>

text \<open>C19: \<open>get_next_hole\<close> without a start and a depth looks at the visible headers only, newest first. It says
  that the end is reached exactly when every header's link names the next older header and the oldest has
  none, and otherwise reports the first link that does not.\<close>

theorem next_hole_is_first_gap:
  assumes "vs = vis (rev (ai_headers x))" and "vs \<noteq> []"
  shows "(get_next_hole (-1) hole (-1) x = (last_reached, hole) \<longleftrightarrow> \<not> (\<exists>k<length vs. broken vs k)) \<and>
    (\<forall>k. k < length vs \<and> broken vs k \<and> \<not> (\<exists>j<k. broken vs j) \<longrightarrow>
      get_next_hole (-1) hole (-1) x = (hole_ok,
        if Suc k < length vs
        then hole\<lparr>ah_from := mh_id (vs ! k), ah_to := mh_id (vs ! Suc k), ah_depth := int k + 1\<rparr>
        else hole\<lparr>ah_from := mh_id (vs ! k)\<rparr>))"
proof -
  have r: "get_next_hole (-1) hole (-1) x = hole_report (-1) 0 hole vs"
    using assms by (simp add: get_next_hole_report Let_def)
  have g: "k = gap_index vs" if "k < length vs" "broken vs k" "\<not> (\<exists>j<k. broken vs j)" for k
    using that gap_index_first [of k vs] gap_index_broken [of vs] by (metis linorder_neqE_nat order_less_trans)
  have none: "gap_index vs = length vs \<longleftrightarrow> \<not> (\<exists>k<length vs. broken vs k)"
    using gap_index_le [of vs] gap_index_broken [of vs] gap_index_first [of _ vs] by (metis le_neq_implies_less)
  have c: "hole_report (-1) 0 hole vs = (last_reached, hole) \<longleftrightarrow> gap_index vs = length vs"
    using gap_index_le [of vs] by (simp add: hole_report_def Let_def)
  have "hole_report (-1) 0 hole vs = (hole_ok,
      if Suc k < length vs
      then hole\<lparr>ah_from := mh_id (vs ! k), ah_to := mh_id (vs ! Suc k), ah_depth := int k + 1\<rparr>
      else hole\<lparr>ah_from := mh_id (vs ! k)\<rparr>)"
    if "k < length vs" "broken vs k" "\<not> (\<exists>j<k. broken vs j)" for k
    using g [OF that] that(1) by (simp add: hole_report_def Let_def)
  with c none show ?thesis unfolding r by simp
qed

theorem next_hole_is_first_gap_witness:
  "get_next_hole (-1) hole_default (-1) sample_index = (last_reached, hole_default)"
proof -
  have v: "vis (rev (ai_headers sample_index)) = [sample_header 2 1, sample_header 1 (-1)]"
    by (simp add: sample_index_def vis_def visible_def is_patch_def is_deleted_def sample_header_def mk_header_def)
  from next_hole_is_first_gap [OF v [symmetric], of hole_default] show ?thesis
    by (simp add: broken_def less_Suc_eq)
qed

text \<open>What \<open>has_hole_in_range\<close> computes. For a message at place \<open>p\<close> of the visible headers, newest
  first, there is a hole exactly when a link at most \<open>count_after\<close> places newer or fewer than
  \<open>count_before\<close> places older is broken; for a message that is not there, exactly when the oldest
  visible header names a predecessor.\<close>

theorem hole_in_range_report:
  assumes "headers_ok (ai_headers x)" and "vis (rev (ai_headers x)) \<noteq> []" and "0 \<le> count_after"
  shows "has_hole_in_range msgid count_before count_after x \<longleftrightarrow>
    range_report msgid count_before count_after (vis (rev (ai_headers x)))"
proof -
  let ?m = "rev (ai_headers x)"
  obtain n r where s: "skip_patches_and_deleted_forward ?m = n # r"
    using assms(2) skip_Nil by (metis list.exhaust)
  obtain i h where n: "n = (i, h)" by (cases n)
  from s n have v: "vis ?m = h # vis r" "visible h" using skip_Cons by blast+
  have "distinct (map mh_id (map snd ?m))"
  proof -
    have "map mh_id (map snd ?m) = map fst ?m"
      using assms(1) by (auto simp: headers_ok_def)
    moreover have "distinct (map fst ?m)"
      using assms(1) om_ok_distinct [of "ai_headers x"] by (simp add: headers_ok_def distinct_map)
    ultimately show ?thesis by (simp only:)
  qed
  then have "distinct (map mh_id (vis ?m))"
    unfolding vis_def by (rule distinct_map_filter)
  with range_loop_report [of "h # vis r" count_after count_after msgid count_before] v assms(3)
  have "range_loop msgid count_before count_after False count_after 0 (h # vis r) \<longleftrightarrow>
      range_report msgid count_before count_after (h # vis r)" by simp
  then show ?thesis
    using s n v by (simp add: has_hole_in_range_def hole_in_range_loop_vis Let_def del: range_loop.simps hole_in_range_loop.simps)
qed

theorem hole_in_range_report_witness: "\<not> has_hole_in_range 2 10 10 sample_index"
proof -
  have v: "vis (rev (ai_headers sample_index)) = [sample_header 2 1, sample_header 1 (-1)]"
    by (simp add: sample_index_def vis_def visible_def is_patch_def is_deleted_def sample_header_def mk_header_def)
  have "headers_ok (ai_headers sample_index)" using sample_index_ok(1) by (simp add: index_inv_def)
  from hole_in_range_report [OF this, of 10 2 10] show ?thesis
    by (simp add: v range_report_def broken_def less_Suc_eq)
qed

subsection \<open>Deleting messages\<close>

text \<open>A complete chain, oldest first: every header is visible and names the one before it.\<close>

fun linked :: "int \<Rightarrow> message_header omap \<Rightarrow> bool" where
  "linked p [] = True"
| "linked p ((i, h) # m) \<longleftrightarrow> visible h \<and> mh_prev h = p \<and> linked i m"

lemma linked_append:
  "linked p (xs @ ys) \<longleftrightarrow> linked p xs \<and> linked (if xs = [] then p else fst (last xs)) ys"
  by (induction p xs rule: linked.induct) auto

lemma vis_linked: "linked p m \<Longrightarrow> vis (rev m) = rev (map snd m)"
proof -
  assume "linked p m"
  then have "\<forall>h\<in>set (map snd m). visible h" by (induction p m rule: linked.induct) auto
  then show ?thesis unfolding vis_def by (auto simp: rev_map)
qed

lemma linked_unbroken:
  "linked (-1) m \<Longrightarrow> \<forall>(i, h)\<in>set m. mh_id h = i \<Longrightarrow> k < length m \<Longrightarrow> \<not> broken (rev (map snd m)) k"
proof (induction m arbitrary: k rule: rev_induct)
  case (snoc n m)
  obtain i h where n: "n = (i, h)" by (cases n)
  have prev: "mh_prev h = (if m = [] then -1 else fst (last m))" and m: "linked (-1) m"
    using snoc.prems(1) n by (auto simp: linked_append)
  show ?case
  proof (cases k)
    case 0
    have "m \<noteq> [] \<Longrightarrow> mh_id (snd (last m)) = fst (last m)" using snoc.prems(2) last_in_set [of m] by (cases "last m") fastforce
    then show ?thesis using 0 n prev by (cases m rule: rev_cases) (auto simp: broken_def)
  next
    case (Suc j)
    with snoc n m show ?thesis by simp
  qed
qed simp

lemma gap_index_all: "gap_index vs = length vs \<longleftrightarrow> \<not> (\<exists>k<length vs. broken vs k)"
  using gap_index_le [of vs] gap_index_broken [of vs] gap_index_first [of _ vs] by (metis le_neq_implies_less)

lemma linked_no_hole:
  assumes "linked (-1) m" and "\<forall>(i, h)\<in>set m. mh_id h = i"
  shows "hole_report (-1) c hole (rev (map snd m)) = (last_reached, hole)"
proof -
  have "gap_index (rev (map snd m)) = length (rev (map snd m))"
    using linked_unbroken [OF assms] by (subst gap_index_all) auto
  then show ?thesis by (simp add: hole_report_def Let_def)
qed

text \<open>What a deletion does to the map: the header behind the deleted one is linked to the one before it.\<close>

lemma headers_delete:
  assumes "headers_ok (ai_headers x)" and "ai_headers x = xs @ (k, e) # ys" and "mh_id d = k" and "is_deleted d"
  shows "ai_headers (snd (insert_header d now x)) = xs @ (k, merge_with e d) #
    (case ys of [] \<Rightarrow> [] | (j, n) # r \<Rightarrow> (j, if mh_prev n = k then set_prev_msgid (mh_prev e) n else n) # r)"
proof -
  let ?m = "ai_headers x"
  define ys' where "ys' = (case ys of [] \<Rightarrow> [] | (j, n) # r \<Rightarrow> (j, if mh_prev n = k then set_prev_msgid (mh_prev e) n else n) # r)"
  have ok: "om_ok (xs @ (k, e) # ys)" and id: "mh_id e = k"
    using assms(1) unfolding assms(2) headers_ok_def by auto
  have f: "om_find k ?m = Some e" unfolding assms(2) by (rule om_find_split [OF ok])
  have "relink d e ?m = xs @ (k, e) # ys'"
  proof (cases ys)
    case Nil
    then show ?thesis
      using om_next_split [OF ok] assms(2-4) by (simp add: relink_def ys'_def)
  next
    case (Cons y r)
    obtain j n where y: "y = (j, n)" by (cases y)
    have nx: "om_next k ?m = Some (j, n)" using om_next_split [OF ok] Cons y assms(2) by simp
    have "om_modify j f ?m = xs @ (k, e) # (j, f n) # r" for f
      using om_modify_split [of "xs @ [(k, e)]" j n r f] ok assms(2) Cons y by simp
    then show ?thesis using nx id assms(2-4) Cons y by (simp add: relink_def ys'_def)
  qed
  moreover have "om_ok (xs @ (k, e) # ys')"
    using ok by (auto simp: ys'_def om_ok_def split: list.splits)
  ultimately show ?thesis
    using f assms(3) om_modify_split [of xs k e ys'] by (simp add: insert_header_def Let_def ys'_def)
qed

lemma set_prev_simps [simp]: "mh_prev (set_prev_msgid q h) = q" "mh_id (set_prev_msgid q h) = mh_id h"
  "visible (set_prev_msgid q h) = visible h"
  by (simp_all add: set_prev_msgid_def visible_def is_patch_def is_deleted_def)

lemma visible_merge: "is_deleted d \<Longrightarrow> \<not> visible (merge_with e d)"
  by (simp add: visible_def merge_simps)

lemma vis_skip: "\<not> visible h \<Longrightarrow> vis (rev (xs @ (k, h) # ys)) = vis (rev (xs @ ys))"
  by (simp add: vis_def)

text \<open>C33: Deleting one message of a complete chain leaves a complete chain: the header behind it is linked to
  the one before it, and the search for holes reaches the end as before.\<close>

theorem deletion_keeps_chain:
  assumes "headers_ok (ai_headers x)" and "ai_headers x = xs @ (k, e) # ys" and "linked (-1) (ai_headers x)"
    and "xs @ ys \<noteq> []" and "mh_id d = k" and "is_deleted d"
  shows "get_next_hole (-1) hole (-1) (snd (insert_header d now x)) = (last_reached, hole)"
proof -
  let ?p = "if xs = [] then -1 else fst (last xs)"
  define ys' where "ys' = (case ys of [] \<Rightarrow> [] | (j, n) # r \<Rightarrow> (j, if mh_prev n = k then set_prev_msgid (mh_prev e) n else n) # r)"
  have ids: "\<forall>(i, h)\<in>set (xs @ (k, e) # ys). mh_id h = i"
    using assms(1) unfolding assms(2) headers_ok_def by auto
  have l: "linked (-1) xs" "visible e" "mh_prev e = ?p" "linked k ys"
    using assms(3) unfolding assms(2) linked_append by auto
  have h: "ai_headers (snd (insert_header d now x)) = xs @ (k, merge_with e d) # ys'"
    unfolding ys'_def by (rule headers_delete [OF assms(1,2,5,6)])
  have "linked (-1) (xs @ ys')"
    using l by (cases ys) (auto simp: linked_append ys'_def split: if_splits)
  moreover have "\<forall>(i, h)\<in>set (xs @ ys'). mh_id h = i"
    using ids by (cases ys) (auto simp: ys'_def)
  moreover have "vis (rev (ai_headers (snd (insert_header d now x)))) = vis (rev (xs @ ys'))"
    unfolding h by (rule vis_skip [OF visible_merge [OF assms(6)]])
  moreover have "xs @ ys' \<noteq> []" using assms(4) by (auto simp: ys'_def split: list.splits)
  ultimately show ?thesis
    using linked_no_hole [of "xs @ ys'" 0 hole] vis_linked [of "-1" "xs @ ys'"]
    by (auto simp: get_next_hole_report Let_def)
qed

definition delete_patch :: "int \<Rightarrow> message_header" where
  "delete_patch i = mk_header 48 1600000001 i (-1) (-1) 0 pv_default False False False False False"

definition four_messages :: archive_index where
  "four_messages = (mk_index (mk_storage None) [])
     \<lparr>ai_headers := map (\<lambda>i. (i, sample_header i (if i = 1 then -1 else i - 1))) [1, 2, 3, 4]\<rparr>"

lemma delete_patch_simps [simp]:
  "mh_id (delete_patch i) = i" "mh_prev (delete_patch i) = -1" "is_deleted (delete_patch i)" "is_patch (delete_patch i)"
  by (simp_all add: delete_patch_def mk_header_def is_deleted_def is_patch_def flag_def flag_bit_defs bit_numeral_rec)

lemma sample_visible [simp]: "visible (sample_header i p)" "visible (set_prev_msgid q (sample_header i p))"
  "\<not> is_deleted (sample_header i p)"
  by (simp_all add: visible_def is_patch_def is_deleted_def set_prev_msgid_def sample_header_def mk_header_def)

theorem deletion_keeps_chain_witness:
  "get_next_hole (-1) hole_default (-1) (snd (insert_header (delete_patch 2) 0 four_messages)) = (last_reached, hole_default)"
proof (rule deletion_keeps_chain)
  show "ai_headers four_messages = [(1, sample_header 1 (-1))] @ (2, sample_header 2 1) #
      [(3, sample_header 3 2), (4, sample_header 4 3)]"
    by (simp add: four_messages_def)
  show "headers_ok (ai_headers four_messages)" by (simp add: four_messages_def headers_ok_def om_ok_def)
  show "linked (-1) (ai_headers four_messages)" by (simp add: four_messages_def)
  show "mh_id (delete_patch 2) = 2" "is_deleted (delete_patch 2)" by simp_all
qed simp

text \<open>The search goes through a chain whose oldest link leads to \<open>h\<close>.\<close>

lemma gap_index_linked:
  "linked (mh_id h) ys \<Longrightarrow> \<forall>(i, g)\<in>set ys. mh_id g = i \<Longrightarrow>
    gap_index (rev (map snd ys) @ h # rest) = length ys + gap_index (h # rest)"
proof (induction ys rule: rev_induct)
  case (snoc y ys)
  obtain i g where y: "y = (i, g)" by (cases y)
  from snoc have "gap_index (rev (map snd ys) @ h # rest) = length ys + gap_index (h # rest)" by (simp add: linked_append)
  moreover have "mh_prev g = (if ys = [] then mh_id h else fst (last ys))"
    using snoc.prems(1) y by (auto simp: linked_append)
  ultimately show ?case using snoc.prems(2) y by (cases ys rule: rev_cases) auto
qed simp

lemma hole_at_wrong_link:
  assumes "linked c ys" and "\<forall>(i, h)\<in>set (xs @ ys). mh_id h = i" and "mh_id h = c" and "mh_prev h \<noteq> (if xs = [] then -1 else fst (last xs))"
  shows "hole_report (-1) 0 hole (rev (map snd ys) @ h # rev (map snd xs)) =
    (hole_ok, if xs = [] then hole\<lparr>ah_from := c\<rparr> else hole\<lparr>ah_from := c, ah_to := fst (last xs), ah_depth := int (length ys) + 1\<rparr>)"
proof -
  let ?vs = "rev (map snd ys) @ h # rev (map snd xs)"
  have older: "mh_id (snd (last xs)) = fst (last xs)" if "xs \<noteq> []"
    using assms(2) last_in_set [OF that] by (auto dest!: bspec [where x = "last xs"] split: prod.splits)
  then have "gap_index (h # rev (map snd xs)) = 0" using assms(4) by (cases xs rule: rev_cases) auto
  moreover have "\<forall>(i, g)\<in>set ys. mh_id g = i" using assms(2) by auto
  ultimately have gap: "gap_index ?vs = length ys" using gap_index_linked [of h ys] assms(1,3) by simp
  have "mh_id (?vs ! length ys) = c" using assms(3) by (simp add: nth_append)
  moreover have "mh_id (?vs ! Suc (length ys)) = fst (last xs)" if "xs \<noteq> []"
    using that older by (cases xs rule: rev_cases) (auto simp: nth_append)
  ultimately show ?thesis unfolding hole_report_def Let_def gap by (cases "xs = []") simp_all
qed

text \<open>C39: The order of two deletions matters. In a complete chain, of two adjacent messages that have a message
  behind them, let both be deleted. When the older one goes first the chain stays complete. When the newer one goes
  first, the message behind them is linked to the older one, and as this is deleted the header that is relinked is the
  first deleted one: the search reports a hole where no message is missing, below the message behind them and above the
  one before them.\<close>

theorem newest_first_deletion_makes_hole:
  assumes "headers_ok (ai_headers x)" and "ai_headers x = xs @ (a, ea) # (b, eb) # (c, ec) # ys" and "linked (-1) (ai_headers x)"
    and "a \<noteq> -1" and "mh_id older = a" and "is_deleted older" and "mh_id newer = b" and "is_deleted newer"
  shows "get_next_hole (-1) hole (-1) (snd (insert_header newer t' (snd (insert_header older t x)))) = (last_reached, hole) \<and>
    get_next_hole (-1) hole (-1) (snd (insert_header older t' (snd (insert_header newer t x)))) =
      (hole_ok, if xs = [] then hole\<lparr>ah_from := c\<rparr>
                else hole\<lparr>ah_from := c, ah_to := fst (last xs), ah_depth := int (length ys) + 1\<rparr>)"
proof -
  let ?p = "if xs = [] then -1 else fst (last xs)"
  have ids: "\<forall>(i, h)\<in>set (xs @ (a, ea) # (b, eb) # (c, ec) # ys). mh_id h = i" and om: "om_ok (xs @ (a, ea) # (b, eb) # (c, ec) # ys)"
    using assms(1) unfolding assms(2) headers_ok_def by auto
  have l: "linked (-1) xs" "mh_prev ea = ?p" "mh_prev eb = a" "mh_prev ec = b" "visible ec" "linked c ys"
    using assms(3) unfolding assms(2) linked_append by auto
  note headers = headers_ok_insert_header [OF assms(1)]
  have "ai_headers (snd (insert_header older t x)) =
      xs @ (a, merge_with ea older) # (b, set_prev_msgid ?p eb) # (c, ec) # ys"
    using headers_delete [OF assms(1,2,5,6), of t] l(2,3) by simp
  from headers_delete [OF headers, of older t "xs @ [(a, merge_with ea older)]" b "set_prev_msgid ?p eb" "(c, ec) # ys" newer t'] this l(4) assms(7,8)
  have one: "ai_headers (snd (insert_header newer t' (snd (insert_header older t x)))) =
      xs @ (a, merge_with ea older) # (b, merge_with (set_prev_msgid ?p eb) newer) # (c, set_prev_msgid ?p ec) # ys" by simp
  have first: "ai_headers (snd (insert_header newer t x)) = xs @ (a, ea) # (b, merge_with eb newer) # (c, set_prev_msgid a ec) # ys"
    using headers_delete [OF assms(1), of "xs @ [(a, ea)]" b eb "(c, ec) # ys" newer t] assms(2,7,8) l(3,4) by simp
  obtain mb where two: "ai_headers (snd (insert_header older t' (snd (insert_header newer t x)))) =
      xs @ (a, merge_with ea older) # (b, mb) # (c, set_prev_msgid a ec) # ys" "\<not> visible mb"
    using headers_delete [OF headers first assms(5,6), of t'] visible_merge [OF assms(8), of eb] by auto
  have vis: "vis (rev (xs @ (a, merge_with ea older) # (b, h) # (c, set_prev_msgid q ec) # ys)) =
      rev (map snd ys) @ set_prev_msgid q ec # rev (map snd xs)" if "\<not> visible h" for h q
  proof -
    have "\<forall>g\<in>set (map snd (xs @ ys)). visible g"
      using vis_linked [OF l(1)] vis_linked [OF l(6)] by (auto simp: vis_def filter_id_conv rev_map)
    then show ?thesis using that l(5) visible_merge [OF assms(6), of ea] by (simp add: vis_def rev_map)
  qed
  have "linked (-1) (xs @ (c, set_prev_msgid ?p ec) # ys)" using l by (simp add: linked_append)
  then have "hole_report (-1) 0 hole (rev (map snd ys) @ set_prev_msgid ?p ec # rev (map snd xs)) = (last_reached, hole)"
    using linked_no_hole [of "xs @ (c, set_prev_msgid ?p ec) # ys" 0 hole] ids by auto
  then have good: "get_next_hole (-1) hole (-1) (snd (insert_header newer t' (snd (insert_header older t x)))) = (last_reached, hole)"
    unfolding get_next_hole_report one vis [OF visible_merge [OF assms(8)]] by (simp add: Let_def)
  have "a \<noteq> ?p"
  proof (cases "xs = []")
    case False
    then have "last xs \<in> set xs" by simp
    then have "fst (last xs) < a" using om by (auto simp: om_ok_append)
    with False show ?thesis by simp
  qed (use assms(4) in simp)
  then have "hole_report (-1) 0 hole (rev (map snd ys) @ set_prev_msgid a ec # rev (map snd xs)) =
      (hole_ok, if xs = [] then hole\<lparr>ah_from := c\<rparr> else hole\<lparr>ah_from := c, ah_to := fst (last xs), ah_depth := int (length ys) + 1\<rparr>)"
    using ids by (intro hole_at_wrong_link [OF l(6)]) auto
  with good show ?thesis unfolding get_next_hole_report two(1) vis [OF two(2)] by (simp add: Let_def)
qed

theorem newest_first_deletion_makes_hole_witness:
  "get_next_hole (-1) hole_default (-1)
     (snd (insert_header (delete_patch 2) 0 (snd (insert_header (delete_patch 3) 0 four_messages)))) =
   (hole_ok, \<lparr>ah_from = 4, ah_to = 1, ah_depth = 1\<rparr>)"
proof -
  have "headers_ok (ai_headers four_messages)" "linked (-1) (ai_headers four_messages)"
    "ai_headers four_messages = [(1, sample_header 1 (-1))] @ (2, sample_header 2 1) # (3, sample_header 3 2) # (4, sample_header 4 3) # []"
    by (simp_all add: four_messages_def headers_ok_def om_ok_def)
  from newest_first_deletion_makes_hole [OF this(1,3,2), of "delete_patch 2" "delete_patch 3" hole_default 0 0]
  show ?thesis by (simp add: hole_default_def)
qed

lemma delete_up_to_keys:
  assumes "index_inv x" and "delete_up_to to x = Some x'"
  shows "map fst (ai_headers x') = filter (\<lambda>i. to < i) (map fst (ai_headers x))"
proof -
  let ?m = "ai_headers x" and ?it = "om_lower_bound to (ai_headers x)"
  have ok: "headers_ok ?m" using assms(1) by (simp add: index_inv_def)
  then have om: "om_ok ?m" by (simp add: headers_ok_def)
  note split = om_lower_bound_split [OF om, of to]
  have split_le: "?it \<le> length ?m" by (simp add: om_lower_bound_def length_takeWhile_le)
  have m: "map fst ?m = map fst (take ?it ?m) @ map fst (drop ?it ?m)" by (simp flip: map_append)
  have "filter (\<lambda>i. to < i) (map fst (take ?it ?m)) = []" using split by (auto simp: filter_empty_conv)
  then have high: "filter (\<lambda>i. to < i) (map fst ?m) = filter (\<lambda>i. to < i) (map fst (drop ?it ?m))"
    by (subst m) (simp only: filter_append append_Nil)
  have keep: "ai_headers y' = ms" if "map_option snd (save_all (x\<lparr>ai_headers := ms\<rparr>)) = Some y'" for ms y'
    using that by (auto simp: save_all_def split: prod.splits if_splits option.splits bool.splits)
  show ?thesis
  proof (cases "drop ?it ?m")
    case Nil
    then have "?it = length ?m" using split_le by simp
    then have "ai_headers x' = []" using assms(2) keep by (simp add: delete_up_to_def)
    then show ?thesis unfolding high Nil by simp
  next
    case (Cons n r)
    obtain i h where n: "n = (i, h)" by (cases n)
    have lt: "?it < length ?m" using Cons by (cases "?it < length ?m") simp_all
    then have nth: "?m ! ?it = (i, h)" and r: "drop (Suc ?it) ?m = r"
      using Cons_nth_drop_Suc [OF lt] Cons n by simp_all
    have "headers_ok (n # r)" using headers_ok_drop [OF ok, of ?it] Cons by simp
    then have r_gt: "\<forall>x\<in>set r. i < fst x" and hi: "mh_id h = i" using n by (auto simp: headers_ok_def om_ok_Cons)
    have i_ge: "to \<le> i" using split Cons n by auto
    have all: "filter (\<lambda>i. to < i) (map fst ?m) = (if i = to then map fst r else i # map fst r)"
      unfolding high Cons n using i_ge r_gt by (auto simp: filter_id_conv)
    show ?thesis
    proof (cases "i = to")
      case True
      have "map fst (ai_headers x') = map fst r"
        using assms(2) lt nth hi True r keep by (auto simp: delete_up_to_def Let_def split: list.splits)
      with all True show ?thesis by simp
    next
      case False
      have "ai_headers x' = drop ?it ?m"
        using assms(2) lt nth hi False keep by (auto simp: delete_up_to_def Let_def split: if_splits)
      with all False Cons n show ?thesis by simp
    qed
  qed
qed

definition unwritable_index :: archive_index where
  "unwritable_index = sample_index\<lparr>ai_storage := (mk_storage None)\<lparr>st_can_open := False\<rparr>, ai_loaded := True, ai_merged_count := 1\<rparr>"

lemma unwritable_simps [simp]:
  "index_inv unwritable_index" "ai_headers unwritable_index = [(1, sample_header 1 (-1)), (2, sample_header 2 1)]"
  using sample_index_ok(1) by (simp_all add: unwritable_index_def index_inv_def sample_index_def mk_storage_def)

lemma save_unwritable:
  assumes "ai_storage y = ai_storage unwritable_index"
  shows "\<exists>z. save_all y = Some (False, z)"
  using assms by (simp add: save_all_def unwritable_index_def storage_open_def fstream_open_def mk_storage_def mode_zero_def Let_def)

text \<open>Deleting up to a message removes exactly the headers with ids up to it, whether or not it is there
  itself, and touches no other id.\<close>

lemma delete_up_to_ids:
  assumes "index_inv x" and "delete_up_to to x = Some x'"
  shows "map fst (ai_headers x') = filter (\<lambda>i. to < i) (map fst (ai_headers x))"
  using assms by (rule delete_up_to_keys)

text \<open>Optimising keeps the index within its limits: the newest messages stay, all of them unless there are
  more than 25000, an optimised index has at most that many, and no index has more than 30000 afterwards.\<close>

theorem optimize_bounds:
  assumes "index_inv x" and "optimize x = Some x'"
  shows "map fst (ai_headers x') = drop (length (ai_headers x) - length (ai_headers x')) (map fst (ai_headers x)) \<and>
    length (ai_headers x') \<le> index_size_need_optimize \<and>
    length (ai_headers x') = (if need_optimize x then min max_index_size (length (ai_headers x)) else length (ai_headers x))"
proof (cases "need_optimize x")
  case False
  then have "x' = x" using assms(2) by (simp add: optimize_def)
  moreover have "length (ai_headers x) \<le> index_size_need_optimize"
    using False by (simp add: need_optimize_def not_less)
  ultimately show ?thesis using False by simp
next
  case True
  let ?m = "ai_headers x" and ?n = "length (ai_headers x) - max_index_size"
  define ms where "ms = (case drop ?n ?m of [] \<Rightarrow> [] | (i, h) # r \<Rightarrow> (i, if ?n = 0 then h else set_prev_msgid (-1) h) # r)"
  have fst_ms: "map fst ms = drop ?n (map fst ?m)"
    unfolding ms_def drop_map by (cases "drop ?n ?m") auto
  have "ai_headers x' = ms"
    using assms(2) True by (cases "drop ?n ?m")
      (auto simp: optimize_def Let_def ms_def save_all_def nat_int_diff split: prod.splits if_splits option.splits bool.splits)
  then have f: "map fst (ai_headers x') = drop ?n (map fst ?m)" using fst_ms by simp
  then have "length (ai_headers x') = length ?m - ?n" by (metis length_drop length_map)
  with f True show ?thesis by (simp add: max_index_size_def index_size_need_optimize_def min_def)
qed

theorem optimize_bounds_witness:
  "\<exists>x'. optimize unwritable_index = Some x' \<and> map fst (ai_headers x') = [1, 2]"
proof -
  have n: "need_optimize unwritable_index"
    by (simp add: need_optimize_def) (simp add: unwritable_index_def index_size_need_optimize_def)
  have "\<exists>x'. optimize unwritable_index = Some x'"
    using n save_unwritable [of "unwritable_index\<lparr>ai_headers := [(1, sample_header 1 (-1)), (2, sample_header 2 1)],
      ai_calls := ai_calls unwritable_index @ [Network_Log], ai_merged_count := 0\<rparr>"]
    by (auto simp: optimize_def max_index_size_def)
  with optimize_bounds [of unwritable_index] n show ?thesis by (auto simp: max_index_size_def)
qed

end
