(* ===== verification/Contact_Archive.thy ===== *)
theory Contact_Archive
  imports Dlg_State Messages_Data Index_Chain
begin

text \<open>
  The archive of one contact (\<^verbatim>\<open>core/archive/contact_archive.h\<close> and \<^verbatim>\<open>.cpp\<close>): the index of headers, the file
  of messages, the state of the dialog and its draft, and how they are used together. The galleries,
  the mentions, the reactions and the updates of threads, which the class also owns and passes calls
  to, are not part of the model.

  \<open>now\<close> is the clock the index reads, \<open>local_now\<close> the local time the state reads. Assertions and log
  messages do nothing.
\<close>

record contact_archive =
  ca_index :: archive_index
  ca_data :: storage
  ca_state :: archive_state
  ca_draft :: draft_storage
  ca_loaded :: bool

subsection \<open>Reading\<close>

text \<open>
  \<open>get_messages\<close> looks for headers further and further back until some are left after the patches and
  the deleted messages are dropped. The number bounds the rounds; \<open>None\<close> is running out of them.
\<close>

fun headers_loop :: "nat \<Rightarrow> bool \<Rightarrow> int \<Rightarrow> int \<Rightarrow> int \<Rightarrow> archive_index \<Rightarrow> message_header list option" where
  "headers_loop 0 skip from early later x = None"
| "headers_loop (Suc n) skip from early later x =
     (let headers = snd (serialize_from from early later False x [])
      in if headers = [] then Some []
         else let from = mh_id (hd headers);
                  headers = (if skip then filter (\<lambda>h. \<not> (is_patch h \<or> is_deleted h)) headers else headers)
              in if headers = [] then headers_loop n skip from early later x
                 else Some headers)"

definition contact_get_messages ::
  "reader \<Rightarrow> nat \<Rightarrow> bool \<Rightarrow> int \<Rightarrow> int \<Rightarrow> int \<Rightarrow> contact_archive \<Rightarrow> (history_message list \<times> contact_archive) option"
where
  "contact_get_messages rd rounds skip from early later ca = do {
     headers \<leftarrow> headers_loop rounds skip from early later (ca_index ca);
     if headers = [] then Some ([], ca)
     else do {
       (_, ms, st) \<leftarrow> get_messages rd headers [] (ca_data ca);
       Some (ms, ca\<lparr>ca_data := st\<rparr>)
     }
   }"

definition get_messages_index :: "int \<Rightarrow> int \<Rightarrow> int \<Rightarrow> contact_archive \<Rightarrow> message_header list" where
  "get_messages_index from early later ca = snd (serialize_from from early later True (ca_index ca) [])"

text \<open>A message that could not be read is marked: its data is invalid, and it is to be updated.\<close>

definition mark_errors :: "read_error list \<Rightarrow> archive_index \<Rightarrow> archive_index" where
  "mark_errors errors x = fold (\<lambda>(i, _) x. if i > 0 then invalidate_message_data i True x else x) errors x"

definition get_messages_buddies_from_headers ::
  "reader \<Rightarrow> message_header list \<Rightarrow> history_message list \<Rightarrow> read_error list \<Rightarrow> contact_archive \<Rightarrow>
    (bool \<times> history_message list \<times> read_error list \<times> contact_archive) option"
where
  "get_messages_buddies_from_headers rd headers messages errors ca =
     (if headers = [] then Some (False, messages, errors, ca)
      else do {
        (errors, messages, st) \<leftarrow> get_messages rd headers messages (ca_data ca);
        Some (messages \<noteq> [], messages, errors,
              ca\<lparr>ca_data := st, ca_index := mark_errors errors (ca_index ca)\<rparr>)
      })"

definition headers_of_ids :: "int list \<Rightarrow> archive_index \<Rightarrow> message_header list" where
  "headers_of_ids ids x = concat (map (\<lambda>i. case get_header i x of
     None \<Rightarrow> [] | Some h \<Rightarrow> if is_patch h then [] else [h]) ids)"

definition get_messages_buddies_from_ids ::
  "reader \<Rightarrow> int list \<Rightarrow> history_message list \<Rightarrow> read_error list \<Rightarrow> contact_archive \<Rightarrow>
    (bool \<times> history_message list \<times> read_error list \<times> contact_archive) option"
where
  "get_messages_buddies_from_ids rd ids messages errors ca =
     get_messages_buddies_from_headers rd (headers_of_ids ids (ca_index ca)) messages errors ca"

text \<open>\<open>drafts\<close> is the feature switch.\<close>

definition get_dlg_state :: "reader \<Rightarrow> bool \<Rightarrow> contact_archive \<Rightarrow> (dlg_state \<times> contact_archive) option" where
  "get_dlg_state rd drafts ca = do {
     (d, x) \<leftarrow> get_state rd (ca_state ca);
     let d = copy_from dlg_default d;
     let draft = sto_draft (ca_draft ca);
     Some (if drafts \<and> \<not> draft_empty draft \<and> dr_state draft \<noteq> draft_local then d\<lparr>ds_draft := Some draft\<rparr> else d,
           ca\<lparr>ca_state := x\<rparr>)
   }"

definition contact_set_dlg_state ::
  "junk \<Rightarrow> int option \<Rightarrow> dlg_state \<Rightarrow> dlg_state_changes \<Rightarrow> contact_archive \<Rightarrow> (dlg_state_changes \<times> contact_archive) option"
where
  "contact_set_dlg_state junk local_now s ch ca =
     map_option (\<lambda>(ch, x). (ch, ca\<lparr>ca_state := x\<rparr>)) (set_state junk local_now s ch (ca_state ca))"

definition contact_update_attention :: "junk \<Rightarrow> bool \<Rightarrow> contact_archive \<Rightarrow> contact_archive option" where
  "contact_update_attention junk v ca =
     map_option (\<lambda>x. ca\<lparr>ca_state := x\<rparr>) (update_attention_attribute junk v (ca_state ca))"

definition contact_set_draft :: "junk \<Rightarrow> draft \<Rightarrow> contact_archive \<Rightarrow> contact_archive option" where
  "contact_set_draft junk d ca = map_option (\<lambda>x. ca\<lparr>ca_draft := x\<rparr>) (set_draft junk d (ca_draft ca))"

text \<open>The language of the last ten messages; \<open>contains_ru\<close> is the regular expression.\<close>

definition get_locale :: "reader \<Rightarrow> (cstring \<Rightarrow> bool) \<Rightarrow> contact_archive \<Rightarrow> (bool \<times> contact_archive) option" where
  "get_locale rd contains_ru ca = do {
     (_, messages, _, ca) \<leftarrow> get_messages_buddies_from_headers rd (get_messages_index (-1) 10 0 ca) [] [] ca;
     Some (list_ex (\<lambda>m. contains_ru (get_text m)) messages, ca)
   }"

subsection \<open>Inserting\<close>

text \<open>A message the index already has is skipped when it brings nothing new.\<close>

definition skip_duplicate :: "history_message \<Rightarrow> message_header \<Rightarrow> bool" where
  "skip_duplicate m h \<longleftrightarrow>
     \<not> (msg_is_patch m \<noteq> is_patch h) \<and>
     \<not> (hm_quotes m \<noteq> [] \<and> qu_chat_name (hd (hm_quotes m)) \<noteq> []) \<and>
     \<not> (hm_prev m \<noteq> mh_prev h) \<and>
     \<not> pv_greater (hm_patch m) (mh_patch h) \<and>
     is_message_data_valid h \<and>
     \<not> (has_shared_contact_with_sn m \<and> \<not> hf_contact (mh_fields h)) \<and>
     \<not> (has_poll_with_id m \<and> \<not> hf_poll (mh_fields h)) \<and>
     \<not> (has_reactions m \<noteq> hf_reactions (mh_fields h)) \<and>
     \<not> (has_thread m \<noteq> hf_thread (mh_fields h)) \<and>
     \<not> (has_task_with_id m \<and> \<not> hf_task (mh_fields h))"

definition has_prev_msgid :: "history_message \<Rightarrow> bool" where
  "has_prev_msgid m \<longleftrightarrow> hm_prev m > 0"

fun insert_data :: "archive_index \<Rightarrow> int \<Rightarrow> history_message list \<Rightarrow> history_message list" where
  "insert_data x del_up_to [] = []"
| "insert_data x del_up_to (m # ms) =
     (if (case get_header (hm_msgid m) x of None \<Rightarrow> False | Some h \<Rightarrow> skip_duplicate m h)
      then insert_data x del_up_to ms
      else if has_msgid m \<and> hm_msgid m \<le> del_up_to then insert_data x del_up_to ms
      else (if has_prev_msgid m \<and> hm_prev m \<le> del_up_to then m\<lparr>hm_prev := -1\<rparr> else m) # insert_data x del_up_to ms)"

text \<open>Writing the messages, then their headers; a failure of the first leaves the index alone.\<close>

definition write_messages ::
  "junk \<Rightarrow> int \<Rightarrow> history_message list \<Rightarrow> message_header list \<Rightarrow> contact_archive \<Rightarrow>
    (result_type \<times> message_header list \<times> contact_archive) option"
where
  "write_messages junk now ms inserted ca = do {
     (res, ms, st) \<leftarrow> update junk ms (ca_data ca);
     let ca = ca\<lparr>ca_data := st\<rparr>;
     if \<not> fst res then Some (res, inserted, ca)
     else do {
       (res, inserted, x) \<leftarrow> update_headers (map header_of_message ms) now (ca_index ca);
       Some (res, inserted, ca\<lparr>ca_index := x\<rparr>)
     }
   }"

text \<open>
  \<open>insert_history_block\<close>. The arguments \<open>inserted\<close> and \<open>result\<close> are what the caller's variables hold; they
  stay when there is nothing to insert. When nothing is left to insert and the server has nothing
  older, the message \<open>from\<close> is written again as the first of the dialog. The state the caller gets is
  assigned to a fresh object.
\<close>

definition insert_history_block ::
  "junk \<Rightarrow> reader \<Rightarrow> int \<Rightarrow> history_message list \<Rightarrow> message_header list \<Rightarrow> result_type \<Rightarrow> int \<Rightarrow> bool \<Rightarrow>
    contact_archive \<Rightarrow> (message_header list \<times> dlg_state \<times> result_type \<times> contact_archive) option"
where
  "insert_history_block junk rd now ms inserted result from has_older ca = do {
     (d, x) \<leftarrow> get_state rd (ca_state ca);
     let updated_state = copy_from dlg_default d;
     let ca = ca\<lparr>ca_state := x\<rparr>;
     let data = insert_data (ca_index ca) (ds_del_up_to updated_state) ms;
     if data \<noteq> [] then do {
       (result, inserted, ca) \<leftarrow> write_messages junk now data inserted ca;
       Some (inserted, updated_state, result, ca)
     }
     else if \<not> (from \<noteq> -1 \<and> \<not> has_older) then Some (inserted, updated_state, result, ca)
     else do {
       (ok, data, _, ca) \<leftarrow> get_messages_buddies_from_ids rd [from] [] [] ca;
       if \<not> ok then Some (inserted, updated_state, result, ca)
       else do {
         let data = (case data of [] \<Rightarrow> [] | m # ms \<Rightarrow> m\<lparr>hm_prev := -1\<rparr> # ms);
         (result, inserted, ca) \<leftarrow> write_messages junk now data inserted ca;
         Some (inserted, updated_state, result, ca)
       }
     }
   }"

definition update_message_data ::
  "junk \<Rightarrow> reader \<Rightarrow> int \<Rightarrow> history_message \<Rightarrow> contact_archive \<Rightarrow> contact_archive option" where
  "update_message_data junk rd now m ca =
     (case get_header (hm_msgid m) (ca_index ca) of
        None \<Rightarrow> Some ca
      | Some h \<Rightarrow> do {
          (_, block, st) \<leftarrow> get_messages rd [h] [] (ca_data ca);
          let block = (case block of [] \<Rightarrow> [] | b # bs \<Rightarrow> merge_message b m # bs);
          map_option (\<lambda>(_, _, ca). ca) (write_messages junk now block [h] (ca\<lparr>ca_data := st\<rparr>))
        })"

subsection \<open>Deleting, repairing, loading\<close>

definition no_changes :: dlg_state_changes where
  "no_changes = \<lparr>ch_del_up_to = False, ch_history_patch = False, ch_initial_fill = False, ch_last_message = False\<rparr>"

definition delete_messages_up_to ::
  "junk \<Rightarrow> reader \<Rightarrow> int option \<Rightarrow> int \<Rightarrow> contact_archive \<Rightarrow> contact_archive option" where
  "delete_messages_up_to junk rd local_now up_to ca = do {
     (d, x) \<leftarrow> get_state rd (ca_state ca);
     let d = copy_from dlg_default d;
     let is_last_message_obsolete = (has_msgid (ds_last_message d) \<and> up_to \<ge> hm_msgid (ds_last_message d));
     let is_last_msgid_obsolete = (has_last_msgid d \<and> up_to \<ge> ds_last_msgid d);
     x \<leftarrow> (if is_last_message_obsolete \<or> is_last_msgid_obsolete
           then map_option snd (set_state junk local_now ((clear_last_message d)\<lparr>ds_last_msgid := -1\<rparr>) no_changes x)
           else Some x);
     i \<leftarrow> delete_up_to up_to (ca_index ca);
     Some (ca\<lparr>ca_state := x, ca_index := i\<rparr>)
   }"

text \<open>
  \<open>load_from_local\<close> for the index and the state: a broken index is written out as far as it was read,
  and messages deleted meanwhile are removed. The first result is \<open>_first_load\<close>.
\<close>

definition load_index :: "int \<Rightarrow> archive_index \<Rightarrow> archive_index option" where
  "load_index now x = do {
     (ok, x) \<leftarrow> load_from_local now x;
     if ok then Some x
     else if ai_last_error x \<noteq> file_not_exist then map_option snd (save_all x)
     else Some x
   }"

definition contact_load ::
  "junk \<Rightarrow> reader \<Rightarrow> int option \<Rightarrow> int \<Rightarrow> contact_archive \<Rightarrow> (bool \<times> contact_archive) option" where
  "contact_load junk rd local_now now ca =
     (if ca_loaded ca then Some (False, ca)
      else do {
        i \<leftarrow> load_index now (ca_index ca);
        let ca = ca\<lparr>ca_loaded := True, ca_index := i\<rparr>;
        let first_id = get_first_msgid i;
        if first_id > 0 then do {
          (d, x) \<leftarrow> get_state rd (ca_state ca);
          let ca = ca\<lparr>ca_state := x\<rparr>;
          if has_del_up_to d \<and> ds_del_up_to d > first_id
          then map_option (Pair True) (delete_messages_up_to junk rd local_now (ds_del_up_to d) ca)
          else Some (True, ca)
        }
        else Some (True, ca)
      })"

definition then_save :: "(archive_index \<Rightarrow> archive_index) \<Rightarrow> contact_archive \<Rightarrow> contact_archive option" where
  "then_save f ca = map_option (\<lambda>(_, i). ca\<lparr>ca_index := i\<rparr>) (save_all (f (ca_index ca)))"

definition contact_make_holes ::
  "junk \<Rightarrow> reader \<Rightarrow> int option \<Rightarrow> int \<Rightarrow> bool list \<Rightarrow> contact_archive \<Rightarrow> contact_archive option" where
  "contact_make_holes junk rd local_now now keep ca =
     Option.bind (contact_load junk rd local_now now ca) (\<lambda>(_, ca). then_save (make_holes keep) ca)"

definition invaliadte_history ::
  "junk \<Rightarrow> reader \<Rightarrow> int option \<Rightarrow> int \<Rightarrow> int \<Rightarrow> contact_archive \<Rightarrow> contact_archive option" where
  "invaliadte_history junk rd local_now now now' ca =
     Option.bind (contact_load junk rd local_now now ca) (\<lambda>(_, ca). then_save (invalidate now') ca)"

definition contact_invalidate_messages ::
  "junk \<Rightarrow> reader \<Rightarrow> int option \<Rightarrow> int \<Rightarrow> int list \<Rightarrow> contact_archive \<Rightarrow> contact_archive option" where
  "contact_invalidate_messages junk rd local_now now ids ca =
     Option.bind (contact_load junk rd local_now now ca)
       (\<lambda>(_, ca). then_save (fold (\<lambda>i. invalidate_message_data i False) ids) ca)"

definition contact_invalidate_range ::
  "junk \<Rightarrow> reader \<Rightarrow> int option \<Rightarrow> int \<Rightarrow> int \<Rightarrow> int \<Rightarrow> int \<Rightarrow> contact_archive \<Rightarrow> contact_archive option" where
  "contact_invalidate_range junk rd local_now now from before_count after_count ca =
     Option.bind (contact_load junk rd local_now now ca)
       (\<lambda>(_, ca). then_save (invalidate_message_data_range from before_count after_count) ca)"

definition contact_clear_dlg_state :: "junk \<Rightarrow> contact_archive \<Rightarrow> contact_archive option" where
  "contact_clear_dlg_state junk ca = map_option (\<lambda>x. ca\<lparr>ca_state := x\<rparr>) (clear_state junk (ca_state ca))"

definition drop_history :: "contact_archive \<Rightarrow> contact_archive option" where
  "drop_history ca = map_option (\<lambda>ca. ca\<lparr>ca_data := drop_data (ca_data ca)\<rparr>) (then_save index_free ca)"

definition contact_optimize :: "contact_archive \<Rightarrow> contact_archive option" where
  "contact_optimize ca =
     (if need_optimize (ca_index ca) then map_option (\<lambda>i. ca\<lparr>ca_index := i\<rparr>) (optimize (ca_index ca)) else Some ca)"

definition contact_free :: "contact_archive \<Rightarrow> contact_archive" where
  "contact_free ca = ca\<lparr>ca_index := index_free (ca_index ca), ca_loaded := False\<rparr>"

end
