(* ===== verification/Contact_Invariant.thy ===== *)
theory Contact_Invariant
  imports Contact_Archive "HOL-Library.Sublist"
begin

text \<open>
  What every sequence of calls of a contact's archive keeps: the index stays well formed, no file stays
  open, and the file of messages only grows, so that what a header points to stays where it is.
\<close>

subsection \<open>The file of messages only grows\<close>

text \<open>A stream that was opened for appending writes at the end, wherever it stands and whatever failed.\<close>

definition append_only :: "storage \<Rightarrow> bool" where
  "append_only st \<longleftrightarrow> pred_option fs_app (st_stream st)"

definition grows :: "storage \<Rightarrow> storage \<Rightarrow> bool" where
  "grows st st' \<longleftrightarrow> prefix (contents st) (contents st')"

lemma grows_refl [simp]: "grows st st"
  by (simp add: grows_def)

lemma grows_trans: "grows a b \<Longrightarrow> grows b c \<Longrightarrow> grows a c"
  unfolding grows_def by (rule prefix_order.trans)

lemma write_step_grows: "write_step bs st = (r, st') \<Longrightarrow> append_only st \<Longrightarrow> append_only st' \<and> grows st st'"
  by (auto simp: write_step_def fs_write_def append_only_def grows_def Let_def put_at_end split: option.splits if_splits)

lemma write_data_block_grows:
  assumes "write_data_block d off st = Some (r, off', d', st')" and "append_only st"
  shows "append_only st' \<and> grows st st'"
proof (cases "st_stream st")
  case None
  with assms show ?thesis by (simp add: write_data_block_def)
next
  case (Some f)
  have *: "append_only y \<and> grows st y" if "write_step bs x = (q, y)" "append_only x \<and> grows st x" for bs x q y
    using write_step_grows [OF that(1)] that(2) grows_trans by blast
  show ?thesis
    using assms Some
    by (auto simp: write_data_block_def Let_def split: if_splits prod.splits option.splits dest!: * intro: *)
qed

lemma update_loop_grows:
  "update_loop junk ms d st = Some (r, ms', st') \<Longrightarrow> append_only st \<Longrightarrow> append_only st' \<and> grows st st'"
proof (induction ms arbitrary: d st r ms')
  case (Cons m ms)
  obtain res off d1 st1 where w: "write_data_block (message_serialize junk m (reset d)) 0 st = Some (res, off, d1, st1)"
    using Cons.prems(1) by (auto simp: bind_eq_Some_conv Let_def)
  note g = write_data_block_grows [OF w Cons.prems(2)]
  show ?case
  proof (cases "fst res")
    case True
    with Cons.prems(1) w obtain r1 ms1 where "update_loop junk ms d1 st1 = Some (r1, ms1, st')"
      by (auto simp: bind_eq_Some_conv Let_def)
    with Cons.IH g grows_trans show ?thesis by blast
  next
    case False
    with Cons.prems(1) w g show ?thesis by (auto simp: Let_def)
  qed
qed simp

lemma open_append_only:
  "storage_open (mode_zero\<lparr>sm_write := True, sm_append := True\<rparr>) st = (ok, st') \<Longrightarrow> st_stream st = None \<Longrightarrow>
    (if ok then append_only st' else st_stream st' = None) \<and> grows st st'"
  by (auto simp: storage_open_def fstream_open_def filebuf_mode_def mode_zero_def append_only_def grows_def fs_seek_def
      Let_def contents_def split: if_splits option.splits)

lemma close_simps [simp]: "st_stream (storage_close st) = None" "grows x (storage_close st) = grows x st"
  by (simp_all add: storage_close_def grows_def)

lemma update_grows:
  assumes "update junk ms st = Some (r, ms', st')" and "st_stream st = None"
  shows "st_stream st' = None \<and> grows st st'"
proof -
  obtain ok st1 where o: "storage_open (mode_zero\<lparr>sm_write := True, sm_append := True\<rparr>) st = (ok, st1)" by fastforce
  note open_append_only [OF o assms(2)]
  with o assms(1) show ?thesis
    by (cases ok) (auto simp: update_def dest!: update_loop_grows elim: grows_trans)
qed

lemma get_messages_grows:
  assumes "get_messages rd hs ms st = Some (es, ms', st')" and "st_stream st = None"
  shows "st_stream st' = None \<and> grows st st'"
proof -
  obtain ok st1 where o: "storage_open (mode_zero\<lparr>sm_read := True, sm_append := True\<rparr>) st = (ok, st1)" by fastforce
  have c: "grows st st1"
    using o by (auto simp: storage_open_def fstream_open_def filebuf_mode_def mode_zero_def Let_def contents_def grows_def
        split: option.splits if_splits)
  show ?thesis
  proof (cases ok)
    case False
    with assms o c storage_open_closed [of _ st st1] show ?thesis by (simp add: get_messages_def)
  next
    case True
    with assms(1) o obtain es1 ms1 st2 where "get_messages_loop rd hs empty_stream st1 = Some (es1, ms1, st2)"
      "st' = storage_close st2"
      by (auto simp: get_messages_def bind_eq_Some_conv Let_def)
    with get_messages_loop_answers [of rd hs empty_stream st1 es1 ms1 st2] c show ?thesis by (simp add: grows_def)
  qed
qed

subsection \<open>The state of the dialog is closed\<close>

lemma state_save_closed: "state_save junk x = Some (b, x') \<Longrightarrow> st_stream (as_storage x) = None \<Longrightarrow> st_stream (as_storage x') = None"
  by (auto simp: state_save_def dest: storage_open_closed split: option.splits prod.splits bool.splits)

lemma get_state_closed: "get_state rd x = Some (d, x') \<Longrightarrow> st_stream (as_storage x) = None \<Longrightarrow> st_stream (as_storage x') = None"
  by (auto simp: get_state_def state_load_def bind_eq_Some_conv dest: storage_open_closed
      split: option.splits prod.splits bool.splits if_splits)

lemma set_state_closed: "set_state junk now n ch x = Some (c, x') \<Longrightarrow> st_stream (as_storage x) = None \<Longrightarrow> st_stream (as_storage x') = None"
  by (auto simp: set_state_def Let_def dest: state_save_closed split: prod.splits bool.splits)

lemma small_state_closed:
  "update_attention_attribute junk v x = Some x' \<Longrightarrow> st_stream (as_storage x) = None \<Longrightarrow> st_stream (as_storage x') = None"
  "clear_state junk x = Some x' \<Longrightarrow> st_stream (as_storage x) = None \<Longrightarrow> st_stream (as_storage x') = None"
  by (auto simp: update_attention_attribute_def clear_state_def dest: state_save_closed)


subsection \<open>The operations as steps\<close>

inductive contact_step :: "contact_archive \<Rightarrow> contact_archive \<Rightarrow> bool" where
  step_get_messages: "contact_get_messages rd n skip from early later ca = Some (ms, ca') \<Longrightarrow> contact_step ca ca'"
| step_by_headers: "get_messages_buddies_from_headers rd hs ms es ca = Some (ok, ms', es', ca') \<Longrightarrow> contact_step ca ca'"
| step_by_ids: "get_messages_buddies_from_ids rd is ms es ca = Some (ok, ms', es', ca') \<Longrightarrow> contact_step ca ca'"
| step_locale: "get_locale rd ru ca = Some (b, ca') \<Longrightarrow> contact_step ca ca'"
| step_get_dlg_state: "get_dlg_state rd drafts ca = Some (d, ca') \<Longrightarrow> contact_step ca ca'"
| step_set_dlg_state: "contact_set_dlg_state junk local_now s ch ca = Some (ch', ca') \<Longrightarrow> contact_step ca ca'"
| step_attention: "contact_update_attention junk v ca = Some ca' \<Longrightarrow> contact_step ca ca'"
| step_clear_state: "contact_clear_dlg_state junk ca = Some ca' \<Longrightarrow> contact_step ca ca'"
| step_set_draft: "contact_set_draft junk dr ca = Some ca' \<Longrightarrow> contact_step ca ca'"
| step_insert: "insert_history_block junk rd now ms ins res from has_older ca = Some (ins', d, res', ca') \<Longrightarrow> contact_step ca ca'"
| step_update_data: "update_message_data junk rd now m ca = Some ca' \<Longrightarrow> contact_step ca ca'"
| step_delete: "delete_messages_up_to junk rd local_now up_to ca = Some ca' \<Longrightarrow> contact_step ca ca'"
| step_contact_load: "contact_load junk rd local_now now ca = Some (first, ca') \<Longrightarrow> contact_step ca ca'"
| step_holes: "contact_make_holes junk rd local_now now keep ca = Some ca' \<Longrightarrow> contact_step ca ca'"
| step_invalidate_history: "invaliadte_history junk rd local_now now now' ca = Some ca' \<Longrightarrow> contact_step ca ca'"
| step_invalidate_messages: "contact_invalidate_messages junk rd local_now now is ca = Some ca' \<Longrightarrow> contact_step ca ca'"
| step_invalidate_around: "contact_invalidate_range junk rd local_now now from bc ac ca = Some ca' \<Longrightarrow> contact_step ca ca'"
| step_contact_optimize: "contact_optimize ca = Some ca' \<Longrightarrow> contact_step ca ca'"
| step_contact_free: "contact_step ca (contact_free ca)"

inductive contact_reachable :: "storage \<Rightarrow> storage \<Rightarrow> storage \<Rightarrow> contact_archive \<Rightarrow> bool" for sti std sts where
  reach_open: "contact_reachable sti std sts \<lparr>ca_index = mk_index sti aimid, ca_data = std,
     ca_state = \<lparr>as_state = None, as_storage = sts\<rparr>, ca_draft = dr, ca_loaded = False\<rparr>"
| reach_contact_step: "contact_reachable sti std sts ca \<Longrightarrow> contact_step ca ca' \<Longrightarrow> contact_reachable sti std sts ca'"
| reach_drop: "contact_reachable sti std sts ca \<Longrightarrow> drop_history ca = Some ca' \<Longrightarrow> contact_reachable sti std sts ca'"

definition contact_ok :: "contact_archive \<Rightarrow> bool" where
  "contact_ok ca \<longleftrightarrow> index_inv (ca_index ca) \<and> st_stream (ca_data ca) = None \<and> st_stream (as_storage (ca_state ca)) = None"

text \<open>One step, seen from the invariant and from the file of messages.\<close>

definition keeps :: "contact_archive \<Rightarrow> contact_archive \<Rightarrow> bool" where
  "keeps ca ca' \<longleftrightarrow> (contact_ok ca \<longrightarrow> contact_ok ca' \<and> grows (ca_data ca) (ca_data ca'))"

named_theorems contact_keeps \<open>operations that keep the invariant and the bytes of the file\<close>

lemma keeps_refl [simp]: "keeps ca ca"
  by (simp add: keeps_def)

lemma keeps_trans: "keeps a b \<Longrightarrow> keeps b c \<Longrightarrow> keeps a c"
  using grows_trans by (auto simp: keeps_def)

lemma keeps_index: "index_inv (ca_index ca) \<longrightarrow> index_inv i \<Longrightarrow> keeps ca (ca\<lparr>ca_index := i\<rparr>)"
  by (simp add: keeps_def contact_ok_def)

lemma keeps_state: "st_stream (as_storage (ca_state ca)) = None \<longrightarrow> st_stream (as_storage x) = None \<Longrightarrow> keeps ca (ca\<lparr>ca_state := x\<rparr>)"
  by (simp add: keeps_def contact_ok_def)

lemma keeps_data:
  "(st_stream (ca_data ca) = None \<longrightarrow> st_stream st = None \<and> grows (ca_data ca) st) \<Longrightarrow> keeps ca (ca\<lparr>ca_data := st\<rparr>)"
  by (simp add: keeps_def contact_ok_def)

lemma keeps_other [simp]: "keeps ca (ca\<lparr>ca_draft := d\<rparr>)" "keeps ca (ca\<lparr>ca_loaded := b\<rparr>)"
  by (simp_all add: keeps_def contact_ok_def)

lemma inv_mark_errors: "index_inv x \<Longrightarrow> index_inv (mark_errors es x)"
  by (induction es arbitrary: x) (auto simp: mark_errors_def inv_step [OF step_invalidate_message])

lemma keeps_by_headers [contact_keeps]:
  assumes "get_messages_buddies_from_headers rd hs ms es ca = Some (ok, ms', es', ca')"
  shows "keeps ca ca'"
proof (cases "hs = []")
  case False
  with assms obtain st where g: "get_messages rd hs ms (ca_data ca) = Some (es', ms', st)"
    "ca' = ca\<lparr>ca_data := st, ca_index := mark_errors es' (ca_index ca)\<rparr>"
    by (auto simp: get_messages_buddies_from_headers_def bind_eq_Some_conv)
  from get_messages_grows [OF g(1)] g(2) inv_mark_errors show ?thesis by (auto simp: keeps_def contact_ok_def)
qed (use assms in \<open>simp add: get_messages_buddies_from_headers_def\<close>)

lemma keeps_by_ids [contact_keeps]:
  "get_messages_buddies_from_ids rd is ms es ca = Some (ok, ms', es', ca') \<Longrightarrow> keeps ca ca'"
  unfolding get_messages_buddies_from_ids_def by (rule keeps_by_headers)

lemma keeps_get_messages [contact_keeps]: "contact_get_messages rd n skip from early later ca = Some (ms, ca') \<Longrightarrow> keeps ca ca'"
  by (auto simp: contact_get_messages_def bind_eq_Some_conv split: if_splits intro!: keeps_data dest: get_messages_grows)

lemma keeps_get_state: "get_state rd (ca_state ca) = Some (d, x) \<Longrightarrow> keeps ca (ca\<lparr>ca_state := x\<rparr>)"
  by (auto intro!: keeps_state dest: get_state_closed)

lemma keeps_get_dlg_state [contact_keeps]: "get_dlg_state rd drafts ca = Some (d, ca') \<Longrightarrow> keeps ca ca'"
  by (auto simp: get_dlg_state_def bind_eq_Some_conv Let_def intro: keeps_get_state)

lemma keeps_locale [contact_keeps]: "get_locale rd ru ca = Some (b, ca') \<Longrightarrow> keeps ca ca'"
  by (auto simp: get_locale_def bind_eq_Some_conv dest: keeps_by_headers)

lemma keeps_small [contact_keeps]:
  "contact_set_dlg_state junk local_now s ch ca = Some (ch', ca') \<Longrightarrow> keeps ca ca'"
  "contact_update_attention junk v ca = Some ca' \<Longrightarrow> keeps ca ca'"
  "contact_clear_dlg_state junk ca = Some ca' \<Longrightarrow> keeps ca ca'"
  "contact_set_draft junk dr ca = Some ca' \<Longrightarrow> keeps ca ca'"
  by (auto simp: contact_set_dlg_state_def contact_update_attention_def contact_clear_dlg_state_def
      contact_set_draft_def intro!: keeps_state dest: set_state_closed small_state_closed)

lemma keeps_optimize [contact_keeps]: "contact_optimize ca = Some ca' \<Longrightarrow> keeps ca ca'"
  by (auto simp: contact_optimize_def intro!: keeps_index dest: inv_optimize split: if_splits)

lemma keeps_free [contact_keeps]: "keeps ca (contact_free ca)"
  by (simp add: keeps_def contact_ok_def contact_free_def inv_step [OF step_free])

lemma keeps_write_messages [contact_keeps]:
  assumes "write_messages junk now ms ins ca = Some (res, ins', ca')"
  shows "keeps ca ca'"
proof -
  obtain r ms' st where u: "update junk ms (ca_data ca) = Some (r, ms', st)"
    using assms by (auto simp: write_messages_def bind_eq_Some_conv)
  have k: "keeps ca (ca\<lparr>ca_data := st\<rparr>)" using update_grows [OF u] by (intro keeps_data) simp
  show ?thesis
  proof (cases "fst r")
    case True
    with u assms obtain x where "update_headers (map header_of_message ms') now (ca_index ca) = Some (res, ins', x)"
      "ca' = ca\<lparr>ca_data := st\<rparr>\<lparr>ca_index := x\<rparr>"
      by (auto simp: write_messages_def bind_eq_Some_conv)
    with k show ?thesis by (auto intro!: keeps_trans [OF k] keeps_index dest: inv_update_headers)
  next
    case False
    with u assms k show ?thesis by (auto simp: write_messages_def bind_eq_Some_conv)
  qed
qed


lemma keeps_insert [contact_keeps]:
  assumes "insert_history_block junk rd now ms ins res from has_older ca = Some (ins', d, res', ca')"
  shows "keeps ca ca'"
proof -
  obtain d0 x where s: "get_state rd (ca_state ca) = Some (d0, x)"
    using assms by (auto simp: insert_history_block_def bind_eq_Some_conv)
  let ?ca = "ca\<lparr>ca_state := x\<rparr>"
  have "keeps ?ca ca'"
    using assms s
    by (auto simp: insert_history_block_def bind_eq_Some_conv Let_def split: if_splits
        dest: keeps_write_messages keeps_by_ids intro: keeps_trans [OF keeps_by_ids keeps_write_messages])
  with keeps_get_state [OF s] keeps_trans show ?thesis by blast
qed

lemma keeps_update_data [contact_keeps]: "update_message_data junk rd now m ca = Some ca' \<Longrightarrow> keeps ca ca'"
proof -
  assume a: "update_message_data junk rd now m ca = Some ca'"
  show ?thesis
  proof (cases "get_header (hm_msgid m) (ca_index ca)")
    case None
    with a show ?thesis by (simp add: update_message_data_def)
  next
    case (Some h)
    with a obtain es block st where g: "get_messages rd [h] [] (ca_data ca) = Some (es, block, st)"
      by (auto simp: update_message_data_def bind_eq_Some_conv)
    have k: "keeps ca (ca\<lparr>ca_data := st\<rparr>)" using get_messages_grows [OF g] by (intro keeps_data) simp
    from a Some g obtain res ins' where
      "write_messages junk now (case block of [] \<Rightarrow> [] | b # bs \<Rightarrow> merge_message b m # bs) [h] (ca\<lparr>ca_data := st\<rparr>) =
        Some (res, ins', ca')"
      by (auto simp: update_message_data_def)
    from keeps_trans [OF k keeps_write_messages [OF this]] show ?thesis .
  qed
qed

lemma keeps_delete [contact_keeps]:
  assumes "delete_messages_up_to junk rd local_now up_to ca = Some ca'"
  shows "keeps ca ca'"
proof -
  obtain d x where s: "get_state rd (ca_state ca) = Some (d, x)"
    using assms by (auto simp: delete_messages_up_to_def bind_eq_Some_conv)
  from assms s obtain x' i b n where r: "ca' = ca\<lparr>ca_state := x', ca_index := i\<rparr>" "delete_up_to up_to (ca_index ca) = Some i"
    "(if b then map_option snd (set_state junk local_now n no_changes x) else Some x) = Some x'"
    unfolding delete_messages_up_to_def Let_def by (auto simp only: bind_eq_Some_conv prod.case option.inject)
  have "st_stream (as_storage (ca_state ca)) = None \<longrightarrow> st_stream (as_storage x') = None"
    using get_state_closed [OF s] r(3) by (auto dest: set_state_closed split: if_splits)
  moreover have "index_inv (ca_index ca) \<longrightarrow> index_inv i" using inv_delete_up_to [OF r(2)] by blast
  ultimately show ?thesis unfolding r(1) by (simp add: keeps_def contact_ok_def)
qed

lemma inv_load_index: "load_index now x = Some x' \<Longrightarrow> index_inv x \<Longrightarrow> index_inv x'"
  by (auto simp: load_index_def bind_eq_Some_conv split: if_splits dest: inv_load_from_local inv_save_all)

lemma keeps_load [contact_keeps]:
  assumes "contact_load junk rd local_now now ca = Some (first, ca')"
  shows "keeps ca ca'"
proof (cases "ca_loaded ca")
  case True
  with assms show ?thesis by (simp add: contact_load_def)
next
  case False
  with assms obtain i where l: "load_index now (ca_index ca) = Some i"
    by (auto simp: contact_load_def bind_eq_Some_conv)
  let ?ca = "ca\<lparr>ca_loaded := True, ca_index := i\<rparr>"
  have k: "keeps ca ?ca" using inv_load_index [OF l] by (simp add: keeps_def contact_ok_def)
  have "keeps ?ca ca'"
  proof (cases "get_first_msgid i > 0")
    case True
    with assms False l obtain d x where s: "get_state rd (ca_state ?ca) = Some (d, x)"
      "ca' = ?ca\<lparr>ca_state := x\<rparr> \<or> (\<exists>up. delete_messages_up_to junk rd local_now up (?ca\<lparr>ca_state := x\<rparr>) = Some ca')"
      by (auto simp: contact_load_def bind_eq_Some_conv Let_def split: if_splits)
    from s(2) keeps_get_state [OF s(1)] keeps_delete keeps_trans show ?thesis by blast
  next
    case no: False
    with assms False l show ?thesis by (simp add: contact_load_def)
  qed
  with k keeps_trans show ?thesis by blast
qed

lemma keeps_then_save:
  assumes "then_save f ca = Some ca'" and "\<And>x. index_inv x \<Longrightarrow> index_inv (f x)"
  shows "keeps ca ca'"
  using assms by (auto simp: then_save_def intro!: keeps_index dest: inv_save_all)

lemma keeps_load_then [contact_keeps]:
  "contact_make_holes junk rd local_now now keep ca = Some ca' \<Longrightarrow> keeps ca ca'"
  "invaliadte_history junk rd local_now now now' ca = Some ca' \<Longrightarrow> keeps ca ca'"
  "contact_invalidate_messages junk rd local_now now is ca = Some ca' \<Longrightarrow> keeps ca ca'"
  "contact_invalidate_range junk rd local_now now from bc ac ca = Some ca' \<Longrightarrow> keeps ca ca'"
proof -
  have *: "keeps ca ca'" if "Option.bind (contact_load junk rd local_now now ca) (\<lambda>(_, ca). then_save f ca) = Some ca'"
    "\<And>x. index_inv x \<Longrightarrow> index_inv (f x)" for f
    using that by (auto simp: bind_eq_Some_conv intro: keeps_trans [OF keeps_load keeps_then_save])
  have fold: "index_inv x \<Longrightarrow> index_inv (fold (\<lambda>i. invalidate_message_data i b) is x)" for x b
    by (induction "is" arbitrary: x) (simp_all add: inv_step [OF step_invalidate_message])
  show "contact_make_holes junk rd local_now now keep ca = Some ca' \<Longrightarrow> keeps ca ca'"
    unfolding contact_make_holes_def by (rule * [where f = "make_holes keep"]) (auto intro: inv_step step_make_holes)
  show "invaliadte_history junk rd local_now now now' ca = Some ca' \<Longrightarrow> keeps ca ca'"
    unfolding invaliadte_history_def by (rule * [where f = "invalidate now'"]) (auto intro: inv_invalidate)
  show "contact_invalidate_messages junk rd local_now now is ca = Some ca' \<Longrightarrow> keeps ca ca'"
    unfolding contact_invalidate_messages_def by (rule * [where f = "fold (\<lambda>i. invalidate_message_data i False) is"]) (auto intro: fold)
  show "contact_invalidate_range junk rd local_now now from bc ac ca = Some ca' \<Longrightarrow> keeps ca ca'"
    unfolding contact_invalidate_range_def by (rule * [where f = "invalidate_message_data_range from bc ac"]) (auto intro: inv_invalidate_range)
qed

lemma step_keeps: "contact_step ca ca' \<Longrightarrow> keeps ca ca'"
  by (induction rule: contact_step.induct) (erule contact_keeps | rule contact_keeps)+

lemma drop_ok: "drop_history ca = Some ca' \<Longrightarrow> contact_ok ca \<Longrightarrow> contact_ok ca'"
  by (auto simp: drop_history_def then_save_def contact_ok_def drop_data_def dest!: inv_save_all intro: inv_step step_free)

lemma reachable_ok:
  assumes "contact_reachable sti std sts ca" and "st_stream sti = None" "st_stream std = None" "st_stream sts = None"
  shows "contact_ok ca"
  using assms
proof (induction rule: contact_reachable.induct)
  case (reach_open aimid dr)
  then show ?case using reachable_inv [OF reach_new] by (simp add: contact_ok_def)
next
  case (reach_contact_step ca ca')
  then show ?case using step_keeps by (auto simp: keeps_def)
next
  case (reach_drop ca ca')
  then show ?case using drop_ok by blast
qed

lemma steps_grow:
  assumes "contact_step\<^sup>*\<^sup>* ca ca'" and "contact_ok ca"
  shows "contact_ok ca' \<and> grows (ca_data ca) (ca_data ca')"
  using assms
proof (induction rule: rtranclp_induct)
  case (step y z)
  then show ?case using step_keeps [of y z] grows_trans by (auto simp: keeps_def)
qed simp

end
