(* ===== verification/Contact_Reading.thy ===== *)
theory Contact_Reading
  imports Contact_Archive
begin

text \<open>
  Reading a page of a dialog and reading messages by id, on the archive of a contact as a whole: which
  headers of the index are asked for, and which messages come back from the file.
\<close>

subsection \<open>The page that is shown\<close>

text \<open>
  The visible headers around a place: the \<open>early\<close> last ones before it and the \<open>later\<close> first ones from it
  on. The place is the first header with an id that is not below \<open>from\<close>, or the end for \<^term>\<open>-1 :: int\<close>; behind
  the last header there is no place.
\<close>

definition start_node :: "int \<Rightarrow> message_header omap \<Rightarrow> nat" where
  "start_node from m = (if from \<noteq> -1 then om_lower_bound from m else length m)"

definition take_last :: "nat \<Rightarrow> 'a list \<Rightarrow> 'a list" where
  "take_last n xs = rev (take n (rev xs))"

definition visible_page :: "int \<Rightarrow> int \<Rightarrow> int \<Rightarrow> message_header omap \<Rightarrow> message_header list" where
  "visible_page from early later m =
     (let k = start_node from m
      in if from \<noteq> -1 \<and> k = length m then []
         else take_last (nat early) (vis (take k m)) @ take (nat later) (vis (drop k m)))"

lemma filter_early_loop:
  "filter visible (early_loop c n ms acc) = rev (take (nat c - n) (vis ms)) @ filter visible acc"
proof (induction c n ms acc rule: early_loop.induct)
  case (2 c n i h ms acc)
  show ?case
  proof (cases "is_patch h \<or> int n \<ge> c")
    case True
    with 2(1) show ?thesis by (auto simp: vis_def visible_def)
  next
    case False
    with 2(2) show ?thesis
      by (cases "is_deleted h") (auto simp: vis_def visible_def Suc_diff_Suc take_Cons' nat_less_iff)
  qed
qed (simp add: vis_def)

lemma later_loop_vis:
  "int n < c \<Longrightarrow> later_loop c n ms acc = acc @ take (nat c - n) (vis ms)"
proof (induction c n ms acc rule: later_loop.induct)
  case (2 c n i h ms acc)
  show ?case
  proof (cases "is_patch h \<or> is_deleted h")
    case True
    with 2 show ?thesis by (auto simp: vis_def visible_def)
  next
    case False
    show ?thesis
    proof (cases "int (Suc n) \<ge> c")
      case True
      with False 2(3) have "nat c - n = 1" by simp
      with True False show ?thesis by (auto simp: vis_def visible_def Let_def take_Suc_conv_app_nth)
    next
      case less: False
      with 2(2) False have "later_loop c (Suc n) ms (acc @ [h]) = (acc @ [h]) @ take (nat c - Suc n) (vis ms)" by simp
      moreover have "nat c - n = Suc (nat c - Suc n)" using less by simp
      ultimately show ?thesis using less False by (simp add: vis_def visible_def Let_def)
    qed
  qed
qed (simp add: vis_def)

lemma vis_rev: "vis (rev m) = rev (vis m)"
  by (simp add: vis_def rev_map rev_filter)

lemma serialize_from_parts:
  "snd (serialize_from from early later False x []) =
     (let m = ai_headers x; k = start_node from m
      in if from \<noteq> -1 \<and> k = length m then []
         else (if early > 0 then early_loop early 0 (rev (take k m)) [] else []) @ take (nat later) (vis (drop k m)))"
  by (auto simp: serialize_from_def start_node_def Let_def later_loop_vis vis_def)

lemma serialize_from_page:
  "filter visible (snd (serialize_from from early later False x [])) = visible_page from early later (ai_headers x)"
proof -
  have "filter visible (take n (vis ms)) = take n (vis ms)" for n ms
    by (auto simp: vis_def dest!: in_set_takeD intro!: filter_True)
  then show ?thesis
    by (auto simp: serialize_from_parts visible_page_def Let_def filter_early_loop vis_rev take_last_def)
qed

lemma early_loop_hidden:
  "vis ms = [] \<Longrightarrow> int n < c \<Longrightarrow> early_loop c n ms acc = rev (filter (\<lambda>h. \<not> is_patch h) (map snd ms)) @ acc"
  by (induction c n ms acc rule: early_loop.induct) (auto simp: vis_def visible_def split: if_splits)

text \<open>When the first round found nothing but deleted messages, the second finds nothing at all.\<close>

lemma second_round_is_empty:
  assumes ok: "headers_ok (ai_headers x)" and no: "-1 \<notin> fst ` set (ai_headers x)"
    and hs: "hs = snd (serialize_from from early later False x [])" "hs \<noteq> []" "filter visible hs = []"
  shows "snd (serialize_from (mh_id (hd hs)) early later False x []) = []"
proof -
  let ?m = "ai_headers x" and ?k = "start_node from (ai_headers x)"
  have page: "visible_page from early later ?m = []" using serialize_from_page hs by metis
  have place: "\<not> (from \<noteq> -1 \<and> ?k = length ?m)" using hs by (auto simp: serialize_from_parts Let_def)
  with page have later: "take (nat later) (vis (drop ?k ?m)) = []" by (simp add: visible_page_def Let_def)
  with hs place have early: "early > 0" "hs = early_loop early 0 (rev (take ?k ?m)) []"
    by (auto simp: serialize_from_parts Let_def split: if_splits)
  with page place have hidden: "vis (take ?k ?m) = []"
    by (auto simp: visible_page_def Let_def take_last_def)
  define ns where "ns = take ?k ?m"
  have hs': "hs = filter (\<lambda>h. \<not> is_patch h) (map snd ns)"
    using early hidden early_loop_hidden [of "rev ns" 0 early "[]"] by (simp add: ns_def vis_rev rev_map [symmetric] rev_filter [symmetric])
  obtain us h vs where split: "map snd ns = us @ h # vs" "\<forall>u\<in>set us. is_patch u" "hd hs = h"
  proof -
    from hs(2) hs' obtain h rest where "filter (\<lambda>h. \<not> is_patch h) (map snd ns) = h # rest" by (metis neq_Nil_conv)
    then show ?thesis using that hs' by (auto simp: filter_eq_Cons_iff)
  qed
  obtain as i bs where nodes: "ns = as @ (i, h) # bs" "map snd as = us"
    using split(1) by (auto simp: map_eq_append_conv map_eq_Cons_conv)
  define rest where "rest = drop ?k ?m"
  have m: "?m = as @ (i, h) # bs @ rest" 
  proof -
    have "?m = ns @ rest" by (simp only: ns_def rest_def append_take_drop_id)
    with nodes(1) show ?thesis by simp
  qed
  have "mh_id h = i" using ok m by (auto simp: headers_ok_def)
  have "i \<noteq> -1" using no m by (auto simp: image_iff)
  have asc: "\<forall>a\<in>set as. fst a < i" using ok m by (auto simp: headers_ok_append)
  have k': "start_node i ?m = length as"
    using asc \<open>i \<noteq> -1\<close>
    by (auto simp: start_node_def om_lower_bound_def m takeWhile_append case_prod_beta)
  have "early_loop early 0 (rev as) [] = []"
    using early_loop_hidden [of "rev as" 0 early "[]"] hidden early(1) split(2) nodes
    by (auto simp: vis_def ns_def rev_map [symmetric] filter_empty_conv)
  moreover have "take (nat later) (vis (drop (length as) ?m)) = []"
  proof (cases "nat later = 0")
    case False
    with later have "vis rest = []" by (simp add: rest_def)
    moreover have "vis ns = []" using hidden by (simp only: ns_def)
    with nodes(1) have "vis ((i, h) # bs) = []" by (simp add: vis_def split: if_splits)
    ultimately show ?thesis by (simp add: m vis_def split: if_splits)
  qed simp
  ultimately show ?thesis
    using k' \<open>mh_id h = i\<close> split(3) m early(1) by (simp add: serialize_from_parts Let_def)
qed

lemma headers_loop_page:
  assumes "headers_ok (ai_headers x)" and "-1 \<notin> fst ` set (ai_headers x)"
  shows "headers_loop (Suc (Suc n)) True from early later x = Some (visible_page from early later (ai_headers x))"
proof -
  let ?hs = "snd (serialize_from from early later False x [])"
  have v: "(\<lambda>h. \<not> (is_patch h \<or> is_deleted h)) = visible" by (auto simp: visible_def)
  note page = serialize_from_page [of "from" early later x]
  show ?thesis
  proof (cases "?hs = [] \<or> filter visible ?hs \<noteq> []")
    case True
    with page v show ?thesis by (auto simp: Let_def)
  next
    case False
    with second_round_is_empty [OF assms refl, of "from" early later] page v show ?thesis by (simp add: Let_def)
  qed
qed


subsection \<open>Inserting fresh messages\<close>

lemma insert_headers_fresh:
  assumes "headers_ok (ai_headers x)" and "distinct (map mh_id hs)" and "\<forall>h\<in>set hs. get_header (mh_id h) x = None"
  shows "fst (insert_headers hs now x) = hs \<and>
    (\<forall>i. get_header i (snd (insert_headers hs now x)) = (case find (\<lambda>h. mh_id h = i) hs of None \<Rightarrow> get_header i x | Some h \<Rightarrow> Some h))"
  using assms
proof (induction hs arbitrary: x)
  case (Cons h hs)
  let ?x = "snd (insert_header h now x)"
  have ok: "om_ok (ai_headers x)" using Cons.prems(1) by (simp add: headers_ok_def)
  have new: "om_find (mh_id h) (ai_headers x) = None" using Cons.prems(3) by (simp add: get_header_def)
  have first: "fst (insert_header h now x) = h"
    "get_header i ?x = (if i = mh_id h then Some h else get_header i x)" for i
    using new by (simp_all add: insert_header_def get_header_def om_find_emplace [OF ok])
  have "\<forall>g\<in>set hs. get_header (mh_id g) ?x = None"
    using Cons.prems(2,3) first(2) by (auto simp: image_iff)
  with Cons.IH [of ?x] Cons.prems(1,2) headers_ok_insert_header have IH: "fst (insert_headers hs now ?x) = hs"
    "get_header i (snd (insert_headers hs now ?x)) = (case find (\<lambda>h. mh_id h = i) hs of None \<Rightarrow> get_header i ?x | Some h \<Rightarrow> Some h)" for i
    by auto
  have "find (\<lambda>g. mh_id g = mh_id h) hs = None"
    using Cons.prems(2) by (simp add: find_None_iff) (metis image_eqI)
  with IH first show ?case by (auto simp: case_prod_beta split: option.split)
qed simp

lemma get_header_insert_block: "get_header i (snd (insert_block hs now x)) = get_header i (snd (insert_headers hs now x))"
  by (simp add: get_header_def)

lemma wf_serialize_block: "wf_stream (serialize_block hs empty_stream)"
proof -
  have h: "wf_stream (header_serialize h (reset s))" for h s
    by (simp add: header_serialize_def write_if_def Let_def)
  have "fresh_pack p \<Longrightarrow> fresh_pack (push_headers hs d p)" for d p
    by (induction hs arbitrary: d p) (simp_all add: h Let_def)
  then show ?thesis by (simp add: serialize_block_def wf_pack_serialize)
qed

lemma update_headers_returns:
  "\<exists>res x'. update_headers hs now x = Some (res, fst (insert_headers hs now x), x') \<and>
    (\<forall>i. get_header i x' = get_header i (snd (insert_headers hs now x)))"
proof -
  obtain hs' y where i: "insert_block hs now x = (hs', y)" by fastforce
  have "\<exists>res x'. save_block g y = Some (res, x') \<and> ai_headers x' = ai_headers y" for g
  proof -
    obtain ok st where "storage_open (mode_zero\<lparr>sm_write := True, sm_append := True\<rparr>) (ai_storage y) = (ok, st)" by fastforce
    then show ?thesis
      using write_data_block_returns [OF wf_serialize_block, of g 0 st]
      by (cases ok) (auto simp: save_block_def)
  qed
  then obtain res x' where "save_block hs' y = Some (res, x')" "ai_headers x' = ai_headers y" by blast
  with i get_header_insert_block [of _ hs now x] fst_insert_block [of hs now x] show ?thesis
    by (auto simp: update_headers_def get_header_def)
qed

text \<open>What the archive stores of a new message: the link to a message that was deleted is cut.\<close>

definition unlink_deleted :: "int \<Rightarrow> history_message \<Rightarrow> history_message" where
  "unlink_deleted del_up_to m = (if has_prev_msgid m \<and> hm_prev m \<le> del_up_to then m\<lparr>hm_prev := -1\<rparr> else m)"

lemma insert_data_fresh:
  "(\<forall>m\<in>set ms. get_header (hm_msgid m) x = None \<and> del < hm_msgid m) \<Longrightarrow> insert_data x del ms = map (unlink_deleted del) ms"
  by (induction ms) (auto simp: unlink_deleted_def)

lemma id_unlink [simp]: "hm_msgid (unlink_deleted del m) = hm_msgid m" "msg_is_patch (unlink_deleted del m) = msg_is_patch m"
  by (simp_all add: unlink_deleted_def msg_is_patch_def)


lemma placed_ids: "map (mh_id \<circ> header_of_message) (placed junk n ms) = map hm_msgid ms"
  by (induction ms arbitrary: n) (simp_all add: Let_def header_of_message_def mk_header_def)

lemma placed_patches: "map (is_patch \<circ> header_of_message) (placed junk n ms) = map msg_is_patch ms"
  by (induction ms arbitrary: n) (simp_all add: Let_def header_of_message_def mk_header_def is_patch_def msg_is_patch_def)

lemma find_distinct: "distinct (map f hs) \<Longrightarrow> h \<in> set hs \<Longrightarrow> find (\<lambda>g. f g = f h) hs = Some h"
  by (induction hs) (auto simp: image_iff)

lemma headers_of_ids_found:
  assumes "\<forall>h\<in>set hs. get_header (mh_id h) x = Some h \<and> \<not> is_patch h"
  shows "headers_of_ids (map mh_id hs) x = hs"
  using assms by (induction hs) (simp_all add: headers_of_ids_def)

lemma headers_of_ids_append: "headers_of_ids (is @ js) x = headers_of_ids is x @ headers_of_ids js x"
  by (simp add: headers_of_ids_def)

text \<open>Old headers and the headers of new messages, after the index took the new ones in.\<close>

lemma headers_after_insert:
  assumes ok: "headers_ok (ai_headers x)" and old: "\<forall>h\<in>set hs. get_header (mh_id h) x = Some h \<and> \<not> is_patch h"
    and new: "\<forall>g\<in>set gs. get_header (mh_id g) x = None \<and> \<not> is_patch g" and "distinct (map mh_id gs)"
    and x': "\<forall>i. get_header i x' = get_header i (snd (insert_headers gs now x))"
  shows "headers_of_ids (map mh_id (hs @ gs)) x' = hs @ gs"
proof (rule headers_of_ids_found, intro ballI conjI)
  fix h assume h: "h \<in> set (hs @ gs)"
  have look: "get_header i x' = (case find (\<lambda>g. mh_id g = i) gs of None \<Rightarrow> get_header i x | Some g \<Rightarrow> Some g)" for i
    using insert_headers_fresh [OF ok assms(4), of now] new x' by auto
  show "get_header (mh_id h) x' = Some h"
  proof (cases "h \<in> set gs")
    case True
    then show ?thesis using look find_distinct [OF assms(4) True] by simp
  next
    case False
    with h have "h \<in> set hs" by simp
    with old have s: "get_header (mh_id h) x = Some h" by blast
    have "find (\<lambda>g. mh_id g = mh_id h) gs = None"
      using new s by (simp add: find_None_iff) (metis option.distinct(1))
    with look s show ?thesis by simp
  qed
  show "\<not> is_patch h" using h old new by auto
qed

lemma write_messages_fresh:
  assumes usable: "can_use_file (ca_data ca)" "list_all (message_fits junk) ms" "length (blocks_of junk ms) \<le> st_room (ca_data ca)"
    and ok: "headers_ok (ai_headers (ca_index ca))"
    and new: "\<forall>m\<in>set ms. get_header (hm_msgid m) (ca_index ca) = None \<and> \<not> msg_is_patch m" "distinct (map hm_msgid ms)" "ms \<noteq> []"
    and old: "\<forall>(h, e)\<in>set xs. get_header (mh_id h) (ca_index ca) = Some h \<and> \<not> is_patch h"
      "list_all (all_stored junk (contents (ca_data ca))) xs"
  shows "\<exists>res inserted' ca1 st. write_messages junk now ms inserted ca = Some (res, inserted', ca1) \<and>
    get_messages_buddies_from_ids rd (map (mh_id \<circ> fst) xs @ map hm_msgid ms) [] [] ca1 =
      Some (True, map (shown_message junk rd) xs @ map (stored_message junk rd) ms, [], ca1\<lparr>ca_data := st\<rparr>)"
proof -
  let ?n = "length (contents (ca_data ca))" let ?hs = "map header_of_message (placed junk ?n ms)"
  obtain st1 where u: "update junk ms (ca_data ca) = Some ((True, 0), placed junk ?n ms, st1)"
    "can_use_file st1" "contents st1 = contents (ca_data ca) @ blocks_of junk ms" "st_file st1 \<noteq> None"
    using update_spec [OF usable] by blast
  have ids: "map mh_id ?hs = map hm_msgid ms" and pat: "map is_patch ?hs = map msg_is_patch ms"
    using placed_ids [of junk ?n ms] placed_patches [of junk ?n ms] by simp_all
  have fresh: "\<forall>g\<in>set ?hs. get_header (mh_id g) (ca_index ca) = None \<and> \<not> is_patch g"
  proof
    fix g assume "g \<in> set ?hs"
    then obtain k where k: "k < length ?hs" "g = ?hs ! k" by (metis in_set_conv_nth)
    then have "mh_id g = hm_msgid (ms ! k)" "is_patch g = msg_is_patch (ms ! k)"
      using ids pat by (metis length_map length_placed nth_map)+
    with new(1) k(1) show "get_header (mh_id g) (ca_index ca) = None \<and> \<not> is_patch g" by simp
  qed
  obtain res x' where i: "update_headers ?hs now (ca_index ca) = Some (res, fst (insert_headers ?hs now (ca_index ca)), x')"
    "\<forall>i. get_header i x' = get_header i (snd (insert_headers ?hs now (ca_index ca)))"
    using update_headers_returns by blast
  let ?ca = "ca\<lparr>ca_data := st1, ca_index := x'\<rparr>"
  have w: "write_messages junk now ms inserted ca = Some (res, fst (insert_headers ?hs now (ca_index ca)), ?ca)"
    using u i by (simp add: write_messages_def)
  have "headers_of_ids (map mh_id (map fst xs @ ?hs)) x' = map fst xs @ ?hs"
    by (rule headers_after_insert [OF ok _ fresh _ i(2)]) (use old(1) new(2) ids in auto)
  then have hs: "headers_of_ids (map (mh_id \<circ> fst) xs @ map hm_msgid ms) x' = map fst xs @ ?hs"
    using ids by simp
  let ?ys = "map (\<lambda>(h, m). (h, m, [])) (zip ?hs ms)"
  have "list_all (all_stored junk (contents st1)) (xs @ ?ys)"
    using old(2) placed_stored [OF usable(2), of "contents (ca_data ca)"] unfolding u(3)
    by (auto simp: list_all_iff intro: all_stored_append)
  from get_messages_stored [OF u(2,4) this, of rd] obtain st2 where
    "get_messages rd (map fst xs @ ?hs) [] st1 = Some ([], map (shown_message junk rd) xs @ map (stored_message junk rd) ms, st2)"
    unfolding map_append shown_placed placed_headers by blast
  moreover have "map fst xs @ ?hs \<noteq> []" using new(3) by (metis Nil_is_append_conv Nil_is_map_conv length_0_conv length_placed)
  ultimately have "get_messages_buddies_from_ids rd (map (mh_id \<circ> fst) xs @ map hm_msgid ms) [] [] ?ca =
      Some (True, map (shown_message junk rd) xs @ map (stored_message junk rd) ms, [], ?ca\<lparr>ca_data := st2\<rparr>)"
    using hs new(3) by (simp add: get_messages_buddies_from_ids_def get_messages_buddies_from_headers_def mark_errors_def)
  with w show ?thesis by blast
qed

lemma insert_then_read:
  assumes "get_state rd (ca_state ca) = Some (d, s)" and "headers_ok (ai_headers (ca_index ca))" and "can_use_file (ca_data ca)"
    and "\<forall>m\<in>set ms. get_header (hm_msgid m) (ca_index ca) = None \<and> ds_del_up_to d < hm_msgid m \<and> \<not> msg_is_patch m"
    and "distinct (map hm_msgid ms)" and "ms \<noteq> []"
    and "list_all (message_fits junk) (map (unlink_deleted (ds_del_up_to d)) ms)"
    and "length (blocks_of junk (map (unlink_deleted (ds_del_up_to d)) ms)) \<le> st_room (ca_data ca)"
    and "\<forall>(h, e)\<in>set xs. get_header (mh_id h) (ca_index ca) = Some h \<and> \<not> is_patch h"
    and "list_all (all_stored junk (contents (ca_data ca))) xs"
  shows "\<exists>inserted' d' res ca1 ca2.
    insert_history_block junk rd now ms inserted result from has_older ca = Some (inserted', d', res, ca1) \<and>
    get_messages_buddies_from_ids rd (map (mh_id \<circ> fst) xs @ map hm_msgid ms) [] [] ca1 =
      Some (True, map (shown_message junk rd) xs @ map (stored_message junk rd \<circ> unlink_deleted (ds_del_up_to d)) ms, [], ca2)"
proof -
  let ?ca = "ca\<lparr>ca_state := s\<rparr>" and ?ms = "map (unlink_deleted (ds_del_up_to d)) ms"
  have data: "insert_data (ca_index ?ca) (ds_del_up_to (copy_from dlg_default d)) ms = ?ms"
    using assms(4) by (simp add: copy_from_def insert_data_fresh)
  have ids: "map hm_msgid ?ms = map hm_msgid ms" by simp
  have "can_use_file (ca_data ?ca)" "length (blocks_of junk ?ms) \<le> st_room (ca_data ?ca)" "headers_ok (ai_headers (ca_index ?ca))"
    "\<forall>m\<in>set ?ms. get_header (hm_msgid m) (ca_index ?ca) = None \<and> \<not> msg_is_patch m" "?ms \<noteq> []"
    "\<forall>(h, e)\<in>set xs. get_header (mh_id h) (ca_index ?ca) = Some h \<and> \<not> is_patch h"
    "list_all (all_stored junk (contents (ca_data ?ca))) xs"
    using assms(2-4,6,8-10) by auto
  moreover have "distinct (map hm_msgid ?ms)" unfolding ids by (rule assms(5))
  ultimately obtain res inserted' ca1 st where w: "write_messages junk now ?ms inserted ?ca = Some (res, inserted', ca1)"
    "get_messages_buddies_from_ids rd (map (mh_id \<circ> fst) xs @ map hm_msgid ?ms) [] [] ca1 =
      Some (True, map (shown_message junk rd) xs @ map (stored_message junk rd) ?ms, [], ca1\<lparr>ca_data := st\<rparr>)"
    using write_messages_fresh [OF _ assms(7), of ?ca xs now inserted rd] by blast
  have "insert_history_block junk rd now ms inserted result from has_older ca =
      Some (inserted', copy_from dlg_default d, res, ca1)"
    using data assms(1,6) w(1) by (simp add: insert_history_block_def Let_def)
  moreover have c: "hm_msgid \<circ> unlink_deleted (ds_del_up_to d) = hm_msgid" by (rule ext) simp
  moreover note w(2) [unfolded list.map_comp c]
  ultimately show ?thesis by blast
qed

end
