(* ===== verification/Contact_Guarantees.thy ===== *)
theory Contact_Guarantees
  imports Contact_Invariant Contact_Reading
begin

text \<open>
  What the archive of a contact promises its owner, as a whole: pages of a dialog, deleting, resending,
  and what one bad header does to a request.
\<close>

subsection \<open>Every sequence of calls\<close>

text \<open>C16: Whatever the owner of an archive calls, in whatever order and whatever fails underneath: the index
  stays sorted with keys that are the headers' ids, and no call leaves one of the files open.\<close>

theorem contact_invariant:
  assumes "contact_reachable sti std sts ca" and "st_stream sti = None" "st_stream std = None" "st_stream sts = None"
  shows "index_inv (ca_index ca) \<and> st_stream (ca_data ca) = None \<and> st_stream (as_storage (ca_state ca)) = None"
  using reachable_ok [OF assms] by (simp add: contact_ok_def)

text \<open>C2: A message that is stored stays stored: no sequence of operations (dropping the whole history apart),
  including those whose writes fail half way, changes what a header that was handed out points to.\<close>

theorem stored_messages_stay:
  assumes "contact_step\<^sup>*\<^sup>* ca ca'" and "contact_ok ca" and "all_stored junk (contents (ca_data ca)) e"
  shows "all_stored junk (contents (ca_data ca')) e"
  using steps_grow [OF assms(1,2)] assms(3) by (auto simp: grows_def prefix_def intro: all_stored_append)

subsection \<open>Pages\<close>

text \<open>C20: Looking for a page of headers ends: when no message has the id \<^term>\<open>-1 :: int\<close>, two rounds are always
  enough, however many patches and deleted messages are in the way, and the headers are exactly the
  last \<open>early\<close> visible ones before the place and the first \<open>later\<close> visible ones from it on.\<close>

theorem page_of_headers_is_found:
  assumes "headers_ok (ai_headers x)" and "-1 \<notin> fst ` set (ai_headers x)"
  shows "headers_loop (Suc (Suc n)) True from early later x = Some (visible_page from early later (ai_headers x))"
  using assms by (rule headers_loop_page)

text \<open>C15: The page the owner asked for is what it gets: the messages of the visible headers of the page, in their
  order, each as it was stored with the flags of the header and its modifications applied. Nothing but
  the storage of the messages is touched, and its file not.\<close>

theorem page_shows_the_messages:
  assumes "headers_ok (ai_headers (ca_index ca))" and "-1 \<notin> fst ` set (ai_headers (ca_index ca))"
    and "can_use_file (ca_data ca)" and "list_all (all_stored junk (contents (ca_data ca))) xs"
    and "map fst xs = visible_page from early later (ai_headers (ca_index ca))"
  shows "\<exists>st. contact_get_messages rd (Suc (Suc n)) True from early later ca =
      Some (map (shown_message junk rd) xs, ca\<lparr>ca_data := st\<rparr>) \<and>
    contents st = contents (ca_data ca) \<and> can_use_file st"
proof (cases xs)
  case Nil
  with headers_loop_page [OF assms(1,2), of n "from" early later] assms(3,5) show ?thesis
    by (intro exI [of _ "ca_data ca"]) (simp add: contact_get_messages_def)
next
  case (Cons x ys)
  then have "st_file (ca_data ca) \<noteq> None" using assms(4) all_stored_file [of junk "ca_data ca" x] by simp
  from get_messages_stored [OF assms(3) this assms(4), of rd] obtain st where
    "get_messages rd (map fst xs) [] (ca_data ca) = Some ([], map (shown_message junk rd) xs, st)"
    "can_use_file st" "contents st = contents (ca_data ca)" by blast
  with headers_loop_page [OF assms(1,2), of n "from" early later] assms(5) Cons show ?thesis
    by (auto simp: contact_get_messages_def)
qed

subsection \<open>New messages\<close>

text \<open>C1: New messages that the server sends are kept: after \<open>insert_history_block\<close> takes them in, a request for
  their ids returns every one of them from the file, with the link cut when it led to a deleted
  message, and messages that were there before are returned as before.\<close>

theorem inserted_messages_are_read_back:
  assumes "get_state rd (ca_state ca) = Some (d, s)" and "headers_ok (ai_headers (ca_index ca))" and "can_use_file (ca_data ca)"
    and "\<forall>m\<in>set ms. get_header (hm_msgid m) (ca_index ca) = None \<and> ds_del_up_to d < hm_msgid m \<and> \<not> msg_is_patch m"
    and "distinct (map hm_msgid ms)" and "ms \<noteq> []"
    and "list_all (message_fits junk) (map (unlink_deleted (ds_del_up_to d)) ms)"
    and "length (blocks_of junk (map (unlink_deleted (ds_del_up_to d)) ms)) \<le> st_room (ca_data ca)"
    and "\<forall>(h, e)\<in>set xs. get_header (mh_id h) (ca_index ca) = Some h \<and> \<not> is_patch h"
    and "list_all (all_stored junk (contents (ca_data ca))) xs"
  shows "\<exists>inserted' d' res ca1 ca2.
    insert_history_block junk rd now ms inserted result from has_older ca = Some (inserted', d', res, ca1) \<and>
    get_messages_buddies_from_ids rd (map (mh_id \<circ> fst) xs @ map hm_msgid ms) [] [] ca1 =
      Some (True, map (shown_message junk rd) xs @ map (stored_message junk rd \<circ> unlink_deleted (ds_del_up_to d)) ms, [], ca2)"
  using insert_then_read [OF assms] .

subsection \<open>A bad header\<close>

lemma get_header_invalidate:
  "get_header j (invalidate_message_data i b x) =
    map_option (if j = i then (\<lambda>h. let h = invalidate_data_offset h in if b \<and> \<not> is_patch h then set_updated True h else h)
      else (\<lambda>h. h)) (get_header j x)"
  by (simp add: get_header_def invalidate_message_data_def om_find_modify)

definition spoilt :: "int \<Rightarrow> archive_index \<Rightarrow> bool" where
  "spoilt j x = (case get_header j x of None \<Rightarrow> True | Some g \<Rightarrow> is_patch g \<or> \<not> is_message_data_valid g)"

lemma flags_invalidate [simp]:
  "is_patch (invalidate_data_offset h) = is_patch h" "is_patch (set_updated b h) = is_patch h"
  "is_message_data_valid (set_updated b h) = is_message_data_valid h" "\<not> is_message_data_valid (invalidate_data_offset h)"
  by (simp_all add: is_patch_def set_updated_def flag_set patch_bit_def updated_bit_def invalidate_data_offset_def is_message_data_valid_def)

lemma spoilt_invalidate: "spoilt j (invalidate_message_data i b x) \<longleftrightarrow> j = i \<or> spoilt j x"
  by (auto simp: spoilt_def get_header_invalidate Let_def split: option.split)

lemma spoilt_mark_errors: "spoilt j (mark_errors es x) \<longleftrightarrow> spoilt j x \<or> (0 < j \<and> j \<in> fst ` set es)"
proof (induction es arbitrary: x)
  case Nil
  then show ?case by (simp add: mark_errors_def)
next
  case (Cons e es)
  obtain i c where e: "e = (i, c)" by (cases e)
  have "mark_errors (e # es) x = mark_errors es (if i > 0 then invalidate_message_data i True x else x)"
    by (simp add: mark_errors_def e)
  with Cons.IH e show ?case by (auto simp: spoilt_invalidate)
qed

lemma ids_of_ids:
  assumes "headers_ok (ai_headers x)" and "j \<in> set is" and "\<not> spoilt j x"
  shows "j \<in> mh_id ` set (headers_of_ids is x)"
proof -
  obtain g where g: "get_header j x = Some g" "\<not> is_patch g" using assms(3) by (auto simp: spoilt_def split: option.splits)
  then have "(j, g) \<in> set (ai_headers x)"
    using assms(1) om_find_mem [of "ai_headers x" j g] by (simp add: get_header_def headers_ok_def)
  then have "mh_id g = j" using assms(1) by (auto simp: headers_ok_def)
  moreover have "g \<in> set (headers_of_ids is x)"
    using assms(2) g by (force simp: headers_of_ids_def)
  ultimately show ?thesis by blast
qed

text \<open>C29: One message whose data was declared invalid takes all others of the request along: asked for first, it
  makes the file unreadable for the rest of the call, so the owner gets a placeholder for every
  message, and the index marks the data of every one of them invalid, sound as it is.\<close>

theorem invalid_header_invalidates_the_request:
  assumes "get_header i (ca_index ca) = Some h" and "\<not> is_message_data_valid h" and "\<not> is_patch h"
    and "headers_ok (ai_headers (ca_index ca))" and "can_use_file (ca_data ca)" and "st_file (ca_data ca) \<noteq> None"
    and "int (length (contents (ca_data ca))) < 2 ^ 63 - 1"
  shows "\<exists>es ca'. get_messages_buddies_from_ids rd (i # is) [] [] ca =
      Some (True, map make_fake_message (h # headers_of_ids is (ca_index ca)), es, ca') \<and>
    (\<forall>j\<in>set (i # is). 0 < j \<longrightarrow> spoilt j (ca_index ca'))"
proof -
  let ?hs = "h # headers_of_ids is (ca_index ca)"
  have ids: "headers_of_ids (i # is) (ca_index ca) = ?hs" using assms(1,3) by (simp add: headers_of_ids_def)
  have "int (length (contents (ca_data ca))) \<le> mh_offset h"
    using assms(2,7) by (simp add: is_message_data_valid_def i64_max_def)
  from behind_the_end_spoils [OF assms(5,6) this, of rd "headers_of_ids is (ca_index ca)"] obtain st where
    g: "get_messages rd ?hs [] (ca_data ca) = Some (map (\<lambda>h. (mh_id h, 1)) ?hs, map make_fake_message ?hs, st)" by blast
  let ?ca = "ca\<lparr>ca_data := st, ca_index := mark_errors (map (\<lambda>h. (mh_id h, 1)) ?hs) (ca_index ca)\<rparr>"
  have "get_messages_buddies_from_ids rd (i # is) [] [] ca =
      Some (True, map make_fake_message ?hs, map (\<lambda>h. (mh_id h, 1)) ?hs, ?ca)"
    using g by (simp add: get_messages_buddies_from_ids_def get_messages_buddies_from_headers_def ids)
  moreover have "spoilt j (ca_index ?ca)" if "j \<in> set (i # is)" "0 < j" for j
    using ids_of_ids [OF assms(4) that(1)] that(2) ids by (force simp: spoilt_mark_errors)
  ultimately show ?thesis by blast
qed


subsection \<open>Deleting\<close>

lemma state_save_state: "state_save junk x = Some (b, x') \<Longrightarrow> as_state x' = as_state x"
  by (auto simp: state_save_def split: option.splits prod.splits bool.splits)

lemma get_state_state: "get_state rd x = Some (d, x') \<Longrightarrow> as_state x' = Some d"
  by (auto simp: get_state_def split: option.splits)

lemma merge_blank_last:
  assumes "ds_last_msgid n = -1" and "ds_last_message n = init_default" and "ds_del_up_to n = ds_del_up_to d"
  shows "\<exists>ch' d'. merge_state now n ch d = (True, ch', d') \<and> ds_last_msgid d' = -1 \<and> hm_msgid (ds_last_message d') = -1"
  using assms
  by (simp add: merge_state_def Let_def has_last_msgid_def has_msgid_def merge_counters_def set_last_msgid_def
      set_pinned_message_def set_last_message_def init_default_def copy_def)

text \<open>C17: After history was deleted up to an id, nothing of it is left: the index holds exactly the newer headers,
  and the state of the dialog names no last message that old, neither by its id nor as a message.\<close>

theorem deleting_leaves_nothing_older:
  assumes "index_inv (ca_index ca)" and "delete_messages_up_to junk rd local_now up_to ca = Some ca'"
  shows "map fst (ai_headers (ca_index ca')) = filter (\<lambda>i. up_to < i) (map fst (ai_headers (ca_index ca))) \<and>
    (\<exists>d. as_state (ca_state ca') = Some d \<and> (ds_last_msgid d \<le> 0 \<or> up_to < ds_last_msgid d) \<and>
      (hm_msgid (ds_last_message d) \<le> 0 \<or> up_to < hm_msgid (ds_last_message d)))"
proof -
  obtain d0 x where s: "get_state rd (ca_state ca) = Some (d0, x)"
    using assms(2) by (auto simp: delete_messages_up_to_def bind_eq_Some_conv)
  let ?d = "copy_from dlg_default d0" and ?n = "(clear_last_message (copy_from dlg_default d0))\<lparr>ds_last_msgid := -1\<rparr>"
  let ?old = "has_msgid (ds_last_message ?d) \<and> up_to \<ge> hm_msgid (ds_last_message ?d) \<or> has_last_msgid ?d \<and> up_to \<ge> ds_last_msgid ?d"
  obtain x' i where r: "ca' = ca\<lparr>ca_state := x', ca_index := i\<rparr>" "delete_up_to up_to (ca_index ca) = Some i"
    "(if ?old then map_option snd (set_state junk local_now ?n no_changes x) else Some x) = Some x'"
    using assms(2) s unfolding delete_messages_up_to_def Let_def by (auto simp only: bind_eq_Some_conv prod.case option.inject)
  have x: "as_state x = Some d0" using get_state_state [OF s] .
  have "\<exists>d. as_state x' = Some d \<and> (ds_last_msgid d \<le> 0 \<or> up_to < ds_last_msgid d) \<and>
      (hm_msgid (ds_last_message d) \<le> 0 \<or> up_to < hm_msgid (ds_last_message d))"
  proof (cases ?old)
    case True
    obtain ch d1 where m: "merge_state local_now ?n no_changes d0 = (True, ch, d1)" "ds_last_msgid d1 = -1"
      "hm_msgid (ds_last_message d1) = -1"
      using merge_blank_last [of ?n d0 local_now no_changes] by (auto simp: clear_last_message_def copy_from_def)
    from True r(3) obtain c where "set_state junk local_now ?n no_changes x = Some (c, x')" by auto
    with x m(1) obtain b where "state_save junk (x\<lparr>as_state := Some d1\<rparr>) = Some (b, x')"
      by (auto simp: set_state_def)
    from state_save_state [OF this] m(2,3) show ?thesis by simp
  next
    case False
    with r(3) x show ?thesis
      by (auto simp: copy_from_def copy_def has_msgid_def has_last_msgid_def split: if_splits)
  qed
  with r(1) delete_up_to_keys [OF assms(1) r(2)] show ?thesis by simp
qed


subsection \<open>Sending again\<close>

definition link_is_cut :: "int \<Rightarrow> history_message \<Rightarrow> bool" where
  "link_is_cut del_up_to m \<longleftrightarrow> has_prev_msgid m \<and> hm_prev m \<le> del_up_to"

definition quotes_named_chat :: "history_message \<Rightarrow> bool" where
  "quotes_named_chat m \<longleftrightarrow> hm_quotes m \<noteq> [] \<and> qu_chat_name (hd (hm_quotes m)) \<noteq> []"

lemma placed_member:
  assumes "m \<in> set ms"
  shows "\<exists>m' off sz. m' \<in> set (placed junk n ms) \<and> m' = m\<lparr>hm_data_offset := off, hm_data_size := sz\<rparr> \<and>
    off \<le> int (n + length (blocks_of junk ms))"
  using assms
proof (induction ms arbitrary: n)
  case (Cons a ms)
  show ?case
  proof (cases "m = a")
    case True
    then show ?thesis by (intro exI conjI) (simp_all add: Let_def, blast, simp)
  next
    case False
    with Cons obtain m' off sz where "m' \<in> set (placed junk (n + 16 + length (message_bytes junk a)) ms)"
      "m' = m\<lparr>hm_data_offset := off, hm_data_size := sz\<rparr>"
      "off \<le> int (n + 16 + length (message_bytes junk a) + length (blocks_of junk ms))" by force
    then show ?thesis by (intro exI [of _ m'] exI [of _ off] exI [of _ sz]) (simp add: Let_def blocks_of_def)
  qed
qed simp

lemma written_header:
  assumes "update_headers (map header_of_message ps) now x = Some (res, ins, x')"
    and "headers_ok (ai_headers x)" and "distinct (map (mh_id \<circ> header_of_message) ps)"
    and "\<forall>p\<in>set ps. get_header (mh_id (header_of_message p)) x = None" and "p \<in> set ps"
  shows "get_header (mh_id (header_of_message p)) x' = Some (header_of_message p)"
proof -
  let ?hs = "map header_of_message ps"
  obtain res1 y where "update_headers ?hs now x = Some (res1, fst (insert_headers ?hs now x), y)"
    "\<forall>i. get_header i y = get_header i (snd (insert_headers ?hs now x))"
    using update_headers_returns by blast
  with assms(1) have "get_header i x' = get_header i (snd (insert_headers ?hs now x))" for i by simp
  with insert_headers_fresh [OF assms(2), of ?hs now] find_distinct [of mh_id ?hs "header_of_message p"] assms(3-5)
  show ?thesis by simp
qed

lemma pv_greater_irrefl [simp]: "\<not> pv_greater v v"
  using pv_order.less_irrefl [OF pv_order.same_refl] by (simp add: pv_greater_def)

lemma skip_written:
  assumes "off \<noteq> i64_max"
  shows "skip_duplicate m (header_of_message ((unlink_deleted del m)\<lparr>hm_data_offset := off, hm_data_size := sz\<rparr>)) \<longleftrightarrow>
    \<not> link_is_cut del m \<and> \<not> quotes_named_chat m"
  using assms
  by (auto simp: skip_duplicate_def header_of_message_def mk_header_def unlink_deleted_def link_is_cut_def quotes_named_chat_def
      msg_is_patch_def is_patch_def is_message_data_valid_def has_prev_msgid_def has_shared_contact_with_sn_def
      has_poll_with_id_def has_reactions_def has_thread_def has_task_with_id_def)


lemma insert_data_known:
  assumes "\<forall>m\<in>set ms. del < hm_msgid m \<and> (\<exists>off sz. off \<noteq> i64_max \<and> get_header (hm_msgid m) x =
      Some (header_of_message ((unlink_deleted del m)\<lparr>hm_data_offset := off, hm_data_size := sz\<rparr>)))"
  shows "insert_data x del ms = map (unlink_deleted del) (filter (\<lambda>m. link_is_cut del m \<or> quotes_named_chat m) ms)"
  using assms
proof (induction ms)
  case (Cons m ms)
  then obtain off sz where h: "del < hm_msgid m" "off \<noteq> i64_max" "get_header (hm_msgid m) x =
      Some (header_of_message ((unlink_deleted del m)\<lparr>hm_data_offset := off, hm_data_size := sz\<rparr>))" by auto
  have u: "(if has_prev_msgid m \<and> hm_prev m \<le> del then m\<lparr>hm_prev := -1\<rparr> else m) = unlink_deleted del m"
    by (simp add: unlink_deleted_def)
  from Cons h show ?case by (simp only: insert_data.simps h(3) option.case skip_written [OF h(2)] u) simp
qed simp

text \<open>C30: When the server sends messages again that were just taken in, those that bring nothing new are skipped,
  with two exceptions that are written to the file every time they are sent: a message whose link was
  cut because it led to a deleted message (the index holds the cut link, so the message looks changed),
  and a message that quotes a chat with a name.\<close>

theorem resent_messages_written_again:
  assumes "get_state rd (ca_state ca) = Some (d, s)" and "headers_ok (ai_headers (ca_index ca))" and "can_use_file (ca_data ca)"
    and "\<forall>m\<in>set ms. get_header (hm_msgid m) (ca_index ca) = None \<and> ds_del_up_to d < hm_msgid m"
    and "distinct (map hm_msgid ms)" and "ms \<noteq> []"
    and "list_all (message_fits junk) (map (unlink_deleted (ds_del_up_to d)) ms)"
    and "length (blocks_of junk (map (unlink_deleted (ds_del_up_to d)) ms)) \<le> st_room (ca_data ca)"
    and "int (length (contents (ca_data ca)) + st_room (ca_data ca)) < 2 ^ 63 - 1"
    and "insert_history_block junk rd now ms inserted result from has_older ca = Some (inserted', d', res, ca1)"
  shows "insert_data (ca_index ca1) (ds_del_up_to d') ms =
    map (unlink_deleted (ds_del_up_to d)) (filter (\<lambda>m. link_is_cut (ds_del_up_to d) m \<or> quotes_named_chat m) ms)"
proof -
  let ?del = "ds_del_up_to d" let ?ms = "map (unlink_deleted ?del) ms" let ?n = "length (contents (ca_data ca))"
  let ?ps = "placed junk ?n ?ms"
  obtain st1 where u: "update junk ?ms (ca_data ca) = Some ((True, 0), ?ps, st1)"
    using update_spec [OF assms(3,7,8)] by blast
  have data: "insert_data (ca_index ca) ?del ms = ?ms" using assms(4) by (intro insert_data_fresh) simp
  have del: "ds_del_up_to (copy_from dlg_default d) = ?del" by (simp add: copy_from_def)
  from assms(1,6,10) data del obtain ins where
    "write_messages junk now ?ms inserted (ca\<lparr>ca_state := s\<rparr>) = Some (res, ins, ca1)" "d' = copy_from dlg_default d"
    by (auto simp: insert_history_block_def Let_def bind_eq_Some_conv)
  with u obtain x' where i: "update_headers (map header_of_message ?ps) now (ca_index ca) = Some (res, ins, x')"
    "ca_index ca1 = x'"
    by (auto simp: write_messages_def bind_eq_Some_conv)
  have "map (mh_id \<circ> header_of_message) ?ps = map hm_msgid ms" by (simp only: placed_ids list.map_comp) (simp add: comp_def)
  then have ids: "distinct (map (mh_id \<circ> header_of_message) ?ps)"
    "\<forall>p\<in>set ?ps. get_header (mh_id (header_of_message p)) (ca_index ca) = None"
    using assms(4,5) by (metis (no_types, lifting), metis (mono_tags, lifting) comp_apply image_eqI image_iff list.set_map)
  have "\<exists>off sz. off \<noteq> i64_max \<and> get_header (hm_msgid m) x' =
      Some (header_of_message ((unlink_deleted ?del m)\<lparr>hm_data_offset := off, hm_data_size := sz\<rparr>))" if "m \<in> set ms" for m
  proof -
    from placed_member [of "unlink_deleted ?del m" ?ms junk ?n] that obtain p off sz where p: "p \<in> set ?ps"
      "p = (unlink_deleted ?del m)\<lparr>hm_data_offset := off, hm_data_size := sz\<rparr>" "off \<le> int (?n + length (blocks_of junk ?ms))"
      by auto
    from p(3) assms(8,9) have "off \<noteq> i64_max" by (simp add: i64_max_def)
    moreover have "mh_id (header_of_message p) = hm_msgid m" by (simp add: p(2) header_of_message_def mk_header_def)
    ultimately show ?thesis using written_header [OF i(1) assms(2) ids p(1)] p(2) by auto
  qed
  with assms(4) have "insert_data x' ?del ms = map (unlink_deleted ?del) (filter (\<lambda>m. link_is_cut ?del m \<or> quotes_named_chat m) ms)"
    by (intro insert_data_known) blast
  with i(2) del \<open>d' = copy_from dlg_default d\<close> show ?thesis by simp
qed


subsection \<open>The properties on an archive\<close>

definition empty_archive :: "int \<Rightarrow> contact_archive" where
  "empty_archive del = \<lparr>ca_index = mk_index (mk_storage None) [], ca_data = mk_storage None,
     ca_state = \<lparr>as_state = Some (dlg_default\<lparr>ds_del_up_to := del\<rparr>), as_storage = mk_storage None\<rparr>,
     ca_draft = \<lparr>sto_draft = draft_default, sto_disk = good_disk\<rparr>, ca_loaded = True\<rparr>"

definition sample_archive :: contact_archive where
  "sample_archive = (empty_archive 4)\<lparr>ca_data := sample_file,
     ca_index := (mk_index (mk_storage None) [])\<lparr>ai_headers := [(7, sample_pointer)]\<rparr>\<rparr>"

lemma sample_pointer_simps [simp]: "mh_id sample_pointer = 7" "visible sample_pointer" "\<not> is_patch sample_pointer"
  by (simp_all add: sample_pointer_def header_of_message_def mk_header_def sample_message_def init_default_def
      visible_def is_patch_def is_deleted_def)

lemma sample_archive_simps [simp]:
  "ai_headers (ca_index sample_archive) = [(7, sample_pointer)]" "ca_data sample_archive = sample_file"
  "headers_ok [(7, sample_pointer)]"
  by (simp_all add: sample_archive_def headers_ok_def om_ok_def)

lemma sample_page: "visible_page (-1) 5 0 [(7, sample_pointer)] = [sample_pointer]"
  by (simp add: visible_page_def start_node_def take_last_def vis_def Let_def)

theorem page_of_headers_is_found_witness:
  "headers_loop 2 True (-1) 5 0 (ca_index sample_archive) = Some [sample_pointer]"
  using page_of_headers_is_found [of "ca_index sample_archive" 0 "-1" 5 0] sample_page by (simp add: numeral_2_eq_2)

theorem page_shows_the_messages_witness:
  "\<exists>st. contact_get_messages sample_reader 2 True (-1) 5 0 sample_archive = Some ([sample_message], sample_archive\<lparr>ca_data := st\<rparr>)"
  using page_shows_the_messages [of sample_archive sample_junk "[(sample_pointer, sample_message, [])]" "-1" 5 0 sample_reader 0]
    sample_file_ok shown_sample sample_page by (auto simp: numeral_2_eq_2)

lemma empty_archive_ok:
  "headers_ok (ai_headers (ca_index (empty_archive del)))" "can_use_file (ca_data (empty_archive del))"
  "get_state sample_reader (ca_state (empty_archive del)) = Some (dlg_default\<lparr>ds_del_up_to := del\<rparr>, ca_state (empty_archive del))"
  "get_header i (ca_index (empty_archive del)) = None" "contents (ca_data (empty_archive del)) = []"
  "st_room (ca_data (empty_archive del)) = 2 ^ 40"
  by (simp_all add: empty_archive_def mk_index_def get_state_def get_header_def om_find_def can_use_file_def mk_storage_def
      contents_def)

lemma unlink_sample: "unlink_deleted 4 sample_message = sample_message"
  "unlink_deleted 5 sample_message = sample_message\<lparr>hm_prev := -1\<rparr>"
  by (simp_all add: unlink_deleted_def has_prev_msgid_def sample_message_def init_default_def)

lemma sample_message_simps: "hm_msgid sample_message = 7" "\<not> msg_is_patch sample_message"
  by (simp_all add: sample_message_def init_default_def msg_is_patch_def)

lemma sample_cut_fits: "message_fits sample_junk (sample_message\<lparr>hm_prev := -1\<rparr>)"
proof -
  have "good_message (sample_message\<lparr>hm_prev := -1\<rparr>)"
    using good_sample(1) by (simp add: good_message_def)
  then show ?thesis
    by (simp add: message_fits_def message_bytes_def sample_message_def init_default_def pv_default_def quote_default_def
      task_default_def message_fields_def quote_serialize_def task_serialize_fields task_fields_def mention_serialize_def
      reactions_serialize_def sticker_serialize_def serialize_opt_def)
qed

lemma room_for_one: "message_fits sample_junk m \<Longrightarrow> length (blocks_of sample_junk [m]) \<le> 2 ^ 40"
  by (simp add: message_fits_def blocks_of_def)

theorem inserted_messages_are_read_back_witness:
  "\<exists>ins d res ca1 ca2. insert_history_block sample_junk sample_reader 0 [sample_message] [] (True, 0) (-1) False (empty_archive 4) =
      Some (ins, d, res, ca1) \<and>
    get_messages_buddies_from_ids sample_reader [7] [] [] ca1 = Some (True, [sample_message], [], ca2)"
  using inserted_messages_are_read_back [of sample_reader "empty_archive 4" "dlg_default\<lparr>ds_del_up_to := 4\<rparr>" "ca_state (empty_archive 4)"
      "[sample_message]" sample_junk "[]" 0 "[]" "(True, 0)" "-1" False]
    empty_archive_ok sample_fits room_for_one [OF sample_fits]
  by (simp add: unlink_sample sample_message_simps)

theorem resent_messages_written_again_witness:
  "\<exists>ins d res ca1. insert_history_block sample_junk sample_reader 0 [sample_message] [] (True, 0) (-1) False (empty_archive 5) =
      Some (ins, d, res, ca1) \<and>
    insert_data (ca_index ca1) (ds_del_up_to d) [sample_message] = [sample_message\<lparr>hm_prev := -1\<rparr>]"
proof -
  note ok = empty_archive_ok [where del = 5]
  obtain ins d res ca1 where i: "insert_history_block sample_junk sample_reader 0 [sample_message] [] (True, 0) (-1) False
      (empty_archive 5) = Some (ins, d, res, ca1)"
    using insert_then_read [of sample_reader "empty_archive 5" "dlg_default\<lparr>ds_del_up_to := 5\<rparr>" "ca_state (empty_archive 5)"
      "[sample_message]" sample_junk "[]" 0 "[]" "(True, 0)" "-1" False]
      ok sample_cut_fits room_for_one [OF sample_cut_fits]
    by (simp add: unlink_sample sample_message_simps) blast
  have "insert_data (ca_index ca1) (ds_del_up_to d) [sample_message] =
      map (unlink_deleted 5) (filter (\<lambda>m. link_is_cut 5 m \<or> quotes_named_chat m) [sample_message])"
    using resent_messages_written_again [OF ok(3,1,2) _ _ _ _ _ _ i]
      sample_cut_fits room_for_one [OF sample_cut_fits] ok
    by (simp add: unlink_sample sample_message_simps)
  moreover have "link_is_cut 5 sample_message"
    by (simp add: link_is_cut_def has_prev_msgid_def sample_message_def init_default_def)
  ultimately show ?thesis using i by (simp add: unlink_sample)
qed

theorem deleting_leaves_nothing_older_witness:
  "\<exists>ca'. delete_messages_up_to sample_junk sample_reader None 7 sample_archive = Some ca' \<and>
    ai_headers (ca_index ca') = []"
proof -
  have s: "get_state sample_reader (ca_state sample_archive) = Some (dlg_default\<lparr>ds_del_up_to := 4\<rparr>, ca_state sample_archive)"
    using empty_archive_ok(3) [where del = 4] by (simp add: sample_archive_def)
  have "index_inv (ca_index sample_archive)"
    by (simp add: index_inv_def) (simp add: sample_archive_def mk_index_def mk_storage_def)
  moreover obtain ca' where d: "delete_messages_up_to sample_junk sample_reader None 7 sample_archive = Some ca'"
  proof -
    have "\<exists>b i. save_all ((ca_index sample_archive)\<lparr>ai_headers := []\<rparr>) = Some (b, i)"
      by (auto simp: save_all_def split: prod.split bool.split)
    with s that show ?thesis
      by (fastforce simp: delete_messages_up_to_def copy_from_def copy_def dlg_default_def has_msgid_def has_last_msgid_def
          init_default_def delete_up_to_def om_lower_bound_def Let_def)
  qed
  ultimately have "map fst (ai_headers (ca_index ca')) = []"
    using deleting_leaves_nothing_older [of sample_archive sample_junk sample_reader None 7 ca'] by simp
  with d show ?thesis by simp
qed

theorem invalid_header_invalidates_the_request_witness:
  "\<exists>ms es ca'. get_messages_buddies_from_ids sample_reader [3, 7] [] []
      (sample_archive\<lparr>ca_index := (ca_index sample_archive)\<lparr>ai_headers :=
        [(3, invalidate_data_offset (set_id 3 sample_pointer)), (7, sample_pointer)]\<rparr>\<rparr>) = Some (True, ms, es, ca') \<and>
    is_message_data_valid sample_pointer \<and> spoilt 7 (ca_index ca')"
proof -
  let ?h = "invalidate_data_offset (set_id 3 sample_pointer)"
  let ?ca = "sample_archive\<lparr>ca_index := (ca_index sample_archive)\<lparr>ai_headers := [(3, ?h), (7, sample_pointer)]\<rparr>\<rparr>"
  have h: "mh_id ?h = 3" "\<not> is_patch ?h"
    by (simp_all add: set_id_def invalidate_data_offset_def is_patch_def)
      (simp add: sample_pointer_def header_of_message_def mk_header_def sample_message_def init_default_def)
  have "int (length (contents sample_file)) < 2 ^ 63 - 1"
    using room_for_one [OF sample_fits] by (simp add: sample_file_def contents_def mk_storage_def)
  with invalid_header_invalidates_the_request [of 3 ?ca ?h sample_reader "[7]"] h sample_file_ok(1,2)
  have "\<exists>es ca'. get_messages_buddies_from_ids sample_reader [3, 7] [] [] ?ca =
      Some (True, map make_fake_message (?h # headers_of_ids [7] (ca_index ?ca)), es, ca') \<and> spoilt 7 (ca_index ca')"
    by (simp add: get_header_def om_find_def headers_ok_def om_ok_def) blast
  moreover have "is_message_data_valid sample_pointer"
    by (simp add: is_message_data_valid_def i64_max_def sample_pointer_def header_of_message_def mk_header_def)
  ultimately show ?thesis by blast
qed

lemma message_nine_fits: "message_fits sample_junk (sample_message\<lparr>hm_msgid := 9\<rparr>)"
proof -
  have "good_message (sample_message\<lparr>hm_msgid := 9\<rparr>)"
    using good_sample(1) by (simp add: good_message_def i64_range_def)
  then show ?thesis
    by (simp add: message_fits_def message_bytes_def sample_message_def init_default_def pv_default_def quote_default_def
      task_default_def message_fields_def quote_serialize_def task_serialize_fields task_fields_def mention_serialize_def
      reactions_serialize_def sticker_serialize_def serialize_opt_def)
qed

lemma message_nine: "hm_msgid (sample_message\<lparr>hm_msgid := 9\<rparr>) = 9" "\<not> msg_is_patch (sample_message\<lparr>hm_msgid := 9\<rparr>)"
  "unlink_deleted 4 (sample_message\<lparr>hm_msgid := 9\<rparr>) = sample_message\<lparr>hm_msgid := 9\<rparr>"
  by (simp_all add: sample_message_def init_default_def msg_is_patch_def unlink_deleted_def has_prev_msgid_def)

lemma insert_nine:
  assumes "get_state sample_reader (ca_state ca) = Some (dlg_default\<lparr>ds_del_up_to := 4\<rparr>, s)" and "headers_ok (ai_headers (ca_index ca))"
    and "can_use_file (ca_data ca)" and "get_header 9 (ca_index ca) = None" and "2 ^ 30 \<le> st_room (ca_data ca)"
  shows "\<exists>ins d res ca1. insert_history_block sample_junk sample_reader 0 [sample_message\<lparr>hm_msgid := 9\<rparr>] [] (True, 0) (-1) False ca =
    Some (ins, d, res, ca1)"
proof -
  have "length (blocks_of sample_junk [sample_message\<lparr>hm_msgid := 9\<rparr>]) \<le> 2 ^ 30"
    using message_nine_fits by (simp add: message_fits_def blocks_of_def)
  then show ?thesis
    using insert_then_read [OF assms(1-3), of "[sample_message\<lparr>hm_msgid := 9\<rparr>]" sample_junk "[]" 0 "[]" "(True, 0)" "-1" False]
      message_nine message_nine_fits assms(4,5) by (simp add: message_nine) blast
qed

theorem contact_invariant_witness:
  "\<exists>ca. drop_history \<lparr>ca_index = mk_index (mk_storage None) [], ca_data = sample_file,
     ca_state = \<lparr>as_state = None, as_storage = mk_storage None\<rparr>,
     ca_draft = \<lparr>sto_draft = draft_default, sto_disk = good_disk\<rparr>, ca_loaded = False\<rparr> = Some ca \<and> index_inv (ca_index ca)"
proof -
  let ?ca = "\<lparr>ca_index = mk_index (mk_storage None) [], ca_data = sample_file,
     ca_state = \<lparr>as_state = None, as_storage = mk_storage None\<rparr>,
     ca_draft = \<lparr>sto_draft = draft_default, sto_disk = good_disk\<rparr>, ca_loaded = False\<rparr>"
  have "\<exists>b i. save_all (index_free (ca_index ?ca)) = Some (b, i)"
    by (auto simp: save_all_def mk_index_def index_free_def split: prod.split bool.split)
  then obtain ca where d: "drop_history ?ca = Some ca" by (auto simp: drop_history_def then_save_def)
  have "contact_reachable (mk_storage None) sample_file (mk_storage None) ca" by (rule reach_drop [OF reach_open d])
  from contact_invariant [OF this] d show ?thesis by (simp add: sample_file_def mk_storage_def)
qed

text \<open>Another message is taken in; the first one stays where it is.\<close>

theorem stored_messages_stay_witness:
  "\<exists>ins d res ca1. insert_history_block sample_junk sample_reader 0 [sample_message\<lparr>hm_msgid := 9\<rparr>] [] (True, 0) (-1) False sample_archive =
      Some (ins, d, res, ca1) \<and>
    all_stored sample_junk (contents (ca_data ca1)) (sample_pointer, sample_message, [])"
proof -
  have s: "get_state sample_reader (ca_state sample_archive) = Some (dlg_default\<lparr>ds_del_up_to := 4\<rparr>, ca_state sample_archive)"
    using empty_archive_ok(3) [where del = 4] by (simp add: sample_archive_def)
  have "headers_ok (ai_headers (ca_index sample_archive))" "can_use_file (ca_data sample_archive)"
    "get_header 9 (ca_index sample_archive) = None" "2 ^ 30 \<le> st_room (ca_data sample_archive)"
    using sample_file_ok(1) by (simp_all add: get_header_def om_find_def) (simp add: sample_file_def mk_storage_def)
  from insert_nine [OF s this] obtain ins d res ca1 where
    i: "insert_history_block sample_junk sample_reader 0 [sample_message\<lparr>hm_msgid := 9\<rparr>] [] (True, 0) (-1) False sample_archive =
      Some (ins, d, res, ca1)" by blast
  have ok: "contact_ok sample_archive"
    by (simp add: contact_ok_def index_inv_def)
      (simp add: sample_archive_def empty_archive_def mk_index_def sample_file_def mk_storage_def)
  have "all_stored sample_junk (contents (ca_data sample_archive)) (sample_pointer, sample_message, [])"
    using sample_file_ok by simp
  moreover have "contact_step\<^sup>*\<^sup>* sample_archive ca1" using step_insert [OF i] by (rule r_into_rtranclp)
  ultimately show ?thesis using stored_messages_stay [OF _ ok] i by blast
qed

end
