(* ===== verification/Text_Search.thy ===== *)
theory Text_Search
  imports Prelude "HOL-Library.Sublist" "HOL-Library.Monad_Syntax"
begin

unbundle bit_operations_syntax

text \<open>
  The search for a term in the text of a message (\<^verbatim>\<open>core/tools/strings.h\<close> and \<^verbatim>\<open>.cpp\<close>,
  \<^verbatim>\<open>core/archive/messages_data.cpp\<close>). The term is coded as a list of symbol numbers, each symbol with its
  lower and its upper form, and the text is searched character by character of its UTF-8 form by the
  method of Knuth, Morris and Pratt.

  A pointer is the memory it points into, a function from offsets to bytes: what lies behind the end of a
  string is part of it, because the code compares as many bytes as the character of the text has, whatever
  the length of the form it compares with. The case conversions are those of the platform; they are
  arguments.
\<close>

type_synonym memory = "nat \<Rightarrow> u8"

subsection \<open>Coding the term\<close>

definition utf8_char_size :: "u8 \<Rightarrow> nat" where
  "utf8_char_size b =
     (if b AND 0xE0 = 0xC0 then 2
      else if b AND 0xF0 = 0xE0 then 3
      else if b AND 0xF8 = 0xF0 then 4
      else if b AND 0xFC = 0xF8 then 5
      else if b AND 0xFE = 0xFC then 6
      else 1)"

definition slice_of :: "memory \<Rightarrow> nat \<Rightarrow> nat \<Rightarrow> bytes" where
  "slice_of mem i n = map mem [i..<i + n]"

text \<open>What \<^verbatim>\<open>c_str\<close> points to: the string, its terminator, and \<open>junk\<close> behind it.\<close>

definition c_memory :: "bytes \<Rightarrow> memory \<Rightarrow> memory" where
  "c_memory s junk i = (if i < length s then s ! i else if i = length s then 0 else junk i)"

record symbols =
  sy_last :: int
  sy_symbols :: bytes
  sy_indexes :: "nat list"
  sy_table :: "(bytes \<times> int) list"

definition no_symbols :: symbols where
  "no_symbols = \<lparr>sy_last = 0, sy_symbols = [], sy_indexes = [], sy_table = []\<rparr>"

definition get_char_index ::
  "(bytes \<Rightarrow> bytes) \<Rightarrow> (bytes \<Rightarrow> bytes) \<Rightarrow> memory \<Rightarrow> nat \<Rightarrow> symbols \<Rightarrow> int \<times> nat \<times> symbols" where
  "get_char_index to_lower to_upper mem i s =
     (let len = utf8_char_size (mem i);
          str = slice_of mem i len;
          lower = to_lower str; upper = to_upper str;
          lower = (if lower = [] \<or> lower = [0] then str else lower);
          s = s\<lparr>sy_indexes := sy_indexes s @ [length (sy_symbols s), length (sy_symbols s) + length lower],
                sy_symbols := sy_symbols s @ lower @ upper\<rparr>
      in case map_of (sy_table s) lower of
           Some n \<Rightarrow> (n, len, s)
         | None \<Rightarrow> (sy_last s + 1, len, s\<lparr>sy_last := sy_last s + 1, sy_table := sy_table s @ [(lower, sy_last s + 1)]\<rparr>))"

lemma utf8_char_size_pos [simp]: "0 < utf8_char_size b"
  by (simp add: utf8_char_size_def)

function convert_loop ::
  "(bytes \<Rightarrow> bytes) \<Rightarrow> (bytes \<Rightarrow> bytes) \<Rightarrow> memory \<Rightarrow> nat \<Rightarrow> nat \<Rightarrow> symbols \<Rightarrow> int list \<times> symbols" where
  "convert_loop to_lower to_upper mem n i s =
     (if i < n
      then case get_char_index to_lower to_upper mem i s of
             (k, len, s) \<Rightarrow> (case convert_loop to_lower to_upper mem n (i + len) s of (ks, s) \<Rightarrow> (k # ks, s))
      else ([], s))"
  by pat_completeness auto
termination
  by (relation "measure (\<lambda>(_, _, _, n, i, _). n - i)")
    (auto simp: get_char_index_def Let_def intro!: diff_less_mono2 split: option.splits)

declare convert_loop.simps [simp del]

definition convert_string_to_vector ::
  "(bytes \<Rightarrow> bytes) \<Rightarrow> (bytes \<Rightarrow> bytes) \<Rightarrow> memory \<Rightarrow> bytes \<Rightarrow> int list \<times> symbols" where
  "convert_string_to_vector to_lower to_upper junk str =
     convert_loop to_lower to_upper (c_memory str junk) (length str) 0 no_symbols"

subsection \<open>The search\<close>

text \<open>
  The inner loop of both functions below, where \<open>fits j\<close> is its condition: falling back along the table.
  A table that does not lead down would not end it; that is \<open>None\<close>.
\<close>

partial_function (option) fall_back :: "(nat \<Rightarrow> bool) \<Rightarrow> nat list \<Rightarrow> nat \<Rightarrow> nat option" where
  "fall_back fits pfx j = (if j > 0 \<and> \<not> fits j then fall_back fits pfx (pfx ! (j - 1)) else Some j)"

fun prefix_loop :: "'a list \<Rightarrow> nat list \<Rightarrow> nat list \<Rightarrow> nat list option" where
  "prefix_loop term [] pfx = Some pfx"
| "prefix_loop term (i # is) pfx = do {
     j \<leftarrow> fall_back (\<lambda>j. term ! j = term ! i) pfx (pfx ! (i - 1));
     prefix_loop term is (pfx[i := (if term ! j = term ! i then j + 1 else j)])
   }"

definition build_prefix :: "'a list \<Rightarrow> nat list option" where
  "build_prefix term = prefix_loop term [1..<length term] (replicate (length term) 0)"

text \<open>\<^verbatim>\<open>memcmp\<close> of \<open>l\<close> bytes (and the comparison of one byte by itself).\<close>

definition is_equal :: "memory \<Rightarrow> nat \<Rightarrow> memory \<Rightarrow> nat \<Rightarrow> nat \<Rightarrow> bool" where
  "is_equal str1 a str2 b l = (slice_of str1 a l = slice_of str2 b l)"

definition symbol_fits :: "memory \<Rightarrow> nat list \<Rightarrow> memory \<Rightarrow> nat \<Rightarrow> nat \<Rightarrow> nat \<Rightarrow> bool" where
  "symbol_fits symbs indexes str i len j \<longleftrightarrow>
     is_equal symbs (indexes ! (2 * j)) str i len \<or> is_equal symbs (indexes ! (2 * j + 1)) str i len"

function kmp_loop ::
  "memory \<Rightarrow> nat \<Rightarrow> 'a list \<Rightarrow> nat list \<Rightarrow> memory \<Rightarrow> nat list \<Rightarrow> nat \<Rightarrow> nat \<Rightarrow> int option" where
  "kmp_loop str sz term pfx symbs indexes i j =
     (if i < sz
      then let len = utf8_char_size (str i); fits = symbol_fits symbs indexes str i len
           in case fall_back fits pfx j of
                None \<Rightarrow> None
              | Some j \<Rightarrow>
                  let j = (if fits j then j + 1 else j)
                  in if j = length term then Some (int i - int j + 1)
                     else kmp_loop str sz term pfx symbs indexes (i + len) j
      else Some (-1))"
  by pat_completeness auto
termination
  by (relation "measure (\<lambda>(_, sz, _, _, _, _, i, _). sz - i)") (auto intro!: diff_less_mono2)

declare kmp_loop.simps [simp del]

definition kmp_strstr ::
  "memory option \<Rightarrow> nat \<Rightarrow> 'a list \<Rightarrow> nat list \<Rightarrow> memory \<Rightarrow> nat list \<Rightarrow> int option" where
  "kmp_strstr str sz term pfx symbs indexes =
     (case str of None \<Rightarrow> Some (-1) | Some str \<Rightarrow> kmp_loop str sz term pfx symbs indexes 0 0)"

subsection \<open>Overlaps\<close>

text \<open>\<open>best p w j\<close>: \<open>j\<close> is how much of the pattern \<open>p\<close> is matched at the end of \<open>w\<close>.\<close>

definition best :: "'a list \<Rightarrow> 'a list \<Rightarrow> nat \<Rightarrow> bool" where
  "best p w j \<longleftrightarrow> j \<le> length p \<and> suffix (take j p) w \<and> (\<forall>k\<le>length p. suffix (take k p) w \<longrightarrow> k \<le> j)"

text \<open>A table that is right for the first \<open>n\<close> entries: the entry of a prefix of the pattern is its longest proper border.\<close>

definition border_table :: "'a list \<Rightarrow> nat list \<Rightarrow> nat \<Rightarrow> bool" where
  "border_table p pfx n \<longleftrightarrow> (\<forall>k. 0 < k \<and> k \<le> n \<longrightarrow> best p (tl (take k p)) (pfx ! (k - 1)))"

lemma suffix_of_suffix: "suffix a w \<Longrightarrow> suffix b w \<Longrightarrow> length a \<le> length b \<Longrightarrow> suffix a b"
  by (rule suffix_length_suffix)

lemma suffix_take_snoc: "suffix (take (Suc k) p) (w @ [c]) \<longleftrightarrow> suffix (take k p) w \<and> p ! k = c" if "k < length p"
  using that by (auto simp: take_Suc_conv_app_nth)

lemma fall_back_best:
  assumes table: "border_table p pfx j" and "j < length p" and "suffix (take j p) w"
    and "\<And>k. k < length p \<Longrightarrow> suffix (take k p) w \<Longrightarrow> p ! k = c \<Longrightarrow> k \<le> j"
  shows "\<exists>j'. fall_back (\<lambda>j. p ! j = c) pfx j = Some j' \<and> j' \<le> j \<and> suffix (take j' p) w \<and> (j' = 0 \<or> p ! j' = c) \<and>
    (\<forall>k<length p. suffix (take k p) w \<longrightarrow> p ! k = c \<longrightarrow> k \<le> j')"
  using assms
proof (induction j rule: less_induct)
  case (less j)
  show ?case
  proof (cases "j > 0 \<and> p ! j \<noteq> c")
    case False
    then have "fall_back (\<lambda>j. p ! j = c) pfx j = Some j" by (subst fall_back.simps) auto
    with False less.prems show ?thesis by auto
  next
    case True
    let ?b = "pfx ! (j - 1)"
    have b: "best p (tl (take j p)) ?b" using less.prems(1) True by (simp add: border_table_def)
    then have "length (take ?b p) \<le> length (tl (take j p))" unfolding best_def by (blast dest: suffix_length_le)
    with b True less.prems(2) have lt: "?b < j" by (auto simp: best_def)
    have "suffix (tl (take j p)) (take j p)" by (simp add: suffix_tl)
    with b less.prems(3) have s: "suffix (take ?b p) w" unfolding best_def using suffix_order.trans by blast
    have le: "k \<le> ?b" if k: "k < length p" "suffix (take k p) w" "p ! k = c" for k
    proof -
      have "k \<le> j" "k \<noteq> j" using less.prems(4) [OF k] k(3) True by auto
      then have "k < j" by simp
      have s': "suffix (take k p) (take j p)"
        using suffix_of_suffix [OF k(2) less.prems(3)] \<open>k < j\<close> less.prems(2) by simp
      then have "suffix (take k p) (tl (take j p))"
      proof (cases "take j p")
        case (Cons a xs)
        have "length (take k p) < length (take j p)" using \<open>k < j\<close> less.prems(2) by simp
        with s' Cons show ?thesis by (auto simp only: suffix_Cons list.sel)
      qed (use \<open>k < j\<close> less.prems(2) in auto)
      with b k(1) show ?thesis by (simp add: best_def)
    qed
    have "border_table p pfx ?b" using less.prems(1) lt by (simp add: border_table_def)
    moreover have "?b < length p" using lt less.prems(2) by simp
    ultimately obtain j' where
      "fall_back (\<lambda>j. p ! j = c) pfx ?b = Some j'" "j' \<le> ?b" "suffix (take j' p) w" "j' = 0 \<or> p ! j' = c"
      "\<forall>k<length p. suffix (take k p) w \<longrightarrow> p ! k = c \<longrightarrow> k \<le> j'" using less.IH [OF lt _ _ s le] by blast
    moreover from this(1) have "fall_back (\<lambda>j. p ! j = c) pfx j = Some j'"
      using True by (subst fall_back.simps) simp
    ultimately show ?thesis using lt by auto
  qed
qed

text \<open>One character more.\<close>

lemma step_best:
  assumes "border_table p pfx j" and "j < length p" and "best p w j"
  shows "\<exists>j'. fall_back (\<lambda>j. p ! j = c) pfx j = Some j' \<and> j' \<le> j \<and> best p (w @ [c]) (if p ! j' = c then j' + 1 else j')"
proof -
  obtain j' where j': "fall_back (\<lambda>j. p ! j = c) pfx j = Some j'" "j' \<le> j" "suffix (take j' p) w" "j' = 0 \<or> p ! j' = c"
    "\<forall>k<length p. suffix (take k p) w \<longrightarrow> p ! k = c \<longrightarrow> k \<le> j'"
    using fall_back_best [OF assms(1,2), of w c] assms(3) by (auto simp: best_def)
  have "k \<le> (if p ! j' = c then j' + 1 else j')" if "k \<le> length p" "suffix (take k p) (w @ [c])" for k
  proof (cases k)
    case (Suc m)
    with that suffix_take_snoc [of m p w c] have "m < length p" "suffix (take m p) w" "p ! m = c"
      by (simp_all del: suffix_snoc)
    with j'(5) have "p ! m = c \<and> m \<le> j'" by blast
    with Suc j'(4) show ?thesis by auto
  qed simp
  moreover have "suffix (take (if p ! j' = c then j' + 1 else j') p) (w @ [c])"
    using j'(2-4) assms(2) suffix_take_snoc [of j' p w c] by auto
  ultimately show ?thesis using j'(1,2) assms(2) unfolding best_def by (intro exI [of _ j']) auto
qed


subsection \<open>The table is right\<close>

lemma take_tl_snoc: "0 < i \<Longrightarrow> i < length p \<Longrightarrow> tl (take (Suc i) p) = tl (take i p) @ [p ! i]"
  by (simp add: take_Suc_conv_app_nth) (subst tl_append2, auto)

lemma best_length: "best p w j \<Longrightarrow> j \<le> length w"
  unfolding best_def using suffix_length_le by fastforce

lemma prefix_loop_borders:
  assumes "0 < i" and "i \<le> length p" and "length pfx = length p" and "border_table p pfx i"
  shows "\<exists>r. prefix_loop p [i..<length p] pfx = Some r \<and> length r = length p \<and> border_table p r (length p)"
  using assms
proof (induction "length p - i" arbitrary: i pfx)
  case (Suc n)
  then have i: "i < length p" by simp
  let ?w = "tl (take i p)" and ?j = "pfx ! (i - 1)"
  have b: "best p ?w ?j" using Suc.prems(1,4) by (simp add: border_table_def)
  have j: "?j < i" using best_length [OF b] Suc.prems(1) i by simp
  have "border_table p pfx ?j" using Suc.prems(4) j by (simp add: border_table_def)
  from step_best [OF this _ b, of "p ! i"] j i obtain j' where
    f: "fall_back (\<lambda>j. p ! j = p ! i) pfx ?j = Some j'" "best p (?w @ [p ! i]) (if p ! j' = p ! i then j' + 1 else j')"
    by auto
  let ?pfx = "pfx[i := (if p ! j' = p ! i then j' + 1 else j')]"
  have "border_table p ?pfx (Suc i)"
    using Suc.prems(3,4) f(2) i take_tl_snoc [OF Suc.prems(1) i]
    by (auto simp: border_table_def nth_list_update le_Suc_eq)
  moreover have "n = length p - Suc i" using Suc.hyps(2) by linarith
  ultimately obtain r where
    "prefix_loop p [Suc i..<length p] ?pfx = Some r" "length r = length p" "border_table p r (length p)"
    using Suc.hyps(1) [of "Suc i" ?pfx] Suc.prems(3) i by auto
  with f(1) show ?case by (simp add: upt_conv_Cons [OF i] cong: option.case_cong)
qed simp

lemma build_prefix_table: "\<exists>r. build_prefix p = Some r \<and> length r = length p \<and> border_table p r (length p)"
proof (cases "p = []")
  case False
  have "border_table p (replicate (length p) 0) 1"
    using False by (auto simp: border_table_def best_def le_Suc_eq take_Suc)
  with prefix_loop_borders [of 1 p "replicate (length p) 0"] False show ?thesis
    by (simp add: build_prefix_def Suc_le_eq)
qed (simp add: build_prefix_def border_table_def)

lemma best_map:
  assumes "best p w j"
  shows "best (map Some p) (map Some w) j"
proof -
  have "suffix (map Some a) (map Some b) \<longleftrightarrow> suffix a b" for a b :: "'a list"
    by (auto simp: suffix_def map_eq_append_conv inj_map_eq_map)
  then show ?thesis using assms by (simp add: best_def take_map)
qed

lemma border_table_map: "border_table p pfx n \<Longrightarrow> border_table (map Some p) pfx n"
  using best_map by (fastforce simp: border_table_def take_map map_tl)

subsection \<open>The text is searched\<close>

text \<open>The characters the search sees in \<open>sz\<close> bytes; the last one may reach behind them.\<close>

function chars :: "memory \<Rightarrow> nat \<Rightarrow> nat \<Rightarrow> bytes list" where
  "chars str sz i =
     (if i < sz then let len = utf8_char_size (str i) in slice_of str i len # chars str sz (i + len) else [])"
  by pat_completeness auto
termination
  by (relation "measure (\<lambda>(_, sz, i). sz - i)") (auto intro!: diff_less_mono2)

declare chars.simps [simp del]

definition codes :: "(bytes \<Rightarrow> 'a option) \<Rightarrow> 'a list \<Rightarrow> memory \<Rightarrow> nat list \<Rightarrow> memory \<Rightarrow> bool" where
  "codes code term symbs indexes str \<longleftrightarrow> (\<forall>i j. j < length term \<longrightarrow>
     symbol_fits symbs indexes str i (utf8_char_size (str i)) j =
       (code (slice_of str i (utf8_char_size (str i))) = Some (term ! j)))"

lemma fall_back_cong:
  assumes "border_table p pfx j" and "j < length p" and "\<And>k. k < length p \<Longrightarrow> f k = g k"
  shows "fall_back f pfx j = fall_back g pfx j"
  using assms(1,2)
proof (induction j rule: less_induct)
  case (less j)
  show ?case
  proof (cases "j > 0 \<and> \<not> g j")
    case True
    have b: "best p (tl (take j p)) (pfx ! (j - 1))" using less.prems(1) True by (simp add: border_table_def)
    have lt: "pfx ! (j - 1) < j" using best_length [OF b] True less.prems(2) by (simp, linarith)
    moreover have "border_table p pfx (pfx ! (j - 1))" using less.prems(1) lt by (simp add: border_table_def)
    ultimately have "fall_back f pfx (pfx ! (j - 1)) = fall_back g pfx (pfx ! (j - 1))"
      using less.IH less.prems(2) by simp
    with True assms(3) [OF less.prems(2)] show ?thesis by (subst (1 2) fall_back.simps) simp
  next
    case False
    with assms(3) [OF less.prems(2)] show ?thesis by (subst (1 2) fall_back.simps) auto
  qed
qed

lemma one_more_char:
  "(\<exists>k>0. k \<le> length (x # xs) \<and> suffix p (w @ take k (map f (x # xs)))) \<longleftrightarrow>
    suffix p (w @ [f x]) \<or> (\<exists>k>0. k \<le> length xs \<and> suffix p ((w @ [f x]) @ take k (map f xs)))"
  (is "?l \<longleftrightarrow> ?r")
proof
  assume ?l
  then obtain k where k: "k \<le> length xs" "suffix p (w @ f x # take k (map f xs))"
    by (metis Suc_le_mono gr0_conv_Suc length_Cons list.simps(9) take_Suc_Cons)
  then show ?r by (cases k) auto
next
  assume ?r
  then show ?l
  proof
    assume "suffix p (w @ [f x])"
    then show ?l by (intro exI [of _ 1]) simp
  next
    assume "\<exists>k>0. k \<le> length xs \<and> suffix p ((w @ [f x]) @ take k (map f xs))"
    then obtain k where "k \<le> length xs" "suffix p ((w @ [f x]) @ take k (map f xs))" by blast
    then show ?l by (intro exI [of _ "Suc k"]) simp
  qed
qed

lemma kmp_loop_finds:
  assumes "codes code term symbs indexes str" and table: "border_table term pfx (length term)"
    and "best (map Some term) w j" and "j < length term" and "length w \<le> i"
  shows "\<exists>r. kmp_loop str sz term pfx symbs indexes i j = Some r \<and>
    (r \<noteq> -1 \<longleftrightarrow> (\<exists>k>0. k \<le> length (chars str sz i) \<and> suffix (map Some term) (w @ take k (map code (chars str sz i)))))"
  using assms(3-5)
proof (induction "sz - i" arbitrary: i j w rule: less_induct)
  case less
  show ?case
  proof (cases "i < sz")
    case False
    then show ?thesis by (subst kmp_loop.simps, subst (1 2) chars.simps) simp
  next
    case True
    let ?p = "map Some term" and ?len = "utf8_char_size (str i)" let ?c = "code (slice_of str i ?len)"
    let ?fits = "symbol_fits symbs indexes str i ?len"
    have fits: "?fits k \<longleftrightarrow> ?p ! k = ?c" if "k < length ?p" for k
      using assms(1) that by (auto simp: codes_def)
    have tab: "border_table ?p pfx j"
      using border_table_map [OF table] less.prems(2) by (simp add: border_table_def)
    from step_best [OF this _ less.prems(1), of ?c] less.prems(2) obtain j' where
      f: "fall_back (\<lambda>j. ?p ! j = ?c) pfx j = Some j'" "j' \<le> j" "best ?p (w @ [?c]) (if ?p ! j' = ?c then j' + 1 else j')"
      by auto
    let ?j = "if ?fits j' then j' + 1 else j'"
    have fb: "fall_back ?fits pfx j = Some j'"
      using fall_back_cong [OF tab _ fits] less.prems(2) f(1) by simp
    have b: "best ?p (w @ [?c]) ?j" using f(2,3) fits [of j'] less.prems(2) by simp
    have chs: "chars str sz i = slice_of str i ?len # chars str sz (i + ?len)"
      using True by (subst chars.simps) (simp add: Let_def)
    show ?thesis
    proof (cases "?j = length term")
      case found: True
      have "kmp_loop str sz term pfx symbs indexes i j = Some (int i - int ?j + 1)"
        using True fb found by (subst kmp_loop.simps) (simp add: Let_def)
      moreover have "int i - int ?j + 1 \<noteq> -1" using best_length [OF b] less.prems(3) by simp
      moreover have "suffix ?p (w @ take 1 (map code (chars str sz i)))" using b found chs by (simp add: best_def)
      ultimately show ?thesis using chs by fastforce
    next
      case go: False
      have lt: "?j < length term" using go b by (auto simp: best_def)
      have len: "length (w @ [?c]) \<le> i + ?len" using less.prems(3) utf8_char_size_pos [of "str i"] by (simp only: length_append list.size)
      have "sz - (i + ?len) < sz - i" using True utf8_char_size_pos [of "str i"] by linarith
      from less.hyps [OF this b lt len] obtain r where r: "kmp_loop str sz term pfx symbs indexes (i + ?len) ?j = Some r"
        "r \<noteq> -1 \<longleftrightarrow> (\<exists>k>0. k \<le> length (chars str sz (i + ?len)) \<and>
          suffix ?p ((w @ [?c]) @ take k (map code (chars str sz (i + ?len)))))" by blast
      have "kmp_loop str sz term pfx symbs indexes i j = Some r"
        using True fb go r(1) by (subst kmp_loop.simps) (simp add: Let_def)
      moreover have "\<not> suffix ?p (w @ [?c])"
      proof
        assume "suffix ?p (w @ [?c])"
        then have "length ?p \<le> ?j" using b unfolding best_def by (metis le_refl take_all)
        with lt show False by simp
      qed
      ultimately show ?thesis using r(2) one_more_char [of "slice_of str i ?len" "chars str sz (i + ?len)" ?p w code]
        unfolding chs by blast
    qed
  qed
qed


subsection \<open>The coded term\<close>

definition lower_form :: "(bytes \<Rightarrow> bytes) \<Rightarrow> bytes \<Rightarrow> bytes" where
  "lower_form to_lower c = (if to_lower c = [] \<or> to_lower c = [0] then c else to_lower c)"

text \<open>One character in UTF-8: as many bytes as the first one says.\<close>

definition one_char :: "bytes \<Rightarrow> bool" where
  "one_char c \<longleftrightarrow> c \<noteq> [] \<and> utf8_char_size (hd c) = length c"

text \<open>
  What is asked of the case conversions, for the characters of the term: a form is one character, and the
  forms tell the characters apart that the table of symbols tells apart, and no others.
\<close>

definition folds_well :: "(bytes \<Rightarrow> bytes) \<Rightarrow> (bytes \<Rightarrow> bytes) \<Rightarrow> bytes list \<Rightarrow> bool" where
  "folds_well to_lower to_upper cs \<longleftrightarrow>
     list_all (\<lambda>c. one_char (lower_form to_lower c) \<and> one_char (to_upper c)) cs \<and>
     list_all (\<lambda>a. list_all (\<lambda>b.
       (lower_form to_lower a = lower_form to_lower b) = (to_upper a = to_upper b) \<and>
       (lower_form to_lower a = to_upper b \<longrightarrow> lower_form to_lower a = lower_form to_lower b)) cs) cs"

text \<open>\<open>coded\<close>: what the loop has put into the tables for the characters \<open>cs\<close>.\<close>

definition coded :: "(bytes \<Rightarrow> bytes) \<Rightarrow> (bytes \<Rightarrow> bytes) \<Rightarrow> bytes list \<Rightarrow> int list \<Rightarrow> symbols \<Rightarrow> bool" where
  "coded to_lower to_upper cs ks s \<longleftrightarrow> length ks = length cs \<and> length (sy_indexes s) = 2 * length cs \<and>
     (\<forall>j<length cs. prefix (lower_form to_lower (cs ! j)) (drop (sy_indexes s ! (2 * j)) (sy_symbols s)) \<and>
       prefix (to_upper (cs ! j)) (drop (sy_indexes s ! (2 * j + 1)) (sy_symbols s)) \<and>
       sy_indexes s ! (2 * j) \<le> length (sy_symbols s) \<and> sy_indexes s ! (2 * j + 1) \<le> length (sy_symbols s) \<and>
       map_of (sy_table s) (lower_form to_lower (cs ! j)) = Some (ks ! j)) \<and>
     inj_on (\<lambda>x. the (map_of (sy_table s) x)) (dom (map_of (sy_table s))) \<and>
     (\<forall>n\<in>ran (map_of (sy_table s)). n \<le> sy_last s)"

lemma coded_step:
  assumes "coded to_lower to_upper cs ks s" and "get_char_index to_lower to_upper mem i s = (k, len, s')"
  shows "len = utf8_char_size (mem i) \<and> coded to_lower to_upper (cs @ [slice_of mem i len]) (ks @ [k]) s'"
proof -
  let ?c = "slice_of mem i (utf8_char_size (mem i))" let ?l = "lower_form to_lower ?c"
  let ?n = "length (sy_symbols s)"
  let ?s1 = "s\<lparr>sy_indexes := sy_indexes s @ [?n, ?n + length ?l], sy_symbols := sy_symbols s @ ?l @ to_upper ?c\<rparr>"
  have l: "(if to_lower ?c = [] \<or> to_lower ?c = [0] then ?c else to_lower ?c) = ?l" by (simp add: lower_form_def)
  have r: "len = utf8_char_size (mem i)"
    "(k, s') = (case map_of (sy_table s) ?l of Some n \<Rightarrow> (n, ?s1)
      | None \<Rightarrow> (sy_last s + 1, ?s1\<lparr>sy_last := sy_last s + 1, sy_table := sy_table s @ [(?l, sy_last s + 1)]\<rparr>))"
    using assms(2) unfolding get_char_index_def Let_def l by (auto split: option.splits)
  have old: "length ks = length cs" "length (sy_indexes s) = 2 * length cs"
    "\<And>j. j < length cs \<Longrightarrow> prefix (lower_form to_lower (cs ! j)) (drop (sy_indexes s ! (2 * j)) (sy_symbols s))"
    "\<And>j. j < length cs \<Longrightarrow> prefix (to_upper (cs ! j)) (drop (sy_indexes s ! (2 * j + 1)) (sy_symbols s))"
    "\<And>j. j < length cs \<Longrightarrow> sy_indexes s ! (2 * j) \<le> ?n \<and> sy_indexes s ! (2 * j + 1) \<le> ?n"
    "\<And>j. j < length cs \<Longrightarrow> map_of (sy_table s) (lower_form to_lower (cs ! j)) = Some (ks ! j)"
    "inj_on (\<lambda>x. the (map_of (sy_table s) x)) (dom (map_of (sy_table s)))" "\<forall>n\<in>ran (map_of (sy_table s)). n \<le> sy_last s"
    using assms(1) by (simp_all add: coded_def)
  have ix: "(sy_indexes s @ [?n, ?n + length ?l]) ! (2 * length cs) = ?n"
    "(sy_indexes s @ [?n, ?n + length ?l]) ! (2 * length cs + 1) = ?n + length ?l"
    using old(2) by (simp_all add: nth_append)
  have table: "map_of (sy_table s') ?l = Some k \<and> (\<forall>x n. map_of (sy_table s) x = Some n \<longrightarrow> map_of (sy_table s') x = Some n) \<and>
      inj_on (\<lambda>x. the (map_of (sy_table s') x)) (dom (map_of (sy_table s'))) \<and> (\<forall>n\<in>ran (map_of (sy_table s')). n \<le> sy_last s')"
  proof (cases "map_of (sy_table s) ?l")
    case (Some n)
    with r(2) old(7,8) show ?thesis by simp
  next
    case None
    then have s': "k = sy_last s + 1" "sy_last s' = sy_last s + 1" "sy_table s' = sy_table s @ [(?l, sy_last s + 1)]"
      using r(2) by simp_all
    have m: "map_of (sy_table s') = (map_of (sy_table s))(?l \<mapsto> sy_last s + 1)"
      using None by (auto simp: s'(3) map_add_def fun_eq_iff split: option.split)
    have lt: "n < sy_last s + 1" if "map_of (sy_table s) x = Some n" for x n
      using old(8) that by (auto intro: ranI)
    have "inj_on (\<lambda>x. the (((map_of (sy_table s))(?l \<mapsto> sy_last s + 1)) x)) (insert ?l (dom (map_of (sy_table s))))"
      using old(7) None by (auto simp: inj_on_def dest: lt)
    moreover have "\<forall>n\<in>ran ((map_of (sy_table s))(?l \<mapsto> sy_last s + 1)). n \<le> sy_last s + 1"
      using old(8) None by (auto simp: ran_map_upd)
    ultimately show ?thesis using None s' m by simp
  qed
  have sym: "sy_indexes s' = sy_indexes s @ [?n, ?n + length ?l]" "sy_symbols s' = sy_symbols s @ ?l @ to_upper ?c"
    using r(2) by (auto split: option.splits)
  have "coded to_lower to_upper (cs @ [?c]) (ks @ [k]) s'"
    unfolding coded_def sym
  proof (intro conjI allI impI)
    show "length (ks @ [k]) = length (cs @ [?c])" "length (sy_indexes s @ [?n, ?n + length ?l]) = 2 * length (cs @ [?c])"
      using old(1,2) by simp_all
    fix j assume j: "j < length (cs @ [?c])"
    show "prefix (lower_form to_lower ((cs @ [?c]) ! j))
        (drop ((sy_indexes s @ [?n, ?n + length ?l]) ! (2 * j)) (sy_symbols s @ ?l @ to_upper ?c))"
      "prefix (to_upper ((cs @ [?c]) ! j))
        (drop ((sy_indexes s @ [?n, ?n + length ?l]) ! (2 * j + 1)) (sy_symbols s @ ?l @ to_upper ?c))"
      "(sy_indexes s @ [?n, ?n + length ?l]) ! (2 * j) \<le> length (sy_symbols s @ ?l @ to_upper ?c)"
      "(sy_indexes s @ [?n, ?n + length ?l]) ! (2 * j + 1) \<le> length (sy_symbols s @ ?l @ to_upper ?c)"
      "map_of (sy_table s') (lower_form to_lower ((cs @ [?c]) ! j)) = Some ((ks @ [k]) ! j)"
      using j old(1,2) old(3-6) [of j] ix table
      by (cases "j < length cs"; force simp: nth_append less_Suc_eq intro: prefix_append)+
  qed (use table in auto)
  with r(1) show ?thesis by simp
qed


lemma coded_loop:
  assumes "coded to_lower to_upper cs ks s" and "convert_loop to_lower to_upper mem n i s = (ks', s')"
  shows "coded to_lower to_upper (cs @ chars mem n i) (ks @ ks') s'"
  using assms
proof (induction "n - i" arbitrary: i cs ks s ks' rule: less_induct)
  case less
  show ?case
  proof (cases "i < n")
    case False
    with less.prems show ?thesis by (simp add: convert_loop.simps chars.simps)
  next
    case True
    obtain k len s1 where g: "get_char_index to_lower to_upper mem i s = (k, len, s1)" by (metis prod_cases3)
    obtain ks1 s2 where c: "convert_loop to_lower to_upper mem n (i + len) s1 = (ks1, s2)" by (metis surj_pair)
    from less.prems(2) True g c have r: "ks' = k # ks1" "s' = s2" by (simp_all add: convert_loop.simps [of _ _ _ _ i])
    have st: "len = utf8_char_size (mem i)" "coded to_lower to_upper (cs @ [slice_of mem i len]) (ks @ [k]) s1"
      using coded_step [OF less.prems(1) g] by blast+
    then have "n - (i + len) < n - i" using True utf8_char_size_pos [of "mem i"] by linarith
    from less.hyps [OF this st(2) c [folded r(2)]] show ?thesis
      using True st(1) r by (simp add: chars.simps [of _ _ i] Let_def)
  qed
qed

lemma coded_string:
  "convert_string_to_vector to_lower to_upper junk term = (ks, s) \<Longrightarrow>
    coded to_lower to_upper (chars (c_memory term junk) (length term) 0) ks s"
  using coded_loop [of to_lower to_upper "[]" "[]" no_symbols]
  by (simp add: convert_string_to_vector_def coded_def no_symbols_def)

text \<open>
  A form is compared with as many bytes as the character of the text has; being one character itself, it
  agrees with them only when it is that character, whatever lies behind it.
\<close>

lemma same_char:
  assumes form: "prefix c (drop k symbs)" "k \<le> length symbs" "one_char c"
  shows "is_equal (c_memory symbs junk) k str i (utf8_char_size (str i)) \<longleftrightarrow> slice_of str i (utf8_char_size (str i)) = c"
proof -
  let ?mem = "c_memory symbs junk" and ?n = "utf8_char_size (str i)"
  obtain zs where zs: "drop k symbs = c @ zs" using form(1) by (auto simp: prefix_def)
  have c: "c \<noteq> []" "utf8_char_size (hd c) = length c" using form(3) by (simp_all add: one_char_def)
  have at: "k + m < length symbs \<and> symbs ! (k + m) = c ! m" if "m < length c" for m
  proof -
    have "length c \<le> length symbs - k" using arg_cong [OF zs, of length] by simp
    moreover have "drop k symbs ! m = c ! m" using that zs by (simp add: nth_append)
    ultimately show ?thesis using that form(2) by auto
  qed
  have whole: "slice_of ?mem k (length c) = c"
    using at by (intro nth_equalityI) (auto simp: slice_of_def c_memory_def)
  have hd_slice: "hd (slice_of m j l) = m j" if "0 < l" for m j l
    using that by (simp add: slice_of_def upt_conv_Cons)
  have first: "?mem k = hd c" using whole hd_slice [of "length c" ?mem k] c(1) by simp
  show ?thesis
  proof
    assume "is_equal ?mem k str i ?n"
    then have eq: "slice_of ?mem k ?n = slice_of str i ?n" by (simp add: is_equal_def)
    then have "hd c = str i" using hd_slice [of ?n] first utf8_char_size_pos by metis
    with c(2) have "?n = length c" by simp
    with eq whole show "slice_of str i ?n = c" by simp
  next
    assume eq: "slice_of str i ?n = c"
    then have "length c = ?n" by (auto simp: slice_of_def)
    with whole eq show "is_equal ?mem k str i ?n" by (simp add: is_equal_def)
  qed
qed

text \<open>A character of the text matches one of the term when it is one of its two forms.\<close>

definition matches :: "(bytes \<Rightarrow> bytes) \<Rightarrow> (bytes \<Rightarrow> bytes) \<Rightarrow> bytes \<Rightarrow> bytes \<Rightarrow> bool" where
  "matches to_lower to_upper c x \<longleftrightarrow> x = lower_form to_lower c \<or> x = to_upper c"

definition code_of :: "(bytes \<Rightarrow> bytes) \<Rightarrow> (bytes \<Rightarrow> bytes) \<Rightarrow> bytes list \<Rightarrow> int list \<Rightarrow> bytes \<Rightarrow> int option" where
  "code_of to_lower to_upper cs ks x =
     map_option snd (find (\<lambda>(c, k). matches to_lower to_upper c x) (zip cs ks))"

lemma same_symbol:
  assumes "coded to_lower to_upper cs ks s" and "folds_well to_lower to_upper cs" and "i < length cs" "j < length cs"
  shows "ks ! i = ks ! j \<longleftrightarrow> lower_form to_lower (cs ! i) = lower_form to_lower (cs ! j)"
proof -
  let ?t = "map_of (sy_table s)"
  have t: "?t (lower_form to_lower (cs ! i)) = Some (ks ! i)" "?t (lower_form to_lower (cs ! j)) = Some (ks ! j)"
    and inj: "inj_on (\<lambda>x. the (?t x)) (dom ?t)"
    using assms(1,3,4) by (simp_all add: coded_def)
  show ?thesis
  proof
    assume "ks ! i = ks ! j"
    with t show "lower_form to_lower (cs ! i) = lower_form to_lower (cs ! j)" by (intro inj_onD [OF inj]) auto
  qed (use t in simp)
qed

lemma folds:
  assumes "folds_well to_lower to_upper cs" and "i < length cs" "j < length cs"
  shows "lower_form to_lower (cs ! i) = lower_form to_lower (cs ! j) \<longleftrightarrow> to_upper (cs ! i) = to_upper (cs ! j)"
    and "lower_form to_lower (cs ! i) = to_upper (cs ! j) \<Longrightarrow> lower_form to_lower (cs ! i) = lower_form to_lower (cs ! j)"
    and "one_char (lower_form to_lower (cs ! i))" "one_char (to_upper (cs ! i))"
proof -
  from assms(1) have all: "list_all (\<lambda>c. one_char (lower_form to_lower c) \<and> one_char (to_upper c)) cs"
    "list_all (\<lambda>a. list_all (\<lambda>b.
       (lower_form to_lower a = lower_form to_lower b) = (to_upper a = to_upper b) \<and>
       (lower_form to_lower a = to_upper b \<longrightarrow> lower_form to_lower a = lower_form to_lower b)) cs) cs"
    unfolding folds_well_def by blast+
  show "one_char (lower_form to_lower (cs ! i))" "one_char (to_upper (cs ! i))"
    using all(1) assms(2) unfolding list_all_length by blast+
  show "lower_form to_lower (cs ! i) = lower_form to_lower (cs ! j) \<longleftrightarrow> to_upper (cs ! i) = to_upper (cs ! j)"
    "lower_form to_lower (cs ! i) = to_upper (cs ! j) \<Longrightarrow> lower_form to_lower (cs ! i) = lower_form to_lower (cs ! j)"
    using all(2) assms(2,3) unfolding list_all_length by blast+
qed

lemma forms_agree:
  assumes "x = la \<or> x = ua" and "x = lb \<or> x = ub" and "la = lb \<longleftrightarrow> ua = ub"
    and "la = ub \<Longrightarrow> la = lb" and "lb = ua \<Longrightarrow> lb = la"
  shows "la = lb"
  using assms by metis

lemma same_form:
  assumes "folds_well to_lower to_upper cs" and "i < length cs" "j < length cs"
    and "matches to_lower to_upper (cs ! i) x" "matches to_lower to_upper (cs ! j) x"
  shows "lower_form to_lower (cs ! i) = lower_form to_lower (cs ! j)"
  using assms(4,5) folds(1,2) [OF assms(1-3)] folds(2) [OF assms(1,3,2)] unfolding matches_def
  by (rule forms_agree)

lemma form_same:
  assumes "folds_well to_lower to_upper cs" and "i < length cs" "j < length cs"
    and "lower_form to_lower (cs ! i) = lower_form to_lower (cs ! j)" "matches to_lower to_upper (cs ! i) x"
  shows "matches to_lower to_upper (cs ! j) x"
  using assms(4,5) folds(1) [OF assms(1-3)] unfolding matches_def by metis

lemma code_of_Some:
  assumes "coded to_lower to_upper cs ks s" and "folds_well to_lower to_upper cs" and j: "j < length cs"
  shows "code_of to_lower to_upper cs ks x = Some (ks ! j) \<longleftrightarrow> matches to_lower to_upper (cs ! j) x"
proof -
  have len: "length ks = length cs" using assms(1) by (simp add: coded_def)
  have same: "ks ! i = ks ! j" if i: "i < length cs" "matches to_lower to_upper (cs ! i) x" "matches to_lower to_upper (cs ! j) x" for i
    using same_symbol [OF assms(1,2) i(1) j] same_form [OF assms(2) i(1) j i(2,3)] by simp
  have sym: "matches to_lower to_upper (cs ! j) x" if i: "i < length cs" "matches to_lower to_upper (cs ! i) x" "ks ! i = ks ! j" for i
    using same_symbol [OF assms(1,2) i(1) j] form_same [OF assms(2) i(1) j _ i(2)] i(3) by simp
  show ?thesis
  proof
    assume "code_of to_lower to_upper cs ks x = Some (ks ! j)"
    then obtain c where "find (\<lambda>(c, k). matches to_lower to_upper c x) (zip cs ks) = Some (c, ks ! j)"
      by (auto simp: code_of_def)
    then obtain i where "i < length cs" "matches to_lower to_upper (cs ! i) x" "ks ! i = ks ! j"
      using len by (auto simp: find_Some_iff)
    then show "matches to_lower to_upper (cs ! j) x" by (rule sym)
  next
    assume m: "matches to_lower to_upper (cs ! j) x"
    have "find (\<lambda>(c, k). matches to_lower to_upper c x) (zip cs ks) \<noteq> None"
    proof
      assume "find (\<lambda>(c, k). matches to_lower to_upper c x) (zip cs ks) = None"
      moreover have "(cs ! j, ks ! j) \<in> set (zip cs ks)" using j len by (auto simp: set_zip)
      ultimately show False using m by (auto simp: find_None_iff)
    qed
    then obtain c k where f: "find (\<lambda>(c, k). matches to_lower to_upper c x) (zip cs ks) = Some (c, k)" by auto
    then obtain i where i: "i < length cs" "matches to_lower to_upper (cs ! i) x" "k = ks ! i"
      using len by (auto simp: find_Some_iff)
    with same [OF i(1,2) m] f show "code_of to_lower to_upper cs ks x = Some (ks ! j)" by (simp add: code_of_def)
  qed
qed

lemma codes_of_term:
  assumes "coded to_lower to_upper cs ks s" and "folds_well to_lower to_upper cs"
  shows "codes (code_of to_lower to_upper cs ks) ks (c_memory (sy_symbols s) junk) (sy_indexes s) str"
  unfolding codes_def
proof (intro allI impI)
  fix i j assume "j < length ks"
  then have j: "j < length cs" using assms(1) by (simp add: coded_def)
  let ?c = "slice_of str i (utf8_char_size (str i))"
  have "symbol_fits (c_memory (sy_symbols s) junk) (sy_indexes s) str i (utf8_char_size (str i)) j \<longleftrightarrow>
      matches to_lower to_upper (cs ! j) ?c"
    using assms(1) j same_char [OF _ _ folds(3) [OF assms(2) j j]] same_char [OF _ _ folds(4) [OF assms(2) j j]]
    by (simp add: coded_def symbol_fits_def matches_def)
  with code_of_Some [OF assms j]
  show "symbol_fits (c_memory (sy_symbols s) junk) (sy_indexes s) str i (utf8_char_size (str i)) j =
      (code_of to_lower to_upper cs ks ?c = Some (ks ! j))" by simp
qed


lemma list_matches:
  assumes "coded to_lower to_upper cs ks s" and "folds_well to_lower to_upper cs"
  shows "map Some ks = map (code_of to_lower to_upper cs ks) xs \<longleftrightarrow> list_all2 (matches to_lower to_upper) cs xs"
proof -
  have len: "length ks = length cs" using assms(1) by (simp add: coded_def)
  have "map Some ks = map (code_of to_lower to_upper cs ks) xs \<longleftrightarrow>
      length xs = length cs \<and> (\<forall>i<length cs. code_of to_lower to_upper cs ks (xs ! i) = Some (ks ! i))"
    using len by (auto simp: list_eq_iff_nth_eq)
  then show ?thesis using code_of_Some [OF assms] by (auto simp: list_all2_conv_all_nth)
qed

lemma found_in_chars:
  "(\<exists>k>0. k \<le> length ys \<and> suffix p (take k ys)) \<longleftrightarrow> sublist p ys" if "p \<noteq> []" for p :: "'a list"
proof
  assume "\<exists>k>0. k \<le> length ys \<and> suffix p (take k ys)"
  then obtain k a where "take k ys = a @ p" by (auto simp: suffix_def)
  then have "ys = a @ p @ drop k ys" by (metis append.assoc append_take_drop_id)
  then show "sublist p ys" unfolding sublist_def by blast
next
  assume "sublist p ys"
  then obtain a b where ys: "ys = a @ p @ b" by (auto simp: sublist_def)
  with that show "\<exists>k>0. k \<le> length ys \<and> suffix p (take k ys)"
    by (intro exI [of _ "length a + length p"]) (auto simp: suffix_def)
qed

lemma sublist_map: "sublist q (map f xs) \<longleftrightarrow> (\<exists>zs. sublist zs xs \<and> q = map f zs)"
proof
  assume "sublist q (map f xs)"
  then obtain a b where "map f xs = a @ q @ b" by (auto simp: sublist_def)
  then obtain as zs bs where "xs = as @ zs @ bs" "q = map f zs" by (auto simp: map_eq_append_conv append_eq_map_conv)
  then show "\<exists>zs. sublist zs xs \<and> q = map f zs" unfolding sublist_def by blast
next
  assume "\<exists>zs. sublist zs xs \<and> q = map f zs"
  then obtain zs a b where "xs = a @ zs @ b" "q = map f zs" by (auto simp: sublist_def)
  then show "sublist q (map f xs)" unfolding sublist_def by auto
qed

lemma best_start: "p \<noteq> [] \<Longrightarrow> best p [] 0"
  by (auto simp: best_def)

lemma kmp_finds:
  assumes "coded to_lower to_upper cs ks s" and "folds_well to_lower to_upper cs" and "cs \<noteq> []"
    and "build_prefix ks = Some pfx"
  shows "\<exists>r. kmp_strstr (Some str) sz ks pfx (c_memory (sy_symbols s) junk) (sy_indexes s) = Some r \<and>
    (r \<noteq> -1 \<longleftrightarrow> (\<exists>xs. sublist xs (chars str sz 0) \<and> list_all2 (matches to_lower to_upper) cs xs))"
proof -
  have ks: "ks \<noteq> []" using assms(1,3) by (auto simp: coded_def)
  have table: "border_table ks pfx (length ks)" using build_prefix_table [of ks] assms(4) by auto
  have b: "best (map Some ks) [] 0" using ks by (intro best_start) simp
  let ?code = "code_of to_lower to_upper cs ks"
  have "0 < length ks" "length [] \<le> (0::nat)" using ks by simp_all
  from kmp_loop_finds [OF codes_of_term [OF assms(1,2)] table b this]
  obtain r where r: "kmp_loop str sz ks pfx (c_memory (sy_symbols s) junk) (sy_indexes s) 0 0 = Some r"
    "r \<noteq> -1 \<longleftrightarrow> (\<exists>k>0. k \<le> length (chars str sz 0) \<and>
      suffix (map Some ks) ([] @ take k (map ?code (chars str sz 0))))"
    by blast
  have "map Some ks \<noteq> []" using ks by simp
  from found_in_chars [OF this, of "map ?code (chars str sz 0)"] r(2)
  have "r \<noteq> -1 \<longleftrightarrow> sublist (map Some ks) (map ?code (chars str sz 0))"
    by (simp only: length_map append_Nil)
  moreover have "sublist (map Some ks) (map ?code (chars str sz 0)) \<longleftrightarrow>
      (\<exists>xs. sublist xs (chars str sz 0) \<and> list_all2 (matches to_lower to_upper) cs xs)"
    using list_matches [OF assms(1,2)] by (simp add: sublist_map)
  ultimately show ?thesis using r(1) unfolding kmp_strstr_def by simp
qed

text \<open>C8: The search for a term. Coding the term and building its table return, and the search of any
  bytes returns without a failing access; what it returns is not -1 exactly when some run of consecutive
  characters of the text matches the characters of the term one by one, each in its lower or its upper form.
  The conversions are only asked to give whole characters for the characters of the term, and to fold no two
  of them by one form and not by the other. What lies behind the term and the table of its forms plays no part.\<close>

theorem search_finds_the_term:
  assumes "convert_string_to_vector to_lower to_upper junk term = (ks, s)" and "term \<noteq> []"
    and "folds_well to_lower to_upper (chars (c_memory term junk) (length term) 0)"
  shows "\<exists>pfx r. build_prefix ks = Some pfx \<and>
    kmp_strstr (Some str) sz ks pfx (c_memory (sy_symbols s) junk') (sy_indexes s) = Some r \<and>
    (r \<noteq> -1 \<longleftrightarrow> (\<exists>xs. sublist xs (chars str sz 0) \<and>
      list_all2 (matches to_lower to_upper) (chars (c_memory term junk) (length term) 0) xs))"
proof -
  have "chars (c_memory term junk) (length term) 0 \<noteq> []"
    using assms(2) by (subst chars.simps) (simp add: Let_def)
  with kmp_finds [OF coded_string [OF assms(1)] assms(3)] build_prefix_table [of ks] show ?thesis by meson
qed

text \<open>The conversions of the ASCII letters, to apply the theorem to: the term ``aB'' in the text ``xAb''.\<close>

definition ascii_lower :: "bytes \<Rightarrow> bytes" where
  "ascii_lower = map (\<lambda>b. if 0x41 \<le> b \<and> b \<le> 0x5A then b + 0x20 else b)"

definition ascii_upper :: "bytes \<Rightarrow> bytes" where
  "ascii_upper = map (\<lambda>b. if 0x61 \<le> b \<and> b \<le> 0x7A then b - 0x20 else b)"

lemma ascii_term:
  "convert_string_to_vector ascii_lower ascii_upper (\<lambda>_. 0) [0x61, 0x42] =
    ([1, 2], \<lparr>sy_last = 2, sy_symbols = [0x61, 0x41, 0x62, 0x42], sy_indexes = [0, 1, 2, 3],
      sy_table = [([0x61], 1), ([0x62], 2)]\<rparr>)"
  by (simp add: convert_string_to_vector_def convert_loop.simps get_char_index_def utf8_char_size_def c_memory_def
      slice_of_def ascii_lower_def ascii_upper_def no_symbols_def Let_def)

lemma ascii_chars:
  "chars (c_memory [0x61, 0x42] (\<lambda>_. 0)) (length [0x61, 0x42 :: u8]) 0 = [[0x61], [0x42]]"
  "chars (c_memory [0x78, 0x41, 0x62] (\<lambda>_. 0)) 3 0 = [[0x78], [0x41], [0x62]]"
  by (simp_all add: chars.simps utf8_char_size_def c_memory_def slice_of_def Let_def)

theorem search_finds_the_term_witness:
  "\<exists>pfx r. build_prefix [1, 2 :: int] = Some pfx \<and>
    kmp_strstr (Some (c_memory [0x78, 0x41, 0x62] (\<lambda>_. 0))) 3 [1, 2 :: int] pfx
      (c_memory [0x61, 0x41, 0x62, 0x42] (\<lambda>_. 0)) [0, 1, 2, 3] = Some r \<and> r \<noteq> -1"
proof -
  have "folds_well ascii_lower ascii_upper [[0x61], [0x42]]"
    by (simp add: folds_well_def lower_form_def one_char_def utf8_char_size_def ascii_lower_def ascii_upper_def)
  moreover have "sublist [[0x41], [0x62]] [[0x78], [0x41], [0x62 :: u8]]" by (simp add: sublist_code)
  moreover have "list_all2 (matches ascii_lower ascii_upper) [[0x61], [0x42]] [[0x41], [0x62]]"
    by (simp add: matches_def lower_form_def ascii_lower_def ascii_upper_def)
  moreover note search_finds_the_term [OF ascii_term, of "c_memory [0x78, 0x41, 0x62] (\<lambda>_. 0)" 3 "\<lambda>_. 0",
    unfolded ascii_chars symbols.simps]
  ultimately show ?thesis by blast
qed

end
