(* ===== verification/Fast_Scan.thy ===== *)
theory Fast_Scan
  imports Storage
begin

text \<open>
  \<^verbatim>\<open>storage::fast_read_data_block\<close>: the search reads a whole data file into one buffer and walks over
  its blocks without the checks of \<open>read_data_block\<close>; on a damaged spot it slides on byte by byte until
  something looks like a block again. A load outside the buffer is \<open>None\<close>.

  \<open>fast_scan\<close> is the loop: whether a block was found, the value of \<^verbatim>\<open>current_pos\<close> (a reference parameter,
  so also its value on failure) and the size.
\<close>

definition load_u32 :: "bytes \<Rightarrow> nat \<Rightarrow> u32 option" where
  "load_u32 buf p = (if p + 4 \<le> length buf then Some (u32_value (take 4 (drop p buf))) else None)"

function fast_scan :: "bytes \<Rightarrow> nat \<Rightarrow> nat \<Rightarrow> (bool \<times> nat \<times> u32) option" where
  "fast_scan buf end_pos p =
     (if p + 16 \<ge> end_pos then Some (False, p, 0)
      else case (load_u32 buf p, load_u32 buf (p + 4)) of
        (Some sz1, Some sz2) \<Rightarrow>
          if sz1 = 0 \<or> sz1 \<noteq> sz2 \<or> sz1 > max_data_block_size then fast_scan buf end_pos (Suc p)
          else if p + 16 + unat sz1 \<le> end_pos then
            (case (load_u32 buf (p + 8 + unat sz1), load_u32 buf (p + 12 + unat sz1)) of
               (Some sz3, Some sz4) \<Rightarrow>
                 if sz3 \<noteq> sz1 \<or> sz3 \<noteq> sz4 then fast_scan buf end_pos (Suc p)
                 else Some (True, p, sz1)
             | _ \<Rightarrow> None)
          else Some (False, p, sz1)
      | _ \<Rightarrow> None)"
  by pat_completeness auto
termination
  by (relation "measure (\<lambda>(buf, end_pos, p). end_pos - p)") auto

declare fast_scan.simps [simp del]

text \<open>
  The function: the result, the buffer with its cursors, and the two reference parameters
  \<^verbatim>\<open>current_pos\<close> and \<^verbatim>\<open>_begin\<close>.
\<close>

definition fast_read_data_block ::
  "binary_stream \<Rightarrow> nat \<Rightarrow> nat \<Rightarrow> nat \<Rightarrow> (bool \<times> binary_stream \<times> nat \<times> nat) option" where
  "fast_read_data_block s pos begin_pos end_pos =
     (if pos + 16 \<ge> all_size s then Some (False, s, pos, begin_pos)
      else case fast_scan (bs_buffer s) end_pos pos of
        None \<Rightarrow> None
      | Some (False, p, _) \<Rightarrow> Some (False, s, p, begin_pos)
      | Some (True, p, sz) \<Rightarrow>
          let p = p + 8; begin_pos = p;
              s = set_input (p + unat sz) (set_output p s)
          in Some (True, s, p + (unat sz + 8), begin_pos))"

text \<open>The place of a block in the buffer, as the search recognises it.\<close>

definition block_at :: "bytes \<Rightarrow> nat \<Rightarrow> nat \<Rightarrow> u32 \<Rightarrow> bool" where
  "block_at buf end_pos p sz \<longleftrightarrow>
     sz \<noteq> 0 \<and> \<not> sz > max_data_block_size \<and> p + 16 + unat sz \<le> end_pos \<and>
     load_u32 buf p = Some sz \<and> load_u32 buf (p + 4) = Some sz \<and>
     load_u32 buf (p + 8 + unat sz) = Some sz \<and> load_u32 buf (p + 12 + unat sz) = Some sz"

lemma fast_scan_cases:
  obtains (fail) sz where "fast_scan buf e p = Some (False, p, sz)"
  | (skip) "p + 16 < e" and "fast_scan buf e p = fast_scan buf e (Suc p)"
  | (found) sz where "fast_scan buf e p = Some (True, p, sz)" and "block_at buf e p sz"
  | (outside) "fast_scan buf e p = None" and "length buf < e"
proof (cases "p + 16 \<ge> e")
  case True
  then show ?thesis by (intro fail [of 0]) (simp add: fast_scan.simps [of buf e p])
next
  case False
  show ?thesis
  proof (cases "\<exists>a b. load_u32 buf p = Some a \<and> load_u32 buf (p + 4) = Some b")
    case no: False
    then have "fast_scan buf e p = None" using False
      by (simp add: fast_scan.simps [of buf e p]) (auto split: option.split)
    moreover have "length buf < e" using no False by (auto simp: load_u32_def split: if_splits)
    ultimately show ?thesis by (rule outside)
  next
    case True
    then obtain a b where ab: "load_u32 buf p = Some a" "load_u32 buf (p + 4) = Some b" by blast
    show ?thesis
    proof (cases "a = 0 \<or> a \<noteq> b \<or> a > max_data_block_size")
      case True
      with ab False show ?thesis by (intro skip) (simp_all add: fast_scan.simps [of buf e p])
    next
      case size: False
      show ?thesis
      proof (cases "p + 16 + unat a \<le> e")
        case long: False
        with ab False size show ?thesis by (intro fail [of a]) (simp add: fast_scan.simps [of buf e p])
      next
        case fits: True
        note unf = fast_scan.simps [of buf e p]
        show ?thesis
        proof (cases "\<exists>c d. load_u32 buf (p + 8 + unat a) = Some c \<and> load_u32 buf (p + 12 + unat a) = Some d")
          case no: False
          then have "fast_scan buf e p = None" using False ab size fits
            by (simp add: unf) (auto split: option.split)
          moreover have "length buf < e" using no fits by (auto simp: load_u32_def split: if_splits)
          ultimately show ?thesis by (rule outside)
        next
          case True
          then obtain c d where cd: "load_u32 buf (p + 8 + unat a) = Some c"
            "load_u32 buf (p + 12 + unat a) = Some d" by blast
          show ?thesis
          proof (cases "c \<noteq> a \<or> c \<noteq> d")
            case True
            with ab cd False size fits show ?thesis by (intro skip) (simp_all add: unf)
          next
            case same: False
            with ab cd False size fits show ?thesis
              by (intro found [of a]) (simp_all add: unf block_at_def)
          qed
        qed
      qed
    qed
  qed
qed

lemma fast_scan_in_bounds: "e \<le> length buf \<Longrightarrow> fast_scan buf e p \<noteq> None"
proof (induction "e - p" arbitrary: p rule: less_induct)
  case less
  show ?case by (cases rule: fast_scan_cases [of buf e p]) (use less in auto)
qed

lemma fast_scan_sound: "fast_scan buf e p = Some (True, q, sz) \<Longrightarrow> p \<le> q \<and> block_at buf e q sz"
proof (induction "e - p" arbitrary: p rule: less_induct)
  case less
  show ?case
  proof (cases rule: fast_scan_cases [of buf e p])
    case skip
    then have "e - Suc p < e - p" by linarith
    from less.hyps [OF this] less.prems skip show ?thesis by simp
  qed (use less.prems in auto)
qed

text \<open>Between the start and the block found there is no other block, and none at all before a stop at the end.\<close>

lemma fast_scan_first:
  "fast_scan buf e p = Some (b, q, sz) \<Longrightarrow> p \<le> i \<Longrightarrow> i < q \<Longrightarrow> \<not> block_at buf e i n"
proof (induction "e - p" arbitrary: p rule: less_induct)
  case less
  show ?case
  proof (cases rule: fast_scan_cases [of buf e p])
    case skip
    show ?thesis
    proof (cases "i = p")
      case True
      have "\<not> block_at buf e p n"
      proof
        assume "block_at buf e p n"
        then have "fast_scan buf e p = Some (True, p, n)"
          using skip(1) by (simp add: block_at_def fast_scan.simps [of buf e p])
        then have "q = p" using less.prems(1) by simp
        with less.prems True show False by simp
      qed
      with True show ?thesis by simp
    next
      case False
      with less.hyps [of "Suc p"] less.prems skip show ?thesis by simp
    qed
  qed (use less.prems in auto)
qed

text \<open>Failure leaves the position no earlier than it was.\<close>

lemma fast_scan_position: "fast_scan buf e p = Some (b, q, sz) \<Longrightarrow> p \<le> q \<and> (q = p \<or> q + 16 \<le> e)"
proof (induction "e - p" arbitrary: p rule: less_induct)
  case less
  show ?case
  proof (cases rule: fast_scan_cases [of buf e p])
    case skip
    then have "e - Suc p < e - p" by linarith
    from less.hyps [OF this] less.prems skip have "Suc p \<le> q \<and> (q = Suc p \<or> q + 16 \<le> e)" by simp
    with skip show ?thesis by auto
  qed (use less.prems in auto)
qed

subsection \<open>Walking over the blocks the writer produced\<close>

lemma load_u32_prefix: "drop p buf = u32_image w @ r \<Longrightarrow> load_u32 buf p = Some w"
proof -
  assume a: "drop p buf = u32_image w @ r"
  then have "4 \<le> length (drop p buf)" by simp
  then have "p + 4 \<le> length buf" unfolding length_drop by arith
  then show ?thesis using a by (simp add: load_u32_def)
qed

lemma drop_step: "drop p buf = bs @ r \<Longrightarrow> drop (p + length bs) buf = r"
  by (metis append_eq_conv_conj drop_drop add.commute)

lemma fast_scan_block:
  assumes good: "good_block bs" and buf: "drop p buf = enc_block bs @ r"
    and e: "p + 16 + length bs \<le> end_pos"
  shows "fast_scan buf end_pos p = Some (True, p, word_of_nat (length bs))"
proof -
  let ?n = "word_of_nat (length bs) :: u32" let ?w = "u32_image ?n"
  have un: "unat ?n = length bs" and pos: "0 < length bs"
    using good by (simp_all add: good_block_def u32_value_length)
  then have nz: "?n \<noteq> 0" by (metis less_numeral_extra(3) unat_0)
  have small: "\<not> ?n > max_data_block_size"
    using good un by (simp add: good_block_def max_data_block_size_def word_less_nat_alt not_less)
  have e16: "p + 16 < end_pos" using e pos by linarith
  have b0: "drop p buf = ?w @ ?w @ bs @ ?w @ ?w @ r" using buf by (simp add: enc_block_def Let_def)
  have b1: "drop (p + 4) buf = ?w @ bs @ ?w @ ?w @ r" using drop_step [OF b0] by simp
  have b2: "drop (p + 8) buf = bs @ ?w @ ?w @ r" using drop_step [OF b1] by (simp add: ac_simps)
  have b3: "drop (p + 8 + length bs) buf = ?w @ ?w @ r" using drop_step [OF b2] by simp
  have b4: "drop (p + 12 + length bs) buf = ?w @ r" using drop_step [OF b3] by (simp add: ac_simps)
  show ?thesis
    using load_u32_prefix [OF b0] load_u32_prefix [OF b1] load_u32_prefix [OF b3] load_u32_prefix [OF b4]
      un nz small e e16
    by (subst fast_scan.simps) (simp add: not_le)
qed

text \<open>The scanner as a source of blocks: a buffer, the end of the region and the position.\<close>

definition scan_next :: "binary_stream \<times> nat \<times> nat \<Rightarrow> (bytes \<times> binary_stream \<times> nat \<times> nat) option" where
  "scan_next = (\<lambda>(s, end_pos, p).
     case fast_read_data_block s p 0 end_pos of
       Some (True, s', p', b) \<Rightarrow> Some (pending s', s', end_pos, p') | _ \<Rightarrow> None)"

definition scan_rest :: "binary_stream \<times> nat \<times> nat \<Rightarrow> bytes" where
  "scan_rest = (\<lambda>(s, end_pos, p). drop p (take end_pos (bs_buffer s)))"

definition scan_ok :: "binary_stream \<times> nat \<times> nat \<Rightarrow> bool" where
  "scan_ok = (\<lambda>(s, end_pos, p). end_pos \<le> length (bs_buffer s))"

lemma fast_read_block:
  assumes "end_pos \<le> length (bs_buffer s)" and "good_block bs"
    and "drop p (take end_pos (bs_buffer s)) = enc_block bs @ r"
  shows "fast_read_data_block s p b0 end_pos =
    Some (True, set_input (p + 8 + length bs) (set_output (p + 8) s), p + 16 + length bs, p + 8)"
proof -
  have l: "length (drop p (take end_pos (bs_buffer s))) = 16 + length bs + length r" using assms(3) by simp
  have pos: "0 < length bs" using assms(2) by (simp add: good_block_def)
  have d: "drop p (bs_buffer s) = enc_block bs @ (r @ drop end_pos (bs_buffer s))"
  proof -
    have "p \<le> end_pos" using l assms(1) pos by simp
    then have "drop p (bs_buffer s) = drop p (take end_pos (bs_buffer s)) @ drop end_pos (bs_buffer s)"
      using assms(1) by (metis append_take_drop_id drop_append diff_is_0_eq drop_0 length_take min.absorb2)
    with assms(3) show ?thesis by simp
  qed
  have "fast_scan (bs_buffer s) end_pos p = Some (True, p, word_of_nat (length bs))"
    using l assms(1) by (intro fast_scan_block [OF assms(2) d]) simp
  moreover have "unat (word_of_nat (length bs) :: u32) = length bs"
    using assms(2) by (simp add: good_block_def u32_value_length)
  moreover have "p + 16 < length (bs_buffer s)" using l assms(1) pos unfolding length_drop length_take by arith
  ultimately show ?thesis
    by (simp add: fast_read_data_block_def all_size_def Let_def)
qed

interpretation scan_frames: framing enc_block scan_next scan_rest scan_ok good_block "\<lambda>bs. bs"
proof unfold_locales
  fix s x r
  assume ok: "scan_ok s" and good: "good_block x" and rest: "scan_rest s = enc_block x @ r"
  obtain b e p where s: "s = (b, e, p)" by (cases s)
  let ?b = "set_input (p + 8 + length x) (set_output (p + 8) b)"
  have buf: "drop p (take e (bs_buffer b)) = enc_block x @ r" and e: "e \<le> length (bs_buffer b)"
    using ok rest s by (simp_all add: scan_ok_def scan_rest_def)
  have n: "scan_next s = Some (pending ?b, ?b, e, p + 16 + length x)"
    using fast_read_block [OF e good buf] s by (simp add: scan_next_def)
  let ?w = "u32_image (word_of_nat (length x))"
  have d8: "drop (p + 8) (take e (bs_buffer b)) = x @ ?w @ ?w @ r"
    using drop_step [of p "take e (bs_buffer b)" "?w @ ?w"] buf by (simp add: enc_block_def Let_def)
  have "length (drop (p + 8) (take e (bs_buffer b))) = length x + 8 + length r" using d8 by simp
  then have "length x \<le> e - (p + 8)" using e by (simp add: min_def split: if_splits)
  then have "take (length x) (drop (p + 8) (bs_buffer b)) = take (length x) (drop (p + 8) (take e (bs_buffer b)))"
    using e by (simp add: slice_take_drop min_def)
  with d8 have "pending ?b = x" by (simp add: pending_def set_input_def set_output_def)
  moreover have "scan_rest (?b, e, p + 16 + length x) = r"
    using drop_step [OF buf] by (simp add: scan_rest_def set_input_def set_output_def ac_simps)
  moreover have "scan_ok (?b, e, p + 16 + length x)"
    using e by (simp add: scan_ok_def set_input_def set_output_def)
  ultimately show "\<exists>y s'. scan_next s = Some (y, s') \<and> y = x \<and> scan_ok s' \<and> scan_rest s' = r"
    using n by blast
next
  fix x :: bytes
  show "enc_block x \<noteq> []" by (simp flip: length_0_conv)
qed

text \<open>The scanner of the search never reads outside its buffer, whatever the bytes are. The block it
  reports has matching size words and lies before the end it was given, and no block starts between
  the position it was asked to start at and the one it reports.\<close>

theorem search_finds_first_block:
  assumes "e \<le> length buf"
  shows "\<exists>b q sz. fast_scan buf e p = Some (b, q, sz) \<and> p \<le> q \<and> (b \<longrightarrow> block_at buf e q sz) \<and>
    (\<forall>i n. p \<le> i \<and> i < q \<longrightarrow> \<not> block_at buf e i n)"
proof -
  obtain b q sz where f: "fast_scan buf e p = Some (b, q, sz)"
    using fast_scan_in_bounds [OF assms] by (metis not_Some_eq prod_cases3)
  have "b \<longrightarrow> block_at buf e q sz" using fast_scan_sound [of buf e p q sz] f by (cases b) auto
  moreover have "p \<le> q" using fast_scan_position [OF f] by simp
  ultimately show ?thesis using f fast_scan_first [OF f] by blast
qed

theorem search_finds_first_block_witness:
  "\<exists>b q sz. fast_scan (0 # enc_block [1, 2, 3]) 20 0 = Some (b, q, sz) \<and>
    (\<forall>i n. \<not> (i < q \<and> block_at (0 # enc_block [1, 2, 3]) 20 i n))"
proof -
  have "(20::nat) \<le> length (0 # enc_block [1, 2, 3])" by simp
  from search_finds_first_block [OF this, of 0] show ?thesis by auto
qed

text \<open>C35: The two readers agree: on a file made of well-formed blocks, the reader of the storage and the
  scanner of the search hand out the same blocks in the same order, and both end behind the last one.\<close>

theorem scanner_agrees_with_reader:
  assumes "list_all good_block bss" and "open_reading st" and "unread st = concat (map enc_block bss)"
    and "bs_buffer s = unread st"
  shows "\<exists>st' z. file_frames.run st bss st' \<and> unread st' = [] \<and>
    scan_frames.run (s, length (bs_buffer s), 0) bss z \<and> scan_rest z = []"
proof -
  obtain ys st' where "file_frames.run st ys st'" "map (\<lambda>bs. bs) ys = bss" "unread st' = []"
    by (rule file_frames.run_encoded [of st bss "[]"]) (use assms(1-3) in simp_all)
  moreover obtain zs z where "scan_frames.run (s, length (bs_buffer s), 0) zs z" "map (\<lambda>bs. bs) zs = bss" "scan_rest z = []"
    by (rule scan_frames.run_encoded [of "(s, length (bs_buffer s), 0)" bss "[]"])
      (use assms in \<open>simp_all add: scan_ok_def scan_rest_def\<close>)
  ultimately show ?thesis unfolding map_ident by blast
qed

theorem scanner_agrees_with_reader_witness:
  "\<exists>st' z. file_frames.run (stream_at False 0 (enc_block [1] @ enc_block [2, 3]) 0) [[1], [2, 3]] st' \<and> unread st' = [] \<and>
    scan_frames.run (\<lparr>bs_buffer = unread (stream_at False 0 (enc_block [1] @ enc_block [2, 3]) 0), bs_input = 0, bs_output = 0\<rparr>, 35, 0) [[1], [2, 3]] z"
proof -
  let ?s = "\<lparr>bs_buffer = unread (stream_at False 0 (enc_block [1] @ enc_block [2, 3]) 0), bs_input = 0, bs_output = 0\<rparr>"
  have u: "unread (stream_at False 0 (enc_block [1] @ enc_block [2, 3]) 0) = concat (map enc_block [[1], [2, 3]])"
    by simp
  then have "length (bs_buffer ?s) = 35" by simp
  with scanner_agrees_with_reader [of "[[1], [2, 3]]" "stream_at False 0 (enc_block [1] @ enc_block [2, 3]) 0" ?s] u show ?thesis
    by (auto simp: good_block_def)
qed

end
