(* ===== verification/Archive_Search.thy ===== *)
theory Archive_Search
  imports Text_Search Fast_Scan Messages_Data
begin

text \<open>
  \<^verbatim>\<open>messages_data::search_in_archive\<close>: the search over a buffer into which the data files of several
  contacts were read one behind the other. It walks over the blocks of each region, tells the messages
  by the bytes of their blocks, and decodes only the ones whose text has the term. The newest versions of
  a message are stored behind the older ones, so a later block of the same message replaces or takes away
  what an earlier one put into the results.

  The results are a map from contacts to lists of messages, and the limit is the one of
  \<^verbatim>\<open>common::get_limit_search_results\<close>. The search by the number of a message exists in debug builds only.
\<close>

record coded_term =
  ct_coded :: "int list"
  ct_prefix :: "nat list"
  ct_symbs :: bytes
  ct_indexes :: "nat list"

text \<open>The head of \<^verbatim>\<open>im::local_search_impl\<close>, which codes the term.\<close>

definition code_term :: "(bytes \<Rightarrow> bytes) \<Rightarrow> (bytes \<Rightarrow> bytes) \<Rightarrow> memory \<Rightarrow> bytes \<Rightarrow> coded_term option" where
  "code_term to_lower to_upper junk term =
     (case convert_string_to_vector to_lower to_upper junk term of (ks, s) \<Rightarrow>
        map_option (\<lambda>pfx. \<lparr>ct_coded = ks, ct_prefix = pfx, ct_symbs = sy_symbols s, ct_indexes = sy_indexes s\<rparr>)
          (build_prefix ks))"

type_synonym found_messages = "bytes \<Rightarrow> history_message list option"

definition search_limit :: nat where
  "search_limit = 100"

text \<open>The memory behind the output cursor of the buffer, and \<open>junk\<close> behind the buffer.\<close>

definition text_memory :: "binary_stream \<Rightarrow> memory \<Rightarrow> memory" where
  "text_memory s junk i = (let p = bs_output s + i in if p < all_size s then bs_buffer s ! p else junk p)"

text \<open>
  The set of the ids of the results. When it is too large an id that is not older than all of them takes
  the place of the oldest, before it is known whether its message has the term.
\<close>

definition make_room :: "int \<Rightarrow> int set \<Rightarrow> int set option" where
  "make_room mid ids =
     (if card ids > search_limit then
        if \<exists>t\<in>ids. t < mid then Some (insert mid (ids - {Min ids})) else None
      else Some ids)"

fun put_message :: "history_message \<Rightarrow> int \<Rightarrow> history_message list \<Rightarrow> history_message list" where
  "put_message m mid [] = [m]"
| "put_message m mid (x # xs) = (if hm_msgid x = mid then m # xs else x # put_message m mid xs)"

fun erase_message :: "int \<Rightarrow> history_message list \<Rightarrow> history_message list" where
  "erase_message mid [] = []"
| "erase_message mid (x # xs) = (if hm_msgid x = mid then xs else x # erase_message mid xs)"

definition add_found :: "bytes \<Rightarrow> history_message \<Rightarrow> int \<Rightarrow> found_messages \<Rightarrow> found_messages" where
  "add_found contact m mid found = found(contact \<mapsto> put_message m mid (case found contact of None \<Rightarrow> [] | Some ms \<Rightarrow> ms))"

definition drop_found :: "bytes \<Rightarrow> int \<Rightarrow> found_messages \<Rightarrow> found_messages" where
  "drop_found contact mid found =
     (case found contact of None \<Rightarrow> found | Some ms \<Rightarrow> found(contact \<mapsto> erase_message mid ms))"

record search_env =
  se_term :: coded_term
  se_min_id :: int
  se_junk :: memory
  se_reader :: reader

text \<open>The body of the inner loop, for the block whose bytes begin at \<open>b\<close>.\<close>

definition search_block ::
  "search_env \<Rightarrow> bytes \<Rightarrow> nat \<Rightarrow> binary_stream \<Rightarrow> int set \<Rightarrow> found_messages \<Rightarrow>
    (binary_stream \<times> int set \<times> found_messages) option" where
  "search_block env contact b s ids found = do {
     (mid, s) \<leftarrow> get_id_field (set_output b s);
     if mid = -1 \<or> mid \<le> se_min_id env then Some (s, ids, found)
     else case make_room mid ids of None \<Rightarrow> Some (s, ids, found) | Some ids \<Rightarrow> do {
       (sticker, s) \<leftarrow> is_sticker (set_output b s);
       if sticker then Some (s, ids, found) else do {
         (event, s) \<leftarrow> is_chat_event (set_output b s);
         if event then Some (s, ids, found) else do {
           (len, s) \<leftarrow> jump_to_text_field 0 (set_output b s);
           if len = 0 then Some (s, ids, found) else do {
             (ptr, s) \<leftarrow> (if available s \<noteq> 0
                then map_option (\<lambda>(_, s'). (Some (text_memory s (se_junk env)), s')) (read_available s)
                else Some (None, s));
             let t = se_term env;
             r \<leftarrow> kmp_strstr ptr (unat len) (ct_coded t) (ct_prefix t) (c_memory (ct_symbs t) (se_junk env)) (ct_indexes t);
             if r \<noteq> -1 then do {
               (code, m, s) \<leftarrow> message_unserialize (se_reader env) (set_output b s) init_default;
               Some (if code = 0 then (s, insert mid ids, add_found contact m mid found) else (s, ids, found))
             } else Some (s, ids, drop_found contact mid found)
           }
         }
       }
     }
   }"

lemma fast_read_progress:
  "fast_read_data_block s p b e = Some (True, s', p', b') \<Longrightarrow> p < e \<and> p < p' \<and> e - p' < e - p"
proof -
  assume "fast_read_data_block s p b e = Some (True, s', p', b')"
  then obtain q sz where q: "fast_scan (bs_buffer s) e p = Some (True, q, sz)" "p' = q + 8 + (unat sz + 8)"
    by (auto simp: fast_read_data_block_def Let_def split: option.splits if_splits bool.splits prod.splits)
  have "p \<le> q" "q + 16 + unat sz \<le> e" using fast_scan_sound [OF q(1)] by (simp_all add: block_at_def)
  with q(2) show ?thesis by linarith
qed

function search_region ::
  "search_env \<Rightarrow> bytes \<Rightarrow> nat \<Rightarrow> nat \<Rightarrow> binary_stream \<Rightarrow> int set \<Rightarrow> found_messages \<Rightarrow>
    (nat \<times> binary_stream \<times> int set \<times> found_messages) option" where
  "search_region env contact end_pos pos s ids found =
     (case fast_read_data_block s pos 0 end_pos of
        None \<Rightarrow> None
      | Some (False, s, pos', _) \<Rightarrow> Some (pos', s, ids, found)
      | Some (True, s, pos', b) \<Rightarrow>
          (case search_block env contact b s ids found of
             None \<Rightarrow> None
           | Some (s, ids, found) \<Rightarrow> search_region env contact end_pos pos' s ids found))"
  by pat_completeness auto
termination
  by (relation "measure (\<lambda>(_, _, end_pos, pos, _). end_pos - pos)") (use fast_read_progress in auto)

declare search_region.simps [simp del]

text \<open>Where the search of a contact goes on next time; -1 when there is nothing more.\<close>

definition next_offset :: "bytes \<Rightarrow> nat \<Rightarrow> nat \<Rightarrow> int \<Rightarrow> int" where
  "next_offset contact start pos off =
     (let off = (if pos = start \<and> contact \<noteq> [] then -1 else off)
      in if off \<noteq> -1 then off + (int pos - int start) else off)"

fun search_contacts ::
  "search_env \<Rightarrow> (bytes \<times> nat) list \<Rightarrow> int list \<Rightarrow> binary_stream \<Rightarrow> int set \<Rightarrow> found_messages \<Rightarrow>
    (int list \<times> binary_stream \<times> int set \<times> found_messages) option" where
  "search_contacts env ((contact, start) # (c2, end_pos) # archive) (off # offs) s ids found = do {
     (pos, s, ids, found) \<leftarrow> search_region env contact end_pos start s ids found;
     (offs, r) \<leftarrow> search_contacts env ((c2, end_pos) # archive) offs s ids found;
     Some (next_offset contact start pos off # offs, r)
   }"
| "search_contacts env [_] offs s ids found = Some (offs, s, ids, found)"
| "search_contacts env _ _ s ids found = None"

text \<open>The list of regions has an entry more than there are contacts, for the end of the last one; an empty one is outside of what the code is defined for.\<close>

definition search_in_archive ::
  "search_env \<Rightarrow> (bytes \<times> nat) list \<Rightarrow> int list \<Rightarrow> binary_stream \<Rightarrow> found_messages \<Rightarrow>
    (int list \<times> binary_stream \<times> found_messages) option" where
  "search_in_archive env archive offs s found =
     map_option (\<lambda>(offs, s, _, found). (offs, s, found)) (search_contacts env archive offs s {} found)"


subsection \<open>Characters of a text\<close>

function split_chars :: "bytes \<Rightarrow> bytes list" where
  "split_chars [] = []"
| "split_chars (b # bs) = take (utf8_char_size b) (b # bs) # split_chars (drop (utf8_char_size b) (b # bs))"
  by pat_completeness auto
termination
  by (relation "measure length") (use utf8_char_size_pos in \<open>auto simp: Suc_le_eq\<close>)

text \<open>A text whose characters are whole.\<close>

definition whole_text :: "bytes \<Rightarrow> bool" where
  "whole_text text = list_all one_char (split_chars text)"

fun contains_run :: "('a \<Rightarrow> 'b \<Rightarrow> bool) \<Rightarrow> 'a list \<Rightarrow> 'b list \<Rightarrow> bool" where
  "contains_run P p [] = (p = [])"
| "contains_run P p (x # xs) \<longleftrightarrow> list_all2 P p (take (length p) (x # xs)) \<or> contains_run P p xs"

lemma contains_run_iff: "contains_run P p xs \<longleftrightarrow> (\<exists>ys. sublist ys xs \<and> list_all2 P p ys)"
proof (induction xs)
  case (Cons x xs)
  have "list_all2 P p (take (length p) (x # xs)) \<longleftrightarrow> (\<exists>ys. prefix ys (x # xs) \<and> list_all2 P p ys)"
  proof
    assume "\<exists>ys. prefix ys (x # xs) \<and> list_all2 P p ys"
    then obtain ys zs where "x # xs = ys @ zs" "list_all2 P p ys" by (auto simp: prefix_def)
    then show "list_all2 P p (take (length p) (x # xs))" by (simp add: list_all2_lengthD)
  qed (use take_is_prefix in blast)
  with Cons show ?case by (auto simp: sublist_Cons_right)
qed simp

lemma slice_of_take_drop: "slice_of mem i n = xs \<Longrightarrow> k + l \<le> n \<Longrightarrow> slice_of mem (i + k) l = take l (drop k xs)"
  by (intro nth_equalityI) (auto simp: slice_of_def add.assoc)

lemma chars_whole:
  assumes "slice_of mem i (sz - i) = text" and "whole_text text"
  shows "chars mem sz i = split_chars text"
  using assms
proof (induction "text" arbitrary: i rule: split_chars.induct)
  case 1
  then have "\<not> i < sz" by (auto simp: slice_of_def)
  then show ?case by (simp add: chars.simps [of mem sz i])
next
  case (2 b bs)
  let ?n = "utf8_char_size b"
  have len: "length (b # bs) = sz - i" using arg_cong [OF 2(2), of length] by (simp add: slice_of_def)
  then have i: "i < sz" by simp
  then have b: "mem i = b" using 2(2) by (simp add: slice_of_def upt_conv_Cons)
  have whole: "one_char (take ?n (b # bs))" "whole_text (drop ?n (b # bs))"
    using 2(3) by (simp_all add: whole_text_def)
  have "hd (take ?n (b # bs)) = b" using utf8_char_size_pos [of b] by (cases ?n) simp_all
  then have n: "?n \<le> length (b # bs)" using whole(1) by (auto simp: one_char_def)
  from n len have le: "?n + (sz - (i + ?n)) \<le> sz - i" "?n \<le> sz - i" "sz - (i + ?n) = length (drop ?n (b # bs))" using i by auto
  have "slice_of mem i ?n = take ?n (b # bs)" using slice_of_take_drop [OF 2(2), of 0 ?n] le(2) by simp
  moreover have "slice_of mem (i + ?n) (sz - (i + ?n)) = drop ?n (b # bs)"
    using slice_of_take_drop [OF 2(2) le(1)] unfolding le(3) by (simp only: take_all_iff order_refl)
  then have "chars mem sz (i + ?n) = split_chars (drop ?n (b # bs))" by (rule 2(1) [OF _ whole(2)])
  ultimately show ?case using i b by (simp add: chars.simps [of mem sz i] Let_def)
qed

text \<open>What the code asks of the term, and when a text has it.\<close>

definition good_term :: "(bytes \<Rightarrow> bytes) \<Rightarrow> (bytes \<Rightarrow> bytes) \<Rightarrow> bytes \<Rightarrow> bool" where
  "good_term to_lower to_upper term \<longleftrightarrow>
     term \<noteq> [] \<and> whole_text term \<and> folds_well to_lower to_upper (split_chars term)"

definition has_term :: "(bytes \<Rightarrow> bytes) \<Rightarrow> (bytes \<Rightarrow> bytes) \<Rightarrow> bytes \<Rightarrow> bytes \<Rightarrow> bool" where
  "has_term to_lower to_upper term text =
     contains_run (matches to_lower to_upper) (split_chars term) (split_chars text)"

lemma slice_c_memory: "slice_of (c_memory s junk) 0 (length s) = s"
  by (intro nth_equalityI) (auto simp: slice_of_def c_memory_def)

lemma term_is_found:
  assumes "code_term to_lower to_upper junk term = Some ct" and "good_term to_lower to_upper term"
    and "slice_of mem 0 sz = text" and "whole_text text"
  shows "\<exists>r. kmp_strstr (Some mem) sz (ct_coded ct) (ct_prefix ct) (c_memory (ct_symbs ct) junk') (ct_indexes ct) = Some r \<and>
    (r \<noteq> -1 \<longleftrightarrow> has_term to_lower to_upper term text)"
proof -
  obtain ks s where c: "convert_string_to_vector to_lower to_upper junk term = (ks, s)" by (metis surj_pair)
  with assms(1) obtain pfx where ct: "ct = \<lparr>ct_coded = ks, ct_prefix = pfx, ct_symbs = sy_symbols s, ct_indexes = sy_indexes s\<rparr>"
    and pfx: "build_prefix ks = Some pfx" by (auto simp: code_term_def)
  have g: "term \<noteq> []" "whole_text term" "folds_well to_lower to_upper (split_chars term)"
    using assms(2) by (simp_all add: good_term_def)
  have cs: "chars (c_memory term junk) (length term) 0 = split_chars term"
    using chars_whole [of "c_memory term junk" 0 "length term" "term"] g(2) by (simp add: slice_c_memory)
  have tc: "chars mem sz 0 = split_chars text" using chars_whole [of mem 0 sz "text"] assms(3,4) by simp
  have "split_chars term \<noteq> []" using g(1) by (cases "term") simp_all
  from kmp_finds [OF coded_string [OF c, unfolded cs] g(3) this pfx, of mem sz junk'] show ?thesis
    by (simp add: ct has_term_def contains_run_iff tc)
qed


subsection \<open>What is found\<close>

text \<open>The reference: what one stored message does to the results.\<close>

definition searchable :: "int \<Rightarrow> history_message \<Rightarrow> bool" where
  "searchable min_id m \<longleftrightarrow> hm_msgid m \<noteq> -1 \<and> hm_msgid m > min_id \<and> hm_sticker m = None \<and> hm_chat_event m = None \<and>
     hm_text m \<noteq> []"

definition search_step ::
  "(bytes \<Rightarrow> bool) \<Rightarrow> int \<Rightarrow> (history_message \<Rightarrow> history_message) \<Rightarrow> bytes \<Rightarrow> history_message \<Rightarrow> found_messages \<Rightarrow> found_messages" where
  "search_step hit min_id stored contact m found =
     (if \<not> searchable min_id m then found
      else if hit (hm_text m) then add_found contact (stored m) (hm_msgid m) found
      else drop_found contact (hm_msgid m) found)"

text \<open>The searches on the bytes of a message move nothing but the output cursor.\<close>

definition same_bytes :: "binary_stream \<Rightarrow> binary_stream \<Rightarrow> bool" where
  "same_bytes s s' \<longleftrightarrow> bs_buffer s' = bs_buffer s \<and> bs_input s' = bs_input s"

lemma same_bytes_set_output: "same_bytes s s' \<Longrightarrow> set_output b s' = set_output b s"
  by (simp add: same_bytes_def set_output_def)

lemma same_bytes_trans: "same_bytes a b \<Longrightarrow> same_bytes b c \<Longrightarrow> same_bytes a c"
  by (simp add: same_bytes_def)

lemma same_bytes_read:
  "read_bytes n s = Some (x, s') \<Longrightarrow> same_bytes s s'"
  by (auto simp: read_bytes_def same_bytes_def split: if_splits)

lemma same_bytes_refl [simp]: "same_bytes s s"
  by (simp add: same_bytes_def)

lemma same_bytes_field: "try_get_field_with_type ty s = Some (ok, n, s') \<Longrightarrow> same_bytes s s'"
  by (auto simp: try_get_field_with_type_def read_u32_def bind_eq_Some_conv split: if_splits option.splits
      dest!: same_bytes_read intro: same_bytes_trans)

lemma same_bytes_find: "find_field ty len s = Some (ok, n, s') \<Longrightarrow> same_bytes s s'"
proof (induction ty len s rule: find_field.induct)
  case (1 ty len s)
  then show ?case
    by (subst (asm) (2) find_field.simps)
      (auto split: if_splits option.splits prod.splits dest!: same_bytes_field intro: same_bytes_trans)
qed

lemma same_bytes_searches:
  "get_id_field s = Some (i, s') \<Longrightarrow> same_bytes s s'" "is_sticker s = Some (b, s') \<Longrightarrow> same_bytes s s'"
  "is_chat_event s = Some (b, s') \<Longrightarrow> same_bytes s s'" "jump_to_text_field len s = Some (n, s') \<Longrightarrow> same_bytes s s'"
  by (auto simp: get_id_field_def is_sticker_def is_chat_event_def jump_to_text_field_def read_i64_def bind_eq_Some_conv
      split: if_splits dest!: same_bytes_find same_bytes_read intro: same_bytes_trans)


lemma same_bytes_tlv: "tlv_unserialize s = Some (b, t, s') \<Longrightarrow> same_bytes s s'"
  by (auto simp: tlv_unserialize_def read_u32_def bind_eq_Some_conv Let_def split: if_splits option.splits
      dest!: same_bytes_read intro: same_bytes_trans)

lemma same_bytes_loop: "unserialize_loop acc s = Some (b, ts, s') \<Longrightarrow> same_bytes s s'"
proof (induction acc s rule: unserialize_loop.induct)
  case (1 acc s)
  then show ?case
    by (subst (asm) (2) unserialize_loop.simps)
      (auto split: if_splits option.splits prod.splits dest!: same_bytes_tlv intro: same_bytes_trans)
qed

lemma same_bytes_message: "message_unserialize rd s m = Some (code, m', s') \<Longrightarrow> same_bytes s s'"
  by (auto simp: message_unserialize_def unserialize_call_def pack_unserialize_def bind_eq_Some_conv split: if_splits
      dest!: same_bytes_loop)

text \<open>
  The same pass with the limit on the results: a message above the least id takes the place of the oldest
  id when the set is too large, and is passed over when the set has no older one.
\<close>

definition limited_step ::
  "(bytes \<Rightarrow> bool) \<Rightarrow> int \<Rightarrow> (history_message \<Rightarrow> history_message) \<Rightarrow> bytes \<Rightarrow> history_message \<Rightarrow>
    int set \<times> found_messages \<Rightarrow> int set \<times> found_messages" where
  "limited_step hit min_id stored contact m st =
     (case st of (ids, found) \<Rightarrow>
        if hm_msgid m = -1 \<or> hm_msgid m \<le> min_id then (ids, found)
        else case make_room (hm_msgid m) ids of
            None \<Rightarrow> (ids, found)
          | Some ids \<Rightarrow> (if searchable min_id m \<and> hit (hm_text m) then insert (hm_msgid m) ids else ids,
                        search_step hit min_id stored contact m found))"

subsection \<open>The search finds what is stored\<close>

definition env_for :: "search_env \<Rightarrow> (bytes \<Rightarrow> bool) \<Rightarrow> bool" where
  "env_for env hit \<longleftrightarrow> (\<forall>mem t junk. slice_of mem 0 (length t) = t \<longrightarrow> whole_text t \<longrightarrow>
     (\<exists>r. kmp_strstr (Some mem) (length t) (ct_coded (se_term env)) (ct_prefix (se_term env))
        (c_memory (ct_symbs (se_term env)) junk) (ct_indexes (se_term env)) = Some r \<and> (r \<noteq> -1 \<longleftrightarrow> hit t)))"

lemma env_for_term:
  assumes "code_term to_lower to_upper junk term = Some (se_term env)" and "good_term to_lower to_upper term"
  shows "env_for env (has_term to_lower to_upper term)"
  unfolding env_for_def using term_is_found [OF assms] by blast

text \<open>A message that the search can handle: the archive stores it, and its text consists of whole characters.\<close>

definition search_fits :: "junk \<Rightarrow> history_message \<Rightarrow> bool" where
  "search_fits junk m \<longleftrightarrow> message_fits junk m \<and> whole_text (hm_text m)"

lemma text_memory_slice:
  assumes "wf_stream s" and "take n (pending s) = t" and "length t = n"
  shows "slice_of (text_memory s junk) 0 n = t"
proof (intro nth_equalityI)
  fix i assume "i < length (slice_of (text_memory s junk) 0 n)"
  then have i: "i < n" by (simp add: slice_of_def)
  have "n \<le> length (pending s)" using assms(2,3) by auto
  then have "n \<le> bs_input s - bs_output s" "bs_input s \<le> length (bs_buffer s)"
    using assms(1) length_pending [OF assms(1)] by (simp_all add: wf_stream_def)
  then have "t ! i = bs_buffer s ! (bs_output s + i)" "bs_output s + i < length (bs_buffer s)"
    using i assms(2) by (auto simp: pending_def)
  then show "slice_of (text_memory s junk) 0 n ! i = t ! i"
    using i by (simp add: slice_of_def text_memory_def all_size_def)
qed (use assms(3) in \<open>simp add: slice_of_def\<close>)

lemma search_block_message:
  assumes env: "env_for env hit" and fits: "search_fits junk m"
    and s: "wf_stream (set_output b s)" "pending (set_output b s) = message_bytes junk m"
  shows "\<exists>s'. search_block env contact b s ids found =
      Some (s', limited_step hit (se_min_id env) (stored_message junk (se_reader env)) contact m (ids, found)) \<and>
    bs_buffer s' = bs_buffer s"
proof -
  let ?s = "set_output b s"
  have f: "message_fits junk m" "whole_text (hm_text m)" using fits by (simp_all add: search_fits_def)
  then have r: "i64_range (hm_msgid m)" by (simp add: message_fits_def good_message_def)
  obtain s1 s2 s3 s4 n where q: "get_id_field ?s = Some (hm_msgid m, s1)" "is_sticker ?s = Some (hm_sticker m \<noteq> None, s2)"
    "is_chat_event ?s = Some (hm_chat_event m \<noteq> None, s3)" "jump_to_text_field 0 ?s = Some (n, s4)"
    "unat n = length (hm_text m)" "wf_stream s4" "take (unat n) (pending s4) = hm_text m"
    using searches_on_bytes [OF r message_fits_good(2) [OF f(1)] s(1), of 0] s(2) by (auto simp: message_bytes_def)
  note sb = same_bytes_searches(1) [OF q(1)] same_bytes_searches(2) [OF q(2)] same_bytes_searches(3) [OF q(3)]
    same_bytes_searches(4) [OF q(4)]
  have twice: "set_output b ?s = ?s" "bs_buffer ?s = bs_buffer s" by (simp_all add: set_output_def)
  note same = sb [THEN same_bytes_set_output, of b, unfolded twice(1)]
  have buf: "bs_buffer s1 = bs_buffer s" "bs_buffer s2 = bs_buffer s" "bs_buffer s3 = bs_buffer s" "bs_buffer s4 = bs_buffer s"
    using sb by (simp_all add: same_bytes_def twice(2))
  note block = search_block_def q(1-4) same Let_def limited_step_def search_step_def
  show ?thesis
  proof (cases "hm_msgid m = -1 \<or> hm_msgid m \<le> se_min_id env \<or> make_room (hm_msgid m) ids = None")
    case True
    then show ?thesis using buf by (cases "hm_msgid m = -1 \<or> hm_msgid m \<le> se_min_id env") (auto simp: block)
  next
    case False
    then obtain ids' where id: "hm_msgid m \<noteq> -1" "\<not> hm_msgid m \<le> se_min_id env" "make_room (hm_msgid m) ids = Some ids'" by blast
    show ?thesis
    proof (cases "searchable (se_min_id env) m")
      case no: False
      show ?thesis
      proof (cases "hm_sticker m \<noteq> None \<or> hm_chat_event m \<noteq> None")
        case True
        with no id buf show ?thesis by (auto simp: block)
      next
        case plain: False
        with no id have "n = 0" using q(5) by (auto simp: searchable_def unat_eq_0)
        with no id plain buf show ?thesis by (auto simp: block)
      qed
    next
      case yes: True
      then have t: "hm_sticker m = None" "hm_chat_event m = None" "hm_text m \<noteq> []" by (auto simp: searchable_def)
      then have n: "n \<noteq> 0" "pending s4 \<noteq> []" using q(5,7) by auto
      have av: "available s4 \<noteq> 0" using available_pending [OF q(6)] n(2) by simp
      obtain r where r: "kmp_strstr (Some (text_memory s4 (se_junk env))) (unat n) (ct_coded (se_term env)) (ct_prefix (se_term env))
          (c_memory (ct_symbs (se_term env)) (se_junk env)) (ct_indexes (se_term env)) = Some r" "r \<noteq> -1 \<longleftrightarrow> hit (hm_text m)"
        using env f(2) text_memory_slice [OF q(6,7)] q(5) unfolding env_for_def by metis
      let ?s5 = "advance (length (pending s4)) s4"
      have five: "set_output b ?s5 = ?s" "bs_buffer ?s5 = bs_buffer s"
        using same(4) buf(4) by (simp_all add: advance_def set_output_def)
      obtain d where d: "message_unserialize (se_reader env) ?s init_default = Some (0, stored_message junk (se_reader env) m, d)"
        using message_unserialize_bytes [OF f(1) s] by blast
      have "bs_buffer d = bs_buffer s" using same_bytes_message [OF d] twice(2) by (simp add: same_bytes_def)
      then show ?thesis using t n(1) av r read_available_pending [OF q(6) n(2)] five d id yes by (simp add: block)
    qed
  qed
qed

lemma block_pending:
  assumes "drop p (take e buf) = enc_block x @ r" and "e \<le> length buf"
  shows "take (length x) (drop (p + 8) buf) = x"
proof -
  let ?w = "u32_image (word_of_nat (length x))"
  have d8: "drop (p + 8) (take e buf) = x @ ?w @ ?w @ r"
    using drop_step [of p "take e buf" "?w @ ?w"] assms(1) by (simp add: enc_block_def Let_def)
  have "length (drop (p + 8) (take e buf)) = length x + 8 + length r" using d8 by simp
  then have "length x \<le> e - (p + 8)" using assms(2) by (simp add: min_def split: if_splits)
  then have "take (length x) (drop (p + 8) buf) = take (length x) (drop (p + 8) (take e buf))"
    using assms(2) by (simp add: slice_take_drop min_def)
  with d8 show ?thesis by simp
qed

lemma region_end: "fast_read_data_block s e 0 e = Some (False, s, e, 0)"
  by (simp add: fast_read_data_block_def fast_scan.simps [of _ e e])

lemma search_region_messages:
  assumes "env_for env hit" and "list_all (search_fits junk) ms" and "e \<le> length (bs_buffer s)" and "pos \<le> e"
    and "drop pos (take e (bs_buffer s)) = blocks_of junk ms"
  shows "\<exists>s'. search_region env contact e pos s ids found =
      Some (e, s', fold (limited_step hit (se_min_id env) (stored_message junk (se_reader env)) contact) ms (ids, found)) \<and>
    bs_buffer s' = bs_buffer s"
  using assms(2-)
proof (induction ms arbitrary: pos s ids found)
  case Nil
  then have "pos = e" by (simp add: blocks_of_def)
  then show ?case by (simp add: search_region.simps [of _ _ e e] region_end)
next
  case (Cons m ms)
  let ?bs = "message_bytes junk m"
  have m: "search_fits junk m" and ms: "list_all (search_fits junk) ms" using Cons.prems(1) by simp_all
  have good: "good_block ?bs" using m message_fits_good(1) by (simp add: search_fits_def)
  have d: "drop pos (take e (bs_buffer s)) = enc_block ?bs @ blocks_of junk ms" using Cons.prems(4) by (simp add: blocks_of_def)
  let ?s = "set_input (pos + 8 + length ?bs) (set_output (pos + 8) s)"
  have rd: "fast_read_data_block s pos 0 e = Some (True, ?s, pos + 16 + length ?bs, pos + 8)"
    by (rule fast_read_block [OF Cons.prems(2) good d])
  have len: "pos + 16 + length ?bs \<le> e"
    using arg_cong [OF d, of length] Cons.prems(2,3) by (simp add: min_absorb2)
  have wf: "wf_stream (set_output (pos + 8) ?s)" using len Cons.prems(2) by (simp add: wf_stream_def set_input_def set_output_def)
  have pend: "pending (set_output (pos + 8) ?s) = ?bs"
    using block_pending [OF d Cons.prems(2)] by (simp add: pending_def set_input_def set_output_def)
  let ?step = "limited_step hit (se_min_id env) (stored_message junk (se_reader env)) contact"
  obtain ids1 found1 where st: "?step m (ids, found) = (ids1, found1)" by (cases "?step m (ids, found)")
  from search_block_message [OF assms(1) m wf pend, of contact ids found] st obtain s1 where one:
    "search_block env contact (pos + 8) ?s ids found = Some (s1, ids1, found1)" "bs_buffer s1 = bs_buffer ?s" by auto
  have buf: "bs_buffer s1 = bs_buffer s" using one(2) by (simp add: set_input_def set_output_def)
  have rest: "drop (pos + 16 + length ?bs) (take e (bs_buffer s1)) = blocks_of junk ms"
    using drop_step [OF d] buf by (simp add: ac_simps)
  have e: "e \<le> length (bs_buffer s1)" using Cons.prems(2) buf by simp
  from Cons.IH [OF ms e len rest, of ids1 found1] obtain s2 where two:
    "search_region env contact e (pos + 16 + length ?bs) s1 ids1 found1 = Some (e, s2, fold ?step ms (ids1, found1))"
    "bs_buffer s2 = bs_buffer s1" by blast
  have "search_region env contact e pos s ids found = Some (e, s2, fold ?step (m # ms) (ids, found))"
    unfolding search_region.simps [of env contact e pos s ids found] using rd one(1) two(1) st by simp
  then show ?case using two(2) buf by simp
qed

subsection \<open>All contacts\<close>

text \<open>The regions of a buffer that holds the files of several contacts.\<close>

fun layout :: "junk \<Rightarrow> nat \<Rightarrow> (bytes \<times> history_message list) list \<Rightarrow> (bytes \<times> nat) list" where
  "layout junk n [] = [([], n)]"
| "layout junk n ((contact, ms) # cs) = (contact, n) # layout junk (n + length (blocks_of junk ms)) cs"

definition all_blocks :: "junk \<Rightarrow> (bytes \<times> history_message list) list \<Rightarrow> bytes" where
  "all_blocks junk cs = concat (map (\<lambda>(_, ms). blocks_of junk ms) cs)"

definition found_in ::
  "(bytes \<Rightarrow> bool) \<Rightarrow> int \<Rightarrow> (history_message \<Rightarrow> history_message) \<Rightarrow> (bytes \<times> history_message list) list \<Rightarrow> found_messages \<Rightarrow> found_messages" where
  "found_in hit min_id stored cs = fold (\<lambda>(contact, ms). fold (search_step hit min_id stored contact) ms) cs"

definition limited_in ::
  "(bytes \<Rightarrow> bool) \<Rightarrow> int \<Rightarrow> (history_message \<Rightarrow> history_message) \<Rightarrow> (bytes \<times> history_message list) list \<Rightarrow>
    int set \<times> found_messages \<Rightarrow> int set \<times> found_messages" where
  "limited_in hit min_id stored cs = fold (\<lambda>(contact, ms). fold (limited_step hit min_id stored contact) ms) cs"

definition offset_after :: "junk \<Rightarrow> bytes \<times> history_message list \<Rightarrow> int \<Rightarrow> int" where
  "offset_after junk c off = (case c of (contact, ms) \<Rightarrow>
     if off = -1 \<or> contact \<noteq> [] \<and> ms = [] then -1 else off + int (length (blocks_of junk ms)))"

lemma blocks_of_empty: "length (blocks_of junk ms) = 0 \<longleftrightarrow> ms = []"
  by (cases ms) (auto simp: blocks_of_def simp flip: length_0_conv)

lemma next_offset_after: "next_offset contact n (n + length (blocks_of junk ms)) off = offset_after junk (contact, ms) off"
  using blocks_of_empty [of junk ms] by (auto simp: next_offset_def offset_after_def Let_def)

lemma layout_head: "\<exists>c2 tl. layout junk n cs = (c2, n) # tl"
  by (cases cs) auto

lemma search_contacts_layout:
  assumes "env_for env hit" and "list_all (\<lambda>(_, ms). list_all (search_fits junk) ms) cs" and "length offs = length cs"
    and "drop n (bs_buffer s) = all_blocks junk cs" and "n \<le> length (bs_buffer s)"
  shows "\<exists>s'. search_contacts env (layout junk n cs) offs s ids found =
      Some (map2 (offset_after junk) cs offs, s', limited_in hit (se_min_id env) (stored_message junk (se_reader env)) cs (ids, found))"
  using assms(2-)
proof (induction cs arbitrary: n offs s ids found)
  case Nil
  then show ?case by (simp add: limited_in_def)
next
  case (Cons c cs)
  obtain contact ms where c: "c = (contact, ms)" by (cases c)
  obtain off os where offs: "offs = off # os" "length os = length cs" using Cons.prems(2) by (cases offs) auto
  let ?e = "n + length (blocks_of junk ms)"
  have ms: "list_all (search_fits junk) ms" and cs: "list_all (\<lambda>(_, ms). list_all (search_fits junk) ms) cs"
    using Cons.prems(1) c by simp_all
  have d: "drop n (bs_buffer s) = blocks_of junk ms @ all_blocks junk cs" using Cons.prems(3) c by (simp add: all_blocks_def)
  have e: "?e \<le> length (bs_buffer s)" using arg_cong [OF d, of length] Cons.prems(4) by simp
  have here: "drop n (take ?e (bs_buffer s)) = blocks_of junk ms" using d by (simp add: drop_take)
  have rest: "drop ?e (bs_buffer s) = all_blocks junk cs"
    using arg_cong [OF d, of "drop (length (blocks_of junk ms))"] by (simp add: add.commute)
  let ?step = "limited_step hit (se_min_id env) (stored_message junk (se_reader env))"
  obtain ids1 found1 where st: "fold (?step contact) ms (ids, found) = (ids1, found1)"
    by (cases "fold (?step contact) ms (ids, found)")
  from search_region_messages [OF assms(1) ms e le_add1 here, of contact ids found] st obtain s1 where one:
    "search_region env contact ?e n s ids found = Some (?e, s1, ids1, found1)" "bs_buffer s1 = bs_buffer s" by auto
  have more: "drop ?e (bs_buffer s1) = all_blocks junk cs" "?e \<le> length (bs_buffer s1)"
    using rest e one(2) by simp_all
  from Cons.IH [OF cs offs(2) more, of ids1 found1] obtain s2 where two:
    "search_contacts env (layout junk ?e cs) os s1 ids1 found1 =
      Some (map2 (offset_after junk) cs os, s2, limited_in hit (se_min_id env) (stored_message junk (se_reader env)) cs (ids1, found1))"
    by blast
  obtain c2 tl where l: "layout junk ?e cs = (c2, ?e) # tl" using layout_head by blast
  have "limited_in hit (se_min_id env) (stored_message junk (se_reader env)) (c # cs) (ids, found) =
      limited_in hit (se_min_id env) (stored_message junk (se_reader env)) cs (ids1, found1)"
    using st by (simp add: limited_in_def c)
  then show ?case using one(1) two l unfolding c offs(1) by (simp add: next_offset_after)
qed

subsection \<open>What the limit keeps\<close>

text \<open>The ids a search looks at, and the ids of which at most a hundred are not older.\<close>

definition searched_ids :: "int \<Rightarrow> (bytes \<times> history_message list) list \<Rightarrow> int list" where
  "searched_ids min_id cs = filter (\<lambda>i. i \<noteq> -1 \<and> min_id < i) (concat (map (map hm_msgid \<circ> snd) cs))"

definition among_newest :: "int list \<Rightarrow> int \<Rightarrow> bool" where
  "among_newest is i \<longleftrightarrow> card (set (filter ((\<le>) i) is)) \<le> search_limit"

definition results :: "found_messages \<Rightarrow> bytes \<Rightarrow> history_message list" where
  "results found contact = (case found contact of None \<Rightarrow> [] | Some ms \<Rightarrow> ms)"

abbreviation kept :: "(int \<Rightarrow> bool) \<Rightarrow> found_messages \<Rightarrow> bytes \<Rightarrow> history_message list" where
  "kept N found contact \<equiv> filter (\<lambda>m. N (hm_msgid m)) (results found contact)"

lemma filter_put_message:
  "hm_msgid m = mid \<Longrightarrow> filter (\<lambda>x. N (hm_msgid x)) (put_message m mid xs) =
    (if N mid then put_message m mid (filter (\<lambda>x. N (hm_msgid x)) xs) else filter (\<lambda>x. N (hm_msgid x)) xs)"
  by (induction xs) auto

lemma filter_erase_message:
  "filter (\<lambda>x. N (hm_msgid x)) (erase_message mid xs) =
    (if N mid then erase_message mid (filter (\<lambda>x. N (hm_msgid x)) xs) else filter (\<lambda>x. N (hm_msgid x)) xs)"
  by (induction xs) auto

lemma results_step:
  "results (search_step hit min_id stored c m found) c' =
    (if c' = c \<and> searchable min_id m then
       if hit (hm_text m) then put_message (stored m) (hm_msgid m) (results found c) else erase_message (hm_msgid m) (results found c)
     else results found c')"
  by (simp add: search_step_def add_found_def drop_found_def results_def split: option.split)

lemma kept_step:
  assumes "hm_msgid (stored m) = hm_msgid m"
  shows "kept N (search_step hit min_id stored c m found) c' =
    (if c' = c \<and> searchable min_id m \<and> N (hm_msgid m) then
       if hit (hm_text m) then put_message (stored m) (hm_msgid m) (kept N found c) else erase_message (hm_msgid m) (kept N found c)
     else kept N found c')"
  by (simp add: results_step filter_put_message [OF assms] filter_erase_message)

lemma passed_over_is_old:
  assumes "make_room i ids = None" and "ids \<subseteq> set js"
  shows "\<not> among_newest js i"
proof -
  have "search_limit < card ids" "ids \<subseteq> set (filter ((\<le>) i) js)"
    using assms by (auto simp: make_room_def not_less split: if_splits)
  then show ?thesis using card_mono [of "set (filter ((\<le>) i) js)" ids] by (simp add: among_newest_def)
qed

lemma limited_step_kept:
  assumes "hm_msgid (stored m) = hm_msgid m" and "limited_step hit min_id stored c m (ids, found) = (ids', found')"
    and "\<And>d. kept (among_newest js) found d = kept (among_newest js) found2 d" and "ids \<subseteq> set js"
    and "hm_msgid m \<noteq> -1 \<and> min_id < hm_msgid m \<Longrightarrow> hm_msgid m \<in> set js"
  shows "kept (among_newest js) found' d = kept (among_newest js) (search_step hit min_id stored c m found2) d" (is ?kept)
    and "ids' \<subseteq> set js" (is ?ids)
proof -
  note kept = kept_step [where stored = stored and m = m and N = "among_newest js", OF assms(1)]
  have "?kept \<and> ?ids"
  proof (cases "hm_msgid m = -1 \<or> hm_msgid m \<le> min_id")
    case True
    then have "\<not> searchable min_id m" by (auto simp: searchable_def)
    with True assms(2-4) show ?thesis by (auto simp: limited_step_def search_step_def)
  next
    case id: False
    show ?thesis
    proof (cases "make_room (hm_msgid m) ids")
      case None
      with id assms(2) have "found' = found" "ids' = ids" by (simp_all add: limited_step_def)
      then show ?thesis using assms(3,4) passed_over_is_old [OF None assms(4)] by (simp add: kept)
    next
      case (Some ids1)
      then have "ids1 \<subseteq> set js" using assms(4,5) id by (auto simp: make_room_def split: if_splits)
      moreover have "found' = search_step hit min_id stored c m found" "ids' \<subseteq> insert (hm_msgid m) ids1"
        using Some id assms(2) by (auto simp: limited_step_def split: if_splits)
      ultimately show ?thesis using assms(3,5) id by (auto simp: kept)
    qed
  qed
  then show ?kept and ?ids by simp_all
qed

text \<open>All messages with their contacts, in the order in which the search meets them.\<close>

abbreviation in_order :: "(bytes \<times> history_message list) list \<Rightarrow> (bytes \<times> history_message) list" where
  "in_order cs \<equiv> concat (map (\<lambda>(c, ms). map (Pair c) ms) cs)"

lemma fold_in_order: "fold (\<lambda>(c, ms). fold (f c) ms) cs x = fold (\<lambda>(c, m). f c m) (in_order cs) x"
  by (induction cs arbitrary: x) (auto simp: fold_map comp_def)

lemma limited_fold_kept:
  assumes "\<And>m. hm_msgid (stored m) = hm_msgid m" and "ids \<subseteq> set js"
    and "\<And>d. kept (among_newest js) found d = kept (among_newest js) found2 d"
    and "\<And>c m. (c, m) \<in> set xs \<Longrightarrow> hm_msgid m \<noteq> -1 \<and> min_id < hm_msgid m \<Longrightarrow> hm_msgid m \<in> set js"
  shows "kept (among_newest js) (snd (fold (\<lambda>(c, m). limited_step hit min_id stored c m) xs (ids, found))) d =
    kept (among_newest js) (fold (\<lambda>(c, m). search_step hit min_id stored c m) xs found2) d"
  using assms(2-)
proof (induction xs arbitrary: ids found found2)
  case (Cons x xs)
  obtain c m where x: "x = (c, m)" by (cases x)
  obtain ids' found' where st: "limited_step hit min_id stored c m (ids, found) = (ids', found')"
    by (cases "limited_step hit min_id stored c m (ids, found)")
  have here: "hm_msgid m \<noteq> -1 \<and> min_id < hm_msgid m \<Longrightarrow> hm_msgid m \<in> set js" using Cons.prems(3) x by auto
  note one = limited_step_kept [OF assms(1) st Cons.prems(2) Cons.prems(1) here]
  have rest: "hm_msgid m \<noteq> -1 \<and> min_id < hm_msgid m \<Longrightarrow> hm_msgid m \<in> set js" if "(c, m) \<in> set xs" for c m
    using Cons.prems(3) [of c m] that by simp
  from Cons.IH [OF one(2,1) rest] show ?case by (simp add: x st)
qed simp

lemma limited_fold_all:
  assumes "card ids + length xs \<le> Suc search_limit" and "finite ids"
  shows "snd (fold (\<lambda>(c, m). limited_step hit min_id stored c m) xs (ids, found)) =
    fold (\<lambda>(c, m). search_step hit min_id stored c m) xs found"
  using assms
proof (induction xs arbitrary: ids found)
  case (Cons x xs)
  obtain c m where x: "x = (c, m)" by (cases x)
  have "make_room (hm_msgid m) ids = Some ids" using Cons.prems(1) by (simp add: make_room_def)
  then have "limited_step hit min_id stored c m (ids, found) \<in>
      {ids, insert (hm_msgid m) ids} \<times> {search_step hit min_id stored c m found}"
    by (auto simp: limited_step_def search_step_def searchable_def)
  then obtain ids' where st: "limited_step hit min_id stored c m (ids, found) = (ids', search_step hit min_id stored c m found)"
    "ids' \<in> {ids, insert (hm_msgid m) ids}" by (auto simp: mem_Times_iff prod_eq_iff)
  have "card ids' \<le> Suc (card ids)" "finite ids'" using st(2) Cons.prems(2) by (auto simp: card_insert_if)
  with Cons.IH [of ids'] Cons.prems(1) show ?case by (simp add: x st(1))
qed simp

lemma in_put_message: "x \<in> set (put_message m i xs) \<Longrightarrow> x = m \<or> x \<in> set xs"
  by (induction xs) (auto split: if_splits)

lemma in_erase_message: "x \<in> set (erase_message i xs) \<Longrightarrow> x \<in> set xs"
  by (induction xs) (auto split: if_splits)

lemma limited_fold_sound:
  "set (results (snd (fold (\<lambda>(c, m). limited_step hit min_id stored c m) xs st)) d) \<subseteq>
    set (results (snd st) d) \<union> {stored m | m. (d, m) \<in> set xs \<and> searchable min_id m \<and> hit (hm_text m)}"
proof (induction xs arbitrary: st)
  case (Cons x xs)
  obtain c m where x: "x = (c, m)" by (cases x)
  obtain ids found where st: "st = (ids, found)" by (cases st)
  have "snd (limited_step hit min_id stored c m st) \<in> {found, search_step hit min_id stored c m found}"
    by (auto simp: limited_step_def st split: option.split)
  then have "set (results (snd (limited_step hit min_id stored c m st)) d) \<subseteq>
      set (results found d) \<union> {stored m | m. (d, m) \<in> set (x # xs) \<and> searchable min_id m \<and> hit (hm_text m)}"
    by (auto simp: results_step x split: if_splits dest!: in_put_message in_erase_message)
  with Cons.IH [of "limited_step hit min_id stored c m st"] show ?case by (auto simp: x st)
qed simp

lemma length_in_order: "length (in_order cs) = sum_list (map (length \<circ> snd) cs)"
  by (induction cs) auto

lemma set_in_order: "(c, m) \<in> set (in_order cs) \<longleftrightarrow> (\<exists>ms. (c, ms) \<in> set cs \<and> m \<in> set ms)"
  by auto

lemma searched_in_order: "(c, m) \<in> set (in_order cs) \<Longrightarrow> hm_msgid m \<noteq> -1 \<and> min_id < hm_msgid m \<Longrightarrow>
    hm_msgid m \<in> set (searched_ids min_id cs)"
  by (force simp: searched_ids_def)

lemma stored_message_id: "hm_msgid (stored_message junk rd m) = hm_msgid m"
  by (simp add: stored_message_def)

text \<open>C5: The search over a buffer that holds the files of several contacts. If the files are the
  blocks of messages as the archive stores them, the search gives the results of one pass over the messages
  with the limit of a hundred results (\<open>limited_in\<close>), and each contact goes on behind its file next time.
  Whatever the number of messages, what is added to the results of a contact are messages of it, in their
  stored form, that have the term; and for the newest hundred of the searched ids the results are, in their
  order, those of a pass without a limit: an ordinary message with a text and an id above the least one is
  added when its text has the term, in the place of an older version of it, and when the text does not
  have the term, an older version is taken away. When the messages are no more than 101 this holds of all of them.\<close>

theorem search_finds_stored_messages:
  assumes "code_term to_lower to_upper mem term = Some (se_term env)" and "good_term to_lower to_upper term"
    and "list_all (\<lambda>(_, ms). list_all (search_fits junk) ms) cs" and "length offs = length cs"
    and "bs_buffer s = all_blocks junk cs"
  defines "hit \<equiv> has_term to_lower to_upper term" and "stored \<equiv> stored_message junk (se_reader env)"
  shows "\<exists>s' found'. search_in_archive env (layout junk 0 cs) offs s found = Some (map2 (offset_after junk) cs offs, s', found') \<and>
    found' = snd (limited_in hit (se_min_id env) stored cs ({}, found)) \<and>
    (\<forall>c. set (results found' c) \<subseteq> set (results found c) \<union>
      {stored m | m ms. (c, ms) \<in> set cs \<and> m \<in> set ms \<and> searchable (se_min_id env) m \<and> hit (hm_text m)}) \<and>
    (\<forall>c. filter (\<lambda>m. among_newest (searched_ids (se_min_id env) cs) (hm_msgid m)) (results found' c) =
      filter (\<lambda>m. among_newest (searched_ids (se_min_id env) cs) (hm_msgid m))
        (results (found_in hit (se_min_id env) stored cs found) c)) \<and>
    (sum_list (map (length \<circ> snd) cs) \<le> Suc search_limit \<longrightarrow> found' = found_in hit (se_min_id env) stored cs found)"
proof -
  let ?min = "se_min_id env"
  let ?found = "snd (limited_in hit ?min stored cs ({}, found))"
  have flat: "limited_in hit ?min stored cs ({}, found) = fold (\<lambda>(c, m). limited_step hit ?min stored c m) (in_order cs) ({}, found)"
    "found_in hit ?min stored cs found = fold (\<lambda>(c, m). search_step hit ?min stored c m) (in_order cs) found"
    by (simp_all add: limited_in_def found_in_def fold_in_order)
  have id: "hm_msgid (stored m) = hm_msgid m" for m by (simp add: stored_def stored_message_id)
  obtain s' where "search_contacts env (layout junk 0 cs) offs s {} found =
      Some (map2 (offset_after junk) cs offs, s', limited_in hit ?min stored cs ({}, found))"
    using search_contacts_layout [OF env_for_term [OF assms(1,2)] assms(3,4), of 0 s "{}" found] assms(5)
    by (auto simp: hit_def stored_def)
  then have "search_in_archive env (layout junk 0 cs) offs s found = Some (map2 (offset_after junk) cs offs, s', ?found)"
    by (simp add: search_in_archive_def split: prod.split)
  moreover have "set (results ?found c) \<subseteq> set (results found c) \<union>
      {stored m | m ms. (c, ms) \<in> set cs \<and> m \<in> set ms \<and> searchable ?min m \<and> hit (hm_text m)}" for c
    using limited_fold_sound [of hit ?min stored "in_order cs" "({}, found)" c] unfolding flat(1) by fastforce
  moreover have "kept (among_newest (searched_ids ?min cs)) ?found c =
      kept (among_newest (searched_ids ?min cs)) (found_in hit ?min stored cs found) c" for c
    unfolding flat by (rule limited_fold_kept [OF id _ _ searched_in_order]) auto
  moreover have "sum_list (map (length \<circ> snd) cs) \<le> Suc search_limit \<longrightarrow> ?found = found_in hit ?min stored cs found"
    unfolding flat using limited_fold_all [of "{}" "in_order cs"] by (simp add: length_in_order)
  ultimately show ?thesis by blast
qed

definition plain_message :: history_message where
  "plain_message = sample_message\<lparr>hm_sticker := None\<rparr>"

definition hi_message :: "nat \<Rightarrow> history_message" where
  "hi_message i = plain_message\<lparr>hm_msgid := int i\<rparr>"

lemma hi_fits: "i < 150 \<Longrightarrow> search_fits sample_junk (hi_message i)"
  by (simp add: search_fits_def message_fits_def message_bytes_def hi_message_def plain_message_def sample_message_def init_default_def
      pv_default_def quote_default_def good_message_def good_quote_def i64_range_def i32_range_def good_task_def
      task_default_def to_seconds_def om_ok_def message_fields_def quote_serialize_def task_serialize_fields task_fields_def
      mention_serialize_def reactions_serialize_def sticker_serialize_def serialize_opt_def
      whole_text_def one_char_def utf8_char_size_def)

text \<open>The letter ``I'' is looked for in the text ``Hi''.\<close>

definition sample_search :: search_env where
  "sample_search = \<lparr>se_term = \<lparr>ct_coded = [1], ct_prefix = [0], ct_symbs = [105, 73], ct_indexes = [0, 1]\<rparr>,
     se_min_id = -1, se_junk = (\<lambda>_. 0), se_reader = sample_reader\<rparr>"

lemma sample_term: "code_term ascii_lower ascii_upper (\<lambda>_. 0) [73] = Some (se_term sample_search)"
  "good_term ascii_lower ascii_upper [73]"
  by (simp_all add: code_term_def convert_string_to_vector_def convert_loop.simps get_char_index_def utf8_char_size_def
      c_memory_def slice_of_def ascii_lower_def ascii_upper_def no_symbols_def Let_def build_prefix_def sample_search_def
      good_term_def whole_text_def folds_well_def lower_form_def one_char_def)


text \<open>A file of 150 messages that all have the term, with the ids 0 to 149.\<close>

definition many_messages :: "(bytes \<times> history_message list) list" where
  "many_messages = [([97], map hi_message [0..<150])]"

lemma put_new_message: "\<forall>x\<in>set xs. hm_msgid x \<noteq> i \<Longrightarrow> put_message m i xs = xs @ [m]"
  by (induction xs) auto

lemma all_hi_found:
  assumes "\<And>m. hm_msgid (stored m) = hm_msgid m" and "hit [72, 105]"
  shows "results (fold (search_step hit (-1) stored c) (map hi_message [0..<n]) Map.empty) c = map (\<lambda>i. stored (hi_message i)) [0..<n]"
proof (induction n)
  case (Suc n)
  let ?f = "fold (search_step hit (-1) stored c) (map hi_message [0..<n]) Map.empty"
  have n: "searchable (-1) (hi_message n)" "hm_text (hi_message n) = [72, 105]" "hm_msgid (hi_message i) = int i" for i
    by (simp_all add: searchable_def hi_message_def plain_message_def sample_message_def init_default_def)
  have "put_message (stored (hi_message n)) (int n) (map (\<lambda>i. stored (hi_message i)) [0..<n]) =
      map (\<lambda>i. stored (hi_message i)) [0..<n] @ [stored (hi_message n)]"
    by (rule put_new_message) (simp add: assms(1) n(3))
  then show ?case using Suc n assms(2) by (simp add: results_step)
qed (simp add: results_def)

lemma newest_of_many: "i < 150 \<Longrightarrow> among_newest (searched_ids (-1) many_messages) (int i) \<longleftrightarrow> 50 \<le> i"
proof -
  assume i: "i < 150"
  have ids: "searched_ids (-1) many_messages = map int [0..<150]"
    by (simp add: searched_ids_def many_messages_def hi_message_def plain_message_def comp_def filter_map del: upt_rec_numeral)
  have "set (filter ((\<le>) (int i)) (map int [0..<150])) = int ` {i..<150}" by auto
  then have "card (set (filter ((\<le>) (int i)) (map int [0..<150]))) = 150 - i" by (simp add: card_image)
  with i show ?thesis by (simp add: among_newest_def ids search_limit_def del: upt_rec_numeral) linarith
qed

theorem search_finds_stored_messages_witness:
  "\<exists>offs s' found'. search_in_archive sample_search (layout sample_junk 0 many_messages) [0]
      \<lparr>bs_buffer = all_blocks sample_junk many_messages, bs_input = 0, bs_output = 0\<rparr> Map.empty = Some (offs, s', found') \<and>
    filter (\<lambda>m. 50 \<le> hm_msgid m) (results found' [97]) = map (\<lambda>i. stored_message sample_junk sample_reader (hi_message i)) [50..<150]"
proof -
  let ?buf = "\<lparr>bs_buffer = all_blocks sample_junk many_messages, bs_input = 0, bs_output = 0\<rparr>"
  let ?stored = "stored_message sample_junk sample_reader" and ?hit = "has_term ascii_lower ascii_upper [73]"
  let ?new = "among_newest (searched_ids (-1) many_messages)"
  have fits: "list_all (\<lambda>(_, ms). list_all (search_fits sample_junk) ms) many_messages"
    by (simp add: many_messages_def list_all_iff hi_fits del: upt_rec_numeral)
  have len: "length [0::int] = length many_messages" and buf: "bs_buffer ?buf = all_blocks sample_junk many_messages"
    by (simp_all add: many_messages_def)
  have env: "se_min_id sample_search = -1" "se_reader sample_search = sample_reader" by (simp_all add: sample_search_def)
  from search_finds_stored_messages [OF sample_term fits len buf, where found = Map.empty, unfolded env]
  obtain offs s' found' where search: "search_in_archive sample_search (layout sample_junk 0 many_messages) [0] ?buf Map.empty =
      Some (offs, s', found')"
    and sound: "set (results found' [97]) \<subseteq> set (results Map.empty [97]) \<union> {?stored m | m ms. ([97], ms) \<in> set many_messages \<and>
      m \<in> set ms \<and> searchable (-1) m \<and> ?hit (hm_text m)}"
    and newest: "filter (\<lambda>m. ?new (hm_msgid m)) (results found' [97]) =
      filter (\<lambda>m. ?new (hm_msgid m)) (results (found_in ?hit (-1) ?stored many_messages Map.empty) [97])"
    by (elim exE conjE) (rule that; (assumption | erule spec))
  have "\<exists>i<150. m = ?stored (hi_message i)" if "m \<in> set (results found' [97])" for m
    using subsetD [OF sound that] results_def [of Map.empty "[97]"] by (auto simp: many_messages_def simp del: upt_rec_numeral)
  then have "?new (hm_msgid m) \<longleftrightarrow> 50 \<le> hm_msgid m" if "m \<in> set (results found' [97])" for m
    using that newest_of_many by (force simp: stored_message_id hi_message_def)
  then have "filter (\<lambda>m. 50 \<le> hm_msgid m) (results found' [97]) = filter (\<lambda>m. ?new (hm_msgid m)) (results found' [97])"
    by (simp cong: filter_cong)
  also have "\<dots> = filter (\<lambda>m. ?new (hm_msgid m)) (map (\<lambda>i. ?stored (hi_message i)) [0..<150])"
    using newest all_hi_found [of ?stored ?hit "[97]" 150]
    by (simp add: found_in_def many_messages_def stored_message_id has_term_def matches_def lower_form_def ascii_lower_def
        ascii_upper_def utf8_char_size_def del: upt_rec_numeral)
  also have "\<dots> = filter (\<lambda>m. 50 \<le> hm_msgid m) (map (\<lambda>i. ?stored (hi_message i)) [0..<150])"
    by (rule filter_cong) (auto simp: stored_message_id hi_message_def newest_of_many simp del: upt_rec_numeral)
  also have "\<dots> = map (\<lambda>i. ?stored (hi_message i)) [50..<150]"
  proof -
    have "[0..<150] = [0..<50] @ [50..<150]" using upt_add_eq_append [of 0 50 100] by simp
    moreover have "filter (\<lambda>m. 50 \<le> hm_msgid m) (map (\<lambda>i. ?stored (hi_message i)) [0..<50]) = []"
      "filter (\<lambda>m. 50 \<le> hm_msgid m) (map (\<lambda>i. ?stored (hi_message i)) [50..<150]) = map (\<lambda>i. ?stored (hi_message i)) [50..<150]"
      by (auto simp: filter_empty_conv filter_id_conv stored_message_id hi_message_def simp del: upt_rec_numeral)
    ultimately show ?thesis by (simp only: map_append filter_append append_Nil)
  qed
  finally show ?thesis using search by blast
qed

end
