(* ===== verification/Pending_Messages.thy ===== *)
theory Pending_Messages
  imports Drafts
begin

text \<open>
  \<^verbatim>\<open>core/archive/not_sent_messages.h\<close> and \<^verbatim>\<open>.cpp\<close>, the entries: the messages that were not sent yet
  (class \<^verbatim>\<open>not_sent_message\<close>) and the deletions the server was not told of yet (class
  \<^verbatim>\<open>delete_message\<close>), with the form they have in a file.

  A pending message owns its message; the code keeps both behind shared pointers, and what a caller does
  to an object it got is one of the operations below. The clocks are arguments, and times are numbers.
\<close>

subsection \<open>Messages that were not sent\<close>

definition op_min :: int where "op_min = 0"
definition op_del_up_to :: int where "op_del_up_to = 2"
definition op_del_for_me :: int where "op_del_for_me = 3"
definition op_del_for_all :: int where "op_del_for_all = 4"
definition op_max :: int where "op_max = 5"

lemmas delete_operations [simp] = op_min_def op_del_up_to_def op_del_for_me_def op_del_for_all_def op_max_def

record not_sent_message =
  ns_aimid :: cstring
  ns_message :: history_message
  ns_duplicated :: bool
  ns_post_time :: int
  ns_calc_sent_stat :: bool
  ns_create_time :: int
  ns_modified :: bool
  ns_network_request_id :: cstring
  ns_deleted :: bool
  ns_delete_operation :: int
  ns_draft_delete_time :: "int option"

definition ns_default :: "int \<Rightarrow> not_sent_message" where
  "ns_default now = \<lparr>ns_aimid = [], ns_message = init_default, ns_duplicated = False, ns_post_time = 0,
     ns_calc_sent_stat = False, ns_create_time = now, ns_modified = False, ns_network_request_id = [],
     ns_deleted = False, ns_delete_operation = op_del_for_all, ns_draft_delete_time = None\<rparr>"

text \<open>\<^verbatim>\<open>@chat.agent\<close>, and the search for it in a contact.\<close>

definition chat_agent :: cstring where
  "chat_agent = map (\<lambda>c. of_char c) ''@chat.agent''"

fun occurs_in :: "cstring \<Rightarrow> cstring \<Rightarrow> bool" where
  "occurs_in p [] = (p = [])"
| "occurs_in p (x # xs) \<longleftrightarrow> take (length p) (x # xs) = p \<or> occurs_in p xs"

text \<open>The constructor for a new message. An empty internal id is replaced by a generated one.\<close>

definition mk_not_sent ::
  "int \<Rightarrow> cstring \<Rightarrow> cstring \<Rightarrow> cstring \<Rightarrow> formats \<Rightarrow> message_type \<Rightarrow> int \<Rightarrow> cstring \<Rightarrow> not_sent_message" where
  "mk_not_sent now generated aimid message fmt ty time iid =
     (let m = init_default\<lparr>hm_internal_id := (if iid = [] then generated else iid)\<rparr>;
          m = (msg_set_outgoing True m)\<lparr>hm_time := time\<rparr>;
          m = (if ty = sticker_type then m\<lparr>hm_sticker := Some message\<rparr>
               else m\<lparr>hm_text := message, hm_format := Some fmt\<rparr>);
          m = (if occurs_in chat_agent aimid then m\<lparr>hm_chat := Some chat_default\<rparr> else m)
      in (ns_default now)\<lparr>ns_aimid := aimid, ns_message := m\<rparr>)"

text \<open>A copy with a new time; the statistics mark and the time of creation are those of a new object.\<close>

definition ns_copy :: "int \<Rightarrow> not_sent_message \<Rightarrow> int \<Rightarrow> not_sent_message" where
  "ns_copy now x time = (ns_default now)\<lparr>
     ns_aimid := ns_aimid x, ns_duplicated := ns_duplicated x, ns_post_time := ns_post_time x,
     ns_message := (ns_message x)\<lparr>hm_time := time\<rparr>, ns_modified := ns_modified x,
     ns_network_request_id := ns_network_request_id x, ns_deleted := ns_deleted x,
     ns_delete_operation := ns_delete_operation x, ns_draft_delete_time := ns_draft_delete_time x\<rparr>"

text \<open>A file to send: nothing when the file does not exist.\<close>

definition ptt_content :: int where "ptt_content = 5"

definition mk_outgoing_file_sharing ::
  "(cstring \<Rightarrow> bool) \<Rightarrow> int \<Rightarrow> cstring \<Rightarrow> cstring \<Rightarrow> int \<Rightarrow> cstring \<Rightarrow> quote list \<Rightarrow> cstring \<Rightarrow> formats \<Rightarrow>
    (cstring \<times> cstring) list \<Rightarrow> int option \<Rightarrow> not_sent_message option" where
  "mk_outgoing_file_sharing is_exist now generated aimid time path quotes description description_format mentions duration =
     (let x = mk_not_sent now generated aimid [] [] file_sharing_type time []
      in if \<not> is_exist path then None
         else Some (x\<lparr>ns_message := (ns_message x)\<lparr>
           hm_file_sharing := Some \<lparr>fs_uri = [], fs_local_path = path, fs_duration = duration,
             fs_base_content_type = (if duration \<noteq> None then Some ptt_content else None)\<rparr>,
           hm_description := description, hm_description_format := Some description_format,
           hm_quotes := quotes, hm_mentions := mentions\<rparr>\<rparr>))"

definition mk_incoming_file_sharing :: "int \<Rightarrow> cstring \<Rightarrow> cstring \<Rightarrow> int \<Rightarrow> cstring \<Rightarrow> cstring \<Rightarrow> not_sent_message" where
  "mk_incoming_file_sharing now generated aimid time uri iid =
     (let x = mk_not_sent now generated aimid uri [] file_sharing_type time iid
      in x\<lparr>ns_message := (ns_message x)\<lparr>
           hm_file_sharing := Some \<lparr>fs_uri = uri, fs_local_path = [], fs_duration = None, fs_base_content_type = None\<rparr>\<rparr>\<rparr>)"

definition ns_internal_id :: "not_sent_message \<Rightarrow> cstring" where
  "ns_internal_id x = hm_internal_id (ns_message x)"

definition ns_request_id :: "not_sent_message \<Rightarrow> cstring" where
  "ns_request_id x = (if ns_network_request_id x = [] then ns_internal_id x else ns_network_request_id x)"

definition is_ready_to_send :: "not_sent_message \<Rightarrow> bool" where
  "is_ready_to_send x \<longleftrightarrow> \<not> ns_duplicated x \<and>
     (case hm_file_sharing (ns_message x) of None \<Rightarrow> True | Some f \<Rightarrow> fs_local_path f = [])"

definition ns_set_updated_id :: "int \<Rightarrow> not_sent_message \<Rightarrow> not_sent_message" where
  "ns_set_updated_id i x = x\<lparr>ns_message := (ns_message x)\<lparr>hm_msgid := i\<rparr>\<rparr>"

definition ns_set_delete_operation :: "junk \<Rightarrow> int \<Rightarrow> not_sent_message \<Rightarrow> not_sent_message" where
  "ns_set_delete_operation junk op x =
     (let x = x\<lparr>ns_delete_operation := op\<rparr>
      in if op = op_del_for_all then x\<lparr>ns_message := the (make_modified junk (Some (ns_message x)))\<rparr>
         else if op = op_del_for_me then x\<lparr>ns_message := the (make_deleted (Some (ns_message x)))\<rparr>
         else x)"

subsection \<open>Their stored form\<close>

definition nf_contact :: u32 where [simp]: "nf_contact = 1"
definition nf_message :: u32 where [simp]: "nf_message = 2"
definition nf_duplicated :: u32 where [simp]: "nf_duplicated = 3"
definition nf_modified :: u32 where [simp]: "nf_modified = 4"
definition nf_network_request_id :: u32 where [simp]: "nf_network_request_id = 5"
definition nf_deleted :: u32 where [simp]: "nf_deleted = 6"
definition nf_delete_op :: u32 where [simp]: "nf_delete_op = 7"
definition nf_draft_delete_time :: u32 where [simp]: "nf_draft_delete_time = 8"

definition not_sent_fields :: "junk \<Rightarrow> not_sent_message \<Rightarrow> tlv list" where
  "not_sent_fields junk x =
     [mk_tlv nf_contact (ns_aimid x),
      mk_tlv nf_duplicated (bool_image (ns_duplicated x)),
      mk_tlv nf_modified (bool_image (ns_modified x)),
      mk_tlv nf_network_request_id (ns_network_request_id x),
      mk_tlv nf_deleted (bool_image (ns_deleted x)),
      mk_tlv nf_delete_op (i32_image (ns_delete_operation x))] @
     opt (ns_draft_delete_time x \<noteq> None) (mk_tlv nf_draft_delete_time (i64_image (the (ns_draft_delete_time x)))) @
     [mk_tlv_stream nf_message (message_serialize junk (ns_message x) empty_stream)]"

definition not_sent_unserialize :: "reader \<Rightarrow> tlvpack \<Rightarrow> not_sent_message \<Rightarrow> (bool \<times> not_sent_message) option" where
  "not_sent_unserialize rd p x =
     (case (get_item p nf_message, get_item p nf_contact) of
        (Some message, Some contact) \<Rightarrow>
          let x = x\<lparr>ns_aimid := get_string contact,
                    ns_duplicated := bool_or (ns_duplicated x) p nf_duplicated,
                    ns_modified := bool_or (ns_modified x) p nf_modified,
                    ns_network_request_id := string_or (ns_network_request_id x) p nf_network_request_id,
                    ns_deleted := bool_or (ns_deleted x) p nf_deleted,
                    ns_delete_operation := i32_or (ns_delete_operation x) p nf_delete_op,
                    ns_draft_delete_time := (case get_item p nf_draft_delete_time of
                       None \<Rightarrow> ns_draft_delete_time x | Some t \<Rightarrow> Some (get_i64 t))\<rparr>
          in map_option (\<lambda>(code, m, _). (code = 0, x\<lparr>ns_message := m\<rparr>))
               (message_unserialize rd (get_stream message) (ns_message x))
      | _ \<Rightarrow> Some (False, x))"

definition not_sent_make :: "reader \<Rightarrow> int \<Rightarrow> tlvpack \<Rightarrow> not_sent_message option option" where
  "not_sent_make rd now p =
     map_option (\<lambda>(ok, x). if ok then Some x else None) (not_sent_unserialize rd p (ns_default now))"

subsection \<open>Deletions\<close>

record delete_message =
  dm_aimid :: cstring
  dm_message_id :: int
  dm_internal_id :: cstring
  dm_operation :: int

text \<open>\<^verbatim>\<open>operator==\<close>\<close>

definition same_deletion :: "delete_message \<Rightarrow> delete_message \<Rightarrow> bool" where
  "same_deletion a b \<longleftrightarrow> dm_message_id a = dm_message_id b \<and> dm_operation a = dm_operation b"

definition df_contact :: u32 where [simp]: "df_contact = 1"
definition df_message_id :: u32 where [simp]: "df_message_id = 2"
definition df_internal_id :: u32 where [simp]: "df_internal_id = 3"
definition df_operation :: u32 where [simp]: "df_operation = 4"

definition delete_fields :: "delete_message \<Rightarrow> tlv list" where
  "delete_fields d =
     [mk_tlv df_contact (dm_aimid d), mk_tlv df_message_id (i64_image (dm_message_id d)),
      mk_tlv df_internal_id (dm_internal_id d), mk_tlv df_operation (i32_image (dm_operation d))]"

definition delete_make :: "tlvpack \<Rightarrow> delete_message option option" where
  "delete_make p =
     (case (get_item p df_contact, get_item p df_message_id, get_item p df_operation, get_item p df_internal_id) of
        (Some contact, Some message_id, Some operation, Some internal_id) \<Rightarrow>
          let d = \<lparr>dm_aimid = get_string contact, dm_message_id = get_i64 message_id,
                   dm_internal_id = get_string internal_id, dm_operation = get_i32 operation\<rparr>
          in Some (if dm_operation d \<le> op_min \<or> dm_operation d \<ge> op_max then None else Some d)
      | _ \<Rightarrow> Some None)"

subsection \<open>What comes back\<close>

definition good_not_sent :: "junk \<Rightarrow> not_sent_message \<Rightarrow> bool" where
  "good_not_sent junk x \<longleftrightarrow> good_message (ns_message x) \<and>
     (hm_json (ns_message x) = [] \<or> hm_sender_aimid (ns_message x) = []) \<and>
     i32_range (ns_delete_operation x) \<and> pred_option i64_range (ns_draft_delete_time x)"

definition stored_not_sent :: "junk \<Rightarrow> reader \<Rightarrow> int \<Rightarrow> not_sent_message \<Rightarrow> not_sent_message" where
  "stored_not_sent junk rd now x = x\<lparr>ns_message := stored_message junk rd (ns_message x), ns_post_time := 0,
     ns_calc_sent_stat := False, ns_create_time := now\<rparr>"

lemma fresh_not_sent [simp]: "list_all fresh_tlv (not_sent_fields junk x)"
  by (simp add: not_sent_fields_def message_stream_facts)

lemma not_sent_reads_back:
  assumes good: "good_not_sent junk x" and fit: "fits (not_sent_fields junk x)"
  shows "not_sent_make rd now (mk_pack (map tlv_view (not_sent_fields junk x))) = Some (Some (stored_not_sent junk rd now x))"
proof -
  define p where "p = mk_pack (map tlv_view (not_sent_fields junk x))"
  let ?bs = "enc_fields (map tlv_view (message_fields junk (ns_message x) []))"
  have view: "map tlv_view (not_sent_fields junk x) =
      [(nf_contact, ns_aimid x), (nf_duplicated, bool_image (ns_duplicated x)), (nf_modified, bool_image (ns_modified x)),
       (nf_network_request_id, ns_network_request_id x), (nf_deleted, bool_image (ns_deleted x)),
       (nf_delete_op, i32_image (ns_delete_operation x))] @
      opt (ns_draft_delete_time x \<noteq> None) (nf_draft_delete_time, i64_image (the (ns_draft_delete_time x))) @
      [(nf_message, ?bs)]"
    by (simp add: not_sent_fields_def message_stream_facts)
  have m: "good_message (ns_message x)" "hm_json (ns_message x) = [] \<or> hm_sender_aimid (ns_message x) = []"
    "i32_range (ns_delete_operation x)" "pred_option i64_range (ns_draft_delete_time x)"
    using good by (simp_all add: good_not_sent_def)
  have fm: "fits (message_fields junk (ns_message x) [])"
    using fit by (simp add: not_sent_fields_def message_stream_facts)
  obtain s' where msg: "message_unserialize rd (get_stream (mk_tlv nf_message ?bs)) init_default =
      Some (0, stored_message junk rd (ns_message x), s')"
    using unserialize_written_message [OF m(1,2) fm, of "get_stream (mk_tlv nf_message ?bs)" rd] by (auto simp: stream_value)
  have "get_item p nf_message = Some (mk_tlv nf_message ?bs)" "get_item p nf_contact = Some (mk_tlv nf_contact (ns_aimid x))"
    "bool_or False p nf_duplicated = ns_duplicated x" "bool_or False p nf_modified = ns_modified x"
    "string_or [] p nf_network_request_id = ns_network_request_id x" "bool_or False p nf_deleted = ns_deleted x"
    "i32_or op_del_for_all p nf_delete_op = ns_delete_operation x"
    "(case get_item p nf_draft_delete_time of None \<Rightarrow> None | Some t \<Rightarrow> Some (get_i64 t)) = ns_draft_delete_time x"
    using m(3,4) by (cases "ns_draft_delete_time x"; simp add: p_def view read_defs)+
  with msg show ?thesis unfolding p_def [symmetric]
    by (cases x) (simp add: not_sent_make_def not_sent_unserialize_def ns_default_def stored_not_sent_def Let_def cong: option.case_cong
        del: nf_message_def nf_contact_def nf_duplicated_def nf_modified_def nf_network_request_id_def nf_deleted_def
        nf_delete_op_def nf_draft_delete_time_def op_del_for_all_def)
qed

definition good_deletion :: "delete_message \<Rightarrow> bool" where
  "good_deletion d \<longleftrightarrow> i64_range (dm_message_id d) \<and> op_min < dm_operation d \<and> dm_operation d < op_max"

lemma deletion_reads_back:
  "good_deletion d \<Longrightarrow> delete_make (mk_pack (map tlv_view (delete_fields d))) = Some (Some d)"
  by (simp add: good_deletion_def delete_make_def delete_fields_def i32_range_def)

end
