(* ===== verification/Pending_Operations.thy ===== *)
theory Pending_Operations
  imports Pending_Messages Storage
begin

text \<open>
  \<^verbatim>\<open>class pending_operations\<close> of \<^verbatim>\<open>core/archive/not_sent_messages.h\<close> and \<^verbatim>\<open>.cpp\<close>: what has to be told to
  the server, kept in two maps from contacts to lists, and in a file each. A file is one block that is
  written anew with every change.

  \<open>None\<close> is a null dereference. The result of saving is ignored by the callers, as in the code.
\<close>

subsection \<open>Maps of lists\<close>

type_synonym 'e pending_map = "(cstring \<times> 'e list) list"

definition entries_of :: "cstring \<Rightarrow> 'e pending_map \<Rightarrow> 'e list" where
  "entries_of k m = (case map_of m k of None \<Rightarrow> [] | Some es \<Rightarrow> es)"

definition set_entries :: "cstring \<Rightarrow> 'e list \<Rightarrow> 'e pending_map \<Rightarrow> 'e pending_map" where
  "set_entries k es m =
     (if map_of m k = None then om_emplace k es m else map (\<lambda>(i, v). (i, if i = k then es else v)) m)"

definition erase_contact :: "cstring \<Rightarrow> 'e pending_map \<Rightarrow> 'e pending_map" where
  "erase_contact k m = filter (\<lambda>(i, _). i \<noteq> k) m"

text \<open>\<^verbatim>\<open>map[k].push_back(e)\<close>\<close>

definition add_entry :: "cstring \<Rightarrow> 'e \<Rightarrow> 'e pending_map \<Rightarrow> 'e pending_map" where
  "add_entry k e m = set_entries k (entries_of k m @ [e]) m"

lemma map_of_emplace: "map_of m k = None \<Longrightarrow> map_of (om_emplace k v m) = (map_of m)(k \<mapsto> v)"
  by (induction k v m rule: om_emplace.induct) (auto split: if_splits)

lemma map_of_set_entries: "map_of (set_entries k es m) = (map_of m)(k \<mapsto> es)"
proof (cases "map_of m k")
  case None
  then show ?thesis by (simp add: set_entries_def map_of_emplace)
next
  case (Some v)
  have "map_of (map (\<lambda>(i, v). (i, if i = k then es else v)) m) j =
      (if j = k then map_option (\<lambda>_. es) (map_of m j) else map_of m j)" for j
    by (induction m) auto
  with Some show ?thesis by (auto simp: set_entries_def)
qed

lemma entries_of_set [simp]: "entries_of j (set_entries k es m) = (if j = k then es else entries_of j m)"
  by (simp add: entries_of_def map_of_set_entries)

subsection \<open>Saving and loading\<close>

text \<open>The two templates; \<open>ser\<close>, \<open>mk\<close> and \<open>contact\<close> stand for the members of the class of the entries.\<close>

definition root_fields :: "('e \<Rightarrow> tlv list) \<Rightarrow> 'e pending_map \<Rightarrow> tlv list" where
  "root_fields ser m =
     map (\<lambda>e. mk_tlv_stream 0 (pack_serialize (pack_of (ser e)) empty_stream)) (concat (map snd m))"

definition save_pending :: "('e \<Rightarrow> tlv list) \<Rightarrow> 'e pending_map \<Rightarrow> storage \<Rightarrow> (bool \<times> storage) option" where
  "save_pending ser m st =
     (case storage_open (mode_zero\<lparr>sm_write := True, sm_truncate := True\<rparr>) st of
        (False, st) \<Rightarrow> Some (False, st)
      | (True, st) \<Rightarrow>
          map_option (\<lambda>((ok, _), _, _, st). (ok, storage_close st))
            (write_data_block (pack_serialize (pack_of (root_fields ser m)) empty_stream) 0 st))"

fun load_entries ::
  "(tlvpack \<Rightarrow> 'e option option) \<Rightarrow> ('e \<Rightarrow> cstring) \<Rightarrow> tlv list \<Rightarrow> 'e pending_map \<Rightarrow> 'e pending_map option"
where
  "load_entries mk contact [] m = Some m"
| "load_entries mk contact (t # ts) m = do {
     (ok, p, _) \<leftarrow> pack_unserialize empty_pack (get_stream t);
     e \<leftarrow> (if ok then mk p else Some None);
     load_entries mk contact ts (case e of None \<Rightarrow> m | Some e \<Rightarrow> add_entry (contact e) e m)
   }"

definition load_pending ::
  "(tlvpack \<Rightarrow> 'e option option) \<Rightarrow> ('e \<Rightarrow> cstring) \<Rightarrow> 'e pending_map \<Rightarrow> storage \<Rightarrow>
    (bool \<times> 'e pending_map \<times> storage) option"
where
  "load_pending mk contact m st =
     (case storage_open (mode_zero\<lparr>sm_read := True\<rparr>) st of
        (False, st) \<Rightarrow> Some (False, m, st)
      | (True, st) \<Rightarrow> do {
          (ok, st, d) \<leftarrow> read_data_block (-1) st empty_stream;
          if \<not> ok then Some (False, m, storage_close st)
          else do {
            (ok, p, _) \<leftarrow> pack_unserialize empty_pack d;
            if \<not> ok then Some (False, m, storage_close st)
            else do {
              m \<leftarrow> load_entries mk contact (walk p) m;
              Some (True, m, storage_close st)
            }
          }
        })"

subsection \<open>The class\<close>

record pending_operations =
  po_messages :: "not_sent_message pending_map"
  po_deletions :: "delete_message pending_map"
  po_sent_storage :: storage
  po_delete_storage :: storage
  po_loaded :: bool

definition save_sent :: "junk \<Rightarrow> pending_operations \<Rightarrow> pending_operations option" where
  "save_sent junk x = map_option (\<lambda>(_, st). x\<lparr>po_sent_storage := st\<rparr>)
     (save_pending (not_sent_fields junk) (po_messages x) (po_sent_storage x))"

definition save_deletions :: "pending_operations \<Rightarrow> pending_operations option" where
  "save_deletions x = map_option (\<lambda>(_, st). x\<lparr>po_delete_storage := st\<rparr>)
     (save_pending delete_fields (po_deletions x) (po_delete_storage x))"

definition load_sent :: "reader \<Rightarrow> int \<Rightarrow> pending_operations \<Rightarrow> pending_operations option" where
  "load_sent rd now x = map_option (\<lambda>(_, m, st). x\<lparr>po_messages := m, po_sent_storage := st\<rparr>)
     (load_pending (not_sent_make rd now) ns_aimid (po_messages x) (po_sent_storage x))"

definition load_deletions :: "pending_operations \<Rightarrow> pending_operations option" where
  "load_deletions x = map_option (\<lambda>(_, m, st). x\<lparr>po_deletions := m, po_delete_storage := st\<rparr>)
     (load_pending delete_make dm_aimid (po_deletions x) (po_delete_storage x))"

definition load_if_need :: "reader \<Rightarrow> int \<Rightarrow> pending_operations \<Rightarrow> pending_operations option" where
  "load_if_need rd now x = do {
     x \<leftarrow> (if \<not> po_loaded x then do { x \<leftarrow> load_sent rd now x; load_deletions x } else Some x);
     Some (x\<lparr>po_loaded := True\<rparr>)
   }"

definition mk_pending_operations :: "reader \<Rightarrow> int \<Rightarrow> storage \<Rightarrow> storage \<Rightarrow> pending_operations option" where
  "mk_pending_operations rd now sent deletions =
     load_if_need rd now \<lparr>po_messages = [], po_deletions = [], po_sent_storage = sent, po_delete_storage = deletions,
       po_loaded = False\<rparr>"

fun insert_or_replace :: "not_sent_message \<Rightarrow> not_sent_message list \<Rightarrow> not_sent_message list" where
  "insert_or_replace x [] = [x]"
| "insert_or_replace x (y # ys) =
     (if ns_internal_id x = ns_internal_id y then x # ys else y # insert_or_replace x ys)"

definition insert_message :: "junk \<Rightarrow> cstring \<Rightarrow> not_sent_message \<Rightarrow> pending_operations \<Rightarrow> pending_operations option" where
  "insert_message junk aimid msg x =
     save_sent junk (x\<lparr>po_messages := set_entries aimid (insert_or_replace msg (entries_of aimid (po_messages x))) (po_messages x)\<rparr>)"

text \<open>The new message keeps the file of the old one, if that had one.\<close>

definition take_over_file :: "not_sent_message \<Rightarrow> not_sent_message \<Rightarrow> not_sent_message" where
  "take_over_file old new =
     (case hm_file_sharing (ns_message old) of
        Some f \<Rightarrow> if fs_uri f = [] \<and> fs_local_path f = [] then new
                   else new\<lparr>ns_message := (ns_message new)\<lparr>hm_file_sharing := Some f\<rparr>\<rparr>
      | None \<Rightarrow> new)"

fun replace_existing :: "not_sent_message \<Rightarrow> not_sent_message list \<Rightarrow> not_sent_message list option" where
  "replace_existing x [] = None"
| "replace_existing x (y # ys) =
     (if ns_internal_id x = ns_internal_id y then Some (take_over_file y x # ys)
      else map_option (\<lambda>ys. y # ys) (replace_existing x ys))"

definition update_message_if_exist ::
  "junk \<Rightarrow> cstring \<Rightarrow> not_sent_message \<Rightarrow> pending_operations \<Rightarrow> (bool \<times> pending_operations) option" where
  "update_message_if_exist junk aimid msg x =
     (case map_of (po_messages x) aimid of
        None \<Rightarrow> Some (False, x)
      | Some es \<Rightarrow>
          (case replace_existing msg es of
             None \<Rightarrow> Some (False, x)
           | Some es \<Rightarrow> map_option (\<lambda>x. (True, x)) (save_sent junk (x\<lparr>po_messages := set_entries aimid es (po_messages x)\<rparr>))))"

definition has_id :: "cstring \<Rightarrow> not_sent_message \<Rightarrow> bool" where
  "has_id iid x \<longleftrightarrow> ns_internal_id x = iid \<or> ns_request_id x = iid"

fun erase_first :: "('e \<Rightarrow> bool) \<Rightarrow> 'e list \<Rightarrow> 'e list" where
  "erase_first P [] = []"
| "erase_first P (y # ys) = (if P y then ys else y # erase_first P ys)"

text \<open>\<open>remove\<close> by an internal id: of every contact the first message with it; saved after each.\<close>

fun remove_loop :: "junk \<Rightarrow> cstring \<Rightarrow> cstring list \<Rightarrow> pending_operations \<Rightarrow> pending_operations option" where
  "remove_loop junk iid [] x = Some x"
| "remove_loop junk iid (k # ks) x =
     (let es = entries_of k (po_messages x)
      in if list_ex (has_id iid) es
         then do {
           x \<leftarrow> save_sent junk (x\<lparr>po_messages := set_entries k (erase_first (has_id iid) es) (po_messages x)\<rparr>);
           remove_loop junk iid ks x
         }
         else remove_loop junk iid ks x)"

definition remove_message :: "junk \<Rightarrow> cstring \<Rightarrow> pending_operations \<Rightarrow> pending_operations option" where
  "remove_message junk iid x = remove_loop junk iid (map fst (po_messages x)) x"

definition drop_contact :: "junk \<Rightarrow> cstring \<Rightarrow> pending_operations \<Rightarrow> pending_operations option" where
  "drop_contact junk aimid x = do {
     x \<leftarrow> (if map_of (po_messages x) aimid = None then Some x
           else save_sent junk (x\<lparr>po_messages := erase_contact aimid (po_messages x)\<rparr>));
     if map_of (po_deletions x) aimid = None then Some x
     else save_deletions (x\<lparr>po_deletions := erase_contact aimid (po_deletions x)\<rparr>)
   }"

subsection \<open>Deletions\<close>

definition is_deletion_of :: "delete_message \<Rightarrow> not_sent_message \<Rightarrow> bool" where
  "is_deletion_of d x \<longleftrightarrow>
     dm_message_id d > 0 \<and> dm_message_id d = hm_msgid (ns_message x) \<or>
     dm_internal_id d \<noteq> [] \<and> dm_internal_id d = ns_internal_id x"

definition mark_deleted :: "junk \<Rightarrow> delete_message \<Rightarrow> not_sent_message \<Rightarrow> not_sent_message" where
  "mark_deleted junk d x =
     (if is_deletion_of d x then ns_set_delete_operation junk (dm_operation d) (x\<lparr>ns_deleted := True\<rparr>) else x)"

definition insert_deleted_message :: "junk \<Rightarrow> cstring \<Rightarrow> delete_message \<Rightarrow> pending_operations \<Rightarrow> pending_operations option" where
  "insert_deleted_message junk contact d x = do {
     x \<leftarrow> (if list_ex (is_deletion_of d) (entries_of contact (po_messages x))
          then save_sent junk (x\<lparr>po_messages :=
                 set_entries contact (map (mark_deleted junk d) (entries_of contact (po_messages x))) (po_messages x)\<rparr>)
          else Some x);
     if dm_message_id d > 0
     then save_deletions (x\<lparr>po_deletions := add_entry contact d (po_deletions x)\<rparr>)
     else Some x
   }"

definition remove_deleted_message :: "cstring \<Rightarrow> delete_message \<Rightarrow> pending_operations \<Rightarrow> (int \<times> pending_operations) option" where
  "remove_deleted_message contact d x =
     (let (res, m) =
        (case map_of (po_deletions x) contact of
           None \<Rightarrow> (-1, po_deletions x)
         | Some es \<Rightarrow>
             let left = filter (\<lambda>e. \<not> same_deletion d e) es
             in (if list_ex (same_deletion d) es then 0 else -1,
                 if left = [] then erase_contact contact (po_deletions x) else set_entries contact left (po_deletions x)))
      in map_option (\<lambda>x. (res, x)) (save_deletions (x\<lparr>po_deletions := m\<rparr>)))"

definition get_first_pending_delete_message :: "pending_operations \<Rightarrow> (cstring \<times> delete_message) option" where
  "get_first_pending_delete_message x =
     (case po_deletions x of (contact, d # _) # _ \<Rightarrow> Some (contact, d) | _ \<Rightarrow> None)"

text \<open>The vector of the caller is appended to.\<close>

definition get_pending_delete_messages ::
  "pending_operations \<Rightarrow> delete_message list \<Rightarrow> (cstring \<times> delete_message list) option" where
  "get_pending_delete_messages x acc =
     (case po_deletions x of (contact, d # ds) # _ \<Rightarrow> Some (contact, acc @ d # ds) | _ \<Rightarrow> None)"

subsection \<open>Messages of the server\<close>

record stat_time =
  stat_create_time :: int
  stat_need_stat :: bool
  stat_contact :: cstring
  stat_msg_id :: int

definition acknowledged :: "history_message \<Rightarrow> not_sent_message \<Rightarrow> bool" where
  "acknowledged b x \<longleftrightarrow> ns_internal_id x = hm_internal_id b \<or> ns_request_id x = hm_internal_id b"

text \<open>
  The inner loop of \<open>remove\<close>, at the position \<open>i\<close> of the list of the contact: the pending operations, what
  goes to the statistics, and whether there is something to save. \<open>fresh\<close> generates the request ids, one for
  every message found so far.
\<close>

lemma length_entries_deleted:
  assumes "insert_deleted_message junk contact d x = Some x'"
  shows "length (entries_of contact (po_messages x')) = length (entries_of contact (po_messages x))"
  using assms
  by (auto simp: insert_deleted_message_def save_sent_def save_deletions_def bind_eq_Some_conv split: if_splits)

function ack_loop ::
  "junk \<Rightarrow> (nat \<Rightarrow> cstring) \<Rightarrow> cstring \<Rightarrow> bool \<Rightarrow> history_message \<Rightarrow> nat \<Rightarrow> pending_operations \<Rightarrow> stat_time list \<Rightarrow> bool \<Rightarrow>
    (pending_operations \<times> stat_time list \<times> bool) option"
where
  "ack_loop junk fresh aimid remove_if_modified b i x stats dirty =
     (let es = entries_of aimid (po_messages x)
      in if i < length es
         then let e = es ! i
              in if acknowledged b e
                 then let stats' = stats @ [\<lparr>stat_create_time = ns_create_time e, stat_need_stat = ns_calc_sent_stat e,
                                            stat_contact = ns_aimid e, stat_msg_id = hm_msgid b\<rparr>]
                      in if ns_deleted e
                         then (case insert_deleted_message junk aimid
                                 \<lparr>dm_aimid = aimid, dm_message_id = hm_msgid b, dm_internal_id = ns_internal_id e,
                                  dm_operation = ns_delete_operation e\<rparr> x of
                                 None \<Rightarrow> None
                               | Some x \<Rightarrow>
                                   let es = entries_of aimid (po_messages x)
                                   in ack_loop junk fresh aimid remove_if_modified b i
                                        (x\<lparr>po_messages := set_entries aimid (take i es @ drop (Suc i) es) (po_messages x)\<rparr>)
                                        stats' True)
                         else if ns_modified e \<and> \<not> remove_if_modified
                         then ack_loop junk fresh aimid remove_if_modified b (Suc i)
                                (x\<lparr>po_messages := set_entries aimid
                                   (es[i := (ns_set_updated_id (hm_msgid b) e)\<lparr>ns_modified := False,
                                             ns_network_request_id := fresh (length stats)\<rparr>]) (po_messages x)\<rparr>)
                                stats' True
                         else ack_loop junk fresh aimid remove_if_modified b i
                                (x\<lparr>po_messages := set_entries aimid (take i es @ drop (Suc i) es) (po_messages x)\<rparr>)
                                stats' True
                 else ack_loop junk fresh aimid remove_if_modified b (Suc i) x stats dirty
         else Some (x, stats, dirty))"
  by pat_completeness auto
termination
  by (relation "measure (\<lambda>(_, _, aimid, _, _, i, x, _). length (entries_of aimid (po_messages x)) - i)")
    (auto dest!: length_entries_deleted)

declare ack_loop.simps [simp del]

fun ack_blocks ::
  "junk \<Rightarrow> (nat \<Rightarrow> cstring) \<Rightarrow> cstring \<Rightarrow> bool \<Rightarrow> history_message list \<Rightarrow> pending_operations \<Rightarrow> stat_time list \<Rightarrow> bool \<Rightarrow>
    (pending_operations \<times> stat_time list \<times> bool) option"
where
  "ack_blocks junk fresh aimid remove_if_modified [] x stats dirty = Some (x, stats, dirty)"
| "ack_blocks junk fresh aimid remove_if_modified (b # bs) x stats dirty = do {
     (x, stats, dirty) \<leftarrow> ack_loop junk fresh aimid remove_if_modified b 0 x stats dirty;
     ack_blocks junk fresh aimid remove_if_modified bs x stats dirty
   }"

text \<open>\<open>remove\<close> by messages of the server. Looking the contact up makes an entry for it.\<close>

definition remove_acknowledged ::
  "junk \<Rightarrow> (nat \<Rightarrow> cstring) \<Rightarrow> cstring \<Rightarrow> bool \<Rightarrow> history_message list \<Rightarrow> pending_operations \<Rightarrow>
    (stat_time list \<times> pending_operations) option"
where
  "remove_acknowledged junk fresh aimid remove_if_modified data x =
     (let x = x\<lparr>po_messages := set_entries aimid (entries_of aimid (po_messages x)) (po_messages x)\<rparr>
      in if entries_of aimid (po_messages x) = [] then Some ([], x)
         else do {
           (x, stats, dirty) \<leftarrow> ack_blocks junk fresh aimid remove_if_modified data x [] False;
           let x = (if entries_of aimid (po_messages x) = [] then x\<lparr>po_messages := erase_contact aimid (po_messages x)\<rparr> else x);
           x \<leftarrow> (if dirty then save_sent junk x else Some x);
           Some (stats, x)
         })"

subsection \<open>Messages by their internal id\<close>

fun find_message :: "('e \<Rightarrow> bool) \<Rightarrow> 'e pending_map \<Rightarrow> 'e option" where
  "find_message P [] = None"
| "find_message P ((k, es) # m) = (case find P es of None \<Rightarrow> find_message P m | Some e \<Rightarrow> Some e)"

definition get_message_by_internal_id :: "cstring \<Rightarrow> pending_operations \<Rightarrow> not_sent_message option" where
  "get_message_by_internal_id iid x = find_message (\<lambda>e. ns_internal_id e = iid) (po_messages x)"

definition get_first_ready_to_send :: "pending_operations \<Rightarrow> not_sent_message option" where
  "get_first_ready_to_send x = find_message is_ready_to_send (po_messages x)"

text \<open>A change of the object that \<open>get_message_by_internal_id\<close> gives.\<close>

fun modify_first :: "('e \<Rightarrow> bool) \<Rightarrow> ('e \<Rightarrow> 'e) \<Rightarrow> 'e list \<Rightarrow> 'e list" where
  "modify_first P f [] = []"
| "modify_first P f (y # ys) = (if P y then f y # ys else y # modify_first P f ys)"

fun modify_message :: "('e \<Rightarrow> bool) \<Rightarrow> ('e \<Rightarrow> 'e) \<Rightarrow> 'e pending_map \<Rightarrow> 'e pending_map" where
  "modify_message P f [] = []"
| "modify_message P f ((k, es) # m) =
     (if list_ex P es then (k, modify_first P f es) # m else (k, es) # modify_message P f m)"

definition change_message :: "cstring \<Rightarrow> (not_sent_message \<Rightarrow> not_sent_message) \<Rightarrow> pending_operations \<Rightarrow> pending_operations" where
  "change_message iid f x = x\<lparr>po_messages := modify_message (\<lambda>e. ns_internal_id e = iid) f (po_messages x)\<rparr>"

definition mark_duplicated :: "junk \<Rightarrow> cstring \<Rightarrow> pending_operations \<Rightarrow> pending_operations option" where
  "mark_duplicated junk iid x =
     (if get_message_by_internal_id iid x = None then Some x
      else save_sent junk (change_message iid (\<lambda>e. e\<lparr>ns_duplicated := True\<rparr>) x))"

definition update_message_post_time :: "cstring \<Rightarrow> int \<Rightarrow> pending_operations \<Rightarrow> pending_operations" where
  "update_message_post_time iid time x =
     (if get_message_by_internal_id iid x = None then x else change_message iid (\<lambda>e. e\<lparr>ns_post_time := time\<rparr>) x)"

definition failed_pending_message :: "junk \<Rightarrow> cstring \<Rightarrow> pending_operations \<Rightarrow> pending_operations option" where
  "failed_pending_message junk iid x =
     (if get_message_by_internal_id iid x = None then Some x
      else save_sent junk (change_message iid (\<lambda>e. e\<lparr>ns_duplicated := False\<rparr>) x))"

text \<open>The state the server gives a message; the object it returns has the marks of the deletion.\<close>

definition update_with_imstate ::
  "junk \<Rightarrow> cstring \<Rightarrow> int \<Rightarrow> pending_operations \<Rightarrow> (not_sent_message option \<times> pending_operations) option" where
  "update_with_imstate junk iid hist_msg_id x =
     (case get_message_by_internal_id iid x of
        None \<Rightarrow> Some (None, x)
      | Some msg \<Rightarrow>
          if hist_msg_id > 0 then do {
            (msg, x) \<leftarrow>
              (if ns_deleted msg then do {
                 x \<leftarrow> insert_deleted_message junk (ns_aimid msg)
                   \<lparr>dm_aimid = ns_aimid msg, dm_message_id = hist_msg_id, dm_internal_id = iid,
                    dm_operation = ns_delete_operation msg\<rparr> x;
                 let msg = (case get_message_by_internal_id iid x of None \<Rightarrow> msg | Some msg \<Rightarrow> msg);
                 x \<leftarrow> remove_message junk iid x;
                 Some (msg, x)
               }
               else if ns_modified msg then Some (msg, x)
               else map_option (\<lambda>x. (msg, x)) (remove_message junk iid x));
            x \<leftarrow> save_sent junk x;
            Some (Some msg, x)
          }
          else Some (None, x))"

definition exist_message :: "cstring \<Rightarrow> pending_operations \<Rightarrow> bool" where
  "exist_message aimid x \<longleftrightarrow> entries_of aimid (po_messages x) \<noteq> []"

text \<open>The messages of a contact for the dialog, but for files that were not uploaded and are gone.\<close>

definition get_pending_messages ::
  "(cstring \<Rightarrow> bool) \<Rightarrow> cstring \<Rightarrow> pending_operations \<Rightarrow> history_message list \<Rightarrow> history_message list" where
  "get_pending_messages is_exist aimid x acc =
     acc @ map (\<lambda>e. copy init_default (ns_message e))
       (filter (\<lambda>e. case hm_file_sharing (ns_message e) of
            None \<Rightarrow> True
          | Some f \<Rightarrow> \<not> (fs_uri f = [] \<and> \<not> is_exist (fs_local_path f)))
         (entries_of aimid (po_messages x)))"

definition get_pending_file_sharing_messages :: "pending_operations \<Rightarrow> not_sent_message list" where
  "get_pending_file_sharing_messages x =
     filter (\<lambda>e. hm_file_sharing (ns_message e) \<noteq> None \<and> \<not> is_ready_to_send e) (concat (map snd (po_messages x)))"

end
