(* ===== verification/Pending_Storage.thy ===== *)
theory Pending_Storage
  imports Pending_Operations Block_Loop
begin

text \<open>
  The files of the pending operations. The two kinds of entries have the same contract, the locale
  \<open>pending_entry\<close>: an entry written into a pack is made again from it, under the same contact. A map that is
  saved is then loaded again, but for the contacts with an empty list.
\<close>

subsection \<open>Maps that are built up again\<close>

definition keyed :: "('e \<Rightarrow> cstring) \<Rightarrow> 'e pending_map \<Rightarrow> bool" where
  "keyed contact m \<longleftrightarrow> (\<forall>(k, es)\<in>set m. \<forall>e\<in>set es. contact e = k)"

definition tidy :: "'e pending_map \<Rightarrow> 'e pending_map" where
  "tidy m = filter (\<lambda>(_, es). es \<noteq> []) m"

definition map_entries :: "('e \<Rightarrow> 'f) \<Rightarrow> 'e pending_map \<Rightarrow> 'f pending_map" where
  "map_entries f m = map (\<lambda>(k, es). (k, map f es)) m"

definition add_all :: "('e \<Rightarrow> cstring) \<Rightarrow> 'e list \<Rightarrow> 'e pending_map \<Rightarrow> 'e pending_map" where
  "add_all contact es m = fold (\<lambda>e. add_entry (contact e) e) es m"

lemma add_last:
  assumes "\<forall>x\<in>set m. fst x < k" and "\<forall>x\<in>set (e # es). contact x = k"
  shows "add_all contact (e # es) m = m @ [(k, e # es)]"
proof -
  have new: "map_of m k = None" using assms(1) by (force simp: map_of_eq_None_iff)
  have "add_all contact es (m @ [(k, xs)]) = m @ [(k, xs @ es)]" if "\<forall>x\<in>set es. contact x = k" for xs
    using that
  proof (induction es arbitrary: xs)
    case (Cons y es)
    have others: "map (\<lambda>(i, v). (i, if i = k then w else v)) m = m" for w
      using assms(1) by (intro map_idI) force
    have "add_entry k y (m @ [(k, xs)]) = m @ [(k, xs @ [y])]"
      using new others by (simp add: add_entry_def set_entries_def entries_of_def map_add_def)
    with Cons show ?case by (simp add: add_all_def)
  qed (simp add: add_all_def)
  moreover have "add_entry k e m = m @ [(k, [e])]"
    using new assms(1) by (simp add: add_entry_def set_entries_def entries_of_def om_emplace_last)
  ultimately show ?thesis using assms(2) by (simp add: add_all_def)
qed

lemma add_all_tidy:
  assumes "om_ok m" and "keyed contact m"
  shows "add_all contact (concat (map snd m)) [] = tidy m"
  using assms
proof (induction m rule: rev_induct)
  case (snoc x m)
  obtain k es where x: "x = (k, es)" by (cases x)
  have m: "om_ok m" "keyed contact m" "\<forall>y\<in>set m. fst y < k" "\<forall>e\<in>set es. contact e = k"
    using snoc.prems x by (auto simp: om_ok_append keyed_def)
  then have t: "\<forall>y\<in>set (tidy m). fst y < k" by (auto simp: tidy_def)
  have "add_all contact (concat (map snd (m @ [x]))) [] = add_all contact es (tidy m)"
    using snoc.IH [OF m(1,2)] x by (simp add: add_all_def)
  also have "\<dots> = tidy (m @ [x])"
    using add_last [OF t] m(4) x by (cases es) (auto simp: tidy_def add_all_def)
  finally show ?case .
qed (simp add: add_all_def tidy_def)

lemma tidy_map_entries: "tidy (map_entries f m) = map_entries f (tidy m)"
  by (induction m) (auto simp: tidy_def map_entries_def)

lemma om_ok_map_entries: "om_ok (map_entries f m) \<longleftrightarrow> om_ok m"
  by (simp add: om_ok_def map_entries_def comp_def case_prod_unfold)

lemma concat_map_entries: "concat (map snd (map_entries f m)) = map f (concat (map snd m))"
  by (induction m) (auto simp: map_entries_def)

subsection \<open>Saving always returns\<close>

lemma fresh_root:
  assumes "\<And>e. list_all fresh_tlv (ser e)"
  shows "list_all fresh_tlv (root_fields ser m)"
proof -
  have "fresh_tlv (mk_tlv_stream 0 (pack_serialize (pack_of (ser e)) empty_stream))" for e
    using assms [of e] by (simp add: wf_pack_serialize) (simp add: empty_stream_def)
  then show ?thesis by (simp add: root_fields_def list_all_iff)
qed

lemma save_pending_returns:
  assumes "\<And>e. list_all fresh_tlv (ser e)"
  shows "\<exists>ok st'. save_pending ser m st = Some (ok, st')"
proof -
  let ?s = "pack_serialize (pack_of (root_fields ser m)) empty_stream"
  have "wf_stream ?s"
    using fresh_root [of ser m] assms by (intro wf_pack_serialize) simp_all
  from write_data_block_returns [OF this, of 0] show ?thesis
    by (auto simp: save_pending_def split: prod.split bool.split)
qed

lemma save_pending_closed:
  "save_pending ser m st = Some (ok, st') \<Longrightarrow> st_stream st = None \<Longrightarrow> st_stream st' = None"
  by (auto simp: save_pending_def storage_close_def dest: storage_open_closed split: prod.splits bool.splits)


subsection \<open>The contract of the entries\<close>

definition pending_bytes :: "('e \<Rightarrow> tlv list) \<Rightarrow> 'e pending_map \<Rightarrow> bytes" where
  "pending_bytes ser m = enc_fields (map tlv_view (root_fields ser m))"

lemma save_pending_works:
  assumes "\<And>e. list_all fresh_tlv (ser e)" and "can_use_file st" and "length (pending_bytes ser m) < 2 ^ 32"
    and "length (pending_bytes ser m) + 16 \<le> st_room st" and "pending_bytes ser m \<noteq> []"
  shows "\<exists>st'. save_pending ser m st = Some (True, st') \<and> can_use_file st' \<and> st_file st' \<noteq> None \<and>
    contents st' = enc_block (pending_bytes ser m)"
proof -
  let ?s = "pack_serialize (pack_of (root_fields ser m)) empty_stream"
  have s: "wf_stream ?s" "pending ?s = pending_bytes ser m"
    using fresh_root [of ser m] assms(1) by (simp_all add: wf_pack_serialize pending_pack_serialize pending_bytes_def)
  obtain st0 where o: "storage_open (mode_zero\<lparr>sm_write := True, sm_truncate := True\<rparr>) st = (True, st0)" "appending st0"
    "contents st0 = []" "st_room st0 = st_room st" "can_use_file (storage_close st0)"
    using open_truncate [OF assms(2)] by blast
  have len: "pending ?s \<noteq> []" "length (pending ?s) < 2 ^ 32" "length (pending ?s) + 16 \<le> st_room st0"
    using assms(3-5) s(2) o(4) by simp_all
  obtain d' st1 where w: "write_data_block ?s 0 st0 = Some ((True, 0), int (length (contents st0)), d', st1)"
    "contents st1 = contents st0 @ enc_block (pending ?s)"
    using write_data_block_append [OF o(2) s(1) len] by blast
  have "can_use_file (storage_close st1)"
    using same_env_can_use [OF write_data_block_env [OF w(1)] o(5)] .
  moreover have "contents (storage_close st1) = enc_block (pending_bytes ser m)"
    using w(2) o(3) s(2) by (simp add: storage_close_def)
  moreover from this have "st_file (storage_close st1) \<noteq> None" by (rule file_there) simp
  ultimately show ?thesis using o(1) w(1) by (auto simp: save_pending_def)
qed

text \<open>Without entries nothing is written, and the file is empty.\<close>

lemma save_pending_empty:
  assumes "can_use_file st" and "tidy m = []"
  shows "\<exists>st'. save_pending ser m st = Some (False, st') \<and> can_use_file st' \<and> contents st' = []"
proof -
  have "concat (map snd m) = []" using assms(2) by (auto simp: tidy_def filter_empty_conv)
  then have r: "root_fields ser m = []" by (simp add: root_fields_def)
  have s: "available (pack_serialize (pack_of []) empty_stream) = 0"
    using available_pending [of "pack_serialize (pack_of []) empty_stream"]
    by (simp add: wf_pack_serialize pending_pack_serialize)
  obtain st0 where o: "storage_open (mode_zero\<lparr>sm_write := True, sm_truncate := True\<rparr>) st = (True, st0)" "appending st0"
    "contents st0 = []" "can_use_file (storage_close st0)"
    using open_truncate [OF assms(1)] by blast
  then show ?thesis using s by (auto simp: save_pending_def r write_data_block_def Let_def appending_def storage_close_def)
qed

lemma load_pending_empty:
  assumes "can_use_file st" and "contents st = []"
  shows "\<exists>st'. load_pending mk contact m st = Some (False, m, st') \<and> can_use_file st'"
  using assms
  by (auto simp: load_pending_def storage_open_def can_use_file_def fstream_open_def filebuf_mode_def mode_zero_def
      Let_def read_data_block_def at_eof_def contents_def storage_close_def split: option.splits)

lemma open_read_usable:
  "storage_open (mode_zero\<lparr>sm_read := True\<rparr>) st = (True, st1) \<Longrightarrow> can_use_file st \<Longrightarrow> can_use_file (storage_close st1)"
  by (auto simp: storage_open_def can_use_file_def fstream_open_def filebuf_mode_def mode_zero_def Let_def storage_close_def
      split: if_splits option.splits)

lemma read_usable:
  "read_data_block off st d = Some (b, st', d') \<Longrightarrow> can_use_file (storage_close st) \<Longrightarrow> can_use_file (storage_close st')"
  by (auto simp: read_data_block_def Let_def can_use_file_def storage_close_def split: option.splits if_splits prod.splits)

locale pending_entry =
  fixes ser :: "'e \<Rightarrow> tlv list" and mk :: "tlvpack \<Rightarrow> 'e option option" and contact :: "'e \<Rightarrow> cstring"
    and good :: "'e \<Rightarrow> bool" and stored :: "'e \<Rightarrow> 'e"
  assumes fresh: "list_all fresh_tlv (ser e)"
    and reads_back: "good e \<Longrightarrow> fits (ser e) \<Longrightarrow> mk (mk_pack (map tlv_view (ser e))) = Some (Some (stored e))"
    and same_contact: "contact (stored e) = contact e"
begin

lemma load_entries_all:
  "list_all good es \<Longrightarrow> list_all (\<lambda>e. fits (ser e)) es \<Longrightarrow>
    load_entries mk contact (map (\<lambda>e. mk_tlv 0 (enc_fields (map tlv_view (ser e)))) es) m =
      Some (add_all contact (map stored es) m)"
proof (induction es arbitrary: m)
  case (Cons e es)
  let ?t = "mk_tlv 0 (enc_fields (map tlv_view (ser e)))"
  have "fits (ser e)" using Cons.prems(2) by simp
  then obtain s' where "pack_unserialize empty_pack (get_stream ?t) = Some (True, mk_pack (map tlv_view (ser e)), s')"
    using pack_unserialize_enc [OF _ fits_good, of "get_stream ?t" "map tlv_view (ser e)"] by (auto simp: stream_value)
  moreover have "mk (mk_pack (map tlv_view (ser e))) = Some (Some (stored e))"
    using reads_back Cons.prems by simp
  ultimately show ?case using Cons by (simp add: add_all_def del: get_item_mk_pack)
qed (simp add: add_all_def)

lemma views: "map tlv_view (root_fields ser m) = map (\<lambda>e. (0, enc_fields (map tlv_view (ser e)))) (concat (map snd m))"
proof -
  have "tlv_view (mk_tlv_stream 0 (pack_serialize (pack_of (ser e)) empty_stream)) = (0, enc_fields (map tlv_view (ser e)))" for e
    using fresh [of e] by (simp add: pending_pack_serialize)
  then show ?thesis by (simp add: root_fields_def)
qed

lemma fits_if_small:
  assumes "length (pending_bytes ser m) < 2 ^ 32"
  shows "fits (root_fields ser m)" and "list_all (\<lambda>e. fits (ser e)) (concat (map snd m))"
proof -
  show fit: "fits (root_fields ser m)" using assms by (simp add: pending_bytes_def)
  show "list_all (\<lambda>e. fits (ser e)) (concat (map snd m))"
    unfolding list_all_iff
  proof
    fix e assume "e \<in> set (concat (map snd m))"
    then have "(0, enc_fields (map tlv_view (ser e))) \<in> set (map tlv_view (root_fields ser m))" unfolding views by force
    from length_value_le [OF this] assms show "fits (ser e)" by (simp add: pending_bytes_def)
  qed
qed

text \<open>A file as it was saved gives the entries back.\<close>

lemma load_saved:
  assumes "om_ok m" and "keyed contact m" and "list_all good (concat (map snd m))"
    and "can_use_file st" and "contents st = enc_block (pending_bytes ser m)" and "good_block (pending_bytes ser m)"
  shows "\<exists>st'. load_pending mk contact [] st = Some (True, tidy (map_entries stored m), st') \<and> can_use_file st'"
proof -
  let ?bs = "pending_bytes ser m"
  have exists: "st_file st \<noteq> None" by (rule file_there [OF assms(5)]) simp
  obtain st1 where o: "storage_open (mode_zero\<lparr>sm_read := True\<rparr>) st = (True, st1)" "open_reading st1" "unread st1 = contents st"
    using open_read [OF assms(4) exists] by blast
  then obtain st2 d where r: "read_data_block (-1) st1 empty_stream = Some (True, st2, d)" "wf_stream d" "pending d = ?bs"
    using read_data_block_enc [OF o(2) assms(6), of "[]" empty_stream] assms(5) by auto
  have small: "length ?bs < 2 ^ 32" using assms(6) by (simp add: good_block_def)
  obtain d' where u: "pack_unserialize empty_pack d = Some (True, mk_pack (map tlv_view (root_fields ser m)), d')"
    using pack_unserialize_enc [OF r(2) fits_good [OF fits_if_small(1) [OF small]]] r(3) by (auto simp: pending_bytes_def)
  have "walk (mk_pack (map tlv_view (root_fields ser m))) =
      map (\<lambda>e. mk_tlv 0 (enc_fields (map tlv_view (ser e)))) (concat (map snd m))"
    by (simp add: views comp_def)
  moreover have "add_all contact (map stored (concat (map snd m))) [] = tidy (map_entries stored m)"
  proof -
    have "keyed contact (map_entries stored m)" using assms(2) by (fastforce simp: keyed_def map_entries_def same_contact)
    from add_all_tidy [OF _ this] assms(1) show ?thesis by (simp add: om_ok_map_entries concat_map_entries)
  qed
  moreover note load_entries_all [OF assms(3) fits_if_small(2) [OF small], of "[]"]
  ultimately have l: "load_entries mk contact (walk (mk_pack (map tlv_view (root_fields ser m)))) [] =
      Some (tidy (map_entries stored m))" by simp
  have "can_use_file (storage_close st2)"
    using open_read_usable [OF o(1) assms(4)] read_usable [OF r(1)] by blast
  with o(1) r(1) u l show ?thesis by (auto simp: load_pending_def)
qed

end

text \<open>The two classes of entries keep the contract.\<close>

interpretation sent: pending_entry "not_sent_fields junk" "not_sent_make rd now" ns_aimid "good_not_sent junk"
    "stored_not_sent junk rd now" for junk rd now
  by unfold_locales (simp_all add: not_sent_reads_back stored_not_sent_def)

interpretation deletions: pending_entry delete_fields delete_make dm_aimid good_deletion "\<lambda>d. d"
  by unfold_locales (simp_all add: deletion_reads_back, simp add: delete_fields_def)

lemma saves_return:
  "\<exists>x'. save_sent junk x = Some x'" "\<exists>x'. save_deletions x = Some x'"
  using save_pending_returns [of "not_sent_fields junk" "po_messages x" "po_sent_storage x"]
    save_pending_returns [of delete_fields "po_deletions x" "po_delete_storage x"] sent.fresh deletions.fresh
  by (auto simp: save_sent_def save_deletions_def)

subsection \<open>What a restart finds\<close>

text \<open>A file that holds what a map was when it was saved.\<close>

definition synced :: "('e \<Rightarrow> tlv list) \<Rightarrow> 'e pending_map \<Rightarrow> storage \<Rightarrow> bool" where
  "synced ser m st \<longleftrightarrow> contents st = (if tidy m = [] then [] else enc_block (pending_bytes ser m))"

lemma pending_bytes_empty: "pending_bytes ser m = [] \<longleftrightarrow> tidy m = []"
proof -
  have "pending_bytes ser m = [] \<longleftrightarrow> concat (map snd m) = []"
    by (simp add: pending_bytes_def root_fields_def enc_fields_empty del: concat_eq_Nil_conv)
  then show ?thesis by (auto simp: tidy_def filter_empty_conv)
qed

context pending_entry
begin

lemma save_synced:
  assumes "can_use_file st" and "length (pending_bytes ser m) < 2 ^ 32" and "length (pending_bytes ser m) + 16 \<le> st_room st"
  shows "\<exists>ok st'. save_pending ser m st = Some (ok, st') \<and> can_use_file st' \<and> synced ser m st'"
proof (cases "tidy m = []")
  case True
  with save_pending_empty [OF assms(1) True, of ser] show ?thesis by (auto simp: synced_def)
next
  case False
  then have ne: "pending_bytes ser m \<noteq> []" using pending_bytes_empty by blast
  from save_pending_works [OF fresh assms ne] False show ?thesis by (auto simp: synced_def)
qed

lemma load_synced:
  assumes "om_ok m" and "keyed contact m" and "list_all good (concat (map snd m))" and "can_use_file st"
    and "synced ser m st" and "length (pending_bytes ser m) \<le> 1024 * 1024"
  shows "\<exists>ok st'. load_pending mk contact [] st = Some (ok, tidy (map_entries stored m), st')"
proof (cases "tidy m = []")
  case True
  then have "tidy (map_entries stored m) = []" unfolding tidy_map_entries by (simp add: map_entries_def)
  with True assms(4,5) load_pending_empty [of st mk contact "[]"] show ?thesis by (auto simp: synced_def)
next
  case False
  then have ne: "pending_bytes ser m \<noteq> []" using pending_bytes_empty by blast
  then have "good_block (pending_bytes ser m)" using assms(6) by (simp add: good_block_def)
  with load_saved [OF assms(1-4)] assms(5) False show ?thesis by (auto simp: synced_def)
qed

text \<open>A file that is too large is written, and not read.\<close>

lemma load_oversize:
  assumes "can_use_file st" and "synced ser m st" and "1024 * 1024 < length (pending_bytes ser m)"
    and "length (pending_bytes ser m) < 2 ^ 32"
  shows "\<exists>st'. load_pending mk contact [] st = Some (False, [], st')"
proof -
  have "tidy m \<noteq> []" using assms(3) pending_bytes_empty [of ser m] by auto
  then have c: "contents st = enc_block (pending_bytes ser m)" using assms(2) by (simp add: synced_def)
  have exists: "st_file st \<noteq> None" by (rule file_there [OF c]) simp
  obtain st1 where o: "storage_open (mode_zero\<lparr>sm_read := True\<rparr>) st = (True, st1)" "open_reading st1" "unread st1 = contents st"
    using open_read [OF assms(1) exists] by blast
  obtain st2 d where "read_data_block (-1) st1 empty_stream = Some (False, st2, d)"
    using read_oversize [OF o(2) o(3) [unfolded c] assms(3,4)] by blast
  with o(1) show ?thesis by (simp add: load_pending_def)
qed

end

end
