(* ===== verification/Pending_Guarantees.thy ===== *)
theory Pending_Guarantees
  imports Pending_Storage
begin

text \<open>
  What the pending operations promise: what was put in is there after a restart, the maps stay well formed
  whatever is called in whatever order, and what the server confirms leaves the queue or is renewed in it, deletions included.
\<close>

subsection \<open>A restart\<close>

definition po_storable :: "junk \<Rightarrow> pending_operations \<Rightarrow> bool" where
  "po_storable junk x \<longleftrightarrow>
     om_ok (po_messages x) \<and> keyed ns_aimid (po_messages x) \<and> list_all (good_not_sent junk) (concat (map snd (po_messages x))) \<and>
     om_ok (po_deletions x) \<and> keyed dm_aimid (po_deletions x) \<and> list_all good_deletion (concat (map snd (po_deletions x)))"

text \<open>The files of the pending operations hold what the maps are.\<close>

definition on_disk :: "junk \<Rightarrow> pending_operations \<Rightarrow> bool" where
  "on_disk junk x \<longleftrightarrow> can_use_file (po_sent_storage x) \<and> synced (not_sent_fields junk) (po_messages x) (po_sent_storage x) \<and>
     can_use_file (po_delete_storage x) \<and> synced delete_fields (po_deletions x) (po_delete_storage x)"

definition sent_bytes :: "junk \<Rightarrow> pending_operations \<Rightarrow> nat" where
  "sent_bytes junk x = length (pending_bytes (not_sent_fields junk) (po_messages x))"

definition deletion_bytes :: "pending_operations \<Rightarrow> nat" where
  "deletion_bytes x = length (pending_bytes delete_fields (po_deletions x))"

lemma save_sent_on_disk:
  assumes "save_sent junk x = Some x'" and "on_disk junk y" and "po_deletions x = po_deletions y"
    and "po_sent_storage x = po_sent_storage y" "po_delete_storage x = po_delete_storage y"
    and "sent_bytes junk x < 2 ^ 32" and "sent_bytes junk x + 16 \<le> st_room (po_sent_storage x)"
  shows "on_disk junk x' \<and> po_messages x' = po_messages x \<and> po_deletions x' = po_deletions x"
proof -
  have "can_use_file (po_sent_storage x)" using assms(2,4) by (simp add: on_disk_def)
  from sent.save_synced [OF this assms(6,7) [unfolded sent_bytes_def]] assms(1-5) show ?thesis
    by (auto simp: save_sent_def on_disk_def)
qed

lemma load_deletions_on_disk:
  assumes "on_disk junk x" and "po_storable junk x" and "deletion_bytes x \<le> 1024 * 1024"
  shows "\<exists>ok st. load_pending delete_make dm_aimid [] (po_delete_storage x) = Some (ok, tidy (po_deletions x), st)"
proof -
  have "om_ok (po_deletions x)" "keyed dm_aimid (po_deletions x)" "list_all good_deletion (concat (map snd (po_deletions x)))"
    "can_use_file (po_delete_storage x)" "synced delete_fields (po_deletions x) (po_delete_storage x)"
    using assms(1,2) by (simp_all add: po_storable_def on_disk_def)
  note l = deletions.load_synced [OF this assms(3) [unfolded deletion_bytes_def]]
  have "map_entries (\<lambda>d. d) (po_deletions x) = po_deletions x" by (simp add: map_entries_def)
  with l show ?thesis by simp
qed

lemma restart:
  assumes "on_disk junk x" and "po_storable junk x" and "sent_bytes junk x \<le> 1024 * 1024" and "deletion_bytes x \<le> 1024 * 1024"
  shows "\<exists>r. mk_pending_operations rd now (po_sent_storage x) (po_delete_storage x) = Some r \<and>
    po_messages r = tidy (map_entries (stored_not_sent junk rd now) (po_messages x)) \<and> po_deletions r = tidy (po_deletions x)"
proof -
  have "om_ok (po_messages x)" "keyed ns_aimid (po_messages x)" "list_all (good_not_sent junk) (concat (map snd (po_messages x)))"
    "can_use_file (po_sent_storage x)" "synced (not_sent_fields junk) (po_messages x) (po_sent_storage x)"
    using assms(1,2) by (simp_all add: po_storable_def on_disk_def)
  from sent.load_synced [OF this assms(3) [unfolded sent_bytes_def], of rd now] obtain ok st1 where
    "load_pending (not_sent_make rd now) ns_aimid [] (po_sent_storage x) =
      Some (ok, tidy (map_entries (stored_not_sent junk rd now) (po_messages x)), st1)" by blast
  moreover obtain ok2 st2 where "load_pending delete_make dm_aimid [] (po_delete_storage x) = Some (ok2, tidy (po_deletions x), st2)"
    using load_deletions_on_disk [OF assms(1,2,4)] by blast
  ultimately show ?thesis
    by (simp add: mk_pending_operations_def load_if_need_def load_sent_def load_deletions_def)
qed

lemma inserted: "msg \<in> set (insert_or_replace msg es)"
  by (induction es) auto

lemma save_sent_keeps: "save_sent junk x = Some x' \<Longrightarrow> po_messages x' = po_messages x \<and> po_deletions x' = po_deletions x \<and>
    po_delete_storage x' = po_delete_storage x \<and> po_loaded x' = po_loaded x"
  by (auto simp: save_sent_def)

lemma insert_on_disk:
  assumes "insert_message junk aimid msg x = Some x'" and "on_disk junk x" and "sent_bytes junk x' < 2 ^ 32"
    and "sent_bytes junk x' + 16 \<le> st_room (po_sent_storage x)"
  shows "on_disk junk x' \<and> po_deletions x' = po_deletions x \<and> msg \<in> set (entries_of aimid (po_messages x'))"
proof -
  let ?x = "x\<lparr>po_messages := set_entries aimid (insert_or_replace msg (entries_of aimid (po_messages x))) (po_messages x)\<rparr>"
  have s: "save_sent junk ?x = Some x'" using assms(1) by (simp add: insert_message_def)
  then have m: "po_messages x' = po_messages ?x" using save_sent_keeps by blast
  then have "sent_bytes junk ?x = sent_bytes junk x'" by (simp add: sent_bytes_def)
  with save_sent_on_disk [OF s assms(2)] assms(3,4) m inserted show ?thesis by simp
qed

text \<open>C7: A message put into the queue survives a restart: if the files held what the maps are
  and the messages fit into one block, an object made from the files after the insertion has the messages of
  every contact, in their stored form and in their order, and the pending deletions.\<close>

theorem pending_survives_restart:
  assumes "insert_message junk aimid msg x = Some x'" and "on_disk junk x" and "po_storable junk x'"
    and "sent_bytes junk x' \<le> 1024 * 1024" and "deletion_bytes x \<le> 1024 * 1024"
    and "sent_bytes junk x' + 16 \<le> st_room (po_sent_storage x)"
  shows "\<exists>r. mk_pending_operations rd now (po_sent_storage x') (po_delete_storage x') = Some r \<and>
    po_messages r = tidy (map_entries (stored_not_sent junk rd now) (po_messages x')) \<and> po_deletions r = tidy (po_deletions x) \<and>
    msg \<in> set (entries_of aimid (po_messages x'))"
proof -
  have "sent_bytes junk x' < 2 ^ 32" using assms(4) by simp
  note d = insert_on_disk [OF assms(1,2) this assms(6)]
  then have "deletion_bytes x' \<le> 1024 * 1024" using assms(5) by (simp add: deletion_bytes_def)
  with restart [OF _ assms(3,4)] d show ?thesis by metis
qed

text \<open>C10: The whole queue is one block. Once the messages are larger than a block may be, the
  insertion writes them all the same, and an object made from the files finds no message at all: the new one
  is lost, and so are all that were there before it. The deletions are not touched.\<close>

theorem too_many_pending_are_lost:
  assumes "insert_message junk aimid msg x = Some x'" and "on_disk junk x" and "po_storable junk x'"
    and "1024 * 1024 < sent_bytes junk x'" and "sent_bytes junk x' < 2 ^ 32" and "deletion_bytes x \<le> 1024 * 1024"
    and "sent_bytes junk x' + 16 \<le> st_room (po_sent_storage x)"
  shows "\<exists>r. mk_pending_operations rd now (po_sent_storage x') (po_delete_storage x') = Some r \<and>
    po_messages r = [] \<and> po_deletions r = tidy (po_deletions x) \<and> msg \<in> set (entries_of aimid (po_messages x'))"
proof -
  note d = insert_on_disk [OF assms(1,2,5,7)]
  then obtain st where l: "load_pending (not_sent_make rd now) ns_aimid [] (po_sent_storage x') = Some (False, [], st)"
    using sent.load_oversize [of "po_sent_storage x'" junk "po_messages x'"] assms(4,5)
    by (auto simp: on_disk_def sent_bytes_def)
  have "deletion_bytes x' \<le> 1024 * 1024" using d assms(6) by (simp add: deletion_bytes_def)
  with l d load_deletions_on_disk [OF _ assms(3)] show ?thesis
    by (fastforce simp: mk_pending_operations_def load_if_need_def load_sent_def load_deletions_def)
qed

subsection \<open>Whatever is called\<close>

text \<open>The invariant: the maps are in order, every entry is under its own contact, no contact has two messages
  with the same internal id, and no file stays open.\<close>

definition map_ok :: "(cstring \<Rightarrow> 'e list \<Rightarrow> bool) \<Rightarrow> 'e pending_map \<Rightarrow> bool" where
  "map_ok P m \<longleftrightarrow> om_ok m \<and> (\<forall>(k, es)\<in>set m. P k es)"

definition messages_ok :: "cstring \<Rightarrow> not_sent_message list \<Rightarrow> bool" where
  "messages_ok k es \<longleftrightarrow> (\<forall>e\<in>set es. ns_aimid e = k) \<and> distinct (map ns_internal_id es)"

definition deletions_ok :: "cstring \<Rightarrow> delete_message list \<Rightarrow> bool" where
  "deletions_ok k ds \<longleftrightarrow> (\<forall>d\<in>set ds. dm_aimid d = k)"

definition po_ok :: "pending_operations \<Rightarrow> bool" where
  "po_ok x \<longleftrightarrow> map_ok messages_ok (po_messages x) \<and> map_ok deletions_ok (po_deletions x) \<and>
     st_stream (po_sent_storage x) = None \<and> st_stream (po_delete_storage x) = None"

inductive pending_step :: "junk \<Rightarrow> pending_operations \<Rightarrow> pending_operations \<Rightarrow> bool" for junk where
  step_insert: "ns_aimid msg = aimid \<Longrightarrow> insert_message junk aimid msg x = Some x' \<Longrightarrow> pending_step junk x x'"
| step_update: "ns_aimid msg = aimid \<Longrightarrow> update_message_if_exist junk aimid msg x = Some (b, x') \<Longrightarrow> pending_step junk x x'"
| step_remove: "remove_message junk iid x = Some x' \<Longrightarrow> pending_step junk x x'"
| step_drop: "drop_contact junk aimid x = Some x' \<Longrightarrow> pending_step junk x x'"
| step_acknowledged: "remove_acknowledged junk fresh aimid b data x = Some (stats, x') \<Longrightarrow> pending_step junk x x'"
| step_duplicated: "mark_duplicated junk iid x = Some x' \<Longrightarrow> pending_step junk x x'"
| step_post_time: "pending_step junk x (update_message_post_time iid time x)"
| step_imstate: "update_with_imstate junk iid hist_msg_id x = Some (msg, x') \<Longrightarrow> pending_step junk x x'"
| step_failed: "failed_pending_message junk iid x = Some x' \<Longrightarrow> pending_step junk x x'"
| step_delete: "dm_aimid d = contact \<Longrightarrow> insert_deleted_message junk contact d x = Some x' \<Longrightarrow> pending_step junk x x'"
| step_deleted: "remove_deleted_message contact d x = Some (res, x') \<Longrightarrow> pending_step junk x x'"

subsection \<open>The maps stay well formed\<close>

lemma map_ok_set: "map_ok P m \<Longrightarrow> P k es \<Longrightarrow> map_ok P (set_entries k es m)"
proof -
  assume m: "map_ok P m" and es: "P k es"
  have "om_ok (map (\<lambda>(i, v). (i, if i = k then es else v)) m) = om_ok m"
    by (simp add: om_ok_def comp_def case_prod_unfold)
  then show ?thesis
    using m es by (auto simp: map_ok_def set_entries_def om_ok_emplace set_om_emplace split: if_splits)
qed

lemma map_ok_entries: "map_ok P m \<Longrightarrow> P k [] \<Longrightarrow> P k (entries_of k m)"
  by (auto simp: map_ok_def entries_of_def dest: map_of_SomeD split: option.split)

lemma map_ok_erase: "map_ok P m \<Longrightarrow> map_ok P (erase_contact k m)"
  by (auto simp: map_ok_def erase_contact_def om_ok_filter)

lemma keys_modify_message: "map fst (modify_message Q f m) = map fst m"
  by (induction Q f m rule: modify_message.induct) auto

lemma map_ok_modify:
  assumes "map_ok P m" and "\<And>k es. P k es \<Longrightarrow> P k (modify_first Q f es)"
  shows "map_ok P (modify_message Q f m)"
proof -
  have "\<forall>(k, es)\<in>set m. P k es \<Longrightarrow> \<forall>(k, es)\<in>set (modify_message Q f m). P k es"
  proof (induction m)
    case (Cons x m)
    then show ?case by (cases x) (auto simp: assms(2))
  qed simp
  with assms(1) show ?thesis by (simp add: map_ok_def om_ok_def keys_modify_message)
qed

lemma messages_ok_Nil [simp]: "messages_ok k []" "deletions_ok k []"
  by (simp_all add: messages_ok_def deletions_ok_def)

lemma ids_insert: "set (map ns_internal_id (insert_or_replace x es)) = insert (ns_internal_id x) (set (map ns_internal_id es))"
  by (induction es) auto

lemma messages_ok_insert: "messages_ok k es \<Longrightarrow> ns_aimid x = k \<Longrightarrow> messages_ok k (insert_or_replace x es)"
proof (induction es)
  case (Cons y es)
  then show ?case using ids_insert [of x es] by (auto simp: messages_ok_def)
qed (simp add: messages_ok_def)

lemma take_over_file_simps [simp]: "ns_aimid (take_over_file y x) = ns_aimid x" "ns_internal_id (take_over_file y x) = ns_internal_id x"
  by (auto simp: take_over_file_def ns_internal_id_def split: option.split)

lemma replace_existing_ids: "replace_existing x es = Some es' \<Longrightarrow> map ns_internal_id es' = map ns_internal_id es"
  by (induction es arbitrary: es') (auto split: if_splits)

lemma messages_ok_replace:
  assumes "replace_existing x es = Some es'" and "messages_ok k es" and "ns_aimid x = k"
  shows "messages_ok k es'"
proof -
  have "\<forall>e\<in>set es'. ns_aimid e = k" using assms
    by (induction es arbitrary: es') (auto simp: messages_ok_def split: if_splits)
  with assms replace_existing_ids show ?thesis by (auto simp: messages_ok_def)
qed

lemma messages_ok_erase_first: "messages_ok k es \<Longrightarrow> messages_ok k (erase_first P es)"
proof (induction es)
  case (Cons y es)
  have "set (erase_first P es) \<subseteq> set es" by (induction es) auto
  with Cons show ?case by (auto simp: messages_ok_def)
qed simp

lemma messages_ok_remove: "messages_ok k es \<Longrightarrow> messages_ok k (take i es @ drop (Suc i) es)"
proof (cases "i < length es")
  case True
  assume "messages_ok k es"
  then show ?thesis by (subst (asm) id_take_nth_drop [OF True]) (auto simp: messages_ok_def)
qed simp

lemma messages_ok_same:
  assumes "messages_ok k es" and "map ns_aimid es' = map ns_aimid es" and "map ns_internal_id es' = map ns_internal_id es"
  shows "messages_ok k es'"
proof -
  have "set (map ns_aimid es') \<subseteq> {k}" using assms(1,2) by (auto simp: messages_ok_def)
  then show ?thesis using assms(1,3) by (auto simp: messages_ok_def)
qed

lemma mark_deleted_simps [simp]: "ns_aimid (mark_deleted junk d e) = ns_aimid e"
  "ns_internal_id (mark_deleted junk d e) = ns_internal_id e"
  "ns_network_request_id (mark_deleted junk d e) = ns_network_request_id e"
  by (auto simp: mark_deleted_def ns_set_delete_operation_def ns_internal_id_def make_modified_def make_deleted_def
      msg_set_patch_def msg_set_modified_def msg_set_deleted_def Let_def)

lemma messages_ok_mark: "messages_ok k es \<Longrightarrow> messages_ok k (map (mark_deleted junk d) es)"
  by (rule messages_ok_same) (simp_all add: comp_def)

lemma map_update_same: "i < length es \<Longrightarrow> f e = f (es ! i) \<Longrightarrow> map f (es[i := e]) = map f es"
  by (metis list_update_id map_update nth_map)

lemma messages_ok_update:
  "messages_ok k es \<Longrightarrow> i < length es \<Longrightarrow> ns_aimid e = ns_aimid (es ! i) \<Longrightarrow> ns_internal_id e = ns_internal_id (es ! i) \<Longrightarrow>
    messages_ok k (es[i := e])"
  by (rule messages_ok_same) (simp_all add: map_update_same)

lemma messages_ok_modify_first:
  assumes "\<And>e. ns_aimid (f e) = ns_aimid e" and "\<And>e. ns_internal_id (f e) = ns_internal_id e"
  shows "messages_ok k es \<Longrightarrow> messages_ok k (modify_first P f es)"
proof (rule messages_ok_same)
  show "map ns_aimid (modify_first P f es) = map ns_aimid es" "map ns_internal_id (modify_first P f es) = map ns_internal_id es"
    by (induction es) (auto simp: assms)
qed

subsection \<open>The invariant\<close>

named_theorems pending_keeps

lemma po_ok_messages: "po_ok x \<Longrightarrow> messages_ok k es \<Longrightarrow> po_ok (x\<lparr>po_messages := set_entries k es (po_messages x)\<rparr>)"
  by (simp add: po_ok_def map_ok_set)

lemma po_ok_entries: "po_ok x \<Longrightarrow> messages_ok k (entries_of k (po_messages x))"
  by (simp add: po_ok_def map_ok_entries)

lemma po_ok_save [pending_keeps]: "save_sent junk x = Some x' \<Longrightarrow> po_ok x \<Longrightarrow> po_ok x'"
  "save_deletions x = Some x' \<Longrightarrow> po_ok x \<Longrightarrow> po_ok x'"
  by (auto simp: save_sent_def save_deletions_def po_ok_def dest: save_pending_closed)

lemma po_ok_insert [pending_keeps]: "insert_message junk aimid msg x = Some x' \<Longrightarrow> ns_aimid msg = aimid \<Longrightarrow> po_ok x \<Longrightarrow> po_ok x'"
  by (auto simp: insert_message_def intro!: po_ok_messages messages_ok_insert po_ok_entries elim!: po_ok_save)

lemma po_ok_update [pending_keeps]:
  assumes "update_message_if_exist junk aimid msg x = Some (b, x')" and "ns_aimid msg = aimid" and "po_ok x"
  shows "po_ok x'"
proof (cases "map_of (po_messages x) aimid")
  case (Some es)
  then have "messages_ok aimid es" using po_ok_entries [OF assms(3), of aimid] by (simp add: entries_of_def)
  note ok = po_ok_messages [OF assms(3) messages_ok_replace [OF _ this assms(2)]]
  show ?thesis
  proof (cases "replace_existing msg es")
    case None
    with assms Some show ?thesis by (simp add: update_message_if_exist_def)
  next
    case (Some es')
    with assms(1) \<open>map_of (po_messages x) aimid = _\<close>
    have "save_sent junk (x\<lparr>po_messages := set_entries aimid es' (po_messages x)\<rparr>) = Some x'"
      by (simp add: update_message_if_exist_def)
    from po_ok_save(1) [OF this ok [OF Some]] show ?thesis .
  qed
qed (use assms in \<open>simp add: update_message_if_exist_def\<close>)

lemma po_ok_remove_loop: "remove_loop junk iid ks x = Some x' \<Longrightarrow> po_ok x \<Longrightarrow> po_ok x'"
proof (induction ks arbitrary: x)
  case (Cons k ks)
  show ?case
  proof (cases "list_ex (has_id iid) (entries_of k (po_messages x))")
    case True
    with Cons.prems(1) obtain y where
      y: "save_sent junk (x\<lparr>po_messages := set_entries k (erase_first (has_id iid) (entries_of k (po_messages x))) (po_messages x)\<rparr>) = Some y"
      and r: "remove_loop junk iid ks y = Some x'" by (auto simp: Let_def bind_eq_Some_conv)
    have "po_ok y"
      by (rule po_ok_save(1) [OF y po_ok_messages [OF Cons.prems(2) messages_ok_erase_first [OF po_ok_entries [OF Cons.prems(2)]]]])
    then show ?thesis by (rule Cons.IH [OF r])
  qed (use Cons in \<open>simp add: Let_def\<close>)
qed simp

lemma po_ok_remove [pending_keeps]: "remove_message junk iid x = Some x' \<Longrightarrow> po_ok x \<Longrightarrow> po_ok x'"
  unfolding remove_message_def by (rule po_ok_remove_loop)


lemma po_ok_drop [pending_keeps]: "drop_contact junk aimid x = Some x' \<Longrightarrow> po_ok x \<Longrightarrow> po_ok x'"
proof -
  assume d: "drop_contact junk aimid x = Some x'" and ok: "po_ok x"
  obtain y where y: "(if map_of (po_messages x) aimid = None then Some x
      else save_sent junk (x\<lparr>po_messages := erase_contact aimid (po_messages x)\<rparr>)) = Some y"
    "(if map_of (po_deletions y) aimid = None then Some y
      else save_deletions (y\<lparr>po_deletions := erase_contact aimid (po_deletions y)\<rparr>)) = Some x'"
    using d unfolding drop_contact_def bind_eq_Some_conv by blast
  have "po_ok (x\<lparr>po_messages := erase_contact aimid (po_messages x)\<rparr>)" using ok by (simp add: po_ok_def map_ok_erase)
  then have oy: "po_ok y" using y(1) ok po_ok_save(1) by (auto split: if_splits)
  then have "po_ok (y\<lparr>po_deletions := erase_contact aimid (po_deletions y)\<rparr>)" by (simp add: po_ok_def map_ok_erase)
  with y(2) oy po_ok_save(2) show "po_ok x'" by (auto split: if_splits)
qed

lemma po_ok_delete [pending_keeps]:
  assumes "insert_deleted_message junk contact d x = Some x'" and "dm_aimid d = contact" and "po_ok x"
  shows "po_ok x'"
proof -
  obtain y where y: "(if list_ex (is_deletion_of d) (entries_of contact (po_messages x))
      then save_sent junk (x\<lparr>po_messages :=
        set_entries contact (map (mark_deleted junk d) (entries_of contact (po_messages x))) (po_messages x)\<rparr>)
      else Some x) = Some y"
    "(if dm_message_id d > 0 then save_deletions (y\<lparr>po_deletions := add_entry contact d (po_deletions y)\<rparr>) else Some y) = Some x'"
    using assms(1) unfolding insert_deleted_message_def bind_eq_Some_conv by blast
  note po_ok_messages [OF assms(3) messages_ok_mark [OF po_ok_entries [OF assms(3)]]]
  then have oy: "po_ok y" using y(1) assms(3) po_ok_save(1) by (auto split: if_splits)
  then have "deletions_ok contact (entries_of contact (po_deletions y))" by (simp add: po_ok_def map_ok_entries)
  then have "po_ok (y\<lparr>po_deletions := add_entry contact d (po_deletions y)\<rparr>)"
    using oy assms(2) by (simp add: po_ok_def add_entry_def map_ok_set deletions_ok_def)
  with y(2) oy po_ok_save(2) show ?thesis by (auto split: if_splits)
qed

lemma po_ok_deleted [pending_keeps]:
  assumes "remove_deleted_message contact d x = Some (res, x')" and "po_ok x"
  shows "po_ok x'"
proof -
  have "map_ok deletions_ok (set_entries contact (filter P es) (po_deletions x))" if "map_of (po_deletions x) contact = Some es" for P es
  proof -
    have "deletions_ok contact es"
      using that assms(2) map_ok_entries [of deletions_ok "po_deletions x" contact] by (simp add: po_ok_def entries_of_def)
    then show ?thesis using assms(2) by (intro map_ok_set) (auto simp: po_ok_def deletions_ok_def)
  qed
  moreover have "map_ok deletions_ok (erase_contact contact (po_deletions x))" using assms(2) by (simp add: po_ok_def map_ok_erase)
  ultimately have "po_ok (x\<lparr>po_deletions := m\<rparr>)" if "m = po_deletions x \<or> m = erase_contact contact (po_deletions x) \<or>
      (\<exists>P es. map_of (po_deletions x) contact = Some es \<and> m = set_entries contact (filter P es) (po_deletions x))" for m
    using that assms(2) by (auto simp: po_ok_def)
  then show ?thesis
    using assms by (auto simp: remove_deleted_message_def Let_def split: option.splits if_splits elim!: po_ok_save(2))
qed

lemma po_ok_change:
  assumes "\<And>e. ns_aimid (f e) = ns_aimid e" and "\<And>e. ns_internal_id (f e) = ns_internal_id e"
  shows "po_ok x \<Longrightarrow> po_ok (change_message iid f x)"
  by (simp add: po_ok_def change_message_def map_ok_modify messages_ok_modify_first assms)

lemma po_ok_marks [pending_keeps]:
  "mark_duplicated junk iid x = Some x' \<Longrightarrow> po_ok x \<Longrightarrow> po_ok x'"
  "failed_pending_message junk iid x = Some x' \<Longrightarrow> po_ok x \<Longrightarrow> po_ok x'"
  "po_ok x \<Longrightarrow> po_ok (update_message_post_time iid time x)"
  by (auto simp: mark_duplicated_def failed_pending_message_def update_message_post_time_def ns_internal_id_def
      split: if_splits intro!: po_ok_change elim!: po_ok_save)

lemma found_message_ok: "find_message P m = Some e \<Longrightarrow> \<exists>k es. (k, es) \<in> set m \<and> e \<in> set es \<and> P e"
  by (induction P m rule: find_message.induct) (auto split: option.splits simp: find_Some_iff dest: nth_mem)

lemma po_ok_imstate [pending_keeps]:
  assumes "update_with_imstate junk iid hist_msg_id x = Some (r, x')" and "po_ok x"
  shows "po_ok x'"
  using assms
  by (auto simp: update_with_imstate_def bind_eq_Some_conv Let_def split: option.splits if_splits
      dest!: po_ok_save po_ok_remove po_ok_delete)

subsection \<open>The messages of the server\<close>

lemma insert_deleted_returns:
  "\<exists>y. insert_deleted_message junk contact d x = Some y \<and>
    entries_of contact (po_messages y) = map (mark_deleted junk d) (entries_of contact (po_messages x)) \<and>
    entries_of contact (po_deletions y) = entries_of contact (po_deletions x) @ (if dm_message_id d > 0 then [d] else [])"
proof -
  let ?es = "entries_of contact (po_messages x)"
  let ?x = "x\<lparr>po_messages := set_entries contact (map (mark_deleted junk d) ?es) (po_messages x)\<rparr>"
  have same: "map (mark_deleted junk d) ?es = ?es" if "\<not> list_ex (is_deletion_of d) ?es"
    using that by (intro map_idI) (auto simp: mark_deleted_def list_ex_iff)
  obtain y where y: "(if list_ex (is_deletion_of d) ?es then save_sent junk ?x else Some x) = Some y"
    using saves_return(1) by (metis option.exhaust)
  then have e: "entries_of contact (po_messages y) = map (mark_deleted junk d) ?es" "po_deletions y = po_deletions x"
    using same by (auto simp: save_sent_def split: if_splits)
  obtain z where z: "(if dm_message_id d > 0 then save_deletions (y\<lparr>po_deletions := add_entry contact d (po_deletions y)\<rparr>)
      else Some y) = Some z"
    using saves_return(2) by (metis option.exhaust)
  then have "po_messages z = po_messages y"
    "entries_of contact (po_deletions z) = entries_of contact (po_deletions x) @ (if dm_message_id d > 0 then [d] else [])"
    using e by (auto simp: save_deletions_def add_entry_def split: if_splits)
  with y z e show ?thesis by (auto simp: insert_deleted_message_def)
qed

lemma ack_loop_step:
  fixes x :: pending_operations and aimid :: cstring
  defines "es \<equiv> entries_of aimid (po_messages x)"
  assumes "i < length es"
  shows "\<not> acknowledged b (es ! i) \<Longrightarrow>
      ack_loop junk fresh aimid r b i x stats dirty = ack_loop junk fresh aimid r b (Suc i) x stats dirty"
    and "acknowledged b (es ! i) \<Longrightarrow> ns_deleted (es ! i) \<Longrightarrow> \<exists>y stats'.
      insert_deleted_message junk aimid \<lparr>dm_aimid = aimid, dm_message_id = hm_msgid b, dm_internal_id = ns_internal_id (es ! i),
        dm_operation = ns_delete_operation (es ! i)\<rparr> x = Some y \<and>
      ack_loop junk fresh aimid r b i x stats dirty = ack_loop junk fresh aimid r b i
        (y\<lparr>po_messages := set_entries aimid (take i (entries_of aimid (po_messages y)) @ drop (Suc i) (entries_of aimid (po_messages y)))
          (po_messages y)\<rparr>) stats' True"
    and "acknowledged b (es ! i) \<Longrightarrow> \<not> ns_deleted (es ! i) \<Longrightarrow> ns_modified (es ! i) \<and> \<not> r \<Longrightarrow> \<exists>stats'.
      ack_loop junk fresh aimid r b i x stats dirty = ack_loop junk fresh aimid r b (Suc i)
        (x\<lparr>po_messages := set_entries aimid (es[i := (ns_set_updated_id (hm_msgid b) (es ! i))\<lparr>ns_modified := False,
          ns_network_request_id := fresh (length stats)\<rparr>]) (po_messages x)\<rparr>) stats' True"
    and "acknowledged b (es ! i) \<Longrightarrow> \<not> ns_deleted (es ! i) \<Longrightarrow> \<not> (ns_modified (es ! i) \<and> \<not> r) \<Longrightarrow> \<exists>stats'.
      ack_loop junk fresh aimid r b i x stats dirty = ack_loop junk fresh aimid r b i
        (x\<lparr>po_messages := set_entries aimid (take i es @ drop (Suc i) es) (po_messages x)\<rparr>) stats' True"
proof -
  note unfold = ack_loop.simps [of junk fresh aimid r b i x stats dirty]
  show "\<not> acknowledged b (es ! i) \<Longrightarrow>
      ack_loop junk fresh aimid r b i x stats dirty = ack_loop junk fresh aimid r b (Suc i) x stats dirty"
    using assms(2) unfolding unfold Let_def es_def [symmetric] by simp
  assume ack: "acknowledged b (es ! i)"
  { assume d: "ns_deleted (es ! i)"
    obtain y where y: "insert_deleted_message junk aimid \<lparr>dm_aimid = aimid, dm_message_id = hm_msgid b,
        dm_internal_id = ns_internal_id (es ! i), dm_operation = ns_delete_operation (es ! i)\<rparr> x = Some y"
      using insert_deleted_returns by blast
    then show "\<exists>y stats'.
      insert_deleted_message junk aimid \<lparr>dm_aimid = aimid, dm_message_id = hm_msgid b, dm_internal_id = ns_internal_id (es ! i),
        dm_operation = ns_delete_operation (es ! i)\<rparr> x = Some y \<and>
      ack_loop junk fresh aimid r b i x stats dirty = ack_loop junk fresh aimid r b i
        (y\<lparr>po_messages := set_entries aimid (take i (entries_of aimid (po_messages y)) @ drop (Suc i) (entries_of aimid (po_messages y)))
          (po_messages y)\<rparr>) stats' True"
      using assms(2) ack d unfolding unfold Let_def es_def [symmetric] by auto }
  assume nd: "\<not> ns_deleted (es ! i)"
  { assume "ns_modified (es ! i) \<and> \<not> r"
    then show "\<exists>stats'. ack_loop junk fresh aimid r b i x stats dirty = ack_loop junk fresh aimid r b (Suc i)
        (x\<lparr>po_messages := set_entries aimid (es[i := (ns_set_updated_id (hm_msgid b) (es ! i))\<lparr>ns_modified := False,
          ns_network_request_id := fresh (length stats)\<rparr>]) (po_messages x)\<rparr>) stats' True"
      using assms(2) ack nd unfolding unfold Let_def es_def [symmetric] by auto }
  assume "\<not> (ns_modified (es ! i) \<and> \<not> r)"
  then show "\<exists>stats'. ack_loop junk fresh aimid r b i x stats dirty = ack_loop junk fresh aimid r b i
        (x\<lparr>po_messages := set_entries aimid (take i es @ drop (Suc i) es) (po_messages x)\<rparr>) stats' True"
    using assms(2) ack nd unfolding unfold Let_def es_def [symmetric] by auto
qed

lemma set_remove: "i < length es \<Longrightarrow> set es = insert (es ! i) (set (take i es @ drop (Suc i) es))"
  by (subst (1) id_take_nth_drop) auto

lemma po_ok_ack_loop:
  assumes "po_ok x"
  shows "\<exists>x' stats' dirty'. ack_loop junk fresh aimid r b i x stats dirty = Some (x', stats', dirty') \<and> po_ok x'"
  using assms
proof (induction "length (entries_of aimid (po_messages x)) - i" arbitrary: i x stats dirty rule: less_induct)
  case less
  let ?es = "entries_of aimid (po_messages x)"
  note ok = po_ok_entries [OF less.prems, of aimid]
  show ?case
  proof (cases "i < length ?es")
    case False
    then show ?thesis using less.prems by (subst ack_loop.simps) simp
  next
    case True
    note step = ack_loop_step [OF True, where b = b and junk = junk and fresh = fresh and r = r and stats = stats and dirty = dirty]
    let ?rest = "\<lambda>es :: not_sent_message list. take i es @ drop (Suc i) es"
    show ?thesis
    proof (cases "acknowledged b (?es ! i)")
      case False
      with step(1) less.hyps [of x "Suc i"] less.prems True show ?thesis by simp
    next
      case ack: True
      show ?thesis
      proof (cases "ns_deleted (?es ! i)")
        case d: True
        from step(2) [OF ack d] obtain y stats' where y: "insert_deleted_message junk aimid
            \<lparr>dm_aimid = aimid, dm_message_id = hm_msgid b, dm_internal_id = ns_internal_id (?es ! i),
             dm_operation = ns_delete_operation (?es ! i)\<rparr> x = Some y"
          and eq: "ack_loop junk fresh aimid r b i x stats dirty = ack_loop junk fresh aimid r b i
            (y\<lparr>po_messages := set_entries aimid (?rest (entries_of aimid (po_messages y))) (po_messages y)\<rparr>) stats' True" by blast
        have oy: "po_ok y" by (rule po_ok_delete [OF y _ less.prems]) simp
        note po_ok_messages [OF oy messages_ok_remove [OF po_ok_entries [OF oy]]]
        moreover have "length (entries_of aimid (po_messages y)) = length ?es" by (rule length_entries_deleted [OF y])
        ultimately show ?thesis unfolding eq using True by (intro less.hyps) simp_all
      next
        case nd: False
        show ?thesis
        proof (cases "ns_modified (?es ! i) \<and> \<not> r")
          case m: True
          obtain stats' where eq: "ack_loop junk fresh aimid r b i x stats dirty = ack_loop junk fresh aimid r b (Suc i)
              (x\<lparr>po_messages := set_entries aimid (?es[i := (ns_set_updated_id (hm_msgid b) (?es ! i))\<lparr>ns_modified := False,
                ns_network_request_id := fresh (length stats)\<rparr>]) (po_messages x)\<rparr>) stats' True" using step(3) [OF ack nd m] by blast
          have "messages_ok aimid (?es[i := (ns_set_updated_id (hm_msgid b) (?es ! i))\<lparr>ns_modified := False,
              ns_network_request_id := fresh (length stats)\<rparr>])"
            using True by (intro messages_ok_update [OF ok]) (simp_all add: ns_set_updated_id_def ns_internal_id_def)
          from po_ok_messages [OF less.prems this] True show ?thesis unfolding eq by (intro less.hyps) simp_all
        next
          case e: False
          from step(4) [OF ack nd e] obtain stats' where eq: "ack_loop junk fresh aimid r b i x stats dirty =
              ack_loop junk fresh aimid r b i (x\<lparr>po_messages := set_entries aimid (?rest ?es) (po_messages x)\<rparr>) stats' True" by blast
          from po_ok_messages [OF less.prems messages_ok_remove [OF ok]] True show ?thesis unfolding eq by (intro less.hyps) simp_all
        qed
      qed
    qed
  qed
qed

lemma po_ok_ack_blocks:
  "po_ok x \<Longrightarrow> \<exists>x' stats' dirty'. ack_blocks junk fresh aimid r bs x stats dirty = Some (x', stats', dirty') \<and> po_ok x'"
proof (induction bs arbitrary: x stats dirty)
  case (Cons b bs)
  obtain x1 stats1 dirty1 where one: "ack_loop junk fresh aimid r b 0 x stats dirty = Some (x1, stats1, dirty1)" "po_ok x1"
    using po_ok_ack_loop [OF Cons.prems] by blast
  from Cons.IH [OF one(2), of stats1 dirty1] one(1) show ?case by simp
qed simp

lemma po_ok_acknowledged [pending_keeps]:
  assumes "remove_acknowledged junk fresh aimid r data x = Some (stats, x')" and "po_ok x"
  shows "po_ok x'"
proof -
  let ?x = "x\<lparr>po_messages := set_entries aimid (entries_of aimid (po_messages x)) (po_messages x)\<rparr>"
  have ok: "po_ok ?x" by (rule po_ok_messages [OF assms(2) po_ok_entries [OF assms(2)]])
  show ?thesis
  proof (cases "entries_of aimid (po_messages x) = []")
    case True
    with assms(1) ok show ?thesis by (simp add: remove_acknowledged_def Let_def)
  next
    case False
    obtain y st d where y: "ack_blocks junk fresh aimid r data ?x [] False = Some (y, st, d)" "po_ok y"
      using po_ok_ack_blocks [OF ok] by blast
    then have "po_ok (y\<lparr>po_messages := erase_contact aimid (po_messages y)\<rparr>)" by (simp add: po_ok_def map_ok_erase)
    with assms(1) y False po_ok_save(1) show ?thesis
      by (auto simp: remove_acknowledged_def Let_def bind_eq_Some_conv split: if_splits)
  qed
qed

lemma pending_step_ok: "pending_step junk x x' \<Longrightarrow> po_ok x \<Longrightarrow> po_ok x'"
  by (induction rule: pending_step.induct) (blast intro: pending_keeps)+

text \<open>C9: No sequence of calls, in whatever order and with whatever failing writes, breaks the
  invariant of the pending operations: both maps are in order, every entry is under its own contact, no
  contact has two messages with the same internal id, and no file stays open.\<close>

theorem pending_invariant:
  assumes "(pending_step junk)\<^sup>*\<^sup>* x x'" and "po_ok x"
  shows "po_ok x'"
  using assms by (induction rule: rtranclp_induct) (auto intro: pending_step_ok)

subsection \<open>What the server confirms\<close>

text \<open>The two ids by which a message is recognised. Marking it as deleted changes neither.\<close>

definition ids_of :: "not_sent_message \<Rightarrow> cstring \<times> cstring" where
  "ids_of e = (ns_internal_id e, ns_network_request_id e)"

lemma same_ids: "ids_of e = ids_of e' \<Longrightarrow> acknowledged b e \<longleftrightarrow> acknowledged b e'"
  by (simp add: ids_of_def acknowledged_def ns_request_id_def)

lemma ids_of_mark [simp]: "ids_of (mark_deleted junk d e) = ids_of e"
  by (simp add: ids_of_def)

lemma deleted_mark [simp]: "ns_deleted e \<Longrightarrow> ns_deleted (mark_deleted junk d e)"
  by (simp add: mark_deleted_def ns_set_delete_operation_def Let_def)

definition ids_acknowledged :: "history_message \<Rightarrow> cstring \<times> cstring \<Rightarrow> bool" where
  "ids_acknowledged b i \<longleftrightarrow> fst i = hm_internal_id b \<or> (if snd i = [] then fst i else snd i) = hm_internal_id b"

lemma acknowledged_ids: "acknowledged b e \<longleftrightarrow> ids_acknowledged b (ids_of e)"
  by (simp add: acknowledged_def ids_acknowledged_def ids_of_def ns_request_id_def)

text \<open>\<open>told\<close>: of the deleted messages \<open>es\<close>, each is still there, or the deletion goes to the server.\<close>

definition told :: "history_message list \<Rightarrow> cstring \<Rightarrow> not_sent_message list \<Rightarrow> pending_operations \<Rightarrow> bool" where
  "told bs aimid es x \<longleftrightarrow> (\<forall>e\<in>set es. ns_deleted e \<longrightarrow>
     (\<exists>e'\<in>set (entries_of aimid (po_messages x)). ids_of e' = ids_of e \<and> ns_deleted e') \<or>
     (\<exists>b\<in>set bs. acknowledged b e \<and> (hm_msgid b > 0 \<longrightarrow>
       (\<exists>d\<in>set (entries_of aimid (po_deletions x)). dm_internal_id d = ns_internal_id e \<and> dm_message_id d = hm_msgid b))))"

lemma told_more: "told bs aimid es x \<Longrightarrow> set bs \<subseteq> set cs \<Longrightarrow> told cs aimid es x"
  unfolding told_def by blast

lemma told_trans:
  assumes "told bs aimid es x" and "told bs aimid (entries_of aimid (po_messages x)) y"
    and "set (entries_of aimid (po_deletions x)) \<subseteq> set (entries_of aimid (po_deletions y))"
  shows "told bs aimid es y"
  unfolding told_def
proof (intro ballI impI)
  fix e assume e: "e \<in> set es" "ns_deleted e"
  let ?gone = "\<lambda>e z. \<exists>b\<in>set bs. acknowledged b e \<and> (hm_msgid b > 0 \<longrightarrow>
       (\<exists>d\<in>set (entries_of aimid (po_deletions z)). dm_internal_id d = ns_internal_id e \<and> dm_message_id d = hm_msgid b))"
  consider (there) e' where "e' \<in> set (entries_of aimid (po_messages x))" "ids_of e' = ids_of e" "ns_deleted e'" | (gone) "?gone e x"
    using assms(1) e unfolding told_def by blast
  then show "(\<exists>e'\<in>set (entries_of aimid (po_messages y)). ids_of e' = ids_of e \<and> ns_deleted e') \<or> ?gone e y"
  proof cases
    case there
    have "ns_internal_id e' = ns_internal_id e" using there(2) by (simp add: ids_of_def)
    moreover have "(\<exists>e''\<in>set (entries_of aimid (po_messages y)). ids_of e'' = ids_of e' \<and> ns_deleted e'') \<or> ?gone e' y"
      using assms(2) there(1,3) unfolding told_def by blast
    ultimately show ?thesis using there(2) same_ids [OF there(2)] by (metis (lifting))
  next
    case gone
    with assms(3) show ?thesis by blast
  qed
qed

lemma ack_loop_works:
  "\<exists>x' stats' dirty'. ack_loop junk fresh aimid True b i x stats dirty = Some (x', stats', dirty') \<and>
    map ids_of (entries_of aimid (po_messages x')) =
      take i (map ids_of (entries_of aimid (po_messages x))) @
      filter (\<lambda>k. \<not> ids_acknowledged b k) (drop i (map ids_of (entries_of aimid (po_messages x)))) \<and>
    set (entries_of aimid (po_deletions x)) \<subseteq> set (entries_of aimid (po_deletions x')) \<and>
    told [b] aimid (entries_of aimid (po_messages x)) x'"
  (is "\<exists>x' stats' dirty'. _ = Some (x', stats', dirty') \<and> ?Q i x x'")
proof (induction "length (entries_of aimid (po_messages x)) - i" arbitrary: i x stats dirty rule: less_induct)
  case less
  let ?es = "entries_of aimid (po_messages x)"
  let ?Q = "\<lambda>i x x'. map ids_of (entries_of aimid (po_messages x')) =
      take i (map ids_of (entries_of aimid (po_messages x))) @
      filter (\<lambda>k. \<not> ids_acknowledged b k) (drop i (map ids_of (entries_of aimid (po_messages x)))) \<and>
    set (entries_of aimid (po_deletions x)) \<subseteq> set (entries_of aimid (po_deletions x')) \<and>
    told [b] aimid (entries_of aimid (po_messages x)) x'"
  show ?case
  proof (cases "i < length ?es")
    case False
    then show ?thesis by (subst ack_loop.simps) (auto simp: told_def)
  next
    case True
    note step = ack_loop_step [OF True, where b = b and junk = junk and fresh = fresh and r = True and stats = stats and dirty = dirty]
    let ?rest = "\<lambda>es :: not_sent_message list. take i es @ drop (Suc i) es"
    have split: "drop i (map ids_of ?es) = ids_of (?es ! i) # drop (Suc i) (map ids_of ?es)"
      "take (Suc i) (map ids_of ?es) = take i (map ids_of ?es) @ [ids_of (?es ! i)]"
      using True Cons_nth_drop_Suc [of i "map ids_of ?es"] by (simp_all add: take_Suc_conv_app_nth)
    show ?thesis
    proof (cases "acknowledged b (?es ! i)")
      case False
      have "length ?es - Suc i < length ?es - i" using True by linarith
      from less.hyps [OF this, of stats dirty]
      obtain x' stats' dirty' where "ack_loop junk fresh aimid True b (Suc i) x stats dirty = Some (x', stats', dirty')" "?Q (Suc i) x x'"
        by blast
      with step(1) [OF False] False split show ?thesis by (simp add: acknowledged_ids)
    next
      case ack: True
      then have head: "ids_acknowledged b (ids_of (?es ! i))" by (simp add: acknowledged_ids)
      have finish: ?thesis
        if eq: "ack_loop junk fresh aimid True b i x stats dirty = ack_loop junk fresh aimid True b i z stats' True"
          and z: "entries_of aimid (po_messages z) = ?rest es" "map ids_of es = map ids_of ?es"
            "set (entries_of aimid (po_deletions x)) \<subseteq> set (entries_of aimid (po_deletions z))" "told [b] aimid ?es z"
        for z es stats'
      proof -
        have len: "length es = length ?es" using z(2) by (metis length_map)
        then have ids: "take i (map ids_of (?rest es)) = take i (map ids_of ?es)"
          "drop i (map ids_of (?rest es)) = drop (Suc i) (map ids_of ?es)"
          using True unfolding map_append take_map [symmetric] drop_map [symmetric] z(2) by simp_all
        have "length (entries_of aimid (po_messages z)) - i < length ?es - i" using z(1) len True by simp
        from less.hyps [OF this, of stats' True] obtain x' stats'' dirty' where
          r: "ack_loop junk fresh aimid True b i z stats' True = Some (x', stats'', dirty')" "?Q i z x'" by blast
        have "?Q i x x'"
          using r(2) z told_trans [OF z(4)] head unfolding z(1) ids split(1) by auto
        then show ?thesis by (simp add: eq r(1))
      qed
      show ?thesis
      proof (cases "ns_deleted (?es ! i)")
        case d: True
        from step(2) [OF ack d] obtain y stats' where y: "insert_deleted_message junk aimid
            \<lparr>dm_aimid = aimid, dm_message_id = hm_msgid b, dm_internal_id = ns_internal_id (?es ! i),
             dm_operation = ns_delete_operation (?es ! i)\<rparr> x = Some y"
          and eq: "ack_loop junk fresh aimid True b i x stats dirty = ack_loop junk fresh aimid True b i
            (y\<lparr>po_messages := set_entries aimid (?rest (entries_of aimid (po_messages y))) (po_messages y)\<rparr>) stats' True" by blast
        let ?d = "\<lparr>dm_aimid = aimid, dm_message_id = hm_msgid b, dm_internal_id = ns_internal_id (?es ! i),
             dm_operation = ns_delete_operation (?es ! i)\<rparr>"
        have m: "entries_of aimid (po_messages y) = map (mark_deleted junk ?d) ?es"
          "entries_of aimid (po_deletions y) = entries_of aimid (po_deletions x) @ (if hm_msgid b > 0 then [?d] else [])"
          using insert_deleted_returns [of junk aimid ?d x] y by auto
        let ?z = "y\<lparr>po_messages := set_entries aimid (?rest (entries_of aimid (po_messages y))) (po_messages y)\<rparr>"
        have "told [b] aimid ?es ?z"
          unfolding told_def
        proof (intro ballI impI)
          fix e assume e: "e \<in> set ?es" "ns_deleted e"
          show "(\<exists>e'\<in>set (entries_of aimid (po_messages ?z)). ids_of e' = ids_of e \<and> ns_deleted e') \<or>
            (\<exists>b\<in>set [b]. acknowledged b e \<and> (hm_msgid b > 0 \<longrightarrow>
              (\<exists>d\<in>set (entries_of aimid (po_deletions ?z)). dm_internal_id d = ns_internal_id e \<and> dm_message_id d = hm_msgid b)))"
          proof (cases "e = ?es ! i")
            case True
            with ack m(2) show ?thesis by auto
          next
            case False
            with e(1) set_remove [OF True] have "e \<in> set (?rest ?es)" by auto
            then have "mark_deleted junk ?d e \<in> set (?rest (entries_of aimid (po_messages y)))"
              unfolding m(1) by (simp add: take_map drop_map flip: map_append)
            with e(2) show ?thesis by (intro disjI1 bexI [of _ "mark_deleted junk ?d e"]) simp_all
          qed
        qed
        then show ?thesis using m by (intro finish [OF eq, of "map (mark_deleted junk ?d) ?es"]) (simp_all add: comp_def subset_iff)
      next
        case nd: False
        obtain stats' where eq: "ack_loop junk fresh aimid True b i x stats dirty =
            ack_loop junk fresh aimid True b i (x\<lparr>po_messages := set_entries aimid (?rest ?es) (po_messages x)\<rparr>) stats' True"
          using step(4) [OF ack nd] by blast
        have "told [b] aimid ?es (x\<lparr>po_messages := set_entries aimid (?rest ?es) (po_messages x)\<rparr>)"
          using nd set_remove [OF True] by (auto simp: told_def)
        then show ?thesis by (intro finish [OF eq, of ?es]) simp_all
      qed
    qed
  qed
qed

lemma ack_blocks_works:
  "\<exists>x' stats' dirty'. ack_blocks junk fresh aimid True bs x stats dirty = Some (x', stats', dirty') \<and>
    map ids_of (entries_of aimid (po_messages x')) =
      filter (\<lambda>k. \<not> list_ex (\<lambda>b. ids_acknowledged b k) bs) (map ids_of (entries_of aimid (po_messages x))) \<and>
    set (entries_of aimid (po_deletions x)) \<subseteq> set (entries_of aimid (po_deletions x')) \<and>
    told bs aimid (entries_of aimid (po_messages x)) x'"
proof (induction bs arbitrary: x stats dirty)
  case Nil
  show ?case by (auto simp: told_def)
next
  case (Cons b bs)
  obtain x1 stats1 dirty1 where one: "ack_loop junk fresh aimid True b 0 x stats dirty = Some (x1, stats1, dirty1)"
    "map ids_of (entries_of aimid (po_messages x1)) = filter (\<lambda>k. \<not> ids_acknowledged b k) (map ids_of (entries_of aimid (po_messages x)))"
    "set (entries_of aimid (po_deletions x)) \<subseteq> set (entries_of aimid (po_deletions x1))"
    "told [b] aimid (entries_of aimid (po_messages x)) x1"
    using ack_loop_works [of junk fresh aimid b 0 x stats dirty] by auto
  obtain x2 stats2 dirty2 where two: "ack_blocks junk fresh aimid True bs x1 stats1 dirty1 = Some (x2, stats2, dirty2)"
    "map ids_of (entries_of aimid (po_messages x2)) =
      filter (\<lambda>k. \<not> list_ex (\<lambda>b. ids_acknowledged b k) bs) (map ids_of (entries_of aimid (po_messages x1)))"
    "set (entries_of aimid (po_deletions x1)) \<subseteq> set (entries_of aimid (po_deletions x2))"
    "told bs aimid (entries_of aimid (po_messages x1)) x2"
    using Cons.IH [of x1 stats1 dirty1] by blast
  have "told (b # bs) aimid (entries_of aimid (po_messages x)) x1" by (rule told_more [OF one(4)]) simp
  moreover have "told (b # bs) aimid (entries_of aimid (po_messages x1)) x2" by (rule told_more [OF two(4)]) auto
  ultimately have "told (b # bs) aimid (entries_of aimid (po_messages x)) x2" using told_trans two(3) by blast
  moreover have "map ids_of (entries_of aimid (po_messages x2)) =
      filter (\<lambda>k. \<not> list_ex (\<lambda>b. ids_acknowledged b k) (b # bs)) (map ids_of (entries_of aimid (po_messages x)))"
    unfolding two(2) one(2) filter_filter by (rule arg_cong [of _ _ "\<lambda>P. filter P _"]) auto
  ultimately show ?case using one(1,3) two(1,3) by auto
qed

lemma map_filter_ids:
  "map ids_of es' = filter P (map ids_of es) \<Longrightarrow> map ns_internal_id es' = map ns_internal_id (filter (\<lambda>e. P (ids_of e)) es)"
proof -
  assume "map ids_of es' = filter P (map ids_of es)"
  then have "map fst (map ids_of es') = map fst (map ids_of (filter (\<lambda>e. P (ids_of e)) es))" by (simp add: filter_map comp_def)
  then show ?thesis by (simp add: ids_of_def comp_def)
qed

text \<open>
  Which messages stay. Without the flag a message that was modified after it was sent stays when it is
  confirmed, and waits for the confirmation of its modification; another message of the server with its
  internal id would be one.
\<close>

fun stays :: "bool \<Rightarrow> history_message list \<Rightarrow> not_sent_message \<Rightarrow> bool" where
  "stays remove_if_modified [] e = True"
| "stays remove_if_modified (b # bs) e =
     (if acknowledged b e
      then ns_modified e \<and> \<not> remove_if_modified \<and> \<not> ns_deleted e \<and> list_all (\<lambda>b. hm_internal_id b \<noteq> ns_internal_id e) bs
      else stays remove_if_modified bs e)"

text \<open>Such a message takes the id the server gave to it and is sent once more, under a new request id.\<close>

definition renewed :: "history_message \<Rightarrow> cstring \<Rightarrow> not_sent_message \<Rightarrow> not_sent_message" where
  "renewed b rid e = (ns_set_updated_id (hm_msgid b) e)\<lparr>ns_modified := False, ns_network_request_id := rid\<rparr>"

fun left_as :: "(nat \<Rightarrow> cstring) \<Rightarrow> history_message list \<Rightarrow> not_sent_message \<Rightarrow> not_sent_message \<Rightarrow> bool" where
  "left_as fresh [] e e' \<longleftrightarrow> e' = e"
| "left_as fresh (b # bs) e e' \<longleftrightarrow> (if acknowledged b e then \<exists>k. e' = renewed b (fresh k) e else left_as fresh bs e e')"

text \<open>The id under which a deleted message is confirmed is its own: no other message of the queue has it or gets it.\<close>

definition own_ids :: "history_message list \<Rightarrow> not_sent_message list \<Rightarrow> bool" where
  "own_ids bs es \<longleftrightarrow> (\<forall>b\<in>set bs. \<forall>e\<in>set es. \<forall>e'\<in>set es.
     ns_deleted e \<and> acknowledged b e \<and> hm_msgid b > 0 \<and> ns_internal_id e' \<noteq> ns_internal_id e \<longrightarrow>
     hm_msgid (ns_message e') \<noteq> hm_msgid b \<and> (\<forall>c\<in>set bs. acknowledged c e' \<longrightarrow> hm_msgid c \<noteq> hm_msgid b))"

lemma own_idsD:
  assumes "own_ids bs es" and "b \<in> set bs" and "i < length es" and "ns_deleted (es ! i)" and "acknowledged b (es ! i)"
    and "hm_msgid b > 0" and "j < length es" and "ns_internal_id (es ! j) \<noteq> ns_internal_id (es ! i)"
  shows "hm_msgid (ns_message (es ! j)) \<noteq> hm_msgid b" and "c \<in> set bs \<Longrightarrow> acknowledged c (es ! j) \<Longrightarrow> hm_msgid c \<noteq> hm_msgid b"
  using assms nth_mem [OF assms(3)] nth_mem [OF assms(7)] unfolding own_ids_def by blast+

lemma stays_True: "stays True bs e \<longleftrightarrow> \<not> list_ex (\<lambda>b. acknowledged b e) bs"
  by (induction bs) auto

lemma renewed_simps [simp]: "ns_internal_id (renewed b rid e) = ns_internal_id e" "ns_deleted (renewed b rid e) = ns_deleted e"
  "ns_modified (renewed b rid e) = False" "hm_msgid (ns_message (renewed b rid e)) = hm_msgid b"
  by (simp_all add: renewed_def ns_internal_id_def ns_set_updated_id_def)

lemma acknowledged_renewed:
  "rid \<noteq> hm_internal_id c \<Longrightarrow> acknowledged c (renewed b rid e) \<longleftrightarrow> hm_internal_id c = ns_internal_id e"
  by (auto simp: acknowledged_def ns_request_id_def) (auto simp: renewed_def)

lemma left_as_id: "left_as fresh bs e e' \<Longrightarrow> ns_internal_id e' = ns_internal_id e"
  by (induction bs) (auto split: if_splits)

lemma left_as_unconfirmed: "list_all (\<lambda>b. \<not> acknowledged b e) bs \<Longrightarrow> left_as fresh bs e e' \<Longrightarrow> e' = e"
  by (induction bs) auto

lemma stays_unconfirmed: "\<not> ns_modified e \<Longrightarrow> stays r bs e \<longleftrightarrow> list_all (\<lambda>b. \<not> acknowledged b e) bs"
  by (induction bs) auto

text \<open>Taking a deleted message away marks no other one.\<close>

lemma unmarked:
  assumes i: "i < length es" and own: "own_ids [b] es" and ids: "distinct (map ns_internal_id es)"
    and del: "ns_deleted (es ! i)" "acknowledged b (es ! i)"
    and d: "dm_message_id d = hm_msgid b" "dm_internal_id d = ns_internal_id (es ! i)"
  shows "take i (map (mark_deleted junk d) es) @ drop (Suc i) (map (mark_deleted junk d) es) = take i es @ drop (Suc i) es"
proof -
  have "mark_deleted junk d (es ! j) = es ! j" if j: "j < length es" "j \<noteq> i" for j
  proof -
    have ne: "ns_internal_id (es ! j) \<noteq> ns_internal_id (es ! i)" using ids i j by (simp add: distinct_conv_nth)
    then have "hm_msgid b > 0 \<Longrightarrow> hm_msgid (ns_message (es ! j)) \<noteq> hm_msgid b"
      using own_idsD(1) [OF own _ i del _ j(1)] by simp
    with ne d show ?thesis by (auto simp: mark_deleted_def is_deletion_of_def)
  qed
  then show ?thesis by (intro nth_equalityI) (auto simp: nth_append)
qed

lemma own_ids_subset: "own_ids bs es \<Longrightarrow> set es' \<subseteq> set es \<Longrightarrow> own_ids bs es'"
  by (auto simp: own_ids_def)

lemma own_ids_blocks: "own_ids bs es \<Longrightarrow> set cs \<subseteq> set bs \<Longrightarrow> own_ids cs es"
  unfolding own_ids_def by blast

text \<open>Nothing is deleted under the id of a message that is confirmed and stays.\<close>

lemma own_ids_renewed:
  assumes "own_ids [b] es" and "i < length es" and "distinct (map ns_internal_id es)" and "acknowledged b (es ! i)" and "\<not> ns_deleted (es ! i)"
  shows "own_ids [b] (es[i := renewed b rid (es ! i)])"
proof -
  have "False" if e: "e \<in> set (es[i := renewed b rid (es ! i)])" "ns_deleted e" "acknowledged b e" "hm_msgid b > 0" for e
  proof -
    obtain j where j: "j < length es" "j \<noteq> i" "e = es ! j"
      using e(1,2) assms(2,5) by (auto simp: in_set_conv_nth nth_list_update split: if_splits)
    have "ns_internal_id (es ! i) \<noteq> ns_internal_id (es ! j)" using assms(2,3) j by (simp add: distinct_conv_nth)
    from own_idsD(2) [OF assms(1) _ j(1) _ _ e(4) assms(2) this, of b] e(2,3) assms(4) j(3) show False by simp
  qed
  then show ?thesis by (auto simp: own_ids_def)
qed

abbreviation deletion_pending :: "cstring \<Rightarrow> history_message \<Rightarrow> not_sent_message \<Rightarrow> pending_operations \<Rightarrow> bool" where
  "deletion_pending aimid b e x \<equiv>
     (\<exists>d\<in>set (entries_of aimid (po_deletions x)). dm_internal_id d = ns_internal_id e \<and> dm_message_id d = hm_msgid b)"

lemma ack_loop_keeps:
  assumes "own_ids [b] (entries_of aimid (po_messages x))" and "distinct (map ns_internal_id (entries_of aimid (po_messages x)))"
  shows "\<exists>x' stats' dirty' rest. ack_loop junk fresh aimid r b i x stats dirty = Some (x', stats', dirty') \<and>
    entries_of aimid (po_messages x') = take i (entries_of aimid (po_messages x)) @ rest \<and>
    list_all2 (left_as fresh [b]) (filter (stays r [b]) (drop i (entries_of aimid (po_messages x)))) rest \<and>
    set (entries_of aimid (po_deletions x)) \<subseteq> set (entries_of aimid (po_deletions x')) \<and>
    (\<forall>e\<in>set (drop i (entries_of aimid (po_messages x))).
      ns_deleted e \<and> acknowledged b e \<and> hm_msgid b > 0 \<longrightarrow> deletion_pending aimid b e x')"
  using assms
proof (induction "length (entries_of aimid (po_messages x)) - i" arbitrary: i x stats dirty rule: less_induct)
  case less
  let ?E = "\<lambda>x. entries_of aimid (po_messages x)" and ?D = "\<lambda>x. set (entries_of aimid (po_deletions x))"
  let ?Q = "\<lambda>i x x' rest. ?E x' = take i (?E x) @ rest \<and> list_all2 (left_as fresh [b]) (filter (stays r [b]) (drop i (?E x))) rest \<and>
    ?D x \<subseteq> ?D x' \<and> (\<forall>e\<in>set (drop i (?E x)). ns_deleted e \<and> acknowledged b e \<and> hm_msgid b > 0 \<longrightarrow> deletion_pending aimid b e x')"
  let ?loop = "\<lambda>i. ack_loop junk fresh aimid r b i"
  show ?case
  proof (cases "i < length (?E x)")
    case False
    then show ?thesis by (subst ack_loop.simps) auto
  next
    case True
    let ?e = "?E x ! i"
    note step = ack_loop_step [OF True, where b = b and junk = junk and fresh = fresh and r = r and stats = stats and dirty = dirty]
    have drop: "drop i (?E x) = ?e # drop (Suc i) (?E x)" using True by (simp add: Cons_nth_drop_Suc)
    have go: ?thesis if eq: "?loop i x stats dirty = ?loop (Suc i) z stats' dirty'"
        and z: "?E z = (?E x)[i := e1]" "?D z = ?D x" and e: "stays r [b] ?e" "left_as fresh [b] ?e e1" "ns_internal_id e1 = ns_internal_id ?e"
        and own: "own_ids [b] (?E z)" and nd: "\<not> (ns_deleted ?e \<and> acknowledged b ?e)" for z stats' dirty' e1
    proof -
      have ids: "distinct (map ns_internal_id (?E z))"
        using less.prems(2) True e(3) unfolding z(1) by (simp add: map_update_same [where f = ns_internal_id])
      have "length (?E z) - Suc i < length (?E x) - i" using True z(1) by simp
      from less.hyps [OF this own ids, of stats' dirty'] obtain x' stats'' dirty'' rest where
        l: "?loop (Suc i) z stats' dirty' = Some (x', stats'', dirty'')" "?Q (Suc i) z x' rest" by blast
      have "?Q i x x' (e1 # rest)"
        using l(2) e(1,2) z(2) nd True unfolding drop by (auto simp: z(1) take_Suc_conv_app_nth)
      moreover have "?loop i x stats dirty = Some (x', stats'', dirty'')" using eq l(1) by simp
      ultimately show ?thesis by blast
    qed
    have cut: ?thesis if eq: "?loop i x stats dirty = ?loop i z stats' True"
        and z: "?E z = take i (?E x) @ drop (Suc i) (?E x)" "?D x \<subseteq> ?D z" and e: "\<not> stays r [b] ?e"
        and del: "ns_deleted ?e \<and> acknowledged b ?e \<and> hm_msgid b > 0 \<longrightarrow> deletion_pending aimid b ?e z" for z stats'
    proof -
      have own: "own_ids [b] (?E z)"
        by (rule own_ids_subset [OF less.prems(1)]) (use z(1) set_remove [OF True] in auto)
      have "distinct (map ns_internal_id (take i (?E x) @ ?e # drop (Suc i) (?E x)))"
        using less.prems(2) id_take_nth_drop [OF True] by metis
      then have "distinct (map ns_internal_id (?E z))" by (simp add: z(1))
      moreover have "length (?E z) - i < length (?E x) - i" using True z(1) by simp
      ultimately obtain x' stats'' dirty'' rest where
        l: "?loop i z stats' True = Some (x', stats'', dirty'')" "?Q i z x' rest"
        using less.hyps [OF _ own, of i stats' True] by blast
      have "take i (?E z) = take i (?E x)" "drop i (?E z) = drop (Suc i) (?E x)" using z(1) True by simp_all
      with l(2) e z(2) del have "?Q i x x' rest" unfolding drop by auto
      moreover have "?loop i x stats dirty = Some (x', stats'', dirty'')" using eq l(1) by simp
      ultimately show ?thesis by blast
    qed
    show ?thesis
    proof (cases "acknowledged b ?e")
      case False
      then show ?thesis using less.prems(1) by (intro go [OF step(1) [OF False]]) simp_all
    next
      case ack: True
      consider (del) "ns_deleted ?e" | (renew) "\<not> ns_deleted ?e" "ns_modified ?e \<and> \<not> r" | (erase) "\<not> ns_deleted ?e" "\<not> (ns_modified ?e \<and> \<not> r)"
        by blast
      then show ?thesis
      proof cases
        case del
        let ?d = "\<lparr>dm_aimid = aimid, dm_message_id = hm_msgid b, dm_internal_id = ns_internal_id ?e, dm_operation = ns_delete_operation ?e\<rparr>"
        from step(2) [OF ack del] obtain y stats' where y: "insert_deleted_message junk aimid ?d x = Some y"
          and eq: "?loop i x stats dirty = ?loop i
            (y\<lparr>po_messages := set_entries aimid (take i (?E y) @ drop (Suc i) (?E y)) (po_messages y)\<rparr>) stats' True" by blast
        have m: "?E y = map (mark_deleted junk ?d) (?E x)"
          "entries_of aimid (po_deletions y) = entries_of aimid (po_deletions x) @ (if hm_msgid b > 0 then [?d] else [])"
          using insert_deleted_returns [of junk aimid ?d x] y by auto
        have "take i (?E y) @ drop (Suc i) (?E y) = take i (?E x) @ drop (Suc i) (?E x)"
          unfolding m(1) by (rule unmarked [OF True less.prems del ack]) simp_all
        then show ?thesis using del ack m(2) by (intro cut [OF eq]) simp_all
      next
        case renew
        from step(3) [OF ack renew] obtain stats' where eq: "?loop i x stats dirty = ?loop (Suc i)
            (x\<lparr>po_messages := set_entries aimid ((?E x)[i := renewed b (fresh (length stats)) ?e]) (po_messages x)\<rparr>) stats' True"
          unfolding renewed_def by blast
        show ?thesis
          using renew ack own_ids_renewed [OF less.prems(1) True less.prems(2) ack renew(1)]
          by (intro go [OF eq, of "renewed b (fresh (length stats)) ?e"]) auto
      next
        case erase
        from step(4) [OF ack erase] obtain stats' where "?loop i x stats dirty = ?loop i
            (x\<lparr>po_messages := set_entries aimid (take i (?E x) @ drop (Suc i) (?E x)) (po_messages x)\<rparr>) stats' True" by blast
        then show ?thesis by (rule cut) (use erase ack in auto)
      qed
    qed
  qed
qed

lemma list_all2_in_set1: "list_all2 R xs ys \<Longrightarrow> x \<in> set xs \<Longrightarrow> \<exists>y\<in>set ys. R x y"
  by (induction rule: list_all2_induct) auto

lemma list_all2_in_set2: "list_all2 R xs ys \<Longrightarrow> y \<in> set ys \<Longrightarrow> \<exists>x\<in>set xs. R x y"
  by (induction rule: list_all2_induct) auto

lemma list_all2_map_eq: "list_all2 R xs ys \<Longrightarrow> (\<And>x y. R x y \<Longrightarrow> f y = f x) \<Longrightarrow> map f ys = map f xs"
  by (induction rule: list_all2_induct) auto

lemma list_all2_filter_trans:
  assumes "list_all2 R (filter P xs) ys"
    and "\<And>x. x \<in> set xs \<Longrightarrow> \<not> P x \<Longrightarrow> \<not> S x" and "\<And>x y. x \<in> set xs \<Longrightarrow> R x y \<Longrightarrow> P x \<Longrightarrow> S' y \<longleftrightarrow> S x"
    and "list_all2 T (filter S' ys) zs" and "\<And>x y z. x \<in> set xs \<Longrightarrow> P x \<Longrightarrow> R x y \<Longrightarrow> S x \<Longrightarrow> T y z \<Longrightarrow> U x z"
  shows "list_all2 U (filter S xs) zs"
  using assms
proof (induction xs arbitrary: ys zs)
  case (Cons x xs)
  show ?case
  proof (cases "P x")
    case False
    with Cons.prems Cons.IH [of ys zs] show ?thesis by simp
  next
    case True
    with Cons.prems(1) obtain y ys' where ys: "ys = y # ys'" "R x y" "list_all2 R (filter P xs) ys'"
      by (auto simp: list_all2_Cons1)
    show ?thesis
    proof (cases "S x")
      case no: False
      then have "\<not> S' y" using Cons.prems(3) [of x y] ys(2) True by simp
      with no ys Cons.prems Cons.IH [of ys' zs] show ?thesis by simp
    next
      case yes: True
      then have "S' y" using Cons.prems(3) [of x y] ys(2) True by simp
      then obtain z zs' where "zs = z # zs'" "T y z" "list_all2 T (filter S' ys') zs'"
        using Cons.prems(4) ys(1) by (auto simp: list_all2_Cons1)
      with yes ys True Cons.prems Cons.IH [of ys' zs'] show ?thesis by simp
    qed
  qed
qed simp

lemma own_ids_after:
  assumes "own_ids (b # bs) es" and "list_all2 (left_as fresh [b]) (filter P es) es'"
    and "\<And>k c. c \<in> set bs \<Longrightarrow> fresh k \<noteq> hm_internal_id c"
  shows "own_ids bs es'"
proof -
  have origin: "\<exists>q\<in>set es. ns_internal_id e = ns_internal_id q \<and> ns_deleted e = ns_deleted q \<and>
      (\<forall>c\<in>set bs. acknowledged c e \<longrightarrow> acknowledged c q) \<and>
      (hm_msgid (ns_message e) = hm_msgid (ns_message q) \<or> acknowledged b q \<and> hm_msgid (ns_message e) = hm_msgid b)"
    if "e \<in> set es'" for e
  proof -
    obtain q where q: "q \<in> set es" "left_as fresh [b] q e"
      using list_all2_in_set2 [OF assms(2) \<open>e \<in> set es'\<close>] by auto
    have "acknowledged c q" if "acknowledged c e" "c \<in> set bs" for c
      using q(2) that assms(3) [of c] by (auto simp: acknowledged_renewed split: if_splits) (simp add: acknowledged_def)
    with q show ?thesis by (auto split: if_splits)
  qed
  show ?thesis
    unfolding own_ids_def
  proof (intro ballI impI, elim conjE)
    fix c e e'
    assume c: "c \<in> set bs" and e: "e \<in> set es'" and e': "e' \<in> set es'" and del: "ns_deleted e" "acknowledged c e" "hm_msgid c > 0"
      and ne: "ns_internal_id e' \<noteq> ns_internal_id e"
    obtain q where q: "q \<in> set es" "ns_internal_id e = ns_internal_id q" "ns_deleted q" "acknowledged c q"
      using origin [OF e] del c by auto
    obtain q' where q': "q' \<in> set es" "ns_internal_id e' = ns_internal_id q'" "\<forall>c\<in>set bs. acknowledged c e' \<longrightarrow> acknowledged c q'"
      "hm_msgid (ns_message e') = hm_msgid (ns_message q') \<or> acknowledged b q' \<and> hm_msgid (ns_message e') = hm_msgid b"
      using origin [OF e'] by auto
    have "ns_internal_id q' \<noteq> ns_internal_id q" using ne q(2) q'(2) by simp
    with assms(1) c q del(3) q'(1) have "hm_msgid (ns_message q') \<noteq> hm_msgid c"
      "\<forall>a\<in>set (b # bs). acknowledged a q' \<longrightarrow> hm_msgid a \<noteq> hm_msgid c"
      unfolding own_ids_def by (meson list.set_intros(2))+
    with q'(3,4) show "hm_msgid (ns_message e') \<noteq> hm_msgid c \<and> (\<forall>a\<in>set bs. acknowledged a e' \<longrightarrow> hm_msgid a \<noteq> hm_msgid c)"
      by auto
  qed
qed

lemma ack_blocks_keeps:
  assumes "own_ids bs (entries_of aimid (po_messages x))" and "distinct (map ns_internal_id (entries_of aimid (po_messages x)))"
    and "\<And>k b. b \<in> set bs \<Longrightarrow> fresh k \<noteq> hm_internal_id b"
  shows "\<exists>x' stats' dirty'. ack_blocks junk fresh aimid r bs x stats dirty = Some (x', stats', dirty') \<and>
    list_all2 (left_as fresh bs) (filter (stays r bs) (entries_of aimid (po_messages x))) (entries_of aimid (po_messages x')) \<and>
    set (entries_of aimid (po_deletions x)) \<subseteq> set (entries_of aimid (po_deletions x')) \<and>
    (\<forall>e\<in>set (entries_of aimid (po_messages x)). ns_deleted e \<and> list_all (\<lambda>b. hm_msgid b > 0) bs \<and> \<not> stays r bs e \<longrightarrow>
      (\<exists>b\<in>set bs. deletion_pending aimid b e x'))"
  using assms
proof (induction bs arbitrary: x stats dirty)
  case Nil
  show ?case by (auto simp: list.rel_refl)
next
  case (Cons b bs)
  let ?E = "\<lambda>x. entries_of aimid (po_messages x)" and ?D = "\<lambda>x. set (entries_of aimid (po_deletions x))"
  have own: "own_ids [b] (?E x)" by (rule own_ids_blocks [OF Cons.prems(1)]) simp
  obtain x1 stats1 dirty1 where one: "ack_loop junk fresh aimid r b 0 x stats dirty = Some (x1, stats1, dirty1)"
    "list_all2 (left_as fresh [b]) (filter (stays r [b]) (?E x)) (?E x1)" "?D x \<subseteq> ?D x1"
    "\<forall>e\<in>set (?E x). ns_deleted e \<and> acknowledged b e \<and> hm_msgid b > 0 \<longrightarrow> deletion_pending aimid b e x1"
    using ack_loop_keeps [OF own Cons.prems(2), of junk fresh r 0 stats dirty] by auto
  have own1: "own_ids bs (?E x1)" by (rule own_ids_after [OF Cons.prems(1) one(2)]) (simp add: Cons.prems(3))
  have "map ns_internal_id (?E x1) = map ns_internal_id (filter (stays r [b]) (?E x))"
    by (rule list_all2_map_eq [OF one(2) left_as_id])
  then have ids1: "distinct (map ns_internal_id (?E x1))" using Cons.prems(2) by (simp add: distinct_map_filter)
  obtain x2 stats2 dirty2 where two: "ack_blocks junk fresh aimid r bs x1 stats1 dirty1 = Some (x2, stats2, dirty2)"
    "list_all2 (left_as fresh bs) (filter (stays r bs) (?E x1)) (?E x2)" "?D x1 \<subseteq> ?D x2"
    "\<forall>e\<in>set (?E x1). ns_deleted e \<and> list_all (\<lambda>b. hm_msgid b > 0) bs \<and> \<not> stays r bs e \<longrightarrow>
      (\<exists>b\<in>set bs. deletion_pending aimid b e x2)"
    using Cons.IH [OF own1 ids1, of stats1 dirty1] Cons.prems(3) by auto
  have again: "stays r bs (renewed b (fresh k) e) \<longleftrightarrow> list_all (\<lambda>b. hm_internal_id b \<noteq> ns_internal_id e) bs"
    "stays r bs (renewed b (fresh k) e) \<Longrightarrow> left_as fresh bs (renewed b (fresh k) e) e' \<Longrightarrow> e' = renewed b (fresh k) e" for k e e'
  proof -
    have ack: "acknowledged c (renewed b (fresh k) e) \<longleftrightarrow> hm_internal_id c = ns_internal_id e" if "c \<in> set bs" for c
      using acknowledged_renewed Cons.prems(3) that by simp
    then show "stays r bs (renewed b (fresh k) e) \<longleftrightarrow> list_all (\<lambda>b. hm_internal_id b \<noteq> ns_internal_id e) bs"
      by (auto simp: stays_unconfirmed list_all_iff)
    assume "stays r bs (renewed b (fresh k) e)" "left_as fresh bs (renewed b (fresh k) e) e'"
    then show "e' = renewed b (fresh k) e" using left_as_unconfirmed by (simp add: stays_unconfirmed)
  qed
  have "list_all2 (left_as fresh (b # bs)) (filter (stays r (b # bs)) (?E x)) (?E x2)"
  proof (rule list_all2_filter_trans [OF one(2) _ _ two(2)])
    fix e e1 e2
    assume step: "left_as fresh [b] e e1"
    then show "stays r [b] e \<Longrightarrow> stays r bs e1 \<longleftrightarrow> stays r (b # bs) e" using again(1) by (auto split: if_splits)
    assume rest: "stays r (b # bs) e" "left_as fresh bs e1 e2"
    show "left_as fresh (b # bs) e e2"
    proof (cases "acknowledged b e")
      case True
      with step obtain k where e1: "e1 = renewed b (fresh k) e" by auto
      have "stays r bs e1" using again(1) rest(1) True unfolding e1 by simp
      from again(2) [OF this [unfolded e1] rest(2) [unfolded e1]] True show ?thesis by auto
    qed (use step rest(2) in simp)
  qed (auto split: if_splits)
  moreover have "\<exists>c\<in>set (b # bs). deletion_pending aimid c e x2"
    if e: "e \<in> set (?E x)" "ns_deleted e" "list_all (\<lambda>b. hm_msgid b > 0) (b # bs)" "\<not> stays r (b # bs) e" for e
  proof (cases "acknowledged b e")
    case True
    with one(4) e have "deletion_pending aimid b e x1" by simp
    with two(3) show ?thesis by auto
  next
    case False
    then have "e \<in> set (filter (stays r [b]) (?E x))" using e(1) by simp
    then obtain e1 where "e1 \<in> set (?E x1)" "left_as fresh [b] e e1"
      using list_all2_in_set1 [OF one(2)] by blast
    with False have "e \<in> set (?E x1)" by simp
    with two(4) e False show ?thesis by auto
  qed
  moreover have "ack_blocks junk fresh aimid r (b # bs) x stats dirty = Some (x2, stats2, dirty2)" "?D x \<subseteq> ?D x2"
    using one(1,3) two(1,3) by auto
  ultimately show ?case by blast
qed

lemma ack_loop_returns: "\<exists>z. ack_loop junk fresh aimid r b i x stats dirty = Some z"
proof (induction junk fresh aimid r b i x stats dirty rule: ack_loop.induct)
  case (1 junk fresh aimid r b i x stats dirty)
  obtain y where "insert_deleted_message junk aimid \<lparr>dm_aimid = aimid, dm_message_id = hm_msgid b,
      dm_internal_id = ns_internal_id (entries_of aimid (po_messages x) ! i),
      dm_operation = ns_delete_operation (entries_of aimid (po_messages x) ! i)\<rparr> x = Some y"
    using insert_deleted_returns by blast
  with 1 show ?case by (subst ack_loop.simps) (auto simp: Let_def)
qed

lemma ack_blocks_returns: "\<exists>z. ack_blocks junk fresh aimid r bs x stats dirty = Some z"
proof (induction bs arbitrary: x stats dirty)
  case (Cons b bs)
  obtain x1 stats1 dirty1 where "ack_loop junk fresh aimid r b 0 x stats dirty = Some (x1, stats1, dirty1)"
    using ack_loop_returns by (metis surj_pair)
  with Cons.IH show ?case by simp
qed simp

lemma remove_acknowledged_blocks:
  assumes "entries_of aimid (po_messages x) \<noteq> []"
    and "ack_blocks junk fresh aimid r data (x\<lparr>po_messages := set_entries aimid (entries_of aimid (po_messages x)) (po_messages x)\<rparr>) [] False =
      Some (y, stats, dirty)"
  shows "\<exists>z. remove_acknowledged junk fresh aimid r data x = Some (stats, z) \<and>
    entries_of aimid (po_messages z) = entries_of aimid (po_messages y) \<and> po_deletions z = po_deletions y"
proof -
  let ?E = "\<lambda>x. entries_of aimid (po_messages x)"
  let ?y = "if ?E y = [] then y\<lparr>po_messages := erase_contact aimid (po_messages y)\<rparr> else y"
  obtain z where z: "(if dirty then save_sent junk ?y else Some ?y) = Some z"
    using saves_return(1) by (metis option.exhaust)
  have "map_of (erase_contact aimid m) aimid = None" for m :: "not_sent_message pending_map"
    by (auto simp: erase_contact_def map_of_eq_None_iff)
  then have "?E ?y = ?E y" by (simp add: entries_of_def)
  moreover have "po_messages z = po_messages ?y \<and> po_deletions z = po_deletions ?y"
    using z save_sent_keeps by (metis option.inject)
  ultimately have "?E z = ?E y" "po_deletions z = po_deletions y" by simp_all
  moreover have "remove_acknowledged junk fresh aimid r data x = Some (stats, z)"
    using assms z by (simp add: remove_acknowledged_def Let_def)
  ultimately show ?thesis by blast
qed

text \<open>What is asked of the deletions: each confirmed message that the user deleted has one.\<close>

abbreviation deletions_go_on :: "cstring \<Rightarrow> history_message list \<Rightarrow> not_sent_message list \<Rightarrow> pending_operations \<Rightarrow> bool" where
  "deletions_go_on aimid data es x \<equiv> list_all (\<lambda>b. hm_msgid b > 0) data \<longrightarrow>
     (\<forall>e\<in>set es. ns_deleted e \<and> list_ex (\<lambda>b. acknowledged b e) data \<longrightarrow>
       (\<exists>d\<in>set (entries_of aimid (po_deletions x)). dm_internal_id d = ns_internal_id e \<and> dm_message_id d \<in> hm_msgid ` set data))"

lemma told_deletions_go_on:
  assumes "told data aimid es y"
    and "map ids_of (entries_of aimid (po_messages y)) = filter (\<lambda>k. \<not> list_ex (\<lambda>b. ids_acknowledged b k) data) (map ids_of es)"
  shows "deletions_go_on aimid data es y"
proof (intro impI ballI, elim conjE)
  fix e assume pos: "list_all (\<lambda>b. hm_msgid b > 0) data" and e: "e \<in> set es" "ns_deleted e" "list_ex (\<lambda>b. acknowledged b e) data"
  have "ids_of e' \<noteq> ids_of e" if "e' \<in> set (entries_of aimid (po_messages y))" for e'
  proof
    assume same: "ids_of e' = ids_of e"
    have "ids_of e' \<in> set (map ids_of (entries_of aimid (po_messages y)))" using that by simp
    then have "\<not> list_ex (\<lambda>b. ids_acknowledged b (ids_of e)) data" unfolding assms(2) same by simp
    with e(3) show False by (simp add: acknowledged_ids)
  qed
  with assms(1) e obtain c where "c \<in> set data" "hm_msgid c > 0 \<longrightarrow> deletion_pending aimid c e y"
    unfolding told_def by blast
  with pos show "\<exists>d\<in>set (entries_of aimid (po_deletions y)). dm_internal_id d = ns_internal_id e \<and> dm_message_id d \<in> hm_msgid ` set data"
    by (auto simp: list_all_iff)
qed

lemma deleted_stays: "ns_deleted e \<Longrightarrow> stays r bs e \<longleftrightarrow> \<not> list_ex (\<lambda>b. acknowledged b e) bs"
  by (induction bs) auto

lemma gone_deletions_go_on:
  assumes "\<forall>e\<in>set es. ns_deleted e \<and> list_all (\<lambda>b. hm_msgid b > 0) data \<and> \<not> stays r data e \<longrightarrow>
    (\<exists>b\<in>set data. deletion_pending aimid b e y)"
  shows "deletions_go_on aimid data es y"
proof (intro impI ballI, elim conjE)
  fix e assume pos: "list_all (\<lambda>b. hm_msgid b > 0) data" and e: "e \<in> set es" "ns_deleted e" "list_ex (\<lambda>b. acknowledged b e) data"
  have "\<not> stays r data e" using e by (simp only: deleted_stays not_not)
  with assms e pos obtain b d where "b \<in> set data" "d \<in> set (entries_of aimid (po_deletions y))"
    "dm_internal_id d = ns_internal_id e" "dm_message_id d = hm_msgid b" by blast
  then show "\<exists>d\<in>set (entries_of aimid (po_deletions y)). dm_internal_id d = ns_internal_id e \<and> dm_message_id d \<in> hm_msgid ` set data"
    by (intro bexI [of _ d] conjI) simp_all
qed

text \<open>C6: When messages of the server arrive, the call returns and the queue of the contact keeps, in their
  order, exactly the messages that stay. With \<open>remove_if_modified\<close> these are the ones no message of the server
  confirms, by the internal id or by the id of the request. Without it, as the handlers of the server's messages
  call it, a message that was modified and not deleted stays too when it is confirmed just once; it takes the id the
  server gave to it, is no longer marked as modified and has a new request id, and all others are left as they
  are. A confirmed message that the user deleted in the meantime is not forgotten: under the id the server gave it, its
  deletion is now pending. (Without the flag this is said of queues in which the internal ids differ,
  as the invariant has it, the generated request ids are not ids of the data, and no other message has or gets the id under
  which a deleted one is confirmed. With the flag it holds of all.)\<close>

theorem server_confirms:
  fixes x :: pending_operations and aimid :: cstring and data :: "history_message list" and fresh :: "nat \<Rightarrow> cstring"
  defines "es \<equiv> entries_of aimid (po_messages x)"
  defines "clear \<equiv> own_ids data es \<and> distinct (map ns_internal_id es) \<and> (\<forall>k. \<forall>b\<in>set data. fresh k \<noteq> hm_internal_id b)"
  shows "\<exists>stats x'. remove_acknowledged junk fresh aimid remove_if_modified data x = Some (stats, x') \<and>
    (remove_if_modified \<or> clear \<longrightarrow>
      map ns_internal_id (entries_of aimid (po_messages x')) = map ns_internal_id (filter (stays remove_if_modified data) es) \<and>
      deletions_go_on aimid data es x') \<and>
    (clear \<longrightarrow> list_all2 (left_as fresh data) (filter (stays remove_if_modified data) es) (entries_of aimid (po_messages x')))"
proof (cases "es = []")
  case True
  then show ?thesis by (simp add: remove_acknowledged_def Let_def es_def)
next
  case False
  let ?E = "\<lambda>x. entries_of aimid (po_messages x)" and ?r = remove_if_modified
  let ?x = "x\<lparr>po_messages := set_entries aimid (?E x) (po_messages x)\<rparr>"
  have E: "?E ?x = es" by (simp add: es_def)
  obtain y stats dirty where y: "ack_blocks junk fresh aimid ?r data ?x [] False = Some (y, stats, dirty)"
    using ack_blocks_returns by (metis surj_pair)
  obtain z where z: "remove_acknowledged junk fresh aimid ?r data x = Some (stats, z)" "?E z = ?E y" "po_deletions z = po_deletions y"
    using remove_acknowledged_blocks [OF False [unfolded es_def] y] by blast
  have exact: "list_all2 (left_as fresh data) (filter (stays ?r data) es) (?E y) \<and> deletions_go_on aimid data es y" if clear
  proof -
    from that have "own_ids data (?E ?x)" "distinct (map ns_internal_id (?E ?x))" "\<And>k b. b \<in> set data \<Longrightarrow> fresh k \<noteq> hm_internal_id b"
      unfolding E clear_def by auto
    from ack_blocks_keeps [where fresh = fresh and r = ?r and junk = junk and stats = "[]" and dirty = False, OF this] y
    have "list_all2 (left_as fresh data) (filter (stays ?r data) es) (?E y)"
      and "\<forall>e\<in>set es. ns_deleted e \<and> list_all (\<lambda>b. hm_msgid b > 0) data \<and> \<not> stays ?r data e \<longrightarrow>
        (\<exists>b\<in>set data. deletion_pending aimid b e y)" unfolding E by simp_all
    from this(1) gone_deletions_go_on [OF this(2)] show ?thesis by (rule conjI)
  qed
  have "map ns_internal_id (?E y) = map ns_internal_id (filter (stays ?r data) es) \<and> deletions_go_on aimid data es y" if "?r \<or> clear"
  proof (cases clear)
    case True
    note both = exact [OF this]
    from both list_all2_map_eq [OF both [THEN conjunct1] left_as_id] show ?thesis by simp
  next
    case False
    with that have r: ?r by simp
    from ack_blocks_works [of junk fresh aimid data ?x "[]" False] y r
    have "map ids_of (?E y) = filter (\<lambda>k. \<not> list_ex (\<lambda>b. ids_acknowledged b k) data) (map ids_of es)" "told data aimid es y"
      unfolding E by auto
    moreover have "stays ?r data = (\<lambda>e. \<not> list_ex (\<lambda>b. ids_acknowledged b (ids_of e)) data)"
      using r by (simp add: fun_eq_iff stays_True acknowledged_ids)
    ultimately show ?thesis using map_filter_ids told_deletions_go_on by simp
  qed
  with exact z show ?thesis by simp
qed

subsection \<open>A message to try it on\<close>

definition pending_text :: "bytes \<Rightarrow> not_sent_message" where
  "pending_text t = mk_not_sent 5 [103] [97] t [] base_type 1600000000 [105]"

definition no_pending :: pending_operations where
  "no_pending = \<lparr>po_messages = [], po_deletions = [], po_sent_storage = mk_storage None, po_delete_storage = mk_storage None,
     po_loaded = True\<rparr>"

definition plain_reader :: reader where
  "plain_reader = \<lparr>rd_junk = sample_junk, rd_parse = \<lambda>_ _ m. (0, m), rd_buttons = \<lambda>_. []\<rparr>"

lemma no_pending_on_disk: "on_disk sample_junk no_pending" "po_ok no_pending" "deletion_bytes no_pending = 0"
  by (simp_all add: on_disk_def no_pending_def can_use_file_def mk_storage_def synced_def tidy_def contents_def po_ok_def
      map_ok_def om_ok_def deletion_bytes_def pending_bytes_def root_fields_def)

lemma insert_first:
  assumes "ns_aimid m = [97]"
  shows "\<exists>x'. insert_message sample_junk [97] m no_pending = Some x' \<and> po_messages x' = [([97], [m])] \<and> po_deletions x' = []"
proof -
  let ?x = "no_pending\<lparr>po_messages := [([97], [m])]\<rparr>"
  obtain x' where "save_sent sample_junk ?x = Some x'" using saves_return(1) by blast
  with save_sent_keeps [OF this] show ?thesis
    by (simp add: insert_message_def set_entries_def entries_of_def no_pending_def)
qed

lemma pending_text_bytes:
  "po_messages x = [([97], [pending_text t])] \<Longrightarrow> length t < 2 ^ 30 \<Longrightarrow>
    length t \<le> sent_bytes sample_junk x \<and> sent_bytes sample_junk x \<le> length t + 1000"
  by (simp add: sent_bytes_def pending_bytes_def sent.views pending_text_def mk_not_sent_def ns_default_def not_sent_fields_def
      message_stream_facts message_fields_def init_default_def serialize_opt_def chat_agent_def msg_set_outgoing_def Let_def pv_default_def format_serialize_def)

lemma pending_text_contact: "ns_aimid (pending_text t) = [97]"
  by (simp add: pending_text_def mk_not_sent_def Let_def)

lemma pending_text_storable: "po_messages x = [([97], [pending_text t])] \<Longrightarrow> po_deletions x = [] \<Longrightarrow> po_storable sample_junk x"
  by (simp add: po_storable_def om_ok_def keyed_def good_not_sent_def pending_text_def mk_not_sent_def ns_default_def
      good_message_def init_default_def pv_default_def om_ok_def i32_range_def i64_range_def chat_agent_def
      msg_set_outgoing_def good_formats_def Let_def)

theorem pending_survives_restart_witness:
  "\<exists>x' r. insert_message sample_junk [97] (pending_text [72, 105]) no_pending = Some x' \<and>
    mk_pending_operations plain_reader 9 (po_sent_storage x') (po_delete_storage x') = Some r \<and>
    po_messages r = [([97], [stored_not_sent sample_junk plain_reader 9 (pending_text [72, 105])])]"
proof -
  obtain x' where x: "insert_message sample_junk [97] (pending_text [72, 105]) no_pending = Some x'"
    "po_messages x' = [([97], [pending_text [72, 105]])]" "po_deletions x' = []" using insert_first [OF pending_text_contact] by blast
  have n: "sent_bytes sample_junk x' \<le> 1024 * 1024" "deletion_bytes no_pending \<le> 1024 * 1024"
    "sent_bytes sample_junk x' + 16 \<le> st_room (po_sent_storage no_pending)"
    using pending_text_bytes [OF x(2)] no_pending_on_disk(3) by (simp_all add: no_pending_def mk_storage_def)
  have "tidy (map_entries (stored_not_sent sample_junk plain_reader 9) (po_messages x')) =
      [([97], [stored_not_sent sample_junk plain_reader 9 (pending_text [72, 105])])]"
    by (simp add: x(2) tidy_def map_entries_def)
  with pending_survives_restart [OF x(1) no_pending_on_disk(1) pending_text_storable [OF x(2,3)] n, of plain_reader 9] x(1)
  show ?thesis by auto
qed

theorem too_many_pending_are_lost_witness:
  "\<exists>m x' r. insert_message sample_junk [97] m no_pending = Some x' \<and> m \<in> set (entries_of [97] (po_messages x')) \<and>
    mk_pending_operations plain_reader 9 (po_sent_storage x') (po_delete_storage x') = Some r \<and> po_messages r = []"
proof -
  obtain t :: bytes where t: "length t = 1024 * 1024 + 1" using Ex_list_of_length by blast
  let ?m = "pending_text t"
  obtain x' where x: "insert_message sample_junk [97] ?m no_pending = Some x'"
    "po_messages x' = [([97], [?m])]" "po_deletions x' = []" using insert_first [OF pending_text_contact] by blast
  have n: "1024 * 1024 < sent_bytes sample_junk x'" "sent_bytes sample_junk x' < 2 ^ 32"
    "sent_bytes sample_junk x' + 16 \<le> st_room (po_sent_storage no_pending)" "deletion_bytes no_pending \<le> 1024 * 1024"
    using pending_text_bytes [OF x(2)] t no_pending_on_disk(3) by (simp_all add: no_pending_def mk_storage_def)
  from too_many_pending_are_lost [OF x(1) no_pending_on_disk(1) pending_text_storable [OF x(2,3)] n(1,2,4,3), of plain_reader 9] x(1)
  show ?thesis by blast
qed

theorem pending_invariant_witness:
  "\<exists>x'. insert_message sample_junk [97] (pending_text [72, 105]) no_pending = Some x' \<and> po_ok x'"
proof -
  obtain x' where x: "insert_message sample_junk [97] (pending_text [72, 105]) no_pending = Some x'"
    using insert_first [OF pending_text_contact] by blast
  have "(pending_step sample_junk)\<^sup>*\<^sup>* no_pending x'" using step_insert [OF pending_text_contact x] by blast
  from pending_invariant [OF this no_pending_on_disk(2)] x show ?thesis by blast
qed

theorem server_confirms_witness:
  "\<exists>stats x'. remove_acknowledged sample_junk (\<lambda>_. [1]) [97] False
      [init_default\<lparr>hm_msgid := 7, hm_internal_id := [105]\<rparr>, init_default\<lparr>hm_msgid := 8, hm_internal_id := [106]\<rparr>]
      (no_pending\<lparr>po_messages := [([97], [(pending_text [72])\<lparr>ns_deleted := True\<rparr>,
        (pending_text [73])\<lparr>ns_message := init_default\<lparr>hm_internal_id := [106]\<rparr>, ns_modified := True\<rparr>])]\<rparr>) = Some (stats, x') \<and>
    map (\<lambda>e. (ns_internal_id e, hm_msgid (ns_message e), ns_modified e)) (entries_of [97] (po_messages x')) = [([106], 8, False)] \<and>
    (\<exists>d\<in>set (entries_of [97] (po_deletions x')). dm_internal_id d = [105])"
proof -
  define b where "b = init_default\<lparr>hm_msgid := 7, hm_internal_id := [105]\<rparr>"
  define c where "c = init_default\<lparr>hm_msgid := 8, hm_internal_id := [106]\<rparr>"
  define e where "e = (pending_text [72])\<lparr>ns_deleted := True\<rparr>"
  define m where "m = (pending_text [73])\<lparr>ns_message := init_default\<lparr>hm_internal_id := [106]\<rparr>, ns_modified := True\<rparr>"
  define x where "x = no_pending\<lparr>po_messages := [([97], [e, m])]\<rparr>"
  have x: "entries_of [97] (po_messages x) = [e, m]" by (simp add: x_def entries_of_def)
  have ids: "ns_internal_id e = [105]" "ns_internal_id m = [106]" "hm_internal_id b = [105]" "hm_internal_id c = [106]"
    "ns_request_id e = [105]" "ns_request_id m = [106]" "hm_msgid b = 7" "hm_msgid c = 8" "hm_msgid (ns_message m) = -1"
    "ns_deleted e" "\<not> ns_deleted m" "ns_modified m"
    by (simp_all add: e_def m_def b_def c_def ns_internal_id_def ns_request_id_def pending_text_def mk_not_sent_def
        msg_set_outgoing_def ns_default_def init_default_def Let_def)
  then have ack: "acknowledged b e" "acknowledged c m" "\<not> acknowledged b m" "\<not> acknowledged c e"
    by (simp_all add: acknowledged_def)
  have clear: "own_ids [b, c] [e, m]" "distinct (map ns_internal_id [e, m])"
    "\<forall>k. \<forall>b\<in>set [b, c]. (\<lambda>_::nat. [1]) k \<noteq> hm_internal_id b"
    using ids ack by (auto simp: own_ids_def)
  from server_confirms [where data = "[b, c]" and aimid = "[97]" and x = x and fresh = "\<lambda>_. [1]" and remove_if_modified = False
      and junk = sample_junk, unfolded x] clear
  obtain stats x' where r: "remove_acknowledged sample_junk (\<lambda>_. [1]) [97] False [b, c] x = Some (stats, x')"
    "list_all2 (left_as (\<lambda>_. [1]) [b, c]) (filter (stays False [b, c]) [e, m]) (entries_of [97] (po_messages x'))"
    "deletions_go_on [97] [b, c] [e, m] x'" by blast
  have "entries_of [97] (po_messages x') = [renewed c [1] m]" using r(2) ids ack by (auto simp: list_all2_Cons1)
  moreover have "\<exists>d\<in>set (entries_of [97] (po_deletions x')). dm_internal_id d = [105]" using r(3) ids ack by auto
  ultimately show ?thesis using r(1) ids unfolding b_def c_def e_def m_def x_def by auto
qed

end
