(* ===== verification/Record_Store.thy ===== *)
theory Record_Store
  imports Block_Loop Message_Fields
begin

text \<open>
  The stores of what the server tells about messages: \<^verbatim>\<open>reactions_storage\<close> (\<^verbatim>\<open>core/archive/reactions.cpp\<close>) and
  \<^verbatim>\<open>thread_update_storage\<close> (\<^verbatim>\<open>core/archive/thread_update_storage.cpp\<close>) are the same program over different
  records. A data file holds one block per message, with a fifth more room than the record needs; an index
  file holds where the block of a message is. A record is overwritten in its place as long as it fits.

  The code of the two classes is modelled once, over what they differ in: the fields \<open>ser\<close> of a record, its
  reader \<open>unser\<close> and its message id \<open>key\<close>. The two hash maps are maps. The contract of a record,
  the locale \<open>stored_record\<close>, and what the store promises are in \<open>Record_Refinement\<close>.
\<close>

subsection \<open>The records of the index\<close>

definition tlv_index_offset :: u32 where [simp]: "tlv_index_offset = 1"
definition tlv_index_msg_id :: u32 where [simp]: "tlv_index_msg_id = 2"

record index_record =
  ir_offset :: int
  ir_msg_id :: int

definition index_fields :: "index_record \<Rightarrow> tlv list" where
  "index_fields r = [mk_tlv tlv_index_offset (i64_image (ir_offset r)), mk_tlv tlv_index_msg_id (i64_image (ir_msg_id r))]"

definition index_serialize :: "index_record \<Rightarrow> binary_stream \<Rightarrow> binary_stream" where
  "index_serialize r s = pack_serialize (pack_of (index_fields r)) s"

definition index_unserialize :: "binary_stream \<Rightarrow> (bool \<times> index_record \<times> binary_stream) option" where
  "index_unserialize s = do {
     (ok, p, s) \<leftarrow> pack_unserialize empty_pack s;
     let r = \<lparr>ir_offset = 0, ir_msg_id = 0\<rparr>;
     Some (if \<not> ok then (False, r, s)
           else case get_item p tlv_index_msg_id of
             None \<Rightarrow> (False, r, s)
           | Some m \<Rightarrow> (case get_item p tlv_index_offset of
               None \<Rightarrow> (False, r\<lparr>ir_msg_id := get_i64 m\<rparr>, s)
             | Some t \<Rightarrow> (True, \<lparr>ir_offset = get_i64 t, ir_msg_id = get_i64 m\<rparr>, s)))
   }"

subsection \<open>The operations\<close>

record record_store =
  rs_index :: "int \<Rightarrow> int option"
  rs_offsets :: "int \<Rightarrow> int option"
  rs_index_storage :: storage
  rs_data_storage :: storage
  rs_loaded :: bool

definition mk_record_store :: "storage \<Rightarrow> storage \<Rightarrow> record_store" where
  "mk_record_store index data = \<lparr>rs_index = Map.empty, rs_offsets = Map.empty, rs_index_storage = index,
     rs_data_storage = data, rs_loaded = False\<rparr>"

text \<open>The body of the loop of \<open>load_index\<close>; \<open>offset\<close> is where the record began.\<close>

definition load_record ::
  "storage \<Rightarrow> binary_stream \<Rightarrow> (int \<Rightarrow> int option) \<times> (int \<Rightarrow> int option) \<times> int \<Rightarrow>
    (bool \<times> binary_stream \<times> (int \<Rightarrow> int option) \<times> (int \<Rightarrow> int option) \<times> int) option" where
  "load_record st d x =
     (case x of (index, offsets, offset) \<Rightarrow>
        map_option (\<lambda>(ok, r, d). (True, d, if ok then index(ir_msg_id r \<mapsto> ir_offset r) else index,
            offsets(ir_msg_id r \<mapsto> offset), get_offset st))
          (index_unserialize d))"

definition load_index :: "record_store \<Rightarrow> record_store option" where
  "load_index x =
     (case storage_open (mode_zero\<lparr>sm_read := True\<rparr>) (rs_index_storage x) of
        (False, st) \<Rightarrow> Some (x\<lparr>rs_index_storage := st\<rparr>)
      | (True, st) \<Rightarrow>
          map_option (\<lambda>(_, (index, offsets, _), st). x\<lparr>rs_index := index, rs_offsets := offsets,
              rs_index_storage := storage_close st, rs_loaded := True\<rparr>)
            (read_blocks load_record (rs_index x, rs_offsets x, 0) st empty_stream))"

definition load_if_needed :: "record_store \<Rightarrow> record_store option" where
  "load_if_needed x = (if rs_loaded x then Some x else load_index x)"

text \<open>
  Reading the records of some messages. The buffer \<open>d\<close> is not reset between the messages. The result is the
  records found and the ids of the messages without one.
\<close>

definition read_record ::
  "(tlvpack \<Rightarrow> 'r option option) \<Rightarrow> binary_stream \<Rightarrow> ('r option \<times> binary_stream) option" where
  "read_record unser d = do {
     (ok, p, d) \<leftarrow> pack_unserialize empty_pack d;
     if ok then map_option (\<lambda>r. (r, d)) (unser p) else Some (None, d)
   }"

fun get_loop ::
  "(tlvpack \<Rightarrow> 'r option option) \<Rightarrow> (int \<Rightarrow> int option) \<Rightarrow> int list \<Rightarrow> storage \<Rightarrow> binary_stream \<Rightarrow>
    ('r list \<times> int list \<times> storage) option" where
  "get_loop unser index [] st d = Some ([], [], st)"
| "get_loop unser index (i # ids) st d = do {
     (r, st, d) \<leftarrow> (case index i of
        None \<Rightarrow> Some (None, st, d)
      | Some offset \<Rightarrow> do {
          (ok, st, d) \<leftarrow> read_data_block offset st d;
          if ok then map_option (\<lambda>(r, d). (r, st, d)) (read_record unser d) else Some (None, st, d)
        });
     (rs, missing, st) \<leftarrow> get_loop unser index ids st d;
     Some (case r of None \<Rightarrow> (rs, i # missing, st) | Some r \<Rightarrow> (r # rs, missing, st))
   }"

definition get_records ::
  "(tlvpack \<Rightarrow> 'r option option) \<Rightarrow> int list \<Rightarrow> record_store \<Rightarrow> ('r list \<times> int list \<times> record_store) option" where
  "get_records unser ids x = do {
     x \<leftarrow> load_if_needed x;
     case storage_open (mode_zero\<lparr>sm_read := True\<rparr>) (rs_data_storage x) of
       (False, st) \<Rightarrow> Some ([], ids, x\<lparr>rs_data_storage := st\<rparr>)
     | (True, st) \<Rightarrow> do {
         (rs, missing, st) \<leftarrow> get_loop unser (rs_index x) ids st empty_stream;
         Some (rs, missing, x\<lparr>rs_data_storage := storage_close st\<rparr>)
       }
   }"

text \<open>
  The heuristic size of a block: \<^verbatim>\<open>_current_size * 0.2\<close> in double precision, cut to an integer, which is the
  fifth for every size below \<open>2 ^ 50\<close>.
\<close>

definition reserved_size :: "nat \<Rightarrow> nat" where
  "reserved_size n = n + n div 5"

definition pad_stream :: "nat \<Rightarrow> binary_stream \<Rightarrow> binary_stream" where
  "pad_stream n s = resize_stream n (set_input n s)"

text \<open>A seek to a negative position fails, and so does all that follows on the stream.\<close>

definition write_at :: "binary_stream \<Rightarrow> int \<Rightarrow> storage \<Rightarrow> (result_type \<times> binary_stream \<times> storage) option" where
  "write_at d off st =
     (if off < 0 then write_data_block_at d 0 (st\<lparr>st_stream := map_option (\<lambda>f. f\<lparr>fs_good := False\<rparr>) (st_stream st)\<rparr>)
      else write_data_block_at d (nat off) st)"

definition serialize_record :: "('r \<Rightarrow> tlv list) \<Rightarrow> 'r \<Rightarrow> binary_stream" where
  "serialize_record ser r = pack_serialize (pack_of (ser r)) empty_stream"

definition add_record ::
  "('r \<Rightarrow> tlv list) \<Rightarrow> ('r \<Rightarrow> int) \<Rightarrow> 'r \<Rightarrow> record_store \<Rightarrow> (index_record \<times> record_store) option" where
  "add_record ser key r x =
     (let data = serialize_record ser r;
          data = pad_stream (reserved_size (nat (available data))) data
      in map_option (\<lambda>(_, offset, _, st).
           (\<lparr>ir_offset = offset, ir_msg_id = key r\<rparr>, x\<lparr>rs_index := (rs_index x)(key r \<mapsto> offset), rs_data_storage := st\<rparr>))
         (write_data_block data 0 (rs_data_storage x)))"

definition update_record_at ::
  "('r \<Rightarrow> tlv list) \<Rightarrow> ('r \<Rightarrow> int) \<Rightarrow> 'r \<Rightarrow> int \<Rightarrow> record_store \<Rightarrow> (index_record option \<times> record_store) option" where
  "update_record_at ser key r offset x = do {
     (ok, st, existing) \<leftarrow> read_data_block offset (rs_data_storage x) empty_stream;
     let x = x\<lparr>rs_data_storage := st\<rparr>;
     let data = serialize_record ser r;
     if ok \<and> available data \<le> available existing
     then map_option (\<lambda>(_, _, st). (None, x\<lparr>rs_data_storage := st\<rparr>))
            (write_at (pad_stream (nat (available existing)) data) offset st)
     else map_option (\<lambda>(a, x). (Some a, x)) (add_record ser key r x)
   }"

fun insert_loop ::
  "('r \<Rightarrow> tlv list) \<Rightarrow> ('r \<Rightarrow> int) \<Rightarrow> 'r list \<Rightarrow> record_store \<Rightarrow> (index_record list \<times> record_store) option" where
  "insert_loop ser key [] x = Some ([], x)"
| "insert_loop ser key (r # rs) x = do {
     (a, x) \<leftarrow> (case rs_index x (key r) of
        None \<Rightarrow> map_option (\<lambda>(a, x). (Some a, x)) (add_record ser key r x)
      | Some offset \<Rightarrow> update_record_at ser key r offset x);
     (as, x) \<leftarrow> insert_loop ser key rs x;
     Some (case a of None \<Rightarrow> as | Some a \<Rightarrow> a # as, x)
   }"

fun save_loop ::
  "index_record list \<Rightarrow> binary_stream \<Rightarrow> (int \<Rightarrow> int option) \<Rightarrow> storage \<Rightarrow> ((int \<Rightarrow> int option) \<times> storage) option" where
  "save_loop [] d offsets st = Some (offsets, st)"
| "save_loop (r # rs) d offsets st =
     (case offsets (ir_msg_id r) of
        Some offset \<Rightarrow> do {
          (_, d, st) \<leftarrow> write_at (index_serialize r d) offset st;
          save_loop rs (reset d) offsets st
        }
      | None \<Rightarrow> do {
          (_, offset, d, st) \<leftarrow> write_data_block (index_serialize r d) 0 st;
          save_loop rs (reset d) (offsets(ir_msg_id r \<mapsto> offset)) st
        })"

definition save_index_records :: "index_record list \<Rightarrow> record_store \<Rightarrow> record_store option" where
  "save_index_records rs x =
     (case storage_open (update_mode (rs_index_storage x)) (rs_index_storage x) of
        (False, st) \<Rightarrow> Some (x\<lparr>rs_index_storage := st\<rparr>)
      | (True, st) \<Rightarrow>
          map_option (\<lambda>(offsets, st). x\<lparr>rs_offsets := offsets, rs_index_storage := storage_close st\<rparr>)
            (save_loop rs empty_stream (rs_offsets x) st))"

definition insert_records ::
  "('r \<Rightarrow> tlv list) \<Rightarrow> ('r \<Rightarrow> int) \<Rightarrow> 'r list \<Rightarrow> record_store \<Rightarrow> record_store option" where
  "insert_records ser key rs x = do {
     x \<leftarrow> load_if_needed x;
     case storage_open (update_mode (rs_data_storage x)) (rs_data_storage x) of
       (False, st) \<Rightarrow> Some (x\<lparr>rs_data_storage := st\<rparr>)
     | (True, st) \<Rightarrow> do {
         (added, x) \<leftarrow> insert_loop ser key rs (x\<lparr>rs_data_storage := st\<rparr>);
         x \<leftarrow> save_index_records added x;
         Some (x\<lparr>rs_data_storage := storage_close (rs_data_storage x)\<rparr>)
       }
   }"


subsection \<open>Padding a stream\<close>

text \<open>Behind the input cursor of a stream that was only written to there are zeros.\<close>

definition clean :: "binary_stream \<Rightarrow> bool" where
  "clean s \<longleftrightarrow> wf_stream s \<and> drop (bs_input s) (bs_buffer s) = replicate (length (bs_buffer s) - bs_input s) 0"

lemma clean_empty [simp]: "clean empty_stream"
  by (simp add: clean_def) (simp add: empty_stream_def)

lemma clean_resize: "clean s \<Longrightarrow> length (bs_buffer s) \<le> n \<Longrightarrow> clean (resize_stream n s)"
  by (auto simp: clean_def wf_stream_def resize_stream_def resize_def simp flip: replicate_add)

lemma clean_reserve: "clean s \<Longrightarrow> clean (reserve n s)"
  using clean_resize [of s n] by (simp add: reserve_def)

lemma clean_overwrite:
  assumes "clean s" and "bs_input s + length bs \<le> length (bs_buffer s)"
  shows "clean (s\<lparr>bs_buffer := overwrite (bs_buffer s) (bs_input s) bs, bs_input := bs_input s + length bs\<rparr>)"
proof -
  have "drop (bs_input s + length bs) (bs_buffer s) = drop (length bs) (drop (bs_input s) (bs_buffer s))"
    by (simp add: add.commute)
  also have "\<dots> = replicate (length (bs_buffer s) - (bs_input s + length bs)) 0"
    using assms(1) by (simp add: clean_def)
  finally show ?thesis using assms by (simp add: clean_def wf_stream_def overwrite_def)
qed

lemma clean_write: "clean s \<Longrightarrow> clean (write_bytes bs s)"
proof -
  assume c: "clean s"
  let ?n = "bs_input s + length bs"
  let ?s = "resize_stream (?n + 1) s"
  have w: "bs_input s \<le> length (bs_buffer s)" using c by (simp add: clean_def wf_stream_def)
  show ?thesis
  proof (cases "?n > length (bs_buffer s)")
    case True
    then have "clean ?s" using c by (intro clean_resize) simp_all
    from clean_overwrite [OF this, of bs] True show ?thesis
      by (simp add: write_bytes_def Let_def resize_stream_def c)
  next
    case False
    with clean_overwrite [OF c, of bs] c show ?thesis by (simp add: write_bytes_def Let_def)
  qed
qed

lemma clean_serialize_fields: "clean s \<Longrightarrow> clean (snd (serialize_fields ts s))"
proof (induction ts arbitrary: s)
  case (Cons t ts)
  have "clean (snd (tlv_serialize t s))"
    using Cons.prems by (auto simp: tlv_serialize_def Let_def intro!: clean_write split: option.split)
  with Cons.IH show ?case by (simp add: case_prod_beta)
qed simp

lemma clean_pack_serialize: "clean s \<Longrightarrow> clean (pack_serialize p s)"
  by (simp add: pack_serialize_def pack_serialize_io_def Let_def case_prod_beta clean_serialize_fields clean_reserve)

lemma pad_clean:
  assumes "clean s" and "bs_output s = 0" and "length (pending s) \<le> n"
  shows "wf_stream (pad_stream n s)" and "pending (pad_stream n s) = pending s @ replicate (n - length (pending s)) 0"
proof -
  have w: "bs_input s \<le> length (bs_buffer s)" "length (pending s) = bs_input s" "pending s = take (bs_input s) (bs_buffer s)"
    using assms(1,2) by (simp_all add: clean_def wf_stream_def length_pending) (simp add: pending_def assms(2))
  show "wf_stream (pad_stream n s)" using assms(2) by (simp add: pad_stream_def resize_stream_def set_input_def wf_stream_def)
  let ?z = "length (bs_buffer s) - bs_input s"
  have "bs_buffer s = pending s @ replicate ?z 0"
    using assms(1) w by (metis append_take_drop_id clean_def)
  then have "resize n 0 (bs_buffer s) = take n (pending s @ replicate ?z 0) @ replicate (n - length (bs_buffer s)) 0"
    unfolding resize_def by metis
  also have "\<dots> = pending s @ replicate (min (n - bs_input s) ?z + (n - length (bs_buffer s))) 0"
    using assms(3) w(2) by (simp add: replicate_add take_replicate)
  also have "min (n - bs_input s) ?z + (n - length (bs_buffer s)) = n - bs_input s"
    using assms(3) w(1,2) by auto
  finally have r: "resize n 0 (bs_buffer s) = pending s @ replicate (n - bs_input s) 0" .
  have "pending (pad_stream n s) = take n (resize n 0 (bs_buffer s))"
    using assms(2) by (simp add: pending_def pad_stream_def resize_stream_def set_input_def)
  then show "pending (pad_stream n s) = pending s @ replicate (n - length (pending s)) 0"
    using r w(2) assms(3) by simp
qed

definition record_bytes :: "('r \<Rightarrow> tlv list) \<Rightarrow> 'r \<Rightarrow> bytes" where
  "record_bytes ser r = enc_fields (map tlv_view (ser r))"

definition block_of :: "('r \<Rightarrow> tlv list) \<Rightarrow> nat \<Rightarrow> 'r \<Rightarrow> bytes" where
  "block_of ser n r = record_bytes ser r @ replicate (n - length (record_bytes ser r)) 0"

lemma length_block_of [simp]: "length (record_bytes ser r) \<le> n \<Longrightarrow> length (block_of ser n r) = n"
  by (simp add: block_of_def)

lemma serialize_record_pending:
  assumes "list_all fresh_tlv (ser r)"
  shows "wf_stream (serialize_record ser r)" and "pending (serialize_record ser r) = record_bytes ser r"
    and "available (serialize_record ser r) = int (length (record_bytes ser r))"
  using assms by (simp_all add: serialize_record_def wf_pack_serialize pending_pack_serialize record_bytes_def available_pending)

lemma padded_record:
  assumes "list_all fresh_tlv (ser r)" and "length (record_bytes ser r) \<le> n"
  shows "wf_stream (pad_stream n (serialize_record ser r))"
    and "pending (pad_stream n (serialize_record ser r)) = block_of ser n r"
proof -
  have "clean (serialize_record ser r)" by (simp add: serialize_record_def clean_pack_serialize)
  moreover have "bs_output (serialize_record ser r) = 0" by (simp add: serialize_record_def) (simp add: empty_stream_def)
  ultimately show "wf_stream (pad_stream n (serialize_record ser r))"
    "pending (pad_stream n (serialize_record ser r)) = block_of ser n r"
    using pad_clean [of "serialize_record ser r" n] assms by (simp_all add: serialize_record_pending block_of_def)
qed

end
