(* ===== verification/Record_Refinement.thy ===== *)
theory Record_Refinement
  imports Record_Store Message_Roundtrip
begin

text \<open>
  The record stores refine a map from message ids to records. \<open>store_ok\<close> says what a store and its files hold;
  the locale \<open>stored_record\<close> is the contract of the records; inside it reading and inserting are shown to be
  looking up and putting into the map, for a store that was just made from the files as well.
\<close>

declare map_of_append [simp del]

subsection \<open>The index file\<close>

definition index_bytes :: "index_record \<Rightarrow> bytes" where
  "index_bytes r = record_bytes index_fields r"

definition good_index :: "index_record \<Rightarrow> bool" where
  "good_index r \<longleftrightarrow> i64_range (ir_offset r) \<and> i64_range (ir_msg_id r)"

lemma length_index_bytes [simp]: "length (index_bytes r) = 32"
  by (simp add: index_bytes_def record_bytes_def index_fields_def)

lemma good_index_block [simp]: "good_block (index_bytes r)"
proof -
  have "index_bytes r \<noteq> []" using length_index_bytes [of r] by (metis list.size(3) zero_neq_numeral)
  then show ?thesis by (simp add: good_block_def)
qed

lemma index_serialize_pending:
  "wf_stream d \<Longrightarrow> pending d = [] \<Longrightarrow> wf_stream (index_serialize r d) \<and> pending (index_serialize r d) = index_bytes r"
  by (simp add: index_serialize_def wf_pack_serialize pending_pack_serialize index_bytes_def record_bytes_def index_fields_def)

lemma index_unserialize_bytes:
  assumes "wf_stream d" and "pending d = index_bytes r" and "good_index r"
  shows "\<exists>d'. index_unserialize d = Some (True, r, d')"
proof -
  have small: "length (index_bytes r) < 2 ^ 32" by simp
  have "list_all good_field (map tlv_view (index_fields r))"
    by (rule fits_good) (use small in \<open>simp only: index_bytes_def record_bytes_def\<close>)
  then obtain d' where "pack_unserialize empty_pack d = Some (True, mk_pack (map tlv_view (index_fields r)), d')"
    using pack_unserialize_enc [OF assms(1), of "map tlv_view (index_fields r)"] assms(2)
    by (auto simp: index_bytes_def record_bytes_def)
  with assms(3) show ?thesis by (simp add: index_unserialize_def index_fields_def good_index_def)
qed

text \<open>What the index says, and where its records begin in the file.\<close>

definition index_map :: "index_record list \<Rightarrow> int \<Rightarrow> int option" where
  "index_map rs = map_of (map (\<lambda>r. (ir_msg_id r, ir_offset r)) rs)"

lemma dom_index_map: "dom (index_map rs) = ir_msg_id ` set rs"
  by (simp add: index_map_def dom_map_of_conv_image_fst image_image)

fun starts :: "nat \<Rightarrow> index_record list \<Rightarrow> (int \<times> int) list" where
  "starts p [] = []"
| "starts p (r # rs) = (ir_msg_id r, int p) # starts (p + 48) rs"

lemma fst_starts [simp]: "map fst (starts p rs) = map ir_msg_id rs"
  by (induction rs arbitrary: p) auto

lemma dom_starts: "dom (map_of (starts p rs)) = ir_msg_id ` set rs"
  by (simp add: dom_map_of_conv_image_fst flip: set_map)

lemma starts_append: "starts p (rs @ [r]) = starts p rs @ [(ir_msg_id r, int (p + 48 * length rs))]"
  by (induction rs arbitrary: p) auto

lemma starts_bound: "map_of (starts p rs) i = Some off \<Longrightarrow> \<exists>j<length rs. off = int (p + 48 * j) \<and> ir_msg_id (rs ! j) = i"
proof (induction rs arbitrary: p)
  case (Cons r rs)
  show ?case
  proof (cases "ir_msg_id r = i")
    case True
    with Cons.prems show ?thesis by (intro exI [of _ 0]) simp
  next
    case False
    then obtain j where "j < length rs" "off = int (p + 48 + 48 * j)" "ir_msg_id (rs ! j) = i"
      using Cons.IH [of "p + 48"] Cons.prems by auto
    then show ?thesis by (intro exI [of _ "Suc j"]) simp
  qed
qed simp

definition load_step :: "bytes \<times> nat \<Rightarrow> (int \<Rightarrow> int option) \<times> (int \<Rightarrow> int option) \<times> int \<Rightarrow>
    (int \<Rightarrow> int option) \<times> (int \<Rightarrow> int option) \<times> int" where
  "load_step bp x = (case (bp, x) of ((b, p), (index, offsets, offset)) \<Rightarrow>
     (case index_unserialize (write_bytes b empty_stream) of
        Some (True, r, _) \<Rightarrow> (index(ir_msg_id r \<mapsto> ir_offset r), offsets(ir_msg_id r \<mapsto> offset), int p)
      | _ \<Rightarrow> x))"

lemma load_step_bytes: "good_index r \<Longrightarrow> load_step (index_bytes r, p) (index, offsets, offset) =
    (index(ir_msg_id r \<mapsto> ir_offset r), offsets(ir_msg_id r \<mapsto> offset), int p)"
  using index_unserialize_bytes [of "write_bytes (index_bytes r) empty_stream" r] by (auto simp: load_step_def)

lemma fold_load_step:
  "list_all good_index rs \<Longrightarrow> distinct (map ir_msg_id rs) \<Longrightarrow>
    fold load_step (with_ends p (map index_bytes rs)) (index, offsets, int p) =
      (index ++ index_map rs, offsets ++ map_of (starts p rs), int (p + 48 * length rs))"
proof (induction rs arbitrary: p index offsets)
  case (Cons r rs)
  have upd: "f(ir_msg_id r \<mapsto> v) ++ g = f ++ g(ir_msg_id r \<mapsto> v)" if "ir_msg_id r \<notin> dom g" for f g :: "int \<Rightarrow> int option" and v
    using that by (auto simp: fun_eq_iff map_add_def split: option.split)
  have "ir_msg_id r \<notin> dom (index_map rs)" "ir_msg_id r \<notin> dom (map_of (starts (p + 48) rs))"
    using Cons.prems(2) by (simp_all add: dom_index_map dom_starts)
  then have "index(ir_msg_id r \<mapsto> ir_offset r) ++ index_map rs = index ++ index_map (r # rs)"
    "offsets(ir_msg_id r \<mapsto> int p) ++ map_of (starts (p + 48) rs) = offsets ++ map_of (starts p (r # rs))"
    by (simp_all add: upd) (simp_all add: index_map_def)
  with Cons.IH [of "p + 48"] Cons.prems show ?case
    by (simp add: load_step_bytes add.commute del: starts.simps)
qed (simp add: index_map_def)

lemma load_record_step:
  assumes "wf_stream d" and "pending d = index_bytes r" and "good_index r" and "open_reading st"
  shows "\<exists>d'. load_record st d x = Some (True, d', load_step (index_bytes r, position st) x)"
proof -
  obtain index offsets offset where x: "x = (index, offsets, offset)" by (cases x)
  obtain d' where "index_unserialize d = Some (True, r, d')" using index_unserialize_bytes [OF assms(1-3)] by blast
  then show ?thesis using assms(3,4) by (simp add: x load_record_def load_step_bytes get_offset_position)
qed

text \<open>Loading the index: afterwards it says what the file says.\<close>

lemma load_index_works:
  assumes "can_use_file (rs_index_storage x)" and "contents (rs_index_storage x) = file_of (map index_bytes rs)"
    and "list_all good_index rs" and "distinct (map ir_msg_id rs)"
    and "rs_index x \<subseteq>\<^sub>m index_map rs" and "rs_offsets x \<subseteq>\<^sub>m map_of (starts 0 rs)"
  shows "\<exists>st loaded. load_index x = Some (x\<lparr>rs_index := index_map rs, rs_offsets := map_of (starts 0 rs),
      rs_index_storage := st, rs_loaded := loaded\<rparr>) \<and>
    can_use_file st \<and> contents st = contents (rs_index_storage x) \<and> st_room st = st_room (rs_index_storage x)"
proof (cases "st_file (rs_index_storage x) = None")
  case True
  then have "rs = []" using assms(2) by (cases rs) (simp_all add: contents_def)
  then have e: "rs_index x = Map.empty" "rs_offsets x = Map.empty" "index_map rs = Map.empty" "starts 0 rs = []"
    using assms(5,6) by (auto simp: index_map_def map_le_def dom_def fun_eq_iff)
  have "storage_open (mode_zero\<lparr>sm_read := True\<rparr>) (rs_index_storage x) =
      (False, (rs_index_storage x)\<lparr>st_last_error := file_not_exist\<rparr>)"
    using True assms(1) by (simp add: storage_open_def mode_zero_def can_use_file_def Let_def)
  then show ?thesis using e assms(1)
    by (intro exI [of _ "(rs_index_storage x)\<lparr>st_last_error := file_not_exist\<rparr>"] exI [of _ "rs_loaded x"])
      (simp add: load_index_def can_use_file_def)
next
  case False
  obtain st1 where o: "storage_open (mode_zero\<lparr>sm_read := True\<rparr>) (rs_index_storage x) = (True, st1)" "open_reading st1"
    "unread st1 = contents (rs_index_storage x)"
    using open_read [OF assms(1) False] by blast
  have c: "contents st1 = contents (rs_index_storage x)" "st_room st1 = st_room (rs_index_storage x)"
    "can_use_file (storage_close st1)" "position st1 = 0"
    using o(1) assms(1) by (auto simp: storage_open_def can_use_file_def fstream_open_def filebuf_mode_def mode_zero_def
        Let_def storage_close_def contents_def position_def split: if_splits option.splits)
  let ?x = "(rs_index x, rs_offsets x, 0 :: int)"
  have "\<exists>st'. read_blocks load_record ?x st1 empty_stream =
      Some (True, fold load_step (with_ends (position st1) (map index_bytes rs)) ?x, st') \<and>
    st_last_error st' = end_of_file \<and> contents st' = contents st1 \<and> st_room st' = st_room st1 \<and>
    (can_use_file (storage_close st1) \<longrightarrow> can_use_file (storage_close st'))"
  proof (rule read_blocks_all)
    fix st d x b
    assume "open_reading st" "wf_stream d" "pending d = b" "b \<in> set (map index_bytes rs)"
    moreover then obtain r where "b = index_bytes r" "good_index r" using assms(3) by (auto simp: list_all_iff)
    ultimately show "\<exists>d'. load_record st d x = Some (True, d', load_step (b, position st) x)"
      using load_record_step [of d r st x] by simp
  qed (use o c assms(2) in \<open>auto simp: list_all_iff\<close>)
  then obtain st2 where r: "read_blocks load_record ?x st1 empty_stream =
      Some (True, (index_map rs, map_of (starts 0 rs), int (48 * length rs)), st2)"
    "contents st2 = contents st1" "st_room st2 = st_room st1" "can_use_file (storage_close st2)"
    using fold_load_step [OF assms(3,4), of 0 "rs_index x" "rs_offsets x"] assms(5,6) c(3,4)
    by (auto simp: map_add_subsumed1)
  then show ?thesis using o(1) c
    by (intro exI [of _ "storage_close st2"] exI [of _ True]) (simp add: load_index_def storage_close_def)
qed


subsection \<open>The data file\<close>

text \<open>
  What a store is about: a record for some message ids, and the room its block has. \<open>put\<close> is the
  abstract insertion; it has no result when a record is larger than the block it should go into, or than a
  block may be.
\<close>

type_synonym 'r shelf = "int \<Rightarrow> (nat \<times> 'r) option"

definition put :: "('r \<Rightarrow> tlv list) \<Rightarrow> ('r \<Rightarrow> int) \<Rightarrow> 'r \<Rightarrow> 'r shelf \<Rightarrow> 'r shelf option" where
  "put ser key r A =
     (let n = length (record_bytes ser r)
      in case A (key r) of
           None \<Rightarrow> if reserved_size n \<le> 1024 * 1024 then Some (A(key r \<mapsto> (reserved_size n, r))) else None
         | Some (room, _) \<Rightarrow> if n \<le> room then Some (A(key r \<mapsto> (room, r))) else None)"

fun put_all :: "('r \<Rightarrow> tlv list) \<Rightarrow> ('r \<Rightarrow> int) \<Rightarrow> 'r list \<Rightarrow> 'r shelf \<Rightarrow> 'r shelf option" where
  "put_all ser key [] A = Some A"
| "put_all ser key (r # rs) A = do { A \<leftarrow> put ser key r A; put_all ser key rs A }"

text \<open>The blocks \<open>bss\<close> of the data file hold the records, and the map \<open>index\<close> knows where.\<close>

definition placed :: "('r \<Rightarrow> tlv list) \<Rightarrow> 'r shelf \<Rightarrow> (int \<Rightarrow> int option) \<Rightarrow> bytes list \<Rightarrow> (int \<Rightarrow> nat) \<Rightarrow> bool" where
  "placed ser A index bss pos \<longleftrightarrow> list_all good_block bss \<and> dom index = dom A \<and> inj_on pos (dom A) \<and>
     (\<forall>i room r. A i = Some (room, r) \<longrightarrow> pos i < length bss \<and> index i = Some (int (offset_of bss (pos i))) \<and>
        bss ! pos i = block_of ser room r \<and> length (record_bytes ser r) \<le> room)"

lemma placed_get:
  "placed ser A index bss pos \<Longrightarrow> A i = Some (room, r) \<Longrightarrow>
    pos i < length bss \<and> index i = Some (int (offset_of bss (pos i))) \<and> bss ! pos i = block_of ser room r \<and>
    length (record_bytes ser r) \<le> room \<and> good_block (block_of ser room r)"
  unfolding placed_def list_all_iff by (metis nth_mem)

lemma placed_add:
  assumes "placed ser A index bss pos" and "A i = None" and "good_block (block_of ser room r)"
    and "length (record_bytes ser r) \<le> room"
  shows "placed ser (A(i \<mapsto> (room, r))) (index(i \<mapsto> int (length (file_of bss)))) (bss @ [block_of ser room r])
    (pos(i := length bss))"
  unfolding placed_def
proof (intro conjI allI impI)
  have old: "list_all good_block bss" "dom index = dom A" "inj_on pos (dom A)" using assms(1) by (simp_all add: placed_def)
  show "list_all good_block (bss @ [block_of ser room r])" using old assms(3) by simp
  show "dom (index(i \<mapsto> int (length (file_of bss)))) = dom (A(i \<mapsto> (room, r)))" using old by simp
  have "pos j \<noteq> length bss" if "j \<in> dom A" for j
    using placed_get [OF assms(1)] that by fastforce
  then show "inj_on (pos(i := length bss)) (dom (A(i \<mapsto> (room, r))))"
    using old(3) assms(2) by (fastforce simp: inj_on_def)
  fix j room' r' assume j: "(A(i \<mapsto> (room, r))) j = Some (room', r')"
  let ?bss = "bss @ [block_of ser room r]" and ?pos = "pos(i := length bss)"
  have "?pos j < length ?bss \<and> (index(i \<mapsto> int (length (file_of bss)))) j = Some (int (offset_of ?bss (?pos j))) \<and>
      ?bss ! ?pos j = block_of ser room' r' \<and> length (record_bytes ser r') \<le> room'"
  proof (cases "j = i")
    case True
    with j assms(4) show ?thesis by (simp add: offset_of_length)
  next
    case False
    with j placed_get [OF assms(1), of j room' r'] show ?thesis by (simp add: nth_append)
  qed
  then show "?pos j < length ?bss" "(index(i \<mapsto> int (length (file_of bss)))) j = Some (int (offset_of ?bss (?pos j)))"
    "?bss ! ?pos j = block_of ser room' r'" "length (record_bytes ser r') \<le> room'" by blast+
qed

lemma good_block_length: "good_block b \<longleftrightarrow> 0 < length b \<and> length b \<le> 1024 * 1024"
  by (auto simp: good_block_def)

lemma placed_update:
  assumes "placed ser A index bss pos" and "A i = Some (room, r0)" and "length (record_bytes ser r) \<le> room"
  shows "placed ser (A(i \<mapsto> (room, r))) index (bss[pos i := block_of ser room r]) pos"
  unfolding placed_def
proof (intro conjI allI impI)
  let ?b = "block_of ser room r"
  let ?bss = "bss[pos i := ?b]"
  have old: "list_all good_block bss" "dom index = dom A" "inj_on pos (dom A)" using assms(1) by (simp_all add: placed_def)
  note here = placed_get [OF assms(1,2)]
  then have len: "length ?b = length (bss ! pos i)" using assms(3) by simp
  moreover have "good_block (bss ! pos i)" using here by simp
  ultimately have "good_block ?b" by (metis good_block_length)
  then show "list_all good_block ?bss"
    using old(1) set_update_subset_insert [of bss "pos i" ?b] by (auto simp: list_all_iff)
  have dom: "dom (A(i \<mapsto> (room, r))) = dom A" using assms(2) by auto
  with old show "dom index = dom (A(i \<mapsto> (room, r)))" "inj_on pos (dom (A(i \<mapsto> (room, r))))" by simp_all
  fix j room' r' assume j: "(A(i \<mapsto> (room, r))) j = Some (room', r')"
  have "pos j < length ?bss \<and> index j = Some (int (offset_of ?bss (pos j))) \<and>
      ?bss ! pos j = block_of ser room' r' \<and> length (record_bytes ser r') \<le> room'"
  proof (cases "j = i")
    case True
    with j assms(3) here len show ?thesis by simp
  next
    case False
    then have "A j = Some (room', r')" using j by simp
    moreover from this have "pos j \<noteq> pos i" using False old(3) assms(2) by (metis domI inj_onD)
    ultimately show ?thesis using placed_get [OF assms(1), of j room' r'] here len by simp
  qed
  then show "pos j < length ?bss" "index j = Some (int (offset_of ?bss (pos j)))"
    "?bss ! pos j = block_of ser room' r'" "length (record_bytes ser r') \<le> room'" by blast+
qed


subsection \<open>The contract of a record\<close>

text \<open>The data file of a store that is open for inserting.\<close>

definition data_open :: "('r \<Rightarrow> tlv list) \<Rightarrow> 'r shelf \<Rightarrow> record_store \<Rightarrow> bytes list \<Rightarrow> (int \<Rightarrow> nat) \<Rightarrow> bool" where
  "data_open ser A x bss pos \<longleftrightarrow> writing_at (length (file_of bss)) (rs_data_storage x) \<and>
     contents (rs_data_storage x) = file_of bss \<and> placed ser A (rs_index x) bss pos"

text \<open>What an insertion adds to the index: the new message ids, and where their blocks are.\<close>

definition extends :: "index_record list \<Rightarrow> (int \<Rightarrow> int option) \<Rightarrow> (int \<Rightarrow> int option) \<Rightarrow> bool" where
  "extends rs index index' \<longleftrightarrow> index' = index ++ index_map rs \<and> distinct (map ir_msg_id rs) \<and> dom index \<inter> ir_msg_id ` set rs = {}"

locale stored_record =
  fixes ser :: "'r \<Rightarrow> tlv list" and unser :: "tlvpack \<Rightarrow> 'r option option" and key :: "'r \<Rightarrow> int"
    and good :: "'r \<Rightarrow> bool" and stored :: "'r \<Rightarrow> 'r"
  assumes fresh: "list_all fresh_tlv (ser r)"
    and nonempty: "ser r \<noteq> []"
    and reads_back: "good r \<Longrightarrow> length (record_bytes ser r) < 2 ^ 32 \<Longrightarrow>
      unser (mk_pack (map tlv_view (ser r) @ padding k)) = Some (Some (stored r))"
    and key_range: "good r \<Longrightarrow> i64_range (key r)"
begin

lemma record_bytes_pos: "0 < length (record_bytes ser r)"
proof -
  obtain t ts where "ser r = t # ts" using nonempty [of r] by (cases "ser r") auto
  then show ?thesis by (cases "tlv_view t") (simp add: record_bytes_def)
qed

lemma add_record_works:
  assumes "data_open ser A x bss pos" and "A (key r) = None" and "put ser key r A = Some A'"
    and "1024 * 1024 + 16 \<le> st_room (rs_data_storage x)"
  shows "\<exists>st'. add_record ser key r x = Some (\<lparr>ir_offset = int (length (file_of bss)), ir_msg_id = key r\<rparr>,
      x\<lparr>rs_index := (rs_index x)(key r \<mapsto> int (length (file_of bss))), rs_data_storage := st'\<rparr>) \<and>
    data_open ser A' (x\<lparr>rs_index := (rs_index x)(key r \<mapsto> int (length (file_of bss))), rs_data_storage := st'\<rparr>)
      (bss @ [block_of ser (reserved_size (length (record_bytes ser r))) r]) (pos(key r := length bss)) \<and>
    same_stream (rs_data_storage x) st' \<and> st_room (rs_data_storage x) \<le> st_room st' + (1024 * 1024 + 16)"
proof -
  let ?n = "length (record_bytes ser r)" and ?st = "rs_data_storage x"
  let ?m = "reserved_size ?n" let ?b = "block_of ser ?m r"
  have n: "?n \<le> ?m" "0 < ?m" using record_bytes_pos [of r] by (auto simp: reserved_size_def)
  have A': "A' = A(key r \<mapsto> (?m, r))" "?m \<le> 1024 * 1024" using assms(2,3) by (auto simp: put_def Let_def split: if_splits)
  have b: "length ?b = ?m" using n by simp
  then have good: "good_block ?b" using n A' by (simp only: good_block_length)
  note pad = padded_record [of ser r ?m, OF fresh n(1)]
  have st: "writing_at (length (file_of bss)) ?st" "contents ?st = file_of bss" "placed ser A (rs_index x) bss pos"
    using assms(1) by (simp_all add: data_open_def)
  obtain d' st' where w: "write_data_block (pad_stream ?m (serialize_record ser r)) 0 ?st =
      Some ((True, 0), int (length (file_of bss)), d', st')"
    "contents st' = put_at (contents ?st) (length (file_of bss)) (enc_block ?b)"
    "writing_at (length (file_of bss) + (16 + ?m)) st'" "st_room st' = st_room ?st - (16 + ?m)" "same_stream ?st st'"
    using write_data_block_put [OF st(1) pad(1), of 0] pad(2) b n A' assms(4) good by (auto simp: good_block_def)
  have c: "contents st' = file_of (bss @ [?b])" using w(2) st(2) by (simp add: put_at_end)
  moreover from this w(3) b have "writing_at (length (contents st')) st'" by simp
  moreover have "placed ser A' ((rs_index x)(key r \<mapsto> int (length (file_of bss)))) (bss @ [?b]) (pos(key r := length bss))"
    unfolding A'(1) by (rule placed_add [where i = "key r", OF st(3) assms(2) good n(1)])
  ultimately show ?thesis
    using w(1,4,5) A'(2) by (intro exI [of _ st']) (simp add: add_record_def Let_def serialize_record_pending fresh data_open_def)
qed

lemma update_record_works:
  assumes "data_open ser A x bss pos" and "A (key r) = Some (room, r0)" and "put ser key r A = Some A'"
    and "1024 * 1024 + 16 \<le> st_room (rs_data_storage x)" and "open_reading (rs_data_storage x)"
  shows "\<exists>st'. update_record_at ser key r (int (offset_of bss (pos (key r)))) x = Some (None, x\<lparr>rs_data_storage := st'\<rparr>) \<and>
    data_open ser A' (x\<lparr>rs_data_storage := st'\<rparr>) (bss[pos (key r) := block_of ser room r]) pos \<and>
    same_stream (rs_data_storage x) st' \<and> st_room (rs_data_storage x) \<le> st_room st' + (1024 * 1024 + 16)"
proof -
  let ?st = "rs_data_storage x" and ?i = "pos (key r)" and ?b = "block_of ser room r"
  let ?p = "offset_of bss ?i"
  have st: "writing_at (length (file_of bss)) ?st" "contents ?st = file_of bss" "placed ser A (rs_index x) bss pos"
    using assms(1) by (simp_all add: data_open_def)
  note here = placed_get [OF st(3) assms(2)]
  have A': "A' = A(key r \<mapsto> (room, r))" "length (record_bytes ser r) \<le> room"
    using assms(2,3) by (auto simp: put_def Let_def split: if_splits)
  have old: "length (bss ! ?i) = room" "good_block (bss ! ?i)" "?i < length bss" using here by simp_all
  then have new: "length ?b = room" "good_block ?b" using A'(2) by (auto simp: good_block_length simp del: length_greater_0_conv)
  have le: "?p \<le> length (contents ?st)" using offset_of_le [of ?i bss] old(3) st(2) by simp
  obtain st1 d1 where r: "read_data_block (int ?p) ?st empty_stream = Some (True, st1, d1)" "contents st1 = contents ?st"
    "same_stream ?st st1" "st_room st1 = st_room ?st" "writing_at (?p + (16 + room)) st1" "wf_stream d1" "pending d1 = bss ! ?i"
    using read_at [OF assms(5) _ old(2), of ?p "file_of (drop (Suc ?i) bss)" empty_stream "length (file_of bss)"]
      drop_offset [OF old(3)] st(1,2) old(1) by auto
  have av: "available d1 = int room" using r(6,7) old(1) by (simp add: available_pending)
  note pad = padded_record [of ser r room, OF fresh A'(2)]
  obtain d2 st2 where w: "write_data_block_at (pad_stream room (serialize_record ser r)) ?p st1 = Some ((True, 0), d2, st2)"
    "contents st2 = put_at (contents st1) ?p (enc_block ?b)" "writing_at (length (contents st2)) st2"
    "st_room st2 = st_room st1 - (16 + room)" "same_stream st1 st2"
    using write_data_block_at_put [OF r(5) _ pad(1), of ?p] pad(2) new r(2,4) le assms(4) by (auto simp: good_block_def)
  have "contents st2 = file_of (bss[?i := ?b])"
    using w(2) r(2) st(2) file_of_update [OF old(3), of ?b] old(1) new(1) by simp
  moreover have "placed ser A' (rs_index x) (bss[?i := ?b]) pos"
    unfolding A'(1) by (rule placed_update [OF st(3) assms(2) A'(2)])
  moreover have "room \<le> 1024 * 1024" using new by (simp add: good_block_def)
  ultimately show ?thesis
    using r(1,4) w(1,3,4) av A'(2) same_stream_trans [OF r(3) w(5)]
    by (intro exI [of _ st2]) (simp add: update_record_at_def serialize_record_pending fresh write_at_def data_open_def)
qed

end

subsection \<open>Inserting\<close>

lemma map_add_upd_left: "k \<notin> dom g \<Longrightarrow> f(k \<mapsto> v) ++ g = f ++ g(k \<mapsto> v)"
  by (auto simp: fun_eq_iff map_add_def split: option.split)

lemma extends_nil [simp]: "extends [] index index"
  by (simp add: extends_def index_map_def)

lemma extends_cons:
  assumes "extends as (index(k \<mapsto> off)) index'" and "k \<notin> dom index"
  shows "extends (\<lparr>ir_offset = off, ir_msg_id = k\<rparr> # as) index index'"
proof -
  have k: "k \<notin> ir_msg_id ` set as" using assms(1) by (auto simp: extends_def)
  have "index' = index(k \<mapsto> off) ++ index_map as" using assms(1) by (simp only: extends_def)
  also from k have "\<dots> = index ++ (index_map as)(k \<mapsto> off)"
    by (intro map_add_upd_left) (simp add: dom_index_map)
  also have "(index_map as)(k \<mapsto> off) = index_map (\<lparr>ir_offset = off, ir_msg_id = k\<rparr> # as)" by (simp add: index_map_def)
  finally show ?thesis using assms k by (simp add: extends_def)
qed

context stored_record
begin

lemma put_new: "put ser key r A = Some A' \<Longrightarrow> list_all good (r # rs) \<Longrightarrow> key r' \<noteq> key r \<Longrightarrow> A' (key r') = A (key r')"
  by (auto simp: put_def Let_def split: option.splits if_splits)

lemma insert_loop_works:
  assumes "data_open ser A x bss pos" and "put_all ser key rs A = Some A'" and "list_all good rs"
    and "length rs * (1024 * 1024 + 16) \<le> st_room (rs_data_storage x)"
    and "length (file_of bss) + length rs * (1024 * 1024 + 16) < 2 ^ 63"
    and "distinct (map key rs)" and "open_reading (rs_data_storage x) \<or> (\<forall>r\<in>set rs. A (key r) = None)"
  shows "\<exists>added index' st' bss' pos'. insert_loop ser key rs x = Some (added, x\<lparr>rs_index := index', rs_data_storage := st'\<rparr>) \<and>
    data_open ser A' (x\<lparr>rs_index := index', rs_data_storage := st'\<rparr>) bss' pos' \<and> extends added (rs_index x) index' \<and>
    list_all good_index added \<and> length added \<le> length rs \<and> same_stream (rs_data_storage x) st'"
  using assms
proof (induction rs arbitrary: A x bss pos)
  case Nil
  then show ?case
    by (intro exI [of _ "[]"] exI [of _ "rs_index x"] exI [of _ "rs_data_storage x"] exI [of _ bss] exI [of _ pos])
      (simp add: same_stream_def)
next
  case (Cons r rs)
  obtain A1 where A1: "put ser key r A = Some A1" "put_all ser key rs A1 = Some A'"
    using Cons.prems(2) by (auto simp: bind_eq_Some_conv)
  have room: "1024 * 1024 + 16 \<le> st_room (rs_data_storage x)" using Cons.prems(4) by simp
  have later: "\<forall>r'\<in>set rs. A1 (key r') = A (key r')"
  proof
    fix r' assume "r' \<in> set rs"
    then have "key r' \<noteq> key r" using Cons.prems(6) by (force simp: image_iff)
    with put_new [OF A1(1) Cons.prems(3)] show "A1 (key r') = A (key r')" by blast
  qed
  have p: "placed ser A (rs_index x) bss pos" using Cons.prems(1) by (simp add: data_open_def)
  have w: "writing_at (length (file_of bss)) (rs_data_storage x)" using Cons.prems(1) by (simp add: data_open_def)
  show ?case
  proof (cases "A (key r)")
    case None
    have i: "rs_index x (key r) = None" using p None by (auto simp: placed_def domIff)
    let ?off = "int (length (file_of bss))" let ?b = "block_of ser (reserved_size (length (record_bytes ser r))) r"
    obtain st1 where a: "add_record ser key r x = Some (\<lparr>ir_offset = ?off, ir_msg_id = key r\<rparr>,
        x\<lparr>rs_index := (rs_index x)(key r \<mapsto> ?off), rs_data_storage := st1\<rparr>)"
      "data_open ser A1 (x\<lparr>rs_index := (rs_index x)(key r \<mapsto> ?off), rs_data_storage := st1\<rparr>) (bss @ [?b]) (pos(key r := length bss))"
      "same_stream (rs_data_storage x) st1" "st_room (rs_data_storage x) \<le> st_room st1 + (1024 * 1024 + 16)"
      using add_record_works [OF Cons.prems(1) None A1(1) room] by blast
    let ?x = "x\<lparr>rs_index := (rs_index x)(key r \<mapsto> ?off), rs_data_storage := st1\<rparr>"
    have "good_block ?b" using a(2) by (simp add: data_open_def placed_def)
    then have b: "length (file_of (bss @ [?b])) \<le> length (file_of bss) + (1024 * 1024 + 16)" by (simp add: good_block_def)
    have w1: "writing_at (length (file_of (bss @ [?b]))) st1" using a(2) by (simp add: data_open_def)
    have "open_reading st1 \<or> (\<forall>r\<in>set rs. A1 (key r) = None)"
      using Cons.prems(7) same_stream_reading [OF a(3) _ w1] later by auto
    moreover have "length rs * (1024 * 1024 + 16) \<le> st_room st1" using Cons.prems(4) a(4) by simp
    moreover have "length (file_of (bss @ [?b])) + length rs * (1024 * 1024 + 16) < 2 ^ 63" using Cons.prems(5) b by simp
    ultimately have "\<exists>as index' st' bss' pos'. insert_loop ser key rs ?x = Some (as, ?x\<lparr>rs_index := index', rs_data_storage := st'\<rparr>) \<and>
        data_open ser A' (?x\<lparr>rs_index := index', rs_data_storage := st'\<rparr>) bss' pos' \<and> extends as (rs_index ?x) index' \<and>
        list_all good_index as \<and> length as \<le> length rs \<and> same_stream (rs_data_storage ?x) st'"
      by - (rule Cons.IH [OF a(2) A1(2)], use Cons.prems(3,6) in simp_all)
    then obtain as index' st' bss' pos' where i1: "insert_loop ser key rs ?x = Some (as, ?x\<lparr>rs_index := index', rs_data_storage := st'\<rparr>)"
      "data_open ser A' (?x\<lparr>rs_index := index', rs_data_storage := st'\<rparr>) bss' pos'" "extends as (rs_index ?x) index'"
      "list_all good_index as" "length as \<le> length rs" "same_stream (rs_data_storage ?x) st'" by blast
    have "i64_range ?off" using Cons.prems(5) by (simp add: i64_range_def)
    then have "good_index \<lparr>ir_offset = ?off, ir_msg_id = key r\<rparr>"
      using key_range Cons.prems(3) by (simp add: good_index_def)
    moreover have "extends (\<lparr>ir_offset = ?off, ir_msg_id = key r\<rparr> # as) (rs_index x) index'"
      by (rule extends_cons) (use i1(3) i in \<open>simp_all add: domIff del: fun_upd_apply\<close>)
    ultimately show ?thesis
      using i a(1) i1 same_stream_trans [OF a(3), of st']
      by (intro exI [of _ "\<lparr>ir_offset = ?off, ir_msg_id = key r\<rparr> # as"] exI [of _ index'] exI [of _ st'] exI [of _ bss'] exI [of _ pos'])
        simp
  next
    case (Some y)
    then obtain room r0 where y: "A (key r) = Some (room, r0)" by (cases y) auto
    have rd: "open_reading (rs_data_storage x)" using Cons.prems(7) y by auto
    note here = placed_get [OF p y]
    obtain st1 where a: "update_record_at ser key r (int (offset_of bss (pos (key r)))) x = Some (None, x\<lparr>rs_data_storage := st1\<rparr>)"
      "data_open ser A1 (x\<lparr>rs_data_storage := st1\<rparr>) (bss[pos (key r) := block_of ser room r]) pos"
      "same_stream (rs_data_storage x) st1" "st_room (rs_data_storage x) \<le> st_room st1 + (1024 * 1024 + 16)"
      using update_record_works [OF Cons.prems(1) y A1(1) _ rd] Cons.prems(4) by auto
    let ?x = "x\<lparr>rs_data_storage := st1\<rparr>"
    have "length (record_bytes ser r) \<le> room" using A1(1) y by (auto simp: put_def Let_def split: if_splits)
    then have "length (file_of (bss[pos (key r) := block_of ser room r])) = length (file_of bss)"
      using here by (metis length_block_of length_list_update offset_of_length offset_of_update)
    moreover have "open_reading st1"
      using same_stream_reading [OF a(3) rd] a(2) by (auto simp: data_open_def)
    moreover have "length rs * (1024 * 1024 + 16) \<le> st_room st1" using Cons.prems(4) a(4) by simp
    ultimately have "\<exists>as index' st' bss' pos'. insert_loop ser key rs ?x = Some (as, ?x\<lparr>rs_index := index', rs_data_storage := st'\<rparr>) \<and>
        data_open ser A' (?x\<lparr>rs_index := index', rs_data_storage := st'\<rparr>) bss' pos' \<and> extends as (rs_index ?x) index' \<and>
        list_all good_index as \<and> length as \<le> length rs \<and> same_stream (rs_data_storage ?x) st'"
      by - (rule Cons.IH [OF a(2) A1(2)], use Cons.prems(3,5,6) in simp_all)
    then obtain as index' st' bss' pos' where i1: "insert_loop ser key rs ?x = Some (as, ?x\<lparr>rs_index := index', rs_data_storage := st'\<rparr>)"
      "data_open ser A' (?x\<lparr>rs_index := index', rs_data_storage := st'\<rparr>) bss' pos'" "extends as (rs_index ?x) index'"
      "list_all good_index as" "length as \<le> length rs" "same_stream (rs_data_storage ?x) st'" by blast
    have "insert_loop ser key (r # rs) x = Some (as, x\<lparr>rs_index := index', rs_data_storage := st'\<rparr>)"
      using here a(1) i1(1) by simp
    then show ?thesis
      using i1 same_stream_trans [OF a(3), of st']
      by (intro exI [of _ as] exI [of _ index'] exI [of _ st'] exI [of _ bss'] exI [of _ pos']) simp
  qed
qed

end

subsection \<open>The index is saved\<close>

lemma index_map_append: "index_map (rs @ as) = index_map as ++ index_map rs"
  by (simp add: index_map_def map_of_append)

lemma index_map_disjoint: "ir_msg_id ` set as \<inter> dom (index_map rs) = {} \<Longrightarrow> index_map (rs @ as) = index_map rs ++ index_map as"
  unfolding index_map_append by (rule map_add_comm) (auto simp: dom_index_map)

lemma save_loop_works:
  assumes "writing_at (length (file_of (map index_bytes rs))) st" and "contents st = file_of (map index_bytes rs)"
    and "length as * 48 \<le> st_room st" and "distinct (map ir_msg_id as)" and "ir_msg_id ` set as \<inter> ir_msg_id ` set rs = {}"
    and "wf_stream d" and "pending d = []"
  shows "\<exists>st'. save_loop as d (map_of (starts 0 rs)) st = Some (map_of (starts 0 (rs @ as)), st') \<and>
    contents st' = file_of (map index_bytes (rs @ as)) \<and> same_stream st st'"
  using assms
proof (induction as arbitrary: rs st d)
  case Nil
  then show ?case by (simp add: same_stream_def)
next
  case (Cons a as)
  have len: "length (file_of (map index_bytes rs)) = 48 * length rs" for rs by (induction rs) simp_all
  have new: "map_of (starts 0 rs) (ir_msg_id a) = None"
    using Cons.prems(5) dom_starts [of 0 rs] by (auto simp: domIff)
  note s = index_serialize_pending [OF Cons.prems(6,7), of a]
  have b: "index_bytes a \<noteq> []" using good_index_block [of a] by (simp add: good_block_def del: good_index_block)
  obtain d1 st1 where w: "write_data_block (index_serialize a d) 0 st =
      Some ((True, 0), int (length (file_of (map index_bytes rs))), d1, st1)"
    "contents st1 = put_at (contents st) (length (file_of (map index_bytes rs))) (enc_block (index_bytes a))"
    "writing_at (length (file_of (map index_bytes rs)) + (16 + 32)) st1" "st_room st1 = st_room st - (16 + 32)" "same_stream st st1"
    using write_data_block_put [OF Cons.prems(1), of "index_serialize a d" 0] s b Cons.prems(3) by auto
  have c: "contents st1 = file_of (map index_bytes (rs @ [a]))" using w(2) Cons.prems(2) by (simp add: put_at_end)
  have o: "(map_of (starts 0 rs))(ir_msg_id a \<mapsto> int (length (file_of (map index_bytes rs)))) = map_of (starts 0 (rs @ [a]))"
    using new by (auto simp: starts_append len map_of_append fun_eq_iff map_add_def split: option.split)
  have "\<exists>st'. save_loop as (reset d1) (map_of (starts 0 (rs @ [a]))) st1 = Some (map_of (starts 0 ((rs @ [a]) @ as)), st') \<and>
      contents st' = file_of (map index_bytes ((rs @ [a]) @ as)) \<and> same_stream st1 st'"
  proof (rule Cons.IH [OF _ c])
    show "writing_at (length (file_of (map index_bytes (rs @ [a])))) st1" using w(3) by (simp add: add.commute)
  qed (use Cons.prems(3-5) w(4) in auto)
  then obtain st' where "save_loop as (reset d1) (map_of (starts 0 (rs @ [a]))) st1 = Some (map_of (starts 0 (rs @ a # as)), st')"
    "contents st' = file_of (map index_bytes (rs @ a # as))" "same_stream st1 st'" by auto
  with new w(1) o same_stream_trans [OF w(5)] show ?case by auto
qed

subsection \<open>A store and its files\<close>

definition store_ok :: "('r \<Rightarrow> tlv list) \<Rightarrow> ('r \<Rightarrow> bool) \<Rightarrow> 'r shelf \<Rightarrow> record_store \<Rightarrow> bool" where
  "store_ok ser good A x \<longleftrightarrow>
     (\<exists>bss pos rs. can_use_file (rs_index_storage x) \<and> can_use_file (rs_data_storage x) \<and>
        contents (rs_data_storage x) = file_of bss \<and> contents (rs_index_storage x) = file_of (map index_bytes rs) \<and>
        list_all good_index rs \<and> distinct (map ir_msg_id rs) \<and> placed ser A (index_map rs) bss pos \<and>
        rs_index x \<subseteq>\<^sub>m index_map rs \<and> rs_offsets x \<subseteq>\<^sub>m map_of (starts 0 rs) \<and>
        (rs_loaded x \<longrightarrow> rs_index x = index_map rs \<and> rs_offsets x = map_of (starts 0 rs)) \<and>
        (\<forall>i room r. A i = Some (room, r) \<longrightarrow> good r))"

text \<open>A new store made from the files of another one.\<close>

definition reopened :: "record_store \<Rightarrow> record_store" where
  "reopened x = mk_record_store (rs_index_storage x) (rs_data_storage x)"

lemma store_ok_reopened: "store_ok ser good A x \<Longrightarrow> store_ok ser good A (reopened x)"
  by (force simp: store_ok_def reopened_def mk_record_store_def)

lemma load_if_needed_works:
  assumes "store_ok ser good A x"
  shows "\<exists>x' bss pos rs. load_if_needed x = Some x' \<and> can_use_file (rs_index_storage x') \<and> can_use_file (rs_data_storage x') \<and>
    contents (rs_data_storage x') = file_of bss \<and> contents (rs_index_storage x') = file_of (map index_bytes rs) \<and>
    list_all good_index rs \<and> distinct (map ir_msg_id rs) \<and> placed ser A (index_map rs) bss pos \<and>
    rs_index x' = index_map rs \<and> rs_offsets x' = map_of (starts 0 rs) \<and> rs_data_storage x' = rs_data_storage x \<and>
    st_room (rs_index_storage x') = st_room (rs_index_storage x) \<and> store_ok ser good A x'"
proof -
  obtain bss pos rs where o: "can_use_file (rs_index_storage x)" "can_use_file (rs_data_storage x)"
    "contents (rs_data_storage x) = file_of bss" "contents (rs_index_storage x) = file_of (map index_bytes rs)"
    "list_all good_index rs" "distinct (map ir_msg_id rs)" "placed ser A (index_map rs) bss pos"
    "rs_index x \<subseteq>\<^sub>m index_map rs" "rs_offsets x \<subseteq>\<^sub>m map_of (starts 0 rs)"
    "rs_loaded x \<longrightarrow> rs_index x = index_map rs \<and> rs_offsets x = map_of (starts 0 rs)"
    "\<forall>i room r. A i = Some (room, r) \<longrightarrow> good r"
    using assms unfolding store_ok_def by blast
  show ?thesis
  proof (cases "rs_loaded x")
    case True
    then show ?thesis using o assms
      by (intro exI [of _ x] exI [of _ bss] exI [of _ pos] exI [of _ rs]) (simp add: load_if_needed_def)
  next
    case False
    obtain st loaded where l: "load_index x = Some (x\<lparr>rs_index := index_map rs, rs_offsets := map_of (starts 0 rs),
        rs_index_storage := st, rs_loaded := loaded\<rparr>)"
      "can_use_file st" "contents st = contents (rs_index_storage x)" "st_room st = st_room (rs_index_storage x)"
      using load_index_works [OF o(1,4,5,6,8,9)] by blast
    let ?x = "x\<lparr>rs_index := index_map rs, rs_offsets := map_of (starts 0 rs), rs_index_storage := st, rs_loaded := loaded\<rparr>"
    have "store_ok ser good A ?x"
      unfolding store_ok_def using o l by (intro exI [of _ bss] exI [of _ pos] exI [of _ rs]) simp
    then show ?thesis using o l False
      by (intro exI [of _ ?x] exI [of _ bss] exI [of _ pos] exI [of _ rs]) (simp add: load_if_needed_def)
  qed
qed


subsection \<open>The store refines the map\<close>

text \<open>What reading some ids gives: the stored records in the order of the ids, and the ids without one.\<close>

definition found :: "('r \<Rightarrow> 's) \<Rightarrow> 'r shelf \<Rightarrow> int list \<Rightarrow> 's list" where
  "found f A ids = map (\<lambda>i. f (snd (the (A i)))) (filter (\<lambda>i. A i \<noteq> None) ids)"

definition missing :: "'r shelf \<Rightarrow> int list \<Rightarrow> int list" where
  "missing A ids = filter (\<lambda>i. A i = None) ids"

text \<open>The device has room for the batch, and the files stay below the largest offset.\<close>

definition roomy :: "nat \<Rightarrow> record_store \<Rightarrow> bool" where
  "roomy n x \<longleftrightarrow> n * (1024 * 1024 + 16) \<le> st_room (rs_data_storage x) \<and> n * 48 \<le> st_room (rs_index_storage x) \<and>
     length (contents (rs_data_storage x)) + n * (1024 * 1024 + 16) < 2 ^ 63"

context stored_record
begin

lemma put_all_good:
  "put_all ser key rs A = Some A' \<Longrightarrow> list_all good rs \<Longrightarrow> \<forall>i room r. A i = Some (room, r) \<longrightarrow> good r \<Longrightarrow>
    \<forall>i room r. A' i = Some (room, r) \<longrightarrow> good r"
proof (induction rs arbitrary: A)
  case (Cons r rs)
  obtain A1 where A1: "put ser key r A = Some A1" "put_all ser key rs A1 = Some A'"
    using Cons.prems(1) by (auto simp: bind_eq_Some_conv)
  have "\<forall>i room r. A1 i = Some (room, r) \<longrightarrow> good r"
    using A1(1) Cons.prems(2,3) by (auto simp: put_def Let_def split: option.splits if_splits)
  with Cons.IH [OF A1(2)] Cons.prems(2) show ?case by simp
qed simp

lemma insert_refines:
  assumes "store_ok ser good A x" and "put_all ser key rs A = Some A'" and "list_all good rs" and "distinct (map key rs)"
    and "roomy (length rs) x"
  shows "\<exists>x'. insert_records ser key rs x = Some x' \<and> store_ok ser good A' x'"
proof -
  obtain y bss pos recs where y: "load_if_needed x = Some y" "can_use_file (rs_index_storage y)"
    "can_use_file (rs_data_storage y)" "contents (rs_data_storage y) = file_of bss"
    "contents (rs_index_storage y) = file_of (map index_bytes recs)" "list_all good_index recs"
    "distinct (map ir_msg_id recs)" "placed ser A (index_map recs) bss pos" "rs_index y = index_map recs"
    "rs_offsets y = map_of (starts 0 recs)" "rs_data_storage y = rs_data_storage x"
    "st_room (rs_index_storage y) = st_room (rs_index_storage x)" "store_ok ser good A y"
    using load_if_needed_works [OF assms(1)] by blast
  obtain st1 where o: "storage_open (update_mode (rs_data_storage y)) (rs_data_storage y) = (True, st1)"
    "writing_at (length (contents st1)) st1" "contents st1 = contents (rs_data_storage y)"
    "st_room st1 = st_room (rs_data_storage y)" "can_use_file (storage_close st1)"
    "st_file (rs_data_storage y) \<noteq> None \<longrightarrow> open_reading st1"
    using open_update [OF y(3)] by blast
  have empty: "A i = None" if "st_file (rs_data_storage y) = None" for i
  proof -
    have "bss = []" using that y(4) by (cases bss) (simp_all add: contents_def)
    with y(8) show ?thesis by (cases "A i") (auto dest: placed_get)
  qed
  let ?y = "y\<lparr>rs_data_storage := st1\<rparr>"
  have d: "data_open ser A ?y bss pos" using o y(4,8,9) by (simp add: data_open_def)
  have "open_reading (rs_data_storage ?y) \<or> (\<forall>r\<in>set rs. A (key r) = None)" using o(6) empty by auto
  then obtain added index' st2 bss' pos' where l: "insert_loop ser key rs ?y =
      Some (added, ?y\<lparr>rs_index := index', rs_data_storage := st2\<rparr>)"
    "data_open ser A' (?y\<lparr>rs_index := index', rs_data_storage := st2\<rparr>) bss' pos'" "extends added (rs_index ?y) index'"
    "list_all good_index added" "length added \<le> length rs" "same_stream (rs_data_storage ?y) st2"
    using insert_loop_works [OF d assms(2,3) _ _ assms(4)] assms(5) o(3,4) y(4,11) by (auto simp: roomy_def)
  let ?z = "?y\<lparr>rs_index := index', rs_data_storage := st2\<rparr>"
  have disj: "ir_msg_id ` set added \<inter> ir_msg_id ` set recs = {}" "distinct (map ir_msg_id added)"
    "index' = index_map recs ++ index_map added"
    using l(3) y(9) by (auto simp: extends_def dom_index_map)
  then have e: "index' = index_map (recs @ added)" "ir_msg_id ` set added \<inter> ir_msg_id ` set recs = {}"
    "distinct (map ir_msg_id added)"
    by (simp_all only: index_map_disjoint dom_index_map)
  obtain st3 where s: "storage_open (update_mode (rs_index_storage y)) (rs_index_storage y) = (True, st3)"
    "writing_at (length (contents st3)) st3" "contents st3 = contents (rs_index_storage y)"
    "st_room st3 = st_room (rs_index_storage y)" "can_use_file (storage_close st3)"
    using open_update [OF y(2)] by blast
  have "length added * 48 \<le> st_room st3"
    using mult_le_mono1 [OF l(5), of 48] assms(5) s(4) y(12) by (simp add: roomy_def)
  then obtain st4 where v: "save_loop added empty_stream (map_of (starts 0 recs)) st3 = Some (map_of (starts 0 (recs @ added)), st4)"
    "contents st4 = file_of (map index_bytes (recs @ added))" "same_stream st3 st4"
    using save_loop_works [of recs st3 added empty_stream] s(2,3) y(5) e by auto
  let ?r = "?z\<lparr>rs_offsets := map_of (starts 0 (recs @ added)), rs_index_storage := storage_close st4,
      rs_data_storage := storage_close st2\<rparr>"
  have "insert_records ser key rs x = Some ?r"
    using y(1,10) o(1) l(1) s(1) v(1) by (simp add: insert_records_def save_index_records_def)
  moreover have "store_ok ser good A' ?r"
    unfolding store_ok_def
  proof (intro exI [of _ bss'] exI [of _ pos'] exI [of _ "recs @ added"] conjI)
    show "can_use_file (rs_index_storage ?r)" using same_stream_can_use [OF v(3) s(5)] by simp
    show "can_use_file (rs_data_storage ?r)" using same_stream_can_use [OF l(6)] o(5) by simp
    show "contents (rs_data_storage ?r) = file_of bss'" using l(2) by (simp add: data_open_def storage_close_def)
    show "contents (rs_index_storage ?r) = file_of (map index_bytes (recs @ added))" using v(2) by (simp add: storage_close_def)
    show "placed ser A' (index_map (recs @ added)) bss' pos'" using l(2) e(1) by (simp add: data_open_def)
    show "\<forall>i room r. A' i = Some (room, r) \<longrightarrow> good r"
      using put_all_good [OF assms(2,3)] assms(1) unfolding store_ok_def by blast
  qed (use y(6,7) l(4) e in auto)
  ultimately show ?thesis by blast
qed

lemma read_record_block:
  assumes "wf_stream d" and "pending d = block_of ser room r" and "good r" and "length (record_bytes ser r) \<le> room"
    and "room \<le> 1024 * 1024"
  shows "\<exists>d'. read_record unser d = Some (Some (stored r), d') \<and> wf_stream d' \<and> pending d' = []"
proof -
  have n: "length (record_bytes ser r) < 2 ^ 32" using assms(4,5) by simp
  then have "list_all good_field (map tlv_view (ser r))" by (intro fits_good) (simp add: record_bytes_def)
  then obtain d' where "pack_unserialize empty_pack d =
      Some (True, mk_pack (map tlv_view (ser r) @ padding (room - length (record_bytes ser r))), d')" "wf_stream d'" "pending d' = []"
    using pack_unserialize_padded [OF assms(1)] assms(2) by (auto simp: block_of_def record_bytes_def)
  with reads_back [OF assms(3) n] show ?thesis by (simp add: read_record_def)
qed

lemma get_loop_works:
  assumes "placed ser A index bss pos" and "\<forall>i room r. A i = Some (room, r) \<longrightarrow> good r"
    and "open_reading st" and "contents st = file_of bss" and "wf_stream d" and "pending d = []"
  shows "\<exists>st'. get_loop unser index ids st d = Some (found stored A ids, missing A ids, st') \<and>
    contents st' = contents st \<and> same_stream st st'"
  using assms(3-)
proof (induction ids arbitrary: st d)
  case Nil
  then show ?case by (simp add: found_def missing_def same_stream_def)
next
  case (Cons i ids)
  show ?case
  proof (cases "A i")
    case None
    then have "index i = None" using assms(1) by (auto simp: placed_def domIff)
    with None Cons.IH [OF Cons.prems] show ?thesis by (auto simp: found_def missing_def)
  next
    case (Some y)
    then obtain room r where y: "A i = Some (room, r)" by (cases y) auto
    note here = placed_get [OF assms(1) y]
    obtain st1 d1 where r: "read_data_block (int (offset_of bss (pos i))) st d = Some (True, st1, d1)" "open_reading st1"
      "contents st1 = contents st" "same_stream st st1" "wf_stream d1" "pending d1 = block_of ser room r"
      using read_at [OF Cons.prems(1) _ _ Cons.prems(3), of "offset_of bss (pos i)" "bss ! pos i" "file_of (drop (Suc (pos i)) bss)"]
        drop_offset [of "pos i" bss] Cons.prems(2,4) here by fastforce
    have "room \<le> 1024 * 1024" using here by (auto simp: good_block_length simp del: length_greater_0_conv)
    then obtain d2 where d2: "read_record unser d1 = Some (Some (stored r), d2)" "wf_stream d2" "pending d2 = []"
      using read_record_block [OF r(5,6)] here assms(2) y by blast
    obtain st' where "get_loop unser index ids st1 d2 = Some (found stored A ids, missing A ids, st')"
      "contents st' = contents st1" "same_stream st1 st'"
      using Cons.IH [OF r(2) _ d2(2,3)] r(3) Cons.prems(2) by auto
    then show ?thesis
      using here r(1,3) d2(1) y same_stream_trans [OF r(4)] by (auto simp: found_def missing_def)
  qed
qed

lemma get_refines:
  assumes "store_ok ser good A x"
  shows "\<exists>x'. get_records unser ids x = Some (found stored A ids, missing A ids, x') \<and> store_ok ser good A x'"
proof -
  obtain y bss pos recs where y: "load_if_needed x = Some y" "can_use_file (rs_data_storage y)"
    "contents (rs_data_storage y) = file_of bss" "placed ser A (index_map recs) bss pos" "rs_index y = index_map recs"
    "store_ok ser good A y"
    using load_if_needed_works [OF assms] by blast
  have good: "\<forall>i room r. A i = Some (room, r) \<longrightarrow> good r" using assms unfolding store_ok_def by blast
  have same: "store_ok ser good A (y\<lparr>rs_data_storage := st\<rparr>)"
    if "can_use_file st" "contents st = contents (rs_data_storage y)" for st
    using y(6) that unfolding store_ok_def by simp
  show ?thesis
  proof (cases "st_file (rs_data_storage y) = None")
    case True
    then have "bss = []" using y(3) by (cases bss) (simp_all add: contents_def)
    then have A: "A = Map.empty" using y(4) by (intro ext) (metis length_0_conv not_less0 option.exhaust placed_get prod.exhaust)
    let ?st = "(rs_data_storage y)\<lparr>st_last_error := file_not_exist\<rparr>"
    have "storage_open (mode_zero\<lparr>sm_read := True\<rparr>) (rs_data_storage y) = (False, ?st)"
      using True y(2) by (simp add: storage_open_def mode_zero_def can_use_file_def Let_def)
    then have "get_records unser ids x = Some (found stored A ids, missing A ids, y\<lparr>rs_data_storage := ?st\<rparr>)"
      using y(1) by (simp add: get_records_def A found_def missing_def)
    moreover have "store_ok ser good A (y\<lparr>rs_data_storage := ?st\<rparr>)"
      using y(2) by (intro same) (simp_all add: can_use_file_def)
    ultimately show ?thesis by blast
  next
    case False
    obtain st1 where o: "storage_open (mode_zero\<lparr>sm_read := True\<rparr>) (rs_data_storage y) = (True, st1)" "open_reading st1"
      using open_read [OF y(2) False] by blast
    have c: "contents st1 = contents (rs_data_storage y)" "can_use_file (storage_close st1)"
      using o(1) y(2) by (auto simp: storage_open_def can_use_file_def fstream_open_def filebuf_mode_def mode_zero_def
          Let_def storage_close_def contents_def split: if_splits option.splits)
    obtain st2 where g: "get_loop unser (index_map recs) ids st1 empty_stream = Some (found stored A ids, missing A ids, st2)"
      "contents st2 = contents st1" "same_stream st1 st2"
      using get_loop_works [OF y(4) good o(2), of empty_stream ids] c(1) y(3) by auto
    have "store_ok ser good A (y\<lparr>rs_data_storage := storage_close st2\<rparr>)"
      using g c same_stream_can_use [OF g(3) c(2)] by (intro same) (simp_all add: storage_close_def)
    moreover have "get_records unser ids x = Some (found stored A ids, missing A ids, y\<lparr>rs_data_storage := storage_close st2\<rparr>)"
      using y(1,5) o(1) g(1) by (simp add: get_records_def)
    ultimately show ?thesis by blast
  qed
qed

text \<open>
  What happens to a record that grew: it is read first, which leaves the stream behind its block, and the
  larger block is then written there, over the block of the next record.
\<close>

lemma grown_overwrites:
  assumes "store_ok ser good A x" and "rs_loaded x" and "A (key r) = Some (room, r0)" and "room < length (record_bytes ser r)"
    and "reserved_size (length (record_bytes ser r)) \<le> 1024 * 1024" and "good r" and "roomy 1 x"
    and "rs_index x (key r) = Some off" and "rs_index x j = Some (off + 16 + int room)"
  shows "\<exists>x' x''. insert_records ser key [r] x = Some x' \<and> get_records unser [j] x' = Some ([stored r], [], x'')"
proof -
  let ?n = "length (record_bytes ser r)" let ?m = "reserved_size ?n" let ?b = "block_of ser ?m r"
  obtain bss pos rs where o: "can_use_file (rs_index_storage x)" "can_use_file (rs_data_storage x)"
    "contents (rs_data_storage x) = file_of bss" "contents (rs_index_storage x) = file_of (map index_bytes rs)"
    "placed ser A (index_map rs) bss pos" "rs_index x = index_map rs" "rs_offsets x = map_of (starts 0 rs)"
    using assms(1) unfolding store_ok_def by (auto simp: assms(2))
  note p = o(5) [folded o(6)]
  let ?i = "pos (key r)"
  note here = placed_get [OF p assms(3)]
  then have off: "off = int (offset_of bss ?i)" and i: "?i < length bss" "length (bss ! ?i) = room" "good_block (bss ! ?i)"
    using assms(8) by auto
  let ?p = "offset_of bss ?i" let ?q = "?p + (16 + room)"
  have q: "?q \<le> length (file_of bss)" using offset_of_le [of "Suc ?i" bss] i by (simp add: offset_of_Suc)
  have there: "st_file (rs_data_storage x) \<noteq> None" using i(1) by (intro file_there [OF o(3)]) (cases bss; simp)
  obtain st1 where d: "storage_open (update_mode (rs_data_storage x)) (rs_data_storage x) = (True, st1)"
    "writing_at (length (contents st1)) st1" "contents st1 = file_of bss" "st_room st1 = st_room (rs_data_storage x)"
    "can_use_file (storage_close st1)" "open_reading st1"
    using open_update [OF o(2)] there o(3) by auto
  obtain st2 d2 where r: "read_data_block (int ?p) st1 empty_stream = Some (True, st2, d2)" "contents st2 = file_of bss"
    "same_stream st1 st2" "st_room st2 = st_room st1" "writing_at ?q st2" "wf_stream d2" "pending d2 = bss ! ?i"
    using read_at [OF d(6) _ i(3), of ?p "file_of (drop (Suc ?i) bss)" empty_stream "length (file_of bss)"]
      drop_offset [OF i(1)] d(2,3) i(2) by auto
  have av: "available d2 = int room" using r(6,7) i(2) by (simp add: available_pending)
  have m: "?n \<le> ?m" "0 < ?m" using record_bytes_pos [of r] by (auto simp: reserved_size_def)
  then have good: "good_block ?b" using assms(5) by (simp add: good_block_length del: length_greater_0_conv)
  note pad = padded_record [of ser r ?m, OF fresh m(1)]
  obtain d3 st3 where w: "write_data_block (pad_stream ?m (serialize_record ser r)) 0 st2 = Some ((True, 0), int ?q, d3, st3)"
    "contents st3 = put_at (file_of bss) ?q (enc_block ?b)" "same_stream st2 st3"
    using write_data_block_put [OF r(5) pad(1), of 0] pad(2) good m assms(5,7) r(2,4) d(4) by (auto simp: good_block_def roomy_def)
  let ?x = "x\<lparr>rs_index := (rs_index x)(key r \<mapsto> int ?q), rs_data_storage := st3\<rparr>"
  let ?a = "\<lparr>ir_offset = int ?q, ir_msg_id = key r\<rparr>"
  have l: "insert_loop ser key [r] (x\<lparr>rs_data_storage := st1\<rparr>) = Some ([?a], ?x)"
  proof -
    have ix: "rs_index (x\<lparr>rs_data_storage := st1\<rparr>) (key r) = Some (int ?p)" using assms(8) off by simp
    have "add_record ser key r (x\<lparr>rs_data_storage := st2\<rparr>) = Some (?a, ?x)"
      using w(1) by (simp add: add_record_def serialize_record_pending fresh Let_def)
    moreover have "\<not> available (serialize_record ser r) \<le> available d2"
      using av assms(4) by (simp add: serialize_record_pending fresh)
    ultimately have "update_record_at ser key r (int ?p) (x\<lparr>rs_data_storage := st1\<rparr>) = Some (Some ?a, ?x)"
      using r(1) by (simp add: update_record_at_def Let_def)
    with ix show ?thesis by simp
  qed
  have "key r \<in> dom (index_map rs)" using assms(8) o(6) by (simp add: domIff)
  then have "key r \<in> dom (map_of (starts 0 rs))" by (simp only: dom_index_map dom_starts)
  then obtain offset where offset: "map_of (starts 0 rs) (key r) = Some offset" by blast
  then obtain k where k: "k < length rs" "rs_offsets x (key r) = Some (int (48 * k))"
    using starts_bound [OF offset] o(7) by auto
  obtain st4 where s: "storage_open (update_mode (rs_index_storage x)) (rs_index_storage x) = (True, st4)"
    "writing_at (length (contents st4)) st4" "contents st4 = file_of (map index_bytes rs)"
    "st_room st4 = st_room (rs_index_storage x)"
    using open_update [OF o(1)] o(4) by auto
  have len: "length (file_of (map index_bytes rs)) = 48 * length rs" by (induction rs) simp_all
  note pd = index_serialize_pending [of empty_stream ?a]
  have ne: "index_bytes ?a \<noteq> []" using good_index_block [of ?a] by (simp add: good_block_def del: good_index_block)
  have "48 * k \<le> length (contents st4)" using k(1) s(3) len by simp
  then obtain d5 st5 where v: "write_data_block_at (index_serialize ?a empty_stream) (48 * k) st4 = Some ((True, 0), d5, st5)"
    using write_data_block_at_put [OF s(2), of "48 * k" "index_serialize ?a empty_stream"] pd ne assms(7) s(4)
    by (auto simp: roomy_def)
  then have "save_loop [?a] empty_stream (rs_offsets x) st4 = Some (rs_offsets x, st5)"
    using k(2) by (simp add: write_at_def nat_mult_distrib)
  then obtain y where y: "insert_records ser key [r] x = Some y" "rs_loaded y" "rs_index y = (rs_index x)(key r \<mapsto> int ?q)"
    "rs_data_storage y = storage_close st3"
    using assms(2) d(1) l s(1)
    by (simp add: insert_records_def load_if_needed_def save_index_records_def del: insert_loop.simps save_loop.simps)
  have use: "can_use_file (storage_close st3)"
    using same_stream_can_use [OF same_stream_trans [OF r(3) w(3)] d(5)] .
  have c: "contents (storage_close st3) = put_at (file_of bss) ?q (enc_block ?b)" using w(2) by (simp add: storage_close_def)
  have "enc_block ?b \<noteq> []" by simp
  then have "st_file (storage_close st3) \<noteq> None" using q by (intro file_there [OF c]) (simp add: put_at_inside)
  then obtain st6 where g: "storage_open (mode_zero\<lparr>sm_read := True\<rparr>) (storage_close st3) = (True, st6)" "open_reading st6"
    "unread st6 = contents (storage_close st3)"
    using open_read [OF use] by blast
  have c6: "contents st6 = put_at (file_of bss) ?q (enc_block ?b)"
    using g(1) use c by (auto simp: storage_open_def can_use_file_def fstream_open_def filebuf_mode_def mode_zero_def
          Let_def contents_def split: if_splits option.splits)
  have "drop ?q (contents st6) = enc_block ?b @ drop (?q + length (enc_block ?b)) (file_of bss)"
    using q by (simp add: c6 put_at_inside)
  then obtain st7 d7 where g7: "read_data_block (int ?q) st6 empty_stream = Some (True, st7, d7)" "wf_stream d7" "pending d7 = ?b"
    using read_at [OF g(2) _ good, of ?q _ empty_stream] by fastforce
  then obtain d8 where "read_record unser d7 = Some (Some (stored r), d8)"
    using read_record_block [OF g7(2,3) assms(6) m(1) assms(5)] by blast
  moreover have "rs_index y j = Some (int ?q)" using y(3) assms(9) off by (simp add: algebra_simps)
  ultimately have "\<exists>x''. get_records unser [j] y = Some ([stored r], [], x'')"
    using y(2,4) g(1) g7(1) by (simp add: get_records_def load_if_needed_def)
  with y(1) show ?thesis by blast
qed

end

end
