(* ===== verification/Message_Records.thy ===== *)
theory Message_Records
  imports Record_Refinement Dlg_State
begin

text \<open>
  The two record stores of the archive: the reactions to messages (\<^verbatim>\<open>reactions_data\<close>, \<^verbatim>\<open>reactions_storage\<close> in
  \<^verbatim>\<open>core/archive/reactions.cpp\<close>) and the threads under messages (\<^verbatim>\<open>thread_update.cpp\<close>,
  \<^verbatim>\<open>thread_update_storage.cpp\<close>). Their records keep the contract \<open>stored_record\<close>, and the properties of the
  stores follow.
\<close>

subsection \<open>Reactions\<close>

definition tlv_msg_id :: u32 where [simp]: "tlv_msg_id = 1"
definition tlv_my_reaction :: u32 where [simp]: "tlv_my_reaction = 2"
definition tlv_reaction_item :: u32 where [simp]: "tlv_reaction_item = 3"
definition tlv_reaction :: u32 where [simp]: "tlv_reaction = 4"
definition tlv_counter :: u32 where [simp]: "tlv_counter = 5"

definition reaction_fields :: "reaction \<Rightarrow> tlv list" where
  "reaction_fields r = [mk_tlv tlv_reaction (re_reaction r), mk_tlv tlv_counter (i64_image (re_count r))]"

definition reaction_serialize :: "reaction \<Rightarrow> tlv" where
  "reaction_serialize r = mk_tlv_pack tlv_reaction_item (pack_of (reaction_fields r))"

definition reaction_unserialize :: "tlvpack \<Rightarrow> reaction option" where
  "reaction_unserialize p =
     map_option (\<lambda>t. \<lparr>re_reaction = get_string t,
         re_count = (case get_item p tlv_counter of None \<Rightarrow> 0 | Some c \<Rightarrow> get_i64 c)\<rparr>)
       (get_item p tlv_reaction)"

definition reactions_fields :: "reactions_data \<Rightarrow> tlv list" where
  "reactions_fields d = [mk_tlv tlv_msg_id (i64_image (rd_msg_id d)), mk_tlv tlv_my_reaction (rd_my_reaction d)] @
     map reaction_serialize (rd_reactions d)"

definition reactions_default :: reactions_data where
  "reactions_default = \<lparr>rd_msg_id = 0, rd_chat_id = [], rd_my_reaction = [], rd_reactions = []\<rparr>"

text \<open>The switch over the type of a field; a null pointer inside a pack of a reaction is \<open>None\<close>.\<close>

definition reactions_field :: "tlv \<Rightarrow> reactions_data \<Rightarrow> reactions_data option" where
  "reactions_field t d =
     (if tlv_type t = tlv_msg_id then Some (d\<lparr>rd_msg_id := get_i64_or 0 t\<rparr>)
      else if tlv_type t = tlv_my_reaction then Some (d\<lparr>rd_my_reaction := get_string t\<rparr>)
      else if tlv_type t = tlv_reaction_item then
        map_option (\<lambda>p. case reaction_unserialize p of
            None \<Rightarrow> d
          | Some r \<Rightarrow> d\<lparr>rd_reactions := rd_reactions d @ [r]\<rparr>) (get_pack t)
      else Some d)"

fun reactions_walk :: "tlv list \<Rightarrow> reactions_data \<Rightarrow> reactions_data option" where
  "reactions_walk [] d = Some d"
| "reactions_walk (t # ts) d = do { d \<leftarrow> reactions_field t d; reactions_walk ts d }"

definition reactions_data_unserialize :: "tlvpack \<Rightarrow> reactions_data option option" where
  "reactions_data_unserialize p =
     map_option (\<lambda>d. if rd_msg_id d \<noteq> 0 then Some d else None) (reactions_walk (walk p) reactions_default)"

text \<open>The operations of \<^verbatim>\<open>reactions_storage\<close>.\<close>

definition get_reactions :: "int list \<Rightarrow> record_store \<Rightarrow> (reactions_data list \<times> int list \<times> record_store) option" where
  "get_reactions ids x = get_records reactions_data_unserialize ids x"

definition insert_reactions :: "reactions_data list \<Rightarrow> record_store \<Rightarrow> record_store option" where
  "insert_reactions rs x = insert_records reactions_fields rd_msg_id rs x"

text \<open>What of the reactions is stored: all but the chat.\<close>

definition good_reactions :: "reactions_data \<Rightarrow> bool" where
  "good_reactions d \<longleftrightarrow> rd_msg_id d \<noteq> 0 \<and> i64_range (rd_msg_id d) \<and> list_all (\<lambda>r. i64_range (re_count r)) (rd_reactions d)"

definition stored_reactions :: "reactions_data \<Rightarrow> reactions_data" where
  "stored_reactions d = d\<lparr>rd_chat_id := []\<rparr>"

lemma fresh_reactions [simp]: "list_all fresh_tlv (reactions_fields d)"
  by (simp add: reactions_fields_def reaction_serialize_def reaction_fields_def list.pred_map comp_def)

lemma view_reaction: "tlv_view (reaction_serialize r) = (tlv_reaction_item, enc_fields (map tlv_view (reaction_fields r)))"
  by (simp add: reaction_serialize_def reaction_fields_def)

lemma reactions_walk_append: "reactions_walk (as @ bs) d = Option.bind (reactions_walk as d) (reactions_walk bs)"
proof (induction as arbitrary: d)
  case (Cons a as)
  then show ?case by (cases "reactions_field a d") simp_all
qed simp

lemma read_reaction:
  assumes "i64_range (re_count r)" and "length (enc_fields (map tlv_view (reaction_fields r))) < 2 ^ 32"
  shows "reactions_field (mk_tlv tlv_reaction_item (enc_fields (map tlv_view (reaction_fields r)))) d =
    Some (d\<lparr>rd_reactions := rd_reactions d @ [r]\<rparr>)"
proof -
  have "reaction_unserialize (mk_pack (map tlv_view (reaction_fields r))) = Some r"
    using assms(1) by (simp add: reaction_unserialize_def reaction_fields_def)
  then show ?thesis using get_pack_fits [OF assms(2)] by (simp add: reactions_field_def)
qed

lemma read_reactions:
  "list_all (\<lambda>r. i64_range (re_count r)) rs \<Longrightarrow> length (enc_fields (map tlv_view (map reaction_serialize rs))) < 2 ^ 32 \<Longrightarrow>
    reactions_walk (map (\<lambda>(ty, bs). mk_tlv ty bs) (map tlv_view (map reaction_serialize rs))) d =
      Some (d\<lparr>rd_reactions := rd_reactions d @ rs\<rparr>)"
proof (induction rs arbitrary: d)
  case (Cons r rs)
  have s: "length (enc_fields (map tlv_view (reaction_fields r))) < 2 ^ 32"
    "length (enc_fields (map tlv_view (map reaction_serialize rs))) < 2 ^ 32"
    using Cons.prems(2) by (simp_all add: view_reaction)
  have c: "i64_range (re_count r)" "list_all (\<lambda>r. i64_range (re_count r)) rs" using Cons.prems(1) by simp_all
  show ?case
    using read_reaction [OF c(1) s(1), of d] Cons.IH [OF c(2) s(2), of "d\<lparr>rd_reactions := rd_reactions d @ [r]\<rparr>"]
    by (simp add: view_reaction)
qed simp

lemma skip_padding: "reactions_walk (map (\<lambda>(ty, bs). mk_tlv ty bs) (padding k)) d = Some d"
proof -
  have "reactions_walk (map (\<lambda>(ty, bs). mk_tlv ty bs) (replicate n (0, []))) d = Some d" for n
    by (induction n) (simp_all add: reactions_field_def)
  then show ?thesis by (simp add: padding_def)
qed

interpretation reactions: stored_record reactions_fields reactions_data_unserialize rd_msg_id good_reactions stored_reactions
proof unfold_locales
  fix d k assume g: "good_reactions d" and "length (record_bytes reactions_fields d) < 2 ^ 32"
  then have s: "length (enc_fields (map tlv_view (map reaction_serialize (rd_reactions d)))) < 2 ^ 32"
    by (simp add: record_bytes_def reactions_fields_def)
  have "reactions_walk (map (\<lambda>(ty, bs). mk_tlv ty bs) (map tlv_view (reactions_fields d) @ padding k)) reactions_default =
      Some (stored_reactions d)"
    using g read_reactions [OF _ s, of "reactions_default\<lparr>rd_msg_id := rd_msg_id d, rd_my_reaction := rd_my_reaction d\<rparr>"]
    by (simp add: reactions_fields_def reactions_walk_append skip_padding reactions_field_def get_i64_or_eq good_reactions_def
        stored_reactions_def reactions_default_def mk_tlv_value)
  then show "reactions_data_unserialize (mk_pack (map tlv_view (reactions_fields d) @ padding k)) = Some (Some (stored_reactions d))"
    using g by (simp add: reactions_data_unserialize_def good_reactions_def stored_reactions_def)
qed (simp_all add: good_reactions_def, simp add: reactions_fields_def)


subsection \<open>Thread updates\<close>

definition tlv_thread_id :: u32 where [simp]: "tlv_thread_id = 1"
definition tlv_parent_topic_type :: u32 where [simp]: "tlv_parent_topic_type = 2"
definition tlv_parent_topic_chat_id :: u32 where [simp]: "tlv_parent_topic_chat_id = 3"
definition tlv_parent_topic_msg_id :: u32 where [simp]: "tlv_parent_topic_msg_id = 4"
definition tlv_replies_count :: u32 where [simp]: "tlv_replies_count = 5"
definition tlv_unread_msg_count :: u32 where [simp]: "tlv_unread_msg_count = 6"
definition tlv_unread_mention_count :: u32 where [simp]: "tlv_unread_mention_count = 7"
definition tlv_last_read :: u32 where [simp]: "tlv_last_read = 8"
definition tlv_last_read_mention :: u32 where [simp]: "tlv_last_read_mention = 9"
definition tlv_subscriber :: u32 where [simp]: "tlv_subscriber = 10"
definition tlv_parent_topic_task_id :: u32 where [simp]: "tlv_parent_topic_task_id = 11"

record thread_update =
  tu_id :: cstring
  tu_parent_topic :: thread_parent_topic
  tu_last_read :: int
  tu_last_read_mention :: int
  tu_replies_count :: int
  tu_unread_message_count :: int
  tu_unread_mention_me_count :: int
  tu_subscriber :: bool

definition topic_default :: thread_parent_topic where
  "topic_default = \<lparr>tp_type = invalid_topic, tp_chat_id = [], tp_msg_id = -1, tp_task_id = []\<rparr>"

definition thread_default :: thread_update where
  "thread_default = \<lparr>tu_id = [], tu_parent_topic = topic_default, tu_last_read = -1, tu_last_read_mention = -1,
     tu_replies_count = 0, tu_unread_message_count = 0, tu_unread_mention_me_count = 0, tu_subscriber = False\<rparr>"

text \<open>The enumeration is stored as its 32-bit number; a number without a constant is as invalid as 0.\<close>

definition topic_number :: "topic_type \<Rightarrow> int" where
  "topic_number t = (case t of invalid_topic \<Rightarrow> 0 | message_topic \<Rightarrow> 1 | task_topic \<Rightarrow> 2)"

definition topic_of_number :: "int \<Rightarrow> topic_type" where
  "topic_of_number i = (if i = 1 then message_topic else if i = 2 then task_topic else invalid_topic)"

definition topic_is_valid :: "thread_parent_topic \<Rightarrow> bool" where
  "topic_is_valid t \<longleftrightarrow> (tp_type t = message_topic \<and> tp_chat_id t \<noteq> []) \<or> (tp_type t = task_topic \<and> tp_task_id t \<noteq> [])"

definition create_message_topic :: "cstring \<Rightarrow> int \<Rightarrow> thread_parent_topic" where
  "create_message_topic chat i = topic_default\<lparr>tp_chat_id := chat, tp_msg_id := i, tp_type := message_topic\<rparr>"

definition thread_is_valid :: "thread_update \<Rightarrow> bool" where
  "thread_is_valid u \<longleftrightarrow> topic_is_valid (tu_parent_topic u) \<and> tu_id u \<noteq> []"

definition thread_msgid :: "thread_update \<Rightarrow> int" where
  "thread_msgid u = tp_msg_id (tu_parent_topic u)"

definition thread_fields :: "thread_update \<Rightarrow> tlv list" where
  "thread_fields u =
     [mk_tlv tlv_thread_id (tu_id u),
      mk_tlv tlv_parent_topic_type (i32_image (topic_number (tp_type (tu_parent_topic u)))),
      mk_tlv tlv_parent_topic_chat_id (tp_chat_id (tu_parent_topic u)),
      mk_tlv tlv_parent_topic_msg_id (i64_image (tp_msg_id (tu_parent_topic u))),
      mk_tlv tlv_parent_topic_task_id (tp_task_id (tu_parent_topic u)),
      mk_tlv tlv_replies_count (i32_image (tu_replies_count u)),
      mk_tlv tlv_unread_msg_count (i32_image (tu_unread_message_count u)),
      mk_tlv tlv_unread_mention_count (i32_image (tu_unread_mention_me_count u)),
      mk_tlv tlv_last_read (i64_image (tu_last_read u)),
      mk_tlv tlv_last_read_mention (i64_image (tu_last_read_mention u)),
      mk_tlv tlv_subscriber (bool_image (tu_subscriber u))]"

text \<open>The getters' default values are never used: a value that is too short gives zero.\<close>

definition thread_field :: "tlv \<Rightarrow> thread_update \<Rightarrow> thread_update" where
  "thread_field t u =
     (let ty = tlv_type t; topic = tu_parent_topic u
      in if ty = tlv_thread_id then u\<lparr>tu_id := get_string t\<rparr>
         else if ty = tlv_parent_topic_type then u\<lparr>tu_parent_topic := topic\<lparr>tp_type := topic_of_number (get_i32 t)\<rparr>\<rparr>
         else if ty = tlv_parent_topic_chat_id then u\<lparr>tu_parent_topic := topic\<lparr>tp_chat_id := get_string t\<rparr>\<rparr>
         else if ty = tlv_parent_topic_msg_id then u\<lparr>tu_parent_topic := topic\<lparr>tp_msg_id := get_i64_or (-1) t\<rparr>\<rparr>
         else if ty = tlv_parent_topic_task_id then u\<lparr>tu_parent_topic := topic\<lparr>tp_task_id := get_string t\<rparr>\<rparr>
         else if ty = tlv_replies_count then u\<lparr>tu_replies_count := get_i32 t\<rparr>
         else if ty = tlv_unread_msg_count then u\<lparr>tu_unread_message_count := get_i32 t\<rparr>
         else if ty = tlv_unread_mention_count then u\<lparr>tu_unread_mention_me_count := get_i32 t\<rparr>
         else if ty = tlv_last_read then u\<lparr>tu_last_read := get_i64_or (-1) t\<rparr>
         else if ty = tlv_last_read_mention then u\<lparr>tu_last_read_mention := get_i64_or (-1) t\<rparr>
         else if ty = tlv_subscriber then u\<lparr>tu_subscriber := get_bool t\<rparr>
         else u)"

definition thread_unserialize :: "tlvpack \<Rightarrow> thread_update option option" where
  "thread_unserialize p = (let u = fold thread_field (walk p) thread_default in Some (if thread_is_valid u then Some u else None))"

text \<open>The operations of \<^verbatim>\<open>thread_update_storage\<close>.\<close>

definition get_thread_updates :: "int list \<Rightarrow> record_store \<Rightarrow> (thread_update list \<times> int list \<times> record_store) option" where
  "get_thread_updates ids x = get_records thread_unserialize ids x"

definition insert_thread_updates :: "thread_update list \<Rightarrow> record_store \<Rightarrow> record_store option" where
  "insert_thread_updates us x = insert_records thread_fields thread_msgid us x"

definition good_thread :: "thread_update \<Rightarrow> bool" where
  "good_thread u \<longleftrightarrow> thread_is_valid u \<and> list_all i64_range [thread_msgid u, tu_last_read u, tu_last_read_mention u] \<and>
     list_all i32_range [tu_replies_count u, tu_unread_message_count u, tu_unread_mention_me_count u]"

lemma topic_number_range [simp]: "i32_range (topic_number t)" "topic_of_number (topic_number t) = t"
  by (cases t; simp add: i32_range_def topic_number_def topic_of_number_def)+

interpretation threads: stored_record thread_fields thread_unserialize thread_msgid good_thread "\<lambda>u. u"
proof unfold_locales
  fix u k assume g: "good_thread u"
  have z: "(thread_field (mk_tlv 0 []) ^^ n) u = u" for n u
    by (induction n) (simp_all add: thread_field_def Let_def)
  have "fold thread_field (map (\<lambda>(ty, bs). mk_tlv ty bs) (map tlv_view (thread_fields u) @ padding k)) thread_default = u"
    using g by (cases u; cases "tu_parent_topic u")
      (simp add: thread_fields_def z padding_def thread_field_def Let_def get_i64_or_eq mk_tlv_value good_thread_def
        thread_msgid_def thread_default_def)
  then show "thread_unserialize (mk_pack (map tlv_view (thread_fields u) @ padding k)) = Some (Some u)"
    using g by (simp add: thread_unserialize_def good_thread_def)
qed (simp_all add: thread_fields_def good_thread_def)


subsection \<open>The stores are maps\<close>

text \<open>C13: Reactions that are put into the store are what it gives back: after an insertion that fits into the
  blocks, reading any ids gives the stored reactions of those that have some, in the order of the ids, and the
  ids of the others; and so it does for a store that is made anew from the two files.\<close>

theorem reactions_store_is_a_map:
  assumes "store_ok reactions_fields good_reactions A x" and "put_all reactions_fields rd_msg_id rs A = Some A'"
    and "list_all good_reactions rs" and "distinct (map rd_msg_id rs)" and "roomy (length rs) x"
  shows "\<exists>x'. insert_reactions rs x = Some x' \<and>
    (\<forall>ids. \<exists>y. get_reactions ids x' = Some (found stored_reactions A' ids, missing A' ids, y)) \<and>
    (\<forall>ids. \<exists>y. get_reactions ids (reopened x') = Some (found stored_reactions A' ids, missing A' ids, y)) \<and>
    store_ok reactions_fields good_reactions A' x'"
proof -
  obtain x' where x': "insert_reactions rs x = Some x'" "store_ok reactions_fields good_reactions A' x'"
    using reactions.insert_refines [OF assms] by (auto simp: insert_reactions_def)
  with reactions.get_refines [OF x'(2)] reactions.get_refines [OF store_ok_reopened [OF x'(2)]] show ?thesis
    unfolding get_reactions_def by blast
qed

text \<open>The same of the updates of threads, which come back unchanged.\<close>

theorem thread_store_is_a_map:
  assumes "store_ok thread_fields good_thread A x" and "put_all thread_fields thread_msgid us A = Some A'"
    and "list_all good_thread us" and "distinct (map thread_msgid us)" and "roomy (length us) x"
  shows "\<exists>x'. insert_thread_updates us x = Some x' \<and>
    (\<forall>ids. \<exists>y. get_thread_updates ids x' = Some (found (\<lambda>u. u) A' ids, missing A' ids, y)) \<and>
    (\<forall>ids. \<exists>y. get_thread_updates ids (reopened x') = Some (found (\<lambda>u. u) A' ids, missing A' ids, y)) \<and>
    store_ok thread_fields good_thread A' x'"
proof -
  obtain x' where x': "insert_thread_updates us x = Some x'" "store_ok thread_fields good_thread A' x'"
    using threads.insert_refines [OF assms] by (auto simp: insert_thread_updates_def)
  with threads.get_refines [OF x'(2)] threads.get_refines [OF store_ok_reopened [OF x'(2)]] show ?thesis
    unfolding get_thread_updates_def by blast
qed

text \<open>C23: Reactions that grew past the room of their block are written over the block behind it: the message
  whose reactions were there now has the reactions of the other message.\<close>

theorem grown_reactions_overwrite_the_next:
  assumes "store_ok reactions_fields good_reactions A x" and "rs_loaded x" and "A (rd_msg_id d) = Some (room, d0)"
    and "room < length (record_bytes reactions_fields d)"
    and "reserved_size (length (record_bytes reactions_fields d)) \<le> 1024 * 1024" and "good_reactions d" and "roomy 1 x"
    and "rs_index x (rd_msg_id d) = Some off" and "rs_index x j = Some (off + 16 + int room)"
  shows "\<exists>x' x''. insert_reactions [d] x = Some x' \<and> get_reactions [j] x' = Some ([stored_reactions d], [], x'')"
  unfolding insert_reactions_def get_reactions_def by (rule reactions.grown_overwrites [OF assms])

subsection \<open>Witnesses\<close>

definition no_records :: record_store where
  "no_records = mk_record_store (mk_storage None) (mk_storage None)"

lemma no_records_ok: "store_ok ser good Map.empty no_records" "n \<le> 2 ^ 18 \<Longrightarrow> roomy n no_records"
proof -
  show "store_ok ser good Map.empty no_records"
    unfolding store_ok_def
    by (intro exI [of _ "[]"] exI [of _ "\<lambda>_. 0"])
      (simp add: no_records_def mk_record_store_def mk_storage_def can_use_file_def contents_def placed_def index_map_def)
  show "roomy n no_records" if "n \<le> 2 ^ 18"
    using that by (simp add: roomy_def no_records_def mk_record_store_def mk_storage_def contents_def)
qed

definition some_reactions :: "int \<Rightarrow> cstring \<Rightarrow> reactions_data" where
  "some_reactions i mine = \<lparr>rd_msg_id = i, rd_chat_id = [], rd_my_reaction = mine, rd_reactions = [\<lparr>re_reaction = [43], re_count = 2\<rparr>]\<rparr>"

lemma some_reactions_simps:
  "rd_msg_id (some_reactions i mine) = i" "i \<noteq> 0 \<Longrightarrow> i64_range i \<Longrightarrow> good_reactions (some_reactions i mine)"
  "stored_reactions (some_reactions i mine) = some_reactions i mine"
  "length (record_bytes reactions_fields (some_reactions i mine)) = 57 + length mine"
  by (simp_all add: some_reactions_def good_reactions_def i64_range_def stored_reactions_def record_bytes_def reactions_fields_def
      reaction_serialize_def reaction_fields_def)

theorem reactions_store_is_a_map_witness:
  "\<exists>x' y. insert_reactions [some_reactions 7 [], some_reactions 9 [33]] no_records = Some x' \<and>
    get_reactions [9, 8] (reopened x') = Some ([some_reactions 9 [33]], [8], y)"
proof -
  let ?A = "[7 \<mapsto> (68, some_reactions 7 []), 9 \<mapsto> (69, some_reactions 9 [33])]"
  have p: "put_all reactions_fields rd_msg_id [some_reactions 7 [], some_reactions 9 [33]] Map.empty = Some ?A"
    by (simp add: put_def some_reactions_simps reserved_size_def)
  have f: "found stored_reactions ?A [9, 8] = [some_reactions 9 [33]]" "missing ?A [9, 8] = [8]"
    by (simp_all add: found_def missing_def some_reactions_simps)
  have "list_all good_reactions [some_reactions 7 [], some_reactions 9 [33]]"
    "distinct (map rd_msg_id [some_reactions 7 [], some_reactions 9 [33]])"
    "roomy (length [some_reactions 7 [], some_reactions 9 [33]]) no_records"
    using no_records_ok(2) [of "Suc (Suc 0)"] by (simp_all add: some_reactions_simps i64_range_def)
  from reactions_store_is_a_map [OF no_records_ok(1) p this] f show ?thesis by metis
qed

definition some_thread :: thread_update where
  "some_thread = thread_default\<lparr>tu_id := [97], tu_parent_topic := create_message_topic [98] 5, tu_replies_count := 3\<rparr>"

lemma some_thread_simps: "thread_msgid some_thread = 5" "good_thread some_thread"
  "length (record_bytes thread_fields some_thread) = 131"
  by (simp_all add: some_thread_def thread_default_def create_message_topic_def topic_default_def thread_msgid_def good_thread_def
      thread_is_valid_def topic_is_valid_def i64_range_def i32_range_def record_bytes_def thread_fields_def)

theorem thread_store_is_a_map_witness:
  "\<exists>x' y. insert_thread_updates [some_thread] no_records = Some x' \<and>
    get_thread_updates [5, 6] (reopened x') = Some ([some_thread], [6], y)"
proof -
  let ?A = "[5 \<mapsto> (157, some_thread)]"
  have p: "put_all thread_fields thread_msgid [some_thread] Map.empty = Some ?A"
    by (simp add: put_def some_thread_simps reserved_size_def)
  have f: "found (\<lambda>u. u) ?A [5, 6] = [some_thread]" "missing ?A [5, 6] = [6]"
    by (simp_all add: found_def missing_def)
  have "list_all good_thread [some_thread]" "distinct (map thread_msgid [some_thread])" "roomy (length [some_thread]) no_records"
    using no_records_ok(2) [of 1] by (simp_all add: some_thread_simps)
  from thread_store_is_a_map [OF no_records_ok(1) p this] f show ?thesis by metis
qed

text \<open>Two messages in the store, the first of which gets a longer reaction.\<close>

definition two_index :: "index_record list" where
  "two_index = [\<lparr>ir_offset = 0, ir_msg_id = 7\<rparr>, \<lparr>ir_offset = 84, ir_msg_id = 9\<rparr>]"

definition two_blocks :: "bytes list" where
  "two_blocks = [block_of reactions_fields 68 (some_reactions 7 []), block_of reactions_fields 68 (some_reactions 9 [])]"

definition two_records :: record_store where
  "two_records = \<lparr>rs_index = index_map two_index, rs_offsets = map_of (starts 0 two_index),
     rs_index_storage = mk_storage (Some (file_of (map index_bytes two_index))),
     rs_data_storage = mk_storage (Some (file_of two_blocks)), rs_loaded = True\<rparr>"

definition two_shelf :: "reactions_data shelf" where
  "two_shelf = [7 \<mapsto> (68, some_reactions 7 []), 9 \<mapsto> (68, some_reactions 9 [])]"

lemma two_records_ok: "store_ok reactions_fields good_reactions two_shelf two_records" "roomy 1 two_records"
proof -
  have b: "length (block_of reactions_fields 68 (some_reactions i [])) = 68" for i by (simp add: some_reactions_simps)
  then have g: "good_block (block_of reactions_fields 68 (some_reactions i []))" for i
    by (simp add: good_block_length del: length_greater_0_conv)
  have "placed reactions_fields two_shelf (index_map two_index) two_blocks (\<lambda>i. if i = 7 then 0 else 1)"
    by (auto simp: placed_def two_shelf_def two_index_def two_blocks_def index_map_def g b some_reactions_simps inj_on_def
        simp del: One_nat_def) (simp_all add: offset_of_def b)
  moreover have "contents (mk_storage (Some c)) = c" "can_use_file (mk_storage f)" for c f
    by (simp_all add: mk_storage_def contents_def can_use_file_def)
  moreover have "\<forall>i room r. two_shelf i = Some (room, r) \<longrightarrow> good_reactions r"
    by (auto simp: two_shelf_def some_reactions_simps i64_range_def)
  moreover have "list_all good_index two_index" "distinct (map ir_msg_id two_index)"
    by (simp_all add: two_index_def good_index_def i64_range_def)
  ultimately show "store_ok reactions_fields good_reactions two_shelf two_records"
    unfolding store_ok_def
    by (intro exI [of _ two_blocks] exI [of _ "\<lambda>i. if i = 7 then 0 else 1"] exI [of _ two_index]) (simp add: two_records_def)
  show "roomy 1 two_records"
    by (simp add: roomy_def two_records_def mk_storage_def contents_def two_blocks_def b)
qed

theorem grown_reactions_overwrite_the_next_witness:
  "\<exists>d x' x''. rd_msg_id d = 7 \<and> insert_reactions [d] two_records = Some x' \<and> get_reactions [9] x' = Some ([d], [], x'')"
proof -
  let ?d = "some_reactions 7 (replicate 20 104)"
  have "rs_index two_records 7 = Some 0" "rs_index two_records 9 = Some (0 + 16 + int 68)"
    by (simp_all add: two_records_def index_map_def two_index_def)
  moreover have "two_shelf (rd_msg_id ?d) = Some (68, some_reactions 7 [])" by (simp add: two_shelf_def some_reactions_simps)
  ultimately show ?thesis
    using grown_reactions_overwrite_the_next [OF two_records_ok(1), of ?d 68 "some_reactions 7 []" 0 9] two_records_ok(2)
    by (intro exI [of _ ?d]) (simp add: some_reactions_simps reserved_size_def i64_range_def two_records_def)
qed

end
