(* ===== verification/Gallery_Items.thy ===== *)
theory Gallery_Items
  imports Block_Loop Message_Fields
begin

text \<open>
  The items of a dialog's gallery, the files and links that were sent in it
  (\<^verbatim>\<open>core/archive/gallery_cache.h\<close> and \<^verbatim>\<open>.cpp\<close>): their ids and order, their stored form, and what merging
  with an answer of the server does to the list of items. An item names the item behind it; where it does
  not, there is a hole that has to be asked of the server. The field \<^verbatim>\<open>is_first_\<close> of an id is never used and left out.
\<close>

subsection \<open>The ids\<close>

datatype gallery_entry_id = Entry_Id (ge_msg_id: int) (ge_seq: int)

definition entry_empty :: "gallery_entry_id \<Rightarrow> bool" where
  "entry_empty e \<longleftrightarrow> ge_msg_id e = 0 \<and> ge_seq e = 0"

definition entry_valid :: "gallery_entry_id \<Rightarrow> bool" where
  "entry_valid e \<longleftrightarrow> ge_msg_id e \<noteq> -1 \<and> ge_seq e \<noteq> -1"

definition no_entry :: gallery_entry_id where
  "no_entry = Entry_Id 0 0"

definition never_requested :: gallery_entry_id where
  "never_requested = Entry_Id (-1) (-1)"

definition entry_less :: "gallery_entry_id \<Rightarrow> gallery_entry_id \<Rightarrow> bool" where
  "entry_less a b \<longleftrightarrow> (if ge_msg_id a = ge_msg_id b then ge_seq a < ge_seq b else ge_msg_id a < ge_msg_id b)"

instantiation gallery_entry_id :: linorder
begin

definition less_gallery_entry_id :: "gallery_entry_id \<Rightarrow> gallery_entry_id \<Rightarrow> bool" where
  "a < b \<longleftrightarrow> entry_less a b"

definition less_eq_gallery_entry_id :: "gallery_entry_id \<Rightarrow> gallery_entry_id \<Rightarrow> bool" where
  "(a :: gallery_entry_id) \<le> b \<longleftrightarrow> a < b \<or> a = b"

instance
proof
  fix a b c :: gallery_entry_id
  show "a < b \<longleftrightarrow> a \<le> b \<and> \<not> b \<le> a" "a \<le> a" "a \<le> b \<Longrightarrow> b \<le> c \<Longrightarrow> a \<le> c" "a \<le> b \<Longrightarrow> b \<le> a \<Longrightarrow> a = b" "a \<le> b \<or> b \<le> a"
    by (cases a; cases b; cases c; auto simp: less_gallery_entry_id_def less_eq_gallery_entry_id_def entry_less_def split: if_splits)+
qed

end

lemma entry_less_simps [simp]:
  "Entry_Id m s < Entry_Id m' s' \<longleftrightarrow> m < m' \<or> m = m' \<and> s < s'"
  "Entry_Id m s \<le> Entry_Id m' s' \<longleftrightarrow> m < m' \<or> m = m' \<and> s \<le> s'"
  by (auto simp: less_gallery_entry_id_def less_eq_gallery_entry_id_def entry_less_def)

lemma entry_empty_iff [simp]: "entry_empty e \<longleftrightarrow> e = no_entry"
  by (cases e) (simp add: entry_empty_def no_entry_def)

lemma entry_constants [simp]: "entry_valid no_entry" "\<not> entry_valid never_requested" "no_entry \<noteq> never_requested"
  "never_requested \<noteq> no_entry"
  by (simp_all add: entry_valid_def no_entry_def never_requested_def)

subsection \<open>The items and their stored form\<close>

record gallery_item =
  gi_id :: gallery_entry_id
  gi_next :: gallery_entry_id
  gi_url :: cstring
  gi_caption :: cstring
  gi_type :: cstring
  gi_sender :: cstring
  gi_outgoing :: bool
  gi_time :: int
  gi_action :: cstring

definition item_default :: gallery_item where
  "item_default = \<lparr>gi_id = no_entry, gi_next = no_entry, gi_url = [], gi_caption = [], gi_type = [], gi_sender = [],
     gi_outgoing = False, gi_time = 0, gi_action = []\<rparr>"

definition gf_item_pack :: u32 where [simp]: "gf_item_pack = 1"
definition gf_msg_id :: u32 where [simp]: "gf_msg_id = 2"
definition gf_seq :: u32 where [simp]: "gf_seq = 3"
definition gf_next_msg_id :: u32 where [simp]: "gf_next_msg_id = 4"
definition gf_next_seq :: u32 where [simp]: "gf_next_seq = 5"
definition gf_url :: u32 where [simp]: "gf_url = 6"
definition gf_type :: u32 where [simp]: "gf_type = 7"
definition gf_sender :: u32 where [simp]: "gf_sender = 8"
definition gf_outgoing :: u32 where [simp]: "gf_outgoing = 9"
definition gf_time :: u32 where [simp]: "gf_time = 10"
definition gf_caption :: u32 where [simp]: "gf_caption = 11"

text \<open>The action is not stored, and the time is cut to 32 bits.\<close>

definition item_fields :: "gallery_item \<Rightarrow> tlv list" where
  "item_fields i =
     [mk_tlv gf_msg_id (i64_image (ge_msg_id (gi_id i))),
      mk_tlv gf_seq (i64_image (ge_seq (gi_id i))),
      mk_tlv gf_next_msg_id (i64_image (ge_msg_id (gi_next i))),
      mk_tlv gf_next_seq (i64_image (ge_seq (gi_next i))),
      mk_tlv gf_url (gi_url i),
      mk_tlv gf_type (gi_type i),
      mk_tlv gf_sender (gi_sender i),
      mk_tlv gf_outgoing (bool_image (gi_outgoing i)),
      mk_tlv gf_time (i32_image (gi_time i)),
      mk_tlv gf_caption (gi_caption i)]"

definition with_msg_id :: "int \<Rightarrow> gallery_entry_id \<Rightarrow> gallery_entry_id" where
  "with_msg_id m e = Entry_Id m (ge_seq e)"

definition with_seq :: "int \<Rightarrow> gallery_entry_id \<Rightarrow> gallery_entry_id" where
  "with_seq s e = Entry_Id (ge_msg_id e) s"

definition item_field :: "tlv \<Rightarrow> gallery_item \<Rightarrow> gallery_item" where
  "item_field t i =
     (let ty = tlv_type t
      in if ty = gf_msg_id then i\<lparr>gi_id := with_msg_id (get_i64 t) (gi_id i)\<rparr>
         else if ty = gf_seq then i\<lparr>gi_id := with_seq (get_i64 t) (gi_id i)\<rparr>
         else if ty = gf_next_msg_id then i\<lparr>gi_next := with_msg_id (get_i64 t) (gi_next i)\<rparr>
         else if ty = gf_next_seq then i\<lparr>gi_next := with_seq (get_i64 t) (gi_next i)\<rparr>
         else if ty = gf_url then i\<lparr>gi_url := get_string t\<rparr>
         else if ty = gf_type then i\<lparr>gi_type := get_string t\<rparr>
         else if ty = gf_sender then i\<lparr>gi_sender := get_string t\<rparr>
         else if ty = gf_outgoing then i\<lparr>gi_outgoing := get_bool t\<rparr>
         else if ty = gf_time then i\<lparr>gi_time := get_i32 t\<rparr>
         else if ty = gf_caption then i\<lparr>gi_caption := get_string t\<rparr>
         else i)"

definition item_unserialize :: "binary_stream \<Rightarrow> (bool \<times> gallery_item) option" where
  "item_unserialize d = do {
     (ok, p, _) \<leftarrow> pack_unserialize empty_pack d;
     Some (if ok then (True, fold item_field (walk p) item_default) else (False, item_default))
   }"

definition good_item :: "gallery_item \<Rightarrow> bool" where
  "good_item i \<longleftrightarrow> list_all i64_range [ge_msg_id (gi_id i), ge_seq (gi_id i), ge_msg_id (gi_next i), ge_seq (gi_next i)] \<and>
     i32_range (gi_time i)"

definition stored_item :: "gallery_item \<Rightarrow> gallery_item" where
  "stored_item i = i\<lparr>gi_action := []\<rparr>"

lemma fresh_item [simp]: "list_all fresh_tlv (item_fields i)"
  by (simp add: item_fields_def)

lemma read_item:
  assumes "good_item i" and "length (enc_fields (map tlv_view (item_fields i))) < 2 ^ 32" and "wf_stream d" and "pending d = enc_fields (map tlv_view (item_fields i))"
  shows "item_unserialize d = Some (True, stored_item i)"
proof -
  obtain s' where "pack_unserialize empty_pack d = Some (True, mk_pack (map tlv_view (item_fields i)), s')"
    using pack_unserialize_enc [OF assms(3) good_fields_if_small [OF assms(2)] assms(4)] by blast
  moreover have "fold item_field (walk (mk_pack (map tlv_view (item_fields i)))) item_default = stored_item i"
    using assms(1) by (cases i; cases "gi_id i"; cases "gi_next i")
      (simp add: item_fields_def item_field_def Let_def good_item_def stored_item_def item_default_def with_msg_id_def
        with_seq_def no_entry_def)
  ultimately show ?thesis by (simp add: item_unserialize_def)
qed

subsection \<open>Items in order\<close>

definition ids :: "gallery_item list \<Rightarrow> gallery_entry_id set" where
  "ids xs = gi_id ` set xs"

definition sorted_items :: "gallery_item list \<Rightarrow> bool" where
  "sorted_items xs \<longleftrightarrow> sorted_wrt (<) (map gi_id xs)"

lemma ids_simps [simp]: "ids [] = {}" "ids (x # xs) = insert (gi_id x) (ids xs)" "ids (xs @ ys) = ids xs \<union> ids ys"
  by (simp_all add: ids_def image_Un)

lemma sorted_items_simps [simp]: "sorted_items []" "sorted_items (x # xs) \<longleftrightarrow> (\<forall>e\<in>ids xs. gi_id x < e) \<and> sorted_items xs"
  by (simp_all add: sorted_items_def ids_def)

lemma sorted_items_append [simp]:
  "sorted_items (xs @ ys) \<longleftrightarrow> sorted_items xs \<and> sorted_items ys \<and> (\<forall>a\<in>ids xs. \<forall>b\<in>ids ys. a < b)"
  by (induction xs) auto

lemma finite_ids [simp]: "finite (ids xs)"
  by (simp add: ids_def)

text \<open>The id behind a place, and the link of the item in front of it.\<close>

definition next_of :: "gallery_item list \<Rightarrow> gallery_entry_id" where
  "next_of xs = (case xs of [] \<Rightarrow> no_entry | x # _ \<Rightarrow> gi_id x)"

fun relink_last :: "gallery_entry_id \<Rightarrow> gallery_item list \<Rightarrow> gallery_item list" where
  "relink_last e [] = []"
| "relink_last e [x] = [x\<lparr>gi_next := e\<rparr>]"
| "relink_last e (x # xs) = x # relink_last e xs"

text \<open>What of an item is not its link.\<close>

definition content :: "gallery_item \<Rightarrow> gallery_item" where
  "content i = i\<lparr>gi_next := no_entry\<rparr>"

definition entries :: "gallery_item list \<Rightarrow> gallery_entry_id \<Rightarrow> gallery_item option" where
  "entries xs = map_of (map (\<lambda>x. (gi_id x, content x)) xs)"

lemma relink_last_simps [simp]:
  "map content (relink_last e xs) = map content xs" "ids (relink_last e xs) = ids xs" "length (relink_last e xs) = length xs"
  "relink_last e xs = [] \<longleftrightarrow> xs = []" "entries (relink_last e xs) = entries xs"
  "sorted_items (relink_last e xs) = sorted_items xs"
  by (induction e xs rule: relink_last.induct) (simp_all add: content_def entries_def)

lemma relink_last_snoc [simp]: "relink_last e (xs @ [x]) = xs @ [x\<lparr>gi_next := e\<rparr>]"
proof (induction xs)
  case (Cons y xs)
  then show ?case by (cases xs) simp_all
qed simp

lemma entries_simps [simp]:
  "entries [] = Map.empty" "entries (x # xs) = (entries xs)(gi_id x \<mapsto> content x)" "entries (xs @ ys) = entries ys ++ entries xs"
  by (simp_all add: entries_def)

lemma entries_None: "entries xs e = None \<longleftrightarrow> e \<notin> ids xs"
  by (simp add: entries_def map_of_eq_None_iff ids_def image_image)

lemma entries_filter:
  assumes "sorted_items xs"
  shows "entries (filter (\<lambda>x. P (gi_id x)) xs) e = (if P e then entries xs e else None)"
  using assms
proof (induction xs)
  case (Cons x xs)
  then show ?case by (auto simp: entries_None)
qed simp

subsection \<open>The links that are broken\<close>

fun broken_links :: "gallery_item list \<Rightarrow> (gallery_entry_id \<times> gallery_entry_id) list" where
  "broken_links (x # y # xs) = (if gi_next x \<noteq> gi_id y then [(gi_id x, gi_id y)] else []) @ broken_links (y # xs)"
| "broken_links xs = []"

lemma broken_links_between:
  "sorted_items xs \<Longrightarrow> (a, b) \<in> set (broken_links xs) \<Longrightarrow> a \<in> ids xs \<and> b \<in> ids xs \<and> a < b \<and> \<not> (\<exists>e\<in>ids xs. a < e \<and> e < b)"
proof (induction xs rule: broken_links.induct)
  case (1 x y xs)
  then show ?case by (auto split: if_splits dest: less_asym)
qed simp_all

lemma broken_links_split:
  "broken_links (xs @ x # y # ys) = broken_links (xs @ [x]) @ (if gi_next x \<noteq> gi_id y then [(gi_id x, gi_id y)] else []) @ broken_links (y # ys)"
  by (induction xs rule: broken_links.induct) simp_all

lemma broken_links_last [simp]: "broken_links (xs @ [x\<lparr>gi_next := e\<rparr>]) = broken_links (xs @ [x])"
  by (induction xs rule: broken_links.induct) simp_all

end
