(* ===== verification/Gallery_Links.thy ===== *)
theory Gallery_Links
  imports Gallery_Items
begin

text \<open>
  What merging with an answer of the server (\<^verbatim>\<open>gallery_storage::merge_from_server\<close>) does to the list of
  items and their links, step by step: dropping what was deleted, inserting what is new, erasing what was
  patched or is not in the answer, and closing the links of the range that was asked for. Each step is
  described by the content of the items and by the links that are broken after it.
\<close>

subsection \<open>The steps\<close>

definition max_items_size :: nat where
  "max_items_size = 20000"

definition drop_older :: "int \<Rightarrow> gallery_item list \<Rightarrow> gallery_item list" where
  "drop_older up_to xs = dropWhile (\<lambda>x. \<not> up_to < ge_msg_id (gi_id x)) xs"

definition contains_id :: "gallery_entry_id \<Rightarrow> gallery_item list \<Rightarrow> bool" where
  "contains_id e xs \<longleftrightarrow> list_ex (\<lambda>x. gi_id x = e) xs"

definition is_before :: "gallery_item \<Rightarrow> gallery_item \<Rightarrow> bool" where
  "is_before i x \<longleftrightarrow> entry_less (gi_id x) (gi_id i)"

text \<open>
  The insertion of one item; \<open>hole\<close> leaves the link of the item in front as it is. Only an insertion that is
  not at the front cuts the list to its greatest length; the flag tells whether it did.
\<close>

definition insert_item :: "bool \<Rightarrow> gallery_item \<Rightarrow> gallery_item list \<Rightarrow> gallery_item list \<times> bool" where
  "insert_item hole i xs =
     (case xs of
        [] \<Rightarrow> ([i], False)
      | first # _ \<Rightarrow>
          if entry_less (gi_id i) (gi_id first) then (i\<lparr>gi_next := gi_id first\<rparr> # xs, False)
          else
            let before = takeWhile (is_before i) xs;
                after = dropWhile (is_before i) xs;
                before = (if hole then before else relink_last (gi_id i) before);
                ys = before @ i\<lparr>gi_next := next_of after\<rparr> # after
            in (drop (length ys - max_items_size) ys, max_items_size < length ys))"

text \<open>The items that were added, the list, and whether it was ever cut.\<close>

fun insert_items :: "bool \<Rightarrow> gallery_item list \<Rightarrow> gallery_item list \<Rightarrow> gallery_item list \<times> gallery_item list \<times> bool" where
  "insert_items hole [] xs = ([], xs, False)"
| "insert_items hole (i # is) xs =
     (if contains_id (gi_id i) xs then insert_items hole is xs
      else case insert_item hole i xs of
             (xs, full) \<Rightarrow> case insert_items hole is xs of (added, xs, full') \<Rightarrow> (i # added, xs, full \<or> full'))"

definition action_add :: cstring where "action_add = cstr ''add''"
definition action_del :: cstring where "action_del = cstr ''del''"

record gallery_patch =
  gp_msg_id :: int
  gp_type :: cstring

fun erase_patched :: "gallery_patch \<Rightarrow> gallery_item list \<Rightarrow> gallery_item list \<Rightarrow> gallery_item list" where
  "erase_patched p done [] = done"
| "erase_patched p done (x # xs) =
     (if ge_msg_id (gi_id x) = gp_msg_id p
      then erase_patched p (if gp_type p = action_del then relink_last (next_of xs) done else done) xs
      else erase_patched p (done @ [x]) xs)"

definition patch_change :: "gallery_patch \<Rightarrow> gallery_item" where
  "patch_change p = item_default\<lparr>gi_id := with_msg_id (gp_msg_id p) no_entry, gi_action := gp_type p\<rparr>"

text \<open>The item that is erased splits the list: what is in front of it, linked anew, and what is behind.\<close>

definition erase_at :: "gallery_entry_id \<Rightarrow> gallery_item list \<Rightarrow> (gallery_item list \<times> gallery_item list) option" where
  "erase_at e xs =
     (case dropWhile (\<lambda>x. gi_id x \<noteq> e) xs of
        [] \<Rightarrow> None
      | _ # after \<Rightarrow> Some (relink_last (next_of after) (takeWhile (\<lambda>x. gi_id x \<noteq> e) xs), after))"

fun close_links ::
  "gallery_entry_id \<Rightarrow> gallery_entry_id \<Rightarrow> bool \<Rightarrow> gallery_item list \<Rightarrow> gallery_item list \<Rightarrow> gallery_item list" where
  "close_links from till reached done [] = done"
| "close_links from till reached done (x # xs) =
     (let behind = entry_less from (gi_id x)
      in if behind \<and> reached then done @ x # xs
         else let reached = (reached \<or> behind)
              in if entry_less (gi_id x) till then close_links from till reached (done @ [x]) xs
                 else close_links from till reached (relink_last (gi_id x) done @ [x]) xs)"

subsection \<open>The order and the content\<close>

lemma entry_less_iff [simp]: "entry_less a b \<longleftrightarrow> a < b"
  by (simp add: less_gallery_entry_id_def)

lemma contains_id_iff [simp]: "contains_id e xs \<longleftrightarrow> e \<in> ids xs"
  by (auto simp: contains_id_def list_ex_iff ids_def)

text \<open>A place in a sorted list: what is before an id and what is behind it.\<close>

lemma split_at:
  assumes "sorted_items xs" and "gi_id i \<notin> ids xs"
  obtains before after where "xs = before @ after" "\<forall>a\<in>ids before. a < gi_id i" "\<forall>b\<in>ids after. gi_id i < b"
    "sorted_items before" "sorted_items after" "\<forall>a\<in>ids before. \<forall>b\<in>ids after. a < b"
    "takeWhile (is_before i) xs = before \<and> dropWhile (is_before i) xs = after"
proof -
  let ?P = "\<lambda>x. gi_id x < gi_id i"
  have b: "\<forall>a\<in>ids (takeWhile ?P xs). a < gi_id i" by (auto simp: ids_def dest: set_takeWhileD)
  have a: "\<forall>b\<in>ids (dropWhile ?P xs). gi_id i < b" using assms
  proof (induction xs)
    case (Cons x xs)
    then show ?case by (auto simp: not_less)
  qed simp
  have "sorted_items (takeWhile ?P xs @ dropWhile ?P xs)" using assms(1) by simp
  then have s: "sorted_items (takeWhile ?P xs)" "sorted_items (dropWhile ?P xs)"
    "\<forall>a\<in>ids (takeWhile ?P xs). \<forall>b\<in>ids (dropWhile ?P xs). a < b" unfolding sorted_items_append by simp_all
  have p: "takeWhile (is_before i) xs = takeWhile ?P xs \<and> dropWhile (is_before i) xs = dropWhile ?P xs"
    by (simp add: is_before_def [abs_def])
  show thesis by (rule that [OF _ b a s p]) simp_all
qed

text \<open>The insertion of a new item, in words: between what is before it and what is behind it.\<close>

lemma insert_item_split:
  assumes "xs = before @ after" and "\<forall>a\<in>ids before. a < gi_id i" and "\<forall>b\<in>ids after. gi_id i < b"
    and "takeWhile (is_before i) xs = before \<and> dropWhile (is_before i) xs = after"
  shows "insert_item hole i xs =
    (if xs = [] then ([i], False)
     else if before = [] then (i\<lparr>gi_next := next_of after\<rparr> # after, False)
     else let ys = (if hole then before else relink_last (gi_id i) before) @ i\<lparr>gi_next := next_of after\<rparr> # after
          in (drop (length ys - max_items_size) ys, max_items_size < length ys))"
proof (cases xs)
  case (Cons x xs')
  show ?thesis
  proof (cases before)
    case Nil
    then have "gi_id i < gi_id x" using assms Cons by auto
    then show ?thesis using Nil Cons assms(1) by (auto simp: insert_item_def next_of_def)
  next
    case (Cons b bs)
    then have "b = x" "gi_id x < gi_id i" using assms(1,2) \<open>xs = x # xs'\<close> by auto
    then show ?thesis using assms(4) Cons \<open>xs = x # xs'\<close> by (auto simp: insert_item_def Let_def)
  qed
qed (simp add: insert_item_def)

text \<open>The shape of the result: what is before the item, the item, what is behind it, less what is cut off.\<close>

lemma insert_item_shape:
  assumes "sorted_items xs" and "gi_id i \<notin> ids xs"
  obtains before after before' j n where "xs = before @ after" "\<forall>a\<in>ids before. a < gi_id i" "\<forall>b\<in>ids after. gi_id i < b"
    "sorted_items before'" "sorted_items after" "\<forall>a\<in>ids before. \<forall>b\<in>ids after. a < b"
    "ids before' = ids before" "entries before' = entries before" "length before' = length before"
    "gi_id j = gi_id i" "content j = content i" "fst (insert_item hole i xs) = drop n (before' @ j # after)"
    "length xs < max_items_size \<Longrightarrow> n = 0 \<and> \<not> snd (insert_item hole i xs)"
proof -
  obtain before after where s: "xs = before @ after" "\<forall>a\<in>ids before. a < gi_id i" "\<forall>b\<in>ids after. gi_id i < b"
    "sorted_items before" "sorted_items after" "\<forall>a\<in>ids before. \<forall>b\<in>ids after. a < b"
    "takeWhile (is_before i) xs = before \<and> dropWhile (is_before i) xs = after"
    by (rule split_at [OF assms])
  note split = insert_item_split [OF s(1-3,7), of hole]
  have c: "content (i\<lparr>gi_next := e\<rparr>) = content i" for e by (simp add: content_def)
  show thesis
  proof (cases "xs = [] \<or> before = []")
    case True
    then have "fst (insert_item hole i xs) = drop 0 (before @ (if xs = [] then i else i\<lparr>gi_next := next_of after\<rparr>) # after)"
      "\<not> snd (insert_item hole i xs)" using split s(1) by auto
    from that [OF s(1-6) refl refl refl _ _ this(1)] this(2) c show thesis by auto
  next
    case False
    let ?b = "if hole then before else relink_last (gi_id i) before"
    let ?ys = "?b @ i\<lparr>gi_next := next_of after\<rparr> # after"
    have b: "sorted_items ?b" "ids ?b = ids before" "entries ?b = entries before" "length ?b = length before"
      using s(4) by simp_all
    have "fst (insert_item hole i xs) = drop (length ?ys - max_items_size) ?ys"
      "length xs < max_items_size \<Longrightarrow> length ?ys - max_items_size = 0 \<and> \<not> snd (insert_item hole i xs)"
      using split False s(1) by (simp_all add: Let_def)
    from that [OF s(1-3) b(1) s(5,6) b(2-4) _ c this] show thesis by simp
  qed
qed

lemma sorted_drop: "sorted_items ys \<Longrightarrow> sorted_items (drop n ys)"
  by (metis append_take_drop_id sorted_items_append)

lemma insert_item_sorted:
  assumes "sorted_items xs" and "gi_id i \<notin> ids xs"
  shows "sorted_items (fst (insert_item hole i xs))"
proof -
  obtain before after before' j n where s: "\<forall>a\<in>ids before. a < gi_id i" "\<forall>b\<in>ids after. gi_id i < b"
    "sorted_items before'" "sorted_items after" "\<forall>a\<in>ids before. \<forall>b\<in>ids after. a < b"
    "ids before' = ids before" "gi_id j = gi_id i" "fst (insert_item hole i xs) = drop n (before' @ j # after)"
    using insert_item_shape [OF assms, of hole] by metis
  then have "sorted_items (before' @ j # after)" by auto
  then show ?thesis unfolding s(8) by (rule sorted_drop)
qed

lemma insert_item_entries:
  assumes "sorted_items xs" and "gi_id i \<notin> ids xs" and "length xs < max_items_size"
  shows "entries (fst (insert_item hole i xs)) = (entries xs)(gi_id i \<mapsto> content i)"
    and "ids (fst (insert_item hole i xs)) = insert (gi_id i) (ids xs)"
    and "\<not> snd (insert_item hole i xs)" and "length (fst (insert_item hole i xs)) = Suc (length xs)"
proof -
  obtain before after before' j n where s: "xs = before @ after" "\<forall>a\<in>ids before. a < gi_id i" "\<forall>b\<in>ids after. gi_id i < b"
    "sorted_items before'" "sorted_items after" "\<forall>a\<in>ids before. \<forall>b\<in>ids after. a < b"
    "ids before' = ids before" "entries before' = entries before" "length before' = length before"
    "gi_id j = gi_id i" "content j = content i" "fst (insert_item hole i xs) = drop n (before' @ j # after)"
    "n = 0 \<and> \<not> snd (insert_item hole i xs)"
    using insert_item_shape [OF assms(1,2), of hole] assms(3) by metis
  have n: "entries before (gi_id i) = None" using assms(2) s(1) by (simp add: entries_None)
  then have "(entries after)(gi_id i \<mapsto> content i) ++ entries before = (entries after ++ entries before)(gi_id i \<mapsto> content i)"
    by (intro map_add_upd_left) (simp add: domIff)
  then show "entries (fst (insert_item hole i xs)) = (entries xs)(gi_id i \<mapsto> content i)"
    using s by simp
  show "ids (fst (insert_item hole i xs)) = insert (gi_id i) (ids xs)" "\<not> snd (insert_item hole i xs)"
    "length (fst (insert_item hole i xs)) = Suc (length xs)"
    using s by simp_all
qed

text \<open>Inserting many: the content of old items stays, and of several new ones with the same id the first counts.\<close>

lemma insert_items_sorted:
  "sorted_items xs \<Longrightarrow> insert_items hole is xs = (added, ys, full) \<Longrightarrow> sorted_items ys"
proof (induction "is" arbitrary: xs added full)
  case (Cons i "is")
  then show ?case
    using insert_item_sorted [OF Cons.prems(1), of i hole] by (fastforce split: if_splits prod.splits)
qed simp

lemma insert_items_entries:
  "sorted_items xs \<Longrightarrow> length xs + length is \<le> max_items_size \<Longrightarrow> insert_items hole is xs = (added, ys, full) \<Longrightarrow>
    entries ys = entries is ++ entries xs \<and> ids ys = ids xs \<union> ids is \<and> ids added = ids is - ids xs \<and>
    length ys \<le> length xs + length is \<and> \<not> full"
proof (induction "is" arbitrary: xs added full)
  case (Cons i "is")
  show ?case
  proof (cases "gi_id i \<in> ids xs")
    case True
    then have e: "(entries is)(gi_id i \<mapsto> content i) ++ entries xs = entries is ++ entries xs"
      using entries_None [of xs "gi_id i"] by (auto simp: fun_eq_iff map_add_def split: option.split)
    have "entries ys = entries is ++ entries xs \<and> ids ys = ids xs \<union> ids is \<and> ids added = ids is - ids xs \<and>
        length ys \<le> length xs + length is \<and> \<not> full"
      using Cons.IH [OF Cons.prems(1)] Cons.prems True by simp
    then show ?thesis using True unfolding entries_simps e by auto
  next
    case False
    obtain zs cut' where z: "insert_item hole i xs = (zs, cut')" by (cases "insert_item hole i xs")
    have "length xs < max_items_size" using Cons.prems(2) by simp
    note one = insert_item_entries [OF Cons.prems(1) False this, of hole, unfolded z fst_conv snd_conv]
    have "sorted_items zs" using insert_item_sorted [OF Cons.prems(1) False, of hole] z by simp
    moreover obtain added' full' where r: "insert_items hole is zs = (added', ys, full')" "added = i # added'" "full = (cut' \<or> full')"
      using Cons.prems(3) z False by (auto split: prod.splits)
    moreover have "length zs + length is \<le> max_items_size" using one(4) Cons.prems(2) by simp
    ultimately have h: "entries ys = entries is ++ entries zs" "ids ys = ids zs \<union> ids is" "ids added' = ids is - ids zs"
      "length ys \<le> length zs + length is" "\<not> full'" using Cons.IH by blast+
    have e: "(entries is)(gi_id i \<mapsto> content i) ++ entries xs = entries is ++ (entries xs)(gi_id i \<mapsto> content i)"
      using False entries_None [of xs "gi_id i"] by (auto simp: fun_eq_iff map_add_def split: option.split)
    show ?thesis using h one r(2,3) False unfolding entries_simps e by auto
  qed
qed (simp add: insert_Diff_if)

subsection \<open>The links\<close>

lemma filter_links:
  "sorted_items xs \<Longrightarrow> \<forall>a\<in>ids xs. \<forall>b\<in>ids xs. a < b \<longrightarrow> P a b \<Longrightarrow> filter (\<lambda>(a, b). P a b) (broken_links xs) = broken_links xs"
  by (rule filter_True) (use broken_links_between in fastforce)

lemma insert_item_links:
  assumes "sorted_items xs" and "gi_id i \<notin> ids xs" and "length xs < max_items_size"
  shows "broken_links (fst (insert_item False i xs)) =
    filter (\<lambda>(a, b). \<not> (a < gi_id i \<and> gi_id i < b)) (broken_links xs)"
proof -
  let ?P = "\<lambda>a b. \<not> (a < gi_id i \<and> gi_id i < b)"
  obtain before after where s: "xs = before @ after" "\<forall>a\<in>ids before. a < gi_id i" "\<forall>b\<in>ids after. gi_id i < b"
    "sorted_items before" "sorted_items after" "\<forall>a\<in>ids before. \<forall>b\<in>ids after. a < b"
    "takeWhile (is_before i) xs = before \<and> dropWhile (is_before i) xs = after"
    by (rule split_at [OF assms(1,2)])
  note split = insert_item_split [OF s(1-3,7), of False]
  have f: "filter (\<lambda>(a, b). ?P a b) (broken_links before) = broken_links before"
    "filter (\<lambda>(a, b). ?P a b) (broken_links after) = broken_links after"
    using s(2,3) by (auto intro!: filter_links s(4,5) dest: less_asym)
  show ?thesis
  proof (cases before rule: rev_cases)
    case Nil
    then show ?thesis using split s(1) f(2) by (cases after) (simp_all add: next_of_def)
  next
    case (snoc bs b)
    note f1 = f(1) [unfolded snoc]
    let ?ys = "bs @ b\<lparr>gi_next := gi_id i\<rparr> # i\<lparr>gi_next := next_of after\<rparr> # after"
    have e: "fst (insert_item False i xs) = ?ys"
      using split s(1) snoc assms(3) by (simp add: Let_def)
    show ?thesis
    proof (cases after)
      case Nil
      then show ?thesis using e s(1) snoc f(1) by (simp add: broken_links_split)
    next
      case (Cons y ys)
      have "gi_id b < gi_id i" "gi_id i < gi_id y" using s(2,3) snoc Cons by simp_all
      moreover note f(2) [unfolded Cons] f1
      ultimately show ?thesis unfolding e using s(1) snoc Cons by (simp add: broken_links_split next_of_def)
    qed
  qed
qed

lemma insert_items_links:
  "sorted_items xs \<Longrightarrow> length xs + length is \<le> max_items_size \<Longrightarrow> insert_items False is xs = (added, ys, full) \<Longrightarrow>
    broken_links ys = filter (\<lambda>(a, b). \<not> (\<exists>e\<in>ids added. a < e \<and> e < b)) (broken_links xs)"
proof (induction "is" arbitrary: xs added full)
  case (Cons i "is")
  show ?case
  proof (cases "gi_id i \<in> ids xs")
    case True
    then show ?thesis using Cons by auto
  next
    case False
    obtain zs cut' where z: "insert_item False i xs = (zs, cut')" by (cases "insert_item False i xs")
    have l: "length xs < max_items_size" using Cons.prems(2) by simp
    have "sorted_items zs" using insert_item_sorted [OF Cons.prems(1) False, of False] z by simp
    moreover have "length zs + length is \<le> max_items_size"
      using insert_item_entries(4) [OF Cons.prems(1) False l, of False] z Cons.prems(2) by simp
    moreover obtain added' full' where r: "insert_items False is zs = (added', ys, full')" "added = i # added'"
      using Cons.prems(3) z False by (auto split: prod.splits)
    ultimately have "broken_links ys = filter (\<lambda>(a, b). \<not> (\<exists>e\<in>ids added'. a < e \<and> e < b)) (broken_links zs)"
      using Cons.IH by blast
    then show ?thesis
      using insert_item_links [OF Cons.prems(1) False l] z r(2) by (auto simp: case_prod_unfold intro!: filter_cong)
  qed
qed (auto simp: case_prod_unfold)

subsection \<open>Erasing and closing\<close>

text \<open>Lists with the same contents have the same ids, order and entries, and may differ in their links.\<close>

lemma same_content:
  assumes "map content xs = map content ys"
  shows "ids xs = ids ys" and "sorted_items xs = sorted_items ys" and "entries xs = entries ys" and "length xs = length ys"
proof -
  have i: "map gi_id zs = map gi_id (map content zs)" for zs by (simp add: content_def comp_def)
  have e: "entries zs = map_of (map (\<lambda>c. (gi_id c, c)) (map content zs))" for zs
    by (simp add: entries_def comp_def content_def)
  have "ids zs = set (map gi_id zs)" for zs by (simp add: ids_def)
  then show "ids xs = ids ys" "sorted_items xs = sorted_items ys"
    using assms i [of xs] i [of ys] by (simp_all add: sorted_items_def del: map_map set_map)
  show "entries xs = entries ys" using assms e [of xs] e [of ys] by simp
  show "length xs = length ys" using assms by (metis length_map)
qed

lemma drop_older_filter: "sorted_items xs \<Longrightarrow> drop_older up_to xs = filter (\<lambda>x. up_to < ge_msg_id (gi_id x)) xs"
proof (induction xs)
  case (Cons x xs)
  have "up_to < ge_msg_id (gi_id y)" if "up_to < ge_msg_id (gi_id x)" "y \<in> set xs" for y
  proof -
    have "gi_id x < gi_id y" using Cons.prems that(2) by (auto simp: ids_def)
    then show ?thesis using that(1) by (cases "gi_id x"; cases "gi_id y") auto
  qed
  then have "filter (\<lambda>x. up_to < ge_msg_id (gi_id x)) xs = xs" if "up_to < ge_msg_id (gi_id x)"
    using that by (simp add: filter_id_conv)
  with Cons show ?case by (auto simp: drop_older_def)
qed (simp add: drop_older_def)

lemma drop_older_sorted: "sorted_items xs \<Longrightarrow> sorted_items (drop_older up_to xs)"
  by (metis drop_older_def sorted_items_append takeWhile_dropWhile_id)

lemma content_id [simp]: "gi_id (content x) = gi_id x"
  by (simp add: content_def)

lemma sorted_filter: "sorted_items xs \<Longrightarrow> sorted_items (filter P xs)"
  by (induction xs) (auto simp: ids_def)

lemma erase_patched_content:
  "map content (erase_patched p done xs) = map content (done @ filter (\<lambda>x. ge_msg_id (gi_id x) \<noteq> gp_msg_id p) xs)"
  by (induction xs arbitrary: "done") simp_all

lemma erase_at_None: "erase_at e xs = None \<longleftrightarrow> e \<notin> ids xs"
proof -
  have "erase_at e xs = None \<longleftrightarrow> dropWhile (\<lambda>x. gi_id x \<noteq> e) xs = []"
    by (cases "dropWhile (\<lambda>x. gi_id x \<noteq> e) xs") (simp_all add: erase_at_def del: dropWhile_eq_Nil_conv)
  also have "\<dots> \<longleftrightarrow> e \<notin> ids xs" unfolding dropWhile_eq_Nil_conv by (auto simp: ids_def)
  finally show ?thesis .
qed

lemma erase_at_content:
  assumes "erase_at e xs = Some (before, after)" and "sorted_items xs"
  shows "map content (before @ after) = map content (filter (\<lambda>x. gi_id x \<noteq> e) xs)"
proof -
  obtain x where x: "dropWhile (\<lambda>x. gi_id x \<noteq> e) xs = x # after"
    and b: "before = relink_last (next_of after) (takeWhile (\<lambda>x. gi_id x \<noteq> e) xs)"
    using assms(1) by (auto simp: erase_at_def split: list.splits)
  have e: "gi_id x = e" using x hd_dropWhile [of "\<lambda>x. gi_id x \<noteq> e" xs] by force
  have xs: "xs = takeWhile (\<lambda>x. gi_id x \<noteq> e) xs @ x # after" using x by (metis takeWhile_dropWhile_id)
  have "\<forall>b\<in>ids after. e < b" using assms(2) e by (subst (asm) xs) auto
  then have "filter (\<lambda>x. gi_id x \<noteq> e) after = after" by (auto simp: filter_id_conv ids_def)
  moreover have "filter (\<lambda>x. gi_id x \<noteq> e) (takeWhile (\<lambda>x. gi_id x \<noteq> e) xs) = takeWhile (\<lambda>x. gi_id x \<noteq> e) xs"
    by (auto simp: filter_id_conv dest: set_takeWhileD)
  ultimately have "filter (\<lambda>x. gi_id x \<noteq> e) xs = takeWhile (\<lambda>x. gi_id x \<noteq> e) xs @ after"
    by (subst xs) (simp add: e)
  then show ?thesis by (simp add: b)
qed

lemma close_links_content: "map content (close_links from till reached done xs) = map content (done @ xs)"
  by (induction xs arbitrary: reached "done") (simp_all add: Let_def)

text \<open>
  The links that are closed are those from an item that is not behind \<open>from\<close> to one that is not before \<open>till\<close>:
  the one that leads to \<open>till\<close> and the one that leads on from \<open>from\<close> are among them.
\<close>

lemma close_links_from:
  "sorted_items (done @ xs) \<Longrightarrow> reached = (\<exists>d\<in>ids done. from < d) \<Longrightarrow>
    broken_links (close_links from till reached done xs) =
      broken_links done @ filter (\<lambda>(a, b). b < till \<or> from < a) (broken_links ((if done = [] then [] else [last done]) @ xs))"
proof (induction xs arbitrary: reached "done")
  case (Cons x xs)
  let ?P = "\<lambda>(a, b). b < till \<or> from < a"
  have IH: "broken_links (close_links from till (reached \<or> from < gi_id x) (ds @ [x]) xs) =
      broken_links (ds @ [x]) @ filter ?P (broken_links (x # xs))" if "ids ds = ids done" "sorted_items ds" for ds
  proof -
    have "sorted_items ((ds @ [x]) @ xs)" using Cons.prems(1) that by simp
    moreover have "(reached \<or> from < gi_id x) = (\<exists>d\<in>ids (ds @ [x]). from < d)" using Cons.prems(2) that(1) by auto
    ultimately show ?thesis by (simp only: Cons.IH) simp
  qed
  show ?case
  proof (cases "done" rule: rev_cases)
    case Nil
    with Cons.prems(2) have "\<not> reached" by simp
    moreover have "relink_last (gi_id x) done = []" using Nil by simp
    ultimately show ?thesis using IH [of "done"] Cons.prems(1) Nil by (simp add: Let_def)
  next
    case (snoc ds d)
    have d: "gi_id d < gi_id x" "\<forall>e\<in>ids xs. gi_id x < e" "sorted_items xs" "sorted_items done" "\<forall>e\<in>ids ds. e < gi_id d"
      using Cons.prems(1) snoc by auto
    have r: "reached \<longleftrightarrow> from < gi_id d" using Cons.prems(2) d(5) snoc by (auto dest: less_trans)
    show ?thesis
    proof (cases "from < gi_id x \<and> reached")
      case True
      have "filter ?P (broken_links (d # x # xs)) = broken_links (d # x # xs)"
        using d True r by (intro filter_links) (auto dest: less_trans)
      then show ?thesis using True snoc by (simp add: Let_def broken_links_split [of ds d x xs])
    next
      case False
      then have "\<not> from < gi_id d" and n: "(from < gi_id x \<and> reached) = False" using r d(1) by auto
      then show ?thesis using IH [of "done"] IH [of "relink_last (gi_id x) done"] d(4) snoc
        by (simp add: Let_def n broken_links_split [of ds d x "[]"] broken_links_split [of ds _ x "[]"] del: de_Morgan_conj)
    qed
  qed
qed simp

lemma close_links_links:
  "sorted_items xs \<Longrightarrow> broken_links (close_links from till False [] xs) = filter (\<lambda>(a, b). b < till \<or> from < a) (broken_links xs)"
  using close_links_from [of "[]" xs False "from" till] by simp

end
