(* ===== verification/Gallery_Cache.thy ===== *)
theory Gallery_Cache
  imports Gallery_Links
begin

text \<open>
  The class \<^verbatim>\<open>gallery_storage\<close> of \<^verbatim>\<open>core/archive/gallery_cache.cpp\<close>: its state, its two files, merging with an
  answer of the server, pages of items and the search for holes. An answer of the server is an object of the
  same class without files, whose reader of JSON is not modelled. \<^verbatim>\<open>None\<close> is the use of a file that is not
  there. The time is an argument, in nanoseconds.
\<close>

subsection \<open>The state\<close>

record gallery_state =
  gst_patch_version :: cstring
  gst_last_entry :: gallery_entry_id
  gst_first_entry :: gallery_entry_id
  gst_images :: int
  gst_videos :: int
  gst_files :: int
  gst_links :: int
  gst_ptt :: int
  gst_audio :: int
  gst_patch_changed :: bool

definition gallery_state_default :: gallery_state where
  "gallery_state_default = \<lparr>gst_patch_version = [], gst_last_entry = no_entry, gst_first_entry = never_requested,
     gst_images = 0, gst_videos = 0, gst_files = 0, gst_links = 0, gst_ptt = 0, gst_audio = 0, gst_patch_changed = False\<rparr>"

text \<open>The comparison leaves out the first entry and the flag.\<close>

definition gallery_state_equal :: "gallery_state \<Rightarrow> gallery_state \<Rightarrow> bool" where
  "gallery_state_equal a b \<longleftrightarrow> gst_patch_version a = gst_patch_version b \<and> gst_last_entry a = gst_last_entry b \<and>
     gst_images a = gst_images b \<and> gst_videos a = gst_videos b \<and> gst_files a = gst_files b \<and> gst_links a = gst_links b \<and>
     gst_ptt a = gst_ptt b \<and> gst_audio a = gst_audio b"

record gallery_storage =
  gal_aimid :: cstring
  gal_my_aimid :: cstring
  gal_state :: gallery_state
  gal_items :: "gallery_item list"
  gal_patches :: "gallery_patch list"
  gal_older :: gallery_entry_id
  gal_first_reached :: bool
  gal_loaded :: bool
  gal_del_up_to :: int
  gal_cache :: "storage option"
  gal_state_file :: "storage option"
  gal_hole_requested :: bool
  gal_first_load :: bool
  gal_last_check :: int

definition consistency_check_period :: int where
  "consistency_check_period = 24 * 3600 * 10 ^ 9"

definition mk_server_gallery :: "int \<Rightarrow> cstring \<Rightarrow> gallery_storage" where
  "mk_server_gallery now aimid = \<lparr>gal_aimid = aimid, gal_my_aimid = [], gal_state = gallery_state_default, gal_items = [],
     gal_patches = [], gal_older = no_entry, gal_first_reached = False, gal_loaded = False, gal_del_up_to = -1,
     gal_cache = None, gal_state_file = None, gal_hole_requested = False, gal_first_load = False,
     gal_last_check = now - consistency_check_period\<rparr>"

definition mk_gallery :: "int \<Rightarrow> storage \<Rightarrow> storage \<Rightarrow> gallery_storage" where
  "mk_gallery now cache state = (mk_server_gallery now [])\<lparr>gal_cache := Some cache, gal_state_file := Some state\<rparr>"

definition copy_gallery :: "gallery_storage \<Rightarrow> gallery_storage" where
  "copy_gallery g = g\<lparr>gal_my_aimid := [], gal_loaded := False, gal_cache := None, gal_state_file := None,
     gal_hole_requested := False\<rparr>"

definition free_gallery :: "gallery_storage \<Rightarrow> gallery_storage" where
  "free_gallery g = g\<lparr>gal_aimid := [], gal_state := gallery_state_default, gal_items := [], gal_patches := [],
     gal_older := no_entry, gal_first_reached := False, gal_loaded := False, gal_first_load := False\<rparr>"

definition set_aimid :: "cstring \<Rightarrow> gallery_storage \<Rightarrow> gallery_storage" where
  "set_aimid a g = g\<lparr>gal_aimid := a\<rparr>"

definition set_my_aimid :: "cstring \<Rightarrow> gallery_storage \<Rightarrow> gallery_storage" where
  "set_my_aimid a g = g\<lparr>gal_my_aimid := a\<rparr>"

definition set_first_entry_reached :: "bool \<Rightarrow> gallery_storage \<Rightarrow> gallery_storage" where
  "set_first_entry_reached b g = g\<lparr>gal_first_reached := b\<rparr>"

definition gallery_erased :: "gallery_storage \<Rightarrow> bool" where
  "gallery_erased g \<longleftrightarrow> gal_del_up_to g \<noteq> -1"

definition clear_hole_request :: "gallery_storage \<Rightarrow> gallery_storage" where
  "clear_hole_request g = g\<lparr>gal_hole_requested := False\<rparr>"

subsection \<open>The files\<close>

definition sf_patch_version :: u32 where [simp]: "sf_patch_version = 1"
definition sf_last_entry_msg :: u32 where [simp]: "sf_last_entry_msg = 2"
definition sf_last_entry_seq :: u32 where [simp]: "sf_last_entry_seq = 3"
definition sf_first_entry_msg :: u32 where [simp]: "sf_first_entry_msg = 4"
definition sf_first_entry_seq :: u32 where [simp]: "sf_first_entry_seq = 5"
definition sf_images :: u32 where [simp]: "sf_images = 6"
definition sf_videos :: u32 where [simp]: "sf_videos = 7"
definition sf_files :: u32 where [simp]: "sf_files = 8"
definition sf_links :: u32 where [simp]: "sf_links = 9"
definition sf_ptt :: u32 where [simp]: "sf_ptt = 10"
definition sf_audio :: u32 where [simp]: "sf_audio = 11"
definition sf_patch_version_changed :: u32 where [simp]: "sf_patch_version_changed = 12"

definition state_fields :: "gallery_state \<Rightarrow> tlv list" where
  "state_fields s =
     [mk_tlv sf_patch_version (gst_patch_version s),
      mk_tlv sf_last_entry_msg (i64_image (ge_msg_id (gst_last_entry s))),
      mk_tlv sf_last_entry_seq (i64_image (ge_seq (gst_last_entry s))),
      mk_tlv sf_first_entry_msg (i64_image (ge_msg_id (gst_first_entry s))),
      mk_tlv sf_first_entry_seq (i64_image (ge_seq (gst_first_entry s))),
      mk_tlv sf_images (i32_image (gst_images s)),
      mk_tlv sf_videos (i32_image (gst_videos s)),
      mk_tlv sf_files (i32_image (gst_files s)),
      mk_tlv sf_links (i32_image (gst_links s)),
      mk_tlv sf_ptt (i32_image (gst_ptt s)),
      mk_tlv sf_audio (i32_image (gst_audio s)),
      mk_tlv sf_patch_version_changed (bool_image (gst_patch_changed s))]"

definition state_field :: "tlv \<Rightarrow> gallery_state \<Rightarrow> gallery_state" where
  "state_field t s =
     (let ty = tlv_type t
      in if ty = sf_patch_version then s\<lparr>gst_patch_version := get_string t\<rparr>
         else if ty = sf_last_entry_msg then s\<lparr>gst_last_entry := with_msg_id (get_i64 t) (gst_last_entry s)\<rparr>
         else if ty = sf_last_entry_seq then s\<lparr>gst_last_entry := with_seq (get_i64 t) (gst_last_entry s)\<rparr>
         else if ty = sf_first_entry_msg then s\<lparr>gst_first_entry := with_msg_id (get_i64 t) (gst_first_entry s)\<rparr>
         else if ty = sf_first_entry_seq then s\<lparr>gst_first_entry := with_seq (get_i64 t) (gst_first_entry s)\<rparr>
         else if ty = sf_images then s\<lparr>gst_images := get_i32 t\<rparr>
         else if ty = sf_videos then s\<lparr>gst_videos := get_i32 t\<rparr>
         else if ty = sf_files then s\<lparr>gst_files := get_i32 t\<rparr>
         else if ty = sf_links then s\<lparr>gst_links := get_i32 t\<rparr>
         else if ty = sf_ptt then s\<lparr>gst_ptt := get_i32 t\<rparr>
         else if ty = sf_audio then s\<lparr>gst_audio := get_i32 t\<rparr>
         else if ty = sf_patch_version_changed then s\<lparr>gst_patch_changed := get_bool t\<rparr>
         else s)"

text \<open>
  \<^verbatim>\<open>while (stream.available()) { tlvpack pack; if (!pack.unserialize(stream)) return false; ... }\<close>, the loop over
  the packs of a block. A pack that is read takes all there is, so the loop ends.
\<close>

lemma unserialize_loop_takes_all: "unserialize_loop acc s = Some (True, ts, s') \<Longrightarrow> available s' = 0"
proof (induction acc s rule: unserialize_loop.induct)
  case (1 acc s)
  note step = unserialize_loop.simps [of acc s]
  show ?case
  proof (cases "available s = 0")
    case True
    then show ?thesis using 1(2) by (simp add: step)
  next
    case False
    then obtain b t s1 where u: "tlv_unserialize s = Some (b, t, s1)"
      using 1(2) by (cases "tlv_unserialize s") (auto simp: step)
    then have b: b using 1(2) False by (cases b) (auto simp: step)
    then have "unserialize_loop (acc @ [t]) s1 = Some (True, ts, s')" using 1(2) False u by (simp add: step)
    from 1(1) [OF False u refl refl b this] show ?thesis .
  qed
qed

lemma pack_unserialize_takes_all: "pack_unserialize p s = Some (True, q, s') \<Longrightarrow> available s' = 0"
  by (auto simp: pack_unserialize_def bind_eq_Some_conv dest: unserialize_loop_takes_all)

function read_packs ::
  "(tlv list \<Rightarrow> 'a \<Rightarrow> (bool \<times> 'a) option) \<Rightarrow> binary_stream \<Rightarrow> 'a \<Rightarrow> (bool \<times> binary_stream \<times> 'a) option" where
  "read_packs body d x =
     (if available d = 0 then Some (True, d, x)
      else case pack_unserialize empty_pack d of
             None \<Rightarrow> None
           | Some (False, p, d) \<Rightarrow> Some (False, d, x)
           | Some (True, p, d) \<Rightarrow>
               (case body (walk p) x of
                  None \<Rightarrow> None
                | Some (False, x) \<Rightarrow> Some (False, d, x)
                | Some (True, x) \<Rightarrow> read_packs body d x))"
  by pat_completeness auto
termination
  by (relation "measure (\<lambda>(body, d, x). if available d = 0 then 0 else 1)") (auto dest: pack_unserialize_takes_all)

declare read_packs.simps [simp del]

text \<open>Opening a file, reading its blocks and packs, closing it: whether all of it was read, and what was.\<close>

definition read_file ::
  "(tlv list \<Rightarrow> 'a \<Rightarrow> (bool \<times> 'a) option) \<Rightarrow> 'a \<Rightarrow> storage option \<Rightarrow> (bool \<times> 'a \<times> storage option) option" where
  "read_file body x file =
     (case file of
        None \<Rightarrow> Some (False, x, None)
      | Some st \<Rightarrow>
          (case storage_open (mode_zero\<lparr>sm_read := True\<rparr>) st of
             (False, st) \<Rightarrow> Some (False, x, Some st)
           | (True, st) \<Rightarrow>
               map_option (\<lambda>(ended, x, st). (ended \<and> st_last_error st = end_of_file, x, Some (storage_close st)))
                 (read_blocks (\<lambda>_ d x. read_packs body d x) x st empty_stream)))"

fun load_items :: "tlv list \<Rightarrow> gallery_item list \<Rightarrow> (bool \<times> gallery_item list) option" where
  "load_items [] xs = Some (True, xs)"
| "load_items (t # ts) xs = do {
     (ok, i) \<leftarrow> item_unserialize (get_stream t);
     if ok then load_items ts (xs @ [i]) else Some (False, xs)
   }"

definition load_cache :: "gallery_storage \<Rightarrow> (bool \<times> gallery_storage) option" where
  "load_cache g = map_option (\<lambda>(ok, items, file). (ok, g\<lparr>gal_items := items, gal_cache := file\<rparr>))
     (read_file load_items (gal_items g) (gal_cache g))"

definition load_state :: "gallery_storage \<Rightarrow> (bool \<times> gallery_storage) option" where
  "load_state g = map_option (\<lambda>(ok, s, file). (ok, g\<lparr>gal_state := s, gal_state_file := file\<rparr>))
     (read_file (\<lambda>ts s. Some (True, fold state_field ts s)) (gal_state g) (gal_state_file g))"

definition load_gallery :: "gallery_storage \<Rightarrow> gallery_storage option" where
  "load_gallery g =
     (if gal_loaded g then Some g
      else do {
        (_, g) \<leftarrow> load_state g;
        (_, g) \<leftarrow> load_cache g;
        Some (g\<lparr>gal_first_load := True, gal_loaded := True\<rparr>)
      })"

definition max_block_size :: nat where
  "max_block_size = 1000"

definition item_tlv :: "gallery_item \<Rightarrow> tlv" where
  "item_tlv i = mk_tlv_stream gf_item_pack (pack_serialize (pack_of (item_fields i)) empty_stream)"

definition write_pack :: "tlv list \<Rightarrow> storage \<Rightarrow> (bool \<times> storage) option" where
  "write_pack ts st = map_option (\<lambda>((ok, _), _, _, st). (ok, st)) (write_data_block (pack_serialize (pack_of ts) empty_stream) 0 st)"

fun save_items :: "gallery_item list \<Rightarrow> gallery_item list \<Rightarrow> storage \<Rightarrow> (bool \<times> storage) option" where
  "save_items items [] st = (if items \<noteq> [] then write_pack (map item_tlv items) st else Some (True, st))"
| "save_items items (x # xs) st =
     (let items = items @ [x]
      in if max_block_size \<le> length items
         then do { (ok, st) \<leftarrow> write_pack (map item_tlv items) st; if ok then save_items [] xs st else Some (False, st) }
         else save_items items xs st)"

text \<open>Emptying a file, writing it and closing it.\<close>

definition write_file :: "(storage \<Rightarrow> (bool \<times> storage) option) \<Rightarrow> storage option \<Rightarrow> (bool \<times> storage option) option" where
  "write_file body file = do {
     st \<leftarrow> file;
     case storage_open (mode_zero\<lparr>sm_write := True, sm_truncate := True\<rparr>) st of
       (False, st) \<Rightarrow> Some (False, Some st)
     | (True, st) \<Rightarrow> map_option (\<lambda>(ok, st). (ok, Some (storage_close st))) (body st)
   }"

definition save_cache :: "gallery_storage \<Rightarrow> (bool \<times> gallery_storage) option" where
  "save_cache g = map_option (\<lambda>(ok, file). (ok, g\<lparr>gal_cache := file\<rparr>)) (write_file (save_items [] (gal_items g)) (gal_cache g))"

definition save_state :: "gallery_storage \<Rightarrow> (bool \<times> gallery_storage) option" where
  "save_state g = map_option (\<lambda>(ok, file). (ok, g\<lparr>gal_state_file := file\<rparr>))
     (write_file (write_pack (state_fields (gal_state g))) (gal_state_file g))"

text \<open>The callers do not look at the result.\<close>

definition cache_saved :: "gallery_storage \<Rightarrow> gallery_storage option" where
  "cache_saved g = map_option snd (save_cache g)"

definition state_saved :: "gallery_storage \<Rightarrow> gallery_storage option" where
  "state_saved g = map_option snd (save_state g)"

subsection \<open>Merging with an answer of the server\<close>

definition with_state :: "(gallery_state \<Rightarrow> gallery_state) \<Rightarrow> gallery_storage \<Rightarrow> gallery_storage" where
  "with_state f g = g\<lparr>gal_state := f (gal_state g)\<rparr>"

definition first_after_drop :: "gallery_item list \<Rightarrow> gallery_entry_id \<Rightarrow> gallery_entry_id" where
  "first_after_drop xs first =
     (if xs = [] then no_entry
      else if entry_valid first \<and> \<not> entry_empty first then next_of xs
      else first)"

definition delete_older :: "int \<Rightarrow> gallery_storage \<Rightarrow> gallery_storage option" where
  "delete_older up_to g =
     (let items = drop_older up_to (gal_items g)
      in state_saved (with_state (\<lambda>s. s\<lparr>gst_first_entry := first_after_drop items (gst_first_entry s)\<rparr>) (g\<lparr>gal_items := items\<rparr>)))"

text \<open>Whether the answer leaves a hole behind what is there.\<close>

definition leaves_hole :: "gallery_storage \<Rightarrow> gallery_entry_id \<Rightarrow> gallery_item list \<Rightarrow> bool" where
  "leaves_hole other till xs =
     (if entry_empty (gal_older other)
      then (if entry_empty till then False else \<not> contains_id till xs)
      else \<not> contains_id (gal_older other) xs)"

definition update_first_entry :: "gallery_storage \<Rightarrow> bool \<Rightarrow> gallery_storage \<Rightarrow> gallery_storage option" where
  "update_first_entry other full g =
     (if gal_first_reached other \<or> full
      then state_saved (with_state (\<lambda>s. s\<lparr>gst_first_entry := next_of (gal_items g),
             gst_last_entry := (if gal_items g = [] then no_entry else gst_last_entry s)\<rparr>) g)
      else if \<not> entry_valid (gst_first_entry (gal_state g))
      then state_saved (with_state (\<lambda>s. s\<lparr>gst_first_entry := no_entry,
             gst_patch_version := gst_patch_version (gal_state other)\<rparr>) g)
      else Some g)"

definition erase_entry :: "gallery_entry_id \<Rightarrow> gallery_storage \<Rightarrow> gallery_storage option" where
  "erase_entry e g =
     (case erase_at e (gal_items g) of
        None \<Rightarrow> Some g
      | Some (before, after) \<Rightarrow>
          let g = g\<lparr>gal_items := before @ after\<rparr>
          in if before = [] \<and> after = []
             then state_saved (with_state (\<lambda>s. s\<lparr>gst_last_entry := no_entry, gst_first_entry := never_requested\<rparr>) g)
             else if before = []
             then state_saved (with_state (\<lambda>s. s\<lparr>gst_first_entry := next_of after\<rparr>) g)
             else if gst_last_entry (gal_state g) = e
             then state_saved (with_state (\<lambda>s. s\<lparr>gst_last_entry := no_entry\<rparr>) g)
             else Some g)"

text \<open>An answer of fewer items than were asked for is complete.\<close>

definition asked_count :: nat where
  "asked_count = 1000"

definition merge_from_server ::
  "gallery_storage \<Rightarrow> gallery_entry_id \<Rightarrow> gallery_entry_id \<Rightarrow> gallery_storage \<Rightarrow> (gallery_item list \<times> gallery_storage) option" where
  "merge_from_server other from till g = do {
     g \<leftarrow> (if gal_del_up_to other \<noteq> -1 then delete_older (gal_del_up_to other) g else Some g);
     let hole = leaves_hole other till (gal_items g);
     let (added, items, full) = insert_items hole (gal_items other) (gal_items g);
     g \<leftarrow> update_first_entry other full (g\<lparr>gal_items := items\<rparr>);
     let g = g\<lparr>gal_items := fold (\<lambda>p. erase_patched p []) (gal_patches other) (gal_items g)\<rparr>;
     let complete = length (gal_items other) < asked_count;
     g \<leftarrow> (if \<not> entry_empty from \<and> \<not> contains_id from (gal_items other) then erase_entry from g else Some g);
     g \<leftarrow> (if complete \<and> \<not> entry_empty till \<and> \<not> contains_id till (gal_items other) then erase_entry till g else Some g);
     let g = (if complete \<and> \<not> entry_empty from \<and> \<not> entry_empty till
              then g\<lparr>gal_items := close_links from till False [] (gal_items g)\<rparr> else g);
     g \<leftarrow> cache_saved g;
     g \<leftarrow> (if gst_patch_version (gal_state g) \<noteq> gst_patch_version (gal_state other)
           then state_saved (with_state (gst_patch_changed_update (\<lambda>_. True)) g) else Some g);
     Some (map (gi_action_update (\<lambda>_. action_add)) added @ map patch_change (gal_patches other), g)
   }"

definition set_gallery_state :: "gallery_state \<Rightarrow> bool \<Rightarrow> gallery_storage \<Rightarrow> gallery_storage option" where
  "set_gallery_state n store_patch_version g =
     (let first = gst_first_entry (gal_state g);
          version = gst_patch_version (gal_state g);
          s = n\<lparr>gst_first_entry := first\<rparr>;
          s = (if \<not> store_patch_version \<and> entry_valid first
               then s\<lparr>gst_patch_version := version, gst_patch_changed := version \<noteq> gst_patch_version n\<rparr>
               else s\<lparr>gst_patch_changed := False\<rparr>)
      in state_saved (g\<lparr>gal_state := s\<rparr>))"

subsection \<open>Pages\<close>

text \<open>
  One item too many is collected, so that a full page is told from the last one. The result is the items, the
  number of them less one, and whether the list was used up.
\<close>

fun collect_items :: "cstring list \<Rightarrow> int \<Rightarrow> int \<Rightarrow> gallery_item list \<Rightarrow> gallery_item list \<times> int \<times> bool" where
  "collect_items types limit count [] = ([], count, True)"
| "collect_items types limit count (x # xs) =
     (if count = limit then ([], count, False)
      else if gi_type x \<in> set types
      then case collect_items types limit (count + 1) xs of (ys, count, ended) \<Rightarrow> (x # ys, count, ended)
      else collect_items types limit count xs)"

definition get_page ::
  "gallery_entry_id \<Rightarrow> cstring list \<Rightarrow> int \<Rightarrow> bool \<Rightarrow> gallery_storage \<Rightarrow> gallery_item list \<times> bool" where
  "get_page from types page_size exhausted g =
     (let xs = gal_items g;
          reached = \<not> entry_empty (gst_first_entry (gal_state g));
          finish = (\<lambda>(ys, count, _). if count = \<bar>page_size\<bar> then butlast ys else ys)
      in if xs = [] then ([], True)
         else if entry_empty from
         then case collect_items types page_size (-1) (rev xs) of
                (ys, count, ended) \<Rightarrow> (finish (ys, count, ended), if ended then reached else exhausted)
         else case dropWhile (\<lambda>x. gi_id x \<noteq> from) xs of
                [] \<Rightarrow> ([], True)
              | _ # newer \<Rightarrow>
                  let older = takeWhile (\<lambda>x. gi_id x \<noteq> from) xs
                  in if page_size > 0 \<and> older = [] then ([], reached)
                     else if page_size > 0
                     then (finish (collect_items types \<bar>page_size\<bar> (-1) (rev older)), exhausted)
                     else case collect_items types \<bar>page_size\<bar> (-1) newer of
                            (ys, count, ended) \<Rightarrow> (finish (ys, count, ended), if ended then reached else exhausted))"

text \<open>The items of a message, with their place among the items of the kinds asked for and the number of those.\<close>

definition get_by_msg ::
  "int \<Rightarrow> cstring list \<Rightarrow> int \<times> int \<Rightarrow> gallery_storage \<Rightarrow> gallery_item list \<times> int \<times> int" where
  "get_by_msg msg_id types index_total g =
     (if gal_items g = [] then ([], index_total)
      else fold (\<lambda>x (ys, index, total).
          if gi_type x \<notin> set types then (ys, index, total)
          else if ge_msg_id (gi_id x) = msg_id then (ys @ [x], index, total + 1)
          else if ge_msg_id (gi_id x) < msg_id then (ys, index + 1, total + 1)
          else (ys, index, total + 1))
        (gal_items g) ([], 0, 0))"

subsection \<open>Holes\<close>

text \<open>
  At least 95 percent of the items the state counts are there, or the other way round. The quotient is
  compared in double precision, which decides as the integers do for these sizes; a quotient of two zeros is
  not a number, and a negative count taken as unsigned is larger than any size.
\<close>

definition consistent_counts :: "nat \<Rightarrow> int \<Rightarrow> bool" where
  "consistent_counts n count =
     (if count < 0 \<or> (count = 0 \<and> n = 0) then False
      else if int n \<le> count then 19 * count \<le> 20 * int n
      else 19 * int n \<le> 20 * count)"

definition count_from_state :: "gallery_state \<Rightarrow> int" where
  "count_from_state s = gst_audio s + gst_files s + gst_images s + gst_links s + gst_videos s + gst_ptt s"

definition check_consistency :: "int \<Rightarrow> gallery_storage \<Rightarrow> bool \<times> gallery_storage" where
  "check_consistency now g =
     (if \<not> gal_loaded g \<or> now - gal_last_check g < consistency_check_period then (True, g)
      else if length (gal_items g) = max_items_size then (True, g)
      else (consistent_counts (length (gal_items g)) (count_from_state (gal_state g)), g\<lparr>gal_last_check := now\<rparr>))"

definition clear_gallery :: "gallery_storage \<Rightarrow> gallery_storage option" where
  "clear_gallery g = do {
     g \<leftarrow> cache_saved (g\<lparr>gal_items := [], gal_state := gallery_state_default\<rparr>);
     state_saved g
   }"

fun scan_links :: "gallery_entry_id \<Rightarrow> gallery_entry_id \<Rightarrow> gallery_item list \<Rightarrow> (gallery_entry_id \<times> gallery_entry_id) option" where
  "scan_links prev prev_next [] = None"
| "scan_links prev prev_next (x # xs) =
     (if prev_next \<noteq> gi_id x then Some (gi_id x, prev) else scan_links (gi_id x) (gi_next x) xs)"

text \<open>Whether there is a hole to ask for, where it begins at its newer end and where it ends.\<close>

definition get_next_hole ::
  "int \<Rightarrow> gallery_storage \<Rightarrow> (bool \<times> gallery_entry_id \<times> gallery_entry_id \<times> gallery_storage) option" where
  "get_next_hole now g =
     (let s = gal_state g; requested = g\<lparr>gal_hole_requested := True\<rparr>
      in if gal_hole_requested g then Some (False, no_entry, no_entry, g)
         else if gal_first_load g
         then Some (True, no_entry, gst_last_entry s, requested\<lparr>gal_first_load := False\<rparr>)
         else case gal_items g of
           [] \<Rightarrow>
             if \<not> entry_valid (gst_first_entry s) then Some (True, no_entry, no_entry, requested)
             else if \<not> entry_empty (gst_last_entry s) then Some (True, gst_last_entry s, no_entry, g)
             else Some (False, no_entry, no_entry, g)
         | x # xs \<Rightarrow>
             let last_id = gi_id (last (x # xs))
             in if entry_empty (gst_first_entry s) \<or> gst_first_entry s \<noteq> gi_id x
                then Some (True, gi_id x, no_entry, requested)
                else if last_id \<noteq> gst_last_entry s \<and> entry_less last_id (gst_last_entry s)
                then Some (True, gst_last_entry s, last_id, requested)
                else case scan_links (gi_id x) (gi_next x) xs of
                  Some (from, till) \<Rightarrow> Some (True, from, till, requested)
                | None \<Rightarrow>
                    (case check_consistency now g of
                       (True, g) \<Rightarrow> Some (False, no_entry, no_entry, g)
                     | (False, g) \<Rightarrow>
                         map_option (\<lambda>g. (True, no_entry, no_entry, g\<lparr>gal_hole_requested := True\<rparr>)) (clear_gallery g)))"

fun hole_loop :: "int \<Rightarrow> int \<Rightarrow> bool \<Rightarrow> gallery_item list \<Rightarrow> gallery_item list" where
  "hole_loop from till found [] = []"
| "hole_loop from till found (x # xs) =
     (if ge_msg_id (gi_id x) = from then x # xs
      else if ge_msg_id (gi_id x) = till \<and> \<not> found then x\<lparr>gi_next := no_entry\<rparr> # hole_loop from till True xs
      else if found then hole_loop from till found xs
      else x # hole_loop from till found xs)"

definition make_hole :: "int \<Rightarrow> int \<Rightarrow> gallery_storage \<Rightarrow> gallery_storage option" where
  "make_hole from till g =
     cache_saved (g\<lparr>gal_items := (if from = -1 then [] else hole_loop from till (till = -1) (gal_items g))\<rparr>)"

end
