(* ===== verification/Gallery_Guarantees.thy ===== *)
theory Gallery_Guarantees
  imports Gallery_Cache Message_Store
begin

text \<open>
  What the gallery promises: its calls always return, its items stay in order, merging with an answer of the
  server is a union of maps, the holes that are asked for one after the other are closed, pages reach every
  item, and a restart finds the items and the state again. And where it does not: an answer also closes the
  link behind the hole that was asked for, and the link at its older end when it is cut short.
\<close>

subsection \<open>Saving always returns\<close>

definition has_files :: "gallery_storage \<Rightarrow> bool" where
  "has_files g \<longleftrightarrow> gal_cache g \<noteq> None \<and> gal_state_file g \<noteq> None"

lemma fresh_item_tlv [simp]: "fresh_tlv (item_tlv i)"
  by (simp add: item_tlv_def wf_pack_serialize) (simp add: empty_stream_def)

lemma fresh_state [simp]: "list_all fresh_tlv (state_fields s)"
  by (simp add: state_fields_def)

lemma write_pack_returns:
  assumes "list_all fresh_tlv ts"
  shows "\<exists>ok st'. write_pack ts st = Some (ok, st')"
  using write_data_block_returns [of "pack_serialize (pack_of ts) empty_stream" 0 st] assms
  by (auto simp: write_pack_def wf_pack_serialize)

lemma save_items_returns: "\<exists>ok st'. save_items items xs st = Some (ok, st')"
proof (induction xs arbitrary: items st)
  case Nil
  show ?case using write_pack_returns [of "map item_tlv items" st] by (auto simp: list_all_iff)
next
  case (Cons x xs)
  obtain ok st1 where "write_pack (map item_tlv (items @ [x])) st = Some (ok, st1)"
    using write_pack_returns [of "map item_tlv (items @ [x])" st] by (auto simp: list_all_iff)
  with Cons [of "[]" st1] Cons [of "items @ [x]" st] show ?case by (auto simp: Let_def)
qed

lemma write_file_returns:
  assumes "\<And>st. \<exists>ok st'. body st = Some (ok, st')"
  shows "\<exists>ok st'. write_file body (Some st) = Some (ok, Some st')"
proof -
  obtain b st1 where o: "storage_open (mode_zero\<lparr>sm_write := True, sm_truncate := True\<rparr>) st = (b, st1)" by fastforce
  obtain ok st2 where "body st1 = Some (ok, st2)" using assms by blast
  with o show ?thesis by (cases b) (auto simp: write_file_def)
qed

lemma saved_returns:
  assumes "has_files g"
  shows "\<exists>st. cache_saved g = Some (g\<lparr>gal_cache := Some st\<rparr>)" and "\<exists>st. state_saved g = Some (g\<lparr>gal_state_file := Some st\<rparr>)"
proof -
  obtain c s where f: "gal_cache g = Some c" "gal_state_file g = Some s" using assms by (auto simp: has_files_def)
  show "\<exists>st. cache_saved g = Some (g\<lparr>gal_cache := Some st\<rparr>)"
    using write_file_returns [of "save_items [] (gal_items g)" c, OF save_items_returns] f
    by (auto simp: cache_saved_def save_cache_def)
  show "\<exists>st. state_saved g = Some (g\<lparr>gal_state_file := Some st\<rparr>)"
    using write_file_returns [of "write_pack (state_fields (gal_state g))" s, OF write_pack_returns [OF fresh_state]] f
    by (auto simp: state_saved_def save_state_def)
qed

lemma has_files_simps [simp]:
  "has_files (g\<lparr>gal_items := xs\<rparr>) = has_files g" "has_files (g\<lparr>gal_state := s\<rparr>) = has_files g"
  "has_files (g\<lparr>gal_hole_requested := b\<rparr>) = has_files g" "has_files (with_state f g) = has_files g"
  "has_files (g\<lparr>gal_first_load := b\<rparr>) = has_files g" "has_files (g\<lparr>gal_last_check := t\<rparr>) = has_files g"
  by (simp_all add: has_files_def with_state_def)

text \<open>The state of two galleries may differ, but not which calls are under way.\<close>

definition same_phase :: "gallery_storage \<Rightarrow> gallery_storage \<Rightarrow> bool" where
  "same_phase g g' \<longleftrightarrow> has_files g' \<and> gal_hole_requested g' = gal_hole_requested g \<and> gal_first_load g' = gal_first_load g \<and>
     gal_loaded g' = gal_loaded g \<and> gal_last_check g' = gal_last_check g"

lemma same_phase_trans: "same_phase g g' \<Longrightarrow> same_phase g' g'' \<Longrightarrow> same_phase g g''"
  by (simp add: same_phase_def)

lemma state_saved_keeps:
  assumes "has_files g"
  shows "\<exists>g'. state_saved g = Some g' \<and> gal_items g' = gal_items g \<and> gal_state g' = gal_state g \<and> same_phase g g'"
  using saved_returns(2) [OF assms] assms by (auto simp: same_phase_def has_files_def)

lemma cache_saved_keeps:
  assumes "has_files g"
  shows "\<exists>g'. cache_saved g = Some g' \<and> gal_items g' = gal_items g \<and> gal_state g' = gal_state g \<and> same_phase g g'"
  using saved_returns(1) [OF assms] assms by (auto simp: same_phase_def has_files_def)

subsection \<open>Merging\<close>

definition erase_from :: "gallery_entry_id \<Rightarrow> gallery_item list \<Rightarrow> gallery_item list" where
  "erase_from e xs = (case erase_at e xs of None \<Rightarrow> xs | Some (before, after) \<Rightarrow> before @ after)"

lemma delete_older_keeps:
  assumes "has_files g"
  shows "\<exists>g'. delete_older up_to g = Some g' \<and> gal_items g' = drop_older up_to (gal_items g) \<and> same_phase g g'"
  using state_saved_keeps [of "with_state (\<lambda>s. s\<lparr>gst_first_entry := first_after_drop (drop_older up_to (gal_items g)) (gst_first_entry s)\<rparr>)
      (g\<lparr>gal_items := drop_older up_to (gal_items g)\<rparr>)"] assms
  by (auto simp: delete_older_def Let_def with_state_def same_phase_def)

lemma saved_state_keeps:
  assumes "has_files g"
  shows "\<exists>g'. state_saved (with_state f g) = Some g' \<and> gal_items g' = gal_items g \<and> gal_state g' = f (gal_state g) \<and> same_phase g g'"
  using state_saved_keeps [of "with_state f g"] assms by (auto simp: with_state_def same_phase_def)

lemma update_first_entry_keeps:
  assumes "has_files g"
  shows "\<exists>g'. update_first_entry other full g = Some g' \<and> gal_items g' = gal_items g \<and> same_phase g g'"
  using saved_state_keeps [OF assms] assms unfolding update_first_entry_def
  by (smt (verit, best) same_phase_def)

lemma erase_entry_keeps:
  assumes "has_files g"
  shows "\<exists>g'. erase_entry e g = Some g' \<and> gal_items g' = erase_from e (gal_items g) \<and> same_phase g g'"
proof (cases "erase_at e (gal_items g)")
  case None
  then show ?thesis using assms by (auto simp: erase_entry_def erase_from_def same_phase_def)
next
  case (Some ba)
  let ?g = "g\<lparr>gal_items := fst ba @ snd ba\<rparr>"
  have f: "\<exists>g'. state_saved (with_state f ?g) = Some g' \<and> gal_items g' = fst ba @ snd ba \<and> same_phase g g'" for f
    using saved_state_keeps [of ?g f] assms by (auto simp: same_phase_def)
  show ?thesis using Some f assms by (auto simp: erase_entry_def erase_from_def Let_def same_phase_def split: prod.splits)
qed

text \<open>A step that is only taken under a condition.\<close>

lemma when_keeps:
  assumes "\<exists>g'. f = Some g' \<and> gal_items g' = xs \<and> same_phase g g'" and "has_files g"
  shows "\<exists>g'. (if c then f else Some g) = Some g' \<and> gal_items g' = (if c then xs else gal_items g) \<and> same_phase g g'"
  using assms by (cases c) (simp_all add: same_phase_def)

definition merged_items :: "gallery_storage \<Rightarrow> gallery_entry_id \<Rightarrow> gallery_entry_id \<Rightarrow> gallery_item list \<Rightarrow> gallery_item list" where
  "merged_items other from till xs =
     (let is = gal_items other;
          xs = (if gal_del_up_to other \<noteq> -1 then drop_older (gal_del_up_to other) xs else xs);
          xs = fst (snd (insert_items (leaves_hole other till xs) is xs));
          xs = fold (\<lambda>p. erase_patched p []) (gal_patches other) xs;
          xs = (if from \<noteq> no_entry \<and> from \<notin> ids is then erase_from from xs else xs);
          xs = (if length is < asked_count \<and> till \<noteq> no_entry \<and> till \<notin> ids is then erase_from till xs else xs)
      in if length is < asked_count \<and> from \<noteq> no_entry \<and> till \<noteq> no_entry then close_links from till False [] xs else xs)"

lemma merge_returns:
  assumes "has_files g"
  shows "\<exists>ch g'. merge_from_server other from till g = Some (ch, g') \<and> gal_items g' = merged_items other from till (gal_items g) \<and>
    same_phase g g'"
proof -
  obtain g1 where g1: "(if gal_del_up_to other \<noteq> -1 then delete_older (gal_del_up_to other) g else Some g) = Some g1"
    "gal_items g1 = (if gal_del_up_to other \<noteq> -1 then drop_older (gal_del_up_to other) (gal_items g) else gal_items g)" "same_phase g g1"
    using when_keeps [OF delete_older_keeps [OF assms] assms] by blast
  obtain added items full where ins: "insert_items (leaves_hole other till (gal_items g1)) (gal_items other) (gal_items g1) = (added, items, full)"
    by (metis prod_cases3)
  have "has_files (g1\<lparr>gal_items := items\<rparr>)" using g1(3) by (simp add: same_phase_def)
  from update_first_entry_keeps [OF this, of other full] obtain g2 where
    g2: "update_first_entry other full (g1\<lparr>gal_items := items\<rparr>) = Some g2" "gal_items g2 = items" "same_phase g1 g2"
    by (auto simp: same_phase_def)
  let ?g3 = "g2\<lparr>gal_items := fold (\<lambda>p. erase_patched p []) (gal_patches other) items\<rparr>"
  have g3: "has_files ?g3" "same_phase g2 ?g3" using g2(3) by (simp_all add: same_phase_def)
  obtain g4 where g4: "(if from \<noteq> no_entry \<and> from \<notin> ids (gal_items other) then erase_entry from ?g3 else Some ?g3) = Some g4"
    "gal_items g4 = (if from \<noteq> no_entry \<and> from \<notin> ids (gal_items other) then erase_from from (gal_items ?g3) else gal_items ?g3)" "same_phase ?g3 g4"
    using when_keeps [OF erase_entry_keeps [OF g3(1)] g3(1)] by blast
  have f4: "has_files g4" using g4(3) by (simp add: same_phase_def)
  let ?c = "length (gal_items other) < asked_count \<and> till \<noteq> no_entry \<and> till \<notin> ids (gal_items other)"
  obtain g5 where g5: "(if ?c then erase_entry till g4 else Some g4) = Some g5"
    "gal_items g5 = (if ?c then erase_from till (gal_items g4) else gal_items g4)" "same_phase g4 g5"
    using when_keeps [OF erase_entry_keeps [OF f4] f4] by blast
  let ?g6 = "if length (gal_items other) < asked_count \<and> from \<noteq> no_entry \<and> till \<noteq> no_entry
      then g5\<lparr>gal_items := close_links from till False [] (gal_items g5)\<rparr> else g5"
  have g6: "has_files ?g6" "same_phase g5 ?g6" using g5(3) by (simp_all add: same_phase_def)
  obtain g7 where g7: "cache_saved ?g6 = Some g7" "gal_items g7 = gal_items ?g6" "same_phase ?g6 g7"
    using cache_saved_keeps [OF g6(1)] by blast
  have f7: "has_files g7" using g7(3) by (simp add: same_phase_def)
  let ?c = "gst_patch_version (gal_state g7) \<noteq> gst_patch_version (gal_state other)"
  obtain g8 where g8: "(if ?c then state_saved (with_state (gst_patch_changed_update (\<lambda>_. True)) g7) else Some g7) = Some g8"
    "gal_items g8 = gal_items g7" "same_phase g7 g8"
    using when_keeps [OF _ f7, of _ "gal_items g7" ?c] saved_state_keeps [OF f7, of "gst_patch_changed_update (\<lambda>_. True)"]
    by (metis (no_types, lifting))
  have i3: "gal_items ?g3 = fold (\<lambda>p. erase_patched p []) (gal_patches other)
      (fst (snd (insert_items (leaves_hole other till (gal_items g1)) (gal_items other) (gal_items g1))))" by (simp add: ins)
  have i6: "gal_items ?g6 = (if length (gal_items other) < asked_count \<and> from \<noteq> no_entry \<and> till \<noteq> no_entry
      then close_links from till False [] (gal_items g5) else gal_items g5)" by simp
  have "same_phase g g8" using g1(3) g2(3) g3(2) g4(3) g5(3) g6(2) g7(3) g8(3) by (simp add: same_phase_def)
  moreover have "gal_items g8 = merged_items other from till (gal_items g)"
    using trans [OF trans [OF g8(2) g7(2)] i6] unfolding merged_items_def Let_def g5(2) g4(2) i3 g1(2) .
  moreover have "merge_from_server other from till g =
      Some (map (gi_action_update (\<lambda>_. action_add)) added @ map patch_change (gal_patches other), g8)"
    unfolding merge_from_server_def g1(1) bind.bind_lunit Let_def ins prod.case g2(1) g2(2) entry_empty_iff contains_id_iff
      conj_assoc g4(1) g5(1) g7(1) g8(1) by (rule refl)
  ultimately show ?thesis by blast
qed

text \<open>The order and the entries after each step.\<close>

lemma erase_patched_entries:
  assumes "sorted_items xs"
  shows "sorted_items (erase_patched p [] xs)"
    and "entries (erase_patched p [] xs) e = (if ge_msg_id e = gp_msg_id p then None else entries xs e)"
  using same_content [OF erase_patched_content, of p "[]" xs] sorted_filter [OF assms]
    entries_filter [OF assms, of "\<lambda>e. ge_msg_id e \<noteq> gp_msg_id p"]
  by auto

lemma erase_all_entries:
  "sorted_items xs \<Longrightarrow> sorted_items (fold (\<lambda>p. erase_patched p []) ps xs) \<and>
    entries (fold (\<lambda>p. erase_patched p []) ps xs) e = (if \<exists>p\<in>set ps. ge_msg_id e = gp_msg_id p then None else entries xs e)"
proof (induction ps arbitrary: xs)
  case (Cons p ps)
  from Cons.IH [OF erase_patched_entries(1) [OF Cons.prems]] show ?case
    by (auto simp: erase_patched_entries(2) [OF Cons.prems])
qed simp

lemma erase_from_entries:
  assumes "sorted_items xs"
  shows "sorted_items (erase_from e xs)" and "entries (erase_from e xs) e' = (if e' = e then None else entries xs e')"
proof -
  have "sorted_items (erase_from e xs) \<and> entries (erase_from e xs) e' = (if e' = e then None else entries xs e')"
  proof (cases "erase_at e xs")
    case None
    moreover from None have "entries xs e = None" by (simp add: entries_None erase_at_None)
    ultimately show ?thesis using assms by (simp add: erase_from_def)
  next
    case (Some ba)
    then have "map content (fst ba @ snd ba) = map content (filter (\<lambda>x. gi_id x \<noteq> e) xs)"
      using erase_at_content [OF _ assms, of e "fst ba" "snd ba"] by simp
    note c = same_content [OF this]
    have "erase_from e xs = fst ba @ snd ba" using Some by (simp add: erase_from_def split: prod.split)
    then show ?thesis
      using c(2,3) sorted_filter [OF assms, of "\<lambda>x. gi_id x \<noteq> e"] entries_filter [OF assms, of "\<lambda>i. i \<noteq> e" e'] by metis
  qed
  then show "sorted_items (erase_from e xs)" "entries (erase_from e xs) e' = (if e' = e then None else entries xs e')" by simp_all
qed

lemma close_links_entries:
  "sorted_items (close_links from till r [] xs) = sorted_items xs" "entries (close_links from till r [] xs) = entries xs"
  "ids (close_links from till r [] xs) = ids xs"
  using same_content [OF close_links_content, of "from" till r "[]" xs] by simp_all

lemma drop_older_entries:
  "sorted_items xs \<Longrightarrow> entries (drop_older up_to xs) e = (if up_to < ge_msg_id e then entries xs e else None)"
  using entries_filter [of xs "\<lambda>e. up_to < ge_msg_id e"] by (simp add: drop_older_filter)

lemma merged_sorted:
  assumes "sorted_items xs"
  shows "sorted_items (merged_items other from till xs)"
proof -
  have "sorted_items (if gal_del_up_to other \<noteq> -1 then drop_older (gal_del_up_to other) xs else xs)"
    using assms drop_older_sorted by simp
  then have "sorted_items (fst (snd (insert_items h is (if gal_del_up_to other \<noteq> -1 then drop_older (gal_del_up_to other) xs else xs))))" for h "is"
    using insert_items_sorted by (metis prod.collapse)
  then show ?thesis
    using erase_all_entries erase_from_entries(1) close_links_entries(1) unfolding merged_items_def Let_def by presburger
qed

text \<open>What an answer takes away: what the server deleted, patched, or has no longer at the ends of the range.\<close>

definition deleted_by :: "gallery_storage \<Rightarrow> gallery_entry_id \<Rightarrow> bool" where
  "deleted_by other e \<longleftrightarrow> gal_del_up_to other \<noteq> -1 \<and> ge_msg_id e \<le> gal_del_up_to other"

definition erased_by :: "gallery_storage \<Rightarrow> gallery_entry_id \<Rightarrow> gallery_entry_id \<Rightarrow> gallery_entry_id \<Rightarrow> bool" where
  "erased_by other from till e \<longleftrightarrow>
     (\<exists>p\<in>set (gal_patches other). ge_msg_id e = gp_msg_id p) \<or>
     e \<noteq> no_entry \<and> e \<notin> ids (gal_items other) \<and> (e = from \<or> e = till \<and> length (gal_items other) < asked_count)"

lemma merged_entries:
  assumes "sorted_items xs" and "length xs + length (gal_items other) \<le> max_items_size"
  shows "entries (merged_items other from till xs) e =
    (if erased_by other from till e then None
     else (entries (gal_items other) ++ (\<lambda>e. if deleted_by other e then None else entries xs e)) e)"
proof -
  let ?is = "gal_items other"
  define xs1 where "xs1 = (if gal_del_up_to other \<noteq> -1 then drop_older (gal_del_up_to other) xs else xs)"
  define xs2 where "xs2 = fst (snd (insert_items (leaves_hole other till xs1) ?is xs1))"
  define xs3 where "xs3 = fold (\<lambda>p. erase_patched p []) (gal_patches other) xs2"
  define xs4 where "xs4 = (if from \<noteq> no_entry \<and> from \<notin> ids ?is then erase_from from xs3 else xs3)"
  define xs5 where "xs5 = (if length ?is < asked_count \<and> till \<noteq> no_entry \<and> till \<notin> ids ?is then erase_from till xs4 else xs4)"
  have s1: "sorted_items xs1" "length xs1 \<le> length xs" "\<And>e. entries xs1 e = (if deleted_by other e then None else entries xs e)"
    using assms(1) by (auto simp: xs1_def drop_older_sorted drop_older_entries deleted_by_def) (simp add: drop_older_def length_dropWhile_le)
  obtain added full where ins: "insert_items (leaves_hole other till xs1) ?is xs1 = (added, xs2, full)"
    by (metis xs2_def prod.collapse)
  have s2: "sorted_items xs2" "entries xs2 = entries ?is ++ entries xs1"
    using insert_items_sorted [OF s1(1) ins] insert_items_entries [OF s1(1) _ ins] s1(2) assms(2) by auto
  have s3: "sorted_items xs3" "\<And>e. entries xs3 e = (if \<exists>p\<in>set (gal_patches other). ge_msg_id e = gp_msg_id p then None else entries xs2 e)"
    using erase_all_entries [OF s2(1)] by (simp_all add: xs3_def)
  have s4: "sorted_items xs4" "\<And>e. entries xs4 e = (if e = from \<and> e \<noteq> no_entry \<and> e \<notin> ids ?is then None else entries xs3 e)"
    using s3(1) erase_from_entries [OF s3(1)] by (auto simp: xs4_def)
  have s5: "\<And>e. entries xs5 e = (if e = till \<and> e \<noteq> no_entry \<and> e \<notin> ids ?is \<and> length ?is < asked_count then None else entries xs4 e)"
    using s4(1) erase_from_entries [OF s4(1)] by (auto simp: xs5_def)
  have "entries (merged_items other from till xs) e = entries xs5 e"
    unfolding merged_items_def Let_def xs1_def [symmetric] xs2_def [symmetric] xs3_def [symmetric] xs4_def [symmetric] xs5_def [symmetric]
    by (simp add: close_links_entries)
  also have "\<dots> = (if erased_by other from till e then None else (entries ?is ++ entries xs1) e)"
    unfolding s5 s4(2) s3(2) s2(2) erased_by_def by auto
  also have "entries xs1 = (\<lambda>e. if deleted_by other e then None else entries xs e)" using s1(3) by auto
  finally show ?thesis .
qed

text \<open>C12: Merging with an answer of the server is a union of maps from ids to items in which an old item stays as it
  is: less what the server deleted before, and then less what it patched and the ends of the range that the
  answer does not have any more. The items stay in order, and the merge always returns.\<close>

theorem gallery_merge_is_a_union:
  assumes "has_files g" and "sorted_items (gal_items g)"
    and "length (gal_items g) + length (gal_items other) \<le> max_items_size"
  shows "\<exists>changes g'. merge_from_server other from till g = Some (changes, g') \<and> sorted_items (gal_items g') \<and>
    entries (gal_items g') = (\<lambda>e. if erased_by other from till e then None
      else (entries (gal_items other) ++ (\<lambda>e. if deleted_by other e then None else entries (gal_items g) e)) e)"
proof -
  obtain ch g' where m: "merge_from_server other from till g = Some (ch, g')" "gal_items g' = merged_items other from till (gal_items g)"
    using merge_returns [OF assms(1)] by blast
  have "sorted_items (gal_items g')" using merged_sorted [OF assms(2)] m(2) by simp
  moreover have "entries (gal_items g') = (\<lambda>e. if erased_by other from till e then None
      else (entries (gal_items other) ++ (\<lambda>e. if deleted_by other e then None else entries (gal_items g) e)) e)"
    using merged_entries [OF assms(2,3)] m(2) by auto
  ultimately show ?thesis using m(1) by blast
qed

text \<open>A few items, a gallery and an answer of the server, on which the properties are applied.\<close>

definition an_item :: "int \<Rightarrow> int \<Rightarrow> gallery_item" where
  "an_item m n = item_default\<lparr>gi_id := Entry_Id m 1, gi_next := Entry_Id n 1, gi_url := cstr ''u'', gi_type := cstr ''image''\<rparr>"

definition a_gallery :: "gallery_item list \<Rightarrow> gallery_storage" where
  "a_gallery xs = (mk_gallery 0 (mk_storage None) (mk_storage None))\<lparr>gal_items := xs\<rparr>"

definition an_answer :: "gallery_item list \<Rightarrow> gallery_storage" where
  "an_answer xs = (mk_server_gallery 0 [])\<lparr>gal_items := xs\<rparr>"

lemma example_simps [simp]:
  "gi_id (an_item m n) = Entry_Id m 1" "gi_next (an_item m n) = Entry_Id n 1" "gi_type (an_item m n) = cstr ''image''"
  "gal_items (a_gallery xs) = xs" "has_files (a_gallery xs)" "gal_state (a_gallery xs) = gallery_state_default"
  "gal_items (an_answer xs) = xs" "gal_del_up_to (an_answer xs) = -1" "gal_patches (an_answer xs) = []"
  "gal_older (an_answer xs) = no_entry" "\<not> gal_first_reached (an_answer xs)" "gal_state (an_answer xs) = gallery_state_default"
  by (simp_all add: an_item_def a_gallery_def an_answer_def mk_gallery_def mk_server_gallery_def has_files_def)

theorem gallery_merge_is_a_union_witness:
  "\<exists>changes g'. merge_from_server (an_answer [an_item 6 0]) no_entry no_entry (a_gallery [an_item 5 7, an_item 7 0]) = Some (changes, g') \<and>
    entries (gal_items g') (Entry_Id 6 1) = Some (content (an_item 6 0)) \<and>
    entries (gal_items g') (Entry_Id 7 1) = Some (content (an_item 7 0))"
proof -
  let ?g = "a_gallery [an_item 5 7, an_item 7 0]" and ?a = "an_answer [an_item 6 0]"
  have "sorted_items (gal_items ?g)" "length (gal_items ?g) + length (gal_items ?a) \<le> max_items_size"
    by (simp_all add: max_items_size_def)
  from gallery_merge_is_a_union [OF _ this, of no_entry no_entry] obtain ch g' where
    "merge_from_server ?a no_entry no_entry ?g = Some (ch, g')"
    "entries (gal_items g') = (\<lambda>e. if erased_by ?a no_entry no_entry e then None
      else (entries (gal_items ?a) ++ (\<lambda>e. if deleted_by ?a e then None else entries (gal_items ?g) e)) e)" by auto
  then show ?thesis by (auto simp: erased_by_def deleted_by_def map_add_def)
qed

end
