(* ===== verification/Gallery_Files.thy ===== *)
theory Gallery_Files
  imports Gallery_Guarantees
begin

text \<open>
  The two files of a gallery. What was saved is loaded again: the items in blocks of a thousand, without what
  the last change did to them, and the state. The writer counts items where the reader limits bytes, so the
  blocks have to be small enough.
\<close>

subsection \<open>Reading a file of packs\<close>

lemma read_packs_one:
  assumes "wf_stream d" and "pending d = enc_fields fs" and "fs \<noteq> []" and "list_all good_field fs"
    and "body (map (\<lambda>(ty, bs). mk_tlv ty bs) fs) x = Some (True, y)"
  shows "\<exists>d'. read_packs body d x = Some (True, d', y)"
proof -
  have "enc_fields fs \<noteq> []" using assms(3) by (simp add: enc_fields_empty)
  then have "available d \<noteq> 0" using assms(1,2) by (simp add: available_pending)
  moreover obtain d' where "pack_unserialize empty_pack d = Some (True, mk_pack fs, d')" "wf_stream d'" "pending d' = []"
    using pack_unserialize_enc [OF assms(1,4,2)] by blast
  moreover from this have "read_packs body d' y = Some (True, d', y)"
    by (subst read_packs.simps) (simp add: available_pending)
  ultimately show ?thesis using assms(5) by (subst read_packs.simps) simp
qed

text \<open>The packs are those of the fields of some \<open>ys\<close>, and the body makes one step for each.\<close>

lemma read_file_packs:
  assumes "can_use_file st" and "st_file st \<noteq> None" and "contents st = file_of (map (\<lambda>y. enc_fields (fs y)) ys)"
    and "\<forall>y\<in>set ys. good_block (enc_fields (fs y))"
    and "\<And>y x. y \<in> set ys \<Longrightarrow> body (map (\<lambda>(ty, bs). mk_tlv ty bs) (fs y)) x = Some (True, step y x)"
  shows "\<exists>st'. read_file body x (Some st) = Some (True, fold step ys x, Some st') \<and> contents st' = contents st \<and> can_use_file st'"
proof -
  let ?bss = "map (\<lambda>y. enc_fields (fs y)) ys"
  obtain st1 where o: "storage_open (mode_zero\<lparr>sm_read := True\<rparr>) st = (True, st1)" "open_reading st1" "unread st1 = contents st"
    "contents st1 = contents st" "can_use_file (storage_close st1)"
    using open_read_all [OF assms(1,2)] by blast
  have small: "list_all good_field (fs y)" "fs y \<noteq> []" if "y \<in> set ys" for y
  proof -
    have "good_block (enc_fields (fs y))" using assms(4) that by simp
    then show "list_all good_field (fs y)" "fs y \<noteq> []" using good_fields_if_small [of "fs y"] by (auto simp: good_block_def)
  qed
  have one: "\<exists>d'. read_packs body d x = Some (True, d', step y x)"
    if "wf_stream d" "pending d = enc_fields (fs y)" "y \<in> set ys" for d y x
    by (rule read_packs_one [OF that(1,2) small(2,1) [OF that(3)]]) (rule assms(5) [OF that(3)])
  define g where "g b x = (case read_packs body (write_bytes b empty_stream) x of Some (_, _, y) \<Rightarrow> y | None \<Rightarrow> x)" for b x
  have g: "g (enc_fields (fs y)) x = step y x" if "y \<in> set ys" for y x
    using one [OF _ _ that, of "write_bytes (enc_fields (fs y)) empty_stream" x] by (auto simp: g_def)
  have "\<exists>d'. read_packs body d x = Some (True, d', g b x)" if "wf_stream d" "pending d = b" "b \<in> set ?bss" for d x b
    using that one g by fastforce
  then obtain st2 where r: "read_blocks (\<lambda>_ d x. read_packs body d x) x st1 empty_stream = Some (True, fold g ?bss x, st2)"
    "st_last_error st2 = end_of_file" "contents st2 = contents st1" "can_use_file (storage_close st2)"
    using read_blocks_fold [of ?bss "\<lambda>_ d x. read_packs body d x" g st1 empty_stream x] o(2,3,5) assms(3,4)
    by (auto simp: list_all_iff)
  have "fold g ?bss x = fold step ys x"
    using g by (induction ys arbitrary: x) auto
  then show ?thesis using o(1,4) r by (auto simp: read_file_def storage_close_def)
qed

subsection \<open>Writing the packs\<close>

lemma write_pack_appends:
  assumes "appending st" and "list_all fresh_tlv ts" and "good_block (enc_fields (map tlv_view ts))"
    and "16 + length (enc_fields (map tlv_view ts)) \<le> st_room st"
  shows "\<exists>st'. write_pack ts st = Some (True, st') \<and> contents st' = contents st @ enc_block (enc_fields (map tlv_view ts)) \<and>
    appending st' \<and> st_room st' = st_room st - (16 + length (enc_fields (map tlv_view ts))) \<and>
    (can_use_file (storage_close st) \<longrightarrow> can_use_file (storage_close st'))"
proof -
  let ?s = "pack_serialize (pack_of ts) empty_stream"
  have s: "wf_stream ?s" "pending ?s = enc_fields (map tlv_view ts)"
    using assms(2) by (simp_all add: wf_pack_serialize pending_pack_serialize)
  have len: "pending ?s \<noteq> []" "length (pending ?s) < 2 ^ 32" "length (pending ?s) + 16 \<le> st_room st"
    using assms(3,4) s(2) by (auto simp: good_block_def)
  obtain d' st' where w: "write_data_block ?s 0 st = Some ((True, 0), int (length (contents st)), d', st')"
    "contents st' = contents st @ enc_block (pending ?s)" "appending st'" "st_room st' = st_room st - (16 + length (pending ?s))"
    using write_data_block_append [OF assms(1) s(1) len] by blast
  have "can_use_file (storage_close st) \<longrightarrow> can_use_file (storage_close st')"
    using same_env_can_use [OF write_data_block_env [OF w(1)]] by blast
  with w s(2) show ?thesis by (auto simp: write_pack_def)
qed

lemma write_file_works:
  assumes "can_use_file st"
    and "\<And>st1. appending st1 \<Longrightarrow> contents st1 = [] \<Longrightarrow> st_room st1 = st_room st \<Longrightarrow> \<exists>st'. body st1 = Some (True, st') \<and>
      contents st' = c \<and> (can_use_file (storage_close st1) \<longrightarrow> can_use_file (storage_close st'))"
  shows "\<exists>st'. write_file body (Some st) = Some (True, Some st') \<and> contents st' = c \<and> can_use_file st'"
proof -
  obtain st1 where o: "storage_open (mode_zero\<lparr>sm_write := True, sm_truncate := True\<rparr>) st = (True, st1)" "appending st1"
    "contents st1 = []" "st_room st1 = st_room st" "can_use_file (storage_close st1)"
    using open_truncate [OF assms(1)] by blast
  with assms(2) [OF o(2-4)] show ?thesis by (auto simp: write_file_def storage_close_def)
qed

subsection \<open>The state\<close>

definition state_bytes :: "gallery_state \<Rightarrow> bytes" where
  "state_bytes s = enc_fields (map tlv_view (state_fields s))"

definition good_gallery_state :: "gallery_state \<Rightarrow> bool" where
  "good_gallery_state s \<longleftrightarrow> list_all i64_range [ge_msg_id (gst_last_entry s), ge_seq (gst_last_entry s),
       ge_msg_id (gst_first_entry s), ge_seq (gst_first_entry s)] \<and>
     list_all i32_range [gst_images s, gst_videos s, gst_files s, gst_links s, gst_ptt s, gst_audio s] \<and>
     length (state_bytes s) \<le> 1024 * 1024"

text \<open>A file that holds the state as it is.\<close>

definition state_synced :: "gallery_storage \<Rightarrow> bool" where
  "state_synced g \<longleftrightarrow> (\<exists>st. gal_state_file g = Some st \<and> can_use_file st \<and> contents st = enc_block (state_bytes (gal_state g)))"

lemma state_bytes_nonempty: "state_bytes s \<noteq> []"
  by (simp add: state_bytes_def enc_fields_empty del: enc_fields_simps) (simp add: state_fields_def)

lemma read_state_fields:
  assumes "good_gallery_state s"
  shows "fold state_field (map (\<lambda>(ty, bs). mk_tlv ty bs) (map tlv_view (state_fields s))) x = s"
  using assms by (cases s; cases x; cases "gst_last_entry s"; cases "gst_first_entry s"; cases "gst_last_entry x"; cases "gst_first_entry x")
    (simp add: state_fields_def state_field_def Let_def good_gallery_state_def with_msg_id_def with_seq_def)

lemma load_state_synced:
  assumes "state_synced g" and "good_gallery_state (gal_state g)" and "gal_state_file h = gal_state_file g"
  shows "\<exists>st. load_state h = Some (True, h\<lparr>gal_state := gal_state g, gal_state_file := Some st\<rparr>) \<and> can_use_file st \<and>
    contents st = enc_block (state_bytes (gal_state g))"
proof -
  obtain st where st: "gal_state_file h = Some st" "can_use_file st" "contents st = enc_block (state_bytes (gal_state g))"
    using assms(1,3) by (auto simp: state_synced_def)
  let ?fs = "map tlv_view (state_fields (gal_state g))"
  have "st_file st \<noteq> None" by (rule file_there [OF st(3)]) simp
  moreover have "good_block (enc_fields ?fs)"
    using assms(2) state_bytes_nonempty by (simp add: good_block_def good_gallery_state_def flip: state_bytes_def)
  ultimately obtain st' where "read_file (\<lambda>ts s. Some (True, fold state_field ts s)) (gal_state h) (Some st) =
      Some (True, fold state_field (map (\<lambda>(ty, bs). mk_tlv ty bs) ?fs) (gal_state h), Some st')"
    "contents st' = contents st" "can_use_file st'"
    using read_file_packs [of st "\<lambda>_. ?fs" "[()]" "\<lambda>ts s. Some (True, fold state_field ts s)"
        "\<lambda>_. fold state_field (map (\<lambda>(ty, bs). mk_tlv ty bs) ?fs)" "gal_state h"] st(2,3)
    by (auto simp: state_bytes_def)
  then show ?thesis using st(1,3) read_state_fields [OF assms(2)] by (auto simp: load_state_def)
qed

lemma save_state_syncs:
  assumes "gal_state_file g = Some st" and "can_use_file st" and "good_gallery_state (gal_state g)"
    and "length (state_bytes (gal_state g)) + 16 \<le> st_room st"
  shows "\<exists>st. save_state g = Some (True, g\<lparr>gal_state_file := Some st\<rparr>) \<and> state_synced (g\<lparr>gal_state_file := Some st\<rparr>)"
proof -
  have "good_block (enc_fields (map tlv_view (state_fields (gal_state g))))"
    using assms(3) state_bytes_nonempty by (simp add: good_block_def good_gallery_state_def flip: state_bytes_def)
  then have "\<exists>st'. write_pack (state_fields (gal_state g)) st1 = Some (True, st') \<and> contents st' = enc_block (state_bytes (gal_state g)) \<and>
      (can_use_file (storage_close st1) \<longrightarrow> can_use_file (storage_close st'))"
    if "appending st1" "contents st1 = []" "st_room st1 = st_room st" for st1
    using write_pack_appends [OF that(1) fresh_state, of "gal_state g"] that(2,3) assms(4) by (auto simp: state_bytes_def)
  from write_file_works [OF assms(2) this] obtain st' where
    "write_file (write_pack (state_fields (gal_state g))) (Some st) = Some (True, Some st')"
    "contents st' = enc_block (state_bytes (gal_state g))" "can_use_file st'" by blast
  then show ?thesis using assms(1) by (auto simp: save_state_def state_synced_def)
qed

subsection \<open>The items\<close>

definition items_bytes :: "gallery_item list \<Rightarrow> bytes" where
  "items_bytes xs = enc_fields (map (\<lambda>i. tlv_view (item_tlv i)) xs)"

text \<open>The blocks the items are written in, with those collected so far.\<close>

fun blocks_of :: "gallery_item list \<Rightarrow> gallery_item list \<Rightarrow> gallery_item list list" where
  "blocks_of items [] = (if items \<noteq> [] then [items] else [])"
| "blocks_of items (x # xs) =
     (let items = items @ [x] in if max_block_size \<le> length items then items # blocks_of [] xs else blocks_of items xs)"

lemma concat_blocks [simp]: "concat (blocks_of items xs) = items @ xs"
  by (induction xs arbitrary: items) (simp_all add: Let_def)

lemma item_view: "tlv_view (item_tlv i) = (gf_item_pack, enc_fields (map tlv_view (item_fields i)))"
  by (simp add: item_tlv_def pending_pack_serialize)

definition good_blocks :: "gallery_item list \<Rightarrow> bool" where
  "good_blocks xs \<longleftrightarrow> list_all good_item xs \<and> list_all (\<lambda>b. length (items_bytes b) \<le> 1024 * 1024) (blocks_of [] xs)"

lemma blocks_nonempty: "b \<in> set (blocks_of items xs) \<Longrightarrow> b \<noteq> []"
  by (induction xs arbitrary: items) (auto simp: Let_def split: if_splits)

lemma good_items_block: "b \<in> set (blocks_of items xs) \<Longrightarrow> length (items_bytes b) \<le> 1024 * 1024 \<Longrightarrow> good_block (items_bytes b)"
  by (simp add: good_block_def items_bytes_def enc_fields_empty blocks_nonempty del: enc_fields_simps)

lemma save_items_works:
  "appending st \<Longrightarrow> \<forall>b\<in>set (blocks_of items xs). length (items_bytes b) \<le> 1024 * 1024 \<Longrightarrow>
    length (file_of (map items_bytes (blocks_of items xs))) \<le> st_room st \<Longrightarrow>
    \<exists>st'. save_items items xs st = Some (True, st') \<and>
      contents st' = contents st @ file_of (map items_bytes (blocks_of items xs)) \<and>
      (can_use_file (storage_close st) \<longrightarrow> can_use_file (storage_close st'))"
proof (induction xs arbitrary: items st)
  case Nil
  show ?case
  proof (cases "items = []")
    case False
    then have "good_block (items_bytes items)" using Nil.prems(2) good_items_block [of items items "[]"] by simp
    then show ?thesis using write_pack_appends [OF Nil.prems(1), of "map item_tlv items"] Nil.prems(3) False
      by (auto simp: items_bytes_def list_all_iff comp_def)
  qed simp
next
  case (Cons x xs)
  let ?items = "items @ [x]"
  show ?case
  proof (cases "max_block_size \<le> length ?items")
    case True
    have "good_block (items_bytes ?items)"
      using Cons.prems(2) True good_items_block [of ?items items "x # xs"] by (simp add: Let_def)
    moreover have r: "16 + length (items_bytes ?items) + length (file_of (map items_bytes (blocks_of [] xs))) \<le> st_room st"
      using Cons.prems(3) True by (simp add: Let_def)
    ultimately obtain st1 where w: "write_pack (map item_tlv ?items) st = Some (True, st1)" "appending st1"
      "contents st1 = contents st @ enc_block (items_bytes ?items)" "st_room st1 = st_room st - (16 + length (items_bytes ?items))"
      "can_use_file (storage_close st) \<longrightarrow> can_use_file (storage_close st1)"
      using write_pack_appends [OF Cons.prems(1), of "map item_tlv ?items"] by (auto simp: items_bytes_def list_all_iff comp_def)
    have "\<forall>b\<in>set (blocks_of [] xs). length (items_bytes b) \<le> 1024 * 1024" using Cons.prems(2) True by (simp add: Let_def)
    moreover have "length (file_of (map items_bytes (blocks_of [] xs))) \<le> st_room st1" using r w(4) by simp
    ultimately show ?thesis using Cons.IH [OF w(2)] w(1,3,5) True by (auto simp: Let_def)
  next
    case False
    then show ?thesis using Cons.IH [OF Cons.prems(1), of ?items] Cons.prems(2,3) by (simp add: Let_def)
  qed
qed

lemma load_items_written:
  "list_all good_item is \<Longrightarrow> length (items_bytes is) < 2 ^ 32 \<Longrightarrow>
    load_items (map (\<lambda>(ty, bs). mk_tlv ty bs) (map (\<lambda>i. tlv_view (item_tlv i)) is)) xs = Some (True, xs @ map stored_item is)"
proof (induction "is" arbitrary: xs)
  case (Cons i "is")
  let ?fs = "map tlv_view (item_fields i)"
  have l: "length (enc_fields ?fs) < 2 ^ 32" "length (items_bytes is) < 2 ^ 32"
    using Cons.prems(2) by (simp_all add: items_bytes_def item_view)
  have "item_unserialize (get_stream (mk_tlv gf_item_pack (enc_fields ?fs))) = Some (True, stored_item i)"
    using read_item [OF _ l(1), of "get_stream (mk_tlv gf_item_pack (enc_fields ?fs))"] Cons.prems(1) by (simp add: get_stream_def mk_tlv_value)
  then show ?case using Cons l(2) by (simp add: item_view)
qed simp

lemma fold_append_blocks: "fold (\<lambda>b xs. xs @ map f b) bs xs = xs @ map f (concat bs)"
  by (induction bs arbitrary: xs) simp_all

text \<open>What a gallery finds in the file that another one wrote.\<close>

lemma load_cache_written:
  assumes "can_use_file st" and "contents st = file_of (map items_bytes (blocks_of [] xs))" and "good_blocks xs"
    and "gal_cache h = Some st" and "gal_items h = []"
  shows "\<exists>ok h'. load_cache h = Some (ok, h') \<and> gal_items h' = map stored_item xs \<and> gal_state h' = gal_state h"
proof (cases "st_file st")
  case None
  then have "contents st = []" by (simp add: contents_def)
  then have "blocks_of [] xs = []" using assms(2) by (cases "blocks_of [] xs") simp_all
  then have "xs = []" using concat_blocks [of "[]" xs] by simp
  moreover have "storage_open (mode_zero\<lparr>sm_read := True\<rparr>) st = (False, st\<lparr>st_last_error := file_not_exist\<rparr>)"
    using None assms(1) by (simp add: storage_open_def can_use_file_def mode_zero_def Let_def)
  ultimately show ?thesis using assms(4,5) by (auto simp: load_cache_def read_file_def)
next
  case (Some c)
  let ?view = "map (\<lambda>i. tlv_view (item_tlv i))"
  have small: "length (items_bytes b) \<le> 1024 * 1024" if "b \<in> set (blocks_of [] xs)" for b
    using assms(3) that by (simp add: good_blocks_def list_all_iff)
  have one: "load_items (map (\<lambda>(ty, bs). mk_tlv ty bs) (?view b)) ys = Some (True, ys @ map stored_item b)"
    if "b \<in> set (blocks_of [] xs)" for b ys
  proof (rule load_items_written)
    show "length (items_bytes b) < 2 ^ 32" using small [OF that] by simp
    have "set b \<subseteq> set xs" using that concat_blocks [of "[]" xs] by (metis UN_upper append_Nil set_concat)
    then show "list_all good_item b" using assms(3) by (auto simp: good_blocks_def list_all_iff)
  qed
  have "\<forall>b\<in>set (blocks_of [] xs). good_block (enc_fields (?view b))"
    using small good_items_block by (simp add: items_bytes_def)
  moreover have "contents st = file_of (map (\<lambda>b. enc_fields (?view b)) (blocks_of [] xs))"
    using assms(2) by (simp add: items_bytes_def [abs_def])
  moreover have "st_file st \<noteq> None" using Some by simp
  ultimately have "\<exists>st'. read_file load_items [] (Some st) =
      Some (True, fold (\<lambda>b ys. ys @ map stored_item b) (blocks_of [] xs) [], Some st') \<and> contents st' = contents st \<and> can_use_file st'"
    by (intro read_file_packs [where fs = ?view and ys = "blocks_of [] xs"] assms(1) one) simp_all
  then show ?thesis using assms(4,5) by (auto simp: load_cache_def fold_append_blocks)
qed

lemma save_cache_writes:
  assumes "gal_cache g = Some st" and "can_use_file st" and "good_blocks (gal_items g)"
    and "length (file_of (map items_bytes (blocks_of [] (gal_items g)))) \<le> st_room st"
  shows "\<exists>st'. save_cache g = Some (True, g\<lparr>gal_cache := Some st'\<rparr>) \<and> can_use_file st' \<and>
    contents st' = file_of (map items_bytes (blocks_of [] (gal_items g)))"
proof -
  let ?bs = "blocks_of [] (gal_items g)"
  have small: "\<forall>b\<in>set ?bs. length (items_bytes b) \<le> 1024 * 1024" using assms(3) by (simp add: good_blocks_def list_all_iff)
  have saves: "\<exists>st'. save_items [] (gal_items g) st1 = Some (True, st') \<and> contents st' = file_of (map items_bytes ?bs) \<and>
      (can_use_file (storage_close st1) \<longrightarrow> can_use_file (storage_close st'))"
    if a: "appending st1" and c: "contents st1 = []" and r: "st_room st1 = st_room st" for st1
  proof -
    have "length (file_of (map items_bytes ?bs)) \<le> st_room st1" using assms(4) r by (simp only:)
    from save_items_works [OF a small this] show ?thesis by (simp only: c append_Nil)
  qed
  obtain st' where "write_file (save_items [] (gal_items g)) (Some st) = Some (True, Some st')"
    "contents st' = file_of (map items_bytes ?bs)" "can_use_file st'"
    using write_file_works [OF assms(2) saves] by blast
  then show ?thesis using assms(1) by (auto simp: save_cache_def)
qed

subsection \<open>The restart\<close>

lemma load_saved_gallery:
  assumes "gal_cache g = Some c" "can_use_file c" "contents c = file_of (map items_bytes (blocks_of [] xs))" "good_blocks xs"
    and "state_synced g" "good_gallery_state (gal_state g)" "gal_state_file g = Some s"
  shows "\<exists>h. load_gallery (mk_gallery now c s) = Some h \<and> gal_items h = map stored_item xs \<and> gal_state h = gal_state g \<and> gal_first_load h"
proof -
  let ?g0 = "mk_gallery now c s"
  have i: "gal_state_file ?g0 = gal_state_file g" "\<not> gal_loaded ?g0" "gal_items ?g0 = []" "gal_cache ?g0 = Some c"
    using assms(7) by (simp_all add: mk_gallery_def mk_server_gallery_def)
  obtain st where l: "load_state ?g0 = Some (True, ?g0\<lparr>gal_state := gal_state g, gal_state_file := Some st\<rparr>)"
    using load_state_synced [OF assms(5,6) i(1)] by blast
  let ?g1 = "?g0\<lparr>gal_state := gal_state g, gal_state_file := Some st\<rparr>"
  have "gal_cache ?g1 = Some c" "gal_items ?g1 = []" using i by simp_all
  from load_cache_written [OF assms(2-4) this] obtain ok h where "load_cache ?g1 = Some (ok, h)"
    "gal_items h = map stored_item xs" "gal_state h = gal_state g" by auto
  then show ?thesis using l i(2) by (auto simp: load_gallery_def)
qed

text \<open>C14: A gallery whose items and state were saved is the same after a restart, but for the actions of its items.\<close>

theorem gallery_survives_restart:
  assumes "gal_cache g = Some c" "can_use_file c" "gal_state_file g = Some s" "can_use_file s"
    and "good_blocks (gal_items g)" "length (file_of (map items_bytes (blocks_of [] (gal_items g)))) \<le> st_room c"
    and "good_gallery_state (gal_state g)" "length (state_bytes (gal_state g)) + 16 \<le> st_room s"
  shows "\<exists>g1 g2 c' s' h. save_cache g = Some (True, g1) \<and> save_state g1 = Some (True, g2) \<and>
    gal_cache g2 = Some c' \<and> gal_state_file g2 = Some s' \<and> load_gallery (mk_gallery now c' s') = Some h \<and>
    gal_items h = map stored_item (gal_items g) \<and> gal_state h = gal_state g \<and> gal_first_load h"
proof -
  obtain c' where c': "save_cache g = Some (True, g\<lparr>gal_cache := Some c'\<rparr>)" "can_use_file c'"
    "contents c' = file_of (map items_bytes (blocks_of [] (gal_items g)))"
    using save_cache_writes [OF assms(1,2,5,6)] by blast
  let ?g1 = "g\<lparr>gal_cache := Some c'\<rparr>"
  obtain s' where s': "save_state ?g1 = Some (True, ?g1\<lparr>gal_state_file := Some s'\<rparr>)"
    "state_synced (?g1\<lparr>gal_state_file := Some s'\<rparr>)"
    using save_state_syncs [of ?g1 s] assms(3,4,7,8) by auto
  from load_saved_gallery [OF _ c'(2,3) assms(5) s'(2)] assms(7) s'(1) c'(1) show ?thesis by fastforce
qed

theorem gallery_survives_restart_witness:
  "\<exists>g1 g2 c' s' h. save_cache (a_gallery [an_item 5 7, an_item 7 0]) = Some (True, g1) \<and> save_state g1 = Some (True, g2) \<and>
    gal_cache g2 = Some c' \<and> gal_state_file g2 = Some s' \<and> load_gallery (mk_gallery 3 c' s') = Some h \<and>
    gal_items h = [an_item 5 7, an_item 7 0]"
proof -
  let ?g = "a_gallery [an_item 5 7, an_item 7 0]"
  have f: "gal_cache ?g = Some (mk_storage None)" "gal_state_file ?g = Some (mk_storage None)" "can_use_file (mk_storage None)"
    "gal_items ?g = [an_item 5 7, an_item 7 0]" "gal_state ?g = gallery_state_default"
    by (simp_all add: a_gallery_def mk_gallery_def mk_server_gallery_def can_use_file_def mk_storage_def)
  have b: "blocks_of [] [an_item 5 7, an_item 7 0] = [[an_item 5 7, an_item 7 0]]" by (simp add: max_block_size_def)
  have i: "length (items_bytes [an_item 5 7, an_item 7 0]) = 262"
    by (simp add: items_bytes_def item_view item_fields_def an_item_def item_default_def cstr_def)
  have g: "good_blocks (gal_items ?g)" using f(4) b i
    by (simp add: good_blocks_def good_item_def an_item_def item_default_def i64_range_def i32_range_def)
  have r: "length (file_of (map items_bytes (blocks_of [] (gal_items ?g)))) \<le> st_room (mk_storage None)"
    using f(4) b i by (simp add: mk_storage_def)
  have s: "length (state_bytes (gal_state ?g)) + 16 \<le> st_room (mk_storage None)" "good_gallery_state (gal_state ?g)"
    using f(5) by (simp_all add: state_bytes_def state_fields_def gallery_state_default_def good_gallery_state_def mk_storage_def
        i64_range_def i32_range_def never_requested_def no_entry_def)
  have "map stored_item (gal_items ?g) = gal_items ?g" unfolding f(4) by (simp add: stored_item_def an_item_def item_default_def)
  with gallery_survives_restart [OF f(1,3,2,3) g r s(2,1), of 3] f(4) show ?thesis by metis
qed

end
