(* ===== verification/Gallery_Holes.thy ===== *)
theory Gallery_Holes
  imports Gallery_Files
begin

text \<open>
  The loop that downloads a gallery (\<^verbatim>\<open>im::download_gallery_holes_impl\<close>): it asks the gallery for a hole, the
  server for the items in it, merges the answer and goes on until there is no hole. The server is a function,
  the requests are taken to succeed, and what is shown to the user is left out.
\<close>

subsection \<open>The calls as they are dispatched\<close>

text \<open>\<^verbatim>\<open>local_history\<close> loads what it needs first.\<close>

definition merge_server_gallery ::
  "gallery_storage \<Rightarrow> gallery_entry_id \<Rightarrow> gallery_entry_id \<Rightarrow> gallery_storage \<Rightarrow> (gallery_item list \<times> gallery_storage) option" where
  "merge_server_gallery other from till g = do { g \<leftarrow> load_gallery g; merge_from_server other from till g }"

definition store_gallery_state :: "gallery_state \<Rightarrow> bool \<Rightarrow> gallery_storage \<Rightarrow> gallery_storage option" where
  "store_gallery_state s b g = do { (_, g) \<leftarrow> load_state g; set_gallery_state s b g }"

definition get_gallery_holes ::
  "int \<Rightarrow> gallery_storage \<Rightarrow> (bool \<times> gallery_entry_id \<times> gallery_entry_id \<times> gallery_storage) option" where
  "get_gallery_holes now g = do { g \<leftarrow> load_gallery g; get_next_hole now g }"

text \<open>What the server answers to a version and a range, and to a version when it is asked for patches.\<close>

record gallery_server =
  ask_range :: "cstring \<Rightarrow> gallery_entry_id \<Rightarrow> gallery_entry_id \<Rightarrow> gallery_storage"
  ask_patches :: "cstring \<Rightarrow> gallery_storage"

text \<open>One round; the flag tells whether another one follows.\<close>

definition download_round :: "int \<Rightarrow> gallery_server \<Rightarrow> gallery_storage \<Rightarrow> (bool \<times> gallery_storage) option" where
  "download_round now server g = do {
     (_, g) \<leftarrow> load_state g;
     let local_state = gal_state g;
     if gst_patch_changed local_state
     then do {
       let new_gallery = ask_patches server (gst_patch_version local_state);
       (_, g) \<leftarrow> merge_server_gallery new_gallery no_entry no_entry g;
       g \<leftarrow> store_gallery_state (gal_state new_gallery) True g;
       Some (True, g)
     }
     else do {
       (found, from, till, g) \<leftarrow> get_gallery_holes now g;
       if \<not> found then Some (False, g)
       else do {
         let gallery = ask_range server (gst_patch_version local_state) from till;
         (_, g) \<leftarrow> merge_server_gallery gallery from till g;
         g \<leftarrow> (if \<not> entry_valid (gst_first_entry local_state)
               then store_gallery_state (gal_state gallery) True g else Some g);
         Some (True, clear_hole_request g)
       }
     }
   }"

text \<open>At most so many rounds, the depth; the flag tells whether the loop came to its end.\<close>

fun download_holes :: "nat \<Rightarrow> int \<Rightarrow> gallery_server \<Rightarrow> gallery_storage \<Rightarrow> (bool \<times> gallery_storage) option" where
  "download_holes 0 now server g = Some (False, clear_hole_request g)"
| "download_holes (Suc depth) now server g = do {
     (more, g) \<leftarrow> download_round now server g;
     if more then download_holes depth now server g else Some (True, g)
   }"

subsection \<open>The hole that is asked for\<close>

lemma scan_links_broken:
  "scan_links (gi_id x) (gi_next x) xs = (case broken_links (x # xs) of [] \<Rightarrow> None | (a, b) # _ \<Rightarrow> Some (b, a))"
  by (induction xs arbitrary: x) auto

lemma broken_links_order:
  "sorted_items xs \<Longrightarrow> broken_links xs = (t, f) # rest \<Longrightarrow> (a, b) \<in> set rest \<Longrightarrow> f \<le> a"
proof (induction xs rule: broken_links.induct)
  case (1 x y xs)
  show ?case
  proof (cases "gi_next x \<noteq> gi_id y")
    case True
    then have "f = gi_id y" "rest = broken_links (y # xs)" using 1(3) by auto
    then have "a \<in> ids (y # xs)" using 1(2,4) broken_links_between [of "y # xs" a b] by auto
    then show ?thesis using 1(2) \<open>f = gi_id y\<close> by auto
  next
    case False
    then show ?thesis using 1 by simp
  qed
qed simp_all

text \<open>A gallery that waits for nothing, whose ends are where the state says, and whose state is on the disk.\<close>

definition settled :: "int \<Rightarrow> gallery_storage \<Rightarrow> bool" where
  "settled now g \<longleftrightarrow> gal_loaded g \<and> \<not> gal_hole_requested g \<and> \<not> gal_first_load g \<and> now - gal_last_check g < consistency_check_period \<and>
     gal_cache g \<noteq> None \<and> state_synced g \<and> good_gallery_state (gal_state g) \<and> \<not> gst_patch_changed (gal_state g) \<and>
     gal_items g \<noteq> [] \<and> sorted_items (gal_items g) \<and> gst_first_entry (gal_state g) = gi_id (hd (gal_items g)) \<and>
     entry_valid (gi_id (hd (gal_items g))) \<and> no_entry \<notin> ids (gal_items g) \<and>
     gst_last_entry (gal_state g) \<le> gi_id (last (gal_items g))"

lemma settled_hole:
  assumes "settled now g"
  shows "get_gallery_holes now g =
    (case broken_links (gal_items g) of
       [] \<Rightarrow> Some (False, no_entry, no_entry, g)
     | (till, from) # _ \<Rightarrow> Some (True, from, till, g\<lparr>gal_hole_requested := True\<rparr>))"
proof -
  obtain x xs where xs: "gal_items g = x # xs" using assms by (cases "gal_items g") (simp_all add: settled_def)
  have "\<not> gi_id (last (x # xs)) < gst_last_entry (gal_state g)" "gst_first_entry (gal_state g) = gi_id x"
    "gi_id x \<noteq> no_entry" "gal_loaded g" "\<not> gal_hole_requested g" "\<not> gal_first_load g" "now - gal_last_check g < consistency_check_period"
    using assms xs by (auto simp: settled_def)
  then show ?thesis
    by (simp add: get_gallery_holes_def load_gallery_def get_next_hole_def Let_def xs check_consistency_def scan_links_broken
        del: broken_links.simps split: list.split)
qed

subsection \<open>An answer to a hole\<close>

text \<open>The server has the items of \<open>S\<close>, and answers with those of the range, in any order, fewer than were asked for.\<close>

definition complete_answer :: "gallery_entry_id set \<Rightarrow> gallery_entry_id \<Rightarrow> gallery_entry_id \<Rightarrow> gallery_storage \<Rightarrow> bool" where
  "complete_answer S from till a \<longleftrightarrow> ids (gal_items a) = {e \<in> S. till \<le> e \<and> e \<le> from} \<and> length (gal_items a) < asked_count \<and>
     gal_del_up_to a = -1 \<and> gal_patches a = [] \<and> gal_older a = no_entry \<and> \<not> gal_first_reached a"

lemma answer_merged:
  assumes "gal_del_up_to a = -1" "gal_patches a = []" "gal_older a = no_entry" "from \<in> ids (gal_items a)"
    and "till \<in> ids (gal_items a) \<or> asked_count \<le> length (gal_items a)" and "till \<in> ids xs" "from \<noteq> no_entry" "till \<noteq> no_entry"
    and "sorted_items xs" "length xs + length (gal_items a) \<le> max_items_size"
  shows "\<exists>added. insert_items (leaves_hole a till xs) (gal_items a) xs = (added, fst (snd (insert_items False (gal_items a) xs)), False)"
    and "ids (merged_items a from till xs) = ids xs \<union> ids (gal_items a)"
    and "broken_links (merged_items a from till xs) =
      filter (\<lambda>(x, y). length (gal_items a) < asked_count \<longrightarrow> y < till \<or> from < x)
        (filter (\<lambda>(x, y). \<not> (\<exists>e\<in>ids (gal_items a) - ids xs. x < e \<and> e < y)) (broken_links xs))"
proof -
  have h: "leaves_hole a till xs = False" using assms(3,6) by (simp add: leaves_hole_def)
  obtain added ys full where i: "insert_items False (gal_items a) xs = (added, ys, full)" by (metis prod_cases3)
  note e = insert_items_entries [OF assms(9,10) i]
  show "\<exists>added. insert_items (leaves_hole a till xs) (gal_items a) xs = (added, fst (snd (insert_items False (gal_items a) xs)), False)"
    using e by (simp add: h i)
  have m: "merged_items a from till xs = (if length (gal_items a) < asked_count then close_links from till False [] ys else ys)"
    using assms by (auto simp: merged_items_def h i)
  show "ids (merged_items a from till xs) = ids xs \<union> ids (gal_items a)" using e by (simp add: m close_links_entries)
  have "broken_links ys = filter (\<lambda>(x, y). \<not> (\<exists>e\<in>ids (gal_items a) - ids xs. x < e \<and> e < y)) (broken_links xs)"
    using insert_items_links [OF assms(9,10) i] e by simp
  then show "broken_links (merged_items a from till xs) =
      filter (\<lambda>(x, y). length (gal_items a) < asked_count \<longrightarrow> y < till \<or> from < x)
        (filter (\<lambda>(x, y). \<not> (\<exists>e\<in>ids (gal_items a) - ids xs. x < e \<and> e < y)) (broken_links xs))"
    using close_links_links [OF insert_items_sorted [OF assms(9) i]] by (simp add: m)
qed

text \<open>An answer that only brings items leaves the state alone.\<close>

lemma quiet_merge:
  assumes "gal_loaded g" "gal_cache g = Some c" "entry_valid (gst_first_entry (gal_state g))"
    and "gal_del_up_to a = -1" "gal_patches a = []" "\<not> gal_first_reached a" "from \<in> ids (gal_items a)" "till \<in> ids (gal_items a)"
    and "insert_items (leaves_hole a till (gal_items g)) (gal_items a) (gal_items g) = (added, ys, False)"
    and "gst_patch_version (gal_state a) = gst_patch_version (gal_state g)"
  shows "\<exists>ch st. merge_server_gallery a from till g =
    Some (ch, g\<lparr>gal_items := merged_items a from till (gal_items g), gal_cache := Some st\<rparr>)"
proof -
  let ?zs = "if length (gal_items a) < asked_count \<and> from \<noteq> no_entry \<and> till \<noteq> no_entry then close_links from till False [] ys else ys"
  obtain ok st where "write_file (save_items [] ?zs) (Some c) = Some (ok, Some st)"
    using write_file_returns [of "save_items [] ?zs" c, OF save_items_returns] by blast
  then have c: "cache_saved (g\<lparr>gal_items := ?zs\<rparr>) = Some (g\<lparr>gal_items := ?zs, gal_cache := Some st\<rparr>)"
    using assms(2) by (simp add: cache_saved_def save_cache_def)
  have z: "(if length (gal_items a) < asked_count \<and> \<not> entry_empty from \<and> \<not> entry_empty till
      then g\<lparr>gal_items := close_links from till False [] ys\<rparr> else g\<lparr>gal_items := ys\<rparr>) = g\<lparr>gal_items := ?zs\<rparr>" by simp
  have u: "update_first_entry a False (g\<lparr>gal_items := ys\<rparr>) = Some (g\<lparr>gal_items := ys\<rparr>)"
    using assms(3,6) by (simp add: update_first_entry_def)
  have "merge_from_server a from till g = Some (map (gi_action_update (\<lambda>_. action_add)) added, g\<lparr>gal_items := ?zs, gal_cache := Some st\<rparr>)"
    by (simp add: merge_from_server_def assms(4,5,7-10) u z c del: entry_empty_iff cong: if_cong)
  moreover have "merged_items a from till (gal_items g) = ?zs" using assms(4,5,7-9) by (simp add: merged_items_def)
  ultimately show ?thesis using assms(1) by (auto simp: merge_server_gallery_def load_gallery_def)
qed

lemma hd_last_sorted:
  assumes "sorted_items xs" and "xs \<noteq> []"
  shows "gi_id (hd xs) = Min (ids xs)" and "gi_id (last xs) = Max (ids xs)"
proof -
  obtain y ys where "xs = y # ys" using assms(2) by (cases xs) auto
  then show "gi_id (hd xs) = Min (ids xs)" using assms(1) by (intro Min_eqI [symmetric]) (auto simp: less_imp_le)
  obtain z zs where "xs = zs @ [z]" using assms(2) by (cases xs rule: rev_cases) auto
  then show "gi_id (last xs) = Max (ids xs)" using assms(1) by (intro Max_eqI [symmetric]) (auto simp: less_imp_le)
qed

lemma length_ids: "sorted_items xs \<Longrightarrow> length xs = card (ids xs)"
  by (induction xs) auto

subsection \<open>One round closes one hole\<close>

text \<open>No two of the broken links touch.\<close>

definition apart :: "(gallery_entry_id \<times> gallery_entry_id) list \<Rightarrow> bool" where
  "apart ls \<longleftrightarrow> (\<forall>(a, b)\<in>set ls. \<forall>(c, d)\<in>set ls. b \<noteq> c)"

text \<open>What the gallery lacks of \<open>S\<close> between its ends is behind a broken link.\<close>

definition holes_known :: "gallery_entry_id set \<Rightarrow> gallery_item list \<Rightarrow> bool" where
  "holes_known S xs \<longleftrightarrow> (\<forall>e\<in>S. Min (ids xs) < e \<longrightarrow> e < Max (ids xs) \<longrightarrow> e \<in> ids xs \<or> (\<exists>(a, b)\<in>set (broken_links xs). a < e \<and> e < b))"

lemma close_first_hole:
  assumes xs: "sorted_items xs" "xs \<noteq> []" "ids xs \<subseteq> S" "no_entry \<notin> S" "finite S" "card S + asked_count \<le> max_items_size"
    and b: "broken_links xs = (till, from) # rest" and c: "complete_answer S from till a"
    and h: "holes_known S xs" "apart (broken_links xs)"
  shows "sorted_items (merged_items a from till xs)" and "ids xs \<subseteq> ids (merged_items a from till xs)"
    and "ids (merged_items a from till xs) \<subseteq> S" and "Min (ids (merged_items a from till xs)) = Min (ids xs)"
    and "Max (ids (merged_items a from till xs)) = Max (ids xs)" and "broken_links (merged_items a from till xs) = rest"
    and "holes_known S (merged_items a from till xs)" and "from \<in> ids (gal_items a)" and "till \<in> ids (gal_items a)"
    and "\<exists>added ys. insert_items (leaves_hole a till xs) (gal_items a) xs = (added, ys, False)"
proof -
  have tf: "till \<in> ids xs" "from \<in> ids xs" "till < from" using broken_links_between [OF xs(1), of till "from"] b by auto
  then have n: "till \<noteq> no_entry" "from \<noteq> no_entry" using xs(3,4) by auto
  have a: "ids (gal_items a) = {e \<in> S. till \<le> e \<and> e \<le> from}" "length (gal_items a) < asked_count" "gal_del_up_to a = -1"
    "gal_patches a = []" "gal_older a = no_entry" using c by (simp_all add: complete_answer_def)
  show fa: "from \<in> ids (gal_items a)" and ta: "till \<in> ids (gal_items a)" using a(1) tf xs(3) by auto
  have "length xs \<le> card S" using length_ids [OF xs(1)] card_mono [OF xs(5,3)] by simp
  then have len: "length xs + length (gal_items a) \<le> max_items_size" using xs(6) a(2) by simp
  note m = answer_merged [OF a(3-5) fa disjI1 [OF ta] tf(1) n(2,1) xs(1) len]
  let ?ys = "merged_items a from till xs"
  show "sorted_items ?ys" by (rule merged_sorted [OF xs(1)])
  show "ids xs \<subseteq> ids ?ys" "ids ?ys \<subseteq> S" using m(2) a(1) xs(3) by auto
  show "\<exists>added ys. insert_items (leaves_hole a till xs) (gal_items a) xs = (added, ys, False)" using m(1) by blast
  have ne: "ids xs \<noteq> {}" using xs(2) by (simp add: ids_def)
  have "Min (ids xs) \<le> till" "from \<le> Max (ids xs)" using tf by simp_all
  then have "Min (ids xs) \<le> y \<and> y \<le> Max (ids xs)" if "y \<in> ids ?ys" for y
    using that m(2) a(1) by (auto intro: order_trans)
  moreover have "Min (ids xs) \<in> ids ?ys" "Max (ids xs) \<in> ids ?ys" using Min_in [OF _ ne] Max_in [OF _ ne] m(2) by auto
  ultimately show mm: "Min (ids ?ys) = Min (ids xs)" "Max (ids ?ys) = Max (ids xs)" by (auto intro!: Min_eqI Max_eqI)
  have later: "from < x" if "(x, y) \<in> set rest" for x y
  proof -
    have "from \<le> x" using broken_links_order [OF xs(1) b that] .
    moreover have "from \<noteq> x" using h(2) that b by (auto simp: apart_def)
    ultimately show ?thesis by simp
  qed
  then have rest: "filter (\<lambda>(x, y). y < till \<or> from < x) (filter (\<lambda>(x, y). \<not> (\<exists>e\<in>ids (gal_items a) - ids xs. x < e \<and> e < y)) rest) = rest"
    using a(1) by (intro filter_True [THEN trans] filter_True) (fastforce dest: less_trans)+
  show br: "broken_links ?ys = rest"
    using m(3) rest a(2) tf(3) b by (auto split: if_splits)
  show "holes_known S ?ys"
    unfolding holes_known_def mm br
  proof (intro ballI impI)
    fix e assume e: "e \<in> S" "Min (ids xs) < e" "e < Max (ids xs)"
    show "e \<in> ids ?ys \<or> (\<exists>(a, b)\<in>set rest. a < e \<and> e < b)"
    proof (cases "till < e \<and> e < from")
      case True
      then show ?thesis using m(2) a(1) e(1) by auto
    next
      case False
      then show ?thesis using h(1) e b m(2) by (fastforce simp: holes_known_def)
    qed
  qed
qed

lemma load_state_settled:
  assumes "settled now g"
  shows "\<exists>g'. load_state g = Some (True, g') \<and> settled now g' \<and> gal_items g' = gal_items g \<and> gal_state g' = gal_state g"
proof -
  obtain st where st: "load_state g = Some (True, g\<lparr>gal_state := gal_state g, gal_state_file := Some st\<rparr>)" "can_use_file st"
    "contents st = enc_block (state_bytes (gal_state g))"
    using load_state_synced [of g g] assms by (auto simp: settled_def)
  moreover have "settled now (g\<lparr>gal_state := gal_state g, gal_state_file := Some st\<rparr>)"
    using assms st(2,3) by (simp add: settled_def state_synced_def)
  ultimately show ?thesis by simp
qed

lemma download_last_round:
  assumes "settled now g" and "broken_links (gal_items g) = []"
  shows "\<exists>g'. download_round now server g = Some (False, g') \<and> gal_items g' = gal_items g"
proof -
  obtain g1 where g1: "load_state g = Some (True, g1)" "settled now g1" "gal_items g1 = gal_items g" "gal_state g1 = gal_state g"
    using load_state_settled [OF assms(1)] by blast
  have "\<not> gst_patch_changed (gal_state g1)" using g1(2) by (simp add: settled_def)
  with g1(1,3) settled_hole [OF g1(2)] assms(2) show ?thesis by (simp add: download_round_def)
qed

lemma download_one_round:
  assumes s: "settled now g" and xs: "ids (gal_items g) \<subseteq> S" "no_entry \<notin> S" "finite S" "card S + asked_count \<le> max_items_size"
    and b: "broken_links (gal_items g) = (till, from) # rest" and v: "v = gst_patch_version (gal_state g)"
    and c: "complete_answer S from till (ask_range server v from till)" "gst_patch_version (gal_state (ask_range server v from till)) = v"
    and h: "holes_known S (gal_items g)" "apart (broken_links (gal_items g))"
  shows "\<exists>g'. download_round now server g = Some (True, g') \<and> settled now g' \<and> gal_state g' = gal_state g \<and>
    gal_items g' = merged_items (ask_range server v from till) from till (gal_items g)"
proof -
  let ?a = "ask_range server v from till"
  obtain g1 where g1: "load_state g = Some (True, g1)" "settled now g1" "gal_items g1 = gal_items g" "gal_state g1 = gal_state g"
    using load_state_settled [OF s] by blast
  have g: "sorted_items (gal_items g)" "gal_items g \<noteq> []" "gal_loaded g1" "entry_valid (gst_first_entry (gal_state g1))"
    "\<not> gst_patch_changed (gal_state g1)" using s g1(2) by (simp_all add: settled_def)
  note m = close_first_hole [OF g(1,2) xs b c(1) h]
  obtain added ys where i: "insert_items (leaves_hole ?a till (gal_items g)) (gal_items ?a) (gal_items g) = (added, ys, False)"
    using m(10) by blast
  let ?g2 = "g1\<lparr>gal_hole_requested := True\<rparr>"
  obtain cache where "gal_cache ?g2 = Some cache" using g1(2) by (auto simp: settled_def)
  then obtain ch st where mg: "merge_server_gallery ?a from till ?g2 =
      Some (ch, ?g2\<lparr>gal_items := merged_items ?a from till (gal_items g), gal_cache := Some st\<rparr>)"
    using quiet_merge [of ?g2 cache ?a "from" till added ys] g(3,4) c i m(8,9) g1(3,4) v by (auto simp: complete_answer_def)
  let ?g3 = "clear_hole_request (?g2\<lparr>gal_items := merged_items ?a from till (gal_items g), gal_cache := Some st\<rparr>)"
  have hole: "get_gallery_holes now g1 = Some (True, from, till, ?g2)" using settled_hole [OF g1(2)] g1(3) b by simp
  have "download_round now server g = Some (True, ?g3)"
    using g1(1,4) g(4,5) hole mg v by (simp add: download_round_def)
  moreover have "settled now ?g3"
  proof -
    let ?ys = "merged_items ?a from till (gal_items g)"
    have "ids ?ys \<noteq> {}" using m(2) g(2) by (auto simp: ids_def)
    then have ne: "?ys \<noteq> []" by auto
    have "gi_id (hd ?ys) = gi_id (hd (gal_items g))" "gi_id (last ?ys) = gi_id (last (gal_items g))"
      using hd_last_sorted [OF m(1) ne] hd_last_sorted [OF g(1,2)] m(4,5) by simp_all
    moreover have "no_entry \<notin> ids ?ys" using m(3) xs(2) by blast
    ultimately show ?thesis using g1(2-4) m(1) ne by (simp add: settled_def clear_hole_request_def state_synced_def)
  qed
  ultimately show ?thesis using g1(4) by (simp add: clear_hole_request_def)
qed

text \<open>C11: Asking the server for one hole after the other comes to an end after as many rounds as there are broken links,
  and one more: then no link is broken, and the gallery has all that the server has between its ends. This holds
  for a server that answers with all it has in the range, fewer items than were asked for, and for a gallery in
  which no two broken links touch.\<close>

theorem download_completes_the_gallery:
  assumes "settled now g" and "ids (gal_items g) \<subseteq> S" "no_entry \<notin> S" "finite S" "card S + asked_count \<le> max_items_size"
    and "v = gst_patch_version (gal_state g)"
    and "\<forall>(till, from)\<in>set (broken_links (gal_items g)). complete_answer S from till (ask_range server v from till) \<and>
      gst_patch_version (gal_state (ask_range server v from till)) = v"
    and "holes_known S (gal_items g)" "apart (broken_links (gal_items g))"
  shows "\<exists>g'. download_holes (Suc (length (broken_links (gal_items g)))) now server g = Some (True, g') \<and>
    broken_links (gal_items g') = [] \<and>
    ids (gal_items g') = {e \<in> S. gi_id (hd (gal_items g)) \<le> e \<and> e \<le> gi_id (last (gal_items g))}"
  using assms
proof (induction "broken_links (gal_items g)" arbitrary: g)
  case Nil
  obtain g' where g': "download_round now server g = Some (False, g')" "gal_items g' = gal_items g"
    using download_last_round [OF Nil.prems(1)] Nil.hyps by metis
  have s: "sorted_items (gal_items g)" "gal_items g \<noteq> []" using Nil.prems(1) by (simp_all add: settled_def)
  note ends = hd_last_sorted [OF s]
  have ne: "ids (gal_items g) \<noteq> {}" using s(2) by (simp add: ids_def)
  have "ids (gal_items g) = {e \<in> S. Min (ids (gal_items g)) \<le> e \<and> e \<le> Max (ids (gal_items g))}"
  proof (intro equalityI subsetI)
    fix e assume e: "e \<in> {e \<in> S. Min (ids (gal_items g)) \<le> e \<and> e \<le> Max (ids (gal_items g))}"
    then consider "e = Min (ids (gal_items g))" | "e = Max (ids (gal_items g))"
      | "e \<in> S" "Min (ids (gal_items g)) < e" "e < Max (ids (gal_items g))" by force
    then show "e \<in> ids (gal_items g)"
    proof cases
      case 3
      then show ?thesis using Nil.prems(8) Nil.hyps by (auto simp: holes_known_def)
    qed (simp_all add: Min_in [OF _ ne] Max_in [OF _ ne])
  next
    fix e assume "e \<in> ids (gal_items g)"
    then show "e \<in> {e \<in> S. Min (ids (gal_items g)) \<le> e \<and> e \<le> Max (ids (gal_items g))}" using Nil.prems(2) by auto
  qed
  then show ?case using g' Nil.hyps [symmetric] ends by simp
next
  case (Cons hole rest)
  obtain till "from" where f: "hole = (till, from)" by (cases hole)
  then have b: "broken_links (gal_items g) = (till, from) # rest" using Cons.hyps(2) by simp
  let ?a = "ask_range server v from till"
  have c: "complete_answer S from till ?a" "gst_patch_version (gal_state ?a) = v" using Cons.prems(7) b by auto
  have s: "sorted_items (gal_items g)" "gal_items g \<noteq> []" using Cons.prems(1) by (simp_all add: settled_def)
  obtain g1 where g1: "download_round now server g = Some (True, g1)" "settled now g1" "gal_state g1 = gal_state g"
    "gal_items g1 = merged_items ?a from till (gal_items g)"
    using download_one_round [OF Cons.prems(1-5) b Cons.prems(6) c Cons.prems(8,9)] by blast
  note m = close_first_hole [OF s Cons.prems(2-5) b c(1) Cons.prems(8,9), folded g1(4)]
  have ap: "apart (broken_links (gal_items g1))" using Cons.prems(9) m(6) b by (auto simp: apart_def)
  have answers: "\<forall>(till, from)\<in>set (broken_links (gal_items g1)). complete_answer S from till (ask_range server v from till) \<and>
      gst_patch_version (gal_state (ask_range server v from till)) = v" using Cons.prems(7) m(6) b by simp
  have r: "rest = broken_links (gal_items g1)" "v = gst_patch_version (gal_state g1)" using m(6) Cons.prems(6) g1(3) by simp_all
  from Cons.hyps(1) [OF r(1) g1(2) m(3) Cons.prems(3-5) r(2) answers m(7) ap]
  obtain g' where g': "download_holes (Suc (length rest)) now server g1 = Some (True, g')"
    "broken_links (gal_items g') = []" "ids (gal_items g') = {e \<in> S. gi_id (hd (gal_items g1)) \<le> e \<and> e \<le> gi_id (last (gal_items g1))}"
    unfolding r(1) [symmetric] by blast
  have "gal_items g1 \<noteq> []" using g1(2) by (simp add: settled_def)
  then have "gi_id (hd (gal_items g1)) = gi_id (hd (gal_items g))" "gi_id (last (gal_items g1)) = gi_id (last (gal_items g))"
    using hd_last_sorted [OF m(1)] hd_last_sorted [OF s] m(4,5) by simp_all
  then show ?case using g' g1(1) b by simp
qed

subsection \<open>What is lost\<close>

text \<open>An item the server has that is not there, and not in a hole that would be asked for.\<close>

definition missed :: "gallery_entry_id \<Rightarrow> gallery_item list \<Rightarrow> bool" where
  "missed e xs \<longleftrightarrow> e \<notin> ids xs \<and> \<not> (\<exists>(a, b)\<in>set (broken_links xs). a < e \<and> e < b)"

lemma only_link_around:
  assumes "sorted_items xs" "(a, b) \<in> set (broken_links xs)" "a < e" "e < b" "(x, y) \<in> set (broken_links xs)" "x < e" "e < y"
  shows "x = a \<and> y = b"
  using broken_links_between [OF assms(1,2)] broken_links_between [OF assms(1,5)] assms(3,4,6,7)
  by (metis less_trans linorder_neqE)

text \<open>C24: Merging a complete answer to a hole also closes the link behind the hole: when that was broken as well, what
  the server has between its ends is neither there nor asked for any more.\<close>

theorem answer_closes_the_next_hole:
  assumes "has_files g" and "sorted_items (gal_items g)" and "no_entry \<notin> ids (gal_items g)"
    and "(till, from) \<in> set (broken_links (gal_items g))" and "(from, next) \<in> set (broken_links (gal_items g))"
    and "complete_answer S from till a" and "ids (gal_items g) \<subseteq> S" and "from < e" and "e < next"
    and "length (gal_items g) + asked_count \<le> max_items_size"
  shows "\<exists>ch g'. merge_from_server a from till g = Some (ch, g') \<and> missed e (gal_items g')"
proof -
  let ?xs = "gal_items g"
  obtain ch g' where m: "merge_from_server a from till g = Some (ch, g')" "gal_items g' = merged_items a from till ?xs"
    using merge_returns [OF assms(1)] by blast
  have tf: "till \<in> ids ?xs" "from \<in> ids ?xs" "till < from" using broken_links_between [OF assms(2,4)] by auto
  have a: "ids (gal_items a) = {e \<in> S. till \<le> e \<and> e \<le> from}" "length (gal_items a) < asked_count" "gal_del_up_to a = -1"
    "gal_patches a = []" "gal_older a = no_entry" using assms(6) by (simp_all add: complete_answer_def)
  have "from \<in> ids (gal_items a)" "till \<in> ids (gal_items a)" "from \<noteq> no_entry" "till \<noteq> no_entry"
    "length ?xs + length (gal_items a) \<le> max_items_size"
    using a(1,2) tf assms(3,7,10) by auto
  note r = answer_merged [OF a(3-5) this(1) disjI1 [OF this(2)] tf(1) this(3,4) assms(2) this(5)]
  have out: "e \<notin> ids ?xs" using broken_links_between [OF assms(2,5)] assms(8,9) by blast
  moreover have "e \<notin> ids (gal_items a)" using a(1) assms(8) by auto
  moreover have "\<not> (x < e \<and> e < y)" if b: "(x, y) \<in> set (broken_links (gal_items g'))" for x y
  proof
    assume e: "x < e \<and> e < y"
    have "(x, y) \<in> set (broken_links ?xs)" "y < till \<or> from < x" using b r(3) m(2) a(2) by auto
    with only_link_around [OF assms(2,5,8,9)] e have "next < till \<or> from < from" by blast
    then show False using tf(3) assms(8,9) by auto
  qed
  ultimately have "missed e (gal_items g')" using r(2) m(2) by (auto simp: missed_def)
  with m(1) show ?thesis by blast
qed

text \<open>C25: An answer of as many items as were asked for, counted from the newer end of the hole, may stop short of its
  older end. Merging it closes the hole all the same: what the server has below the answer is neither there nor
  asked for any more.\<close>

theorem answer_cut_short_closes_the_hole:
  assumes "has_files g" and "sorted_items (gal_items g)" and "no_entry \<notin> ids (gal_items g)"
    and "(till, from) \<in> set (broken_links (gal_items g))"
    and "ids (gal_items a) \<subseteq> {e. till < e \<and> e \<le> from}" and "from \<in> ids (gal_items a)" and "asked_count \<le> length (gal_items a)"
    and "gal_del_up_to a = -1" "gal_patches a = []" "gal_older a = no_entry"
    and "new \<in> ids (gal_items a)" "new < from" and "till < e" and "\<forall>i\<in>ids (gal_items a). e < i"
    and "length (gal_items g) + length (gal_items a) \<le> max_items_size"
  shows "\<exists>ch g'. merge_from_server a from till g = Some (ch, g') \<and> missed e (gal_items g')"
proof -
  let ?xs = "gal_items g"
  obtain ch g' where m: "merge_from_server a from till g = Some (ch, g')" "gal_items g' = merged_items a from till ?xs"
    using merge_returns [OF assms(1)] by blast
  have tf: "till \<in> ids ?xs" "from \<in> ids ?xs" "till < from" "\<not> (\<exists>e\<in>ids ?xs. till < e \<and> e < from)"
    using broken_links_between [OF assms(2,4)] by auto
  have n: "from \<noteq> no_entry" "till \<noteq> no_entry" using tf assms(3) by auto
  note r = answer_merged [OF assms(8-10,6) disjI2 [OF assms(7)] tf(1) n assms(2,15)]
  have ef: "e < from" using assms(6,14) by blast
  have "e \<notin> ids ?xs" using tf(4) assms(13) ef by blast
  moreover have "e \<notin> ids (gal_items a)" using assms(14) by blast
  moreover have "\<not> (x < e \<and> e < y)" if b: "(x, y) \<in> set (broken_links (gal_items g'))" for x y
  proof
    assume e: "x < e \<and> e < y"
    have "(x, y) \<in> set (broken_links ?xs)" and none: "\<not> (\<exists>e\<in>ids (gal_items a) - ids ?xs. x < e \<and> e < y)"
      using b r(3) m(2) by auto
    with only_link_around [OF assms(2,4,13) ef] e have "x = till" "y = from" by blast+
    moreover have "till < new" "new \<notin> ids ?xs" using assms(5,11,12) tf(4) by auto
    ultimately show False using none assms(11,12) by auto
  qed
  ultimately have "missed e (gal_items g')" using r(2) m(2) by (auto simp: missed_def)
  with m(1) show ?thesis by blast
qed

subsection \<open>Examples\<close>

definition example_state :: gallery_state where
  "example_state = gallery_state_default\<lparr>gst_first_entry := Entry_Id 5 1, gst_last_entry := Entry_Id 9 1\<rparr>"

definition gallery_with_hole :: gallery_storage where
  "gallery_with_hole = (a_gallery [an_item 5 0, an_item 9 0])\<lparr>gal_loaded := True, gal_last_check := 0, gal_state := example_state,
     gal_state_file := Some (mk_storage (Some (enc_block (state_bytes example_state))))\<rparr>"

definition example_server :: gallery_server where
  "example_server = \<lparr>ask_range = (\<lambda>_ _ _. an_answer [an_item 9 0, an_item 7 0, an_item 5 0]), ask_patches = (\<lambda>_. an_answer [])\<rparr>"

lemma gallery_with_hole_settled: "settled 0 gallery_with_hole" "gal_items gallery_with_hole = [an_item 5 0, an_item 9 0]"
proof -
  show i: "gal_items gallery_with_hole = [an_item 5 0, an_item 9 0]" by (simp add: gallery_with_hole_def)
  have g: "good_gallery_state example_state" "gst_first_entry example_state = Entry_Id 5 1" "gst_last_entry example_state = Entry_Id 9 1"
    "\<not> gst_patch_changed example_state"
    by (simp_all add: good_gallery_state_def example_state_def gallery_state_default_def state_bytes_def state_fields_def no_entry_def
        i64_range_def i32_range_def)
  have "state_synced gallery_with_hole"
    by (simp add: state_synced_def gallery_with_hole_def can_use_file_def mk_storage_def contents_def)
  moreover have "gal_state gallery_with_hole = example_state" "gal_loaded gallery_with_hole" "gal_last_check gallery_with_hole = 0"
    "\<not> gal_hole_requested gallery_with_hole" "\<not> gal_first_load gallery_with_hole" "gal_cache gallery_with_hole \<noteq> None"
    by (simp_all add: gallery_with_hole_def a_gallery_def mk_gallery_def mk_server_gallery_def)
  ultimately show "settled 0 gallery_with_hole"
    using i g by (simp add: settled_def consistency_check_period_def entry_valid_def no_entry_def)
qed

theorem download_completes_the_gallery_witness:
  "\<exists>g'. download_holes 2 0 example_server gallery_with_hole = Some (True, g') \<and> broken_links (gal_items g') = [] \<and>
    ids (gal_items g') = {Entry_Id 5 1, Entry_Id 7 1, Entry_Id 9 1}"
proof -
  let ?S = "{Entry_Id 5 1, Entry_Id 7 1, Entry_Id 9 1}" and ?v = "gst_patch_version (gal_state gallery_with_hole)"
  note g = gallery_with_hole_settled
  have b: "broken_links (gal_items gallery_with_hole) = [(Entry_Id 5 1, Entry_Id 9 1)]" by (simp add: g(2))
  have c: "complete_answer ?S (Entry_Id 9 1) (Entry_Id 5 1) (ask_range example_server v f t)" for v f t
    by (auto simp: complete_answer_def example_server_def asked_count_def)
  have v: "gst_patch_version (gal_state (ask_range example_server v f t)) = ?v" for v f t
    by (simp add: example_server_def gallery_with_hole_def example_state_def)
  have "holes_known ?S (gal_items gallery_with_hole)" unfolding holes_known_def b by (simp add: g(2))
  moreover have "apart (broken_links (gal_items gallery_with_hole))" by (simp add: b apart_def)
  moreover have "ids (gal_items gallery_with_hole) \<subseteq> ?S" "no_entry \<notin> ?S" "finite ?S" "card ?S + asked_count \<le> max_items_size"
    by (simp_all add: g(2) no_entry_def asked_count_def max_items_size_def)
  ultimately obtain g' where "download_holes (Suc (length (broken_links (gal_items gallery_with_hole)))) 0 example_server gallery_with_hole = Some (True, g')"
    "broken_links (gal_items g') = []"
    "ids (gal_items g') = {e \<in> ?S. gi_id (hd (gal_items gallery_with_hole)) \<le> e \<and> e \<le> gi_id (last (gal_items gallery_with_hole))}"
    using download_completes_the_gallery [OF g(1), of ?S ?v example_server] b c v by auto
  moreover have "{e \<in> ?S. Entry_Id 5 1 \<le> e \<and> e \<le> Entry_Id 9 1} = ?S" by auto
  ultimately show ?thesis by (simp add: b g(2) numeral_2_eq_2 del: download_holes.simps)
qed

theorem answer_closes_the_next_hole_witness:
  "\<exists>ch g'. merge_from_server (an_answer [an_item 9 0, an_item 7 0, an_item 5 0]) (Entry_Id 9 1) (Entry_Id 5 1)
      (a_gallery [an_item 5 0, an_item 9 0, an_item 13 0]) = Some (ch, g') \<and> missed (Entry_Id 11 1) (gal_items g')"
proof -
  let ?g = "a_gallery [an_item 5 0, an_item 9 0, an_item 13 0]" and ?S = "{Entry_Id 5 1, Entry_Id 7 1, Entry_Id 9 1, Entry_Id 11 1, Entry_Id 13 1}"
  have "complete_answer ?S (Entry_Id 9 1) (Entry_Id 5 1) (an_answer [an_item 9 0, an_item 7 0, an_item 5 0])"
    by (auto simp: complete_answer_def asked_count_def)
  note c = this
  have b: "(Entry_Id 5 1, Entry_Id 9 1) \<in> set (broken_links (gal_items ?g))" "(Entry_Id 9 1, Entry_Id 13 1) \<in> set (broken_links (gal_items ?g))"
    and o: "has_files ?g" "sorted_items (gal_items ?g)" "no_entry \<notin> ids (gal_items ?g)"
    and l: "ids (gal_items ?g) \<subseteq> ?S" "Entry_Id 9 1 < Entry_Id 11 1" "Entry_Id 11 1 < Entry_Id 13 1"
      "length (gal_items ?g) + asked_count \<le> max_items_size"
    by (simp_all add: no_entry_def asked_count_def max_items_size_def)
  show ?thesis by (rule answer_closes_the_next_hole [OF o b c l])
qed

text \<open>A hole between the items 1 and 1010, of which the server has all but sends the newer half first.\<close>

definition thousand_items :: "gallery_item list" where
  "thousand_items = map (\<lambda>k. an_item (int k) 0) (rev [11..<1011])"

lemma thousand_items_facts:
  "ids thousand_items = (\<lambda>k. Entry_Id (int k) 1) ` {11..1010}" "length thousand_items = 1000"
proof -
  have "set thousand_items = (\<lambda>k. an_item (int k) 0) ` {11..1010}"
    unfolding thousand_items_def set_map set_rev set_upt by (rule arg_cong [where f = "image _"]) auto
  then show "ids thousand_items = (\<lambda>k. Entry_Id (int k) 1) ` {11..1010}" by (simp add: ids_def image_image an_item_def)
  show "length thousand_items = 1000" unfolding thousand_items_def length_map length_rev length_upt by simp
qed

theorem answer_cut_short_closes_the_hole_witness:
  "\<exists>ch g'. merge_from_server (an_answer thousand_items) (Entry_Id 1010 1) (Entry_Id 1 1) (a_gallery [an_item 1 0, an_item 1010 0]) =
      Some (ch, g') \<and> missed (Entry_Id 5 1) (gal_items g')"
proof -
  let ?g = "a_gallery [an_item 1 0, an_item 1010 0]" and ?a = "an_answer thousand_items"
  have i: "ids (gal_items ?a) = (\<lambda>k. Entry_Id (int k) 1) ` {11..1010}" and n: "length (gal_items ?a) = 1000"
    using thousand_items_facts by simp_all
  have m: "Entry_Id (int k) 1 \<in> ids (gal_items ?a)" if "11 \<le> k" "k \<le> 1010" for k unfolding i using that by (intro imageI) simp
  have b: "ids (gal_items ?a) \<subseteq> {e. Entry_Id 1 1 < e \<and> e \<le> Entry_Id 1010 1}" "\<forall>e\<in>ids (gal_items ?a). Entry_Id 5 1 < e"
    unfolding i by auto
  have g: "(Entry_Id 1 1, Entry_Id 1010 1) \<in> set (broken_links (gal_items ?g))" "sorted_items (gal_items ?g)"
    "no_entry \<notin> ids (gal_items ?g)" "length (gal_items ?g) = 2" by (simp_all add: no_entry_def)
  show ?thesis
  proof (rule answer_cut_short_closes_the_hole [OF _ g(2,3,1) b(1), where new = "Entry_Id 500 1"])
    show "Entry_Id 1010 1 \<in> ids (gal_items ?a)" "Entry_Id 500 1 \<in> ids (gal_items ?a)" using m [of 1010] m [of 500] by simp_all
    show "asked_count \<le> length (gal_items ?a)" "length (gal_items ?g) + length (gal_items ?a) \<le> max_items_size"
      unfolding n g(4) by (simp_all add: asked_count_def max_items_size_def)
  qed (use b(2) in simp_all)
qed

end
