(* ===== verification/Gallery_Pages.thy ===== *)
theory Gallery_Pages
  imports Gallery_Holes
begin

text \<open>
  The gallery over all its calls: the items stay in order and no call uses a file that is not there. Pages: one
  asked for after the other, each from the last item of the one before, they show every item of the kinds asked
  for, newest first. Then the examples on which the properties of the gallery are applied.
\<close>

subsection \<open>Sequences of calls\<close>

inductive gallery_call :: "gallery_storage \<Rightarrow> gallery_storage \<Rightarrow> bool" where
  call_merge: "merge_from_server other from till g = Some (ch, g') \<Longrightarrow> gallery_call g g'"
| call_state: "set_gallery_state s b g = Some g' \<Longrightarrow> gallery_call g g'"
| call_hole: "get_next_hole now g = Some (found, from, till, g') \<Longrightarrow> gallery_call g g'"
| call_make_hole: "make_hole from_id till_id g = Some g' \<Longrightarrow> gallery_call g g'"
| call_clear: "gallery_call g (clear_hole_request g)"
| call_free: "gallery_call g (free_gallery g)"

definition in_order :: "gallery_storage \<Rightarrow> bool" where
  "in_order g \<longleftrightarrow> has_files g \<and> sorted_items (gal_items g)"

lemma set_state_returns:
  assumes "has_files g"
  shows "\<exists>g'. set_gallery_state s b g = Some g' \<and> gal_items g' = gal_items g \<and> has_files g'"
proof -
  have "\<exists>g'. state_saved (g\<lparr>gal_state := n\<rparr>) = Some g' \<and> gal_items g' = gal_items g \<and> has_files g'" for n
    using state_saved_keeps [of "g\<lparr>gal_state := n\<rparr>"] assms by (auto simp: same_phase_def)
  then show ?thesis by (simp add: set_gallery_state_def Let_def)
qed

lemma hole_loop_order: "sorted_items xs \<Longrightarrow> sorted_items (hole_loop f t b xs) \<and> ids (hole_loop f t b xs) \<subseteq> ids xs"
proof (induction xs arbitrary: b)
  case (Cons x xs)
  then have "\<And>b. sorted_items (hole_loop f t b xs)" "\<And>b. ids (hole_loop f t b xs) \<subseteq> ids xs" "\<forall>e\<in>ids xs. gi_id x < e" by auto
  then show ?case using Cons.prems by (auto dest: subsetD)
qed simp

lemma make_hole_returns:
  assumes "in_order g"
  shows "\<exists>g'. make_hole f t g = Some g' \<and> in_order g'"
proof -
  let ?xs = "if f = -1 then [] else hole_loop f t (t = -1) (gal_items g)"
  have "has_files (g\<lparr>gal_items := ?xs\<rparr>)" using assms by (simp add: in_order_def)
  from cache_saved_keeps [OF this] obtain g' where "make_hole f t g = Some g'" "gal_items g' = ?xs" "has_files g'"
    by (auto simp: make_hole_def same_phase_def)
  moreover have "sorted_items ?xs" using assms hole_loop_order by (auto simp: in_order_def)
  ultimately show ?thesis by (auto simp: in_order_def)
qed

lemma clear_gallery_returns:
  assumes "has_files g"
  shows "\<exists>g'. clear_gallery g = Some g' \<and> in_order g'"
proof -
  have "has_files (g\<lparr>gal_items := [], gal_state := gallery_state_default\<rparr>)" using assms by (simp add: has_files_def)
  from cache_saved_keeps [OF this] obtain g1 where
    g1: "cache_saved (g\<lparr>gal_items := [], gal_state := gallery_state_default\<rparr>) = Some g1" "gal_items g1 = []" "has_files g1"
    by (auto simp: same_phase_def)
  from state_saved_keeps [OF g1(3)] g1 show ?thesis by (auto simp: clear_gallery_def in_order_def same_phase_def)
qed

lemma next_hole_returns:
  assumes "in_order g"
  shows "\<exists>found f t g'. get_next_hole now g = Some (found, f, t, g') \<and> in_order g'"
proof -
  obtain ok g1 where c: "check_consistency now g = (ok, g1)" by fastforce
  then have "in_order g1" using assms by (auto simp: check_consistency_def in_order_def has_files_def split: if_splits)
  moreover from this obtain g2 where "clear_gallery g1 = Some g2" "in_order g2"
    using clear_gallery_returns by (auto simp: in_order_def)
  ultimately have scanned: "\<exists>found f t g'. (case check_consistency now g of (True, g) \<Rightarrow> Some (False, no_entry, no_entry, g)
      | (False, g) \<Rightarrow> map_option (\<lambda>g. (True, no_entry, no_entry, g\<lparr>gal_hole_requested := True\<rparr>)) (clear_gallery g)) =
      Some (found, f, t, g') \<and> in_order g'"
    using c by (cases ok) (auto simp: in_order_def)
  have r: "in_order (g\<lparr>gal_hole_requested := True\<rparr>)" "in_order (g\<lparr>gal_hole_requested := True, gal_first_load := False\<rparr>)"
    using assms by (simp_all add: in_order_def)
  show ?thesis unfolding get_next_hole_def Let_def
    using scanned assms r by (cases "gal_items g"; cases "scan_links (gi_id (hd (gal_items g))) (gi_next (hd (gal_items g))) (tl (gal_items g))")
      (simp_all add: ex_bool_eq case_prod_unfold)
qed

lemma call_keeps_order:
  assumes "gallery_call g g'" and "in_order g"
  shows "in_order g'"
  using assms
proof (induction rule: gallery_call.induct)
  case (call_merge other "from" till g ch g')
  then show ?case using merge_returns [of g other "from" till] merged_sorted by (auto simp: in_order_def same_phase_def)
next
  case (call_state s b g g')
  then show ?case using set_state_returns [of g s b] by (auto simp: in_order_def)
next
  case (call_hole now g found "from" till g')
  then show ?case using next_hole_returns [of g now] by auto
next
  case (call_make_hole f t g g')
  then show ?case using make_hole_returns [of g f t] by auto
qed (simp_all add: in_order_def clear_hole_request_def free_gallery_def has_files_def)

text \<open>C22: Whatever is called, and whatever the server answers, the items of a gallery stay in the order of their ids, none
  twice, and no call runs into a file that is not there.\<close>

theorem gallery_stays_in_order:
  assumes "gallery_call\<^sup>*\<^sup>* g g'" and "has_files g" and "sorted_items (gal_items g)"
  shows "sorted_items (gal_items g') \<and> has_files g' \<and>
    (\<forall>other from till. merge_from_server other from till g' \<noteq> None) \<and> (\<forall>s b. set_gallery_state s b g' \<noteq> None) \<and>
    (\<forall>now. get_next_hole now g' \<noteq> None) \<and> (\<forall>f t. make_hole f t g' \<noteq> None)"
proof -
  have "in_order g'" using assms(1)
  proof (induction rule: rtranclp_induct)
    case base
    show ?case using assms(2,3) by (simp add: in_order_def)
  next
    case (step g' g'')
    then show ?case using call_keeps_order by blast
  qed
  then show ?thesis using merge_returns [of g'] set_state_returns [of g'] next_hole_returns [of g'] make_hole_returns [of g']
    by (fastforce simp: in_order_def)
qed

subsection \<open>Pages\<close>

lemma collect_items_take:
  "count \<le> limit \<Longrightarrow>
    \<exists>ended. collect_items types limit count xs =
      (take (nat (limit - count)) (filter (\<lambda>x. gi_type x \<in> set types) xs),
       count + int (length (take (nat (limit - count)) (filter (\<lambda>x. gi_type x \<in> set types) xs))), ended)"
proof (induction xs arbitrary: count)
  case (Cons x xs)
  show ?case
  proof (cases "count = limit \<or> gi_type x \<notin> set types")
    case True
    then show ?thesis using Cons.IH [OF Cons.prems] by auto
  next
    case False
    then have "count < limit" using Cons.prems by simp
    then have "nat (limit - count) = Suc (nat (limit - (count + 1)))" by (simp add: Suc_nat_eq_nat_zadd1)
    with False Cons.prems Cons.IH [of "count + 1"] show ?thesis by (auto split: prod.splits)
  qed
qed (simp add: ex_bool_eq)

text \<open>The page is the first so many items of the kinds.\<close>

lemma page_of_collected:
  assumes "0 < k" and "collect_items types k (-1) xs = (ys, count, ended)"
  shows "(if count = k then butlast ys else ys) = take (nat k) (filter (\<lambda>x. gi_type x \<in> set types) xs)"
proof -
  let ?f = "filter (\<lambda>x. gi_type x \<in> set types) xs"
  have y: "ys = take (Suc (nat k)) ?f" "count = int (length ys) - 1"
    using collect_items_take [of "-1" k types xs] assms by (auto simp: Suc_nat_eq_nat_zadd1 add.commute)
  show ?thesis
  proof (cases "count = k")
    case True
    then have "length ys = Suc (nat k)" using y(2) assms(1) by linarith
    then show ?thesis using True y(1) by (simp add: butlast_take)
  next
    case False
    then have "length ?f \<le> nat k" using y assms(1) by (auto simp: min_def split: if_splits)
    then show ?thesis using False y(1) by simp
  qed
qed

definition of_kinds :: "cstring list \<Rightarrow> gallery_item list \<Rightarrow> gallery_item list" where
  "of_kinds types xs = filter (\<lambda>x. gi_type x \<in> set types) xs"

lemma first_page:
  assumes "0 < k"
  shows "fst (get_page no_entry types k e g) = take (nat k) (of_kinds types (rev (gal_items g)))"
proof -
  obtain ys count ended where c: "collect_items types k (-1) (rev (gal_items g)) = (ys, count, ended)" by (metis prod_cases3)
  from page_of_collected [OF assms c] assms c show ?thesis by (auto simp: get_page_def Let_def of_kinds_def)
qed

lemma next_page:
  assumes "0 < k" and "sorted_items (gal_items g)" and "gal_items g = older @ x # newer" and "gi_id x \<noteq> no_entry"
  shows "fst (get_page (gi_id x) types k e g) = take (nat k) (of_kinds types (rev older))"
proof -
  have "\<forall>y\<in>set older. gi_id y \<noteq> gi_id x" using assms(2,3) by (auto simp: ids_def)
  then have s: "dropWhile (\<lambda>y. gi_id y \<noteq> gi_id x) (gal_items g) = x # newer" "takeWhile (\<lambda>y. gi_id y \<noteq> gi_id x) (gal_items g) = older"
    using assms(3) by (simp_all add: dropWhile_append3 takeWhile_append2)
  obtain ys count ended where c: "collect_items types k (-1) (rev older) = (ys, count, ended)" by (metis prod_cases3)
  have "gal_items g \<noteq> []" "\<bar>k\<bar> = k" using assms(1,3) by simp_all
  with page_of_collected [OF assms(1) c] c s assms(1,4) show ?thesis by (simp add: get_page_def Let_def of_kinds_def)
qed

text \<open>The pages a user sees who goes on from the last item of each.\<close>

fun pages :: "nat \<Rightarrow> cstring list \<Rightarrow> int \<Rightarrow> gallery_storage \<Rightarrow> gallery_entry_id \<Rightarrow> gallery_item list" where
  "pages 0 types k g from = []"
| "pages (Suc n) types k g from =
     (case fst (get_page from types k False g) of
        [] \<Rightarrow> []
      | y # ys \<Rightarrow> (y # ys) @ pages n types k g (gi_id (last (y # ys))))"

lemma take_of_kinds:
  "0 < n \<Longrightarrow> take n (of_kinds types zs) \<noteq> [] \<Longrightarrow>
    \<exists>as x bs. zs = as @ x # bs \<and> take n (of_kinds types zs) = of_kinds types as @ [x] \<and>
      of_kinds types zs = (of_kinds types as @ [x]) @ of_kinds types bs"
proof (induction zs arbitrary: n)
  case (Cons z zs)
  show ?case
  proof (cases "gi_type z \<in> set types")
    case z: True
    show ?thesis
    proof (cases "take (n - 1) (of_kinds types zs) = []")
      case True
      then show ?thesis using z Cons.prems
        by (intro exI [of _ "[]"] exI [of _ z] exI [of _ zs]) (auto simp: of_kinds_def take_Cons')
    next
      case False
      then obtain as x bs where "zs = as @ x # bs" "take (n - 1) (of_kinds types zs) = of_kinds types as @ [x]"
        "of_kinds types zs = (of_kinds types as @ [x]) @ of_kinds types bs"
        using Cons.IH [of "n - 1"] by force
      then show ?thesis using z Cons.prems
        by (intro exI [of _ "z # as"] exI [of _ x] exI [of _ bs]) (auto simp: of_kinds_def take_Cons')
    qed
  next
    case False
    then obtain as x bs where "zs = as @ x # bs" "take n (of_kinds types zs) = of_kinds types as @ [x]"
      "of_kinds types zs = (of_kinds types as @ [x]) @ of_kinds types bs"
      using Cons.IH [OF Cons.prems(1)] Cons.prems(2) by (auto simp: of_kinds_def)
    then show ?thesis using False by (intro exI [of _ "z # as"] exI [of _ x] exI [of _ bs]) (auto simp: of_kinds_def)
  qed
qed (simp add: of_kinds_def)

lemma pages_from:
  assumes "0 < k" and "sorted_items (gal_items g)" and "no_entry \<notin> ids (gal_items g)"
    and "fst (get_page from types k False g) = take (nat k) (of_kinds types (rev older))"
    and "gal_items g = older @ newer" and "length older < n"
  shows "pages n types k g from = of_kinds types (rev older)"
  using assms(4-6)
proof (induction n arbitrary: "from" older newer)
  case (Suc n)
  let ?ys = "take (nat k) (of_kinds types (rev older))"
  show ?case
  proof (cases "?ys = []")
    case True
    then show ?thesis using Suc.prems(1) assms(1) by simp
  next
    case False
    then obtain as x bs where s: "rev older = as @ x # bs" "?ys = of_kinds types as @ [x]"
      "of_kinds types (rev older) = ?ys @ of_kinds types bs"
      using take_of_kinds [of "nat k" types "rev older"] assms(1) by force
    have g: "gal_items g = rev bs @ x # (rev as @ newer)"
      using Suc.prems(2) arg_cong [OF s(1), of rev] by simp
    have "gi_id x \<noteq> no_entry" using assms(3) g by auto
    note p = next_page [OF assms(1,2) g this, of types False]
    have "length (rev bs) < n" using Suc.prems(3) arg_cong [OF s(1), of length] by simp
    then have "pages n types k g (gi_id x) = of_kinds types bs" using Suc.IH [of "gi_id x" "rev bs"] p g by simp
    moreover have "last ?ys = x" using s(2) by simp
    moreover have "pages (Suc n) types k g from = ?ys @ pages n types k g (gi_id (last ?ys))"
      using Suc.prems(1) False by (cases ?ys) simp_all
    ultimately show ?thesis using s(3) by simp
  qed
qed simp

text \<open>C21: Going on from page to page shows every item of the kinds asked for, the newest first and none twice, after no more
  pages than there are items.\<close>

theorem pages_reach_every_item:
  assumes "0 < k" and "sorted_items (gal_items g)" and "no_entry \<notin> ids (gal_items g)" and "length (gal_items g) < n"
  shows "pages n types k g no_entry = rev (filter (\<lambda>x. gi_type x \<in> set types) (gal_items g))"
  using pages_from [OF assms(1-3) first_page [OF assms(1)], of "[]" n] assms(4) by (simp add: of_kinds_def rev_filter)

subsection \<open>Examples\<close>

theorem gallery_stays_in_order_witness:
  "\<exists>g1 g2. make_hole 5 7 (a_gallery [an_item 5 7, an_item 7 0]) = Some g1 \<and> make_hole 7 9 g1 = Some g2 \<and>
    sorted_items (gal_items g2) \<and> get_next_hole 3 g2 \<noteq> None"
proof -
  let ?g = "a_gallery [an_item 5 7, an_item 7 0]"
  have g: "has_files ?g" "sorted_items (gal_items ?g)" by (simp_all add: no_entry_def)
  then obtain g1 where g1: "make_hole 5 7 ?g = Some g1" "in_order g1" using make_hole_returns [of ?g 5 7] by (auto simp: in_order_def)
  then obtain g2 where g2: "make_hole 7 9 g1 = Some g2" using make_hole_returns [of g1 7 9] by blast
  have "gallery_call\<^sup>*\<^sup>* ?g g2"
    using call_make_hole [OF g1(1)] call_make_hole [OF g2] by (metis r_into_rtranclp rtranclp.rtrancl_into_rtrancl)
  from gallery_stays_in_order [OF this g] g1 g2 show ?thesis by blast
qed

theorem pages_reach_every_item_witness:
  "pages 4 [cstr ''image''] 2 (a_gallery [an_item 5 7, an_item 7 9, an_item 9 0]) no_entry = [an_item 9 0, an_item 7 9, an_item 5 7]"
  using pages_reach_every_item [of 2 "a_gallery [an_item 5 7, an_item 7 9, an_item 9 0]" 4 "[cstr ''image'']"]
  by (simp add: no_entry_def)

end
