(* ===== verification/Draft_Contacts.thy ===== *)
theory Draft_Contacts
  imports Block_Loop Message_Fields "HOL-Library.AList" "HOL-Library.List_Lexorder" "HOL-Library.Product_Lexorder" "HOL-Library.Multiset"
begin

text \<open>
  The contacts whose draft was not told to the server yet (\<^verbatim>\<open>core/archive/pending_drafts.cpp\<close>): those of the
  sessions before, newest first, which are served from the back, and those of this session. One file holds
  both. The order in which a hash map goes over its nodes is the argument \<open>order\<close>.
\<close>

subsection \<open>The class\<close>

type_synonym draft_entry = "int \<times> cstring"

record pending_drafts =
  pd_prev :: "draft_entry list"
  pd_current :: "(cstring \<times> int) list"
  pd_storage :: storage

definition dc_contact :: u32 where [simp]: "dc_contact = 1"
definition dc_timestamp :: u32 where [simp]: "dc_timestamp = 2"

definition entry_fields :: "draft_entry \<Rightarrow> tlv list" where
  "entry_fields e = [mk_tlv dc_contact (snd e), mk_tlv dc_timestamp (i64_image (fst e))]"

definition read_entry :: "tlvpack \<Rightarrow> draft_entry list \<Rightarrow> draft_entry list" where
  "read_entry p es =
     (case (get_item p dc_contact, get_item p dc_timestamp) of
        (Some c, Some t) \<Rightarrow> if 0 \<le> get_i64 t \<and> get_string c \<noteq> [] then es @ [(get_i64 t, get_string c)] else es
      | _ \<Rightarrow> es)"

definition load_entry :: "storage \<Rightarrow> binary_stream \<Rightarrow> draft_entry list \<Rightarrow> (bool \<times> binary_stream \<times> draft_entry list) option" where
  "load_entry st d es = do {
     (ok, p, d) \<leftarrow> pack_unserialize empty_pack d;
     Some (if ok then (True, d, read_entry p es) else (False, d, es))
   }"

text \<open>The list is sorted only when the file was read to its end.\<close>

definition mk_pending_drafts :: "storage \<Rightarrow> pending_drafts option" where
  "mk_pending_drafts st =
     (case storage_open (mode_zero\<lparr>sm_read := True\<rparr>) st of
        (False, st) \<Rightarrow> Some \<lparr>pd_prev = [], pd_current = [], pd_storage = st\<rparr>
      | (True, st) \<Rightarrow>
          map_option (\<lambda>(ended, es, st). \<lparr>pd_prev = (if ended then rev (sort es) else es), pd_current = [], pd_storage = storage_close st\<rparr>)
            (read_blocks load_entry [] st empty_stream))"

definition get_next_pending_draft_contact :: "pending_drafts \<Rightarrow> cstring" where
  "get_next_pending_draft_contact x = (if pd_prev x = [] then [] else snd (last (pd_prev x)))"

definition serialize_entry :: "draft_entry \<Rightarrow> binary_stream \<Rightarrow> binary_stream" where
  "serialize_entry e d = pack_serialize (pack_of (entry_fields e)) d"

definition rewrite_mode :: "storage \<Rightarrow> storage_mode" where
  "rewrite_mode st = mode_zero\<lparr>sm_write := True, sm_truncate := True, sm_read := st_file st \<noteq> None\<rparr>"

definition write_drafts ::
  "((cstring \<times> int) list \<Rightarrow> (cstring \<times> int) list) \<Rightarrow> pending_drafts \<Rightarrow> pending_drafts option" where
  "write_drafts order x =
     (case storage_open (rewrite_mode (pd_storage x)) (pd_storage x) of
        (False, st) \<Rightarrow> Some (x\<lparr>pd_storage := st\<rparr>)
      | (True, st) \<Rightarrow>
          map_option (\<lambda>st. x\<lparr>pd_storage := storage_close st\<rparr>)
            (write_all_blocks serialize_entry (pd_prev x @ map prod.swap (order (pd_current x))) empty_stream st))"

definition served :: "cstring \<Rightarrow> int \<Rightarrow> draft_entry list \<Rightarrow> bool" where
  "served c t es \<longleftrightarrow> es \<noteq> [] \<and> snd (last es) = c \<and> fst (last es) \<le> t"

definition remove_pending_draft_contact ::
  "((cstring \<times> int) list \<Rightarrow> (cstring \<times> int) list) \<Rightarrow> cstring \<Rightarrow> int \<Rightarrow> pending_drafts \<Rightarrow> pending_drafts option" where
  "remove_pending_draft_contact order c t x =
     (let pop = served c t (pd_prev x);
          x = (if pop then x\<lparr>pd_prev := butlast (pd_prev x)\<rparr> else x);
          erase = (case map_of (pd_current x) c of None \<Rightarrow> False | Some t' \<Rightarrow> t' \<le> t);
          x = (if erase then x\<lparr>pd_current := AList.delete c (pd_current x)\<rparr> else x)
      in if pop \<or> erase then write_drafts order x else Some x)"

definition add_pending_draft_contact ::
  "((cstring \<times> int) list \<Rightarrow> (cstring \<times> int) list) \<Rightarrow> cstring \<Rightarrow> int \<Rightarrow> pending_drafts \<Rightarrow> pending_drafts option" where
  "add_pending_draft_contact order c t x =
     write_drafts order
       (case map_of (pd_current x) c of
          None \<Rightarrow> x\<lparr>pd_current := (c, t) # pd_current x\<rparr>
        | Some t' \<Rightarrow> if t' < t then x\<lparr>pd_current := AList.update c t (pd_current x)\<rparr> else x)"

subsection \<open>The file\<close>

definition entry_bytes :: "draft_entry \<Rightarrow> bytes" where
  "entry_bytes e = enc_fields (map tlv_view (entry_fields e))"

definition good_entry :: "draft_entry \<Rightarrow> bool" where
  "good_entry e \<longleftrightarrow> 0 \<le> fst e \<and> i64_range (fst e) \<and> snd e \<noteq> [] \<and> length (snd e) \<le> 1024 * 1024 - 24"

lemma entry_bytes_length: "length (entry_bytes e) = 24 + length (snd e)"
  by (simp add: entry_bytes_def entry_fields_def)

lemma good_entry_block: "good_entry e \<Longrightarrow> good_block (entry_bytes e)"
  using entry_bytes_length [of e] by (auto simp: good_block_def good_entry_def)

lemma fresh_entry [simp]: "list_all fresh_tlv (entry_fields e)"
  by (simp add: entry_fields_def)

lemma entry_written:
  "wf_stream d \<Longrightarrow> pending d = [] \<Longrightarrow> wf_stream (serialize_entry e d) \<and> pending (serialize_entry e d) = entry_bytes e"
  by (simp add: serialize_entry_def wf_pack_serialize pending_pack_serialize entry_bytes_def)

lemma good_entries: "list_all good_entry es \<Longrightarrow> list_all (\<lambda>e. good_block (entry_bytes e)) es"
  using good_entry_block by (auto simp: list_all_iff)

lemma load_entry_bytes:
  assumes "wf_stream d" and "pending d = entry_bytes e" and "good_entry e"
  shows "\<exists>d'. load_entry st d es = Some (True, d', es @ [e])"
proof -
  have "list_all good_field (map tlv_view (entry_fields e))"
    by (rule good_fields_if_small) (use good_entry_block [OF assms(3)] in \<open>simp add: good_block_def flip: entry_bytes_def\<close>)
  then obtain d' where "pack_unserialize empty_pack d = Some (True, mk_pack (map tlv_view (entry_fields e)), d')"
    using pack_unserialize_enc [OF assms(1), of "map tlv_view (entry_fields e)"] assms(2) by (auto simp: entry_bytes_def)
  moreover have "read_entry (mk_pack (map tlv_view (entry_fields e))) es = es @ [e]"
    using assms(3) by (simp add: read_entry_def entry_fields_def good_entry_def mk_pack_def get_item_def)
  ultimately show ?thesis by (simp add: load_entry_def)
qed

text \<open>Loading a file of good entries sorts them; a new file is a file without any.\<close>

lemma load_all_entries:
  assumes "can_use_file st" and "contents st = file_of (map entry_bytes es)" and "list_all good_entry es"
  shows "\<exists>st'. mk_pending_drafts st = Some \<lparr>pd_prev = rev (sort es), pd_current = [], pd_storage = st'\<rparr> \<and>
    can_use_file st' \<and> contents st' = contents st \<and> st_room st' = st_room st"
proof (cases "st_file st = None")
  case True
  then have "es = []" using assms(2) by (cases es) (simp_all add: contents_def)
  with True assms(1) show ?thesis
    by (auto simp: mk_pending_drafts_def storage_open_def mode_zero_def can_use_file_def contents_def)
next
  case False
  obtain st1 where o: "storage_open (mode_zero\<lparr>sm_read := True\<rparr>) st = (True, st1)" "open_reading st1" "unread st1 = contents st"
    "contents st1 = contents st" "can_use_file (storage_close st1)" "st_room st1 = st_room st"
    using open_read_all [OF assms(1) False] by blast
  have one: "\<exists>d'. load_entry st d x = Some (True, d', x @ [e])" if "wf_stream d" "pending d = entry_bytes e" "e \<in> set es" for st d x e
    using load_entry_bytes [OF that(1,2)] assms(3) that(3) by (simp add: list_all_iff)
  have u: "unread st1 = file_of (map entry_bytes es)" using o(3) assms(2) by simp
  have "\<exists>st'. read_blocks load_entry [] st1 empty_stream = Some (True, fold (\<lambda>e es. es @ [e]) es [], st') \<and>
      st_last_error st' = end_of_file \<and> contents st' = contents st1 \<and> st_room st' = st_room st1 \<and>
      (can_use_file (storage_close st1) \<longrightarrow> can_use_file (storage_close st'))"
    by (rule read_blocks_of [OF one o(2) u good_entries [OF assms(3)]])
  moreover have "fold (\<lambda>e es. es @ [e]) es xs = xs @ es" for xs by (induction es arbitrary: xs) simp_all
  ultimately obtain st2 where r: "read_blocks load_entry [] st1 empty_stream = Some (True, es, st2)"
    "contents st2 = contents st1" "st_room st2 = st_room st1" "can_use_file (storage_close st2)"
    using o(5) by auto
  then show ?thesis using o(1,4,6) by (simp add: mk_pending_drafts_def storage_close_def)
qed

lemma write_drafts_returns: "\<exists>st. write_drafts order x = Some (x\<lparr>pd_storage := st\<rparr>)"
proof -
  obtain b st where "storage_open (rewrite_mode (pd_storage x)) (pd_storage x) = (b, st)" by fastforce
  moreover obtain st' where "write_all_blocks serialize_entry (pd_prev x @ map prod.swap (order (pd_current x))) empty_stream st = Some st'"
    using write_all_blocks_returns [of serialize_entry empty_stream] by (auto simp: serialize_entry_def wf_pack_serialize)
  ultimately show ?thesis by (cases b) (auto simp: write_drafts_def)
qed

subsection \<open>What the class promises\<close>

text \<open>
  To its owner the object is a list of marks from before and a map of those of this session. \<open>kept\<close> says
  that the file holds both, in some order.
\<close>

definition all_entries :: "pending_drafts \<Rightarrow> draft_entry list" where
  "all_entries x = pd_prev x @ map prod.swap (pd_current x)"

definition file_size :: "draft_entry list \<Rightarrow> nat" where
  "file_size es = length (file_of (map entry_bytes es))"

definition kept :: "pending_drafts \<Rightarrow> bool" where
  "kept x \<longleftrightarrow> can_use_file (pd_storage x) \<and> list_all good_entry (all_entries x) \<and>
     (\<exists>es. contents (pd_storage x) = file_of (map entry_bytes es) \<and> mset es = mset (all_entries x))"

lemma file_size_simps [simp]: "file_size [] = 0" "file_size (e # es) = 40 + length (snd e) + file_size es"
  "file_size (es @ fs) = file_size es + file_size fs"
  by (simp_all add: file_size_def entry_bytes_length)

lemma file_size_mset: "mset es = mset fs \<Longrightarrow> file_size es = file_size fs"
proof -
  have "file_size es = sum_mset (image_mset (\<lambda>e. 40 + length (snd e)) (mset es))" for es
    by (induction es) simp_all
  then show "mset es = mset fs \<Longrightarrow> file_size es = file_size fs" by simp
qed

lemma write_drafts_keeps:
  assumes "can_use_file (pd_storage x)" and "list_all good_entry (all_entries x)" and "file_size (all_entries x) \<le> st_room (pd_storage x)"
    and "\<And>xs. mset (order xs) = mset xs"
  shows "\<exists>st. write_drafts order x = Some (x\<lparr>pd_storage := st\<rparr>) \<and> kept (x\<lparr>pd_storage := st\<rparr>) \<and>
    st_room (pd_storage x) \<le> st_room st + file_size (all_entries x)"
proof -
  define es where "es = pd_prev x @ map prod.swap (order (pd_current x))"
  have m: "mset es = mset (all_entries x)" using assms(4) by (simp add: all_entries_def es_def)
  then have g: "list_all good_entry es" using assms(2) mset_eq_setD [OF m] unfolding list_all_iff by simp
  obtain st1 where o: "storage_open (rewrite_mode (pd_storage x)) (pd_storage x) = (True, st1)" "appending st1" "contents st1 = []"
    "st_room st1 = st_room (pd_storage x)" "can_use_file (storage_close st1)"
    using assms(1) by (auto simp: rewrite_mode_def storage_open_def can_use_file_def mode_zero_def fstream_open_def filebuf_mode_def
        Let_def appending_def contents_def storage_close_def)
  have "length (file_of (map entry_bytes es)) \<le> st_room st1"
    using assms(3) o(4) file_size_mset [OF m] by (simp add: file_size_def)
  from write_all_blocks_works [where ser = serialize_entry and d = empty_stream, OF entry_written o(2) good_entries [OF g] this] obtain st2 where
    w: "write_all_blocks serialize_entry es empty_stream st1 = Some st2"
    "contents st2 = file_of (map entry_bytes es)" "st_room st2 = st_room st1 - length (file_of (map entry_bytes es))"
    "can_use_file (storage_close st2)" using o(3,5) by auto
  let ?x = "x\<lparr>pd_storage := storage_close st2\<rparr>"
  have "all_entries ?x = all_entries x" by (simp add: all_entries_def)
  moreover have "contents (storage_close st2) = contents st2" "st_room (storage_close st2) = st_room st2"
    by (simp_all add: storage_close_def contents_def)
  ultimately have "contents (pd_storage ?x) = file_of (map entry_bytes es)" "mset es = mset (all_entries ?x)"
    "can_use_file (pd_storage ?x)" "list_all good_entry (all_entries ?x)" using w(2,4) m assms(2) by simp_all
  then have "kept ?x" unfolding kept_def by blast
  moreover have "st_room (pd_storage x) \<le> st_room (storage_close st2) + file_size (all_entries x)"
    using w(3) o(4) file_size_mset [OF m] by (simp add: file_size_def storage_close_def)
  moreover have "write_drafts order x = Some ?x" using o(1) w(1) by (simp add: write_drafts_def es_def)
  ultimately show ?thesis by blast
qed

text \<open>The two operations on the list and the map.\<close>

datatype draft_call = Draft_Added cstring int | Draft_Sent cstring int

fun run_draft_call ::
  "((cstring \<times> int) list \<Rightarrow> (cstring \<times> int) list) \<Rightarrow> draft_call \<Rightarrow> pending_drafts \<Rightarrow> pending_drafts option" where
  "run_draft_call order (Draft_Added c t) x = add_pending_draft_contact order c t x"
| "run_draft_call order (Draft_Sent c t) x = remove_pending_draft_contact order c t x"

type_synonym draft_marks = "draft_entry list \<times> (cstring \<Rightarrow> int option)"

definition marks_of :: "pending_drafts \<Rightarrow> draft_marks" where
  "marks_of x = (pd_prev x, map_of (pd_current x))"

fun mark_call :: "draft_call \<Rightarrow> draft_marks \<Rightarrow> draft_marks" where
  "mark_call (Draft_Added c t) (p, m) = (p, m(c \<mapsto> case m c of None \<Rightarrow> t | Some t' \<Rightarrow> max t' t))"
| "mark_call (Draft_Sent c t) (p, m) =
     (if served c t p then butlast p else p, case m c of Some t' \<Rightarrow> if t' \<le> t then m(c := None) else m | None \<Rightarrow> m)"

fun added_size :: "draft_call \<Rightarrow> nat" where
  "added_size (Draft_Added c t) = 40 + length c"
| "added_size (Draft_Sent c t) = 0"

fun good_call :: "draft_call \<Rightarrow> bool" where
  "good_call (Draft_Added c t) = good_entry (t, c)"
| "good_call (Draft_Sent c t) = True"

lemma update_entries:
  "map_of xs c \<noteq> None \<Longrightarrow> file_size (map prod.swap (AList.update c t xs)) = file_size (map prod.swap xs)"
  "list_all P (map prod.swap xs) \<Longrightarrow> P (t, c) \<Longrightarrow> list_all P (map prod.swap (AList.update c t xs))"
  by (induction xs) auto

lemma delete_entries:
  "file_size (map prod.swap (AList.delete c xs)) \<le> file_size (map prod.swap xs)"
  "list_all P (map prod.swap xs) \<Longrightarrow> list_all P (map prod.swap (AList.delete c xs))"
  by (induction xs) auto

lemma butlast_size: "file_size (butlast es) \<le> file_size es"
  by (induction es) auto

lemma call_works:
  assumes "kept x" and "good_call k" and "file_size (all_entries x) + added_size k \<le> st_room (pd_storage x)"
    and "\<And>xs. mset (order xs) = mset xs"
  shows "\<exists>x'. run_draft_call order k x = Some x' \<and> kept x' \<and> marks_of x' = mark_call k (marks_of x) \<and>
    file_size (all_entries x') \<le> file_size (all_entries x) + added_size k \<and>
    st_room (pd_storage x) \<le> st_room (pd_storage x') + (file_size (all_entries x) + added_size k)"
proof -
  have x: "can_use_file (pd_storage x)" "list_all good_entry (all_entries x)" using assms(1) by (simp_all add: kept_def)
  have written: "\<exists>x'. write_drafts order y = Some x' \<and> kept x' \<and> marks_of x' = marks_of y \<and>
      file_size (all_entries x') \<le> file_size (all_entries x) + added_size k \<and>
      st_room (pd_storage x) \<le> st_room (pd_storage x') + (file_size (all_entries x) + added_size k)"
    if y: "pd_storage y = pd_storage x" "list_all good_entry (all_entries y)"
      "file_size (all_entries y) \<le> file_size (all_entries x) + added_size k" for y
  proof -
    have "file_size (all_entries y) \<le> st_room (pd_storage y)" using y(1,3) assms(3) by simp
    with write_drafts_keeps [of y order] x(1) y assms(4) obtain st where
      "write_drafts order y = Some (y\<lparr>pd_storage := st\<rparr>)" "kept (y\<lparr>pd_storage := st\<rparr>)"
      "st_room (pd_storage y) \<le> st_room st + file_size (all_entries y)" by auto
    then show ?thesis using y(1,3) by (intro exI [of _ "y\<lparr>pd_storage := st\<rparr>"]) (simp add: marks_of_def all_entries_def)
  qed
  show ?thesis
  proof (cases k)
    case (Draft_Added c t)
    let ?y = "case map_of (pd_current x) c of None \<Rightarrow> x\<lparr>pd_current := (c, t) # pd_current x\<rparr>
        | Some t' \<Rightarrow> if t' < t then x\<lparr>pd_current := AList.update c t (pd_current x)\<rparr> else x"
    have "list_all good_entry (all_entries ?y)"
      using x(2) assms(2) Draft_Added update_entries(2) [of good_entry "pd_current x" t c]
      by (auto simp: all_entries_def split: option.split)
    moreover have "file_size (all_entries ?y) \<le> file_size (all_entries x) + added_size k"
      using Draft_Added update_entries(1) [of "pd_current x" c t] by (simp add: all_entries_def split: option.split)
    moreover have "pd_storage ?y = pd_storage x" by (simp split: option.split)
    ultimately obtain x' where "write_drafts order ?y = Some x'" "kept x'" "marks_of x' = marks_of ?y"
      "file_size (all_entries x') \<le> file_size (all_entries x) + added_size k"
      "st_room (pd_storage x) \<le> st_room (pd_storage x') + (file_size (all_entries x) + added_size k)"
      using written [of ?y] by blast
    moreover have "marks_of ?y = mark_call k (marks_of x)"
      by (auto simp: Draft_Added marks_of_def update_conv' fun_eq_iff max_def split: option.split)
    ultimately show ?thesis by (auto simp: Draft_Added add_pending_draft_contact_def)
  next
    case (Draft_Sent c t)
    let ?pop = "served c t (pd_prev x)" and ?erase = "case map_of (pd_current x) c of None \<Rightarrow> False | Some t' \<Rightarrow> t' \<le> t"
    let ?y = "x\<lparr>pd_prev := (if ?pop then butlast (pd_prev x) else pd_prev x),
        pd_current := (if ?erase then AList.delete c (pd_current x) else pd_current x)\<rparr>"
    have "list_all good_entry (all_entries ?y)"
      using x(2) delete_entries(2) [of good_entry "pd_current x" c]
      by (auto simp: all_entries_def list_all_iff dest: in_set_butlastD)
    moreover have "file_size (all_entries ?y) \<le> file_size (all_entries x) + added_size k"
      using delete_entries(1) [of c "pd_current x"] butlast_size [of "pd_prev x"] by (auto simp: all_entries_def)
    ultimately obtain x' where w: "write_drafts order ?y = Some x'" "kept x'" "marks_of x' = marks_of ?y"
      "file_size (all_entries x') \<le> file_size (all_entries x) + added_size k"
      "st_room (pd_storage x) \<le> st_room (pd_storage x') + (file_size (all_entries x) + added_size k)"
      using written [of ?y] by auto
    have m: "marks_of ?y = mark_call k (marks_of x)"
      by (auto simp: Draft_Sent marks_of_def delete_conv' fun_eq_iff split: option.split)
    show ?thesis
    proof (cases "?pop \<or> ?erase")
      case True
      then have "remove_pending_draft_contact order c t x = write_drafts order ?y"
        by (auto simp: remove_pending_draft_contact_def Let_def)
      with w m Draft_Sent show ?thesis by auto
    next
      case False
      then have "?y = x" "remove_pending_draft_contact order c t x = Some x"
        by (auto simp: remove_pending_draft_contact_def Let_def)
      with m assms(1) Draft_Sent show ?thesis by auto
    qed
  qed
qed

interpretation drafts: kept_on_disk "run_draft_call order" kept "\<lambda>k. good_call k \<and> (\<forall>xs. mset (order xs) = mset xs)"
  marks_of mark_call "\<lambda>x. file_size (all_entries x)" added_size "\<lambda>x. st_room (pd_storage x)" for order
  by unfold_locales (rule call_works; simp)

text \<open>C26: Marks survive a restart. After any calls, with enough room for the file each of them writes, the object is the
  list and the map that the calls make of what there was before, and a new object made from the file has all of
  them in its list, the newest first, whatever order the hash map had.\<close>

theorem draft_marks_survive_restart:
  assumes "kept x" and "list_all good_call ks" and "\<And>xs. mset (order xs) = mset xs"
    and "length ks * (file_size (all_entries x) + sum_list (map added_size ks)) \<le> st_room (pd_storage x)"
  shows "\<exists>x' y. run_all (run_draft_call order) ks x = Some x' \<and> marks_of x' = fold mark_call ks (marks_of x) \<and>
    mk_pending_drafts (pd_storage x') = Some y \<and> pd_prev y = rev (sort (all_entries x')) \<and> pd_current y = [] \<and> kept y"
proof -
  have "list_all (\<lambda>k. good_call k \<and> (\<forall>xs. mset (order xs) = mset xs)) ks" using assms(2,3) by (simp add: list_all_iff)
  from drafts.calls [OF assms(1) this assms(4)] obtain x' where x': "run_all (run_draft_call order) ks x = Some x'" "kept x'"
    "marks_of x' = fold mark_call ks (marks_of x)" by blast
  then obtain es where es: "contents (pd_storage x') = file_of (map entry_bytes es)" "mset es = mset (all_entries x')"
    "list_all good_entry (all_entries x')" "can_use_file (pd_storage x')" by (auto simp: kept_def)
  then have g: "list_all good_entry es" using mset_eq_setD [OF es(2)] by (simp add: list_all_iff)
  have s: "sort es = sort (all_entries x')" using es(2) by (metis mset_sort properties_for_sort sorted_sort)
  obtain st' where l: "mk_pending_drafts (pd_storage x') = Some \<lparr>pd_prev = rev (sort es), pd_current = [], pd_storage = st'\<rparr>"
    "can_use_file st'" "contents st' = contents (pd_storage x')" using load_all_entries [OF es(4,1) g] by blast
  have "kept \<lparr>pd_prev = rev (sort es), pd_current = [], pd_storage = st'\<rparr>"
    using l(2,3) es(1) g by (auto simp: kept_def all_entries_def list_all_iff intro!: exI [of _ es])
  with x' l(1) s show ?thesis by auto
qed

subsection \<open>Examples\<close>

definition no_drafts :: pending_drafts where
  "no_drafts = \<lparr>pd_prev = [], pd_current = [], pd_storage = mk_storage None\<rparr>"

theorem draft_marks_survive_restart_witness:
  "\<exists>x' y. run_all (run_draft_call rev) [Draft_Added [97] 5, Draft_Added [98] 3, Draft_Sent [97] 4] no_drafts = Some x' \<and>
    mk_pending_drafts (pd_storage x') = Some y \<and> (5, [97]) \<in> set (pd_prev y) \<and> (3, [98]) \<in> set (pd_prev y)"
proof -
  let ?ks = "[Draft_Added [97] 5, Draft_Added [98] 3, Draft_Sent [97] 4]"
  have "kept no_drafts"
    by (auto simp: kept_def no_drafts_def all_entries_def can_use_file_def mk_storage_def contents_def intro!: exI [of _ "[]"])
  moreover have "list_all good_call ?ks" by (simp add: good_entry_def i64_range_def)
  moreover have "length ?ks * (file_size (all_entries no_drafts) + sum_list (map added_size ?ks)) \<le> st_room (pd_storage no_drafts)"
    by (simp add: no_drafts_def all_entries_def mk_storage_def)
  ultimately obtain x' y where w: "run_all (run_draft_call rev) ?ks no_drafts = Some x'" "marks_of x' = fold mark_call ?ks (marks_of no_drafts)"
    "mk_pending_drafts (pd_storage x') = Some y" "pd_prev y = rev (sort (all_entries x'))"
    using draft_marks_survive_restart [of no_drafts ?ks rev] by (metis mset_rev)
  then have "map_of (pd_current x') = [[97] \<mapsto> 5, [98] \<mapsto> 3]" by (simp add: marks_of_def no_drafts_def served_def)
  then have "map_of (pd_current x') [97] = Some 5" "map_of (pd_current x') [98] = Some 3" by simp_all
  then have "([97], 5) \<in> set (pd_current x')" "([98], 3) \<in> set (pd_current x')" by (blast dest: map_of_SomeD)+
  then have "(5, [97]) \<in> set (pd_prev y)" "(3, [98]) \<in> set (pd_prev y)" using w(4) by (force simp: all_entries_def)+
  with w show ?thesis by blast
qed

end
