(* ===== verification/Draft_Sync.thy ===== *)
theory Draft_Sync
  imports Draft_Contacts Drafts
begin

text \<open>
  Telling the marked drafts to the server (\<^verbatim>\<open>im::post_pending_drafts\<close>, \<^verbatim>\<open>im::sync_draft\<close> and
  \<^verbatim>\<open>im::send_sync_draft\<close> in \<^verbatim>\<open>core/connections/wim/wim_im.cpp\<close>). The archive answers in the order it is asked,
  so a round is one step here, from the question for the next contact to the answer of the server. The two
  readings of the clock at its start are one. What the interface is told, with the list of active dialogs, is left out.

  Whether drafts are enabled and what error the packet with a draft ends with are parameters (\<open>sync_env\<close>), as is the order of
  the hash map. The state is the marks, the drafts of the contacts, and the fields of \<open>im\<close> with the
  number of timers that run.
\<close>

subsection \<open>The rounds\<close>

record sync_env =
  de_junk :: junk
  de_order :: "(cstring \<times> int) list \<Rightarrow> (cstring \<times> int) list"
  de_enabled :: bool
  de_send :: "cstring \<Rightarrow> draft \<Rightarrow> int"

record draft_world =
  dw_marks :: pending_drafts
  dw_drafts :: "cstring \<Rightarrow> draft_storage"
  dw_last_sync :: int
  dw_scheduled :: bool
  dw_timers :: nat

text \<open>In nanoseconds.\<close>

definition pending_drafts_interval :: int where
  "pending_drafts_interval = 1000000000"

definition wpie_network_error :: int where "wpie_network_error = 2"
definition wpie_couldnt_resolve_host :: int where "wpie_couldnt_resolve_host = 44"
definition wpie_generic_client_error :: int where "wpie_generic_client_error = 50"

lemmas wpie_defs = wpie_network_error_def wpie_couldnt_resolve_host_def wpie_generic_client_error_def

definition is_network_error :: "int \<Rightarrow> bool" where
  "is_network_error e \<longleftrightarrow> wpie_network_error = e \<or> wpie_couldnt_resolve_host = e"

definition store_draft :: "sync_env \<Rightarrow> cstring \<Rightarrow> draft \<Rightarrow> draft_world \<Rightarrow> draft_world option" where
  "store_draft env c d x = map_option (\<lambda>s. x\<lparr>dw_drafts := (dw_drafts x)(c := s)\<rparr>) (set_draft (de_junk env) d (dw_drafts x c))"

definition remove_mark :: "sync_env \<Rightarrow> cstring \<Rightarrow> draft \<Rightarrow> draft_world \<Rightarrow> draft_world option" where
  "remove_mark env c d x =
     map_option (\<lambda>m. x\<lparr>dw_marks := m\<rparr>) (remove_pending_draft_contact (de_order env) c (dr_local_timestamp d) (dw_marks x))"

text \<open>The result has the error that the handler is called with; it is not called when all went well.\<close>

definition send_sync_draft :: "sync_env \<Rightarrow> cstring \<Rightarrow> draft \<Rightarrow> draft_world \<Rightarrow> (int option \<times> draft_world) option" where
  "send_sync_draft env c d x =
     (let e = de_send env c d
      in if e = 0
         then do {
           x \<leftarrow> store_draft env c (d\<lparr>dr_state := draft_synced\<rparr>) x;
           x \<leftarrow> remove_mark env c d x;
           Some (None, x)
         }
         else Some (Some e, x))"

definition sync_draft :: "sync_env \<Rightarrow> cstring \<Rightarrow> draft \<Rightarrow> draft_world \<Rightarrow> (int option \<times> draft_world) option" where
  "sync_draft env c d x =
     (if \<not> de_enabled env then Some (None, x)
      else do {
        let d = d\<lparr>dr_state := draft_syncing\<rparr>;
        x \<leftarrow> store_draft env c d x;
        send_sync_draft env c d x
      })"

definition post_after_interval :: "draft_world \<Rightarrow> draft_world" where
  "post_after_interval x = x\<lparr>dw_scheduled := True, dw_timers := Suc (dw_timers x)\<rparr>"

text \<open>A round at the time \<open>now\<close>, with the contact it was about.\<close>

definition post_pending_drafts :: "sync_env \<Rightarrow> int \<Rightarrow> draft_world \<Rightarrow> (cstring list \<times> draft_world) option" where
  "post_pending_drafts env now x =
     (if now - dw_last_sync x < pending_drafts_interval
      then Some ([], if dw_scheduled x then x else post_after_interval x)
      else
        let x = x\<lparr>dw_last_sync := now\<rparr>;
            c = get_next_pending_draft_contact (dw_marks x)
        in if c = [] then Some ([], x)
           else
             let d = sto_draft (dw_drafts x c)
             in if dr_state d \<noteq> draft_synced
                then do {
                  (err, x) \<leftarrow> sync_draft env c d x;
                  (case err of
                     None \<Rightarrow> Some ([c], x)
                   | Some e \<Rightarrow> do {
                       x \<leftarrow> (if e = wpie_generic_client_error then remove_mark env c d x else Some x);
                       Some ([c], if \<not> is_network_error e then post_after_interval x else x)
                     })
                }
                else do {
                  x \<leftarrow> remove_mark env c d x;
                  Some ([c], post_after_interval x)
                })"

definition timer_fired :: "draft_world \<Rightarrow> draft_world" where
  "timer_fired x = x\<lparr>dw_scheduled := False, dw_timers := dw_timers x - 1\<rparr>"

text \<open>
  A start (\<^verbatim>\<open>im::resume_failed_network_requests\<close>) and the rounds its timers bring, at the times of the list, and one
  start after the other.
\<close>

fun serve :: "sync_env \<Rightarrow> int list \<Rightarrow> draft_world \<Rightarrow> (cstring list \<times> draft_world) option" where
  "serve env [] x = Some ([], x)"
| "serve env (now # ticks) x = do {
     (c, x) \<leftarrow> post_pending_drafts env now x;
     if dw_timers x = 0 then Some (c, x)
     else do {
       (cs, x) \<leftarrow> serve env ticks (timer_fired x);
       Some (c @ cs, x)
     }
   }"

fun serve_starts :: "sync_env \<Rightarrow> int list list \<Rightarrow> draft_world \<Rightarrow> (cstring list \<times> draft_world) option" where
  "serve_starts env [] x = Some ([], x)"
| "serve_starts env (ticks # starts) x = do {
     (cs, x) \<leftarrow> serve env ticks x;
     (ds, x) \<leftarrow> serve_starts env starts x;
     Some (cs @ ds, x)
   }"

subsection \<open>One round\<close>

lemma draft_file_returns: "\<exists>dk. write_file junk x = Some (x\<lparr>sto_disk := dk\<rparr>)"
proof -
  let ?s = "draft_serialize junk (sto_draft x) empty_stream"
  have "wf_stream ?s" by (simp add: draft_serialize_def wf_pack_serialize)
  then have "\<exists>ok s dk. save_stream ?s (sto_disk x) = Some (ok, s, dk)"
    by (cases "pending ?s = []")
      (auto simp: save_stream_def available_pending read_pending split: prod.splits)
  then show ?thesis by (auto simp: write_file_def)
qed

text \<open>A draft with the times of the stored one takes its place.\<close>

lemma store_same_times:
  assumes "dr_timestamp d = dr_timestamp (sto_draft (dw_drafts x c))"
    and "dr_local_timestamp d = dr_local_timestamp (sto_draft (dw_drafts x c))"
  shows "\<exists>s. store_draft env c d x = Some (x\<lparr>dw_drafts := (dw_drafts x)(c := s)\<rparr>) \<and> sto_draft s = d"
proof -
  have "is_first_same_or_newer d (sto_draft (dw_drafts x c))" using assms by (simp add: is_first_same_or_newer_def)
  moreover obtain dk where "write_file (de_junk env) ((dw_drafts x c)\<lparr>sto_draft := d\<rparr>) =
      Some ((dw_drafts x c)\<lparr>sto_draft := d, sto_disk := dk\<rparr>)" using draft_file_returns by blast
  ultimately show ?thesis
    by (intro exI [of _ "(dw_drafts x c)\<lparr>sto_draft := d, sto_disk := dk\<rparr>"]) (simp add: store_draft_def set_draft_def)
qed

lemma remove_served_mark:
  assumes "pd_prev (dw_marks x) = rev ((t, c) # ms)" and "t \<le> dr_local_timestamp d"
  shows "\<exists>m. remove_mark env c d x = Some (x\<lparr>dw_marks := m\<rparr>) \<and> pd_prev m = rev ms"
proof -
  have s: "served c (dr_local_timestamp d) (pd_prev (dw_marks x))" using assms by (simp add: served_def)
  let ?y = "\<lambda>cur. (dw_marks x)\<lparr>pd_prev := rev ms, pd_current := cur\<rparr>"
  have "\<exists>cur. remove_pending_draft_contact (de_order env) c (dr_local_timestamp d) (dw_marks x) = write_drafts (de_order env) (?y cur)"
    using s assms(1)
    by (intro exI [of _ "if case map_of (pd_current (dw_marks x)) c of None \<Rightarrow> False | Some t' \<Rightarrow> t' \<le> dr_local_timestamp d
          then AList.delete c (pd_current (dw_marks x)) else pd_current (dw_marks x)"])
      (simp add: remove_pending_draft_contact_def Let_def)
  then obtain cur st where "remove_pending_draft_contact (de_order env) c (dr_local_timestamp d) (dw_marks x) =
      Some ((?y cur)\<lparr>pd_storage := st\<rparr>)" using write_drafts_returns by metis
  then show ?thesis by (intro exI [of _ "(?y cur)\<lparr>pd_storage := st\<rparr>"]) (simp add: remove_mark_def)
qed

text \<open>The server answers: the draft is in sync already, is taken, or is refused for good. And it is sent now.\<close>

definition answered :: "sync_env \<Rightarrow> cstring \<Rightarrow> draft \<Rightarrow> bool" where
  "answered env c d \<longleftrightarrow> dr_state d = draft_synced \<or> de_send env c (d\<lparr>dr_state := draft_syncing\<rparr>) \<in> {0, wpie_generic_client_error}"

definition sent_now :: "sync_env \<Rightarrow> cstring \<Rightarrow> draft \<Rightarrow> bool" where
  "sent_now env c d \<longleftrightarrow> dr_state d \<noteq> draft_synced \<and> de_send env c (d\<lparr>dr_state := draft_syncing\<rparr>) = 0"

abbreviation draft_of :: "draft_world \<Rightarrow> cstring \<Rightarrow> draft" where
  "draft_of x c \<equiv> sto_draft (dw_drafts x c)"

text \<open>The marks are ready: their drafts are as new as they are, and the server answers.\<close>

definition ready :: "sync_env \<Rightarrow> draft_world \<Rightarrow> draft_entry list \<Rightarrow> bool" where
  "ready env x ms \<longleftrightarrow> (\<forall>(t, c)\<in>set ms. c \<noteq> [] \<and> t \<le> dr_local_timestamp (draft_of x c) \<and> answered env c (draft_of x c))"

lemma one_round:
  assumes "de_enabled env" and "pd_prev (dw_marks x) = rev ((t, c) # ms)" and "ready env x ((t, c) # ms)"
    and "dw_last_sync x + pending_drafts_interval \<le> now"
  shows "\<exists>z. post_pending_drafts env now x = Some ([c], z) \<and> pd_prev (dw_marks z) = rev ms \<and> dw_last_sync z = now \<and>
    dw_timers z = (if sent_now env c (draft_of x c) then dw_timers x else Suc (dw_timers x)) \<and> ready env z ms \<and>
    (\<forall>a. sent_now env a (draft_of z a) \<longleftrightarrow> sent_now env a (draft_of x a) \<and> a \<noteq> c)"
proof -
  let ?d = "draft_of x c" and ?x = "x\<lparr>dw_last_sync := now\<rparr>"
  let ?s = "?d\<lparr>dr_state := draft_syncing\<rparr>"
  have c: "c \<noteq> []" "t \<le> dr_local_timestamp ?d" "answered env c ?d" and ms: "ready env x ms"
    using assms(3) by (auto simp: ready_def)
  have next_c: "get_next_pending_draft_contact (dw_marks x) = c" using assms(2) by (simp add: get_next_pending_draft_contact_def)
  note round = post_pending_drafts_def Let_def next_c c(1)
  have gate: "\<not> now - dw_last_sync x < pending_drafts_interval" using assms(4) by simp
  show ?thesis
  proof (cases "dr_state ?d = draft_synced")
    case True
    obtain m where m: "remove_mark env c ?d ?x = Some (?x\<lparr>dw_marks := m\<rparr>)" "pd_prev m = rev ms"
      using remove_served_mark [of ?x t c ms ?d env] assms(2) c(2) by auto
    with True gate ms show ?thesis by (auto simp: round post_after_interval_def sent_now_def ready_def)
  next
    case False
    obtain s1 where s1: "store_draft env c ?s ?x = Some (?x\<lparr>dw_drafts := (dw_drafts x)(c := s1)\<rparr>)" "sto_draft s1 = ?s"
      using store_same_times [of ?s ?x c env] by auto
    let ?y = "?x\<lparr>dw_drafts := (dw_drafts x)(c := s1)\<rparr>"
    have ready: "ready env z ms" if "dw_drafts z = (dw_drafts x)(c := s)" "dr_local_timestamp (sto_draft s) = dr_local_timestamp ?d"
        "answered env c (sto_draft s)" for z s
      using ms that by (auto simp: ready_def)
    show ?thesis
    proof (cases "de_send env c ?s = 0")
      case sent: True
      let ?e = "?s\<lparr>dr_state := draft_synced\<rparr>"
      obtain s2 where s2: "store_draft env c ?e ?y = Some (?y\<lparr>dw_drafts := (dw_drafts ?y)(c := s2)\<rparr>)" "sto_draft s2 = ?e"
        using store_same_times [of ?e ?y c env] s1(2) by auto
      let ?z = "?y\<lparr>dw_drafts := (dw_drafts ?y)(c := s2)\<rparr>"
      obtain m where m: "remove_mark env c ?s ?z = Some (?z\<lparr>dw_marks := m\<rparr>)" "pd_prev m = rev ms"
        using remove_served_mark [of ?z t c ms ?s env] assms(2) c(2) by auto
      have "post_pending_drafts env now x = Some ([c], ?z\<lparr>dw_marks := m\<rparr>)"
        using False gate assms(1) s1(1) sent s2(1) m(1) by (simp add: round sync_draft_def send_sync_draft_def)
      moreover have "ready env (?z\<lparr>dw_marks := m\<rparr>) ms" by (rule ready [of _ s2]) (simp_all add: s2(2) answered_def)
      ultimately show ?thesis using m(2) False sent s2(2) by (auto simp: sent_now_def)
    next
      case refused: False
      with c(3) False have e: "de_send env c ?s = wpie_generic_client_error" by (simp add: answered_def)
      obtain m where m: "remove_mark env c ?d ?y = Some (?y\<lparr>dw_marks := m\<rparr>)" "pd_prev m = rev ms"
        using remove_served_mark [of ?y t c ms ?d env] assms(2) c(2) by auto
      let ?z = "post_after_interval (?y\<lparr>dw_marks := m\<rparr>)"
      have "post_pending_drafts env now x = Some ([c], ?z)"
        using False gate assms(1) s1(1) e m(1)
        by (simp add: round sync_draft_def send_sync_draft_def is_network_error_def wpie_defs)
      moreover have "ready env ?z ms"
        by (rule ready [of _ s1]) (use s1(2) e in \<open>simp_all add: answered_def post_after_interval_def\<close>)
      moreover have "\<not> sent_now env c (draft_of ?z c)" "\<not> sent_now env c ?d"
        using s1(2) e refused by (simp_all add: sent_now_def post_after_interval_def)
      ultimately show ?thesis using m(2) by (intro exI [of _ ?z]) (auto simp: post_after_interval_def)
    qed
  qed
qed

subsection \<open>A start and the next ones\<close>

text \<open>The elements up to the first one that has the property, and what is behind it.\<close>

fun up_to_first :: "('a \<Rightarrow> bool) \<Rightarrow> 'a list \<Rightarrow> 'a list" where
  "up_to_first P [] = []"
| "up_to_first P (x # xs) = (if P x then [x] else x # up_to_first P xs)"

fun after_first :: "('a \<Rightarrow> bool) \<Rightarrow> 'a list \<Rightarrow> 'a list" where
  "after_first P [] = []"
| "after_first P (x # xs) = (if P x then xs else after_first P xs)"

lemma up_to_after [simp]: "up_to_first P xs @ after_first P xs = xs"
  by (induction xs) auto

lemma after_first_shorter: "length (after_first P xs) \<le> length xs - 1"
  by (induction xs) auto

text \<open>The rounds are at least an interval apart.\<close>

fun spaced :: "int \<Rightarrow> int list \<Rightarrow> bool" where
  "spaced before [] = True"
| "spaced before (t # ts) \<longleftrightarrow> before + pending_drafts_interval \<le> t \<and> spaced t ts"

lemma spaced_earlier: "spaced t ts \<Longrightarrow> s \<le> t \<Longrightarrow> spaced s ts"
  by (cases ts) auto

lemma spaced_later: "spaced before (ts @ us) \<Longrightarrow> spaced before us"
proof (induction ts arbitrary: before)
  case (Cons t ts)
  then have "spaced t us" "before \<le> t" by (auto simp: pending_drafts_interval_def)
  then show ?case by (rule spaced_earlier)
qed simp

definition first_sent :: "sync_env \<Rightarrow> draft_world \<Rightarrow> draft_entry \<Rightarrow> bool" where
  "first_sent env x e \<longleftrightarrow> sent_now env (snd e) (draft_of x (snd e))"

lemma one_start:
  assumes "de_enabled env" and "pd_prev (dw_marks x) = rev ms" and "ready env x ms" and "dw_timers x = 0"
    and "spaced (dw_last_sync x) (ts @ us)" and "length ms < length ts"
  shows "\<exists>z. serve env ts x = Some (map snd (up_to_first (first_sent env x) ms), z) \<and>
    pd_prev (dw_marks z) = rev (after_first (first_sent env x) ms) \<and> dw_timers z = 0 \<and>
    ready env z (after_first (first_sent env x) ms) \<and> spaced (dw_last_sync z) us"
  using assms(2-)
proof (induction ms arbitrary: x ts)
  case Nil
  then obtain now ts' where ts: "ts = now # ts'" by (cases ts) auto
  then have "post_pending_drafts env now x = Some ([], x\<lparr>dw_last_sync := now\<rparr>)"
    using Nil.prems(1,4) by (simp add: post_pending_drafts_def get_next_pending_draft_contact_def)
  then show ?case using Nil.prems spaced_later [of now ts' us] by (simp add: ts ready_def)
next
  case (Cons m ms)
  obtain t c where m: "m = (t, c)" by (cases m)
  obtain now ts' where ts: "ts = now # ts'" using Cons.prems(5) by (cases ts) auto
  have gate: "dw_last_sync x + pending_drafts_interval \<le> now" and sp: "spaced now (ts' @ us)" using Cons.prems(4) ts by auto
  obtain y where y: "post_pending_drafts env now x = Some ([c], y)" "pd_prev (dw_marks y) = rev ms" "dw_last_sync y = now"
    "dw_timers y = (if sent_now env c (draft_of x c) then dw_timers x else Suc (dw_timers x))" "ready env y ms"
    "\<forall>a. sent_now env a (draft_of y a) \<longleftrightarrow> sent_now env a (draft_of x a) \<and> a \<noteq> c"
    using one_round [OF assms(1) Cons.prems(1,2) [unfolded m] gate] by blast
  show ?case
  proof (cases "sent_now env c (draft_of x c)")
    case True
    then have "first_sent env x m" "dw_timers y = 0" using y(4) Cons.prems(3) by (simp_all add: first_sent_def m)
    then show ?thesis using y spaced_later [OF sp] by (simp add: ts m)
  next
    case False
    let ?y = "timer_fired y"
    have "first_sent env ?y = first_sent env x"
      using y(6) False by (auto simp: first_sent_def timer_fired_def fun_eq_iff)
    moreover have "pd_prev (dw_marks ?y) = rev ms" "ready env ?y ms" "dw_timers ?y = 0" "spaced (dw_last_sync ?y) (ts' @ us)" "length ms < length ts'"
      using y False Cons.prems(3,5) sp ts by (simp_all add: timer_fired_def ready_def)
    ultimately show ?thesis using Cons.IH [of ?y ts'] y(1,4) False by (auto simp: ts m first_sent_def)
  qed
qed

lemma all_starts:
  assumes "de_enabled env" and "pd_prev (dw_marks x) = rev ms" and "ready env x ms" and "dw_timers x = 0"
    and "spaced (dw_last_sync x) (concat tss)" and "\<forall>ts\<in>set tss. length ms < length ts" and "length ms \<le> length tss"
  shows "\<exists>z. serve_starts env tss x = Some (map snd ms, z) \<and> pd_prev (dw_marks z) = []"
  using assms(2-)
proof (induction tss arbitrary: x ms)
  case (Cons ts tss)
  let ?left = "after_first (first_sent env x) ms"
  obtain y where y: "serve env ts x = Some (map snd (up_to_first (first_sent env x) ms), y)"
    "pd_prev (dw_marks y) = rev ?left" "dw_timers y = 0" "ready env y ?left" "spaced (dw_last_sync y) (concat tss)"
    using one_start [OF assms(1) Cons.prems(1-3), of ts "concat tss"] Cons.prems(4,5) by auto
  have "length ?left \<le> length ms \<and> length ?left \<le> length tss"
    using after_first_shorter [of "first_sent env x" ms] Cons.prems(6) by auto
  then obtain z where "serve_starts env tss y = Some (map snd ?left, z)" "pd_prev (dw_marks z) = []"
    using Cons.IH [OF y(2,4,3,5)] Cons.prems(5) by fastforce
  moreover have "map snd (up_to_first (first_sent env x) ms) @ map snd ?left = map snd ms"
    by (simp flip: map_append)
  ultimately show ?case using y(1) by simp
qed simp

text \<open>C28: The marks that a new session finds in the file are served the oldest first. A start asks for the oldest
  marks up to the first one whose draft is sent, which ends it, because the handler that sets the timer for the next round is
  only called on errors; marks whose drafts are in sync already or are refused are passed on the way, and all of
  these marks are taken away. As many starts as there are marks serve all of them, in the order of their ages, each once. (Every
  draft is at least as new as its mark, and the server answers.)\<close>

theorem drafts_are_served_oldest_first:
  assumes "can_use_file st" and "contents st = file_of (map entry_bytes es)" and "list_all good_entry es"
    and "de_enabled env" and "dw_timers x = 0" and "ready env x es" and "mk_pending_drafts st = Some (dw_marks x)"
    and "spaced (dw_last_sync x) (concat (ts # tss))" and "\<forall>ts\<in>set (ts # tss). length es < length ts"
    and "length es \<le> length (ts # tss)"
  shows "\<exists>y z. serve env ts x = Some (map snd (up_to_first (first_sent env x) (sort es)), y) \<and>
    pd_prev (dw_marks y) = rev (after_first (first_sent env x) (sort es)) \<and>
    serve_starts env (ts # tss) x = Some (map snd (sort es), z) \<and> get_next_pending_draft_contact (dw_marks z) = []"
proof -
  have prev: "pd_prev (dw_marks x) = rev (sort es)" using load_all_entries [OF assms(1-3)] assms(7) by auto
  have r: "ready env x (sort es)" using assms(6) by (simp add: ready_def)
  have len: "length (sort es) < length ts" "\<forall>ts\<in>set (ts # tss). length (sort es) < length ts" "length (sort es) \<le> length (ts # tss)"
    using assms(9,10) by simp_all
  have sp: "spaced (dw_last_sync x) (ts @ concat tss)" using assms(8) by simp
  from one_start [OF assms(4) prev r assms(5) sp len(1)] all_starts [OF assms(4) prev r assms(5,8) len(2,3)]
  show ?thesis by (auto simp: get_next_pending_draft_contact_def)
qed

text \<open>C38: A mark whose draft is in sync and has an older local time (a draft of another device has none, it counts as 0) is never taken
  away: round after round asks for the same contact, and what waits behind it is not served.\<close>

theorem older_draft_blocks_the_queue:
  assumes "pd_prev (dw_marks x) = es @ [(t, c)]" and "c \<noteq> []" and "map_of (pd_current (dw_marks x)) c = None"
    and "dr_state (draft_of x c) = draft_synced" and "dr_local_timestamp (draft_of x c) < t" and "spaced (dw_last_sync x) ts"
  shows "\<exists>z. serve env ts x = Some (replicate (length ts) c, z) \<and> dw_marks z = dw_marks x \<and> dw_drafts z = dw_drafts x"
  using assms
proof (induction ts arbitrary: x)
  case (Cons now ts)
  let ?y = "post_after_interval (x\<lparr>dw_last_sync := now\<rparr>)"
  have "remove_pending_draft_contact (de_order env) c (dr_local_timestamp (draft_of x c)) (dw_marks x) = Some (dw_marks x)"
    using Cons.prems by (simp add: remove_pending_draft_contact_def served_def)
  then have "post_pending_drafts env now x = Some ([c], ?y)"
    using Cons.prems by (simp add: post_pending_drafts_def remove_mark_def get_next_pending_draft_contact_def Let_def)
  moreover obtain z where "serve env ts (timer_fired ?y) = Some (replicate (length ts) c, z)" "dw_marks z = dw_marks x" "dw_drafts z = dw_drafts x"
    using Cons.IH [of "timer_fired ?y"] Cons.prems by (auto simp: timer_fired_def post_after_interval_def)
  ultimately show ?case by (simp add: post_after_interval_def)
qed auto

subsection \<open>Examples\<close>

definition sample_sync :: sync_env where
  "sample_sync = \<lparr>de_junk = sample_junk, de_order = rev, de_enabled = True, de_send = \<lambda>_ _. 0\<rparr>"

definition sample_disk :: disk where
  "sample_disk = \<lparr>dk_file = None, dk_temp = None, dk_folder = True, dk_opens = True, dk_room = 9, dk_rename = True, dk_readable = 9\<rparr>"

definition world_of :: "pending_drafts \<Rightarrow> int \<Rightarrow> int \<Rightarrow> draft_world" where
  "world_of m state t = \<lparr>dw_marks = m,
     dw_drafts = (\<lambda>_. \<lparr>sto_draft = draft_default\<lparr>dr_state := state, dr_local_timestamp := t\<rparr>, sto_disk = sample_disk\<rparr>),
     dw_last_sync = 0, dw_scheduled = False, dw_timers = 0\<rparr>"

abbreviation seconds :: "int list \<Rightarrow> int list" where
  "seconds \<equiv> map ((*) pending_drafts_interval)"

theorem drafts_are_served_oldest_first_witness:
  "\<exists>m y z. mk_pending_drafts (mk_storage (Some (file_of (map entry_bytes [(5, [97]), (3, [98])])))) = Some m \<and>
    serve sample_sync (seconds [1, 2, 3]) (world_of m draft_local 9) = Some ([[98]], y) \<and>
    serve_starts sample_sync [seconds [1, 2, 3], seconds [4, 5, 6]] (world_of m draft_local 9) = Some ([[98], [97]], z)"
proof -
  let ?es = "[(5 :: int, [97 :: byte]), (3, [98])]"
  let ?st = "mk_storage (Some (file_of (map entry_bytes ?es)))"
  have st: "can_use_file ?st" "contents ?st = file_of (map entry_bytes ?es)"
    by (simp_all add: can_use_file_def mk_storage_def contents_def)
  have good: "list_all good_entry ?es" by (simp add: good_entry_def i64_range_def)
  obtain m where m: "mk_pending_drafts ?st = Some m" using load_all_entries [OF st good] by blast
  let ?x = "world_of m draft_local 9"
  have env: "de_enabled sample_sync" "dw_timers ?x = 0" "mk_pending_drafts ?st = Some (dw_marks ?x)"
    using m by (simp_all add: sample_sync_def world_of_def)
  have ready: "ready sample_sync ?x ?es" "first_sent sample_sync ?x e" for e
    by (simp_all add: ready_def answered_def first_sent_def sent_now_def sample_sync_def world_of_def draft_local_def draft_synced_def)
  have clock: "spaced (dw_last_sync ?x) (concat [seconds [1, 2, 3], seconds [4, 5, 6]])"
    "\<forall>ts\<in>set [seconds [1, 2, 3], seconds [4, 5, 6]]. length ?es < length ts"
    "length ?es \<le> length [seconds [1, 2, 3], seconds [4, 5, 6]]"
    by (simp_all add: world_of_def pending_drafts_interval_def)
  from drafts_are_served_oldest_first [OF st good env(1,2) ready(1) env(3) clock] m show ?thesis
    by (auto simp: ready(2))
qed

theorem older_draft_blocks_the_queue_witness:
  "\<exists>z. serve sample_sync (seconds [1, 2, 3, 4]) (world_of (no_drafts\<lparr>pd_prev := [(8, [97]), (5, [98])]\<rparr>) draft_synced 0) =
      Some ([[98], [98], [98], [98]], z) \<and> pd_prev (dw_marks z) = [(8, [97]), (5, [98])]"
proof -
  let ?x = "world_of (no_drafts\<lparr>pd_prev := [(8, [97]), (5, [98])]\<rparr>) draft_synced 0"
  have "pd_prev (dw_marks ?x) = [(8, [97])] @ [(5, [98])]" "[98 :: byte] \<noteq> []" "map_of (pd_current (dw_marks ?x)) [98] = None"
    "dr_state (draft_of ?x [98]) = draft_synced" "dr_local_timestamp (draft_of ?x [98]) < 5"
    "spaced (dw_last_sync ?x) (seconds [1, 2, 3, 4])"
    by (simp_all add: world_of_def no_drafts_def pending_drafts_interval_def)
  from older_draft_blocks_the_queue [OF this, of sample_sync] show ?thesis
    by (auto simp: world_of_def numeral_eq_Suc)
qed

end
