(* ===== verification/Mentions.thy ===== *)
theory Mentions
  imports Drafts Dlg_State Block_Loop
begin

text \<open>
  The messages of a dialog that mention the user (\<^verbatim>\<open>core/archive/mentions_me.cpp\<close>): a map by message id, and a
  file with one block per message to which new ones are appended. A message is a value: the map shares it with
  its caller, who does not change it.
\<close>

subsection \<open>The class\<close>

record mentions_me =
  mm_messages :: "history_message omap"
  mm_loaded :: bool
  mm_storage :: storage

definition mk_mentions :: "storage \<Rightarrow> mentions_me" where
  "mk_mentions st = \<lparr>mm_messages = [], mm_loaded = False, mm_storage = st\<rparr>"

definition get_mentions :: "mentions_me \<Rightarrow> history_message list" where
  "get_mentions x = map snd (mm_messages x)"

definition mentions_unserialize ::
  "reader \<Rightarrow> binary_stream \<Rightarrow> history_message omap \<Rightarrow> (bool \<times> binary_stream \<times> history_message omap) option" where
  "mentions_unserialize rd d ms = do {
     (code, m, d) \<leftarrow> message_unserialize rd d init_default;
     Some (if code \<noteq> 0 then (False, d, ms) else (True, d, om_assign (hm_msgid m) m ms))
   }"

text \<open>What was there before goes back into the map, where it gives way to what the file has.\<close>

definition load_mentions :: "reader \<Rightarrow> mentions_me \<Rightarrow> (bool \<times> mentions_me) option" where
  "load_mentions rd x =
     (if mm_loaded x then Some (True, x)
      else case storage_open (mode_zero\<lparr>sm_read := True\<rparr>) (mm_storage x) of
        (False, st) \<Rightarrow> Some (False, x\<lparr>mm_storage := st\<rparr>)
      | (True, st) \<Rightarrow>
          map_option (\<lambda>(ended, ms, st).
              let ms = fold (\<lambda>(i, m). om_emplace i m) (mm_messages x) ms;
                  ok = (ended \<and> st_last_error st = end_of_file)
              in (ok, x\<lparr>mm_messages := ms, mm_loaded := ok, mm_storage := storage_close st\<rparr>))
            (read_blocks (\<lambda>_. mentions_unserialize rd) [] st empty_stream))"

definition save_mentions :: "junk \<Rightarrow> mentions_me \<Rightarrow> (bool \<times> mentions_me) option" where
  "save_mentions junk x =
     (case storage_open (mode_zero\<lparr>sm_write := True, sm_truncate := True\<rparr>) (mm_storage x) of
        (False, st) \<Rightarrow> Some (False, x\<lparr>mm_storage := st\<rparr>)
      | (True, st) \<Rightarrow>
          map_option (\<lambda>st. (True, x\<lparr>mm_storage := storage_close st\<rparr>))
            (write_all_blocks (message_serialize junk) (map snd (mm_messages x)) empty_stream st))"

definition save_mention :: "junk \<Rightarrow> history_message \<Rightarrow> mentions_me \<Rightarrow> (result_type \<times> mentions_me) option" where
  "save_mention junk m x =
     (case storage_open (mode_zero\<lparr>sm_write := True, sm_append := True\<rparr>) (mm_storage x) of
        (False, st) \<Rightarrow> Some ((False, 0), x\<lparr>mm_storage := st\<rparr>)
      | (True, st) \<Rightarrow>
          map_option (\<lambda>(r, _, _, st). (r, x\<lparr>mm_storage := storage_close st\<rparr>))
            (write_data_block (message_serialize junk m empty_stream) 0 st))"

definition add_mention :: "junk \<Rightarrow> history_message \<Rightarrow> mentions_me \<Rightarrow> mentions_me option" where
  "add_mention junk m x =
     (if has_msgid m \<and> om_find (hm_msgid m) (mm_messages x) = None
      then map_option snd (save_mention junk m (x\<lparr>mm_messages := om_emplace (hm_msgid m) m (mm_messages x)\<rparr>))
      else Some x)"

definition delete_mentions_up_to :: "junk \<Rightarrow> int \<Rightarrow> mentions_me \<Rightarrow> mentions_me option" where
  "delete_mentions_up_to junk up_to x =
     (let ms = mm_messages x; i = om_lower_bound up_to ms
      in if i < length ms
         then map_option snd (save_mentions junk
           (x\<lparr>mm_messages := drop (if fst (ms ! i) = up_to then Suc i else i) ms\<rparr>))
         else if ms \<noteq> [] then map_option snd (save_mentions junk (x\<lparr>mm_messages := []\<rparr>))
         else Some x)"

definition first_mention_id :: "mentions_me \<Rightarrow> int option" where
  "first_mention_id x = (case mm_messages x of [] \<Rightarrow> None | (i, _) # _ \<Rightarrow> Some i)"

subsection \<open>The file\<close>

definition mention_bytes :: "junk \<Rightarrow> history_message \<Rightarrow> bytes" where
  "mention_bytes junk m = enc_fields (map tlv_view (message_fields junk m []))"

definition good_mention :: "junk \<Rightarrow> history_message \<Rightarrow> bool" where
  "good_mention junk m \<longleftrightarrow> good_message m \<and> (hm_json m = [] \<or> hm_sender_aimid m = []) \<and> has_msgid m \<and>
     length (mention_bytes junk m) \<le> 1024 * 1024"

lemma mention_bytes_nonempty: "mention_bytes junk m \<noteq> []"
  by (simp add: mention_bytes_def enc_fields_empty del: enc_fields_simps) (simp add: message_fields_def)

lemma good_mention_block: "good_mention junk m \<Longrightarrow> good_block (mention_bytes junk m)"
  using mention_bytes_nonempty by (simp add: good_mention_def good_block_def)

lemma mention_written:
  "wf_stream d \<Longrightarrow> pending d = [] \<Longrightarrow> wf_stream (message_serialize junk m d) \<and> pending (message_serialize junk m d) = mention_bytes junk m"
  by (simp add: message_serialize_def message_stream mention_bytes_def)

lemma mention_read:
  assumes "wf_stream d" and "pending d = mention_bytes junk m" and "good_mention junk m"
  shows "\<exists>d'. mentions_unserialize rd d ms = Some (True, d', om_assign (hm_msgid m) (stored_message junk rd m) ms)"
proof -
  have "fits (message_fields junk m [])" using assms(3) by (simp add: good_mention_def flip: mention_bytes_def)
  with unserialize_written_message [of m junk d rd] assms obtain d' where
    "message_unserialize rd d init_default = Some (0, stored_message junk rd m, d')"
    by (auto simp: good_mention_def mention_bytes_def)
  moreover have "hm_msgid (stored_message junk rd m) = hm_msgid m" by (simp add: stored_message_def)
  ultimately show ?thesis by (simp add: mentions_unserialize_def)
qed

text \<open>The file holds the messages of the map, in the order in which they came.\<close>

definition mentions_kept :: "junk \<Rightarrow> mentions_me \<Rightarrow> bool" where
  "mentions_kept junk x \<longleftrightarrow> can_use_file (mm_storage x) \<and> om_ok (mm_messages x) \<and>
     (\<forall>(i, m)\<in>set (mm_messages x). i = hm_msgid m \<and> good_mention junk m) \<and>
     (\<exists>es. contents (mm_storage x) = file_of (map (mention_bytes junk) es) \<and> distinct (map hm_msgid es) \<and>
        set es = snd ` set (mm_messages x))"

lemma om_ext:
  assumes "om_ok xs" and "om_ok ys" and "\<And>i. om_find i xs = om_find i ys"
  shows "xs = ys"
proof (rule map_sorted_distinct_set_unique)
  show "inj_on fst (set xs \<union> set ys)"
    using om_find_mem [OF assms(1)] om_find_mem [OF assms(2)] assms(3) by (fastforce simp: inj_on_def)
  show "sorted (map fst xs)" "distinct (map fst xs)" "sorted (map fst ys)" "distinct (map fst ys)"
    using assms(1,2) by (simp_all add: om_ok_def strict_sorted_iff)
  show "set xs = set ys" using om_find_mem [OF assms(1)] om_find_mem [OF assms(2)] assms(3) by auto
qed

lemma om_empty: "om_ok []" "om_find j [] = None"
  by (simp_all add: om_ok_def om_find_def)

text \<open>Reading the messages of a file one after the other makes the map of the stored messages.\<close>

lemma om_ok_assign: "om_ok ms \<Longrightarrow> om_ok (om_assign i m ms)"
  by (simp add: om_assign_def std_map.ok_emplace std_map.ok_modify)

lemma om_find_assign: "om_ok ms \<Longrightarrow> om_find j (om_assign i m ms) = (if j = i then Some m else om_find j ms)"
  by (auto simp: om_assign_def om_find_emplace om_find_modify option.map_ident split: option.split)

lemma fold_assign:
  "om_ok ms \<Longrightarrow> distinct (map hm_msgid es) \<Longrightarrow>
    om_ok (fold (\<lambda>m. om_assign (hm_msgid m) (f m)) es ms) \<and>
    (\<forall>j. om_find j (fold (\<lambda>m. om_assign (hm_msgid m) (f m)) es ms) =
      (case find (\<lambda>m. hm_msgid m = j) es of None \<Rightarrow> om_find j ms | Some m \<Rightarrow> Some (f m)))"
proof (induction es arbitrary: ms)
  case (Cons e es)
  have "find (\<lambda>m. hm_msgid m = hm_msgid e) es = None" using Cons.prems(2) by (auto simp: find_None_iff image_iff)
  with Cons.IH [OF om_ok_assign [OF Cons.prems(1)], of "hm_msgid e" "f e"] Cons.prems show ?case
    by (auto simp: om_find_assign split: option.split)
qed simp

lemma load_mentions_kept:
  assumes "mentions_kept junk x"
  shows "\<exists>ok y. load_mentions rd (mk_mentions (mm_storage x)) = Some (ok, y) \<and>
    mm_messages y = map (\<lambda>(i, m). (i, stored_message junk rd m)) (mm_messages x) \<and>
    (mm_messages x \<noteq> [] \<longrightarrow> ok)"
proof -
  let ?st = "mm_storage x" and ?ms = "mm_messages x"
  obtain es where x: "can_use_file ?st" "om_ok ?ms" "\<forall>(i, m)\<in>set ?ms. i = hm_msgid m \<and> good_mention junk m"
    "contents ?st = file_of (map (mention_bytes junk) es)" "distinct (map hm_msgid es)" "set es = snd ` set ?ms"
    using assms unfolding mentions_kept_def by blast
  have good: "\<forall>m\<in>set es. good_mention junk m" using x(3,6) by auto
  show ?thesis
  proof (cases "st_file ?st = None")
    case True
    then have "es = []" using x(4) by (cases es) (simp_all add: contents_def)
    then have "?ms = []" using x(6) by simp
    with True x(1) show ?thesis
      by (auto simp: load_mentions_def mk_mentions_def storage_open_def mode_zero_def can_use_file_def)
  next
    case False
    obtain st1 where o: "storage_open (mode_zero\<lparr>sm_read := True\<rparr>) ?st = (True, st1)" "open_reading st1" "unread st1 = contents ?st"
      using open_read_all [OF x(1) False] by blast
    let ?step = "\<lambda>m. om_assign (hm_msgid m) (stored_message junk rd m)"
    have one: "\<exists>d'. (\<lambda>_. mentions_unserialize rd) st d ms = Some (True, d', ?step m ms)"
      if "wf_stream d" "pending d = mention_bytes junk m" "m \<in> set es" for st :: storage and d ms m
      using mention_read [OF that(1,2)] good that(3) by blast
    have u: "unread st1 = file_of (map (mention_bytes junk) es)" using o(3) x(4) by simp
    have "list_all (\<lambda>m. good_block (mention_bytes junk m)) es" using good good_mention_block by (auto simp: list_all_iff)
    from read_blocks_of [where body = "\<lambda>_. mentions_unserialize rd" and step = ?step, OF one o(2) u this] obtain st2 where
      r: "read_blocks (\<lambda>_. mentions_unserialize rd) [] st1 empty_stream = Some (True, fold ?step es [], st2)"
      "st_last_error st2 = end_of_file" by blast
    let ?ys = "map (\<lambda>(i, m). (i, stored_message junk rd m)) ?ms"
    have f: "om_ok (fold ?step es [])" "om_find j (fold ?step es []) =
        (case find (\<lambda>m. hm_msgid m = j) es of None \<Rightarrow> None | Some m \<Rightarrow> Some (stored_message junk rd m))" for j
      using fold_assign [of "[]" es "stored_message junk rd"] x(5) by (simp_all add: om_empty split: option.split)
    have "fold ?step es [] = ?ys"
    proof (rule om_ext [OF f(1)])
      show "om_ok ?ys" using x(2) by (simp add: om_ok_def comp_def case_prod_beta)
      fix j
      have ys: "om_find j ?ys = map_option (stored_message junk rd) (om_find j ?ms)"
        by (induction ?ms) (auto simp: om_find_def map_of_map)
      have "find (\<lambda>m. hm_msgid m = j) es = om_find j ?ms"
      proof (cases "om_find j ?ms")
        case None
        have "hm_msgid m \<noteq> j" if m: "m \<in> set es" for m
        proof -
          obtain i where i: "(i, m) \<in> set ?ms" using m x(6) by auto
          then have "i = hm_msgid m" using x(3) by blast
          with i None om_find_mem [OF x(2)] show ?thesis by auto
        qed
        with None show ?thesis by (simp add: find_None_iff)
      next
        case (Some m)
        then have "m \<in> set es" "hm_msgid m = j" using x(3,6) om_find_mem [OF x(2), of j m] by force+
        with x(5) have "find (\<lambda>m. hm_msgid m = j) es = Some m"
          by (induction es) (auto simp: image_iff)
        with Some show ?thesis by simp
      qed
      then show "om_find j (fold ?step es []) = om_find j ?ys" using f(2) ys by (simp split: option.split)
    qed
    then show ?thesis using o(1) r by (auto simp: load_mentions_def mk_mentions_def)
  qed
qed

subsection \<open>The calls\<close>

datatype mention_call = Mention_Added history_message | Mentions_Deleted int

fun run_mention_call :: "junk \<Rightarrow> mention_call \<Rightarrow> mentions_me \<Rightarrow> mentions_me option" where
  "run_mention_call junk (Mention_Added m) x = add_mention junk m x"
| "run_mention_call junk (Mentions_Deleted i) x = delete_mentions_up_to junk i x"

text \<open>To its owner the object is a map.\<close>

fun mention_step :: "mention_call \<Rightarrow> (int \<Rightarrow> history_message option) \<Rightarrow> int \<Rightarrow> history_message option" where
  "mention_step (Mention_Added m) A = (if has_msgid m \<and> A (hm_msgid m) = None then A(hm_msgid m \<mapsto> m) else A)"
| "mention_step (Mentions_Deleted up_to) A = A |` {i. up_to < i}"

fun good_mention_call :: "junk \<Rightarrow> mention_call \<Rightarrow> bool" where
  "good_mention_call junk (Mention_Added m) \<longleftrightarrow> good_mention junk m"
| "good_mention_call junk (Mentions_Deleted i) \<longleftrightarrow> True"

fun mention_size :: "junk \<Rightarrow> mention_call \<Rightarrow> nat" where
  "mention_size junk (Mention_Added m) = 16 + length (mention_bytes junk m)"
| "mention_size junk (Mentions_Deleted i) = 0"

definition mentions_size :: "junk \<Rightarrow> history_message omap \<Rightarrow> nat" where
  "mentions_size junk ms = length (file_of (map (mention_bytes junk) (map snd ms)))"

lemma mentions_size_simps [simp]: "mentions_size junk [] = 0"
  "mentions_size junk (x # ms) = 16 + length (mention_bytes junk (snd x)) + mentions_size junk ms"
  "mentions_size junk (ms @ ns) = mentions_size junk ms + mentions_size junk ns"
  by (simp_all add: mentions_size_def)

lemma mentions_size_emplace: "mentions_size junk (om_emplace i m ms) \<le> mentions_size junk ms + (16 + length (mention_bytes junk m))"
  by (induction i m ms rule: om_emplace.induct) auto

lemma mentions_size_drop: "mentions_size junk (drop n ms) \<le> mentions_size junk ms"
  by (metis append_take_drop_id le_add2 mentions_size_simps(3))

lemma drop_up_to:
  assumes "om_ok ms"
  shows "(if om_lower_bound k ms < length ms then drop (if fst (ms ! om_lower_bound k ms) = k then Suc (om_lower_bound k ms)
      else om_lower_bound k ms) ms else []) = filter (\<lambda>(i, _). k < i) ms"
  using assms
proof (induction ms)
  case (Cons x ms)
  obtain i m where x: "x = (i, m)" by (cases x)
  have later: "\<forall>y\<in>set ms. i < fst y" "om_ok ms" using Cons.prems by (simp_all add: x om_ok_Cons)
  show ?case
  proof (cases "i < k")
    case True
    then have "om_lower_bound k (x # ms) = Suc (om_lower_bound k ms)" by (simp add: om_lower_bound_def x)
    then show ?thesis using Cons.IH [OF later(2)] True by (auto simp: x split: if_splits)
  next
    case False
    then have "om_lower_bound k (x # ms) = 0" by (simp add: om_lower_bound_def x)
    moreover have "filter (\<lambda>(i, _). k < i) ms = ms" using later(1) False by (auto simp: filter_id_conv)
    ultimately show ?thesis using False by (auto simp: x)
  qed
qed (simp add: om_lower_bound_def)

lemma find_kept: "om_find j (filter (\<lambda>(i, _). k < i) ms) = ((\<lambda>i. om_find i ms) |` {i. k < i}) j"
  by (induction ms) (auto simp: om_find_def restrict_map_def)

lemma delete_is_filter:
  assumes "om_ok (mm_messages x)"
  shows "delete_mentions_up_to junk k x = (if mm_messages x = [] then Some x
    else map_option snd (save_mentions junk (x\<lparr>mm_messages := filter (\<lambda>(i, _). k < i) (mm_messages x)\<rparr>)))"
  using drop_up_to [OF assms, of k] by (auto simp: delete_mentions_up_to_def Let_def om_lower_bound_def split: if_splits)

lemma save_mentions_keeps:
  assumes "can_use_file (mm_storage x)" and "om_ok (mm_messages x)"
    and "\<forall>(i, m)\<in>set (mm_messages x). i = hm_msgid m \<and> good_mention junk m"
    and "mentions_size junk (mm_messages x) \<le> st_room (mm_storage x)"
  shows "\<exists>st. save_mentions junk x = Some (True, x\<lparr>mm_storage := st\<rparr>) \<and> mentions_kept junk (x\<lparr>mm_storage := st\<rparr>) \<and>
    st_room (mm_storage x) \<le> st_room st + mentions_size junk (mm_messages x)"
proof -
  define es where "es = map snd (mm_messages x)"
  obtain st1 where o: "storage_open (mode_zero\<lparr>sm_write := True, sm_truncate := True\<rparr>) (mm_storage x) = (True, st1)" "appending st1"
    "contents st1 = []" "st_room st1 = st_room (mm_storage x)" "can_use_file (storage_close st1)"
    using open_truncate [OF assms(1)] by blast
  have g: "list_all (\<lambda>m. good_block (mention_bytes junk m)) es"
    using assms(3) good_mention_block by (auto simp: es_def list_all_iff)
  have "length (file_of (map (mention_bytes junk) es)) \<le> st_room st1" using assms(4) o(4) by (simp add: mentions_size_def es_def)
  from write_all_blocks_works [where ser = "message_serialize junk" and d = empty_stream, OF mention_written o(2) g this] obtain st2 where
    w: "write_all_blocks (message_serialize junk) es empty_stream st1 = Some st2"
    "contents st2 = file_of (map (mention_bytes junk) es)"
    "st_room st2 = st_room st1 - length (file_of (map (mention_bytes junk) es))" "can_use_file (storage_close st2)"
    using o(3,5) by auto
  let ?x = "x\<lparr>mm_storage := storage_close st2\<rparr>"
  have c: "contents (storage_close st2) = contents st2" "st_room (storage_close st2) = st_room st2"
    by (simp_all add: storage_close_def contents_def)
  have "map hm_msgid es = map fst (mm_messages x)" using assms(3) by (auto simp: es_def)
  then have "distinct (map hm_msgid es)" using om_ok_distinct [OF assms(2)] by simp
  moreover have "set es = snd ` set (mm_messages x)" by (simp add: es_def)
  ultimately have "mentions_kept junk ?x"
    unfolding mentions_kept_def using w(2,4) c(1) assms(2,3) by (intro conjI exI [of _ es]) simp_all
  moreover have "save_mentions junk x = Some (True, ?x)" using o(1) w(1) by (simp add: save_mentions_def es_def)
  moreover have "st_room (mm_storage x) \<le> st_room (storage_close st2) + mentions_size junk (mm_messages x)"
    using w(3) o(4) c(2) by (simp add: mentions_size_def es_def)
  ultimately show ?thesis by blast
qed

lemma save_mention_appends:
  assumes "can_use_file (mm_storage x)" and "good_mention junk m" and "16 + length (mention_bytes junk m) \<le> st_room (mm_storage x)"
  shows "\<exists>r st. save_mention junk m x = Some (r, x\<lparr>mm_storage := st\<rparr>) \<and> can_use_file st \<and>
    contents st = contents (mm_storage x) @ enc_block (mention_bytes junk m) \<and>
    st_room (mm_storage x) = st_room st + (16 + length (mention_bytes junk m))"
proof -
  obtain st1 where o: "storage_open (mode_zero\<lparr>sm_write := True, sm_append := True\<rparr>) (mm_storage x) = (True, st1)" "appending st1"
    "contents st1 = contents (mm_storage x)" "st_room st1 = st_room (mm_storage x)" "can_use_file (storage_close st1)"
    using open_append [OF assms(1)] by blast
  have d: "wf_stream (message_serialize junk m empty_stream)" "pending (message_serialize junk m empty_stream) = mention_bytes junk m"
    using mention_written [of empty_stream junk m] by simp_all
  have len: "mention_bytes junk m \<noteq> []" "length (mention_bytes junk m) < 2 ^ 32"
    using mention_bytes_nonempty assms(2) by (simp_all add: good_mention_def)
  obtain d' st2 where w: "write_data_block (message_serialize junk m empty_stream) 0 st1 =
      Some ((True, 0), int (length (contents st1)), d', st2)" "contents st2 = contents st1 @ enc_block (mention_bytes junk m)"
    "st_room st2 = st_room st1 - (16 + length (mention_bytes junk m))"
    using write_data_block_append [OF o(2) d(1), of 0] d(2) len assms(3) o(4) by auto
  have "can_use_file (storage_close st2)" using same_env_can_use [OF write_data_block_env [OF w(1)]] o(5) by blast
  with o(1,3,4) w assms(3) show ?thesis
    by (intro exI [of _ "(True, 0)"] exI [of _ "storage_close st2"]) (simp add: save_mention_def storage_close_def contents_def)
qed

definition mention_map :: "mentions_me \<Rightarrow> int \<Rightarrow> history_message option" where
  "mention_map x i = om_find i (mm_messages x)"

lemma mention_call_works:
  assumes "mentions_kept junk x" and "good_mention_call junk k"
    and "mentions_size junk (mm_messages x) + mention_size junk k \<le> st_room (mm_storage x)"
  shows "\<exists>x'. run_mention_call junk k x = Some x' \<and> mentions_kept junk x' \<and> mention_map x' = mention_step k (mention_map x) \<and>
    mentions_size junk (mm_messages x') \<le> mentions_size junk (mm_messages x) + mention_size junk k \<and>
    st_room (mm_storage x) \<le> st_room (mm_storage x') + (mentions_size junk (mm_messages x) + mention_size junk k)"
proof -
  let ?ms = "mm_messages x"
  obtain es where x: "can_use_file (mm_storage x)" "om_ok ?ms" "\<forall>(i, m)\<in>set ?ms. i = hm_msgid m \<and> good_mention junk m"
    "contents (mm_storage x) = file_of (map (mention_bytes junk) es)" "distinct (map hm_msgid es)" "set es = snd ` set ?ms"
    using assms(1) unfolding mentions_kept_def by blast
  show ?thesis
  proof (cases k)
    case (Mention_Added m)
    show ?thesis
    proof (cases "has_msgid m \<and> om_find (hm_msgid m) ?ms = None")
      case False
      then have "run_mention_call junk k x = Some x" "mention_step k (mention_map x) = mention_map x"
        by (auto simp: Mention_Added add_mention_def mention_map_def)
      with assms(1) show ?thesis by auto
    next
      case True
      let ?y = "x\<lparr>mm_messages := om_emplace (hm_msgid m) m ?ms\<rparr>"
      have m: "good_mention junk m" "16 + length (mention_bytes junk m) \<le> st_room (mm_storage ?y)"
        using assms(2,3) Mention_Added by simp_all
      obtain r st where s: "save_mention junk m ?y = Some (r, ?y\<lparr>mm_storage := st\<rparr>)" "can_use_file st"
        "contents st = contents (mm_storage ?y) @ enc_block (mention_bytes junk m)"
        "st_room (mm_storage ?y) = st_room st + (16 + length (mention_bytes junk m))"
        using save_mention_appends [of ?y, OF _ m] x(1) by auto
      have new: "hm_msgid m \<notin> fst ` set ?ms" using True by (simp add: om_find_None)
      then have set: "set (om_emplace (hm_msgid m) m ?ms) = insert (hm_msgid m, m) (set ?ms)" by (simp add: set_om_emplace [OF x(2)])
      have "hm_msgid m \<notin> hm_msgid ` set es"
      proof
        assume "hm_msgid m \<in> hm_msgid ` set es"
        then obtain i m' where "(i, m') \<in> set ?ms" "hm_msgid m' = hm_msgid m" using x(6) by auto
        with x(3) new show False by force
      qed
      with x(5) have "distinct (map hm_msgid (es @ [m]))" by auto
      moreover have "set (es @ [m]) = snd ` set (om_emplace (hm_msgid m) m ?ms)" using x(6) set by simp
      moreover have "contents st = file_of (map (mention_bytes junk) (es @ [m]))" using s(3) x(4) by simp
      moreover have "\<forall>(i, m)\<in>set (om_emplace (hm_msgid m) m ?ms). i = hm_msgid m \<and> good_mention junk m"
        using x(3) m(1) set by auto
      ultimately have "mentions_kept junk (?y\<lparr>mm_storage := st\<rparr>)"
        unfolding mentions_kept_def using s(2) std_map.ok_emplace [OF x(2)] by (intro conjI exI [of _ "es @ [m]"]) simp_all
      moreover have "mention_map (?y\<lparr>mm_storage := st\<rparr>) = mention_step k (mention_map x)"
        using True by (auto simp: Mention_Added mention_map_def om_find_emplace [OF x(2)] fun_eq_iff)
      ultimately show ?thesis
        using s(1,4) True mentions_size_emplace [of junk "hm_msgid m" m ?ms] by (auto simp: Mention_Added add_mention_def)
    qed
  next
    case (Mentions_Deleted up_to)
    let ?y = "x\<lparr>mm_messages := filter (\<lambda>(i, _). up_to < i) ?ms\<rparr>"
    have f: "mention_map ?y = mention_step k (mention_map x)"
      by (simp add: Mentions_Deleted mention_map_def [abs_def] find_kept fun_eq_iff)
    have "mentions_size junk (filter (\<lambda>(i, _). up_to < i) ms) \<le> mentions_size junk ms" for ms
      by (induction ms) auto
    note smaller = this [of ?ms]
    show ?thesis
    proof (cases "?ms = []")
      case True
      then have "run_mention_call junk k x = Some x" using delete_is_filter [OF x(2)] by (simp add: Mentions_Deleted)
      moreover have "mention_map ?y = mention_map x" using True by (simp add: mention_map_def [abs_def])
      ultimately show ?thesis using assms(1) f by auto
    next
      case False
      have y: "can_use_file (mm_storage ?y)" "om_ok (mm_messages ?y)"
        "\<forall>(i, m)\<in>set (mm_messages ?y). i = hm_msgid m \<and> good_mention junk m"
        "mentions_size junk (mm_messages ?y) \<le> st_room (mm_storage ?y)"
        using x(1,3) om_ok_filter [OF x(2)] smaller assms(3) by auto
      from save_mentions_keeps [OF y] obtain st where "save_mentions junk ?y = Some (True, ?y\<lparr>mm_storage := st\<rparr>)"
        "mentions_kept junk (?y\<lparr>mm_storage := st\<rparr>)" "st_room (mm_storage ?y) \<le> st_room st + mentions_size junk (mm_messages ?y)" by blast
      moreover have "mention_map (?y\<lparr>mm_storage := st\<rparr>) = mention_map ?y" by (simp add: mention_map_def [abs_def])
      ultimately show ?thesis using False f smaller by (auto simp: Mentions_Deleted delete_is_filter [OF x(2)])
    qed
  qed
qed

interpretation mentions: kept_on_disk "run_mention_call junk" "mentions_kept junk" "good_mention_call junk"
  mention_map mention_step "\<lambda>x. mentions_size junk (mm_messages x)" "mention_size junk" "\<lambda>x. st_room (mm_storage x)" for junk
  by unfold_locales (rule mention_call_works)

text \<open>C27: The mentions are a map that survives a restart: after any additions and deletions, with enough room for what
  each of them writes, the object holds what a map would, and a new object made from the file holds the stored
  form of the same messages, in the order of their ids.\<close>

theorem mentions_survive_restart:
  assumes "mentions_kept junk x" and "list_all (good_mention_call junk) ks"
    and "length ks * (mentions_size junk (mm_messages x) + sum_list (map (mention_size junk) ks)) \<le> st_room (mm_storage x)"
  shows "\<exists>x' ok y. run_all (run_mention_call junk) ks x = Some x' \<and> mention_map x' = fold mention_step ks (mention_map x) \<and>
    load_mentions rd (mk_mentions (mm_storage x')) = Some (ok, y) \<and>
    get_mentions y = map (stored_message junk rd) (get_mentions x') \<and>
    mention_map y = map_option (stored_message junk rd) \<circ> mention_map x' \<and> sorted_wrt (<) (map hm_msgid (get_mentions x'))"
proof -
  obtain x' where x': "run_all (run_mention_call junk) ks x = Some x'" "mentions_kept junk x'"
    "mention_map x' = fold mention_step ks (mention_map x)" using mentions.calls [OF assms] by blast
  obtain ok y where y: "load_mentions rd (mk_mentions (mm_storage x')) = Some (ok, y)"
    "mm_messages y = map (\<lambda>(i, m). (i, stored_message junk rd m)) (mm_messages x')"
    using load_mentions_kept [OF x'(2)] by blast
  have "om_find i (map (\<lambda>(i, m). (i, stored_message junk rd m)) ms) = map_option (stored_message junk rd) (om_find i ms)" for i ms
    by (simp add: om_find_def map_of_map)
  then have "mention_map y = map_option (stored_message junk rd) \<circ> mention_map x'" using y(2) by (simp add: mention_map_def fun_eq_iff)
  moreover have "get_mentions y = map (stored_message junk rd) (get_mentions x')"
    using y(2) by (simp add: get_mentions_def comp_def case_prod_beta)
  moreover have "map hm_msgid (get_mentions x') = map fst (mm_messages x')" "om_ok (mm_messages x')"
    using x'(2) by (auto simp: mentions_kept_def get_mentions_def)
  ultimately show ?thesis using x'(1,3) y(1) by (auto simp: om_ok_def)
qed

subsection \<open>An example\<close>

theorem mentions_survive_restart_witness:
  "\<exists>x' ok y. run_all (run_mention_call sample_junk) [Mention_Added sample_message, Mentions_Deleted 3] (mk_mentions (mk_storage None)) = Some x' \<and>
    load_mentions \<lparr>rd_junk = sample_junk, rd_parse = \<lambda>_ _ m. (0, m), rd_buttons = \<lambda>_. []\<rparr> (mk_mentions (mm_storage x')) = Some (ok, y) \<and>
    mention_map y 7 = Some sample_message"
proof -
  let ?x = "mk_mentions (mk_storage None)" and ?ks = "[Mention_Added sample_message, Mentions_Deleted 3]"
  let ?rd = "\<lparr>rd_junk = sample_junk, rd_parse = \<lambda>_ _ m. (0, m), rd_buttons = \<lambda>_. []\<rparr>"
  have n: "length (mention_bytes sample_junk sample_message) \<le> 1024 * 1024"
    by (simp add: mention_bytes_def sample_message_def init_default_def pv_default_def quote_default_def task_default_def
        message_fields_def quote_serialize_def task_serialize_fields task_fields_def mention_serialize_def
        reactions_serialize_def sticker_serialize_def serialize_opt_def)
  have i: "hm_msgid sample_message = 7" by (simp add: sample_message_def)
  have "mentions_kept sample_junk ?x"
    by (auto simp: mentions_kept_def mk_mentions_def can_use_file_def mk_storage_def contents_def om_ok_def intro!: exI [of _ "[]"])
  moreover have "list_all (good_mention_call sample_junk) ?ks"
    using n good_sample i by (simp add: good_mention_def has_msgid_def)
  moreover have "length ?ks * (mentions_size sample_junk (mm_messages ?x) + sum_list (map (mention_size sample_junk) ?ks)) \<le>
      st_room (mm_storage ?x)"
    using n by (simp add: mk_mentions_def mk_storage_def)
  moreover have "mention_map ?x = Map.empty" by (simp add: mention_map_def mk_mentions_def om_find_def fun_eq_iff)
  then have "fold mention_step ?ks (mention_map ?x) = [7 \<mapsto> sample_message]"
    using i by (auto simp: has_msgid_def restrict_map_def fun_eq_iff)
  ultimately obtain x' ok y where "run_all (run_mention_call sample_junk) ?ks ?x = Some x'" "mention_map x' = [7 \<mapsto> sample_message]"
    "load_mentions ?rd (mk_mentions (mm_storage x')) = Some (ok, y)"
    "mention_map y = map_option (stored_message sample_junk ?rd) \<circ> mention_map x'"
    using mentions_survive_restart [of sample_junk ?x ?ks ?rd] by metis
  then show ?thesis using stored_sample by auto
qed

end
