(* ===== verification/Spec2Isabelle.thy ===== *)
theory Spec2Isabelle
  imports Contact_Guarantees Archive_Search Pending_Guarantees Message_Records Gallery_Pages Draft_Sync Mentions
begin

text \<open>
  A verification library for the message archive of the ICQ desktop client: the part of \<^verbatim>\<open>core\<close> that keeps the
  history of every dialog on disk. All names of files are under \<^verbatim>\<open>src/\<close>.

  \<^bold>\<open>The program.\<close> Each contact has an archive (\<^verbatim>\<open>core/archive/contact_archive.cpp\<close>) of four files: the index of
  message headers, the messages, the state of the dialog and its draft. Every file is a sequence of blocks
  (\<^verbatim>\<open>storage.cpp\<close>), every block one or more packs of typed fields (\<^verbatim>\<open>core/tools/tlv.cpp\<close>) in a byte stream
  (\<^verbatim>\<open>binary_stream.h\<close>). Messages of the server are appended to the message file; the headers made from them, with
  the offset of the block, go into the map of the index and into its file. Patches and deletions are headers that
  are merged into the header of the message. The search reads the message files of several contacts into one
  buffer and walks over the blocks. What was not told to the server yet (messages, deletions) is kept in two more
  files (\<^verbatim>\<open>not_sent_messages.cpp\<close>), which drafts were not sent in a third (\<^verbatim>\<open>pending_drafts.cpp\<close>). The messages that
  mention the user are kept apart as well (\<^verbatim>\<open>mentions_me.cpp\<close>). Reactions to messages and the threads under them are records in a data file
  with an index (\<^verbatim>\<open>reactions.cpp\<close>, \<^verbatim>\<open>thread_update_storage.cpp\<close>). The gallery of a dialog is a list of linked items
  in order of their ids (\<^verbatim>\<open>gallery_cache.cpp\<close>); where a link is broken, the server is asked for what is missing.

  \<^bold>\<open>Theories, from the bottom up.\<close>
  \<^item> \<open>Prelude\<close>: bytes, little-endian images of integers, ranges, lists, the reader of scalars; the collections
    of hints. \<open>Ordered_Map\<close>: \<^verbatim>\<open>std::map\<close> with integer keys as the list of its nodes, and the interface of containers
    that insert or combine.
  \<^item> \<open>Binary_Stream\<close> (\<^verbatim>\<open>core/tools/binary_stream.h\<close>): \<open>stream_is_fifo\<close> refines it to a queue of bytes.
    \<open>Tlv\<close> (\<^verbatim>\<open>core/tools/tlv.h, .cpp\<close>) and \<open>Tlv_Codec\<close>: fields and packs, and what is read back from what was
    written. \<open>Framing\<close>: the interface of the three framings (fields, headers, blocks), interpreted in
    \<open>Tlv_Codec\<close>, \<open>Index_Roundtrip\<close> and \<open>Storage\<close>.
  \<^item> \<open>Patch_Version\<close>, \<open>Message_Flags\<close>, \<open>Message_Header\<close> (\<^verbatim>\<open>common.shared/patch_version.h\<close>, \<^verbatim>\<open>message_flags.h\<close>,
    \<^verbatim>\<open>history_message.cpp\<close>): the order of versions, the header, its stored form, how patches merge, and the inputs on
    which its reader dereferences a null pointer.
  \<^item> \<open>Storage\<close> and \<open>Fast_Scan\<close> (\<^verbatim>\<open>storage.cpp\<close>): block files over a model of the file, the device and
    \<^verbatim>\<open>std::fstream\<close>, with writes that fail half way; the scanner of the search agrees with the reader.
  \<^item> \<open>Archive_Index\<close>, \<open>Index_Holes\<close>, \<open>Index_File\<close> (\<^verbatim>\<open>archive_index.cpp\<close>): the map of headers and its links, the search
    for holes, the index file. \<open>Index_Roundtrip\<close> shows that the file keeps what the map holds; \<open>Index_Chain\<close> has the
    invariant of every reachable index, what an insertion changes, what the hole searches compute, and the bounds.
  \<^item> \<open>Message_Fields\<close>, \<open>Message_Parts\<close>, \<open>Message_Events\<close>, \<open>Message_Content\<close>, \<open>History_Message\<close>
    (\<^verbatim>\<open>history_message.cpp\<close>, \<^verbatim>\<open>poll.h\<close>, \<^verbatim>\<open>reactions.h\<close>, \<^verbatim>\<open>core/tasks\<close>, \<^verbatim>\<open>text_formatting.h\<close>): the message and its parts, with the
    stored form of each. \<open>Message_Roundtrip\<close> and \<open>Message_Store\<close> read them back.
  \<^item> \<open>Messages_Data\<close> (\<^verbatim>\<open>messages_data.cpp\<close>): the message file. \<open>Text_Search\<close> (\<^verbatim>\<open>core/tools/strings.cpp\<close> and
    \<^verbatim>\<open>kmp_strstr\<close>) and \<open>Archive_Search\<close> (\<^verbatim>\<open>search_in_archive\<close>): the search, against a pass over the stored messages, with and
    without the limit on the results.
  \<^item> \<open>Drafts\<close> (\<^verbatim>\<open>draft_storage.cpp\<close> and the whole-file functions of \<^verbatim>\<open>binary_stream.cpp\<close>), \<open>Dlg_State\<close> (\<^verbatim>\<open>dlg_state.cpp\<close>):
    the draft and the state of a dialog, saved and loaded again.
  \<^item> \<open>Contact_Archive\<close> (\<^verbatim>\<open>contact_archive.cpp\<close>) puts the four files together. \<open>Contact_Invariant\<close> has what every
    sequence of calls keeps, \<open>Contact_Reading\<close> how pages and messages are found, \<open>Contact_Guarantees\<close> what the archive
    promises its owner.
  \<^item> \<open>Pending_Messages\<close>, \<open>Pending_Operations\<close>, \<open>Pending_Storage\<close> (\<^verbatim>\<open>not_sent_messages.cpp\<close>): the queue of what the server was
    not told, and its two files, which share the interface \<open>pending_entry\<close>. \<open>Pending_Guarantees\<close>: restart, invariant,
    confirmation.
  \<^item> \<open>Block_Loop\<close>: the loop over the blocks of a file, files as lists of blocks, blocks overwritten in their place, and
    the contract \<open>kept_on_disk\<close> of stores over all their calls.
    \<open>Record_Store\<close> is the code that \<^verbatim>\<open>reactions_storage\<close> and \<^verbatim>\<open>thread_update_storage\<close> share, over the fields, the reader
    and the key of a record. \<open>Record_Refinement\<close> has the contract of a record, the locale \<open>stored_record\<close>, and shows
    that the store refines a map; \<open>Message_Records\<close> (\<^verbatim>\<open>reactions.cpp\<close>, \<^verbatim>\<open>thread_update.cpp\<close>,
    \<^verbatim>\<open>thread_update_storage.cpp\<close>, \<^verbatim>\<open>thread_parent_topic.cpp\<close>) interprets it for both records.
  \<^item> \<open>Gallery_Items\<close>, \<open>Gallery_Links\<close>, \<open>Gallery_Cache\<close> (\<^verbatim>\<open>gallery_cache.cpp\<close>): the ids and items, what an answer of the
    server does to their links, the class \<^verbatim>\<open>gallery_storage\<close>. \<open>Gallery_Guarantees\<close>: merging is a union of maps.
    \<open>Gallery_Files\<close>: restart. \<open>Gallery_Holes\<close> (\<^verbatim>\<open>im::download_gallery_holes_impl\<close> of \<^verbatim>\<open>wim_im.cpp\<close> and the calls of
    \<^verbatim>\<open>local_history.cpp\<close> it makes): downloading closes all holes, and the two answers that close one too many.
    \<open>Gallery_Pages\<close>: the invariant over all calls, and pages.
  \<^item> \<open>Draft_Contacts\<close> (\<^verbatim>\<open>pending_drafts.cpp\<close>) and \<open>Mentions\<close> (\<^verbatim>\<open>mentions_me.cpp\<close>): both interpret \<open>kept_on_disk\<close>
    and refine a map that survives a restart. \<open>Draft_Sync\<close> (\<^verbatim>\<open>im::post_pending_drafts\<close>, \<^verbatim>\<open>im::sync_draft\<close>,
    \<^verbatim>\<open>im::send_sync_draft\<close> of \<^verbatim>\<open>wim_im.cpp\<close>): what one start serves of the marks of drafts, what all starts serve, and
    what keeps a mark from being served.

  \<^bold>\<open>Conventions.\<close> Definitions follow the release build, where \<^verbatim>\<open>im_assert\<close> does nothing. \<open>None\<close> of an option monad
  is a null pointer dereference or a read out of bounds; failures the code reports are values. Strings are lists of
  bytes. Signed integers are \<open>int\<close> with range predicates where they are stored, unsigned ones are words.
  The clock, random numbers, what is in uninitialised memory (\<open>junk\<close>), the letter cases of Unicode, the JSON
  readers (record \<open>reader\<close>) and other files' existence are arguments. The file, the room left on the device and the
  errors it reports are part of a storage's state: what is written reaches the device at once, and a position before the start of a file counts as
  the start. Objects behind shared pointers are values, so two entries never
  share one. Positions in a text and times are unbounded; texts of less than 2 GiB and times of this age stay within the
  types of the code.

  \<^bold>\<open>Bounds.\<close> The loop that downloads a gallery counts its rounds, as the code does (\<^verbatim>\<open>_depth\<close>); as many as there are
  holes and one more are enough. The rounds that serve the marks of drafts are given the times at which they run; one
  more than there are marks are enough. No other definition of the code uses fuel: loops over a stream or a buffer are recursive functions that end because what is left
  gets shorter, and the ones over the index because a position moves on. A block that is read is at most 1 MiB, and the
  round trips ask for that; a page of headers is found within two rounds, and the pages of a gallery come to an end
  after no more than it has items.

  \<^bold>\<open>Not modelled.\<close> \<^verbatim>\<open>local_history\<close> passes calls to the archives on worker threads. Reading and writing JSON and the
  collections of the GUI is left to \<^verbatim>\<open>rapidjson\<close> and \<^verbatim>\<open>corelib\<close>. The connections, the network, the user interface, calls,
  stickers, settings and statistics are glue around libraries that are not in the repository; compression and
  encryption of streams call such libraries too.
\<close>

end
